(* ===== verification/HRC_Prelude.thy ===== *)
theory HRC_Prelude
  imports Main "HOL-Library.Char_ord" "HOL-Library.List_Lexorder" "HOL-Library.Product_Lexorder"
begin

text \<open>
  Shared vocabulary of the development: the optional and fallible values of the TypeScript code,
  JSON values with the serializer whose output lengths the event stream counts, thrown errors, and
  the rows of an SQLite table. A value that the code types \<open>T | undefined\<close> (or
  \<open>T | null\<close>) is \<open>'a option\<close>; an operation that may throw returns
  \<open>js_error + 'a\<close>; a row list stands for a table in rowid order.
\<close>

named_theorems hrc_keep \<open>preservation of a component's invariant\<close>

section \<open>Optional values\<close>

definition orelse :: "'a option \<Rightarrow> 'a option \<Rightarrow> 'a option" where
  "orelse a b = (case a of None \<Rightarrow> b | Some x \<Rightarrow> Some x)"

text \<open>The operator \<open>a ?? b\<close> with a non-optional right operand.\<close>

definition or_default :: "'a option \<Rightarrow> 'a \<Rightarrow> 'a" where
  "or_default a d = (case a of None \<Rightarrow> d | Some x \<Rightarrow> x)"

lemma orelse_simps [simp]:
  "orelse None b = b" "orelse (Some x) b = Some x"
  by (simp_all add: orelse_def)

lemma or_default_simps [simp]:
  "or_default None d = d" "or_default (Some x) d = x"
  by (simp_all add: or_default_def)

lemma orelse_None_iff [simp]: "orelse a b = None \<longleftrightarrow> a = None \<and> b = None"
  by (cases a) auto

section \<open>JSON values\<close>

text \<open>
  A parsed JSON value. Numbers are integers: the modelled code only reads sequence numbers, counts
  and generations. An object is the list of its own properties in insertion order, with distinct
  names, as \<open>JSON.parse\<close> and object literals build it.
\<close>

datatype json =
    JNull
  | JBool bool
  | JNum int
  | JStr string
  | JArr "json list"
  | JObj "(string \<times> json) list"

type_synonym json_object = "(string \<times> json) list"

text \<open>A text column that holds JSON: \<open>None\<close> is a text that \<open>JSON.parse\<close> rejects.\<close>

type_synonym json_text = "json option"

definition jget :: "json_object \<Rightarrow> string \<Rightarrow> json option" where
  "jget ob k = map_of ob k"

fun json_string :: "json \<Rightarrow> string option" where
  "json_string (JStr s) = Some s"
| "json_string _ = None"

fun json_number :: "json \<Rightarrow> int option" where
  "json_number (JNum n) = Some n"
| "json_number _ = None"

fun json_record :: "json \<Rightarrow> json_object option" where
  "json_record (JObj ob) = Some ob"
| "json_record _ = None"

definition jstring :: "json_object \<Rightarrow> string \<Rightarrow> string option" where
  "jstring ob k = Option.bind (jget ob k) json_string"

definition jnumber :: "json_object \<Rightarrow> string \<Rightarrow> int option" where
  "jnumber ob k = Option.bind (jget ob k) json_number"

lemma jget_Nil [simp]: "jget [] k = None"
  by (simp add: jget_def)

lemma jget_Cons [simp]: "jget ((k', v) # ob) k = (if k' = k then Some v else jget ob k)"
  by (simp add: jget_def)

lemma jget_append: "jget (xs @ ys) k = orelse (jget xs k) (jget ys k)"
  by (induction xs) (auto simp: jget_def)

subsection \<open>Serialization\<close>

definition digit_char :: "nat \<Rightarrow> char" where
  "digit_char d = char_of (48 + d)"

fun show_nat :: "nat \<Rightarrow> string" where
  "show_nat n = (if n < 10 then [digit_char n] else show_nat (n div 10) @ [digit_char (n mod 10)])"

declare show_nat.simps [simp del]

definition show_int :: "int \<Rightarrow> string" where
  "show_int n = (if n < 0 then CHR ''-'' # show_nat (nat (- n)) else show_nat (nat n))"

definition hex_char :: "nat \<Rightarrow> char" where
  "hex_char d = (if d < 10 then digit_char d else char_of (87 + d))"

text \<open>\<open>JSON.stringify\<close> on one code unit below 256.\<close>

definition json_escape :: "char \<Rightarrow> string" where
  "json_escape c =
     (let n = (of_char c :: nat) in
      if n = 34 then [char_of (92::nat), char_of (34::nat)]
      else if n = 92 then [char_of (92::nat), char_of (92::nat)]
      else if n = 8 then [char_of (92::nat), CHR ''b'']
      else if n = 9 then [char_of (92::nat), CHR ''t'']
      else if n = 10 then [char_of (92::nat), CHR ''n'']
      else if n = 12 then [char_of (92::nat), CHR ''f'']
      else if n = 13 then [char_of (92::nat), CHR ''r'']
      else if n < 32 then [char_of (92::nat), CHR ''u'', CHR ''0'', CHR ''0'',
                           hex_char (n div 16), hex_char (n mod 16)]
      else [c])"

definition json_quote :: "string \<Rightarrow> string" where
  "json_quote s = CHR 0x22 # concat (map json_escape s) @ [CHR 0x22]"

fun comma_join :: "string list \<Rightarrow> string" where
  "comma_join [] = []"
| "comma_join [x] = x"
| "comma_join (x # y # xs) = x @ CHR '','' # comma_join (y # xs)"

fun json_stringify :: "json \<Rightarrow> string" where
  "json_stringify JNull = ''null''"
| "json_stringify (JBool b) = (if b then ''true'' else ''false'')"
| "json_stringify (JNum n) = show_int n"
| "json_stringify (JStr s) = json_quote s"
| "json_stringify (JArr xs) = CHR ''['' # comma_join (map json_stringify xs) @ '']''"
| "json_stringify (JObj kvs) =
     CHR ''{'' # comma_join (map (\<lambda>(k, v). json_quote k @ CHR '':'' # json_stringify v) kvs) @ ''}''"

text \<open>\<open>TextEncoder.encode\<close>: a code unit below 128 is one byte, one below 256 is two.\<close>

definition utf8_length :: "string \<Rightarrow> nat" where
  "utf8_length s = sum_list (map (\<lambda>c. if (of_char c :: nat) < 128 then 1 else 2) s)"

lemma utf8_length_append [simp]: "utf8_length (s @ t) = utf8_length s + utf8_length t"
  by (simp add: utf8_length_def)

section \<open>Errors\<close>

text \<open>
  A thrown value: the \<open>code\<close> and \<open>detail\<close> that \<open>HrcDomainError\<close> and its subclasses carry
  (hrc-core/src/errors.ts; both absent for a plain \<open>Error\<close>), and the message.
\<close>

datatype js_error = JsError (err_code: "string option") (err_detail: json_object) (err_message: string)

definition domain_error :: "string \<Rightarrow> string \<Rightarrow> json_object \<Rightarrow> js_error" where
  "domain_error code message detail = JsError (Some code) detail message"

definition plain_error :: "string \<Rightarrow> js_error" where
  "plain_error message = JsError None [] message"

type_synonym 'a result = "js_error + 'a"

definition then_do :: "'a result \<Rightarrow> ('a \<Rightarrow> 'b result) \<Rightarrow> 'b result" where
  "then_do r f = (case r of Inl e \<Rightarrow> Inl e | Inr a \<Rightarrow> f a)"

lemma then_do_simps [simp]:
  "then_do (Inl e) f = Inl e" "then_do (Inr a) f = f a"
  by (simp_all add: then_do_def)

lemma then_do_Inr_iff: "then_do r f = Inr b \<longleftrightarrow> (\<exists>a. r = Inr a \<and> f a = Inr b)"
  by (cases r) auto

section \<open>Insertion-ordered sets\<close>

text \<open>A JavaScript \<open>Set\<close>: \<open>add\<close> keeps the first insertion position.\<close>

definition js_set_add :: "'a \<Rightarrow> 'a list \<Rightarrow> 'a list" where
  "js_set_add x xs = (if x \<in> set xs then xs else xs @ [x])"

lemma set_js_set_add [simp]: "set (js_set_add x xs) = insert x (set xs)"
  by (auto simp: js_set_add_def)

lemma distinct_js_set_add [simp]: "distinct xs \<Longrightarrow> distinct (js_set_add x xs)"
  by (simp add: js_set_add_def)

text \<open>A JavaScript \<open>Map\<close>: \<open>set\<close> keeps the position of a key that is there.\<close>

fun map_set :: "'k \<Rightarrow> 'v \<Rightarrow> ('k \<times> 'v) list \<Rightarrow> ('k \<times> 'v) list" where
  "map_set k v [] = [(k, v)]"
| "map_set k v ((k', v') # kvs) = (if k' = k then (k, v) # kvs else (k', v') # map_set k v kvs)"

lemma map_set_keys: "map fst (map_set k v kvs) = (if k \<in> fst ` set kvs then map fst kvs else map fst kvs @ [k])"
  by (induction k v kvs rule: map_set.induct) auto

lemma set_map_set: "x \<in> set (map_set k v kvs) \<Longrightarrow> x = (k, v) \<or> x \<in> set kvs"
  by (induction k v kvs rule: map_set.induct) (auto split: if_splits)

lemma set_map_set_distinct:
  "distinct (map fst kvs) \<Longrightarrow> set (map_set k v kvs) = insert (k, v) {kv \<in> set kvs. fst kv \<noteq> k}"
  by (induction k v kvs rule: map_set.induct) (force split: if_splits)+

lemma map_of_map_set [simp]: "map_of (map_set k v kvs) k' = (if k' = k then Some v else map_of kvs k')"
  by (induction k v kvs rule: map_set.induct) auto

section \<open>Largest elements\<close>

text \<open>\<open>MAX(column)\<close> and \<open>Math.max\<close> as a fold from the first value.\<close>

lemma fold_max_bound: "(n::int) \<le> fold max ns n \<and> (\<forall>m \<in> set ns. m \<le> fold max ns n)"
proof (induction ns arbitrary: n)
  case (Cons k ns)
  from this [of "max k n"] show ?case by (auto simp: max_def split: if_splits)
qed simp

lemma fold_max_ge: "x \<in> set xs \<Longrightarrow> x \<le> fold max xs (a::int)" "a \<le> fold max xs a"
  using fold_max_bound by blast+

section \<open>Table rows\<close>

text \<open>
  \<open>SELECT ... WHERE key = k\<close> on a unique key, and \<open>UPDATE ... WHERE key = k\<close>.
\<close>

definition row_get :: "('r \<Rightarrow> 'k) \<Rightarrow> 'r list \<Rightarrow> 'k \<Rightarrow> 'r option" where
  "row_get key rows k = List.find (\<lambda>r. key r = k) rows"

definition row_update :: "('r \<Rightarrow> 'k) \<Rightarrow> 'k \<Rightarrow> ('r \<Rightarrow> 'r) \<Rightarrow> 'r list \<Rightarrow> 'r list" where
  "row_update key k f rows = map (\<lambda>r. if key r = k then f r else r) rows"

lemma row_get_SomeD: "row_get key rows k = Some r \<Longrightarrow> r \<in> set rows \<and> key r = k"
  by (auto simp: row_get_def find_Some_iff)

lemma row_get_None_iff: "row_get key rows k = None \<longleftrightarrow> k \<notin> key ` set rows"
  by (auto simp: row_get_def find_None_iff)

lemma row_get_append: "row_get key (xs @ ys) k = orelse (row_get key xs k) (row_get key ys k)"
  by (induction xs) (simp_all add: row_get_def)

lemma row_get_single [simp]: "row_get key [r] k = (if key r = k then Some r else None)"
  by (simp add: row_get_def)

lemma row_get_update:
  assumes "\<And>r. key (f r) = key r"
  shows "row_get key (row_update key k f rows) k' =
    (if k' = k then map_option f (row_get key rows k) else row_get key rows k')"
  using assms by (induction rows) (auto simp: row_get_def row_update_def)

lemma row_update_keys:
  assumes "\<And>r. key (f r) = key r"
  shows "map key (row_update key k f rows) = map key rows"
  using assms by (induction rows) (auto simp: row_update_def)

lemma length_row_update [simp]: "length (row_update key k f rows) = length rows"
  by (simp add: row_update_def)

lemma row_update_absent: "row_get key rows k = None \<Longrightarrow> row_update key k f rows = rows"
  by (induction rows) (auto simp: row_get_def row_update_def split: if_splits)

section \<open>Roster names\<close>

text \<open>The suffixes that a roster, and a placement home, reserve for a task name.\<close>

definition roster_suffixes :: "string list" where
  "roster_suffixes = [''nova'', ''comet'', ''pulsar'', ''quasar'', ''meteor'', ''aurora'', ''zenith'', ''eclipse'', ''orbit'', ''cosmos'']"

section \<open>Histories of operations\<close>

text \<open>
  A component's operations as labels, and a history as the list of labels executed. The contract:
  every operation the discipline allows keeps what holds of the state.
\<close>

locale op_history =
  fixes step :: "'l \<Rightarrow> 's \<Rightarrow> 's"
    and allowed :: "'l \<Rightarrow> bool"
    and holds :: "'s \<Rightarrow> bool"
  assumes keeps: "allowed l \<Longrightarrow> holds s \<Longrightarrow> holds (step l s)"
begin

lemma history_keeps: "list_all allowed ls \<Longrightarrow> holds s \<Longrightarrow> holds (fold step ls s)"
  by (induction ls arbitrary: s) (auto intro: keeps)

lemma every_prefix_keeps: "list_all allowed ls \<Longrightarrow> holds s \<Longrightarrow> holds (fold step (take n ls) s)"
  by (rule history_keeps) (auto simp: list_all_iff dest: in_set_takeD)

end

text \<open>
  A discipline that depends on the state an operation starts from, as a clock that does not go
  backwards.
\<close>

locale guarded_history =
  fixes step :: "'l \<Rightarrow> 's \<Rightarrow> 's"
    and allowed :: "'l \<Rightarrow> 's \<Rightarrow> bool"
    and holds :: "'s \<Rightarrow> bool"
  assumes keeps_allowed: "allowed l s \<Longrightarrow> holds s \<Longrightarrow> holds (step l s)"
begin

primrec disciplined :: "'l list \<Rightarrow> 's \<Rightarrow> bool" where
  "disciplined [] s = True"
| "disciplined (l # ls) s = (allowed l s \<and> disciplined ls (step l s))"

lemma disciplined_append: "disciplined (ls @ ls') s \<longleftrightarrow> disciplined ls s \<and> disciplined ls' (fold step ls s)"
  by (induction ls arbitrary: s) auto

lemma disciplined_keeps: "disciplined ls s \<Longrightarrow> holds s \<Longrightarrow> holds (fold step ls s)"
  by (induction ls arbitrary: s) (auto intro: keeps_allowed)

end

text \<open>
  Operations that also answer: each run of a discipline counts the answers that report success. If a
  success leaves the state spent, and a spent state stays spent and answers no success, then at most
  one operation of a history succeeds.
\<close>

locale one_success = op_history step allowed spent
  for step :: "'l \<Rightarrow> 's \<Rightarrow> 's" and allowed :: "'l \<Rightarrow> bool" and spent :: "'s \<Rightarrow> bool" +
  fixes succeeds :: "'l \<Rightarrow> 's \<Rightarrow> bool"
  assumes spends: "succeeds l s \<Longrightarrow> spent (step l s)"
    and refuses: "spent s \<Longrightarrow> \<not> succeeds l s"
begin

primrec successes :: "'l list \<Rightarrow> 's \<Rightarrow> nat" where
  "successes [] s = 0"
| "successes (l # ls) s = (if succeeds l s then 1 else 0) + successes ls (step l s)"

lemma spent_no_success: "list_all allowed ls \<Longrightarrow> spent s \<Longrightarrow> successes ls s = 0"
  by (induction ls arbitrary: s) (auto intro: keeps dest: refuses)

lemma at_most_one_success: "list_all allowed ls \<Longrightarrow> successes ls s \<le> 1"
proof (induction ls arbitrary: s)
  case (Cons l ls)
  then show ?case
    using spent_no_success [of ls "step l s"] spends [of l s] by auto
qed simp

end

end
