(* ===== verification/Lease_Interface.thy ===== *)
theory Lease_Interface
  imports HRC_Prelude
begin

text \<open>
  What the admission pipeline relies on: an authority that grants a lease (or refuses with an
  error) and takes it back through an idempotent release. Admission_Gate interprets it on the
  drained-restart gate, Admission_Pipeline on the whole world of a request.
\<close>

locale lease_authority =
  fixes valid :: "'w \<Rightarrow> bool"
    and held :: "'w \<Rightarrow> int"
    and outstanding :: "'l \<Rightarrow> 'w \<Rightarrow> bool"
    and admit :: "'w \<Rightarrow> ('l \<times> 'w) result"
    and release :: "'l \<Rightarrow> 'w \<Rightarrow> 'w"
  assumes admit_valid: "valid w \<Longrightarrow> admit w = Inr (l, w') \<Longrightarrow> valid w'"
    and admit_held: "valid w \<Longrightarrow> admit w = Inr (l, w') \<Longrightarrow> held w' = held w + 1"
    and admit_outstanding: "valid w \<Longrightarrow> admit w = Inr (l, w') \<Longrightarrow> outstanding l w'"
    and admit_fresh: "valid w \<Longrightarrow> admit w = Inr (l, w') \<Longrightarrow> \<not> outstanding l w"
    and admit_others: "valid w \<Longrightarrow> admit w = Inr (l, w') \<Longrightarrow> outstanding k w \<Longrightarrow> outstanding k w'"
    and release_valid: "valid w \<Longrightarrow> valid (release l w)"
    and release_held: "valid w \<Longrightarrow> outstanding l w \<Longrightarrow> held (release l w) = held w - 1"
    and release_done: "valid w \<Longrightarrow> \<not> outstanding l (release l w)"
    and release_again: "valid w \<Longrightarrow> \<not> outstanding l w \<Longrightarrow> release l w = w"
begin

text \<open>A stretch of work done under leases: it neither loses nor keeps one.\<close>

definition neutral :: "('w \<Rightarrow> 'w) \<Rightarrow> bool" where
  "neutral f \<longleftrightarrow>
     (\<forall>w. valid w \<longrightarrow> valid (f w) \<and> held (f w) = held w \<and>
          (\<forall>l. outstanding l w \<longrightarrow> outstanding l (f w)))"

lemma neutral_id: "neutral (\<lambda>w. w)"
  by (simp add: neutral_def)

lemma neutral_comp: "neutral f \<Longrightarrow> neutral g \<Longrightarrow> neutral (\<lambda>w. g (f w))"
  by (simp add: neutral_def)

lemma release_twice: "valid w \<Longrightarrow> release l (release l w) = release l w"
  by (simp add: release_again release_done release_valid)

text \<open>Admit, work, release: the authority is left with the leases it had.\<close>

lemma bracket:
  assumes "valid w" and "admit w = Inr (l, w')" and "neutral f"
  shows "valid (release l (f w')) \<and> held (release l (f w')) = held w \<and>
         \<not> outstanding l (release l (f w'))"
proof -
  from assms(1,2) have w': "valid w'" "held w' = held w + 1" "outstanding l w'"
    by (auto intro: admit_valid admit_held admit_outstanding)
  with assms(3) have "valid (f w')" "held (f w') = held w + 1" "outstanding l (f w')"
    by (simp_all add: neutral_def)
  then show ?thesis by (simp add: release_valid release_held release_done)
qed

end

end
