(* ===== verification/Admission_Gate.thy ===== *)
theory Admission_Gate
  imports JS_String Lease_Interface
begin

text \<open>
  The drained-restart fence of hrc-server (turn-admission-gate.ts): the durable closure marker, the
  count of admissions in flight, and the asynchronous \<open>close\<close> and \<open>reopen\<close> calls. The marker file
  is \<open>Absent\<close>, \<open>Unreadable\<close>, or holds a text (its \<open>JSON.parse\<close> result). Each suspended call of
  \<open>close\<close> and \<open>reopen\<close> is an entry of a list of phases, one phase per \<open>await\<close>, so that every
  interleaving of the event loop is a sequence of steps.
\<close>

section \<open>The durable record\<close>

record durable_record =
  dr_operationId :: string
  dr_requestedBy :: "string option"
  dr_requestedRunId :: "string option"
  dr_reason :: "string option"
  dr_closedAt :: string

datatype marker_file = Absent | Unreadable | Marker_text json_text

definition turn_admission_schema :: string where
  "turn_admission_schema = ''hrc.turn-admission/v1''"

fun nullable_string :: "json option \<Rightarrow> string option option" where
  "nullable_string (Some JNull) = Some None"
| "nullable_string (Some (JStr s)) = Some (Some s)"
| "nullable_string _ = None"

text \<open>\<open>None\<close> is the TypeScript \<open>undefined\<close>: the marker is malformed.\<close>

definition parse_durable_record :: "json_text \<Rightarrow> durable_record option" where
  "parse_durable_record raw =
     (case Option.bind raw json_record of
        None \<Rightarrow> None
      | Some parsed \<Rightarrow>
          if jget parsed ''schemaVersion'' \<noteq> Some (JStr turn_admission_schema)
             \<or> jget parsed ''state'' \<noteq> Some (JStr ''closed'')
          then None
          else case (jstring parsed ''operationId'', nullable_string (jget parsed ''requestedBy''),
                     nullable_string (jget parsed ''requestedRunId''), jstring parsed ''closedAt'') of
            (Some op, Some by, Some run, Some closedAt) \<Rightarrow>
              if js_trim op = [] then None
              else (case jget parsed ''reason'' of
                      None \<Rightarrow> Some \<lparr>dr_operationId = op, dr_requestedBy = by,
                                 dr_requestedRunId = run, dr_reason = None, dr_closedAt = closedAt\<rparr>
                    | Some (JStr reason) \<Rightarrow>
                        Some \<lparr>dr_operationId = op, dr_requestedBy = by, dr_requestedRunId = run,
                              dr_reason = Some reason, dr_closedAt = closedAt\<rparr>
                    | Some _ \<Rightarrow> None)
          | _ \<Rightarrow> None)"

text \<open>
  The startup read. A marker that cannot be read or parsed closes the gate under a synthetic
  operation, so a damaged fence never reads as open.
\<close>

definition recovered_record :: "string \<Rightarrow> string \<Rightarrow> string \<Rightarrow> durable_record" where
  "recovered_record op reason now =
     \<lparr>dr_operationId = op, dr_requestedBy = None, dr_requestedRunId = None,
      dr_reason = Some reason, dr_closedAt = now\<rparr>"

fun load_durable_record :: "marker_file \<Rightarrow> string \<Rightarrow> durable_record option" where
  "load_durable_record Absent now = None"
| "load_durable_record (Marker_text raw) now =
     Some (or_default (parse_durable_record raw)
       (recovered_record ''recovered-corrupt-marker''
          ''turn admission marker was malformed; startup must recover closed'' now))"
| "load_durable_record Unreadable now =
     Some (recovered_record ''recovered-unreadable-marker''
       ''turn admission marker was unreadable; startup must recover closed'' now)"

fun nullable_json :: "string option \<Rightarrow> json" where
  "nullable_json None = JNull"
| "nullable_json (Some s) = JStr s"

definition durable_json :: "durable_record \<Rightarrow> json" where
  "durable_json r = JObj
     ([(''schemaVersion'', JStr turn_admission_schema), (''state'', JStr ''closed''),
       (''operationId'', JStr (dr_operationId r)),
       (''requestedBy'', nullable_json (dr_requestedBy r)),
       (''requestedRunId'', nullable_json (dr_requestedRunId r))]
      @ (case dr_reason r of None \<Rightarrow> [] | Some reason \<Rightarrow> [(''reason'', JStr reason)])
      @ [(''closedAt'', JStr (dr_closedAt r))])"

lemma nullable_string_json [simp]: "nullable_string (Some (nullable_json x)) = Some x"
  by (cases x) auto

lemma parse_durable_json:
  assumes "js_trim (dr_operationId r) \<noteq> []"
  shows "parse_durable_record (Some (durable_json r)) = Some r"
  using assms
  by (cases r) (simp add: parse_durable_record_def durable_json_def jstring_def jget_append
      turn_admission_schema_def split: option.splits)

lemma parse_durable_record_operation:
  "parse_durable_record raw = Some r \<Longrightarrow> js_trim (dr_operationId r) \<noteq> []"
  by (auto simp: parse_durable_record_def split: option.splits if_splits json.splits)

section \<open>The gate\<close>

text \<open>
  \<open>gt_leases\<close> holds one flag per returned release closure, its \<open>released\<close> variable.
\<close>

record admission_state =
  as_closed :: bool
  as_activeAdmissions :: int
  as_record :: "durable_record option"
  as_durable :: bool

datatype close_phase =
    Persisting durable_record
  | Persisted durable_record
  | Persist_failed js_error
  | Idle_waiting
  | Idle_woken
  | Close_returned admission_state
  | Close_threw js_error

datatype reopen_phase =
    Removing
  | Removed
  | Remove_failed js_error
  | Reopen_returned admission_state
  | Reopen_threw js_error

record gate =
  gt_closed :: "durable_record option"
  gt_active :: int
  gt_leases :: "bool list"
  gt_waiters :: "nat list"
  gt_marker :: marker_file
  gt_closers :: "close_phase list"
  gt_reopeners :: "reopen_phase list"

definition new_gate :: "marker_file \<Rightarrow> string \<Rightarrow> gate" where
  "new_gate marker now =
     \<lparr>gt_closed = load_durable_record marker now, gt_active = 0, gt_leases = [],
      gt_waiters = [], gt_marker = marker, gt_closers = [], gt_reopeners = []\<rparr>"

definition gate_snapshot :: "gate \<Rightarrow> admission_state" where
  "gate_snapshot g =
     (case gt_closed g of
        None \<Rightarrow> \<lparr>as_closed = False, as_activeAdmissions = gt_active g, as_record = None,
                as_durable = False\<rparr>
      | Some r \<Rightarrow> \<lparr>as_closed = True, as_activeAdmissions = gt_active g, as_record = Some r,
                   as_durable = (gt_marker g \<noteq> Absent)\<rparr>)"

definition draining_error :: "durable_record \<Rightarrow> js_error" where
  "draining_error r = domain_error ''server_draining''
     ''server turn admission is closed for a drained restart''
     [(''retryable'', JBool True), (''operationId'', JStr (dr_operationId r)),
      (''requestedBy'', nullable_json (dr_requestedBy r)), (''closedAt'', JStr (dr_closedAt r))]"

definition gate_admit :: "bool \<Rightarrow> gate \<Rightarrow> (nat \<times> gate) result" where
  "gate_admit existingAcceptedRun g =
     (case gt_closed g of
        Some r \<Rightarrow>
          if \<not> existingAcceptedRun then Inl (draining_error r)
          else Inr (length (gt_leases g),
                    g\<lparr>gt_active := gt_active g + 1, gt_leases := gt_leases g @ [False]\<rparr>)
      | None \<Rightarrow> Inr (length (gt_leases g),
                    g\<lparr>gt_active := gt_active g + 1, gt_leases := gt_leases g @ [False]\<rparr>))"

text \<open>Resolving an idle waiter lets the \<open>close\<close> call that awaits it continue.\<close>

definition wake_waiters :: "gate \<Rightarrow> gate" where
  "wake_waiters g = g\<lparr>gt_closers := map (\<lambda>i. if i \<in> set (gt_waiters g) then Idle_woken
                                          else gt_closers g ! i) [0..<length (gt_closers g)],
                      gt_waiters := []\<rparr>"

definition gate_release :: "nat \<Rightarrow> gate \<Rightarrow> gate" where
  "gate_release l g =
     (if length (gt_leases g) \<le> l then g
      else if gt_leases g ! l then g
      else let g' = g\<lparr>gt_leases := (gt_leases g)[l := True], gt_active := gt_active g - 1\<rparr>
           in if gt_active g' = 0 then wake_waiters g' else g')"

definition set_closer :: "nat \<Rightarrow> close_phase \<Rightarrow> gate \<Rightarrow> gate" where
  "set_closer i p g = g\<lparr>gt_closers := (gt_closers g)[i := p]\<rparr>"

definition wait_until_idle :: "nat \<Rightarrow> gate \<Rightarrow> gate" where
  "wait_until_idle i g =
     (if gt_active g = 0 then set_closer i Idle_woken g
      else (set_closer i Idle_waiting g)\<lparr>gt_waiters := gt_waiters g @ [i]\<rparr>)"

section \<open>Closing and reopening\<close>

record close_request =
  cq_operationId :: string
  cq_requestedBy :: "string option"
  cq_requestedRunId :: "string option"
  cq_reason :: "string option"

definition stale_close_error :: "string \<Rightarrow> string \<Rightarrow> js_error" where
  "stale_close_error requested active = domain_error ''stale_context''
     ''turn admission is already closed by another operation''
     [(''requestedOperationId'', JStr requested), (''activeOperationId'', JStr active)]"

text \<open>The part of \<open>close\<close> before its first \<open>await\<close>; the new call is the last closer.\<close>

definition gate_close_begin :: "close_request \<Rightarrow> string \<Rightarrow> gate \<Rightarrow> gate" where
  "gate_close_begin rq now g =
     (let op = js_trim (cq_operationId rq); i = length (gt_closers g);
          enter = (\<lambda>p h. h\<lparr>gt_closers := gt_closers h @ [p]\<rparr>)
      in if op = [] then
           enter (Close_threw (domain_error ''malformed_request''
             ''turn admission operationId must be non-empty'' [])) g
         else case gt_closed g of
           Some r \<Rightarrow>
             if dr_operationId r \<noteq> op
             then enter (Close_threw (stale_close_error op (dr_operationId r))) g
             else wait_until_idle i (enter Idle_woken g)
         | None \<Rightarrow>
             let r = \<lparr>dr_operationId = op, dr_requestedBy = cq_requestedBy rq,
                      dr_requestedRunId = cq_requestedRunId rq, dr_reason = cq_reason rq,
                      dr_closedAt = now\<rparr>
             in enter (Persisting r) (g\<lparr>gt_closed := Some r\<rparr>))"

text \<open>The part of \<open>reopen\<close> before its \<open>await\<close>.\<close>

definition gate_reopen_begin :: "string option \<Rightarrow> gate \<Rightarrow> gate" where
  "gate_reopen_begin operationId g =
     (let enter = (\<lambda>p. g\<lparr>gt_reopeners := gt_reopeners g @ [p]\<rparr>) in
      case gt_closed g of
        None \<Rightarrow> enter (Reopen_returned (gate_snapshot g))
      | Some r \<Rightarrow>
          (case operationId of
             None \<Rightarrow> enter Removing
           | Some op \<Rightarrow>
               if dr_operationId r \<noteq> op
               then enter (Reopen_threw (domain_error ''stale_context''
                      ''turn admission reopen does not own the active operation''
                      [(''requestedOperationId'', JStr op),
                       (''activeOperationId'', JStr (dr_operationId r))]))
               else enter Removing))"

section \<open>Steps\<close>

text \<open>
  One label per entry into the gate, per file-system effect (the \<open>rename\<close> of
  \<open>persistDurableRecord\<close>, the \<open>unlink\<close> of \<open>removeDurableRecord\<close>, each of which may fail), and
  per continuation after an \<open>await\<close>. A continuation is enabled only in the phase that awaits it.
\<close>

datatype gate_label =
    Do_admit bool
  | Do_release nat
  | Do_close close_request string
  | Fs_persist nat "js_error option"
  | Close_continue nat
  | Do_reopen "string option"
  | Fs_remove nat "js_error option"
  | Reopen_continue nat

definition set_reopener :: "nat \<Rightarrow> reopen_phase \<Rightarrow> gate \<Rightarrow> gate" where
  "set_reopener i p g = g\<lparr>gt_reopeners := (gt_reopeners g)[i := p]\<rparr>"

definition close_continue :: "nat \<Rightarrow> gate \<Rightarrow> gate option" where
  "close_continue i g =
     (if length (gt_closers g) \<le> i then None
      else case gt_closers g ! i of
        Persisted r \<Rightarrow> Some (wait_until_idle i g)
      | Persist_failed e \<Rightarrow> Some (set_closer i (Close_threw e) (g\<lparr>gt_closed := None\<rparr>))
      | Idle_woken \<Rightarrow> Some (set_closer i (Close_returned (gate_snapshot g)) g)
      | _ \<Rightarrow> None)"

definition reopen_continue :: "nat \<Rightarrow> gate \<Rightarrow> gate option" where
  "reopen_continue i g =
     (if length (gt_reopeners g) \<le> i then None
      else case gt_reopeners g ! i of
        Removed \<Rightarrow>
          (let g' = g\<lparr>gt_closed := None\<rparr>
           in Some (set_reopener i (Reopen_returned (gate_snapshot g')) g'))
      | Remove_failed e \<Rightarrow> Some (set_reopener i (Reopen_threw e) g)
      | _ \<Rightarrow> None)"

definition fs_persist :: "nat \<Rightarrow> js_error option \<Rightarrow> gate \<Rightarrow> gate option" where
  "fs_persist i failure g =
     (if length (gt_closers g) \<le> i then None
      else case gt_closers g ! i of
        Persisting r \<Rightarrow>
          (case failure of
             None \<Rightarrow> Some (set_closer i (Persisted r)
                             (g\<lparr>gt_marker := Marker_text (Some (durable_json r))\<rparr>))
           | Some e \<Rightarrow> Some (set_closer i (Persist_failed e) g))
      | _ \<Rightarrow> None)"

definition fs_remove :: "nat \<Rightarrow> js_error option \<Rightarrow> gate \<Rightarrow> gate option" where
  "fs_remove i failure g =
     (if length (gt_reopeners g) \<le> i then None
      else case gt_reopeners g ! i of
        Removing \<Rightarrow>
          (case failure of
             None \<Rightarrow> Some (set_reopener i Removed (g\<lparr>gt_marker := Absent\<rparr>))
           | Some e \<Rightarrow> Some (set_reopener i (Remove_failed e) g))
      | _ \<Rightarrow> None)"

fun gate_exec :: "gate_label \<Rightarrow> gate \<Rightarrow> gate option" where
  "gate_exec (Do_admit ex) g = (case gate_admit ex g of Inl e \<Rightarrow> Some g | Inr (l, g') \<Rightarrow> Some g')"
| "gate_exec (Do_release l) g =
     (if l < length (gt_leases g) then Some (gate_release l g) else None)"
| "gate_exec (Do_close rq now) g = Some (gate_close_begin rq now g)"
| "gate_exec (Fs_persist i f) g = fs_persist i f g"
| "gate_exec (Close_continue i) g = close_continue i g"
| "gate_exec (Do_reopen op) g = Some (gate_reopen_begin op g)"
| "gate_exec (Fs_remove i f) g = fs_remove i f g"
| "gate_exec (Reopen_continue i) g = reopen_continue i g"

fun gate_run :: "gate_label list \<Rightarrow> gate \<Rightarrow> gate option" where
  "gate_run [] g = Some g"
| "gate_run (l # ls) g = Option.bind (gate_exec l g) (gate_run ls)"

inductive gate_step :: "gate \<Rightarrow> gate_label \<Rightarrow> gate \<Rightarrow> bool" where
  exec: "gate_exec l g = Some g' \<Longrightarrow> gate_step g l g'"

inductive gate_reachable :: "gate \<Rightarrow> bool" where
  start: "gate_reachable (new_gate marker now)"
| step: "gate_reachable g \<Longrightarrow> gate_step g l g' \<Longrightarrow> gate_reachable g'"

inductive_cases gate_stepE: "gate_step g l g'"

lemma gate_run_reachable: "gate_reachable g \<Longrightarrow> gate_run ls g = Some g' \<Longrightarrow> gate_reachable g'"
proof (induction ls arbitrary: g)
  case Nil
  then show ?case by simp
next
  case (Cons l ls)
  then obtain h where h: "gate_exec l g = Some h" "gate_run ls h = Some g'"
    by (auto simp: Option.bind_eq_Some_conv)
  then have "gate_reachable h"
    using Cons.prems(1) by (blast intro: gate_reachable.step gate_step.exec)
  with h(2) show ?case by (blast intro: Cons.IH)
qed

section \<open>The invariant\<close>

text \<open>
  The count of active admissions is the number of unreleased leases; a closer that waits for
  idleness is registered, is in the waiting phase, and finds admissions active (no lost wakeup).
\<close>

definition held_leases :: "gate \<Rightarrow> nat" where
  "held_leases g = length (filter Not (gt_leases g))"

definition gate_inv :: "gate \<Rightarrow> bool" where
  "gate_inv g \<longleftrightarrow>
     gt_active g = int (held_leases g) \<and>
     (\<forall>i < length (gt_closers g). gt_closers g ! i = Idle_waiting \<longleftrightarrow> i \<in> set (gt_waiters g)) \<and>
     (\<forall>i \<in> set (gt_waiters g). i < length (gt_closers g)) \<and>
     (gt_waiters g \<noteq> [] \<longrightarrow> 0 < gt_active g)"

lemma held_leases_snoc [simp]:
  "length (filter Not (xs @ [False])) = Suc (length (filter Not xs))"
  by simp

lemma held_leases_release:
  "l < length xs \<Longrightarrow> \<not> xs ! l \<Longrightarrow>
   Suc (length (filter Not (xs[l := True]))) = length (filter Not xs)"
proof (induction xs arbitrary: l)
  case Nil
  then show ?case by simp
next
  case (Cons x xs)
  then show ?case by (cases l) auto
qed

lemma gate_inv_new: "gate_inv (new_gate marker now)"
  by (simp add: gate_inv_def new_gate_def held_leases_def)

lemma gate_inv_admit [hrc_keep]:
  "gate_inv g \<Longrightarrow> gate_admit ex g = Inr (l, g') \<Longrightarrow> gate_inv g'"
  by (auto simp: gate_inv_def gate_admit_def held_leases_def split: option.splits if_splits)

lemma gate_inv_wake:
  assumes closers: "\<forall>i < length (gt_closers g). gt_closers g ! i = Idle_waiting \<longleftrightarrow> i \<in> set (gt_waiters g)"
    and count: "gt_active g = int (held_leases g)"
  shows "gate_inv (wake_waiters g)"
  using closers count by (auto simp: gate_inv_def wake_waiters_def held_leases_def)

lemma gate_inv_release [hrc_keep]:
  assumes "gate_inv g"
  shows "gate_inv (gate_release l g)"
proof (cases "length (gt_leases g) \<le> l \<or> gt_leases g ! l")
  case True
  with assms show ?thesis by (auto simp: gate_release_def)
next
  case False
  let ?g = "g\<lparr>gt_leases := (gt_leases g)[l := True], gt_active := gt_active g - 1\<rparr>"
  from False have "Suc (held_leases ?g) = held_leases g"
    by (simp add: held_leases_def held_leases_release)
  with assms have count: "gt_active ?g = int (held_leases ?g)"
    by (auto simp: gate_inv_def)
  show ?thesis
  proof (cases "gt_active ?g = 0")
    case True
    have "gate_inv (wake_waiters ?g)"
      using assms count by (intro gate_inv_wake) (auto simp: gate_inv_def)
    with True False show ?thesis by (simp add: gate_release_def Let_def)
  next
    case nonzero: False
    with assms count have "gate_inv ?g" by (auto simp: gate_inv_def)
    with nonzero False show ?thesis by (simp add: gate_release_def Let_def)
  qed
qed

text \<open>Moving a closer between phases other than waiting changes nothing the invariant reads.\<close>

lemma gate_inv_set_closer:
  "gate_inv g \<Longrightarrow> i < length (gt_closers g) \<Longrightarrow> gt_closers g ! i \<noteq> Idle_waiting \<Longrightarrow>
   p \<noteq> Idle_waiting \<Longrightarrow> gate_inv (set_closer i p g)"
  by (auto simp: gate_inv_def set_closer_def held_leases_def nth_list_update)

lemma gate_inv_wait_until_idle:
  assumes "gate_inv g" "i < length (gt_closers g)" "gt_closers g ! i \<noteq> Idle_waiting"
  shows "gate_inv (wait_until_idle i g)"
proof (cases "gt_active g = 0")
  case True
  with assms show ?thesis by (simp add: wait_until_idle_def gate_inv_set_closer)
next
  case False
  with assms have "0 < gt_active g" by (auto simp: gate_inv_def)
  with False assms show ?thesis
    by (auto simp: gate_inv_def wait_until_idle_def set_closer_def held_leases_def nth_list_update)
qed

lemma gate_inv_enter:
  "gate_inv g \<Longrightarrow> p \<noteq> Idle_waiting \<Longrightarrow> gate_inv (g\<lparr>gt_closers := gt_closers g @ [p]\<rparr>)"
  by (auto simp: gate_inv_def held_leases_def nth_append less_Suc_eq)

lemma gate_inv_closed_field [simp]:
  "gate_inv (g\<lparr>gt_closed := c\<rparr>) = gate_inv g"
  "gate_inv (g\<lparr>gt_marker := m\<rparr>) = gate_inv g"
  "gate_inv (g\<lparr>gt_reopeners := r\<rparr>) = gate_inv g"
  by (simp_all add: gate_inv_def held_leases_def)

lemma gate_inv_close_begin [hrc_keep]:
  assumes "gate_inv g"
  shows "gate_inv (gate_close_begin rq now g)"
proof -
  have "gate_inv (wait_until_idle (length (gt_closers g)) (g\<lparr>gt_closers := gt_closers g @ [Idle_woken]\<rparr>))"
    using assms by (intro gate_inv_wait_until_idle gate_inv_enter) auto
  moreover have "gate_inv (g\<lparr>gt_closed := Some r, gt_closers := gt_closers g @ [Persisting r]\<rparr>)" for r
    using gate_inv_enter [of "g\<lparr>gt_closed := Some r\<rparr>" "Persisting r"] assms by simp
  ultimately show ?thesis
    using assms by (auto simp: gate_close_begin_def Let_def gate_inv_enter split: option.split)
qed

lemma gate_inv_reopen_begin [hrc_keep]: "gate_inv g \<Longrightarrow> gate_inv (gate_reopen_begin op g)"
  by (auto simp: gate_reopen_begin_def Let_def split: option.split)

lemma gate_inv_fs_persist [hrc_keep]:
  "gate_inv g \<Longrightarrow> fs_persist i f g = Some g' \<Longrightarrow> gate_inv g'"
  by (auto simp: fs_persist_def gate_inv_set_closer split: if_splits close_phase.splits option.splits)

lemma gate_inv_fs_remove [hrc_keep]:
  "gate_inv g \<Longrightarrow> fs_remove i f g = Some g' \<Longrightarrow> gate_inv g'"
  by (auto simp: fs_remove_def set_reopener_def split: if_splits reopen_phase.splits option.splits)

lemma gate_inv_close_continue [hrc_keep]:
  "gate_inv g \<Longrightarrow> close_continue i g = Some g' \<Longrightarrow> gate_inv g'"
  by (auto simp: close_continue_def gate_inv_set_closer gate_inv_wait_until_idle
      split: if_splits close_phase.splits)

lemma gate_inv_reopen_continue [hrc_keep]:
  "gate_inv g \<Longrightarrow> reopen_continue i g = Some g' \<Longrightarrow> gate_inv g'"
  by (auto simp: reopen_continue_def set_reopener_def Let_def split: if_splits reopen_phase.splits)

lemma gate_inv_exec: "gate_inv g \<Longrightarrow> gate_exec l g = Some g' \<Longrightarrow> gate_inv g'"
  by (cases l) (auto split: sum.splits if_splits intro: hrc_keep)

lemma gate_inv_reachable: "gate_reachable g \<Longrightarrow> gate_inv g"
  by (induction rule: gate_reachable.induct) (auto simp: gate_inv_new elim!: gate_stepE intro: gate_inv_exec)

section \<open>The gate as a lease authority\<close>

definition gate_outstanding :: "nat \<Rightarrow> gate \<Rightarrow> bool" where
  "gate_outstanding l g = (l < length (gt_leases g) \<and> \<not> gt_leases g ! l)"

lemma wake_waiters_frame [simp]:
  "gt_leases (wake_waiters g) = gt_leases g" "gt_active (wake_waiters g) = gt_active g"
  "gt_closed (wake_waiters g) = gt_closed g" "gt_marker (wake_waiters g) = gt_marker g"
  "gt_reopeners (wake_waiters g) = gt_reopeners g"
  by (simp_all add: wake_waiters_def)

lemma released_again: "xs ! l \<Longrightarrow> xs[l := True] = xs"
  by (metis (full_types) list_update_id)

lemma gate_release_leases:
  "gt_leases (gate_release l g) = (gt_leases g)[l := True]"
  by (auto simp: gate_release_def Let_def list_update_beyond released_again)

lemma gate_release_active:
  "gt_active (gate_release l g) = gt_active g - (if gate_outstanding l g then 1 else 0)"
  by (auto simp: gate_release_def gate_outstanding_def Let_def)

lemma gate_release_frame [simp]:
  "gt_closed (gate_release l g) = gt_closed g" "gt_marker (gate_release l g) = gt_marker g"
  by (auto simp: gate_release_def Let_def)

lemma gate_admit_grant:
  "gate_admit ex g = Inr (l, g') \<Longrightarrow>
   l = length (gt_leases g) \<and> gt_leases g' = gt_leases g @ [False] \<and> gt_active g' = gt_active g + 1 \<and>
   gt_closed g' = gt_closed g"
  by (auto simp: gate_admit_def split: option.splits if_splits)

interpretation gate_lease: lease_authority gate_inv gt_active gate_outstanding "gate_admit ex" gate_release
proof
  fix g g' :: gate and l :: nat
  assume g: "gate_inv g" "gate_admit ex g = Inr (l, g')"
  show "gate_inv g'" using g by (rule gate_inv_admit)
  note grant = gate_admit_grant [OF g(2)]
  show "gt_active g' = gt_active g + 1" using grant by simp
  show "gate_outstanding l g'" using grant by (simp add: gate_outstanding_def)
  show "\<not> gate_outstanding l g" using grant by (simp add: gate_outstanding_def)
  show "gate_outstanding k g'" if "gate_outstanding k g" for k
    using that grant by (auto simp: gate_outstanding_def nth_append)
next
  fix g :: gate and l :: nat
  assume g: "gate_inv g"
  show "gate_inv (gate_release l g)" using g by (rule gate_inv_release)
  show "gt_active (gate_release l g) = gt_active g - 1" if "gate_outstanding l g"
    using that by (simp add: gate_release_active)
  show "\<not> gate_outstanding l (gate_release l g)"
    by (auto simp: gate_outstanding_def gate_release_leases)
  show "gate_release l g = g" if "\<not> gate_outstanding l g"
    using that by (auto simp: gate_outstanding_def gate_release_def)
qed

section \<open>Properties\<close>

text \<open>
  C30. In every interleaving of admissions, releases, closes, reopens and their file effects, the
  active count is exactly the number of release closures that have not run (so it is never
  negative), and whenever it is zero no \<open>close\<close> call is left waiting for idleness.
\<close>

theorem gate_counts_leases_and_wakes:
  assumes "gate_reachable g"
  shows "gt_active g = int (held_leases g) \<and> 0 \<le> gt_active g \<and>
         (gt_active g = 0 \<longrightarrow> Idle_waiting \<notin> set (gt_closers g))"
proof -
  from assms have inv: "gate_inv g" by (rule gate_inv_reachable)
  then have "Idle_waiting \<notin> set (gt_closers g)" if "gt_active g = 0"
    using that by (fastforce simp: gate_inv_def in_set_conv_nth)
  with inv show ?thesis by (auto simp: gate_inv_def)
qed

definition drain_request :: close_request where
  "drain_request = \<lparr>cq_operationId = ''op-1'', cq_requestedBy = Some ''cody'',
     cq_requestedRunId = None, cq_reason = None\<rparr>"

definition drain_labels :: "gate_label list" where
  "drain_labels = [Do_admit False, Do_close drain_request ''t1'', Fs_persist 0 None,
     Close_continue 0, Do_admit False, Do_release 0, Close_continue 0]"

theorem gate_counts_leases_and_wakes_witness:
  "\<exists>g. gate_run drain_labels (new_gate Absent ''t0'') = Some g \<and> gt_active g = 0 \<and>
       gt_active g = int (held_leases g) \<and> Idle_waiting \<notin> set (gt_closers g) \<and>
       gt_closers g = [Close_returned (gate_snapshot g)] \<and> gt_closed g \<noteq> None"
proof -
  obtain g where g: "gate_run drain_labels (new_gate Absent ''t0'') = Some g"
    and fin: "gt_active g = 0" "gt_closers g = [Close_returned (gate_snapshot g)]" "gt_closed g \<noteq> None"
    by (simp add: drain_labels_def drain_request_def new_gate_def gate_admit_def gate_close_begin_def
        js_trim_def is_js_space_def Let_def fs_persist_def close_continue_def set_closer_def
        wait_until_idle_def gate_release_def wake_waiters_def gate_snapshot_def)
  have "gate_reachable g" by (rule gate_run_reachable [OF gate_reachable.start g])
  from gate_counts_leases_and_wakes [OF this] g fin show ?thesis by blast
qed

subsection \<open>Draining\<close>

text \<open>Labels that keep the fence: no reopen completes and no file write fails.\<close>

fun fence_label :: "gate_label \<Rightarrow> bool" where
  "fence_label (Do_admit ex) = (\<not> ex)"
| "fence_label (Fs_persist i f) = (f = None)"
| "fence_label (Reopen_continue i) = False"
| "fence_label _ = True"

definition fenced :: "durable_record \<Rightarrow> gate \<Rightarrow> bool" where
  "fenced r g \<longleftrightarrow> gt_closed g = Some r \<and> (\<forall>e. Persist_failed e \<notin> set (gt_closers g))"

lemma wake_waiters_phase:
  "p \<in> set (gt_closers (wake_waiters g)) \<Longrightarrow> p = Idle_woken \<or> p \<in> set (gt_closers g)"
  by (auto simp: wake_waiters_def in_set_conv_nth split: if_splits)

lemma gate_release_phase:
  "p \<in> set (gt_closers (gate_release l g)) \<Longrightarrow> p = Idle_woken \<or> p \<in> set (gt_closers g)"
  by (auto simp: gate_release_def Let_def dest!: wake_waiters_phase split: if_splits)

lemma set_closer_phase:
  "p \<in> set (gt_closers (set_closer i q g)) \<Longrightarrow> p = q \<or> p \<in> set (gt_closers g)"
  by (auto simp: set_closer_def dest!: set_update_subset_insert [THEN subsetD])

lemma wait_until_idle_phase:
  "p \<in> set (gt_closers (wait_until_idle i g)) \<Longrightarrow>
   p = Idle_woken \<or> p = Idle_waiting \<or> p \<in> set (gt_closers g)"
  by (auto simp: wait_until_idle_def split: if_splits dest!: set_closer_phase)

lemma closer_frame [simp]:
  "gt_closed (set_closer i p g) = gt_closed g" "gt_closed (wait_until_idle i g) = gt_closed g"
  "gt_leases (set_closer i p g) = gt_leases g" "gt_leases (wait_until_idle i g) = gt_leases g"
  "gt_marker (set_closer i p g) = gt_marker g" "gt_marker (wait_until_idle i g) = gt_marker g"
  by (simp_all add: set_closer_def wait_until_idle_def)

lemma held_leases_release_le: "held_leases (gate_release l g) \<le> held_leases g"
  by (cases "l < length (gt_leases g) \<and> \<not> gt_leases g ! l")
     (auto simp: held_leases_def gate_release_leases list_update_beyond released_again
        dest: held_leases_release)

lemma failed_closer_in_set:
  "gt_closers g ! i = Persist_failed e \<Longrightarrow> \<not> length (gt_closers g) \<le> i \<Longrightarrow>
   Persist_failed e \<in> set (gt_closers g)"
  by (metis not_le nth_mem)

lemma fenced_exec:
  assumes "fenced r g" "fence_label l" "gate_exec l g = Some g'"
  shows "fenced r g' \<and> held_leases g' \<le> held_leases g"
  using assms
proof (cases l)
  case (Do_release k)
  with assms show ?thesis
    by (auto simp: fenced_def held_leases_release_le split: if_splits dest!: gate_release_phase)
next
  case (Do_close rq now)
  with assms show ?thesis
    by (auto simp: fenced_def gate_close_begin_def Let_def held_leases_def split: if_splits
        dest!: wait_until_idle_phase)
next
  case (Close_continue i)
  with assms show ?thesis
    by (auto simp: fenced_def close_continue_def held_leases_def
        split: if_splits close_phase.splits
        dest!: wait_until_idle_phase set_closer_phase dest: failed_closer_in_set)
next
  case (Fs_persist i f)
  with assms show ?thesis
    by (auto simp: fenced_def fs_persist_def held_leases_def split: if_splits close_phase.splits
        dest!: set_closer_phase)
qed (auto simp: fenced_def held_leases_def gate_admit_def fs_remove_def set_reopener_def
       gate_reopen_begin_def Let_def split: if_splits option.splits reopen_phase.splits)

lemma fenced_run:
  "fenced r g \<Longrightarrow> gate_run ls g = Some g' \<Longrightarrow> \<forall>l \<in> set ls. fence_label l \<Longrightarrow>
   fenced r g' \<and> held_leases g' \<le> held_leases g"
proof (induction ls arbitrary: g)
  case Nil
  then show ?case by simp
next
  case (Cons l ls)
  then obtain h where h: "gate_exec l g = Some h" "gate_run ls h = Some g'"
    by (auto simp: Option.bind_eq_Some_conv)
  with Cons.prems have "fenced r h \<and> held_leases h \<le> held_leases g"
    by (intro fenced_exec) auto
  with h(2) Cons show ?case by (meson list.set_intros(2) order_trans)
qed

text \<open>
  Draining: from a closed gate, as long as no reopen completes, no marker write fails and only
  ordinary dispatches arrive, the gate stays closed under the same record and the number of
  admissions in flight never grows.
\<close>

theorem closed_gate_only_drains:
  assumes "gt_closed g = Some r" and "\<forall>e. Persist_failed e \<notin> set (gt_closers g)"
    and "gate_run ls g = Some g'" and "\<forall>l \<in> set ls. fence_label l"
  shows "gt_closed g' = Some r \<and> held_leases g' \<le> held_leases g"
proof -
  from assms(1,2) have "fenced r g" by (simp add: fenced_def)
  from fenced_run [OF this assms(3,4)] show ?thesis by (simp add: fenced_def)
qed

theorem closed_gate_only_drains_witness:
  "\<exists>g g'. gate_run (take 2 drain_labels) (new_gate Absent ''t0'') = Some g \<and>
     gate_run (drop 2 drain_labels) g = Some g' \<and> held_leases g = 1 \<and> held_leases g' = 0 \<and>
     gt_closed g' = gt_closed g \<and> held_leases g' \<le> held_leases g"
proof -
  let ?r = "\<lparr>dr_operationId = ''op-1'', dr_requestedBy = Some ''cody'', dr_requestedRunId = None,
              dr_reason = None, dr_closedAt = ''t1''\<rparr>"
  obtain g where g: "gate_run (take 2 drain_labels) (new_gate Absent ''t0'') = Some g"
      "gt_closed g = Some ?r" "held_leases g = 1" "gt_closers g = [Persisting ?r]"
    and g': "gate_run (drop 2 drain_labels) g \<noteq> None"
            "held_leases (the (gate_run (drop 2 drain_labels) g)) = 0"
    by (simp add: drain_labels_def drain_request_def new_gate_def gate_admit_def gate_close_begin_def
        js_trim_def is_js_space_def Let_def fs_persist_def close_continue_def set_closer_def
        wait_until_idle_def gate_release_def wake_waiters_def gate_snapshot_def held_leases_def)
  then obtain h where h: "gate_run (drop 2 drain_labels) g = Some h" "held_leases h = 0" by auto
  have "gt_closed h = Some ?r \<and> held_leases h \<le> held_leases g"
    using g h(1) by (intro closed_gate_only_drains [of g ?r "drop 2 drain_labels"])
      (auto simp: drain_labels_def)
  with g h show ?thesis by auto
qed

text \<open>
  Labels that leave the gate closed: no reopen completes and no marker write fails. Admissions of runs
  that had been accepted before pass a closed gate (\<open>continue.ts\<close>).
\<close>

fun keeps_closed :: "gate_label \<Rightarrow> bool" where
  "keeps_closed (Fs_persist i f) = (f = None)"
| "keeps_closed (Reopen_continue i) = False"
| "keeps_closed _ = True"

lemma fenced_keeps:
  assumes "fenced r g" "keeps_closed l" "gate_exec l g = Some g'"
  shows "fenced r g'"
proof (cases "l = Do_admit True")
  case True
  then show ?thesis using assms by (auto simp: fenced_def gate_admit_def split: option.splits)
next
  case False
  then have "fence_label l" using assms(2) by (cases l) auto
  then show ?thesis using fenced_exec assms by blast
qed

text \<open>A \<open>close\<close> call that has not begun, or has not yet found the server idle.\<close>

definition undrained :: "nat \<Rightarrow> gate \<Rightarrow> bool" where
  "undrained i g \<longleftrightarrow> (i < length (gt_closers g) \<longrightarrow>
     gt_closers g ! i \<noteq> Idle_woken \<and> (\<forall>s. gt_closers g ! i \<noteq> Close_returned s))"

lemma wait_until_idle_nth:
  "i < length (gt_closers g) \<Longrightarrow> gt_closers (wait_until_idle j g) ! i =
     (if i = j then (if gt_active g = 0 then Idle_woken else Idle_waiting) else gt_closers g ! i)"
  by (auto simp: wait_until_idle_def set_closer_def)

lemma closers_length [simp]:
  "length (gt_closers (wait_until_idle j g)) = length (gt_closers g)"
  "length (gt_closers (set_closer j p g)) = length (gt_closers g)"
  "length (gt_closers (gate_release l g)) = length (gt_closers g)"
  by (auto simp: wait_until_idle_def set_closer_def gate_release_def wake_waiters_def Let_def)

lemma active_frame [simp]:
  "gt_active (wait_until_idle j g) = gt_active g" "gt_active (set_closer j p g) = gt_active g"
  by (simp_all add: wait_until_idle_def set_closer_def)

lemma release_nth:
  "i < length (gt_closers g) \<Longrightarrow> gt_closers (gate_release l g) ! i = gt_closers g ! i
     \<or> (gt_closers (gate_release l g) ! i = Idle_woken \<and> gt_active (gate_release l g) = 0)"
  by (auto simp: gate_release_def Let_def wake_waiters_def)

text \<open>A call finds the server idle only when no admission is in flight.\<close>

lemma newly_drained:
  assumes "gate_exec l g = Some g'" "undrained i g" "\<not> undrained i g'"
  shows "gt_active g' = 0"
proof (cases l)
  case (Do_release k)
  then have g': "g' = gate_release k g" using assms(1) by (simp split: if_splits)
  then have i: "i < length (gt_closers g)" using assms(3) by (auto simp: undrained_def)
  have "gt_closers g' ! i \<noteq> gt_closers g ! i" using assms(2,3) i unfolding undrained_def by metis
  then show ?thesis using release_nth [OF i, of k] g' by simp
next
  case (Do_close rq now)
  then show ?thesis using assms
    by (auto simp: undrained_def gate_close_begin_def Let_def wait_until_idle_nth nth_append less_Suc_eq
        split: if_splits option.splits)
next
  case (Close_continue j)
  then show ?thesis using assms
    by (auto simp: undrained_def close_continue_def wait_until_idle_nth set_closer_def nth_list_update
        split: if_splits close_phase.splits)
next
  case (Fs_persist j f)
  then show ?thesis using assms
    by (auto simp: undrained_def fs_persist_def set_closer_def nth_list_update split: if_splits close_phase.splits option.splits)
qed (use assms in \<open>auto simp: undrained_def gate_admit_def fs_remove_def set_reopener_def gate_reopen_begin_def
       reopen_continue_def Let_def split: if_splits option.splits reopen_phase.splits\<close>)

lemma all_released:
  assumes "gate_inv g" "gt_active g = 0" "k < length (gt_leases g)"
  shows "gt_leases g ! k"
proof -
  have "filter Not (gt_leases g) = []" using assms(1,2) by (simp add: gate_inv_def held_leases_def)
  then show ?thesis using assms(3) by (auto simp: filter_empty_conv)
qed

text \<open>Leases are never forgotten, and a released one stays released.\<close>

lemma exec_leases:
  assumes "gate_exec l g = Some g'" "k < length (gt_leases g)"
  shows "k < length (gt_leases g')" "gt_leases g ! k \<Longrightarrow> gt_leases g' ! k"
  using assms
  by (cases l; auto simp: gate_release_leases nth_list_update gate_close_begin_def close_continue_def fs_persist_def
      fs_remove_def reopen_continue_def gate_reopen_begin_def set_reopener_def Let_def nth_append
      split: sum.splits if_splits option.splits close_phase.splits reopen_phase.splits dest!: gate_admit_grant)+

lemma drained_exec:
  assumes "gate_inv g" "gate_exec l g = Some g'" "n \<le> length (gt_leases g)"
    "undrained i g \<or> (\<forall>k < n. gt_leases g ! k)"
  shows "n \<le> length (gt_leases g')" "undrained i g' \<or> (\<forall>k < n. gt_leases g' ! k)"
proof -
  show len: "n \<le> length (gt_leases g')"
    using exec_leases(1) [OF assms(2), of "n - 1"] assms(3) by (cases n) auto
  have inv: "gate_inv g'" using gate_inv_exec assms(1,2) by blast
  show "undrained i g' \<or> (\<forall>k < n. gt_leases g' ! k)"
  proof (cases "undrained i g")
    case True
    then show ?thesis using newly_drained [OF assms(2) True] all_released [OF inv] len by fastforce
  next
    case False
    then show ?thesis using assms(3,4) exec_leases(2) [OF assms(2)] by fastforce
  qed
qed

lemma drained_run:
  "gate_inv g \<Longrightarrow> gate_run ls g = Some g' \<Longrightarrow> n \<le> length (gt_leases g) \<Longrightarrow> undrained i g \<or> (\<forall>k < n. gt_leases g ! k)
   \<Longrightarrow> undrained i g' \<or> (\<forall>k < n. gt_leases g' ! k)"
proof (induction ls arbitrary: g)
  case (Cons l ls)
  then obtain h where h: "gate_exec l g = Some h" "gate_run ls h = Some g'"
    by (auto simp: Option.bind_eq_Some_conv)
  show ?case
    using Cons.IH [OF gate_inv_exec [OF Cons.prems(1) h(1)] h(2)] drained_exec [OF Cons.prems(1) h(1) Cons.prems(3,4)] by blast
qed simp

text \<open>What a drained call of a closed gate has seen, when \<open>c\<close> accepted runs have been admitted meanwhile.\<close>

definition close_seen :: "durable_record \<Rightarrow> nat \<Rightarrow> int \<Rightarrow> gate \<Rightarrow> bool" where
  "close_seen r i c g \<longleftrightarrow> (i < length (gt_closers g) \<longrightarrow>
     (gt_closers g ! i = Idle_woken \<longrightarrow> gt_active g \<le> c) \<and>
     (\<forall>s. gt_closers g ! i = Close_returned s \<longrightarrow> as_closed s \<and> as_record s = Some r \<and> as_activeAdmissions s \<le> c))"

definition admits_accepted :: "gate_label \<Rightarrow> int" where
  "admits_accepted l = (if l = Do_admit True then 1 else 0)"

lemma exec_active:
  assumes "fenced r g" "gate_exec l g = Some g'"
  shows "gt_active g' \<le> gt_active g + admits_accepted l"
  using assms
  by (cases l; auto simp: admits_accepted_def fenced_def gate_admit_def gate_release_active gate_close_begin_def
      close_continue_def fs_persist_def fs_remove_def reopen_continue_def gate_reopen_begin_def set_reopener_def Let_def
      split: sum.splits if_splits option.splits close_phase.splits reopen_phase.splits)

text \<open>A call that has returned keeps its answer, and one that returns now answers the snapshot of the gate.\<close>

lemma returned_exec:
  assumes "gate_exec l g = Some g'" "i < length (gt_closers g')" "gt_closers g' ! i = Close_returned s"
  shows "i < length (gt_closers g) \<and> (gt_closers g ! i = Close_returned s
    \<or> (gt_closers g ! i = Idle_woken \<and> s = gate_snapshot g))"
proof (cases l)
  case (Do_release k)
  then show ?thesis using assms release_nth [of i g k] by (auto split: if_splits)
next
  case (Do_close rq now)
  then show ?thesis using assms
    by (auto simp: gate_close_begin_def Let_def wait_until_idle_nth nth_append less_Suc_eq split: if_splits option.splits)
next
  case (Close_continue j)
  then show ?thesis using assms
    by (auto simp: close_continue_def wait_until_idle_nth set_closer_def nth_list_update split: if_splits close_phase.splits)
next
  case (Fs_persist j f)
  then show ?thesis using assms
    by (auto simp: fs_persist_def set_closer_def nth_list_update split: if_splits close_phase.splits option.splits)
qed (use assms in \<open>auto simp: gate_admit_def fs_remove_def set_reopener_def gate_reopen_begin_def
       reopen_continue_def Let_def split: if_splits option.splits reopen_phase.splits\<close>)

lemma returned_stays:
  assumes "gate_exec l g = Some g'" "gate_inv g" "i < length (gt_closers g)" "gt_closers g ! i = Close_returned s"
  shows "gt_closers g' ! i = Close_returned s"
proof (cases l)
  case (Do_release k)
  have "i \<notin> set (gt_waiters g)" using assms(2-4) by (auto simp: gate_inv_def)
  then show ?thesis using assms Do_release by (auto simp: gate_release_def wake_waiters_def Let_def split: if_splits)
next
  case (Do_close rq now)
  then show ?thesis using assms
    by (auto simp: gate_close_begin_def Let_def wait_until_idle_nth nth_append split: if_splits option.splits)
next
  case (Close_continue j)
  then show ?thesis using assms
    by (auto simp: close_continue_def wait_until_idle_nth set_closer_def nth_list_update split: if_splits close_phase.splits)
next
  case (Fs_persist j f)
  then show ?thesis using assms
    by (auto simp: fs_persist_def set_closer_def nth_list_update split: if_splits close_phase.splits option.splits)
qed (use assms in \<open>auto simp: gate_admit_def fs_remove_def set_reopener_def gate_reopen_begin_def
       reopen_continue_def Let_def split: if_splits option.splits reopen_phase.splits\<close>)

lemma close_seen_exec:
  assumes f: "fenced r g" and inv: "gate_inv g" and s: "close_seen r i c g" and e: "gate_exec l g = Some g'" and c: "0 \<le> c"
  shows "close_seen r i (c + admits_accepted l) g'"
  unfolding close_seen_def
proof (intro impI conjI allI)
  have nonneg: "0 \<le> admits_accepted l" by (simp add: admits_accepted_def)
  assume i: "i < length (gt_closers g')"
  show "gt_active g' \<le> c + admits_accepted l" if w: "gt_closers g' ! i = Idle_woken"
  proof (cases "undrained i g")
    case True
    have "\<not> undrained i g'" using i w by (simp add: undrained_def)
    then show ?thesis using newly_drained [OF e True] c nonneg by simp
  next
    case False
    then consider "i < length (gt_closers g)" "gt_closers g ! i = Idle_woken"
      | s where "i < length (gt_closers g)" "gt_closers g ! i = Close_returned s" by (auto simp: undrained_def)
    then show ?thesis
    proof cases
      case 1
      then show ?thesis using s exec_active [OF f e] by (simp add: close_seen_def)
    next
      case 2
      then show ?thesis using returned_stays [OF e inv 2] w by simp
    qed
  qed
  fix x
  assume "gt_closers g' ! i = Close_returned x"
  from returned_exec [OF e i this] s f nonneg
  show "as_closed x" "as_record x = Some r" "as_activeAdmissions x \<le> c + admits_accepted l"
    by (auto simp: close_seen_def fenced_def gate_snapshot_def)
qed

lemma close_seen_run:
  "fenced r g \<Longrightarrow> gate_inv g \<Longrightarrow> close_seen r i c g \<Longrightarrow> 0 \<le> c \<Longrightarrow> gate_run ls g = Some g' \<Longrightarrow> list_all keeps_closed ls
   \<Longrightarrow> close_seen r i (c + int (count_list ls (Do_admit True))) g'"
proof (induction ls arbitrary: g c)
  case (Cons l ls)
  then obtain h where h: "gate_exec l g = Some h" "gate_run ls h = Some g'"
    by (auto simp: Option.bind_eq_Some_conv)
  have "close_seen r i ((c + admits_accepted l) + int (count_list ls (Do_admit True))) g'"
    by (rule Cons.IH [OF fenced_keeps [OF Cons.prems(1) _ h(1)] gate_inv_exec [OF Cons.prems(2) h(1)]
        close_seen_exec [OF Cons.prems(1-3) h(1) Cons.prems(4)] _ h(2)])
      (use Cons.prems(4,6) in \<open>auto simp: admits_accepted_def\<close>)
  then show ?case by (simp add: admits_accepted_def algebra_simps split: if_splits)
qed simp

text \<open>
  C35. A \<open>close\<close> that returns has drained the server: whatever else happens, dispatches, admissions
  of accepted runs, releases, other closes, reopens, failing writes, when a call returns, every
  admission that had been granted before it found the server idle is released. If the gate is closed and
  neither a reopen completes nor a marker write fails, the call reports the closed gate with its record,
  and no admission in flight except at most those of accepted runs that came through the closed gate
  while it waited.
\<close>

theorem close_returns_drained:
  assumes "gate_reachable g" and "undrained i g" and "gate_run ls g = Some g'"
    and "i < length (gt_closers g')" and "gt_closers g' ! i = Close_returned s"
  shows "(\<forall>k < length (gt_leases g). gt_leases g' ! k)
    \<and> (fenced r g \<and> list_all keeps_closed ls \<longrightarrow>
        as_closed s \<and> as_record s = Some r \<and> as_activeAdmissions s \<le> int (count_list ls (Do_admit True)))"
proof -
  have "\<not> undrained i g'" using assms(4,5) by (simp add: undrained_def)
  then have released: "\<forall>k < length (gt_leases g). gt_leases g' ! k"
    using drained_run [OF gate_inv_reachable [OF assms(1)] assms(3) order_refl] assms(2) by blast
  have "close_seen r i 0 g" using assms(2) by (auto simp: undrained_def close_seen_def)
  from close_seen_run [OF _ gate_inv_reachable [OF assms(1)] this order_refl assms(3)]
  have "as_closed s \<and> as_record s = Some r \<and> as_activeAdmissions s \<le> int (count_list ls (Do_admit True))"
    if "fenced r g" "list_all keeps_closed ls"
    using that assms(4,5) by (simp add: close_seen_def)
  then show ?thesis using released by blast
qed

text \<open>A dispatch in flight delays the close; the continuation of an accepted run slips in before it returns.\<close>

definition continued_labels :: "gate_label list" where
  "continued_labels = [Do_admit False, Do_close drain_request ''t1'', Fs_persist 0 None, Close_continue 0, Do_admit False,
     Do_release 0, Do_admit True, Close_continue 0]"

theorem close_returns_drained_witness:
  "\<exists>g g' s. gate_run (take 2 continued_labels) (new_gate Absent ''t0'') = Some g \<and> gt_leases g = [False] \<and>
     gate_run (drop 2 continued_labels) g = Some g' \<and> gt_closers g' = [Close_returned s] \<and>
     gt_leases g' ! 0 \<and> as_closed s \<and> as_activeAdmissions s \<le> 1"
proof -
  let ?r = "\<lparr>dr_operationId = ''op-1'', dr_requestedBy = Some ''cody'', dr_requestedRunId = None,
              dr_reason = None, dr_closedAt = ''t1''\<rparr>"
  obtain g where g: "gate_run (take 2 continued_labels) (new_gate Absent ''t0'') = Some g"
      "gt_closed g = Some ?r" "gt_leases g = [False]" "gt_closers g = [Persisting ?r]"
    and g': "gate_run (drop 2 continued_labels) g \<noteq> None"
      "\<exists>s. gt_closers (the (gate_run (drop 2 continued_labels) g)) = [Close_returned s]"
    by (simp add: continued_labels_def drain_request_def new_gate_def gate_admit_def gate_close_begin_def
        js_trim_def is_js_space_def Let_def fs_persist_def close_continue_def set_closer_def
        wait_until_idle_def gate_release_def wake_waiters_def gate_snapshot_def held_leases_def)
  then obtain h s where h: "gate_run (drop 2 continued_labels) g = Some h" "gt_closers h = [Close_returned s]"
    by auto
  have r: "gate_reachable g" by (rule gate_run_reachable [OF gate_reachable.start g(1)])
  have u: "undrained 0 g" "fenced ?r g" using g by (simp_all add: undrained_def fenced_def)
  have l: "list_all keeps_closed (drop 2 continued_labels)" "count_list (drop 2 continued_labels) (Do_admit True) = 1"
    by (simp_all add: continued_labels_def)
  have "gt_leases h ! 0 \<and> as_closed s \<and> as_activeAdmissions s \<le> 1"
    using close_returns_drained [OF r u(1) h(1), of s ?r] h(2) g(3) u(2) l by simp
  with g h show ?thesis by blast
qed

subsection \<open>Crash recovery\<close>

lemma load_durable_record_closed: "load_durable_record m now = None \<longleftrightarrow> m = Absent"
  by (cases m) auto

definition pending_ids_ok :: "gate \<Rightarrow> bool" where
  "pending_ids_ok g \<longleftrightarrow>
     (\<forall>r. Persisting r \<in> set (gt_closers g) \<longrightarrow> js_trim (dr_operationId r) \<noteq> [])"

lemma pending_ids_ok_exec:
  assumes "pending_ids_ok g" "gate_exec l g = Some g'"
  shows "pending_ids_ok g'"
  using assms
proof (cases l)
  case (Do_release k)
  with assms show ?thesis
    by (auto simp: pending_ids_ok_def split: if_splits dest!: gate_release_phase)
next
  case (Do_close rq now)
  with assms show ?thesis
    by (auto simp: pending_ids_ok_def gate_close_begin_def Let_def split: if_splits option.splits
        dest!: wait_until_idle_phase)
next
  case (Close_continue i)
  with assms show ?thesis
    by (auto simp: pending_ids_ok_def close_continue_def split: if_splits close_phase.splits
        dest!: wait_until_idle_phase set_closer_phase)
next
  case (Fs_persist i f)
  with assms show ?thesis
    by (auto simp: pending_ids_ok_def fs_persist_def
        split: if_splits close_phase.splits option.splits dest!: set_closer_phase)
qed (auto simp: pending_ids_ok_def gate_admit_def fs_remove_def set_reopener_def
       gate_reopen_begin_def reopen_continue_def Let_def
       split: if_splits option.splits reopen_phase.splits)

lemma pending_ids_ok_new: "pending_ids_ok (new_gate marker now)"
  by (simp add: pending_ids_ok_def new_gate_def)

lemma pending_ids_ok_reachable: "gate_reachable g \<Longrightarrow> pending_ids_ok g"
  by (induction rule: gate_reachable.induct)
     (auto simp: pending_ids_ok_new elim!: gate_stepE intro: pending_ids_ok_exec)

text \<open>
  C32. Crash recovery of the fence: once the marker of a close has been written, a restarted daemon
  comes up closed under exactly the record of that close, whatever happens to the process next.
\<close>

theorem persisted_close_survives_restart:
  assumes "gate_reachable g" and "gt_closers g ! i = Persisting r"
    and "fs_persist i None g = Some g'"
  shows "gt_closed (new_gate (gt_marker g') now) = Some r"
proof -
  from assms(3) have i: "i < length (gt_closers g)" by (auto simp: fs_persist_def split: if_splits)
  with assms(1,2) have "js_trim (dr_operationId r) \<noteq> []"
    using pending_ids_ok_reachable nth_mem unfolding pending_ids_ok_def by fastforce
  with assms(2,3) i show ?thesis
    by (auto simp: fs_persist_def new_gate_def parse_durable_json)
qed

theorem persisted_close_survives_restart_witness:
  "\<exists>g g' r. gate_run (take 2 drain_labels) (new_gate Absent ''t0'') = Some g \<and>
     gt_closers g ! 0 = Persisting r \<and> fs_persist 0 None g = Some g' \<and>
     gt_closed (new_gate (gt_marker g') ''t9'') = Some r"
proof -
  let ?r = "\<lparr>dr_operationId = ''op-1'', dr_requestedBy = Some ''cody'', dr_requestedRunId = None,
              dr_reason = None, dr_closedAt = ''t1''\<rparr>"
  obtain g where g: "gate_run (take 2 drain_labels) (new_gate Absent ''t0'') = Some g"
      "gt_closers g = [Persisting ?r]"
    by (simp add: drain_labels_def drain_request_def new_gate_def gate_admit_def gate_close_begin_def
        js_trim_def is_js_space_def Let_def)
  then obtain g' where g': "fs_persist 0 None g = Some g'" by (simp add: fs_persist_def)
  have "gate_reachable g" by (rule gate_run_reachable [OF gate_reachable.start g(1)])
  from persisted_close_survives_restart [OF this _ g', of ?r] g g' show ?thesis by auto
qed

text \<open>
  Startup reads a damaged fence as closed: the gate comes up open only when the marker file is
  absent, whatever text an existing marker holds.
\<close>

theorem restart_open_only_without_marker:
  "gt_closed (new_gate marker now) = None \<longleftrightarrow> marker = Absent"
  by (simp add: new_gate_def load_durable_record_closed)

subsection \<open>Reopening while a close is being written\<close>

definition reopen_race :: "gate_label list" where
  "reopen_race = [Do_close drain_request ''t1'', Do_reopen (Some ''op-1''), Fs_remove 0 None,
     Reopen_continue 0, Fs_persist 0 None, Close_continue 0, Close_continue 0]"

text \<open>
  A \<open>reopen\<close> by the closing operation that overtakes the marker write of its \<open>close\<close> leaves
  the gate open in memory with the marker on disk: both calls have returned an open state, a further
  \<open>reopen\<close> returns at once without removing the marker, and the next restart comes up closed.
\<close>

theorem overtaking_reopen_leaves_marker:
  "\<exists>g. gate_run reopen_race (new_gate Absent ''t0'') = Some g \<and>
       gt_closed g = None \<and> gt_marker g \<noteq> Absent \<and>
       gt_closers g = [Close_returned (gate_snapshot g)] \<and>
       gt_reopeners g = [Reopen_returned (gate_snapshot g)] \<and>
       gt_marker (gate_reopen_begin None g) = gt_marker g \<and>
       gt_closed (new_gate (gt_marker g) now) \<noteq> None"
  by (simp add: reopen_race_def drain_request_def new_gate_def gate_close_begin_def js_trim_def
      is_js_space_def Let_def gate_reopen_begin_def fs_remove_def set_reopener_def reopen_continue_def
      gate_snapshot_def fs_persist_def set_closer_def close_continue_def wait_until_idle_def)

end
