(* ===== verification/Admission_Pipeline.thy ===== *)
theory Admission_Pipeline
  imports Admission_Gate
begin

text \<open>
  The nine-step admission of a turn (turn-admission/admit.ts): the drain lease, the eight preflight
  operations in their fixed order, the route, the trace every admission records, and the
  classification of failures as refusals (nothing happened) or possible writes. The operations are
  parameters, as they are of \<open>runLeasedAdmission\<close>: functions on the world of the request that may
  throw. The authority that grants the lease is a parameter too, interpreted on the gate at the end.
\<close>

section \<open>Steps, outcomes and results\<close>

datatype admission_step_name =
    Drain_lease | Retired_persona | Fence | Participant_resolution | Ownership_proof
  | Capability_authority | Execution_presentation | Rotation | Launch_carry_observation

definition admission_steps :: "admission_step_name list" where
  "admission_steps = [Drain_lease, Retired_persona, Fence, Participant_resolution, Ownership_proof,
     Capability_authority, Execution_presentation, Rotation, Launch_carry_observation]"

text \<open>The pipeline order on the step names.\<close>

fun step_position :: "admission_step_name \<Rightarrow> nat" where
  "step_position Drain_lease = 0"
| "step_position Retired_persona = 1"
| "step_position Fence = 2"
| "step_position Participant_resolution = 3"
| "step_position Ownership_proof = 4"
| "step_position Capability_authority = 5"
| "step_position Execution_presentation = 6"
| "step_position Rotation = 7"
| "step_position Launch_carry_observation = 8"

lemma step_position_inj: "step_position a = step_position b \<Longrightarrow> a = b"
  by (cases a; cases b) auto

instantiation admission_step_name :: linorder
begin

definition less_eq_admission_step_name :: "admission_step_name \<Rightarrow> admission_step_name \<Rightarrow> bool" where
  "less_eq_admission_step_name a b = (step_position a \<le> step_position b)"

definition less_admission_step_name :: "admission_step_name \<Rightarrow> admission_step_name \<Rightarrow> bool" where
  "less_admission_step_name a b = (step_position a < step_position b)"

instance
  by standard
     (auto simp: less_eq_admission_step_name_def less_admission_step_name_def
        intro: step_position_inj)

end

lemma admission_steps_position: "p < 9 \<Longrightarrow> step_position (admission_steps ! p) = p"
  by (auto simp: admission_steps_def less_Suc_eq numeral_eq_Suc)

lemma length_admission_steps [simp]: "length admission_steps = 9"
  by (simp add: admission_steps_def)

lemma sorted_admission_steps: "sorted admission_steps \<and> distinct admission_steps"
  by (simp add: admission_steps_def less_eq_admission_step_name_def)

datatype step_mark =
    Mk_passed | Mk_not_carried | Mk_not_applicable | Mk_skipped_replay | Mk_not_reached
  | Mk_refused | Mk_possible_write | Mk_replayed

type_synonym admission_trace = "(admission_step_name \<times> step_mark) list"

text \<open>What a \<open>throw\<close> carries: an error object, or any other value (a \<open>Response\<close>).\<close>

datatype 'r thrown = Thrown_error js_error | Thrown_value 'r

datatype rejection_source = Positive_rejection | Proved_withdrawal

datatype 'r route_outcome = Accepted 'r | Rejected_unlanded rejection_source 'r

datatype 'r step_outcome =
    Step_passed
  | Step_not_carried
  | Step_not_applicable
  | Step_refused string "'r thrown"
  | Step_replayed 'r

datatype 'r admission_outcome =
    Adm_refused string "'r thrown"
  | Adm_replayed 'r
  | Adm_routed "'r route_outcome"
  | Adm_possible_write "'r thrown"

type_synonym 'r admission_result = "'r admission_outcome \<times> admission_trace"

type_synonym ('w, 'a, 'r) action = "'w \<Rightarrow> ('r thrown + 'a) \<times> 'w"

record ('w, 'r) admission_operation =
  op_step :: admission_step_name
  op_run :: "('w, 'r step_outcome, 'r) action"

record ('w, 'r) admission_work =
  aw_steps :: "('w, 'r) admission_operation list"
  aw_route :: "('w, 'r route_outcome, 'r) action"
  aw_aborted :: "'w \<Rightarrow> 'r thrown option"
  aw_record :: "'r admission_result \<Rightarrow> ('w, unit, 'r) action"

fun mark_of :: "'r step_outcome \<Rightarrow> step_mark" where
  "mark_of Step_passed = Mk_passed"
| "mark_of Step_not_carried = Mk_not_carried"
| "mark_of Step_not_applicable = Mk_not_applicable"
| "mark_of (Step_refused c e) = Mk_refused"
| "mark_of (Step_replayed r) = Mk_replayed"

section \<open>Refusal codes\<close>

definition refusal_code :: "string \<Rightarrow> string" where
  "refusal_code code =
     or_default (map_of [(''server_draining'', ''daemon_draining''),
        (''scope-retired'', ''session_retired''),
        (''local-persona-not-allowed'', ''persona_mismatch''),
        (''app-session-not-allowed'', ''persona_mismatch''),
        (''participant_rotation_unsupported'', ''fresh_context_on_participant'')] code) code"

fun thrown_code :: "'r thrown \<Rightarrow> string" where
  "thrown_code (Thrown_error e) =
     refusal_code (or_default
       (orelse (jstring (err_detail e) ''code'') (orelse (jstring (err_detail e) ''reason'') (err_code e)))
       ''admission_failed'')"
| "thrown_code (Thrown_value r) = refusal_code ''admission_failed''"

section \<open>The leased run\<close>

text \<open>\<open>complete\<close>: pad the trace with what the outcome says of the steps not run.\<close>

definition complete_admission :: "'r admission_outcome \<Rightarrow> admission_trace \<Rightarrow> 'r admission_result" where
  "complete_admission outcome trace =
     (let remainder = (case outcome of Adm_replayed r \<Rightarrow> Mk_skipped_replay | _ \<Rightarrow> Mk_not_reached)
      in (outcome, trace @ map (\<lambda>s. (s, remainder)) (drop (length trace) admission_steps)))"

datatype 'r loop_end =
    Loop_threw nat "'r thrown" admission_trace
  | Loop_stopped "'r admission_result"
  | Loop_passed admission_trace

text \<open>The \<open>for\<close> loop over positions 1 to 8.\<close>

function run_admission_steps ::
  "('w, 'r) admission_work \<Rightarrow> nat \<Rightarrow> admission_trace \<Rightarrow> 'w \<Rightarrow> 'r loop_end \<times> 'w" where
  "run_admission_steps work position trace w =
     (if length admission_steps \<le> position then (Loop_passed trace, w)
      else if length (aw_steps work) \<le> position - 1
              \<or> op_step (aw_steps work ! (position - 1)) \<noteq> admission_steps ! position
      then (Loop_threw position
              (Thrown_error (plain_error ''admission step order is incomplete'')) trace, w)
      else case aw_aborted work w of
        Some reason \<Rightarrow> (Loop_threw position reason trace, w)
      | None \<Rightarrow>
          let operation = aw_steps work ! (position - 1) in
          (case op_run operation w of
             (Inl cause, w') \<Rightarrow> (Loop_threw position cause trace, w')
           | (Inr result, w') \<Rightarrow>
               let trace' = trace @ [(op_step operation, mark_of result)] in
               (case result of
                  Step_refused code cause \<Rightarrow>
                    (Loop_stopped (complete_admission (Adm_refused code cause) trace'), w')
                | Step_replayed recorded \<Rightarrow>
                    (Loop_stopped (complete_admission (Adm_replayed recorded) trace'), w')
                | _ \<Rightarrow> run_admission_steps work (Suc position) trace' w')))"
  by pat_completeness auto
termination
  by (relation "measure (\<lambda>(work, position, trace, w). length admission_steps - position)") auto

declare run_admission_steps.simps [simp del]

text \<open>The \<open>catch\<close> clause.\<close>

definition admission_failure :: "nat \<Rightarrow> 'r thrown \<Rightarrow> admission_trace \<Rightarrow> 'r admission_result" where
  "admission_failure position cause trace =
     (let step = (if position < length admission_steps then admission_steps ! position
                  else Launch_carry_observation)
      in if 7 \<le> position then
           complete_admission (Adm_possible_write cause)
             (if length trace < length admission_steps then trace @ [(step, Mk_possible_write)]
              else trace)
         else
           complete_admission (Adm_refused (thrown_code cause) cause)
             (if length trace \<le> position then trace @ [(step, Mk_refused)] else trace))"

text \<open>The \<open>finally\<close> clause records the result and always releases; a throwing record wins.\<close>

definition finish_admission ::
  "('w, 'r) admission_work \<Rightarrow> ('w \<Rightarrow> 'w) \<Rightarrow> 'r admission_result \<Rightarrow> 'w \<Rightarrow>
   ('r thrown + 'r admission_result) \<times> 'w" where
  "finish_admission work release_lease result w =
     (case aw_record work result w of
        (Inl cause, w') \<Rightarrow> (Inl cause, release_lease w')
      | (Inr u, w') \<Rightarrow> (Inr result, release_lease w'))"

definition run_leased_admission ::
  "('w \<Rightarrow> ('l \<times> 'w) result) \<Rightarrow> ('l \<Rightarrow> 'w \<Rightarrow> 'w) \<Rightarrow> ('w, 'r) admission_work \<Rightarrow> 'w \<Rightarrow>
   ('r thrown + 'r admission_result) \<times> 'w" where
  "run_leased_admission admit release work w =
     (case admit w of
        Inl e \<Rightarrow> finish_admission work (\<lambda>v. v) (admission_failure 0 (Thrown_error e) []) w
      | Inr (lease, w0) \<Rightarrow>
          (case run_admission_steps work 1 [(Drain_lease, Mk_passed)] w0 of
             (Loop_threw position cause trace, w1) \<Rightarrow>
               finish_admission work (release lease) (admission_failure position cause trace) w1
           | (Loop_stopped result, w1) \<Rightarrow> finish_admission work (release lease) result w1
           | (Loop_passed trace, w1) \<Rightarrow>
               (case aw_route work w1 of
                  (Inl cause, w2) \<Rightarrow>
                    finish_admission work (release lease)
                      (admission_failure (length admission_steps) cause trace) w2
                | (Inr routed, w2) \<Rightarrow>
                    (case aw_aborted work w2 of
                       Some reason \<Rightarrow>
                         finish_admission work (release lease)
                           (admission_failure (length admission_steps) reason trace) w2
                     | None \<Rightarrow>
                         finish_admission work (release lease)
                           (complete_admission (Adm_routed routed) trace) w2))))"

text \<open>\<open>admissionValue\<close>: the door's response, or the value it throws.\<close>

fun admission_value :: "'r admission_result \<Rightarrow> 'r thrown + 'r" where
  "admission_value (Adm_refused code cause, trace) = Inl cause"
| "admission_value (Adm_possible_write cause, trace) = Inl cause"
| "admission_value (Adm_replayed recorded, trace) = Inr recorded"
| "admission_value (Adm_routed (Accepted v), trace) = Inr v"
| "admission_value (Adm_routed (Rejected_unlanded s v), trace) = Inr v"

section \<open>The shape of every trace\<close>

definition passing :: "step_mark \<Rightarrow> bool" where
  "passing m = (m \<in> {Mk_passed, Mk_not_carried, Mk_not_applicable})"

text \<open>A trace of passed steps up to a position, the state of the loop.\<close>

definition ok_trace :: "nat \<Rightarrow> admission_trace \<Rightarrow> bool" where
  "ok_trace p t \<longleftrightarrow> p \<le> 9 \<and> map fst t = take p admission_steps \<and> (\<forall>x \<in> set t. passing (snd x))"

text \<open>The trace passes up to step \<open>k\<close>, has \<open>mark\<close> there and \<open>rest\<close> on every later step.\<close>

definition stops_at :: "nat \<Rightarrow> step_mark \<Rightarrow> step_mark \<Rightarrow> admission_trace \<Rightarrow> bool" where
  "stops_at k mark rest t \<longleftrightarrow>
     k < 9 \<and> map fst t = admission_steps \<and> (\<forall>i < k. passing (snd (t ! i))) \<and>
     snd (t ! k) = mark \<and> (\<forall>i. k < i \<and> i < 9 \<longrightarrow> snd (t ! i) = rest)"

lemma ok_trace_length: "ok_trace p t \<Longrightarrow> length t = p"
  by (auto simp: ok_trace_def dest!: arg_cong [where f = length])

lemma ok_trace_snoc:
  "ok_trace p t \<Longrightarrow> p < 9 \<Longrightarrow> passing m \<Longrightarrow> ok_trace (Suc p) (t @ [(admission_steps ! p, m)])"
  by (auto simp: ok_trace_def take_Suc_conv_app_nth)

lemma ok_trace_start: "ok_trace 1 [(Drain_lease, Mk_passed)]"
  by (simp add: ok_trace_def admission_steps_def passing_def)

lemma ok_trace_Nil: "ok_trace 0 []"
  by (simp add: ok_trace_def)

lemma padded_steps:
  assumes "ok_trace k t" "k < 9"
  shows "map fst (t @ (admission_steps ! k, m) # map (\<lambda>s. (s, r)) (drop (Suc k) admission_steps))
         = admission_steps"
  using assms by (simp add: ok_trace_def comp_def id_take_nth_drop [symmetric])

lemma stops_at_complete:
  assumes ok: "ok_trace k t" "k < 9"
    and rest: "rest = (case out of Adm_replayed r \<Rightarrow> Mk_skipped_replay | _ \<Rightarrow> Mk_not_reached)"
  shows "stops_at k m rest (snd (complete_admission out (t @ [(admission_steps ! k, m)])))"
proof -
  let ?t = "t @ (admission_steps ! k, m) # map (\<lambda>s. (s, rest)) (drop (Suc k) admission_steps)"
  have len: "length t = k" using ok(1) by (rule ok_trace_length)
  have "snd (complete_admission out (t @ [(admission_steps ! k, m)])) = ?t"
    using len rest by (simp add: complete_admission_def Let_def)
  moreover have "map fst ?t = admission_steps" using ok by (rule padded_steps)
  moreover have "passing (snd (?t ! i))" if "i < k" for i
    using that ok(1) len by (auto simp: nth_append ok_trace_def)
  moreover have "snd (?t ! i) = rest" if "k < i" "i < 9" for i
  proof -
    have "?t ! i = map (\<lambda>s. (s, rest)) (drop (Suc k) admission_steps) ! (i - Suc k)"
      using that len by (simp add: nth_append)
    with that show ?thesis by simp
  qed
  moreover have "snd (?t ! k) = m" using len by (simp add: nth_append)
  ultimately show ?thesis using ok(2) by (simp add: stops_at_def)
qed

text \<open>One turn of the loop, by what happens at its position.\<close>

definition step_ready :: "('w, 'r) admission_work \<Rightarrow> nat \<Rightarrow> bool" where
  "step_ready work p \<longleftrightarrow>
     p < 9 \<and> p - 1 < length (aw_steps work) \<and> op_step (aw_steps work ! (p - 1)) = admission_steps ! p"

lemma run_steps_done: "9 \<le> p \<Longrightarrow> run_admission_steps work p t w = (Loop_passed t, w)"
  by (simp add: run_admission_steps.simps [of work p])

lemma run_steps_gap:
  "p < 9 \<Longrightarrow> \<not> step_ready work p \<Longrightarrow> run_admission_steps work p t w =
    (Loop_threw p (Thrown_error (plain_error ''admission step order is incomplete'')) t, w)"
  by (auto simp: run_admission_steps.simps [of work p] step_ready_def)

lemma run_steps_aborted:
  "step_ready work p \<Longrightarrow> aw_aborted work w = Some reason \<Longrightarrow>
   run_admission_steps work p t w = (Loop_threw p reason t, w)"
  by (auto simp: run_admission_steps.simps [of work p] step_ready_def)

lemma run_steps_threw:
  "step_ready work p \<Longrightarrow> aw_aborted work w = None \<Longrightarrow>
   op_run (aw_steps work ! (p - 1)) w = (Inl cause, w') \<Longrightarrow>
   run_admission_steps work p t w = (Loop_threw p cause t, w')"
  by (auto simp: run_admission_steps.simps [of work p] step_ready_def)

lemma run_steps_result:
  "step_ready work p \<Longrightarrow> aw_aborted work w = None \<Longrightarrow>
   op_run (aw_steps work ! (p - 1)) w = (Inr r, w') \<Longrightarrow>
   run_admission_steps work p t w =
     (let t' = t @ [(admission_steps ! p, mark_of r)] in
      case r of
        Step_refused c e \<Rightarrow> (Loop_stopped (complete_admission (Adm_refused c e) t'), w')
      | Step_replayed v \<Rightarrow> (Loop_stopped (complete_admission (Adm_replayed v) t'), w')
      | _ \<Rightarrow> run_admission_steps work (Suc p) t' w')"
  by (auto simp: run_admission_steps.simps [of work p] step_ready_def Let_def split: step_outcome.split)

lemma run_steps_cases:
  obtains (finished) "9 \<le> p"
    | (gap) "p < 9" "\<not> step_ready work p"
    | (aborted) reason where "step_ready work p" "aw_aborted work w = Some reason"
    | (threw) cause w' where "step_ready work p" "aw_aborted work w = None"
        "op_run (aw_steps work ! (p - 1)) w = (Inl cause, w')"
    | (result) r w' where "step_ready work p" "aw_aborted work w = None"
        "op_run (aw_steps work ! (p - 1)) w = (Inr r, w')"
  by (metis not_le not_None_eq sum.exhaust_sel surj_pair)

definition answered :: "('w, 'r) admission_work \<Rightarrow> nat \<Rightarrow> 'r step_outcome \<Rightarrow> bool" where
  "answered work k r \<longleftrightarrow> (\<exists>v v'. op_run (aw_steps work ! (k - 1)) v = (Inr r, v'))"

fun loop_end_ok :: "('w, 'r) admission_work \<Rightarrow> nat \<Rightarrow> 'r loop_end \<Rightarrow> bool" where
  "loop_end_ok work p (Loop_threw q cause t) = (p \<le> q \<and> q < 9 \<and> ok_trace q t)"
| "loop_end_ok work p (Loop_passed t) = ok_trace 9 t"
| "loop_end_ok work p (Loop_stopped r) =
     (\<exists>k. p \<le> k \<and>
       ((\<exists>c e. fst r = Adm_refused c e \<and> answered work k (Step_refused c e) \<and>
               stops_at k Mk_refused Mk_not_reached (snd r)) \<or>
        (\<exists>v. fst r = Adm_replayed v \<and> answered work k (Step_replayed v) \<and>
             stops_at k Mk_replayed Mk_skipped_replay (snd r))))"

lemma loop_end_ok_mono: "loop_end_ok work (Suc p) e \<Longrightarrow> loop_end_ok work p e"
  by (cases e) (auto dest: Suc_leD)

lemma fst_complete_admission [simp]: "fst (complete_admission out t) = out"
  by (simp add: complete_admission_def Let_def)

lemma run_admission_steps_end:
  "ok_trace p t \<Longrightarrow> loop_end_ok work p (fst (run_admission_steps work p t w))"
proof (induction "9 - p" arbitrary: p t w)
  case 0
  then have "p = 9" by (simp add: ok_trace_def)
  with 0 show ?case by (simp add: run_steps_done)
next
  case (Suc n)
  then have p: "p < 9" by simp
  show ?case
  proof (cases rule: run_steps_cases [where p = p and work = work and w = w])
    case (result r w')
    have go: "loop_end_ok work p (fst (run_admission_steps work (Suc p) (t @ [(admission_steps ! p, mark_of r)]) w'))"
      if "passing (mark_of r)"
    proof (rule loop_end_ok_mono, rule Suc.hyps(1))
      show "n = 9 - Suc p" using Suc.hyps(2) by simp
      show "ok_trace (Suc p) (t @ [(admission_steps ! p, mark_of r)])"
        using Suc.prems p that by (rule ok_trace_snoc)
    qed
    show ?thesis
    proof (cases r)
      case (Step_refused c e)
      have "stops_at p Mk_refused Mk_not_reached
          (snd (complete_admission (Adm_refused c e) (t @ [(admission_steps ! p, Mk_refused)])))"
        using Suc.prems p by (intro stops_at_complete) auto
      with result Step_refused show ?thesis by (simp add: run_steps_result answered_def) blast
    next
      case (Step_replayed v)
      have "stops_at p Mk_replayed Mk_skipped_replay
          (snd (complete_admission (Adm_replayed v) (t @ [(admission_steps ! p, Mk_replayed)])))"
        using Suc.prems p by (intro stops_at_complete) auto
      with result Step_replayed show ?thesis by (simp add: run_steps_result answered_def) blast
    qed (use go result in \<open>simp_all add: run_steps_result passing_def\<close>)
  qed (use Suc.prems p in \<open>simp_all add: run_steps_gap run_steps_aborted run_steps_threw\<close>)
qed

lemma admission_failure_shape:
  assumes "ok_trace q t" "q \<le> 9"
  shows "(q < 7 \<longrightarrow> fst (admission_failure q cause t) = Adm_refused (thrown_code cause) cause \<and>
             stops_at q Mk_refused Mk_not_reached (snd (admission_failure q cause t))) \<and>
         (7 \<le> q \<longrightarrow> fst (admission_failure q cause t) = Adm_possible_write cause \<and>
             map fst (snd (admission_failure q cause t)) = admission_steps \<and>
             (\<forall>i < 7. passing (snd (snd (admission_failure q cause t) ! i))))"
proof -
  have len: "length t = q" using assms(1) by (rule ok_trace_length)
  have full: "snd (admission_failure 9 cause t) = t" if "q = 9"
    using that len by (simp add: admission_failure_def complete_admission_def Let_def)
  have stop: "stops_at q m Mk_not_reached
      (snd (complete_admission out (t @ [(admission_steps ! q, m)])))"
    if "q < 9" "\<And>v. out \<noteq> Adm_replayed v" for m and out :: "'a admission_outcome"
    using assms(1) that by (intro stops_at_complete) (auto split: admission_outcome.split)
  show ?thesis
  proof (cases "q = 9")
    case True
    with full assms(1) len show ?thesis
      by (auto simp: ok_trace_def admission_failure_def Let_def)
  next
    case False
    with assms(2) have q: "q < 9" by simp
    from q len stop [OF q, of "Adm_refused (thrown_code cause) cause" Mk_refused]
      stop [OF q, of "Adm_possible_write cause" Mk_possible_write]
    show ?thesis by (auto simp: admission_failure_def Let_def stops_at_def)
  qed
qed

lemma finish_admission_Inr:
  "fst (finish_admission work rel r w) = Inr r' \<Longrightarrow> r' = r"
  by (auto simp: finish_admission_def split: prod.splits sum.splits)

lemma finish_admission_world:
  "snd (finish_admission work rel r w) = rel (snd (aw_record work r w))"
  by (auto simp: finish_admission_def split: prod.splits sum.splits)

lemma complete_routed_trace:
  "ok_trace 9 t \<Longrightarrow> snd (complete_admission out t) = t"
  by (simp add: complete_admission_def Let_def ok_trace_length)

lemma failure_end:
  assumes "(out, t') = admission_failure q cause t" "ok_trace q t" "q \<le> 9"
  shows "(\<exists>c e. out = Adm_refused c e \<and> q < 7 \<and> stops_at q Mk_refused Mk_not_reached t') \<or>
         (\<exists>e. out = Adm_possible_write e \<and> map fst t' = admission_steps \<and>
              (\<forall>i < 7. passing (snd (t' ! i))))"
  using admission_failure_shape [OF assms(2,3), of cause] assms(1)
  by (cases "q < 7") (auto simp: eq_fst_iff [symmetric] dest: sym)

text \<open>Everything a finished admission reports about its nine steps.\<close>

fun admission_report_ok :: "('w, 'r) admission_work \<Rightarrow> 'r admission_result \<Rightarrow> bool" where
  "admission_report_ok work (Adm_refused c e, t) =
     (\<exists>k. stops_at k Mk_refused Mk_not_reached t \<and> (k < 7 \<or> answered work k (Step_refused c e)))"
| "admission_report_ok work (Adm_replayed v, t) =
     (\<exists>k. stops_at k Mk_replayed Mk_skipped_replay t \<and> answered work k (Step_replayed v))"
| "admission_report_ok work (Adm_routed v, t) =
     (map fst t = admission_steps \<and> (\<forall>x \<in> set t. passing (snd x)))"
| "admission_report_ok work (Adm_possible_write e, t) =
     (map fst t = admission_steps \<and> (\<forall>i < 7. passing (snd (t ! i))))"

lemma failure_report_ok: "ok_trace q t \<Longrightarrow> q \<le> 9 \<Longrightarrow> admission_report_ok work (admission_failure q cause t)"
  using failure_end [of "fst (admission_failure q cause t)" "snd (admission_failure q cause t)" q cause t]
  by (cases "admission_failure q cause t") auto

lemma run_leased_report_ok:
  assumes "fst (run_leased_admission admit release work w) = Inr r"
  shows "admission_report_ok work r"
proof (cases "admit w")
  case (Inl e)
  with assms have "r = admission_failure 0 (Thrown_error e) []"
    by (auto simp: run_leased_admission_def dest: finish_admission_Inr)
  then show ?thesis by (simp add: failure_report_ok ok_trace_Nil)
next
  case (Inr grant)
  obtain l w0 where grant: "grant = (l, w0)" by fastforce
  obtain e w1 where loop: "run_admission_steps work 1 [(Drain_lease, Mk_passed)] w0 = (e, w1)" by fastforce
  have "loop_end_ok work 1 (fst (run_admission_steps work 1 [(Drain_lease, Mk_passed)] w0))"
    by (rule run_admission_steps_end) (rule ok_trace_start)
  with loop have e: "loop_end_ok work 1 e" by simp
  show ?thesis
  proof (cases e)
    case (Loop_threw q cause t)
    with assms Inr grant loop have "r = admission_failure q cause t"
      by (auto simp: run_leased_admission_def dest: finish_admission_Inr)
    with e Loop_threw show ?thesis by (simp add: failure_report_ok)
  next
    case (Loop_stopped r')
    with assms Inr grant loop have "r = r'"
      by (auto simp: run_leased_admission_def dest: finish_admission_Inr)
    with e Loop_stopped show ?thesis by (cases r) auto
  next
    case (Loop_passed t)
    with e have t: "ok_trace 9 t" by simp
    from assms Inr grant loop Loop_passed
    consider cause where "r = admission_failure 9 cause t"
      | v where "r = complete_admission (Adm_routed v) t"
      by (auto simp: run_leased_admission_def split: prod.splits sum.splits option.splits
          dest: finish_admission_Inr)
    then show ?thesis
    proof cases
      case 1
      with t show ?thesis by (simp add: failure_report_ok)
    next
      case 2
      then have "r = (Adm_routed v, t)"
        using t by (metis complete_routed_trace fst_complete_admission prod.collapse)
      with t show ?thesis by (simp add: ok_trace_def)
    qed
  qed
qed

section \<open>The lease is released on every path\<close>

lemma run_admission_steps_preserves:
  assumes "P w" and "\<And>o' v. o' \<in> set (aw_steps work) \<Longrightarrow> P v \<Longrightarrow> P (snd (op_run o' v))"
  shows "P (snd (run_admission_steps work p t w))"
  using assms(1)
proof (induction "9 - p" arbitrary: p t w)
  case 0
  then show ?case by (simp add: run_steps_done)
next
  case (Suc n)
  show ?case
  proof (cases rule: run_steps_cases [where p = p and work = work and w = w])
    case (result r w')
    then have "P w'"
      using assms(2) [of "aw_steps work ! (p - 1)" w] Suc.prems by (simp add: step_ready_def)
    then have "P (snd (run_admission_steps work (Suc p) t' w'))" for t'
      using Suc.hyps by simp
    with result \<open>P w'\<close> show ?thesis
      by (cases r) (simp_all add: run_steps_result Let_def)
  next
    case (threw cause w')
    with assms(2) [of "aw_steps work ! (p - 1)" w] Suc.prems show ?thesis
      by (simp add: run_steps_threw step_ready_def)
  qed (use Suc in \<open>simp_all add: run_steps_gap run_steps_aborted run_steps_done\<close>)
qed

lemma run_leased_world:
  assumes grant: "admit w = Inr (l, w0)" and P: "P w0"
    and steps: "\<And>o' v. o' \<in> set (aw_steps work) \<Longrightarrow> P v \<Longrightarrow> P (snd (op_run o' v))"
    and route: "\<And>v. P v \<Longrightarrow> P (snd (aw_route work v))"
    and rec: "\<And>r v. P v \<Longrightarrow> P (snd (aw_record work r v))"
  shows "\<exists>v. P v \<and> snd (run_leased_admission admit release work w) = release l v"
proof -
  obtain e w1 where loop: "run_admission_steps work 1 [(Drain_lease, Mk_passed)] w0 = (e, w1)"
    by fastforce
  have w1: "P w1"
    using run_admission_steps_preserves [of P w0 work 1 "[(Drain_lease, Mk_passed)]"] P steps loop by simp
  obtain res w2 where routed: "aw_route work w1 = (res, w2)" by fastforce
  with route [OF w1] have w2: "P w2" by simp
  note fin = finish_admission_world [of work "release l"]
  show ?thesis
  proof (cases e)
    case (Loop_passed t)
    with grant loop routed w2 show ?thesis
      by (auto simp: run_leased_admission_def fin intro: rec split: sum.split option.split)
  qed (use grant loop w1 in \<open>auto simp: run_leased_admission_def fin intro: rec\<close>)
qed

context lease_authority begin

lemma leased_admission_neutral:
  assumes "valid w" and "admit w = Inr (l, w0)"
    and "\<forall>o' \<in> set (aw_steps work). neutral (\<lambda>v. snd (op_run o' v))"
    and "neutral (\<lambda>v. snd (aw_route work v))"
    and "\<forall>r. neutral (\<lambda>v. snd (aw_record work r v))"
  shows "valid (snd (run_leased_admission admit release work w)) \<and>
         held (snd (run_leased_admission admit release work w)) = held w \<and>
         \<not> outstanding l (snd (run_leased_admission admit release work w))"
proof -
  let ?P = "\<lambda>v. valid v \<and> held v = held w + 1 \<and> outstanding l v"
  have "?P w0"
    using assms(1,2) by (auto intro: admit_valid admit_held admit_outstanding)
  then obtain v where "?P v" "snd (run_leased_admission admit release work w) = release l v"
    using run_leased_world [of admit w l w0 ?P work release] assms by (auto simp: neutral_def)
  then show ?thesis by (simp add: release_valid release_held release_done)
qed

end

section \<open>The pipeline on the drained-restart gate\<close>

text \<open>The world of a request: the gate and whatever else the operations read and write.\<close>

definition world_admit :: "gate \<times> 's \<Rightarrow> (nat \<times> (gate \<times> 's)) result" where
  "world_admit w = (case gate_admit False (fst w) of
     Inl e \<Rightarrow> Inl e | Inr (l, g) \<Rightarrow> Inr (l, (g, snd w)))"

definition world_release :: "nat \<Rightarrow> gate \<times> 's \<Rightarrow> gate \<times> 's" where
  "world_release l w = (gate_release l (fst w), snd w)"

interpretation world_lease: lease_authority "\<lambda>w. gate_inv (fst w)" "\<lambda>w. gt_active (fst w)"
  "\<lambda>l w. gate_outstanding l (fst w)" world_admit world_release
proof
  fix w w' :: "gate \<times> 's" and l k :: nat
  assume valid: "gate_inv (fst w)"
  {
    assume "world_admit w = Inr (l, w')"
    then have grant: "gate_admit False (fst w) = Inr (l, fst w')"
      by (auto simp: world_admit_def split: sum.splits)
    show "gate_inv (fst w')" using valid grant by (rule gate_lease.admit_valid)
    show "gt_active (fst w') = gt_active (fst w) + 1" using valid grant by (rule gate_lease.admit_held)
    show "gate_outstanding l (fst w')" using valid grant by (rule gate_lease.admit_outstanding)
    show "\<not> gate_outstanding l (fst w)" using valid grant by (rule gate_lease.admit_fresh)
    show "gate_outstanding k (fst w')" if "gate_outstanding k (fst w)"
      using valid grant that by (rule gate_lease.admit_others)
  }
  show "gate_inv (fst (world_release l w))"
    using valid by (simp add: world_release_def gate_lease.release_valid)
  show "gt_active (fst (world_release l w)) = gt_active (fst w) - 1" if "gate_outstanding l (fst w)"
    using valid that by (simp add: world_release_def gate_lease.release_held)
  show "\<not> gate_outstanding l (fst (world_release l w))"
    using valid by (simp add: world_release_def gate_lease.release_done)
  show "world_release l w = w" if "\<not> gate_outstanding l (fst w)"
    using valid that by (simp add: world_release_def gate_lease.release_again)
qed

text \<open>An operation that takes no lease of its own and releases none.\<close>

definition gate_neutral :: "(gate \<times> 's \<Rightarrow> gate \<times> 's) \<Rightarrow> bool" where
  "gate_neutral f \<longleftrightarrow>
     (\<forall>w. gate_inv (fst w) \<longrightarrow> gate_inv (fst (f w)) \<and> gt_active (fst (f w)) = gt_active (fst w) \<and>
          (\<forall>l. gate_outstanding l (fst w) \<longrightarrow> gate_outstanding l (fst (f w))))"

lemma gate_neutral_iff: "gate_neutral f = world_lease.neutral f"
  by (simp add: gate_neutral_def world_lease.neutral_def)

section \<open>Properties\<close>

text \<open>
  Whatever the operations, the route and the abort signal do, a finished admission reports the
  nine steps in pipeline order: after a refusal the later steps are marked not reached, after a
  replay skipped, a routed admission passed all nine, and a possible write passed the seven steps
  before rotation. A refusal at rotation or later only comes from an operation that answered so,
  never from a thrown error.
\<close>

theorem admission_reports_nine_steps:
  assumes "fst (run_leased_admission admit release work w) = Inr r"
  shows "admission_report_ok work r \<and> map fst (snd r) = admission_steps"
proof -
  have "admission_report_ok work r" using assms by (rule run_leased_report_ok)
  moreover from this have "map fst (snd r) = admission_steps"
    by (cases r; cases "fst r") (auto simp: stops_at_def)
  ultimately show ?thesis by simp
qed

definition passing_work :: "(gate \<times> nat, string) admission_work" where
  "passing_work =
     \<lparr>aw_steps = map (\<lambda>s. \<lparr>op_step = s, op_run = (\<lambda>w. (Inr Step_passed, (fst w, Suc (snd w))))\<rparr>)
        (tl admission_steps),
      aw_route = (\<lambda>w. (Inr (Accepted ''ok''), w)), aw_aborted = (\<lambda>w. None),
      aw_record = (\<lambda>r w. (Inr (), w))\<rparr>"

text \<open>The same work whose rotation throws: the failure must not be reported as a refusal.\<close>

definition failing_rotation_work :: "(gate \<times> nat, string) admission_work" where
  "failing_rotation_work = passing_work\<lparr>aw_steps := (aw_steps passing_work)
     [6 := \<lparr>op_step = Rotation, op_run = (\<lambda>w. (Inl (Thrown_error (plain_error ''rotate'')), w))\<rparr>]\<rparr>"

theorem admission_reports_nine_steps_witness:
  "\<exists>r. fst (run_leased_admission world_admit world_release failing_rotation_work
           (new_gate Absent ''t'', 0)) = Inr r \<and>
       fst r = Adm_possible_write (Thrown_error (plain_error ''rotate'')) \<and>
       admission_report_ok failing_rotation_work r \<and> map fst (snd r) = admission_steps"
proof -
  obtain r where r: "fst (run_leased_admission world_admit world_release failing_rotation_work
           (new_gate Absent ''t'', 0)) = Inr r"
      "fst r = Adm_possible_write (Thrown_error (plain_error ''rotate''))"
    by (simp add: run_leased_admission_def world_admit_def gate_admit_def new_gate_def passing_work_def
        failing_rotation_work_def run_admission_steps.simps admission_steps_def finish_admission_def
        admission_failure_def complete_admission_def world_release_def Let_def)
  with admission_reports_nine_steps [OF r(1)] show ?thesis by blast
qed

text \<open>
  The drain lease is released exactly once on every path (success, refusal, replay, thrown
  error, abort, throwing recorder): if the operations themselves are lease-neutral, the gate ends
  with the admissions it had, its invariant holds, and the granted lease is no longer outstanding.
\<close>

theorem leased_admission_restores_gate:
  assumes "gate_inv (fst w)" and "world_admit w = Inr (l, w0)"
    and "\<forall>o' \<in> set (aw_steps work). gate_neutral (\<lambda>v. snd (op_run o' v))"
    and "gate_neutral (\<lambda>v. snd (aw_route work v))"
    and "\<forall>r. gate_neutral (\<lambda>v. snd (aw_record work r v))"
  shows "gate_inv (fst (snd (run_leased_admission world_admit world_release work w))) \<and>
         gt_active (fst (snd (run_leased_admission world_admit world_release work w))) = gt_active (fst w) \<and>
         \<not> gate_outstanding l (fst (snd (run_leased_admission world_admit world_release work w)))"
  using assms unfolding gate_neutral_iff by (rule world_lease.leased_admission_neutral)

theorem leased_admission_restores_gate_witness:
  "\<exists>w. gate_inv (fst w) \<and> gt_active (fst w) = 1 \<and>
     gt_active (fst (snd (run_leased_admission world_admit world_release failing_rotation_work w))) = 1 \<and>
     \<not> gate_outstanding 1
         (fst (snd (run_leased_admission world_admit world_release failing_rotation_work w)))"
proof -
  obtain g where g: "gate_admit False (new_gate Absent ''t'') = Inr (0, g)" "gt_active g = 1"
      "gt_leases g = [False]" "gt_closed g = None"
    by (simp add: gate_admit_def new_gate_def)
  have inv: "gate_inv g" using gate_inv_new g(1) by (rule gate_inv_admit)
  obtain h where h: "world_admit (g, 0::nat) = Inr (1, h)"
    using g by (simp add: world_admit_def gate_admit_def)
  have neutral: "\<forall>o' \<in> set (aw_steps failing_rotation_work). gate_neutral (\<lambda>v. snd (op_run o' v))"
    by (auto simp: failing_rotation_work_def passing_work_def admission_steps_def gate_neutral_def)
  have "gt_active (fst (snd (run_leased_admission world_admit world_release failing_rotation_work (g, 0)))) = 1 \<and>
     \<not> gate_outstanding 1
         (fst (snd (run_leased_admission world_admit world_release failing_rotation_work (g, 0))))"
    using leased_admission_restores_gate [of "(g, 0)" 1 h failing_rotation_work] inv h neutral g(2)
    by (simp add: failing_rotation_work_def passing_work_def gate_neutral_def)
  with inv g(2) show ?thesis by (intro exI [of _ "(g, 0)"]) simp
qed

text \<open>
  While the gate is closed an admission runs no operation and no route: the result is the
  refusal \<open>daemon_draining\<close> carrying the gate's error, the trace refuses at the drain lease, the
  result is recorded once, and that is the only effect on the world.
\<close>

theorem admission_refused_while_draining:
  assumes "gt_closed (fst w) = Some r"
  shows "run_leased_admission world_admit world_release work w =
     (let refusal = (Adm_refused ''daemon_draining'' (Thrown_error (draining_error r)),
            (Drain_lease, Mk_refused) # map (\<lambda>s. (s, Mk_not_reached)) (tl admission_steps))
      in case aw_record work refusal w of
           (Inl cause, w') \<Rightarrow> (Inl cause, w') | (Inr u, w') \<Rightarrow> (Inr refusal, w'))"
  using assms
  by (simp add: run_leased_admission_def world_admit_def gate_admit_def admission_failure_def
      complete_admission_def finish_admission_def admission_steps_def draining_error_def
      domain_error_def refusal_code_def jstring_def Let_def)

theorem admission_refused_while_draining_witness:
  "\<exists>r t. gt_closed (new_gate Unreadable ''t'') = Some r \<and>
     fst (run_leased_admission world_admit world_release passing_work (new_gate Unreadable ''t'', 0)) =
       Inr (Adm_refused ''daemon_draining'' (Thrown_error (draining_error r)), t) \<and>
     snd (run_leased_admission world_admit world_release passing_work (new_gate Unreadable ''t'', 0)) =
       (new_gate Unreadable ''t'', 0)"
proof -
  obtain r where r: "gt_closed (new_gate Unreadable ''t'') = Some r" by (simp add: new_gate_def)
  with admission_refused_while_draining [of "(new_gate Unreadable ''t'', 0)" r passing_work] show ?thesis
    by (auto simp: passing_work_def Let_def)
qed

end
