(* ===== verification/Bounded_Queue.thy ===== *)
theory Bounded_Queue
  imports JS_String
begin

text \<open>
  The count-and-byte bounded queue of the lifecycle event stream (bounded-event-stream.ts). A record
  is encoded to the ndjson text that is sent, whose UTF-8 length is what the byte bound counts. An
  event stands for the ledger interval \<open>(hrcSeq - 1, hrcSeq]\<close>, a gap for \<open>(afterSeq, beforeSeq]\<close>.
\<close>

section \<open>Stream records\<close>

record lifecycle_event =
  le_hrcSeq :: int
  le_fields :: json_object

datatype gap_reason = Replay_window | Live_queue | Event_oversize

datatype stream_record =
    Ready string int int
  | Event string lifecycle_event
  | Gap string gap_reason int int "int option"
  | Ledger_replaced string string
  | Home_unreachable string string

datatype encoded = Encoded (er_record: stream_record) (er_text: string)

fun gap_reason_text :: "gap_reason \<Rightarrow> string" where
  "gap_reason_text Replay_window = ''replay_window''"
| "gap_reason_text Live_queue = ''live_queue''"
| "gap_reason_text Event_oversize = ''event_oversize''"

definition lifecycle_event_json :: "lifecycle_event \<Rightarrow> json" where
  "lifecycle_event_json ev = JObj ((''hrcSeq'', JNum (le_hrcSeq ev)) # le_fields ev)"

fun nullable_count :: "int option \<Rightarrow> json" where
  "nullable_count None = JNull"
| "nullable_count (Some n) = JNum n"

fun stream_record_json :: "stream_record \<Rightarrow> json" where
  "stream_record_json (Ready ledger afterSeq head) = JObj
     [(''type'', JStr ''ready''), (''ledgerIncarnationId'', JStr ledger),
      (''acceptedAfterHrcSeq'', JNum afterSeq), (''replayHeadHrcSeq'', JNum head)]"
| "stream_record_json (Event ledger ev) = JObj
     [(''type'', JStr ''event''), (''ledgerIncarnationId'', JStr ledger),
      (''event'', lifecycle_event_json ev)]"
| "stream_record_json (Gap ledger reason afterSeq beforeSeq dropped) = JObj
     [(''type'', JStr ''gap''), (''ledgerIncarnationId'', JStr ledger),
      (''reason'', JStr (gap_reason_text reason)), (''afterHrcSeq'', JNum afterSeq),
      (''beforeHrcSeq'', JNum beforeSeq), (''dropped'', nullable_count dropped)]"
| "stream_record_json (Ledger_replaced expected current) = JObj
     [(''type'', JStr ''ledger_replaced''), (''expectedLedgerIncarnationId'', JStr expected),
      (''currentLedgerIncarnationId'', JStr current)]"
| "stream_record_json (Home_unreachable node reason) = JObj
     [(''type'', JStr ''home_unreachable''), (''homeNodeId'', JStr node),
      (''retryable'', JBool True), (''reason'', JStr reason)]"

definition encode_ndjson :: "json \<Rightarrow> string" where
  "encode_ndjson v = json_stringify v @ [CHR 0x0A]"

definition encode_record :: "stream_record \<Rightarrow> encoded" where
  "encode_record r = Encoded r (encode_ndjson (stream_record_json r))"

definition byte_length :: "encoded \<Rightarrow> nat" where
  "byte_length e = utf8_length (er_text e)"

fun position_of :: "stream_record \<Rightarrow> int option" where
  "position_of (Event ledger ev) = Some (le_hrcSeq ev)"
| "position_of (Gap ledger reason afterSeq beforeSeq dropped) = Some beforeSeq"
| "position_of _ = None"

fun dropped_by :: "stream_record \<Rightarrow> int option" where
  "dropped_by (Event ledger ev) = Some 1"
| "dropped_by (Gap ledger reason afterSeq beforeSeq dropped) = dropped"
| "dropped_by _ = Some 0"

fun add_dropped :: "int option \<Rightarrow> int option \<Rightarrow> int option" where
  "add_dropped (Some a) (Some b) = Some (a + b)"
| "add_dropped _ _ = None"

definition event_or_oversize_gap :: "string \<Rightarrow> lifecycle_event \<Rightarrow> nat \<Rightarrow> encoded" where
  "event_or_oversize_gap ledger ev maxBytes =
     (let encoded = encode_record (Event ledger ev) in
      if byte_length encoded \<le> maxBytes then encoded
      else encode_record (Gap ledger Event_oversize (le_hrcSeq ev - 1) (le_hrcSeq ev) (Some 1)))"

section \<open>The queue\<close>

record event_queue =
  bq_ledger :: string
  bq_entries :: "encoded list"
  bq_byteSize :: int
  bq_deliveredHrcSeq :: int
  bq_maxRecords :: nat
  bq_maxBytes :: nat

definition default_max_records :: nat where "default_max_records = 2048"
definition default_max_bytes :: nat where "default_max_bytes = 16 * 1024 * 1024"

definition new_queue :: "string \<Rightarrow> int \<Rightarrow> nat \<Rightarrow> nat \<Rightarrow> event_queue" where
  "new_queue ledger afterSeq maxRecords maxBytes =
     \<lparr>bq_ledger = ledger, bq_entries = [], bq_byteSize = 0, bq_deliveredHrcSeq = afterSeq,
      bq_maxRecords = maxRecords, bq_maxBytes = maxBytes\<rparr>"

definition queue_size :: "event_queue \<Rightarrow> nat" where
  "queue_size q = length (bq_entries q)"

definition live_queue_gap :: "event_queue \<Rightarrow> int \<Rightarrow> int option \<Rightarrow> encoded" where
  "live_queue_gap q beforeSeq dropped =
     encode_record (Gap (bq_ledger q) Live_queue (bq_deliveredHrcSeq q) beforeSeq dropped)"

definition fits :: "event_queue \<Rightarrow> encoded \<Rightarrow> nat \<Rightarrow> bool" where
  "fits q e additional =
     (length (bq_entries q) + additional \<le> bq_maxRecords q \<and>
      bq_byteSize q + int (byte_length e) \<le> int (bq_maxBytes q))"

definition fits_pair :: "event_queue \<Rightarrow> encoded \<Rightarrow> encoded \<Rightarrow> bool" where
  "fits_pair q a b =
     (length (bq_entries q) + 2 \<le> bq_maxRecords q \<and>
      bq_byteSize q + int (byte_length a) + int (byte_length b) \<le> int (bq_maxBytes q))"

definition queue_push :: "encoded \<Rightarrow> event_queue \<Rightarrow> event_queue" where
  "queue_push e q = q\<lparr>bq_entries := bq_entries q @ [e],
     bq_byteSize := bq_byteSize q + int (byte_length e)\<rparr>"

definition queue_prepend :: "encoded \<Rightarrow> event_queue \<Rightarrow> event_queue" where
  "queue_prepend e q = q\<lparr>bq_entries := e # bq_entries q,
     bq_byteSize := bq_byteSize q + int (byte_length e)\<rparr>"

definition shift_raw :: "event_queue \<Rightarrow> (encoded \<times> event_queue) option" where
  "shift_raw q = (case bq_entries q of
     [] \<Rightarrow> None
   | e # es \<Rightarrow> Some (e, q\<lparr>bq_entries := es, bq_byteSize := bq_byteSize q - int (byte_length e)\<rparr>))"

definition advance :: "int \<Rightarrow> stream_record \<Rightarrow> int" where
  "advance beforeSeq r = max beforeSeq (or_default (position_of r) beforeSeq)"

lemma shift_raw_length: "shift_raw q = Some (e, q') \<Longrightarrow> bq_entries q = e # bq_entries q'"
  by (auto simp: shift_raw_def split: list.splits)

text \<open>The eviction loop of \<open>appendEncoded\<close>, and the single gap it falls back to.\<close>

function evict :: "event_queue \<Rightarrow> encoded \<Rightarrow> int option \<Rightarrow> int \<Rightarrow> event_queue" where
  "evict q incoming dropped beforeSeq =
     (case shift_raw q of
        None \<Rightarrow>
          let gap = live_queue_gap q (advance beforeSeq (er_record incoming))
                      (add_dropped dropped (dropped_by (er_record incoming)))
          in q\<lparr>bq_entries := [gap], bq_byteSize := int (byte_length gap)\<rparr>
      | Some (removed, q') \<Rightarrow>
          let dropped' = add_dropped dropped (dropped_by (er_record removed));
              beforeSeq' = advance beforeSeq (er_record removed);
              gap = live_queue_gap q' beforeSeq' dropped'
          in if fits_pair q' gap incoming then queue_push incoming (queue_prepend gap q')
             else evict q' incoming dropped' beforeSeq')"
  by pat_completeness auto
termination
  by (relation "measure (\<lambda>(q, incoming, dropped, beforeSeq). length (bq_entries q))")
     (auto dest: shift_raw_length)

declare evict.simps [simp del]

definition append_encoded :: "encoded \<Rightarrow> event_queue \<Rightarrow> event_queue result" where
  "append_encoded incoming q =
     (if bq_maxBytes q < byte_length incoming then
        Inl (plain_error ''bounded event control record exceeds the stream byte ceiling'')
      else if fits q incoming 1 then Inr (queue_push incoming q)
      else Inr (evict q incoming (Some 0) (bq_deliveredHrcSeq q)))"

definition append_event :: "lifecycle_event \<Rightarrow> event_queue \<Rightarrow> event_queue result" where
  "append_event ev q = append_encoded (event_or_oversize_gap (bq_ledger q) ev (bq_maxBytes q)) q"

definition append_record :: "stream_record \<Rightarrow> event_queue \<Rightarrow> event_queue result" where
  "append_record r q = append_encoded (encode_record r) q"

text \<open>One entry under \<open>discardThrough\<close>: dropped, kept, or a gap cut to its tail.\<close>

definition discard_entry :: "int \<Rightarrow> encoded \<Rightarrow> encoded option" where
  "discard_entry hrcSeq e =
     (case position_of (er_record e) of
        None \<Rightarrow> None
      | Some position \<Rightarrow>
          if position \<le> hrcSeq then None
          else case er_record e of
            Gap ledger reason afterSeq beforeSeq dropped \<Rightarrow>
              if afterSeq < hrcSeq then Some (encode_record (Gap ledger reason hrcSeq beforeSeq None))
              else Some e
          | _ \<Rightarrow> Some e)"

definition discard_through :: "int \<Rightarrow> event_queue \<Rightarrow> event_queue" where
  "discard_through hrcSeq q =
     (let retained = List.map_filter (discard_entry hrcSeq) (bq_entries q)
      in q\<lparr>bq_entries := retained, bq_byteSize := int (sum_list (map byte_length retained)),
           bq_deliveredHrcSeq := max (bq_deliveredHrcSeq q) hrcSeq\<rparr>)"

definition queue_drain :: "event_queue \<Rightarrow> encoded list \<times> event_queue" where
  "queue_drain q = (bq_entries q, q\<lparr>bq_entries := [], bq_byteSize := 0\<rparr>)"

definition queue_take :: "event_queue \<Rightarrow> (encoded \<times> event_queue) option" where
  "queue_take q = (case shift_raw q of
     None \<Rightarrow> None
   | Some (e, q') \<Rightarrow> Some (e, q'\<lparr>bq_deliveredHrcSeq :=
         advance (bq_deliveredHrcSeq q') (er_record e)\<rparr>))"

definition queue_clear :: "event_queue \<Rightarrow> event_queue" where
  "queue_clear q = q\<lparr>bq_entries := [], bq_byteSize := 0\<rparr>"

section \<open>Accounting for the ledger\<close>

text \<open>
  \<open>event_chain d rs\<close>: the records of \<open>rs\<close> stand for disjoint ascending ledger intervals afterSeq
  \<open>d\<close>. \<open>chain_end d rs\<close> is the last position they reach.
\<close>

fun event_chain :: "int \<Rightarrow> stream_record list \<Rightarrow> bool" where
  "event_chain d [] = True"
| "event_chain d (Event ledger ev # rs) = (d < le_hrcSeq ev \<and> event_chain (le_hrcSeq ev) rs)"
| "event_chain d (Gap ledger reason afterSeq beforeSeq dropped # rs) =
     (d \<le> afterSeq \<and> afterSeq \<le> beforeSeq \<and> event_chain beforeSeq rs)"
| "event_chain d (r # rs) = event_chain d rs"

fun chain_end :: "int \<Rightarrow> stream_record list \<Rightarrow> int" where
  "chain_end d [] = d"
| "chain_end d (r # rs) = chain_end (or_default (position_of r) d) rs"

fun covers :: "stream_record \<Rightarrow> int \<Rightarrow> bool" where
  "covers (Event ledger ev) s = (s = le_hrcSeq ev)"
| "covers (Gap ledger reason afterSeq beforeSeq dropped) s = (afterSeq < s \<and> s \<le> beforeSeq)"
| "covers _ s = False"

definition covered :: "stream_record list \<Rightarrow> int \<Rightarrow> bool" where
  "covered rs s = (\<exists>r \<in> set rs. covers r s)"

text \<open>The events that a list of records stands for, delivered or reported dropped.\<close>

definition account :: "stream_record list \<Rightarrow> int option" where
  "account rs = foldr (\<lambda>r total. add_dropped (dropped_by r) total) rs (Some 0)"

abbreviation records :: "encoded list \<Rightarrow> stream_record list" where
  "records es \<equiv> map er_record es"

lemma event_chain_append [simp]:
  "event_chain d (xs @ ys) \<longleftrightarrow> event_chain d xs \<and> event_chain (chain_end d xs) ys"
  by (induction d xs rule: event_chain.induct) auto

lemma chain_end_append [simp]: "chain_end d (xs @ ys) = chain_end (chain_end d xs) ys"
  by (induction xs arbitrary: d) auto

lemma event_chain_mono: "event_chain d rs \<Longrightarrow> d' \<le> d \<Longrightarrow> event_chain d' rs"
  by (induction d rs arbitrary: d' rule: event_chain.induct) auto

lemma chain_end_ge: "event_chain d rs \<Longrightarrow> d \<le> chain_end d rs"
  by (induction d rs rule: event_chain.induct) auto

lemma chain_end_mono: "d' \<le> d \<Longrightarrow> chain_end d' rs \<le> chain_end d rs"
  by (induction rs arbitrary: d d') (auto simp: or_default_def split: option.splits)

lemma event_chain_Cons_iff:
  "event_chain d (r # rs) \<longleftrightarrow> event_chain d [r] \<and> event_chain (chain_end d [r]) rs"
  using event_chain_append [of d "[r]" rs] by simp

lemma event_chain_advance:
  assumes "event_chain d (r # rs)"
  shows "d \<le> advance d r" "event_chain (advance d r) rs" "advance d r = chain_end d [r]"
  using assms by (cases r; auto simp: advance_def elim: event_chain_mono)+

lemma covers_chain: "covers r s \<Longrightarrow> event_chain d [r] \<Longrightarrow> d < s \<and> s \<le> chain_end d [r]"
  by (cases r) auto

lemma covers_advance:
  assumes "event_chain d (r # rs)" "covers r s"
  shows "d < s \<and> s \<le> advance d r"
  using assms event_chain_Cons_iff [of d r rs] covers_chain [of r s d] event_chain_advance(3) [of d r rs]
  by simp

lemma covered_simps [simp]:
  "covered [] s = False" "covered (r # rs) s = (covers r s \<or> covered rs s)"
  "covered (xs @ ys) s = (covered xs s \<or> covered ys s)"
  by (auto simp: covered_def)

lemma covered_after: "covered rs s \<Longrightarrow> event_chain d rs \<Longrightarrow> d < s"
proof (induction rs arbitrary: d)
  case Nil
  then show ?case by simp
next
  case (Cons r rs)
  from Cons.prems(2) have "event_chain d [r]" "event_chain (chain_end d [r]) rs" "d \<le> chain_end d [r]"
    using event_chain_Cons_iff chain_end_ge by blast+
  with Cons show ?case by (fastforce dest: covers_chain)
qed

lemma add_dropped_assoc: "add_dropped (add_dropped a b) c = add_dropped a (add_dropped b c)"
  by (cases a; cases b; cases c) auto

lemma add_dropped_comm: "add_dropped a b = add_dropped b a"
  by (cases a; cases b) auto

lemma add_dropped_zero [simp]: "add_dropped (Some 0) a = a" "add_dropped a (Some 0) = a"
  by (cases a; simp)+

lemma account_simps [simp]:
  "account [] = Some 0" "account (r # rs) = add_dropped (dropped_by r) (account rs)"
  by (simp_all add: account_def)

lemma account_append [simp]: "account (xs @ ys) = add_dropped (account xs) (account ys)"
  by (induction xs) (auto simp: add_dropped_assoc)

lemma er_record_encode [simp]: "er_record (encode_record r) = r"
  by (simp add: encode_record_def)

section \<open>What eviction keeps\<close>

definition total_bytes :: "encoded list \<Rightarrow> int" where
  "total_bytes es = int (sum_list (map byte_length es))"

lemma total_bytes_simps [simp]:
  "total_bytes [] = 0" "total_bytes (e # es) = int (byte_length e) + total_bytes es"
  "total_bytes (xs @ ys) = total_bytes xs + total_bytes ys"
  by (simp_all add: total_bytes_def)

definition bytes_counted :: "event_queue \<Rightarrow> bool" where
  "bytes_counted q \<longleftrightarrow> bq_byteSize q = total_bytes (bq_entries q)"

definition within_bounds :: "event_queue \<Rightarrow> bool" where
  "within_bounds q \<longleftrightarrow>
     length (bq_entries q) \<le> bq_maxRecords q \<and> total_bytes (bq_entries q) \<le> int (bq_maxBytes q)"

definition single_gap :: "event_queue \<Rightarrow> bool" where
  "single_gap q \<longleftrightarrow> (\<exists>afterSeq beforeSeq dropped.
     bq_entries q = [encode_record (Gap (bq_ledger q) Live_queue afterSeq beforeSeq dropped)])"

text \<open>The parameters of a queue, which only the constructor sets.\<close>

definition queue_frame :: "event_queue \<Rightarrow> string \<times> int \<times> nat \<times> nat" where
  "queue_frame q = (bq_ledger q, bq_deliveredHrcSeq q, bq_maxRecords q, bq_maxBytes q)"

lemma queue_frameD:
  assumes "queue_frame q' = queue_frame q"
  shows "bq_ledger q' = bq_ledger q" "bq_deliveredHrcSeq q' = bq_deliveredHrcSeq q"
    "bq_maxRecords q' = bq_maxRecords q" "bq_maxBytes q' = bq_maxBytes q"
  using assms by (auto simp: queue_frame_def)

lemma queue_push_simps [simp]:
  "bq_entries (queue_push e q) = bq_entries q @ [e]"
  "bq_byteSize (queue_push e q) = bq_byteSize q + int (byte_length e)"
  "queue_frame (queue_push e q) = queue_frame q"
  by (simp_all add: queue_push_def queue_frame_def)

lemma queue_prepend_simps [simp]:
  "bq_entries (queue_prepend e q) = e # bq_entries q"
  "bq_byteSize (queue_prepend e q) = bq_byteSize q + int (byte_length e)"
  "queue_frame (queue_prepend e q) = queue_frame q"
  by (simp_all add: queue_prepend_def queue_frame_def)

lemma bytes_counted_evict:
  "bytes_counted (queue_push e q) = bytes_counted q"
  "bytes_counted (queue_prepend e q) = bytes_counted q"
  "bytes_counted (q\<lparr>bq_entries := [e], bq_byteSize := int (byte_length e)\<rparr>)"
  by (auto simp: bytes_counted_def)

lemma shift_raw_Some:
  assumes "shift_raw q = Some (e, q')"
  shows "bq_entries q = e # bq_entries q'" "queue_frame q' = queue_frame q"
    "bytes_counted q \<Longrightarrow> bytes_counted q'"
  using assms by (auto simp: shift_raw_def queue_frame_def bytes_counted_def split: list.splits)

lemma shift_raw_None: "shift_raw q = None \<longleftrightarrow> bq_entries q = []"
  by (simp add: shift_raw_def split: list.splits)

text \<open>The loop has three exits: the queue is exhausted, the pair fits, or it goes on.\<close>

definition evict_gap :: "event_queue \<Rightarrow> int option \<Rightarrow> int \<Rightarrow> stream_record \<Rightarrow> encoded" where
  "evict_gap q dropped beforeSeq r =
     live_queue_gap q (advance beforeSeq r) (add_dropped dropped (dropped_by r))"

lemma evict_unfold:
  "evict q incoming dropped beforeSeq =
     (case shift_raw q of
        None \<Rightarrow> q\<lparr>bq_entries := [evict_gap q dropped beforeSeq (er_record incoming)],
                  bq_byteSize := int (byte_length (evict_gap q dropped beforeSeq (er_record incoming)))\<rparr>
      | Some (removed, q') \<Rightarrow>
          if fits_pair q' (evict_gap q' dropped beforeSeq (er_record removed)) incoming
          then queue_push incoming (queue_prepend (evict_gap q' dropped beforeSeq (er_record removed)) q')
          else evict q' incoming (add_dropped dropped (dropped_by (er_record removed)))
                 (advance beforeSeq (er_record removed)))"
  by (subst evict.simps) (simp only: Let_def evict_gap_def)

lemma evict_rule:
  assumes exhausted: "\<And>q dropped beforeSeq. bq_entries q = [] \<Longrightarrow>
      P q dropped beforeSeq (q\<lparr>bq_entries := [evict_gap q dropped beforeSeq (er_record incoming)],
        bq_byteSize := int (byte_length (evict_gap q dropped beforeSeq (er_record incoming)))\<rparr>)"
    and fitted: "\<And>q dropped beforeSeq removed q'. shift_raw q = Some (removed, q') \<Longrightarrow>
      fits_pair q' (evict_gap q' dropped beforeSeq (er_record removed)) incoming \<Longrightarrow>
      P q dropped beforeSeq
        (queue_push incoming (queue_prepend (evict_gap q' dropped beforeSeq (er_record removed)) q'))"
    and evicted: "\<And>q dropped beforeSeq removed q' result. shift_raw q = Some (removed, q') \<Longrightarrow>
      P q' (add_dropped dropped (dropped_by (er_record removed))) (advance beforeSeq (er_record removed)) result \<Longrightarrow>
      P q dropped beforeSeq result"
  shows "P q dropped beforeSeq (evict q incoming dropped beforeSeq)"
proof (induction "length (bq_entries q)" arbitrary: q dropped beforeSeq)
  case 0
  then show ?case
    using exhausted [of q] by (subst evict_unfold) (simp add: shift_raw_None [THEN iffD2])
next
  case (Suc n)
  then obtain removed q' where q': "shift_raw q = Some (removed, q')"
    by (cases "shift_raw q") (auto simp: shift_raw_None)
  with Suc(2) have "n = length (bq_entries q')" by (auto dest: shift_raw_Some(1))
  from Suc(1) [OF this] q' fitted [OF q'] evicted [OF q'] show ?case
    by (subst evict_unfold) simp
qed

lemma evict_frame: "queue_frame (evict q incoming dropped beforeSeq) = queue_frame q"
  by (rule evict_rule [where P = "\<lambda>q dropped beforeSeq q'. queue_frame q' = queue_frame q"])
     (auto simp: queue_frame_def queue_push_def queue_prepend_def dest!: shift_raw_Some(2))

lemma evict_bytes_counted:
  "bytes_counted q \<longrightarrow> bytes_counted (evict q incoming dropped beforeSeq)"
  by (rule evict_rule [where P = "\<lambda>q dropped beforeSeq q'. bytes_counted q \<longrightarrow> bytes_counted q'"])
     (auto simp: bytes_counted_evict dest: shift_raw_Some(3))

lemma evict_bounds:
  "bytes_counted q \<longrightarrow> within_bounds (evict q incoming dropped beforeSeq) \<or>
     single_gap (evict q incoming dropped beforeSeq)"
proof (rule evict_rule [where P = "\<lambda>q dropped beforeSeq q'. bytes_counted q \<longrightarrow> within_bounds q' \<or> single_gap q'"],
    goal_cases)
  case (1 q dropped beforeSeq)
  then show ?case by (auto simp: single_gap_def evict_gap_def live_queue_gap_def)
next
  case (2 q dropped beforeSeq removed q')
  have "within_bounds (queue_push incoming (queue_prepend e q'))"
    if "bytes_counted q'" "fits_pair q' e incoming" for e
    using that by (auto simp: within_bounds_def fits_pair_def bytes_counted_def
        queue_push_def queue_prepend_def)
  with 2 shift_raw_Some(3) [OF 2(1)] show ?case by blast
next
  case (3 q dropped beforeSeq removed q' result)
  then show ?case using shift_raw_Some(3) [OF 3(1)] by blast
qed

text \<open>
  The loop's invariant: what was evicted lies in \<open>(delivered, beforeSeq]\<close>, what remains chains on
  from \<open>beforeSeq\<close>.
\<close>

lemma evict_chain:
  "bq_deliveredHrcSeq q \<le> beforeSeq \<and> event_chain beforeSeq (records (bq_entries q) @ [er_record incoming]) \<longrightarrow>
     event_chain (bq_deliveredHrcSeq q) (records (bq_entries (evict q incoming dropped beforeSeq))) \<and>
     chain_end (bq_deliveredHrcSeq q) (records (bq_entries (evict q incoming dropped beforeSeq))) =
       chain_end beforeSeq (records (bq_entries q) @ [er_record incoming])"
proof (rule evict_rule [where P = "\<lambda>q dropped beforeSeq q'.
    bq_deliveredHrcSeq q \<le> beforeSeq \<and> event_chain beforeSeq (records (bq_entries q) @ [er_record incoming]) \<longrightarrow>
     event_chain (bq_deliveredHrcSeq q) (records (bq_entries q')) \<and>
     chain_end (bq_deliveredHrcSeq q) (records (bq_entries q')) =
       chain_end beforeSeq (records (bq_entries q) @ [er_record incoming])"], goal_cases)
  case (1 q dropped beforeSeq)
  then show ?case
    using event_chain_advance [of beforeSeq "er_record incoming" "[]"]
    by (auto simp: evict_gap_def live_queue_gap_def)
next
  case (2 q dropped beforeSeq removed q')
  then show ?case
    using event_chain_advance [of beforeSeq "er_record removed" "records (bq_entries q') @ [er_record incoming]"]
      queue_frameD(2) [OF shift_raw_Some(2) [OF 2(1)]] shift_raw_Some(1) [OF 2(1)]
    by (auto simp: evict_gap_def live_queue_gap_def)
next
  case (3 q dropped beforeSeq removed q' result)
  then show ?case
    using event_chain_advance [of beforeSeq "er_record removed" "records (bq_entries q') @ [er_record incoming]"]
      queue_frameD(2) [OF shift_raw_Some(2) [OF 3(1)]] shift_raw_Some(1) [OF 3(1)]
    by auto
qed

lemma evict_covered:
  "bq_deliveredHrcSeq q \<le> beforeSeq \<and> event_chain beforeSeq (records (bq_entries q) @ [er_record incoming]) \<and>
     (bq_deliveredHrcSeq q < s \<and> s \<le> beforeSeq \<or> covered (records (bq_entries q) @ [er_record incoming]) s) \<longrightarrow>
     covered (records (bq_entries (evict q incoming dropped beforeSeq))) s"
proof (rule evict_rule [where P = "\<lambda>q dropped beforeSeq q'.
    bq_deliveredHrcSeq q \<le> beforeSeq \<and> event_chain beforeSeq (records (bq_entries q) @ [er_record incoming]) \<and>
     (bq_deliveredHrcSeq q < s \<and> s \<le> beforeSeq \<or> covered (records (bq_entries q) @ [er_record incoming]) s) \<longrightarrow>
     covered (records (bq_entries q')) s"], goal_cases)
  case (1 q dropped beforeSeq)
  then show ?case
    using event_chain_advance [of beforeSeq "er_record incoming" "[]"]
      covers_advance [of beforeSeq "er_record incoming" "[]" s]
    by (auto simp: evict_gap_def live_queue_gap_def)
next
  case (2 q dropped beforeSeq removed q')
  then show ?case
    using event_chain_advance [of beforeSeq "er_record removed" "records (bq_entries q') @ [er_record incoming]"]
      queue_frameD(2) [OF shift_raw_Some(2) [OF 2(1)]] shift_raw_Some(1) [OF 2(1)]
      covers_advance [of beforeSeq "er_record removed" "records (bq_entries q') @ [er_record incoming]" s]
    by (auto simp: evict_gap_def live_queue_gap_def)
next
  case (3 q dropped beforeSeq removed q' result)
  then show ?case
    using event_chain_advance [of beforeSeq "er_record removed" "records (bq_entries q') @ [er_record incoming]"]
      queue_frameD(2) [OF shift_raw_Some(2) [OF 3(1)]] shift_raw_Some(1) [OF 3(1)]
      covers_advance [of beforeSeq "er_record removed" "records (bq_entries q') @ [er_record incoming]" s]
    by auto
qed


section \<open>What each operation keeps\<close>

lemma append_encoded_cases:
  assumes "append_encoded e q = Inr q'"
  obtains "fits q e 1" "q' = queue_push e q"
    | "q' = evict q e (Some 0) (bq_deliveredHrcSeq q)"
  using assms by (auto simp: append_encoded_def split: if_splits)

lemma append_frame: "append_encoded e q = Inr q' \<Longrightarrow> queue_frame q' = queue_frame q"
  by (erule append_encoded_cases) (simp_all add: evict_frame)

lemma append_bytes_counted [hrc_keep]:
  "append_encoded e q = Inr q' \<Longrightarrow> bytes_counted q \<Longrightarrow> bytes_counted q'"
  by (erule append_encoded_cases) (simp_all add: bytes_counted_evict evict_bytes_counted)

lemma append_bounds:
  assumes "append_encoded e q = Inr q'" "bytes_counted q"
  shows "within_bounds q' \<or> single_gap q'"
  using assms(1)
proof (cases rule: append_encoded_cases)
  case 1
  with assms(2) show ?thesis
    by (simp add: within_bounds_def fits_def bytes_counted_def queue_push_def)
next
  case 2
  with assms(2) show ?thesis using evict_bounds by blast
qed

lemma append_chain:
  assumes "append_encoded e q = Inr q'"
    and "event_chain (bq_deliveredHrcSeq q) (records (bq_entries q) @ [er_record e])"
  shows "event_chain (bq_deliveredHrcSeq q) (records (bq_entries q'))"
    "chain_end (bq_deliveredHrcSeq q) (records (bq_entries q')) =
       chain_end (bq_deliveredHrcSeq q) (records (bq_entries q) @ [er_record e])"
    "covered (records (bq_entries q) @ [er_record e]) s \<Longrightarrow> covered (records (bq_entries q')) s"
  using assms(1)
  by (cases rule: append_encoded_cases;
      use assms(2) evict_chain [of q "bq_deliveredHrcSeq q"] evict_covered [of q "bq_deliveredHrcSeq q"]
      in auto)+


lemma queue_take_Some:
  assumes "queue_take q = Some (e, q')"
  shows "bq_entries q = e # bq_entries q'" "bytes_counted q \<Longrightarrow> bytes_counted q'"
    "bq_deliveredHrcSeq q' = advance (bq_deliveredHrcSeq q) (er_record e)"
    "bq_ledger q' = bq_ledger q" "bq_maxRecords q' = bq_maxRecords q" "bq_maxBytes q' = bq_maxBytes q"
  using assms
  by (auto simp: queue_take_def shift_raw_def bytes_counted_def split: list.splits)

lemma queue_take_None: "queue_take q = None \<longleftrightarrow> bq_entries q = []"
  by (auto simp: queue_take_def shift_raw_def split: list.splits)

abbreviation kept_entries :: "int \<Rightarrow> encoded list \<Rightarrow> encoded list" where
  "kept_entries h es \<equiv> List.map_filter (discard_entry h) es"

lemma map_filter_Cons:
  "List.map_filter f (x # xs) = (case f x of None \<Rightarrow> List.map_filter f xs | Some y \<Rightarrow> y # List.map_filter f xs)"
  by (rule List.map_filter_simps)

lemma kept_entries_chain:
  "event_chain d (records es) \<Longrightarrow>
   event_chain (max d h) (records (kept_entries h es)) \<and>
   chain_end (max d h) (records (kept_entries h es)) \<le> max (chain_end d (records es)) h"
proof (induction es arbitrary: d)
  case Nil
  then show ?case by (simp add: List.map_filter_def)
next
  case (Cons e es)
  show ?case
  proof (cases "er_record e")
    case (Event ledger ev)
    with Cons.prems Cons.IH [of "le_hrcSeq ev"] show ?thesis
      by (auto simp: map_filter_Cons discard_entry_def max_def split: if_splits)
  next
    case (Gap ledger reason afterSeq beforeSeq dropped)
    with Cons.prems Cons.IH [of beforeSeq] show ?thesis
      by (auto simp: map_filter_Cons discard_entry_def max_def split: if_splits)
  qed (use Cons in \<open>auto simp: map_filter_Cons discard_entry_def\<close>)
qed

lemma kept_entries_covered:
  "covered (records es) s \<Longrightarrow> h < s \<Longrightarrow> covered (records (kept_entries h es)) s"
proof (induction es)
  case Nil
  then show ?case by simp
next
  case (Cons e es)
  then show ?case
    by (cases "er_record e") (auto simp: map_filter_Cons discard_entry_def split: option.splits if_splits)
qed

lemma discard_through_bytes [hrc_keep]: "bytes_counted (discard_through h q)"
  by (simp add: discard_through_def bytes_counted_def total_bytes_def Let_def)

lemma event_or_oversize_chain:
  assumes "pos < le_hrcSeq ev"
  shows "event_chain pos [er_record (event_or_oversize_gap ledger ev maxBytes)]"
    "chain_end pos [er_record (event_or_oversize_gap ledger ev maxBytes)] = le_hrcSeq ev"
    "covers (er_record (event_or_oversize_gap ledger ev maxBytes)) s \<longleftrightarrow> s = le_hrcSeq ev"
    "dropped_by (er_record (event_or_oversize_gap ledger ev maxBytes)) = Some 1"
  using assms by (auto simp: event_or_oversize_gap_def Let_def)

section \<open>Histories of a queue\<close>

text \<open>
  What its owner does with a queue between its construction and now, with the records taken so far.
\<close>

datatype queue_op =
    Op_event lifecycle_event
  | Op_encoded encoded
  | Op_take
  | Op_discard int

fun queue_exec :: "queue_op \<Rightarrow> event_queue \<times> encoded list \<Rightarrow> (event_queue \<times> encoded list) result" where
  "queue_exec (Op_event ev) (q, out) = then_do (append_event ev q) (\<lambda>q'. Inr (q', out))"
| "queue_exec (Op_encoded e) (q, out) = then_do (append_encoded e q) (\<lambda>q'. Inr (q', out))"
| "queue_exec Op_take (q, out) =
     (case queue_take q of None \<Rightarrow> Inr (q, out) | Some (e, q') \<Rightarrow> Inr (q', out @ [e]))"
| "queue_exec (Op_discard h) (q, out) = Inr (discard_through h q, out)"

fun queue_run :: "queue_op list \<Rightarrow> event_queue \<times> encoded list \<Rightarrow> (event_queue \<times> encoded list) result" where
  "queue_run [] st = Inr st"
| "queue_run (op # ops) st = then_do (queue_exec op st) (queue_run ops)"

text \<open>The ledger hands its records in ascending order, afterSeq whatever the replay has covered.\<close>

fun ordered_ops :: "int \<Rightarrow> queue_op list \<Rightarrow> bool" where
  "ordered_ops pos [] = True"
| "ordered_ops pos (Op_event ev # ops) = (pos < le_hrcSeq ev \<and> ordered_ops (le_hrcSeq ev) ops)"
| "ordered_ops pos (Op_encoded e # ops) =
     (event_chain pos [er_record e] \<and> ordered_ops (chain_end pos [er_record e]) ops)"
| "ordered_ops pos (Op_take # ops) = ordered_ops pos ops"
| "ordered_ops pos (Op_discard h # ops) = ordered_ops (max pos h) ops"

fun hands_in :: "queue_op \<Rightarrow> int \<Rightarrow> bool" where
  "hands_in (Op_event ev) s = (s = le_hrcSeq ev)"
| "hands_in (Op_encoded e) s = covers (er_record e) s"
| "hands_in _ s = False"

fun replay_covers :: "queue_op \<Rightarrow> int \<Rightarrow> bool" where
  "replay_covers (Op_discard h) s = (s \<le> h)"
| "replay_covers _ s = False"


definition queue_history :: "int \<Rightarrow> int \<Rightarrow> event_queue \<times> encoded list \<Rightarrow> bool" where
  "queue_history afterSeq pos st \<longleftrightarrow>
     (let q = fst st; out = records (snd st); es = records (bq_entries q); d = bq_deliveredHrcSeq q
      in event_chain afterSeq out \<and> chain_end afterSeq out \<le> d \<and> event_chain d es \<and> chain_end d es \<le> pos)"

lemma queue_history_append:
  assumes "queue_history afterSeq pos (q, out)" "append_encoded e q = Inr q'"
    and "event_chain pos [er_record e]"
  shows "queue_history afterSeq (chain_end pos [er_record e]) (q', out)"
    "covered (records (out @ bq_entries q)) s \<or> covers (er_record e) s \<Longrightarrow>
     covered (records (out @ bq_entries q')) s"
proof -
  let ?d = "bq_deliveredHrcSeq q"
  from assms(1,3) have chain: "event_chain ?d (records (bq_entries q) @ [er_record e])"
    by (auto simp: queue_history_def Let_def intro: event_chain_mono)
  from assms(1) have "chain_end ?d (records (bq_entries q) @ [er_record e]) \<le> chain_end pos [er_record e]"
    using chain_end_mono [of "chain_end ?d (records (bq_entries q))" pos "[er_record e]"]
    by (simp add: queue_history_def Let_def)
  with append_chain(1,2) [OF assms(2) chain] assms(1)
  show "queue_history afterSeq (chain_end pos [er_record e]) (q', out)"
    using queue_frameD(2) [OF append_frame [OF assms(2)]] by (simp add: queue_history_def Let_def)
  show "covered (records (out @ bq_entries q')) s"
    if "covered (records (out @ bq_entries q)) s \<or> covers (er_record e) s"
    using that append_chain(3) [OF assms(2) chain, of s] by auto
qed

lemma queue_history_take:
  assumes "queue_history afterSeq pos (q, out)" "queue_take q = Some (e, q')"
  shows "queue_history afterSeq pos (q', out @ [e])"
proof -
  let ?d = "bq_deliveredHrcSeq q" and ?o = "chain_end afterSeq (records out)" and ?r = "er_record e"
  from assms have st: "event_chain afterSeq (records out)" "?o \<le> ?d"
    "event_chain ?d (?r # records (bq_entries q'))"
    "chain_end ?d (?r # records (bq_entries q')) \<le> pos"
    using queue_take_Some(1) [OF assms(2)] by (simp_all add: queue_history_def Let_def)
  note adv = event_chain_advance [OF st(3)]
  have "event_chain ?d [?r]" using st(3) event_chain_Cons_iff by blast
  then have "event_chain ?o [?r]" using st(2) by (rule event_chain_mono)
  moreover have "chain_end ?o [?r] \<le> advance ?d ?r"
    using chain_end_mono [OF st(2), of "[?r]"] adv(3) by simp
  moreover have "chain_end (advance ?d ?r) (records (bq_entries q')) \<le> pos"
    using st(4) unfolding adv(3) by simp
  ultimately show ?thesis
    using st(1) adv(2) queue_take_Some(3) [OF assms(2)] by (simp add: queue_history_def Let_def)
qed

lemma queue_history_discard:
  assumes "queue_history afterSeq pos (q, out)"
  shows "queue_history afterSeq (max pos h) (discard_through h q, out)"
  using assms kept_entries_chain [of "bq_deliveredHrcSeq q" "bq_entries q" h]
  by (auto simp: queue_history_def discard_through_def Let_def)

text \<open>The position a well-ordered history has reached.\<close>

fun op_position :: "int \<Rightarrow> queue_op \<Rightarrow> int" where
  "op_position pos (Op_event ev) = le_hrcSeq ev"
| "op_position pos (Op_encoded e) = chain_end pos [er_record e]"
| "op_position pos Op_take = pos"
| "op_position pos (Op_discard h) = max pos h"

lemma ordered_ops_Cons:
  "ordered_ops pos (op # ops) \<longleftrightarrow> ordered_ops pos [op] \<and> ordered_ops (op_position pos op) ops"
  by (cases op) auto

lemma queue_exec_history:
  assumes "queue_history afterSeq pos st" "ordered_ops pos [op]" "queue_exec op st = Inr st'"
  shows "queue_history afterSeq (op_position pos op) st'"
    "covered (records (snd st @ bq_entries (fst st))) s \<or> hands_in op s \<Longrightarrow> \<not> replay_covers op s \<Longrightarrow>
     covered (records (snd st' @ bq_entries (fst st'))) s"
proof -
  obtain q out where st: "st = (q, out)" by (cases st)
  have *: "queue_history afterSeq (op_position pos op) st' \<and>
    ((covered (records (snd st @ bq_entries (fst st))) s \<or> hands_in op s) \<and> \<not> replay_covers op s \<longrightarrow>
     covered (records (snd st' @ bq_entries (fst st'))) s)"
  proof (cases op)
    case (Op_event ev)
    let ?e = "event_or_oversize_gap (bq_ledger q) ev (bq_maxBytes q)"
    obtain q' where q': "append_encoded ?e q = Inr q'" "st' = (q', out)"
      using assms(3) by (auto simp: st Op_event append_event_def then_do_Inr_iff)
    have "pos < le_hrcSeq ev" using assms(2) by (simp add: Op_event)
    note chain = event_or_oversize_chain [OF this]
    show ?thesis
      using queue_history_append [OF assms(1) [unfolded st] q'(1) chain(1)] chain(2,3)
      by (simp add: st Op_event q'(2))
  next
    case (Op_encoded e)
    obtain q' where q': "append_encoded e q = Inr q'" "st' = (q', out)"
      using assms(3) by (auto simp: st Op_encoded then_do_Inr_iff)
    show ?thesis
      using queue_history_append [OF assms(1) [unfolded st] q'(1)] assms(2)
      by (simp add: st Op_encoded q'(2))
  next
    case Op_take
    show ?thesis
    proof (cases "queue_take q")
      case None
      with assms show ?thesis by (auto simp: st Op_take)
    next
      case (Some r)
      then obtain e q' where "queue_take q = Some (e, q')" by (cases r) auto
      with assms queue_history_take [OF assms(1) [unfolded st] this] show ?thesis
        by (auto simp: st Op_take queue_take_Some(1))
    qed
  next
    case (Op_discard h)
    with assms show ?thesis
      using queue_history_discard [of afterSeq pos q out h] kept_entries_covered [of "bq_entries q" s h]
      by (auto simp: st discard_through_def Let_def)
  qed
  then show "queue_history afterSeq (op_position pos op) st'" by blast
  show "covered (records (snd st' @ bq_entries (fst st'))) s"
    if "covered (records (snd st @ bq_entries (fst st))) s \<or> hands_in op s" "\<not> replay_covers op s"
    using * that by blast
qed

lemma queue_run_history:
  assumes "queue_history afterSeq pos st" "ordered_ops pos ops" "queue_run ops st = Inr st'"
  shows "(\<exists>pos'. queue_history afterSeq pos' st') \<and>
    ((covered (records (snd st @ bq_entries (fst st))) s \<or> (\<exists>op \<in> set ops. hands_in op s)) \<and>
     (\<forall>op \<in> set ops. \<not> replay_covers op s) \<longrightarrow>
     covered (records (snd st' @ bq_entries (fst st'))) s)"
  using assms
proof (induction ops arbitrary: pos st)
  case Nil
  then show ?case by auto
next
  case (Cons op ops)
  then obtain st1 where st1: "queue_exec op st = Inr st1" "queue_run ops st1 = Inr st'"
    by (auto simp: then_do_Inr_iff)
  have "ordered_ops pos [op]" "ordered_ops (op_position pos op) ops"
    using Cons.prems(2) ordered_ops_Cons by blast+
  note step = queue_exec_history [OF Cons.prems(1) this(1) st1(1)]
  show ?case
    using Cons.IH [OF step(1) \<open>ordered_ops (op_position pos op) ops\<close> st1(2)] step(2) [of s] by auto
qed

lemma queue_history_chain:
  "queue_history afterSeq pos st \<Longrightarrow> event_chain afterSeq (records (snd st @ bq_entries (fst st)))"
  by (auto simp: queue_history_def Let_def intro: event_chain_mono)

lemma queue_history_new: "queue_history afterSeq afterSeq (new_queue ledger afterSeq mr mb, [])"
  by (simp add: queue_history_def new_queue_def)

text \<open>
  C2. No silent loss, whatever overflows: for any history of a queue whose owner hands records in
  ledger order, the records taken and still queued form one ascending chain of disjoint ledger
  intervals, and every sequence number handed in is delivered as its event or lies inside a
  reported gap, unless a replay discarded through it.
\<close>

theorem queue_covers_every_event:
  assumes "queue_run ops (new_queue ledger afterSeq maxRecords maxBytes, []) = Inr (q, out)"
    and "ordered_ops afterSeq ops"
  shows "event_chain afterSeq (records (out @ bq_entries q)) \<and>
    (\<forall>s. (\<exists>op \<in> set ops. hands_in op s) \<and> (\<forall>op \<in> set ops. \<not> replay_covers op s) \<longrightarrow>
         covered (records (out @ bq_entries q)) s)"
  using queue_run_history [OF queue_history_new assms(2,1)] queue_history_chain [of afterSeq _ "(q, out)"]
  by auto

definition small_event :: "int \<Rightarrow> lifecycle_event" where
  "small_event n = \<lparr>le_hrcSeq = n, le_fields = []\<rparr>"

definition overflowing_ops :: "queue_op list" where
  "overflowing_ops = [Op_event (small_event 1), Op_event (small_event 2), Op_event (small_event 3),
     Op_take, Op_event (small_event 4)]"


lemmas ndjson_size = byte_length_def encode_record_def encode_ndjson_def lifecycle_event_json_def
  json_quote_def json_escape_def utf8_length_def show_int_def show_nat.simps digit_char_def

lemma small_sizes:
  "byte_length (encode_record (Event ''L'' (small_event 1))) = 64"
  "byte_length (encode_record (Event ''L'' (small_event 2))) = 64"
  "byte_length (encode_record (Event ''L'' (small_event 3))) = 64"
  "byte_length (encode_record (Event ''L'' (small_event 4))) = 64"
  "byte_length (encode_record (Gap ''L'' Live_queue 0 2 (Some 2))) = 108"
  by (simp_all add: ndjson_size small_event_def)

lemma small_seq [simp]: "le_hrcSeq (small_event n) = n"
  by (simp add: small_event_def)

lemma overflowing_run:
  "\<exists>q. queue_run overflowing_ops (new_queue ''L'' 0 2 200, []) =
     Inr (q, [encode_record (Gap ''L'' Live_queue 0 2 (Some 2))]) \<and>
     records (bq_entries q) = [Event ''L'' (small_event 3), Event ''L'' (small_event 4)]"
  by (simp add: overflowing_ops_def new_queue_def append_event_def event_or_oversize_gap_def
      append_encoded_def fits_def queue_push_def evict_unfold shift_raw_def fits_pair_def evict_gap_def
      advance_def live_queue_gap_def queue_prepend_def queue_take_def Let_def small_sizes)

theorem queue_covers_every_event_witness:
  "\<exists>q out. queue_run overflowing_ops (new_queue ''L'' 0 2 200, []) = Inr (q, out) \<and>
     records out = [Gap ''L'' Live_queue 0 2 (Some 2)] \<and>
     (\<forall>s \<in> {1, 2, 3, 4}. covered (records (out @ bq_entries q)) s)"
proof -
  obtain q out where run: "queue_run overflowing_ops (new_queue ''L'' 0 2 200, []) = Inr (q, out)"
    "records out = [Gap ''L'' Live_queue 0 2 (Some 2)]"
    using overflowing_run by fastforce
  have "ordered_ops 0 overflowing_ops" by (simp add: overflowing_ops_def)
  from queue_covers_every_event [OF run(1) this] run show ?thesis
    by (auto simp: overflowing_ops_def simp del: map_append)
qed






text \<open>
  A discard cuts the gaps that reach across its position: their text is written anew and may be longer.
  \<open>cut_since_append\<close>: one of the discards after the last record was handed in did so.
\<close>

definition cuts_gap :: "int \<Rightarrow> event_queue \<Rightarrow> bool" where
  "cuts_gap h q \<longleftrightarrow> (\<exists>e \<in> set (bq_entries q). case er_record e of
     Gap ledger reason afterSeq beforeSeq dropped \<Rightarrow> afterSeq < h \<and> h < beforeSeq | _ \<Rightarrow> False)"

definition hands_nothing_in :: "queue_op \<Rightarrow> bool" where
  "hands_nothing_in op \<longleftrightarrow> op = Op_take \<or> (\<exists>h. op = Op_discard h)"

definition cut_since_append :: "queue_op list \<Rightarrow> event_queue \<times> encoded list \<Rightarrow> bool" where
  "cut_since_append ops st \<longleftrightarrow> (\<exists>ops1 h ops2 q out. ops = ops1 @ Op_discard h # ops2
     \<and> list_all hands_nothing_in ops2 \<and> queue_run ops1 st = Inr (q, out) \<and> cuts_gap h q)"

definition queue_bounded :: "nat \<Rightarrow> nat \<Rightarrow> event_queue \<Rightarrow> bool" where
  "queue_bounded maxRecords maxBytes q \<longleftrightarrow>
     bytes_counted q \<and> bq_maxRecords q = maxRecords \<and> bq_maxBytes q = maxBytes \<and>
     length (bq_entries q) \<le> max 1 maxRecords"

definition bytes_bounded :: "event_queue \<Rightarrow> bool" where
  "bytes_bounded q \<longleftrightarrow> total_bytes (bq_entries q) \<le> int (bq_maxBytes q) \<or> single_gap q"

lemma append_bounded:
  assumes "queue_bounded mr mb q" "append_encoded e q = Inr q'"
  shows "queue_bounded mr mb q'" "bytes_bounded q'"
  using assms(1) append_bounds [OF assms(2)] append_bytes_counted [OF assms(2)]
    queue_frameD(3,4) [OF append_frame [OF assms(2)]]
  by (auto simp: queue_bounded_def bytes_bounded_def within_bounds_def single_gap_def)

lemma total_bytes_nonneg [simp]: "0 \<le> total_bytes es"
  by (simp add: total_bytes_def)

lemma queue_take_bounded:
  assumes "queue_bounded mr mb q" "queue_take q = Some (e, q')"
  shows "queue_bounded mr mb q'" "bytes_bounded q \<Longrightarrow> bytes_bounded q'"
  using assms(1) queue_take_Some(1,2,5,6) [OF assms(2)] total_bytes_nonneg [of "bq_entries q'"]
  by (auto simp: queue_bounded_def bytes_bounded_def single_gap_def)

lemma length_kept_entries: "length (kept_entries h es) \<le> length es"
  by (simp add: List.map_filter_def)

lemma uncut_entries:
  assumes "\<not> cuts_gap h (q\<lparr>bq_entries := es\<rparr>)"
  shows "kept_entries h es = filter (\<lambda>e. discard_entry h e \<noteq> None) es"
  using assms
proof (induction es)
  case (Cons e es)
  have "discard_entry h e = None \<or> discard_entry h e = Some e"
    using Cons.prems by (cases "er_record e") (auto simp: cuts_gap_def discard_entry_def)
  moreover have "\<not> cuts_gap h (q\<lparr>bq_entries := es\<rparr>)" using Cons.prems by (auto simp: cuts_gap_def)
  ultimately show ?case using Cons.IH by (auto simp: map_filter_Cons)
qed (simp add: List.map_filter_def)

lemma total_bytes_filter: "total_bytes (filter P es) \<le> total_bytes es"
  by (induction es) auto

lemma discard_bounded:
  assumes "queue_bounded mr mb q"
  shows "queue_bounded mr mb (discard_through h q)"
    "bytes_bounded q \<Longrightarrow> \<not> cuts_gap h q \<Longrightarrow> bytes_bounded (discard_through h q)"
proof -
  show "queue_bounded mr mb (discard_through h q)"
    using assms length_kept_entries [of h "bq_entries q"] discard_through_bytes [of h q]
    by (auto simp: queue_bounded_def discard_through_def Let_def)
  assume b: "bytes_bounded q" "\<not> cuts_gap h q"
  have "kept_entries h (bq_entries q) = filter (\<lambda>e. discard_entry h e \<noteq> None) (bq_entries q)"
    by (rule uncut_entries [where h = h and q = q]) (use b(2) in simp)
  then have e: "bq_entries (discard_through h q) = filter (\<lambda>e. discard_entry h e \<noteq> None) (bq_entries q)"
    by (simp add: discard_through_def Let_def)
  have f: "bq_maxBytes (discard_through h q) = bq_maxBytes q" "bq_ledger (discard_through h q) = bq_ledger q"
    by (simp_all add: discard_through_def Let_def)
  show "bytes_bounded (discard_through h q)"
    using b(1) e f total_bytes_filter [of "\<lambda>e. discard_entry h e \<noteq> None" "bq_entries q"]
    by (fastforce simp: bytes_bounded_def single_gap_def split: if_splits)
qed

lemma queue_run_append: "queue_run (ops @ ops') st = then_do (queue_run ops st) (queue_run ops')"
  by (induction ops arbitrary: st) (auto simp: then_do_def split: sum.splits)

lemma queue_exec_bounded:
  assumes "queue_bounded mr mb (fst st)" "queue_exec op st = Inr st'"
  shows "queue_bounded mr mb (fst st')"
    "\<not> hands_nothing_in op \<Longrightarrow> bytes_bounded (fst st')"
    "bytes_bounded (fst st) \<Longrightarrow> bytes_bounded (fst st') \<or> (\<exists>h. op = Op_discard h \<and> cuts_gap h (fst st))"
  using assms
  by (cases st; cases op;
      auto simp: then_do_Inr_iff append_event_def hands_nothing_in_def split: option.splits
        intro: append_bounded queue_take_bounded discard_bounded)+

lemma queue_run_bounded:
  assumes "queue_bounded mr mb (fst st)" "bytes_bounded (fst st)" "queue_run ops st = Inr st'"
  shows "queue_bounded mr mb (fst st') \<and> (bytes_bounded (fst st') \<or> cut_since_append ops st)"
  using assms(3)
proof (induction ops arbitrary: st' rule: rev_induct)
  case Nil
  then show ?case using assms(1,2) by simp
next
  case (snoc op ops)
  then obtain st1 where st1: "queue_run ops st = Inr st1" "queue_exec op st1 = Inr st'"
    by (auto simp: queue_run_append then_do_Inr_iff)
  note ih = snoc.IH [OF st1(1)]
  note step = queue_exec_bounded [OF conjunct1 [OF ih] st1(2)]
  have later: "cut_since_append (ops @ [op]) st" if c: "cut_since_append ops st" and op: "hands_nothing_in op"
  proof -
    obtain ops1 h ops2 q out where c: "ops = ops1 @ Op_discard h # ops2" "list_all hands_nothing_in ops2"
        "queue_run ops1 st = Inr (q, out)" "cuts_gap h q"
      using c unfolding cut_since_append_def by blast
    have "ops @ [op] = ops1 @ Op_discard h # (ops2 @ [op])" "list_all hands_nothing_in (ops2 @ [op])" using c(1,2) op by simp_all
    then show ?thesis using c(3,4) unfolding cut_since_append_def by blast
  qed
  have now: "cut_since_append (ops @ [op]) st" if c: "op = Op_discard h" "cuts_gap h (fst st1)" for h
  proof -
    obtain q out where "st1 = (q, out)" by (cases st1)
    then show ?thesis unfolding cut_since_append_def
      using c st1(1) by (intro exI [of _ ops] exI [of _ h] exI [of _ "[]"] exI [of _ q] exI [of _ out]) simp
  qed
  show ?case using ih step later now by blast
qed



text \<open>
  C34. Bounded memory: after any history the byte counter is the sum of the queued texts and at most
  \<open>max 1 maxRecords\<close> records are queued; and the bytes stay within \<open>maxBytes\<close>, or the queue is the
  single gap that is all that could be kept, unless a replay discard that came after the last record
  was handed in has cut a queued gap and so written its text anew.
\<close>

theorem queue_stays_bounded:
  assumes "queue_run ops (new_queue ledger afterSeq maxRecords maxBytes, []) = Inr (q, out)"
  shows "bq_byteSize q = total_bytes (bq_entries q) \<and> length (bq_entries q) \<le> max 1 maxRecords \<and>
    (total_bytes (bq_entries q) \<le> int maxBytes \<or> single_gap q \<or>
     cut_since_append ops (new_queue ledger afterSeq maxRecords maxBytes, []))"
  using queue_run_bounded [OF _ _ assms, of maxRecords maxBytes]
  by (auto simp: queue_bounded_def bytes_bounded_def new_queue_def bytes_counted_def)

text \<open>Such a cut may exceed the bytes: the count of the gap becomes \<open>null\<close>, which is longer.\<close>

definition cut_ops :: "queue_op list" where
  "cut_ops = [Op_event (small_event 1), Op_event (small_event 2), Op_event (small_event 3), Op_event (small_event 4), Op_discard 1]"

lemma cut_gap_size: "byte_length (encode_record (Gap ''L'' Live_queue 1 2 None)) = 111"
  "byte_length (encode_record (Gap ''L'' Live_queue 0 1 (Some 1))) = 108"
  by (simp_all add: ndjson_size)

lemma cut_gap_exceeds_bytes:
  "\<exists>q. queue_run cut_ops (new_queue ''L'' 0 4 236, []) = Inr (q, []) \<and> bq_byteSize q = 239
    \<and> records (bq_entries q) = [Gap ''L'' Live_queue 1 2 None, Event ''L'' (small_event 3), Event ''L'' (small_event 4)]"
  by (simp add: cut_ops_def new_queue_def append_event_def event_or_oversize_gap_def append_encoded_def fits_def
      queue_push_def evict_unfold shift_raw_def fits_pair_def evict_gap_def advance_def live_queue_gap_def
      queue_prepend_def queue_take_def Let_def small_sizes cut_gap_size discard_through_def map_filter_Cons
      discard_entry_def)

theorem queue_stays_bounded_witness:
  "\<exists>q out. queue_run overflowing_ops (new_queue ''L'' 0 2 200, []) = Inr (q, out) \<and>
     length (bq_entries q) = 2 \<and> length (bq_entries q) \<le> max 1 2 \<and>
     (total_bytes (bq_entries q) \<le> 200 \<or> single_gap q)"
proof -
  obtain q out where run: "queue_run overflowing_ops (new_queue ''L'' 0 2 200, []) = Inr (q, out)"
    "records (bq_entries q) = [Event ''L'' (small_event 3), Event ''L'' (small_event 4)]"
    using overflowing_run by fastforce
  have uncut: "\<not> cut_since_append overflowing_ops st" for st
    by (auto simp: cut_since_append_def overflowing_ops_def Cons_eq_append_conv)
  from run(2) have "length (bq_entries q) = 2" by (metis length_map length_Cons list.size(3) numeral_2_eq_2)
  with queue_stays_bounded [OF run(1)] run(1) uncut show ?thesis by auto
qed

end
