(* ===== verification/Bounded_Delivery.thy ===== *)
theory Bounded_Delivery
  imports Bounded_Queue
begin

text \<open>
  Delivery of one bounded event stream (\<open>BoundedEventStreamDelivery\<close> in bounded-event-stream.ts):
  the \<open>ready\<close> record, the queue, a terminal record, the keepalive and the one pull that may be
  suspended on \<open>wakePendingPull\<close>. The stream's controller is part of the state: what was enqueued
  and whether it was closed. A \<open>ReadableStream\<close> pulls again only when its last pull has settled.
\<close>

section \<open>FIFO sources\<close>

text \<open>What a reader relies on of the queue it drains.\<close>

locale fifo_source =
  fixes contents :: "'q \<Rightarrow> 'e list"
    and size :: "'q \<Rightarrow> nat"
    and take_one :: "'q \<Rightarrow> ('e \<times> 'q) option"
    and clear_all :: "'q \<Rightarrow> 'q"
  assumes size_contents: "size q = length (contents q)"
    and take_none: "contents q = [] \<Longrightarrow> take_one q = None"
    and take_some: "contents q = e # es \<Longrightarrow> \<exists>q'. take_one q = Some (e, q') \<and> contents q' = es"
    and clear_empty: "contents (clear_all q) = []"

fun take_each :: "('q \<Rightarrow> ('e \<times> 'q) option) \<Rightarrow> nat \<Rightarrow> 'q \<Rightarrow> 'e list \<times> 'q" where
  "take_each take_one 0 q = ([], q)"
| "take_each take_one (Suc n) q =
     (case take_one q of
        None \<Rightarrow> ([], q)
      | Some (e, q') \<Rightarrow> (case take_each take_one n q' of (es, q'') \<Rightarrow> (e # es, q'')))"

context fifo_source
begin

lemma size_zero: "size q = 0 \<longleftrightarrow> contents q = []"
  by (simp add: size_contents)

lemma take_one_iff: "take_one q = None \<longleftrightarrow> contents q = []"
  using take_none take_some by (cases "contents q") fastforce+

lemma take_each_prefix:
  "fst (take_each take_one n q) = take n (contents q) \<and>
   contents (snd (take_each take_one n q)) = drop n (contents q)"
proof (induction n arbitrary: q)
  case 0
  then show ?case by simp
next
  case (Suc n)
  show ?case
  proof (cases "contents q")
    case Nil
    then show ?thesis by (simp add: take_none)
  next
    case (Cons e es)
    then obtain q' where "take_one q = Some (e, q')" "contents q' = es" using take_some by blast
    with Suc [of q'] Cons show ?thesis by (cases "take_each take_one n q'") simp
  qed
qed

lemma take_each_all:
  "fst (take_each take_one (size q) q) = contents q \<and>
   contents (snd (take_each take_one (size q) q)) = []"
  by (simp add: take_each_prefix size_contents)

end

interpretation event_fifo: fifo_source bq_entries queue_size queue_take queue_clear
proof unfold_locales
  fix q e es
  show "queue_size q = length (bq_entries q)" by (simp add: queue_size_def)
  show "queue_take q = None" if "bq_entries q = []" using that by (simp add: queue_take_None)
  show "\<exists>q'. queue_take q = Some (e, q') \<and> bq_entries q' = es" if "bq_entries q = e # es"
    using that by (simp add: queue_take_def shift_raw_def)
  show "bq_entries (queue_clear q) = []" by (simp add: queue_clear_def)
qed

section \<open>State and operations\<close>

datatype pull_phase = No_pull | Pull_waiting | Pull_woken

datatype stream_chunk = Chunk_record encoded | Chunk_keepalive string

record delivery =
  dl_ready :: "encoded option"
  dl_terminal :: "encoded option"
  dl_keepalive :: "string option"
  dl_pull :: pull_phase
  dl_closed :: bool
  dl_queue :: event_queue
  dl_controller :: bool
  dl_chunks :: "stream_chunk list"
  dl_stream_closed :: bool
  dl_closed_calls :: nat

definition new_delivery :: "stream_record \<Rightarrow> event_queue \<Rightarrow> delivery" where
  "new_delivery ready q =
     \<lparr>dl_ready = Some (encode_record ready), dl_terminal = None, dl_keepalive = None,
      dl_pull = No_pull, dl_closed = False, dl_queue = q, dl_controller = False,
      dl_chunks = [], dl_stream_closed = False, dl_closed_calls = 0\<rparr>"

definition has_record :: "delivery \<Rightarrow> bool" where
  "has_record d = (dl_ready d \<noteq> None \<or> queue_size (dl_queue d) > 0 \<or> dl_terminal d \<noteq> None
                   \<or> dl_keepalive d \<noteq> None)"

definition wake_pull :: "delivery \<Rightarrow> delivery" where
  "wake_pull d = (if dl_pull d = Pull_waiting then d\<lparr>dl_pull := Pull_woken\<rparr> else d)"

definition finish_delivery :: "delivery \<Rightarrow> delivery" where
  "finish_delivery d =
     (if dl_closed d then d
      else (wake_pull (d\<lparr>dl_closed := True, dl_ready := None, dl_terminal := None,
              dl_keepalive := None, dl_queue := queue_clear (dl_queue d), dl_controller := False\<rparr>))
           \<lparr>dl_closed_calls := dl_closed_calls d + 1\<rparr>)"

text \<open>\<open>controller.close()\<close>; a second call throws, and every caller ignores that.\<close>

definition close_stream :: "delivery \<Rightarrow> delivery" where
  "close_stream d = d\<lparr>dl_stream_closed := True\<rparr>"

definition enqueue_chunk :: "stream_chunk \<Rightarrow> delivery \<Rightarrow> delivery" where
  "enqueue_chunk c d = d\<lparr>dl_chunks := dl_chunks d @ [c]\<rparr>"

definition deliver_one :: "delivery \<Rightarrow> delivery" where
  "deliver_one d =
     (case dl_ready d of
        Some ready \<Rightarrow> enqueue_chunk (Chunk_record ready) (d\<lparr>dl_ready := None\<rparr>)
      | None \<Rightarrow>
          (case queue_take (dl_queue d) of
             Some (e, q') \<Rightarrow> enqueue_chunk (Chunk_record e) (d\<lparr>dl_queue := q'\<rparr>)
           | None \<Rightarrow>
               (case dl_terminal d of
                  Some terminal \<Rightarrow>
                    finish_delivery (close_stream
                      (enqueue_chunk (Chunk_record terminal) (d\<lparr>dl_terminal := None\<rparr>)))
                | None \<Rightarrow>
                    (case dl_keepalive d of
                       Some keepalive \<Rightarrow>
                         enqueue_chunk (Chunk_keepalive keepalive) (d\<lparr>dl_keepalive := None\<rparr>)
                     | None \<Rightarrow> d))))"

text \<open>\<open>pull\<close> up to its \<open>await\<close>, and the rest of it once woken.\<close>

definition pull_begin :: "delivery \<Rightarrow> delivery" where
  "pull_begin d =
     (if dl_closed d then close_stream d
      else let d' = d\<lparr>dl_controller := True\<rparr>
           in if \<not> has_record d' then d'\<lparr>dl_pull := Pull_waiting\<rparr> else deliver_one d')"

definition pull_continue :: "delivery \<Rightarrow> delivery" where
  "pull_continue d =
     (let d' = d\<lparr>dl_pull := No_pull\<rparr>
      in if dl_closed d' then close_stream d' else deliver_one d')"

definition delivery_append_event :: "lifecycle_event \<Rightarrow> delivery \<Rightarrow> delivery result" where
  "delivery_append_event ev d =
     (if dl_closed d \<or> dl_terminal d \<noteq> None then Inr d
      else then_do (append_event ev (dl_queue d)) (\<lambda>q. Inr (wake_pull (d\<lparr>dl_queue := q\<rparr>))))"

definition delivery_append_encoded :: "encoded \<Rightarrow> delivery \<Rightarrow> delivery result" where
  "delivery_append_encoded e d =
     (if dl_closed d \<or> dl_terminal d \<noteq> None then Inr d
      else then_do (append_encoded e (dl_queue d)) (\<lambda>q. Inr (wake_pull (d\<lparr>dl_queue := q\<rparr>))))"

definition delivery_ledger_replaced :: "string \<Rightarrow> delivery \<Rightarrow> delivery" where
  "delivery_ledger_replaced current d =
     (if dl_closed d \<or> dl_terminal d \<noteq> None then d
      else wake_pull (d\<lparr>dl_queue := queue_clear (dl_queue d),
             dl_terminal := Some (encode_record
               (Ledger_replaced (bq_ledger (dl_queue d)) current))\<rparr>))"

definition delivery_keepalive :: "string \<Rightarrow> delivery \<Rightarrow> delivery" where
  "delivery_keepalive bytes d =
     (if dl_closed d \<or> dl_ready d \<noteq> None \<or> dl_terminal d \<noteq> None \<or> queue_size (dl_queue d) > 0
         \<or> dl_keepalive d \<noteq> None
      then d else wake_pull (d\<lparr>dl_keepalive := Some bytes\<rparr>))"

definition delivery_close :: "delivery \<Rightarrow> delivery" where
  "delivery_close d =
     (if dl_closed d then d
      else let controller = dl_controller d; d' = finish_delivery d
           in if controller then close_stream d' else d')"

section \<open>Interleavings\<close>

text \<open>
  The producer's calls, the timer, the consumer's pulls and cancellations in any order. A thrown
  append (a record above the byte ceiling) leaves the delivery as it was.
\<close>

datatype delivery_label =
    D_pull
  | D_continue
  | D_event lifecycle_event
  | D_encoded encoded
  | D_replaced string
  | D_keepalive string
  | D_close

fun delivery_exec :: "delivery_label \<Rightarrow> delivery \<Rightarrow> delivery option" where
  "delivery_exec D_pull d = (if dl_pull d = No_pull then Some (pull_begin d) else None)"
| "delivery_exec D_continue d = (if dl_pull d = Pull_woken then Some (pull_continue d) else None)"
| "delivery_exec (D_event ev) d =
     (case delivery_append_event ev d of Inl e \<Rightarrow> Some d | Inr d' \<Rightarrow> Some d')"
| "delivery_exec (D_encoded e) d =
     (case delivery_append_encoded e d of Inl err \<Rightarrow> Some d | Inr d' \<Rightarrow> Some d')"
| "delivery_exec (D_replaced current) d = Some (delivery_ledger_replaced current d)"
| "delivery_exec (D_keepalive bytes) d = Some (delivery_keepalive bytes d)"
| "delivery_exec D_close d = Some (delivery_close d)"

fun delivery_run :: "delivery_label list \<Rightarrow> delivery \<Rightarrow> delivery option" where
  "delivery_run [] d = Some d"
| "delivery_run (l # ls) d = Option.bind (delivery_exec l d) (delivery_run ls)"

inductive delivery_reachable :: "stream_record \<Rightarrow> event_queue \<Rightarrow> delivery \<Rightarrow> bool" for ready q where
  start: "delivery_reachable ready q (new_delivery ready q)"
| step: "delivery_reachable ready q d \<Longrightarrow> delivery_exec l d = Some d' \<Longrightarrow> delivery_reachable ready q d'"

inductive_simps delivery_reachable_simps: "delivery_reachable ready q d"

lemma delivery_run_reachable:
  "delivery_reachable ready q d \<Longrightarrow> delivery_run ls d = Some d' \<Longrightarrow> delivery_reachable ready q d'"
proof (induction ls arbitrary: d)
  case Nil
  then show ?case by simp
next
  case (Cons l ls)
  then obtain h where "delivery_exec l d = Some h" "delivery_run ls h = Some d'"
    by (auto simp: Option.bind_eq_Some_conv)
  with Cons show ?case by (blast intro: delivery_reachable.step)
qed

section \<open>The invariant\<close>

text \<open>
  A waiting pull has nothing to deliver and an open stream; a woken pull has something to deliver
  or a closed stream. A closed delivery holds nothing and has notified its owner once.
\<close>

definition delivery_inv :: "stream_record \<Rightarrow> delivery \<Rightarrow> bool" where
  "delivery_inv ready d \<longleftrightarrow>
     (dl_pull d = Pull_waiting \<longrightarrow> \<not> dl_closed d \<and> \<not> has_record d) \<and>
     (dl_pull d = Pull_woken \<longrightarrow> dl_closed d \<or> has_record d) \<and>
     (dl_closed d \<longrightarrow> \<not> has_record d) \<and>
     (dl_stream_closed d \<longrightarrow> dl_closed d) \<and>
     dl_closed_calls d = (if dl_closed d then 1 else 0) \<and>
     (if dl_ready d \<noteq> None then dl_ready d = Some (encode_record ready) \<and> dl_chunks d = []
      else dl_chunks d = [] \<and> dl_closed d \<or>
           (\<exists>cs. dl_chunks d = Chunk_record (encode_record ready) # cs)) \<and>
     (dl_terminal d \<noteq> None \<longrightarrow> bq_entries (dl_queue d) = [])"

lemma queue_size_pos [simp]: "0 < queue_size q \<longleftrightarrow> bq_entries q \<noteq> []"
  by (simp add: queue_size_def)

lemma queue_clear_entries [simp]: "bq_entries (queue_clear q) = []"
  by (rule event_fifo.clear_empty)

lemma append_encoded_nonempty: "append_encoded e q = Inr q' \<Longrightarrow> bq_entries q' \<noteq> []"
proof (erule append_encoded_cases)
  assume "q' = evict q e (Some 0) (bq_deliveredHrcSeq q)"
  moreover have "bq_entries (evict q e dropped beforeSeq) \<noteq> []" for dropped beforeSeq
    by (rule evict_rule [where P = "\<lambda>q dropped beforeSeq q'. bq_entries q' \<noteq> []"]) auto
  ultimately show "bq_entries q' \<noteq> []" by simp
qed simp

lemma delivery_inv_new: "delivery_inv ready (new_delivery ready q)"
  by (simp add: delivery_inv_def new_delivery_def has_record_def)

lemmas delivery_ops = has_record_def wake_pull_def finish_delivery_def close_stream_def
  enqueue_chunk_def

lemma delivery_inv_deliver:
  assumes "delivery_inv ready (d\<lparr>dl_pull := p\<rparr>)" "\<not> dl_closed d" "has_record d" "dl_pull d = No_pull"
  shows "delivery_inv ready (deliver_one d)"
  using assms
  by (auto simp: deliver_one_def delivery_inv_def delivery_ops queue_take_None
      split: option.splits dest: queue_take_Some(1))

lemma delivery_inv_append:
  assumes "delivery_inv ready d" "\<not> dl_closed d" "dl_terminal d = None" "append_encoded e (dl_queue d) = Inr q'"
  shows "delivery_inv ready (wake_pull (d\<lparr>dl_queue := q'\<rparr>))"
  using assms append_encoded_nonempty [OF assms(4)]
  by (auto simp: delivery_inv_def delivery_ops)

lemma delivery_inv_ledger_replaced [hrc_keep]: "delivery_inv ready d \<Longrightarrow> delivery_inv ready (delivery_ledger_replaced c d)"
  by (cases "dl_pull d"; cases "dl_ready d")
     (simp_all add: delivery_ledger_replaced_def delivery_inv_def delivery_ops Let_def, auto)

lemma delivery_inv_keepalive [hrc_keep]: "delivery_inv ready d \<Longrightarrow> delivery_inv ready (delivery_keepalive b d)"
  by (cases "dl_pull d"; cases "dl_ready d")
     (simp_all add: delivery_keepalive_def delivery_inv_def delivery_ops Let_def, auto)

lemma delivery_inv_close [hrc_keep]: "delivery_inv ready d \<Longrightarrow> delivery_inv ready (delivery_close d)"
  by (cases "dl_pull d"; cases "dl_ready d")
     (simp_all add: delivery_close_def delivery_inv_def delivery_ops Let_def, auto)

lemma delivery_inv_exec:
  assumes "delivery_inv ready d" "delivery_exec l d = Some d'"
  shows "delivery_inv ready d'"
proof (cases l)
  case D_pull
  with assms show ?thesis
    using delivery_inv_deliver [of ready No_pull "d\<lparr>dl_controller := True\<rparr>"]
    by (auto simp: pull_begin_def Let_def delivery_inv_def delivery_ops split: if_splits)
next
  case D_continue
  with assms show ?thesis
    using delivery_inv_deliver [of ready Pull_woken "d\<lparr>dl_pull := No_pull\<rparr>"]
    by (auto simp: pull_continue_def Let_def delivery_inv_def delivery_ops split: if_splits)
next
  case (D_event ev)
  with assms show ?thesis
    by (auto simp: delivery_append_event_def append_event_def then_do_Inr_iff
        intro: delivery_inv_append split: sum.splits if_splits)
next
  case (D_encoded e)
  with assms show ?thesis
    by (auto simp: delivery_append_encoded_def then_do_Inr_iff
        intro: delivery_inv_append split: sum.splits if_splits)
next
  case (D_replaced c)
  with assms show ?thesis by (auto intro: delivery_inv_ledger_replaced)
next
  case (D_keepalive b)
  with assms show ?thesis by (auto intro: delivery_inv_keepalive)
next
  case D_close
  with assms show ?thesis by (auto intro: delivery_inv_close)
qed

lemma delivery_inv_reachable: "delivery_reachable ready q d \<Longrightarrow> delivery_inv ready d"
  by (induction rule: delivery_reachable.induct) (auto intro: delivery_inv_new delivery_inv_exec)

section \<open>Properties\<close>

text \<open>
  C5. In every interleaving of appends, keepalives, ledger replacement, pulls and closes: a pull is
  suspended only while the stream is open with nothing to deliver (no lost wakeup), and one that
  was woken finds a record or a closed stream; the \<open>ready\<close> record is the first chunk of the stream;
  nothing is held or enqueued once closed; the owner is notified of closure at most once.
\<close>

theorem delivery_never_strands_a_pull:
  assumes "delivery_reachable ready q d"
  shows "(dl_pull d = Pull_waiting \<longrightarrow> \<not> dl_closed d \<and> \<not> has_record d) \<and>
    (dl_pull d = Pull_woken \<longrightarrow> dl_closed d \<or> has_record d) \<and>
    (dl_chunks d \<noteq> [] \<longrightarrow> hd (dl_chunks d) = Chunk_record (encode_record ready)) \<and>
    (dl_closed d \<longrightarrow> \<not> has_record d) \<and> (dl_stream_closed d \<longrightarrow> dl_closed d) \<and>
    dl_closed_calls d = (if dl_closed d then 1 else 0)"
  using delivery_inv_reachable [OF assms] by (auto simp: delivery_inv_def split: if_splits)

definition small_ready :: stream_record where
  "small_ready = Ready ''L'' 0 0"

definition small_stream :: delivery where
  "small_stream = new_delivery small_ready (new_queue ''L'' 0 2 200)"

definition waking_labels :: "delivery_label list" where
  "waking_labels = [D_pull, D_pull, D_event (small_event 1)]"

lemmas delivery_steps = pull_begin_def pull_continue_def deliver_one_def delivery_ops new_delivery_def
  new_queue_def queue_take_def shift_raw_def delivery_append_event_def append_event_def
  event_or_oversize_gap_def append_encoded_def fits_def queue_push_def advance_def Let_def

lemma waking_run:
  "\<exists>d. delivery_run waking_labels small_stream = Some d \<and> dl_pull d = Pull_woken \<and>
       \<not> dl_closed d \<and> dl_terminal d = None \<and> dl_ready d = None \<and>
       dl_chunks d = [Chunk_record (encode_record small_ready)] \<and>
       bq_entries (dl_queue d) = [encode_record (Event ''L'' (small_event 1))]"
  by (simp add: waking_labels_def small_stream_def delivery_steps small_sizes)

lemma small_reachable:
  "delivery_run ls small_stream = Some d \<Longrightarrow>
   delivery_reachable small_ready (new_queue ''L'' 0 2 200) d"
  unfolding small_stream_def by (rule delivery_run_reachable [OF delivery_reachable.start])

theorem delivery_never_strands_a_pull_witness:
  "\<exists>d. delivery_run waking_labels small_stream = Some d \<and> dl_pull d = Pull_woken \<and>
       (dl_closed d \<or> has_record d) \<and> hd (dl_chunks d) = Chunk_record (encode_record small_ready)"
proof -
  obtain d where d: "delivery_run waking_labels small_stream = Some d" "dl_pull d = Pull_woken"
      "dl_chunks d \<noteq> []" using waking_run by auto
  from delivery_never_strands_a_pull [OF small_reachable [OF d(1)]] d show ?thesis by blast
qed

subsection \<open>Nothing is lost between the queue and the stream\<close>

fun chunk_records :: "stream_chunk list \<Rightarrow> encoded list" where
  "chunk_records [] = []"
| "chunk_records (Chunk_record e # cs) = e # chunk_records cs"
| "chunk_records (Chunk_keepalive b # cs) = chunk_records cs"

lemma chunk_records_append [simp]: "chunk_records (cs @ ds) = chunk_records cs @ chunk_records ds"
  by (induction cs rule: chunk_records.induct) auto

text \<open>The records sent after \<open>ready\<close>.\<close>

definition sent :: "delivery \<Rightarrow> encoded list" where
  "sent d = tl (chunk_records (dl_chunks d))"

definition stream_open :: "delivery \<Rightarrow> bool" where
  "stream_open d \<longleftrightarrow> \<not> dl_closed d \<and> dl_terminal d = None"

fun ordered_labels :: "int \<Rightarrow> delivery_label list \<Rightarrow> bool" where
  "ordered_labels pos [] = True"
| "ordered_labels pos (D_event ev # ls) = (pos < le_hrcSeq ev \<and> ordered_labels (le_hrcSeq ev) ls)"
| "ordered_labels pos (D_encoded e # ls) =
     (event_chain pos [er_record e] \<and> ordered_labels (chain_end pos [er_record e]) ls)"
| "ordered_labels pos (l # ls) = ordered_labels pos ls"

fun label_position :: "int \<Rightarrow> delivery_label \<Rightarrow> int" where
  "label_position pos (D_event ev) = le_hrcSeq ev"
| "label_position pos (D_encoded e) = chain_end pos [er_record e]"
| "label_position pos l = pos"

lemma ordered_labels_Cons:
  "ordered_labels pos (l # ls) \<longleftrightarrow> ordered_labels pos [l] \<and> ordered_labels (label_position pos l) ls"
  by (cases l) auto

lemma stream_open_exec: "delivery_exec l d = Some d' \<Longrightarrow> stream_open d' \<Longrightarrow> stream_open d"
  by (cases l)
     (auto simp: stream_open_def pull_begin_def pull_continue_def deliver_one_def delivery_ops Let_def
        delivery_append_event_def delivery_append_encoded_def delivery_ledger_replaced_def
        delivery_keepalive_def delivery_close_def then_do_Inr_iff
        split: if_splits option.splits sum.splits)

definition sent_history :: "int \<Rightarrow> int \<Rightarrow> delivery \<Rightarrow> bool" where
  "sent_history afterSeq pos d \<longleftrightarrow> queue_history afterSeq pos (dl_queue d, sent d)"

definition accounted :: "delivery \<Rightarrow> int \<Rightarrow> bool" where
  "accounted d s \<longleftrightarrow> covered (records (sent d @ bq_entries (dl_queue d))) s"

lemma queue_history_weaken: "queue_history a p st \<Longrightarrow> p \<le> p' \<Longrightarrow> queue_history a p' st"
  by (auto simp: queue_history_def Let_def)

lemma same_view:
  assumes "dl_queue d' = dl_queue d" "sent d' = sent d"
  shows "sent_history a p d' = sent_history a p d" "accounted d' s = accounted d s"
  using assms by (simp_all add: sent_history_def accounted_def)

lemma wake_pull_view [simp]: "dl_queue (wake_pull d) = dl_queue d" "sent (wake_pull d) = sent d"
  by (auto simp: wake_pull_def sent_def)

lemma sent_frame [simp]:
  "sent (d\<lparr>dl_queue := q\<rparr>) = sent d" "sent (d\<lparr>dl_controller := b\<rparr>) = sent d"
  "sent (d\<lparr>dl_pull := ph\<rparr>) = sent d" "sent (d\<lparr>dl_keepalive := k\<rparr>) = sent d"
  by (simp_all add: sent_def)

lemma view_deliver_one:
  assumes "delivery_inv ready d" "stream_open d" "sent_history a p d"
  shows "sent_history a p (deliver_one d)" "accounted d s \<Longrightarrow> accounted (deliver_one d) s"
proof -
  have "sent_history a p (deliver_one d) \<and> (accounted d s \<longrightarrow> accounted (deliver_one d) s)"
  proof (cases "dl_ready d")
    case (Some r)
    with assms(1) have "dl_chunks d = []" by (auto simp: delivery_inv_def)
    with assms(3) Some show ?thesis
      by (simp add: deliver_one_def enqueue_chunk_def sent_history_def accounted_def sent_def)
  next
    case None
    with assms(1,2) obtain cs where cs: "dl_chunks d = Chunk_record (encode_record ready) # cs"
      by (auto simp: delivery_inv_def stream_open_def)
    show ?thesis
    proof (cases "queue_take (dl_queue d)")
      case (Some r)
      then obtain e q' where e: "queue_take (dl_queue d) = Some (e, q')" by (cases r) auto
      with None cs have "sent (deliver_one d) = sent d @ [e]" "dl_queue (deliver_one d) = q'"
        by (simp_all add: deliver_one_def enqueue_chunk_def sent_def)
      with queue_history_take [OF assms(3) [unfolded sent_history_def] e] queue_take_Some(1) [OF e]
      show ?thesis by (auto simp: sent_history_def accounted_def)
    next
      case none: None
      with None assms(2) have "dl_queue (deliver_one d) = dl_queue d" "sent (deliver_one d) = sent d"
        using cs by (auto simp: deliver_one_def stream_open_def enqueue_chunk_def sent_def
            split: option.splits)
      from same_view [OF this] assms(3) show ?thesis by simp
    qed
  qed
  then show "sent_history a p (deliver_one d)" "accounted d s \<Longrightarrow> accounted (deliver_one d) s" by auto
qed

lemma view_append:
  assumes "sent_history a p d" "append_encoded e (dl_queue d) = Inr q'" "event_chain p [er_record e]"
  shows "sent_history a (chain_end p [er_record e]) (wake_pull (d\<lparr>dl_queue := q'\<rparr>))"
    "accounted d s \<or> covers (er_record e) s \<Longrightarrow> accounted (wake_pull (d\<lparr>dl_queue := q'\<rparr>)) s"
  using queue_history_append [OF assms(1) [unfolded sent_history_def] assms(2,3)]
  by (auto simp: sent_history_def accounted_def)

lemma label_position_ge: "ordered_labels p [l] \<Longrightarrow> p \<le> label_position p l"
  using chain_end_ge by (cases l) fastforce+

lemma view_exec:
  assumes "delivery_inv ready d" "stream_open d'" "ordered_labels p [l]" "sent_history a p d"
    and "delivery_exec l d = Some d'"
  shows "sent_history a (label_position p l) d' \<and> (accounted d s \<longrightarrow> accounted d' s)"
proof -
  have opened: "stream_open d" using stream_open_exec assms(2,5) by blast
  show ?thesis
  proof (cases l)
    case D_pull
    let ?d = "d\<lparr>dl_controller := True\<rparr>"
    have st: "delivery_inv ready ?d" "stream_open ?d" "sent_history a p ?d"
      using assms(1,4) opened by (auto simp: delivery_inv_def has_record_def stream_open_def sent_history_def)
    have "accounted ?d s = accounted d s" "accounted (?d\<lparr>dl_pull := Pull_waiting\<rparr>) s = accounted d s"
      "sent_history a p (?d\<lparr>dl_pull := Pull_waiting\<rparr>)"
      using assms(4) by (simp_all add: accounted_def sent_history_def)
    with view_deliver_one(1) [OF st] view_deliver_one(2) [OF st, of s] assms(5) opened D_pull show ?thesis
      by (auto simp: pull_begin_def stream_open_def Let_def split: if_splits)
  next
    case D_continue
    let ?d = "d\<lparr>dl_pull := No_pull\<rparr>"
    have st: "delivery_inv ready ?d" "stream_open ?d" "sent_history a p ?d"
      using assms(1,4) opened by (auto simp: delivery_inv_def has_record_def stream_open_def sent_history_def)
    have "accounted ?d s = accounted d s" by (simp add: accounted_def)
    with view_deliver_one(1) [OF st] view_deliver_one(2) [OF st, of s] assms(5) opened D_continue show ?thesis
      by (auto simp: pull_continue_def stream_open_def Let_def split: if_splits)
  next
    case (D_event ev)
    let ?e = "event_or_oversize_gap (bq_ledger (dl_queue d)) ev (bq_maxBytes (dl_queue d))"
    from assms(3) D_event have less: "p < le_hrcSeq ev" by simp
    note chain = event_or_oversize_chain [OF less]
    show ?thesis
    proof (cases "append_encoded ?e (dl_queue d)")
      case (Inl err)
      with assms(4,5) D_event opened less show ?thesis
        by (auto simp: delivery_append_event_def append_event_def stream_open_def sent_history_def
            intro: queue_history_weaken)
    next
      case (Inr q')
      from view_append [OF assms(4) this chain(1)] assms(5) D_event opened Inr chain(2) show ?thesis
        by (auto simp: delivery_append_event_def append_event_def stream_open_def)
    qed
  next
    case (D_encoded e)
    from assms(3) D_encoded have chain: "event_chain p [er_record e]" by simp
    show ?thesis
    proof (cases "append_encoded e (dl_queue d)")
      case (Inl err)
      with assms(4,5) D_encoded opened chain_end_ge [OF chain] show ?thesis
        by (auto simp: delivery_append_encoded_def stream_open_def sent_history_def
            intro: queue_history_weaken)
    next
      case (Inr q')
      from view_append [OF assms(4) this chain] assms(5) D_encoded opened Inr show ?thesis
        by (auto simp: delivery_append_encoded_def stream_open_def)
    qed
  next
    case (D_replaced c)
    with assms(2,5) opened show ?thesis
      by (auto simp: delivery_ledger_replaced_def stream_open_def wake_pull_def split: if_splits)
  next
    case (D_keepalive b)
    with assms(4,5) show ?thesis
      by (auto simp: delivery_keepalive_def sent_history_def accounted_def split: if_splits)
  next
    case D_close
    with assms(2,5) opened show ?thesis
      by (auto simp: delivery_close_def stream_open_def finish_delivery_def wake_pull_def close_stream_def
          Let_def split: if_splits)
  qed
qed

lemma stream_open_run: "delivery_run ls d = Some d' \<Longrightarrow> stream_open d' \<Longrightarrow> stream_open d"
proof (induction ls arbitrary: d)
  case Nil
  then show ?case by simp
next
  case (Cons l ls)
  then show ?case by (auto simp: Option.bind_eq_Some_conv dest: stream_open_exec)
qed

fun reached :: "int \<Rightarrow> delivery_label list \<Rightarrow> int" where
  "reached p [] = p"
| "reached p (l # ls) = reached (label_position p l) ls"

lemma ordered_labels_append:
  "ordered_labels p (ls @ ms) \<longleftrightarrow> ordered_labels p ls \<and> ordered_labels (reached p ls) ms"
proof (induction ls arbitrary: p)
  case Nil
  then show ?case by simp
next
  case (Cons l ls)
  then show ?case
    using ordered_labels_Cons [of p l "ls @ ms"] ordered_labels_Cons [of p l ls]
    unfolding append_Cons reached.simps by blast
qed

lemma view_run:
  "delivery_inv ready d \<Longrightarrow> stream_open d' \<Longrightarrow> ordered_labels p ls \<Longrightarrow> sent_history a p d \<Longrightarrow>
   delivery_run ls d = Some d' \<Longrightarrow>
   sent_history a (reached p ls) d' \<and> (accounted d s \<longrightarrow> accounted d' s)"
proof (induction ls arbitrary: d p)
  case Nil
  then show ?case by simp
next
  case (Cons l ls)
  then obtain h where h: "delivery_exec l d = Some h" "delivery_run ls h = Some d'"
    by (auto simp: Option.bind_eq_Some_conv)
  have "ordered_labels p [l]" "ordered_labels (label_position p l) ls"
    using Cons.prems(3) ordered_labels_Cons by blast+
  note ord = this
  have step: "sent_history a (label_position p l) h \<and> (accounted d s \<longrightarrow> accounted h s)"
    by (rule view_exec [OF Cons.prems(1) stream_open_run [OF h(2) Cons.prems(2)] ord(1) Cons.prems(4) h(1)])
  have "sent_history a (reached (label_position p l) ls) d' \<and> (accounted h s \<longrightarrow> accounted d' s)"
    using Cons.IH [OF delivery_inv_exec [OF Cons.prems(1) h(1)] Cons.prems(2) ord(2) _ h(2)] step by blast
  with step show ?case by simp
qed

text \<open>
  C3. From the ledger to the wire: whatever the interleaving of the producer and the reader, as long
  as the stream is open, an event it has accepted is among the records sent after \<open>ready\<close>, still
  queued, or inside a gap sent or queued; and all of these form one ascending chain after the
  cursor the reader resumed from.
\<close>

theorem stream_delivers_or_reports:
  assumes "queue_history afterSeq pos (q, [])"
    and "delivery_run ls (new_delivery ready q) = Some d1"
    and "delivery_append_event ev d1 = Inr d2"
    and "delivery_run ms d2 = Some d3"
    and "stream_open d3" and "ordered_labels pos (ls @ D_event ev # ms)"
  shows "event_chain afterSeq (records (sent d3 @ bq_entries (dl_queue d3))) \<and>
         covered (records (sent d3 @ bq_entries (dl_queue d3))) (le_hrcSeq ev)"
proof -
  have start: "sent_history afterSeq pos (new_delivery ready q)"
    using assms(1) by (simp add: sent_history_def new_delivery_def sent_def)
  from assms(6) have ord: "ordered_labels pos ls" "reached pos ls < le_hrcSeq ev" "ordered_labels (le_hrcSeq ev) ms"
    by (simp_all add: ordered_labels_append)
  have open2: "stream_open d2" using stream_open_run [OF assms(4,5)] .
  have exec: "delivery_exec (D_event ev) d1 = Some d2" by (simp add: assms(3))
  from stream_open_exec [OF this open2] have open1: "stream_open d1" .
  note inv1 = delivery_inv_reachable [OF delivery_run_reachable [OF delivery_reachable.start assms(2)]]
  have hist1: "sent_history afterSeq (reached pos ls) d1"
    using view_run [OF delivery_inv_new open1 ord(1) start assms(2)] by blast
  let ?e = "event_or_oversize_gap (bq_ledger (dl_queue d1)) ev (bq_maxBytes (dl_queue d1))"
  note chain = event_or_oversize_chain [OF ord(2)]
  obtain q' where q': "append_encoded ?e (dl_queue d1) = Inr q'" "d2 = wake_pull (d1\<lparr>dl_queue := q'\<rparr>)"
    using assms(3) open1 by (auto simp: delivery_append_event_def append_event_def stream_open_def then_do_Inr_iff)
  from view_append [OF hist1 q'(1) chain(1)] chain(2,3) q'(2)
  have hist2: "sent_history afterSeq (le_hrcSeq ev) d2" "accounted d2 (le_hrcSeq ev)" by auto
  from view_run [OF delivery_inv_exec [OF inv1 exec] assms(5) ord(3) hist2(1) assms(4)] hist2(2)
  have "sent_history afterSeq (reached (le_hrcSeq ev) ms) d3" "accounted d3 (le_hrcSeq ev)" by auto
  then show ?thesis
    using queue_history_chain [of afterSeq _ "(dl_queue d3, sent d3)"]
    by (auto simp: sent_history_def accounted_def simp del: map_append)
qed

theorem stream_delivers_or_reports_witness:
  "\<exists>d1 d2 d3. delivery_run [D_pull, D_pull] small_stream = Some d1 \<and>
     delivery_append_event (small_event 1) d1 = Inr d2 \<and> delivery_run [D_continue] d2 = Some d3 \<and>
     records (sent d3) = [Event ''L'' (small_event 1)] \<and>
     covered (records (sent d3 @ bq_entries (dl_queue d3))) 1"
proof -
  obtain d1 d2 d3 where d: "delivery_run [D_pull, D_pull] small_stream = Some d1"
     "delivery_append_event (small_event 1) d1 = Inr d2" "delivery_run [D_continue] d2 = Some d3"
     "stream_open d3" "records (sent d3) = [Event ''L'' (small_event 1)]"
    by (simp add: small_stream_def delivery_steps small_sizes stream_open_def sent_def)
  have "queue_history 0 0 (new_queue ''L'' 0 2 200, [])" by (rule queue_history_new)
  from stream_delivers_or_reports [OF this d(1) [unfolded small_stream_def] d(2-4)] d show ?thesis
    by (auto simp del: map_append)
qed

subsection \<open>Draining and termination\<close>

lemma pull_takes_one:
  assumes "\<not> dl_closed d" "dl_pull d = No_pull" "dl_ready d = None" "queue_take (dl_queue d) = Some (e, q')"
  shows "pull_begin d = d\<lparr>dl_controller := True, dl_queue := q', dl_chunks := dl_chunks d @ [Chunk_record e]\<rparr>"
  using assms by (simp add: pull_begin_def has_record_def deliver_one_def enqueue_chunk_def
      queue_take_Some(1) [OF assms(4)] Let_def)

lemma pulls_take_each:
  assumes "\<not> dl_closed d" "dl_pull d = No_pull" "dl_ready d = None" "n \<le> length (bq_entries (dl_queue d))"
  shows "\<exists>d'. delivery_run (replicate n D_pull) d = Some d' \<and> \<not> dl_closed d' \<and> dl_pull d' = No_pull \<and>
    dl_terminal d' = dl_terminal d \<and> dl_ready d' = None \<and>
    dl_queue d' = snd (take_each queue_take n (dl_queue d)) \<and>
    dl_chunks d' = dl_chunks d @ map Chunk_record (fst (take_each queue_take n (dl_queue d)))"
  using assms
proof (induction n arbitrary: d)
  case 0
  then show ?case by simp
next
  case (Suc n)
  then obtain e es where es: "bq_entries (dl_queue d) = e # es"
    by (cases "bq_entries (dl_queue d)") auto
  then obtain q' where q': "queue_take (dl_queue d) = Some (e, q')" "bq_entries q' = es"
    using event_fifo.take_some by blast
  let ?d = "d\<lparr>dl_controller := True, dl_queue := q', dl_chunks := dl_chunks d @ [Chunk_record e]\<rparr>"
  have step: "delivery_exec D_pull d = Some ?d"
    using pull_takes_one [OF Suc.prems(1-3) q'(1)] Suc.prems(2) by simp
  from Suc.IH [of ?d] Suc.prems es q' step show ?case
    by (cases "take_each queue_take n q'") auto
qed

text \<open>
  A reader that keeps pulling gets the queue in order: on an open stream whose \<open>ready\<close> was sent,
  as many pulls as there are queued records send exactly those records, oldest first, and leave
  the queue empty.
\<close>

theorem pulls_drain_in_order:
  assumes "\<not> dl_closed d" "dl_pull d = No_pull" "dl_ready d = None"
  shows "\<exists>d'. delivery_run (replicate (queue_size (dl_queue d)) D_pull) d = Some d' \<and>
    dl_chunks d' = dl_chunks d @ map Chunk_record (bq_entries (dl_queue d)) \<and>
    bq_entries (dl_queue d') = []"
  using pulls_take_each [OF assms, of "queue_size (dl_queue d)"] event_fifo.take_each_all [of "dl_queue d"]
  by (auto simp: queue_size_def)

theorem pulls_drain_in_order_witness:
  "\<exists>d d'. delivery_run [D_pull, D_event (small_event 1), D_event (small_event 2)] small_stream = Some d \<and>
     delivery_run (replicate 2 D_pull) d = Some d' \<and>
     dl_chunks d' = map Chunk_record [encode_record small_ready, encode_record (Event ''L'' (small_event 1)),
       encode_record (Event ''L'' (small_event 2))]"
proof -
  obtain d where d: "delivery_run [D_pull, D_event (small_event 1), D_event (small_event 2)] small_stream = Some d"
     "\<not> dl_closed d" "dl_pull d = No_pull" "dl_ready d = None"
     "bq_entries (dl_queue d) = [encode_record (Event ''L'' (small_event 1)), encode_record (Event ''L'' (small_event 2))]"
     "dl_chunks d = [Chunk_record (encode_record small_ready)]"
    by (simp add: small_stream_def delivery_steps small_sizes)
  have "queue_size (dl_queue d) = 2" by (simp add: queue_size_def d(5))
  then obtain d' where "delivery_run (replicate 2 D_pull) d = Some d'"
     "dl_chunks d' = dl_chunks d @ map Chunk_record (bq_entries (dl_queue d))"
    using pulls_drain_in_order [OF d(2-4)] by auto
  moreover from this(2) have "dl_chunks d' = map Chunk_record [encode_record small_ready,
       encode_record (Event ''L'' (small_event 1)), encode_record (Event ''L'' (small_event 2))]"
    by (simp add: d(5,6))
  ultimately show ?thesis using d(1) by blast
qed

lemma closed_exec: "delivery_exec l d = Some d' \<Longrightarrow> dl_closed d \<Longrightarrow> dl_closed d' \<and> dl_chunks d' = dl_chunks d"
  by (cases l)
     (auto simp: pull_begin_def pull_continue_def close_stream_def Let_def delivery_append_event_def
        delivery_append_encoded_def delivery_ledger_replaced_def delivery_keepalive_def delivery_close_def
        split: if_splits)

lemma closed_run: "delivery_run ls d = Some d' \<Longrightarrow> dl_closed d \<Longrightarrow> dl_closed d' \<and> dl_chunks d' = dl_chunks d"
proof (induction ls arbitrary: d)
  case Nil
  then show ?case by simp
next
  case (Cons l ls)
  then show ?case by (fastforce simp: Option.bind_eq_Some_conv dest: closed_exec)
qed

text \<open>
  A replaced ledger ends the stream: on an open stream whose \<open>ready\<close> was sent and whose last pull
  has settled, the next pull sends the \<open>ledger_replaced\<close> record in place of anything still queued,
  closes the stream, and nothing is ever sent after it.
\<close>

theorem ledger_replacement_is_terminal:
  assumes "stream_open d" "dl_pull d = No_pull" "dl_ready d = None"
    and "delivery_run ([D_replaced current, D_pull] @ ls) d = Some d'"
  shows "dl_chunks d' = dl_chunks d @
      [Chunk_record (encode_record (Ledger_replaced (bq_ledger (dl_queue d)) current))] \<and> dl_closed d'"
proof -
  obtain d1 where d1: "delivery_exec D_pull (delivery_ledger_replaced current d) = Some d1"
      "delivery_run ls d1 = Some d'"
    using assms(4) by (auto simp: Option.bind_eq_Some_conv)
  have "dl_closed d1 \<and> dl_chunks d1 = dl_chunks d @
      [Chunk_record (encode_record (Ledger_replaced (bq_ledger (dl_queue d)) current))]"
    using d1(1) assms(1-3)
    by (auto simp: delivery_ledger_replaced_def stream_open_def pull_begin_def deliver_one_def
        delivery_ops queue_take_None [THEN iffD2] Let_def)
  with closed_run [OF d1(2)] show ?thesis by simp
qed

theorem ledger_replacement_is_terminal_witness:
  "\<exists>d d'. delivery_run [D_pull, D_event (small_event 1)] small_stream = Some d \<and> stream_open d \<and>
     delivery_run ([D_replaced ''M'', D_pull] @ [D_event (small_event 2), D_pull]) d = Some d' \<and>
     dl_chunks d' = [Chunk_record (encode_record small_ready),
       Chunk_record (encode_record (Ledger_replaced ''L'' ''M''))]"
proof -
  obtain d where d: "delivery_run [D_pull, D_event (small_event 1)] small_stream = Some d"
     "stream_open d" "dl_pull d = No_pull" "dl_ready d = None" "bq_ledger (dl_queue d) = ''L''"
     "dl_chunks d = [Chunk_record (encode_record small_ready)]"
    by (simp add: small_stream_def delivery_steps small_sizes stream_open_def)
  have "delivery_run ([D_replaced ''M'', D_pull] @ [D_event (small_event 2), D_pull]) d \<noteq> None"
    using d(2-4)
    by (auto simp: delivery_ledger_replaced_def stream_open_def pull_begin_def deliver_one_def
        delivery_append_event_def delivery_ops queue_take_None [THEN iffD2] Let_def)
  then obtain d' where "delivery_run ([D_replaced ''M'', D_pull] @ [D_event (small_event 2), D_pull]) d = Some d'"
    by blast
  from ledger_replacement_is_terminal [OF d(2-4) this] this d show ?thesis by auto
qed

end
