(* ===== verification/Event_Ledger.thy ===== *)
theory Event_Ledger
  imports Bounded_Queue
begin

text \<open>
  The lifecycle-event ledger (hrc-store-sqlite event-repositories.ts): the rows of \<open>hrc_events\<close> in
  \<open>hrc_seq\<close> order, the allocation of sequence numbers, the SQL filter, the three bounded reads
  (\<open>tail\<close>, \<open>page\<close>, \<open>scanReplayNewestFirst\<close>) and the in-memory filter that the follow routes apply
  to live events (server-misc.ts). The lane normalization is that of the package agent-scope, an
  argument of the definitions; so are the session identity and the payload hydration of a row.
\<close>

section \<open>Rows and events\<close>

record ledger_row =
  hr_hrc_seq :: int
  hr_stream_seq :: int
  hr_source_ref :: "string option"
  hr_origin_seq :: "int option"
  hr_ts :: string
  hr_host_session_id :: string
  hr_scope_ref :: string
  hr_lane_ref :: string
  hr_generation :: int
  hr_runtime_id :: "string option"
  hr_run_id :: "string option"
  hr_launch_id :: "string option"
  hr_app_id :: "string option"
  hr_app_session_key :: "string option"
  hr_category :: string
  hr_event_kind :: string
  hr_transport :: "string option"
  hr_error_code :: "string option"
  hr_replayed :: bool
  hr_evidence_origin :: "string option"
  hr_payload :: json

definition canonical_lane_ref :: "(string \<Rightarrow> string) \<Rightarrow> string \<Rightarrow> string" where
  "canonical_lane_ref normalizeLaneRef laneRef =
     normalizeLaneRef (if laneRef = ''main'' \<or> starts_with laneRef ''lane:'' then laneRef
                       else ''lane:'' @ laneRef)"

definition text_field :: "string \<Rightarrow> string option \<Rightarrow> json_object" where
  "text_field k v = (case v of None \<Rightarrow> [] | Some s \<Rightarrow> [(k, JStr s)])"

definition number_field :: "string \<Rightarrow> int option \<Rightarrow> json_object" where
  "number_field k v = (case v of None \<Rightarrow> [] | Some n \<Rightarrow> [(k, JNum n)])"

text \<open>
  What the repository joins to a row: the identity of its session, and the payload with a spilled
  tool result put back.
\<close>

record row_context =
  rc_normalize :: "string \<Rightarrow> string"
  rc_identity :: "string \<Rightarrow> string \<Rightarrow> json option"
  rc_hydrate :: "json \<Rightarrow> json"

definition map_row :: "row_context \<Rightarrow> ledger_row \<Rightarrow> lifecycle_event" where
  "map_row ctx row =
     \<lparr>le_hrcSeq = hr_hrc_seq row,
      le_fields =
        [(''streamSeq'', JNum (hr_stream_seq row))]
        @ text_field ''sourceRef'' (hr_source_ref row)
        @ number_field ''originSeq'' (hr_origin_seq row)
        @ [(''ts'', JStr (hr_ts row)),
           (''hostSessionId'', JStr (hr_host_session_id row)),
           (''scopeRef'', JStr (hr_scope_ref row)),
           (''laneRef'', JStr (canonical_lane_ref (rc_normalize ctx) (hr_lane_ref row))),
           (''generation'', JNum (hr_generation row))]
        @ text_field ''runtimeId'' (hr_runtime_id row)
        @ text_field ''runId'' (hr_run_id row)
        @ text_field ''launchId'' (hr_launch_id row)
        @ text_field ''appId'' (hr_app_id row)
        @ text_field ''appSessionKey'' (hr_app_session_key row)
        @ [(''category'', JStr (hr_category row)), (''eventKind'', JStr (hr_event_kind row))]
        @ text_field ''transport'' (hr_transport row)
        @ text_field ''errorCode'' (hr_error_code row)
        @ [(''replayed'', JBool (hr_replayed row))]
        @ (if hr_evidence_origin row = Some ''retained''
           then [(''evidenceOrigin'', JStr ''retained'')] else [])
        @ [(''payload'', rc_hydrate ctx (hr_payload row))]
        @ (case rc_identity ctx (hr_scope_ref row) (hr_lane_ref row) of
             None \<Rightarrow> [] | Some identity \<Rightarrow> [(''identity'', identity)])\<rparr>"

lemma map_row_seq [simp]: "le_hrcSeq (map_row ctx row) = hr_hrc_seq row"
  by (simp add: map_row_def)

section \<open>Filters\<close>

text \<open>A filter field is absent (\<open>undefined\<close>); \<open>sourceRef\<close> may also be \<open>null\<close>.\<close>

record lifecycle_filters =
  hf_fromHrcSeq :: "int option"
  hf_fromStreamSeq :: "int option"
  hf_sourceRef :: "string option option"
  hf_hostSessionId :: "string option"
  hf_generation :: "int option"
  hf_scopeRef :: "string option"
  hf_laneRef :: "string option"
  hf_runtimeId :: "string option"
  hf_runId :: "string option"
  hf_launchId :: "string option"
  hf_eventKind :: "string option"
  hf_category :: "string option"

definition no_filters :: lifecycle_filters where
  "no_filters = \<lparr>hf_fromHrcSeq = None, hf_fromStreamSeq = None, hf_sourceRef = None,
     hf_hostSessionId = None, hf_generation = None, hf_scopeRef = None, hf_laneRef = None,
     hf_runtimeId = None, hf_runId = None, hf_launchId = None, hf_eventKind = None,
     hf_category = None\<rparr>"

text \<open>\<open>column = ?\<close> on a filter that is set: a \<open>NULL\<close> column never matches.\<close>

definition sql_eq :: "'a option \<Rightarrow> 'a option \<Rightarrow> bool" where
  "sql_eq column wanted = (case wanted of None \<Rightarrow> True | Some v \<Rightarrow> column = Some v)"

definition build_lifecycle_where :: "lifecycle_filters \<Rightarrow> bool \<Rightarrow> ledger_row \<Rightarrow> bool" where
  "build_lifecycle_where f includeSeqPredicates row =
     ((includeSeqPredicates \<longrightarrow>
         (case hf_fromHrcSeq f of None \<Rightarrow> True | Some n \<Rightarrow> n \<le> hr_hrc_seq row) \<and>
         (case hf_fromStreamSeq f of None \<Rightarrow> True | Some n \<Rightarrow> n \<le> hr_stream_seq row)) \<and>
      sql_eq (Some (hr_host_session_id row)) (hf_hostSessionId f) \<and>
      (case hf_sourceRef f of
         None \<Rightarrow> True
       | Some None \<Rightarrow> hr_source_ref row = None
       | Some (Some s) \<Rightarrow> hr_source_ref row = Some s) \<and>
      sql_eq (Some (hr_generation row)) (hf_generation f) \<and>
      sql_eq (Some (hr_scope_ref row)) (hf_scopeRef f) \<and>
      sql_eq (Some (hr_lane_ref row)) (hf_laneRef f) \<and>
      sql_eq (hr_runtime_id row) (hf_runtimeId f) \<and>
      sql_eq (hr_run_id row) (hf_runId f) \<and>
      sql_eq (hr_launch_id row) (hf_launchId f) \<and>
      sql_eq (Some (hr_event_kind row)) (hf_eventKind f) \<and>
      sql_eq (Some (hr_category row)) (hf_category f))"

text \<open>The field of an event compared with \<open>!==\<close>.\<close>

definition live_text :: "lifecycle_event \<Rightarrow> string \<Rightarrow> string option \<Rightarrow> bool" where
  "live_text ev k wanted = (case wanted of None \<Rightarrow> True | Some v \<Rightarrow> jget (le_fields ev) k = Some (JStr v))"

definition matches_lifecycle_filter :: "lifecycle_event \<Rightarrow> lifecycle_filters \<Rightarrow> bool" where
  "matches_lifecycle_filter ev f =
     ((case hf_sourceRef f of
         None \<Rightarrow> True
       | Some None \<Rightarrow> jget (le_fields ev) ''sourceRef'' = Some JNull
       | Some (Some s) \<Rightarrow> jget (le_fields ev) ''sourceRef'' = Some (JStr s)) \<and>
      live_text ev ''hostSessionId'' (hf_hostSessionId f) \<and>
      (case hf_generation f of
         None \<Rightarrow> True | Some n \<Rightarrow> jget (le_fields ev) ''generation'' = Some (JNum n)) \<and>
      live_text ev ''scopeRef'' (hf_scopeRef f) \<and>
      live_text ev ''laneRef'' (hf_laneRef f) \<and>
      live_text ev ''runtimeId'' (hf_runtimeId f) \<and>
      live_text ev ''runId'' (hf_runId f) \<and>
      live_text ev ''category'' (hf_category f) \<and>
      live_text ev ''eventKind'' (hf_eventKind f))"

section \<open>The ledger\<close>

text \<open>Rows are kept in \<open>hrc_seq\<close> order; \<open>lg_allocated\<close> is the \<open>sqlite_sequence\<close> row.\<close>

record ledger =
  lg_incarnation :: string
  lg_rows :: "ledger_row list"
  lg_allocated :: int
  lg_stream_cursor :: int

definition max_hrc_seq :: "ledger \<Rightarrow> int" where
  "max_hrc_seq l = fold max (map hr_hrc_seq (lg_rows l)) 0"

text \<open>\<open>appendPersisted\<close>: the row gets the next sequence number and the next stream number.\<close>

definition append_persisted :: "ledger_row \<Rightarrow> ledger \<Rightarrow> ledger_row \<times> ledger" where
  "append_persisted event l =
     (let row = event\<lparr>hr_hrc_seq := lg_allocated l + 1, hr_stream_seq := lg_stream_cursor l,
                      hr_source_ref := None, hr_origin_seq := None\<rparr>
      in (row, l\<lparr>lg_rows := lg_rows l @ [row], lg_allocated := lg_allocated l + 1,
                 lg_stream_cursor := lg_stream_cursor l + 1\<rparr>))"

definition ledger_mismatch :: "string \<Rightarrow> string \<Rightarrow> js_error" where
  "ledger_mismatch expected current = plain_error
     (''lifecycle-event ledger incarnation changed from '' @ expected @ '' to '' @ current)"

definition fence_ledger :: "string option \<Rightarrow> ledger \<Rightarrow> unit result" where
  "fence_ledger expected l =
     (case expected of
        None \<Rightarrow> Inr ()
      | Some e \<Rightarrow> if e \<noteq> lg_incarnation l then Inl (ledger_mismatch e (lg_incarnation l)) else Inr ())"

record event_tail =
  tl_events :: "lifecycle_event list"
  tl_ledger :: string
  tl_head :: int
  tl_truncated :: bool

definition ledger_tail ::
  "row_context \<Rightarrow> nat \<Rightarrow> lifecycle_filters \<Rightarrow> int option \<Rightarrow> string option \<Rightarrow> ledger \<Rightarrow> event_tail result" where
  "ledger_tail ctx limit f beforeHrcSeq expected l =
     then_do (fence_ledger expected l) (\<lambda>u.
       let matching = filter (\<lambda>r. build_lifecycle_where f False r \<and>
                         (case beforeHrcSeq of None \<Rightarrow> True | Some b \<Rightarrow> hr_hrc_seq r < b)) (lg_rows l);
           rows = take (limit + 1) (rev matching);
           truncated = (limit < length rows);
           page = (if truncated then butlast rows else rows)
       in Inr \<lparr>tl_events = map (map_row ctx) (rev page), tl_ledger = lg_incarnation l,
               tl_head = max_hrc_seq l, tl_truncated = truncated\<rparr>)"

record event_page =
  pg_ledger :: string
  pg_head :: int
  pg_rows :: "lifecycle_event list"
  pg_scannedThrough :: int

definition ledger_page ::
  "row_context \<Rightarrow> int \<Rightarrow> nat \<Rightarrow> string option \<Rightarrow> ledger \<Rightarrow> event_page result" where
  "ledger_page ctx afterSeq limit expected l =
     then_do (fence_ledger expected l) (\<lambda>u.
       let head = lg_allocated l;
           rows = take limit (filter (\<lambda>r. afterSeq < hr_hrc_seq r \<and> hr_hrc_seq r \<le> head) (lg_rows l))
       in Inr \<lparr>pg_ledger = lg_incarnation l, pg_head = head,
               pg_rows = map (map_row (ctx\<lparr>rc_hydrate := (\<lambda>v. v)\<rparr>)) rows,
               pg_scannedThrough = (if length rows = limit \<and> rows \<noteq> []
                                    then hr_hrc_seq (last rows) else head)\<rparr>)"

text \<open>
  \<open>scanReplayNewestFirst\<close>: the visitor is a function on its own state that says whether to go on.
\<close>

fun visit_while :: "('e \<Rightarrow> 's \<Rightarrow> bool \<times> 's) \<Rightarrow> 'e list \<Rightarrow> 's \<Rightarrow> bool \<times> 's" where
  "visit_while visit [] s = (True, s)"
| "visit_while visit (e # es) s =
     (case visit e s of
        (False, s') \<Rightarrow> (False, s')
      | (True, s') \<Rightarrow> visit_while visit es s')"

definition replay_rows :: "lifecycle_filters \<Rightarrow> int \<Rightarrow> ledger \<Rightarrow> ledger_row list" where
  "replay_rows f afterHrcSeq l =
     filter (\<lambda>r. build_lifecycle_where f True r \<and> afterHrcSeq < hr_hrc_seq r \<and>
                 hr_hrc_seq r \<le> max_hrc_seq l) (lg_rows l)"

definition scan_replay_newest_first ::
  "row_context \<Rightarrow> string \<Rightarrow> int \<Rightarrow> lifecycle_filters \<Rightarrow> (lifecycle_event \<Rightarrow> 's \<Rightarrow> bool \<times> 's) \<Rightarrow> 's \<Rightarrow>
   ledger \<Rightarrow> (int \<times> bool \<times> 's) result" where
  "scan_replay_newest_first ctx expected afterHrcSeq f visit s l =
     then_do (fence_ledger (Some expected) l) (\<lambda>u.
       case visit_while visit (map (map_row ctx) (rev (replay_rows f afterHrcSeq l))) s of
         (complete, s') \<Rightarrow> Inr (max_hrc_seq l, complete, s'))"

section \<open>Well-formed ledgers\<close>

definition ledger_wf :: "ledger \<Rightarrow> bool" where
  "ledger_wf l \<longleftrightarrow>
     sorted_wrt (<) (map hr_hrc_seq (lg_rows l)) \<and>
     (\<forall>r \<in> set (lg_rows l). 0 < hr_hrc_seq r \<and> hr_hrc_seq r \<le> lg_allocated l) \<and> 0 \<le> lg_allocated l"

lemma ledger_wf_append [hrc_keep]:
  "ledger_wf l \<Longrightarrow> append_persisted event l = (row, l') \<Longrightarrow> ledger_wf l'"
  by (force simp: append_persisted_def ledger_wf_def Let_def sorted_wrt_append)

lemma max_hrc_seq_ge: "r \<in> set (lg_rows l) \<Longrightarrow> hr_hrc_seq r \<le> max_hrc_seq l"
  by (simp add: max_hrc_seq_def fold_max_ge(1))

lemma fold_max_le: "\<forall>x \<in> set xs. x \<le> b \<Longrightarrow> a \<le> b \<Longrightarrow> fold max xs (a::int) \<le> b"
  by (induction xs arbitrary: a) auto

lemma max_hrc_seq_allocated: "ledger_wf l \<Longrightarrow> max_hrc_seq l \<le> lg_allocated l"
  by (auto simp: max_hrc_seq_def ledger_wf_def intro!: fold_max_le)

lemma sorted_wrt_filter_map:
  "sorted_wrt (<) (map f xs) \<Longrightarrow> sorted_wrt (<) (map f (filter P xs))"
  by (induction xs) auto

lemma fence_ledger_Inr: "fence_ledger e l = Inr () \<longleftrightarrow> e = None \<or> e = Some (lg_incarnation l)"
  by (auto simp: fence_ledger_def split: option.splits)

section \<open>Properties\<close>

subsection \<open>The ascending covering page\<close>

lemma take_filter_sorted:
  assumes "sorted_wrt (<) (map k xs)" "take n xs \<noteq> []" "length (take n xs) = n"
  shows "take n xs = filter (\<lambda>x. k x \<le> (k (last (take n xs)) :: int)) xs"
proof -
  have split: "xs = take n xs @ drop n xs" by simp
  have sorted: "sorted_wrt (<) (map k (take n xs) @ map k (drop n xs))"
    using assms(1) by (simp flip: map_append)
  then have below: "\<forall>x \<in> set (take n xs). k x \<le> k (last (take n xs))"
  proof -
    have "take n xs = butlast (take n xs) @ [last (take n xs)]" using assms(2) by simp
    then have "sorted_wrt (<) (map k (butlast (take n xs)) @ [k (last (take n xs))])"
      using sorted by (metis list.simps(8) list.simps(9) map_append sorted_wrt_append)
    then have "\<forall>x \<in> set (butlast (take n xs)). k x < k (last (take n xs))"
      by (simp add: sorted_wrt_append)
    then show ?thesis
      using \<open>take n xs = butlast (take n xs) @ [last (take n xs)]\<close>
      by (metis (no_types, lifting) Un_iff empty_iff insert_iff list.set(1,2) order_less_imp_le
          order_refl set_append)
  qed
  have above: "\<forall>x \<in> set (drop n xs). \<not> k x \<le> k (last (take n xs))"
  proof
    fix x
    assume "x \<in> set (drop n xs)"
    then have "k (last (take n xs)) < k x"
      using sorted last_in_set [OF assms(2)] by (auto simp: sorted_wrt_append)
    then show "\<not> k x \<le> k (last (take n xs))" by simp
  qed
  have "filter (\<lambda>x. k x \<le> k (last (take n xs))) (take n xs @ drop n xs) = take n xs"
    using below above unfolding filter_append by (simp add: filter_empty_conv filter_id_conv)
  then show ?thesis unfolding append_take_drop_id by (rule sym)
qed

text \<open>
  A ledger page covers its interval: on a well-formed ledger the page after \<open>afterSeq\<close> holds, in
  order and as stored, exactly the rows in \<open>(afterSeq, scannedThrough]\<close>; it never claims to have
  scanned beyond the head; and it makes progress whenever there is anything left to scan.
\<close>

theorem page_covers_interval:
  assumes "ledger_wf l" and "ledger_page ctx afterSeq limit expected l = Inr page" and "0 < limit"
  shows "pg_rows page = map (map_row (ctx\<lparr>rc_hydrate := (\<lambda>v. v)\<rparr>))
      (filter (\<lambda>r. afterSeq < hr_hrc_seq r \<and> hr_hrc_seq r \<le> pg_scannedThrough page) (lg_rows l)) \<and>
    pg_scannedThrough page \<le> pg_head page \<and>
    (afterSeq < pg_head page \<longrightarrow> afterSeq < pg_scannedThrough page) \<and> length (pg_rows page) \<le> limit"
proof -
  let ?in = "filter (\<lambda>r. afterSeq < hr_hrc_seq r \<and> hr_hrc_seq r \<le> lg_allocated l) (lg_rows l)"
  let ?rows = "take limit ?in"
  have page: "pg_rows page = map (map_row (ctx\<lparr>rc_hydrate := (\<lambda>v. v)\<rparr>)) ?rows" "pg_head page = lg_allocated l"
    "pg_scannedThrough page = (if length ?rows = limit \<and> ?rows \<noteq> [] then hr_hrc_seq (last ?rows) else lg_allocated l)"
    using assms(2) by (auto simp: ledger_page_def then_do_Inr_iff Let_def)
  show ?thesis
  proof (cases "length ?rows = limit \<and> ?rows \<noteq> []")
    case True
    have "sorted_wrt (<) (map hr_hrc_seq ?in)"
      using assms(1) by (simp add: ledger_wf_def sorted_wrt_filter_map)
    from take_filter_sorted [OF this] True
    have cut: "?rows = filter (\<lambda>r. hr_hrc_seq r \<le> hr_hrc_seq (last ?rows)) ?in" by blast
    have "last ?rows \<in> set ?rows" using True by (intro last_in_set) (rule conjunct2)
    then have "last ?rows \<in> set ?in" by (rule in_set_takeD)
    then have top: "afterSeq < hr_hrc_seq (last ?rows)" "hr_hrc_seq (last ?rows) \<le> lg_allocated l"
      by simp_all
    have narrow: "filter (\<lambda>r. hr_hrc_seq r \<le> m) ?in =
        filter (\<lambda>r. afterSeq < hr_hrc_seq r \<and> hr_hrc_seq r \<le> m) (lg_rows l)"
      if "m \<le> lg_allocated l" for m
      unfolding filter_filter using that by (intro filter_cong) auto
    have rows: "?rows = filter (\<lambda>r. afterSeq < hr_hrc_seq r \<and> hr_hrc_seq r \<le> hr_hrc_seq (last ?rows)) (lg_rows l)"
      using cut narrow [OF top(2)] by (rule trans)
    have through: "pg_scannedThrough page = hr_hrc_seq (last ?rows)" using page(3) True by argo
    have "pg_rows page = map (map_row (ctx\<lparr>rc_hydrate := (\<lambda>v. v)\<rparr>))
      (filter (\<lambda>r. afterSeq < hr_hrc_seq r \<and> hr_hrc_seq r \<le> pg_scannedThrough page) (lg_rows l))"
      unfolding page(1) through using rows by (rule arg_cong)
    moreover have "pg_scannedThrough page \<le> pg_head page" unfolding through page(2) by (rule top(2))
    moreover have "afterSeq < pg_scannedThrough page" unfolding through by (rule top(1))
    moreover have "length (pg_rows page) \<le> limit" unfolding page(1) by simp
    ultimately show ?thesis by (intro conjI impI)
  next
    case False
    with assms(3) have "length ?in < limit" by (auto simp: min_def split: if_splits)
    then have rows: "?rows = ?in" by simp
    have through: "pg_scannedThrough page = lg_allocated l"
      unfolding page(3) using False by (rule if_not_P)
    show ?thesis
      unfolding through page(1,2) rows using \<open>length ?in < limit\<close> by simp
  qed
qed

definition sample_row :: "int \<Rightarrow> ledger_row" where
  "sample_row n = \<lparr>hr_hrc_seq = n, hr_stream_seq = n, hr_source_ref = None, hr_origin_seq = None,
     hr_ts = ''t'', hr_host_session_id = ''hs'', hr_scope_ref = ''agent:rex'', hr_lane_ref = ''repair'',
     hr_generation = 1, hr_runtime_id = None, hr_run_id = Some ''run'', hr_launch_id = None,
     hr_app_id = None, hr_app_session_key = None, hr_category = ''turn'', hr_event_kind = ''turn.started'',
     hr_transport = None, hr_error_code = None, hr_replayed = False, hr_evidence_origin = None,
     hr_payload = JObj []\<rparr>"

definition sample_ledger :: ledger where
  "sample_ledger = \<lparr>lg_incarnation = ''L'', lg_rows = map sample_row [1, 2, 4], lg_allocated = 5,
     lg_stream_cursor = 6\<rparr>"

definition plain_context :: row_context where
  "plain_context = \<lparr>rc_normalize = (\<lambda>s. s), rc_identity = (\<lambda>s l. None), rc_hydrate = (\<lambda>v. v)\<rparr>"

lemma sample_ledger_wf: "ledger_wf sample_ledger"
  by (simp add: ledger_wf_def sample_ledger_def sample_row_def)

theorem page_covers_interval_witness:
  "\<exists>page. ledger_page plain_context 1 2 (Some ''L'') sample_ledger = Inr page \<and>
     map le_hrcSeq (pg_rows page) = [2, 4] \<and> pg_scannedThrough page = 4 \<and> pg_head page = 5 \<and>
     length (pg_rows page) \<le> 2"
proof -
  obtain page where p: "ledger_page plain_context 1 2 (Some ''L'') sample_ledger = Inr page"
     "map le_hrcSeq (pg_rows page) = [2, 4]" "pg_scannedThrough page = 4" "pg_head page = 5"
    by (simp add: ledger_page_def fence_ledger_def sample_ledger_def sample_row_def Let_def)
  have "(0::nat) < 2" by simp
  from page_covers_interval [OF sample_ledger_wf p(1) this] have "length (pg_rows page) \<le> 2"
    by (elim conjE)
  with p show ?thesis by (intro exI [of _ page] conjI)
qed

subsection \<open>Reverse paging\<close>

definition tail_matching :: "lifecycle_filters \<Rightarrow> int option \<Rightarrow> ledger \<Rightarrow> ledger_row list" where
  "tail_matching f beforeHrcSeq l =
     filter (\<lambda>r. build_lifecycle_where f False r \<and>
       (case beforeHrcSeq of None \<Rightarrow> True | Some b \<Rightarrow> hr_hrc_seq r < b)) (lg_rows l)"

lemma tail_page_split:
  fixes xs :: "'a list"
  assumes "rows = take (n + 1) (rev xs)"
  shows "rev (if n < length rows then butlast rows else rows) = drop (length xs - n) xs"
    "n < length rows \<longleftrightarrow> n < length xs"
proof -
  have len: "length rows = min (n + 1) (length xs)" by (simp add: assms)
  then show "n < length rows \<longleftrightarrow> n < length xs" by auto
  show "rev (if n < length rows then butlast rows else rows) = drop (length xs - n) xs"
  proof (cases "n < length xs")
    case True
    then have "butlast rows = take n (rev xs)" by (simp add: assms butlast_take)
    with True len show ?thesis by (simp add: take_rev)
  next
    case False
    with len show ?thesis by (simp add: assms)
  qed
qed

text \<open>
  Reverse paging neither skips nor repeats: a page is the newest \<open>limit\<close> rows that match before
  its cursor, it is marked truncated exactly when older matching rows exist, and the rows that
  match before its first event, the cursor of the next page, are exactly the older ones.
\<close>

theorem tail_pages_partition_history:
  assumes "ledger_wf l" and "ledger_tail ctx limit f beforeHrcSeq expected l = Inr page"
  shows "\<exists>older newer. tail_matching f beforeHrcSeq l = older @ newer \<and>
    tl_events page = map (map_row ctx) newer \<and>
    length newer = min limit (length (tail_matching f beforeHrcSeq l)) \<and>
    (tl_truncated page \<longleftrightarrow> older \<noteq> []) \<and>
    (newer \<noteq> [] \<longrightarrow> tail_matching f (Some (le_hrcSeq (hd (tl_events page)))) l = older)"
proof -
  let ?m = "tail_matching f beforeHrcSeq l"
  let ?rows = "take (limit + 1) (rev ?m)"
  note page = tail_page_split [of ?rows limit ?m, OF refl]
  define older newer where "older = take (length ?m - limit) ?m" and "newer = drop (length ?m - limit) ?m"
  have m: "?m = older @ newer" by (simp add: older_def newer_def)
  have ev: "tl_events page = map (map_row ctx) newer" "tl_truncated page \<longleftrightarrow> limit < length ?m"
    using assms(2) page(1,2) by (auto simp: ledger_tail_def then_do_Inr_iff Let_def newer_def
        tail_matching_def simp del: take_append)
  have len: "length newer = min limit (length ?m)" by (auto simp: newer_def)
  have trunc: "tl_truncated page \<longleftrightarrow> older \<noteq> []" by (auto simp: ev(2) older_def)
  have "tail_matching f (Some (le_hrcSeq (hd (tl_events page)))) l = older" if "newer \<noteq> []"
  proof -
    let ?b = "hr_hrc_seq (hd newer)"
    have hd: "le_hrcSeq (hd (tl_events page)) = ?b" using that by (simp add: ev(1) hd_map)
    have sorted: "sorted_wrt (<) (map hr_hrc_seq older @ map hr_hrc_seq newer)"
      using assms(1) unfolding map_append [symmetric] m [symmetric]
      by (simp add: ledger_wf_def sorted_wrt_filter_map tail_matching_def)
    then have lo: "\<forall>r \<in> set older. hr_hrc_seq r < ?b"
      using that by (auto simp: sorted_wrt_append)
    have hi: "\<forall>r \<in> set newer. \<not> hr_hrc_seq r < ?b"
      using sorted that by (cases newer) (auto simp: sorted_wrt_append)
    have "?b < b" if "beforeHrcSeq = Some b" for b
    proof -
      have "hd newer \<in> set ?m" using \<open>newer \<noteq> []\<close> m by simp
      with that show ?thesis by (simp add: tail_matching_def)
    qed
    then have "tail_matching f (Some ?b) l = filter (\<lambda>r. hr_hrc_seq r < ?b) ?m"
      by (cases beforeHrcSeq) (auto simp: tail_matching_def intro!: filter_cong)
    also have "\<dots> = older"
      using lo hi by (subst m) (simp add: filter_empty_conv)
    finally show ?thesis by (simp add: hd)
  qed
  with m ev(1) len trunc show ?thesis by blast
qed

theorem tail_pages_partition_history_witness:
  "\<exists>page. ledger_tail plain_context 2 no_filters None (Some ''L'') sample_ledger = Inr page \<and>
     map le_hrcSeq (tl_events page) = [2, 4] \<and> tl_truncated page \<and>
     (\<exists>older newer. tail_matching no_filters None sample_ledger = older @ newer \<and> length newer = 2)"
proof -
  obtain page where p: "ledger_tail plain_context 2 no_filters None (Some ''L'') sample_ledger = Inr page"
     "map le_hrcSeq (tl_events page) = [2, 4]" "tl_truncated page"
    by (simp add: ledger_tail_def fence_ledger_def sample_ledger_def sample_row_def no_filters_def
        build_lifecycle_where_def sql_eq_def Let_def)
  have "length (tail_matching no_filters None sample_ledger) = 3"
    by (simp add: tail_matching_def sample_ledger_def no_filters_def build_lifecycle_where_def sql_eq_def)
  with tail_pages_partition_history [OF sample_ledger_wf p(1)] p show ?thesis by auto
qed

subsection \<open>Replay and live filters\<close>

lemma jget_optional_field:
  "jget (text_field k v) k' = (if k = k' then map_option JStr v else None)"
  "jget (number_field k n) k' = (if k = k' then map_option JNum n else None)"
  by (cases v; simp add: text_field_def) (cases n; simp add: number_field_def)

lemma orelse_None_right: "orelse a None = a"
  by (cases a) simp_all

lemma jget_map_row:
  "jget (le_fields (map_row ctx r)) ''sourceRef'' = map_option JStr (hr_source_ref r)"
  "jget (le_fields (map_row ctx r)) ''hostSessionId'' = Some (JStr (hr_host_session_id r))"
  "jget (le_fields (map_row ctx r)) ''generation'' = Some (JNum (hr_generation r))"
  "jget (le_fields (map_row ctx r)) ''scopeRef'' = Some (JStr (hr_scope_ref r))"
  "jget (le_fields (map_row ctx r)) ''laneRef'' =
     Some (JStr (canonical_lane_ref (rc_normalize ctx) (hr_lane_ref r)))"
  "jget (le_fields (map_row ctx r)) ''runtimeId'' = map_option JStr (hr_runtime_id r)"
  "jget (le_fields (map_row ctx r)) ''runId'' = map_option JStr (hr_run_id r)"
  "jget (le_fields (map_row ctx r)) ''category'' = Some (JStr (hr_category r))"
  "jget (le_fields (map_row ctx r)) ''eventKind'' = Some (JStr (hr_event_kind r))"
  by (simp_all add: map_row_def jget_append jget_optional_field orelse_None_right split: option.split)

text \<open>The filters that the follow routes parse from a query string.\<close>

definition route_filters :: "lifecycle_filters \<Rightarrow> bool" where
  "route_filters f \<longleftrightarrow> hf_fromHrcSeq f = None \<and> hf_fromStreamSeq f = None \<and> hf_launchId f = None \<and>
     hf_sourceRef f \<noteq> Some None"

text \<open>
  Replay and live delivery select the same events: on filters of the follow routes, the SQL
  predicate on a stored row and the in-memory filter on its event agree, provided the lane is not
  filtered or the row's lane is stored in canonical form.
\<close>

theorem replay_and_live_filters_agree:
  assumes "route_filters f"
    and "hf_laneRef f = None \<or> canonical_lane_ref (rc_normalize ctx) (hr_lane_ref r) = hr_lane_ref r"
  shows "build_lifecycle_where f seqs r = matches_lifecycle_filter (map_row ctx r) f"
proof -
  have field: "live_text (map_row ctx r) k w = sql_eq v w"
    if "jget (le_fields (map_row ctx r)) k = map_option JStr v" for k v w
    using that by (cases v) (auto simp: live_text_def sql_eq_def split: option.split)
  have lane: "live_text (map_row ctx r) ''laneRef'' (hf_laneRef f) = sql_eq (Some (hr_lane_ref r)) (hf_laneRef f)"
    using assms(2) field [of "''laneRef''" "Some (hr_lane_ref r)"]
    by (auto simp: jget_map_row live_text_def sql_eq_def)
  have source: "(case hf_sourceRef f of None \<Rightarrow> True | Some None \<Rightarrow> hr_source_ref r = None
       | Some (Some s) \<Rightarrow> hr_source_ref r = Some s) =
      (case hf_sourceRef f of None \<Rightarrow> True
       | Some None \<Rightarrow> jget (le_fields (map_row ctx r)) ''sourceRef'' = Some JNull
       | Some (Some s) \<Rightarrow> jget (le_fields (map_row ctx r)) ''sourceRef'' = Some (JStr s))"
    using assms(1) by (auto simp: route_filters_def jget_map_row split: option.split)
  have generation: "(case hf_generation f of None \<Rightarrow> True
       | Some n \<Rightarrow> jget (le_fields (map_row ctx r)) ''generation'' = Some (JNum n)) =
      sql_eq (Some (hr_generation r)) (hf_generation f)"
    by (auto simp: jget_map_row sql_eq_def split: option.split)
  note rest = field [of "''hostSessionId''" "Some (hr_host_session_id r)"]
    field [of "''scopeRef''" "Some (hr_scope_ref r)"] field [of "''runtimeId''" "hr_runtime_id r"]
    field [of "''runId''" "hr_run_id r"] field [of "''category''" "Some (hr_category r)"]
    field [of "''eventKind''" "Some (hr_event_kind r)"]
  have none: "hf_fromHrcSeq f = None" "hf_fromStreamSeq f = None" "sql_eq (hr_launch_id r) (hf_launchId f)"
    using assms(1) by (simp_all add: route_filters_def sql_eq_def)
  show ?thesis
    unfolding build_lifecycle_where_def matches_lifecycle_filter_def lane source generation
    using none by (auto simp: rest jget_map_row)
qed

theorem replay_and_live_filters_agree_witness:
  "route_filters (no_filters\<lparr>hf_runId := Some ''run'', hf_generation := Some 1\<rparr>) \<and>
   build_lifecycle_where (no_filters\<lparr>hf_runId := Some ''run'', hf_generation := Some 1\<rparr>) True (sample_row 1) \<and>
   matches_lifecycle_filter (map_row plain_context (sample_row 1))
     (no_filters\<lparr>hf_runId := Some ''run'', hf_generation := Some 1\<rparr>)"
proof -
  let ?f = "no_filters\<lparr>hf_runId := Some ''run'', hf_generation := Some 1\<rparr>"
  have f: "route_filters ?f" "hf_laneRef ?f = None" by (simp_all add: route_filters_def no_filters_def)
  have "build_lifecycle_where ?f True (sample_row 1)"
    by (simp add: build_lifecycle_where_def no_filters_def sql_eq_def sample_row_def)
  with replay_and_live_filters_agree [OF f(1), of plain_context "sample_row 1" True] f show ?thesis by simp
qed

text \<open>
  On a named lane they do not: an event row whose stored lane differs from its canonical form is
  replayed to a reader that filters on the stored lane but never delivered to it live, and a reader
  that filters on the canonical lane gets it live but never in a replay.
\<close>

theorem lane_filter_diverges:
  assumes "canonical_lane_ref (rc_normalize ctx) (hr_lane_ref r) = c" "c \<noteq> hr_lane_ref r"
  shows "build_lifecycle_where (no_filters\<lparr>hf_laneRef := Some (hr_lane_ref r)\<rparr>) True r \<and>
    \<not> matches_lifecycle_filter (map_row ctx r) (no_filters\<lparr>hf_laneRef := Some (hr_lane_ref r)\<rparr>) \<and>
    \<not> build_lifecycle_where (no_filters\<lparr>hf_laneRef := Some c\<rparr>) True r \<and>
    matches_lifecycle_filter (map_row ctx r) (no_filters\<lparr>hf_laneRef := Some c\<rparr>)"
  using assms
  by (auto simp: build_lifecycle_where_def matches_lifecycle_filter_def live_text_def no_filters_def
      jget_map_row sql_eq_def)

theorem lane_filter_diverges_witness:
  "build_lifecycle_where (no_filters\<lparr>hf_laneRef := Some ''repair''\<rparr>) True (sample_row 1) \<and>
   \<not> matches_lifecycle_filter (map_row plain_context (sample_row 1))
       (no_filters\<lparr>hf_laneRef := Some ''repair''\<rparr>)"
  using lane_filter_diverges [of plain_context "sample_row 1" "''lane:repair''"]
  by (simp add: sample_row_def plain_context_def canonical_lane_ref_def)

end
