(* ===== verification/Stream_Admission.thy ===== *)
theory Stream_Admission
  imports Bounded_Delivery Event_Ledger
begin

text \<open>
  Admission of a bounded event stream: the replay collector (\<open>createBoundedReplayCollector\<close> in
  bounded-event-stream.ts) that keeps the newest replay suffix within the bounds, and the seam of
  \<open>handleBoundedEvents\<close> (event-handlers.ts) that joins the replay, the events seen meanwhile and the
  live delivery.
\<close>

section \<open>The replay collector\<close>

text \<open>\<open>rp_newestFirst\<close> grows at its end, towards the oldest event.\<close>

record replay_collector =
  rp_ledger :: string
  rp_after :: int
  rp_maxRecords :: nat
  rp_maxBytes :: nat
  rp_newestFirst :: "encoded list"
  rp_bytes :: int
  rp_stoppedAt :: "int option"

definition new_collector :: "string \<Rightarrow> int \<Rightarrow> nat \<Rightarrow> nat \<Rightarrow> replay_collector" where
  "new_collector ledger afterHrcSeq maxRecords maxBytes =
     \<lparr>rp_ledger = ledger, rp_after = afterHrcSeq, rp_maxRecords = maxRecords, rp_maxBytes = maxBytes,
      rp_newestFirst = [], rp_bytes = 0, rp_stoppedAt = None\<rparr>"

definition visit_newest_first :: "lifecycle_event \<Rightarrow> replay_collector \<Rightarrow> bool \<times> replay_collector" where
  "visit_newest_first ev c =
     (let encoded = event_or_oversize_gap (rp_ledger c) ev (rp_maxBytes c) in
      if rp_maxRecords c < length (rp_newestFirst c) + 1
         \<or> int (rp_maxBytes c) < rp_bytes c + int (byte_length encoded)
      then (False, c\<lparr>rp_stoppedAt := Some (le_hrcSeq ev)\<rparr>)
      else (True, c\<lparr>rp_newestFirst := rp_newestFirst c @ [encoded],
                    rp_bytes := rp_bytes c + int (byte_length encoded)\<rparr>))"

definition replay_window_gap :: "replay_collector \<Rightarrow> int \<Rightarrow> encoded" where
  "replay_window_gap c beforeHrcSeq =
     encode_record (Gap (rp_ledger c) Replay_window (rp_after c) beforeHrcSeq None)"

text \<open>The trimming loop of \<open>finish\<close>: \<open>newest\<close> is what is left of \<open>newestFirst\<close>.\<close>

function trim_replay :: "replay_collector \<Rightarrow> encoded list \<Rightarrow> int \<Rightarrow> int \<Rightarrow> encoded \<Rightarrow> encoded list" where
  "trim_replay c newest bytes beforeHrcSeq gap =
     (if newest \<noteq> [] \<and> (rp_maxRecords c < length newest + 1
                         \<or> int (rp_maxBytes c) < bytes + int (byte_length gap))
      then let removed = last newest;
               before' = max beforeHrcSeq (or_default (position_of (er_record removed)) beforeHrcSeq)
           in trim_replay c (butlast newest) (bytes - int (byte_length removed)) before'
                (replay_window_gap c before')
      else gap # rev newest)"
  by pat_completeness auto
termination
  by (relation "measure (\<lambda>(c, newest, bytes, b, gap). length newest)") auto

declare trim_replay.simps [simp del]

definition finish_replay :: "bool \<Rightarrow> replay_collector \<Rightarrow> encoded list" where
  "finish_replay complete c =
     (if complete then rev (rp_newestFirst c)
      else let oldest = (if rp_newestFirst c = [] then None
                         else position_of (er_record (last (rp_newestFirst c))));
               beforeHrcSeq = (case oldest of
                   None \<Rightarrow> or_default (rp_stoppedAt c) (rp_after c)
                 | Some position \<Rightarrow> position - 1)
           in trim_replay c (rp_newestFirst c) (rp_bytes c) beforeHrcSeq
                (replay_window_gap c beforeHrcSeq))"

section \<open>Admission\<close>

text \<open>
  The synchronous part of \<open>handleBoundedEvents\<close>, from the subscription to the \<open>ReadableStream\<close>: the
  events the subscriber sees before the stream is admitted go to the seam queue, the replay and
  then the seam beyond the replay head go to the delivery queue. \<open>incarnation\<close> is the one read
  again after admission.
\<close>

fun append_all :: "encoded list \<Rightarrow> event_queue \<Rightarrow> event_queue result" where
  "append_all [] q = Inr q"
| "append_all (e # es) q = then_do (append_encoded e q) (append_all es)"

fun append_events :: "lifecycle_event list \<Rightarrow> event_queue \<Rightarrow> event_queue result" where
  "append_events [] q = Inr q"
| "append_events (ev # evs) q = then_do (append_event ev q) (append_events evs)"

text \<open>The subscriber's guards on an event of the current ledger.\<close>

definition seam_accepts :: "lifecycle_filters \<Rightarrow> int \<Rightarrow> lifecycle_event \<Rightarrow> bool" where
  "seam_accepts f afterHrcSeq ev \<longleftrightarrow> afterHrcSeq < le_hrcSeq ev \<and> matches_lifecycle_filter ev f"

definition cursor_invalid_error :: "string \<Rightarrow> string \<Rightarrow> string \<Rightarrow> js_error" where
  "cursor_invalid_error message expected current = domain_error ''cursor_invalid'' message
     [(''expectedLedgerIncarnationId'', JStr expected), (''currentLedgerIncarnationId'', JStr current)]"

definition admit_stream ::
  "row_context \<Rightarrow> string \<Rightarrow> int \<Rightarrow> lifecycle_filters \<Rightarrow> nat \<Rightarrow> nat \<Rightarrow> ledger \<Rightarrow> lifecycle_event list \<Rightarrow>
   string \<Rightarrow> (int \<times> delivery) result" where
  "admit_stream ctx expected afterHrcSeq f maxRecords maxBytes l seen incarnation =
     (if expected \<noteq> lg_incarnation l then
        Inl (cursor_invalid_error ''event ledger incarnation is no longer current'' expected (lg_incarnation l))
      else
        then_do (append_events (filter (seam_accepts f afterHrcSeq) seen)
                   (new_queue expected afterHrcSeq maxRecords maxBytes)) (\<lambda>seam.
        then_do (scan_replay_newest_first ctx expected afterHrcSeq f visit_newest_first
                   (new_collector expected afterHrcSeq maxRecords maxBytes) l) (\<lambda>(head, complete, c).
        then_do (append_all (finish_replay complete c)
                   (new_queue expected afterHrcSeq maxRecords maxBytes)) (\<lambda>q.
        then_do (append_all (fst (queue_drain (discard_through head seam))) q) (\<lambda>q'.
        if incarnation \<noteq> expected then
          Inl (cursor_invalid_error ''event ledger incarnation changed during stream admission''
                 expected incarnation)
        else Inr (head, new_delivery (Ready expected afterHrcSeq head) q'))))))"

text \<open>The subscriber once the stream is admitted; it never lets a failure reach the producer.\<close>

definition live_subscriber ::
  "string \<Rightarrow> string \<Rightarrow> int \<Rightarrow> int \<Rightarrow> lifecycle_filters \<Rightarrow> lifecycle_event \<Rightarrow> delivery \<Rightarrow> delivery" where
  "live_subscriber current expected afterHrcSeq replayHead f ev d =
     (if current \<noteq> expected then delivery_ledger_replaced current d
      else if \<not> seam_accepts f afterHrcSeq ev then d
      else if replayHead < le_hrcSeq ev then
        (case delivery_append_event ev d of Inl e \<Rightarrow> delivery_close d | Inr d' \<Rightarrow> d')
      else d)"

section \<open>What the collector keeps\<close>

definition descending :: "lifecycle_event list \<Rightarrow> bool" where
  "descending evs \<longleftrightarrow> sorted_wrt (\<lambda>a b. le_hrcSeq b < le_hrcSeq a) evs"

abbreviation collected :: "string \<Rightarrow> nat \<Rightarrow> lifecycle_event list \<Rightarrow> encoded list" where
  "collected ledger maxBytes evs \<equiv> map (\<lambda>ev. event_or_oversize_gap ledger ev maxBytes) evs"

definition collector_at :: "replay_collector \<Rightarrow> lifecycle_event list \<Rightarrow> bool" where
  "collector_at c evs \<longleftrightarrow>
     rp_newestFirst c = collected (rp_ledger c) (rp_maxBytes c) evs \<and>
     rp_bytes c = total_bytes (rp_newestFirst c) \<and>
     length evs \<le> rp_maxRecords c \<and> rp_bytes c \<le> int (rp_maxBytes c)"

definition same_bounds :: "replay_collector \<Rightarrow> replay_collector \<Rightarrow> bool" where
  "same_bounds c c' \<longleftrightarrow> rp_ledger c' = rp_ledger c \<and> rp_after c' = rp_after c \<and>
     rp_maxRecords c' = rp_maxRecords c \<and> rp_maxBytes c' = rp_maxBytes c"

text \<open>The scan keeps a prefix of the descending events; it stops at the first one left out.\<close>

lemma visit_while_collects:
  assumes "collector_at c kept" "visit_while visit_newest_first evs c = (complete, c')"
  shows "\<exists>xs ys. evs = xs @ ys \<and> collector_at c' (kept @ xs) \<and> same_bounds c c' \<and>
    (if complete then ys = [] \<and> rp_stoppedAt c' = rp_stoppedAt c
     else ys \<noteq> [] \<and> rp_stoppedAt c' = Some (le_hrcSeq (hd ys)))"
  using assms
proof (induction evs arbitrary: c kept)
  case Nil
  then show ?case by (auto simp: same_bounds_def)
next
  case (Cons ev evs)
  let ?e = "event_or_oversize_gap (rp_ledger c) ev (rp_maxBytes c)"
  show ?case
  proof (cases "rp_maxRecords c < length (rp_newestFirst c) + 1
         \<or> int (rp_maxBytes c) < rp_bytes c + int (byte_length ?e)")
    case True
    with Cons.prems have "\<not> complete" "c' = c\<lparr>rp_stoppedAt := Some (le_hrcSeq ev)\<rparr>"
      by (auto simp: visit_newest_first_def Let_def)
    with Cons.prems(1) show ?thesis
      by - (rule exI [of _ "[]"], rule exI [of _ "ev # evs"],
         auto simp: collector_at_def same_bounds_def)
  next
    case False
    let ?c = "c\<lparr>rp_newestFirst := rp_newestFirst c @ [?e], rp_bytes := rp_bytes c + int (byte_length ?e)\<rparr>"
    from False have step: "visit_newest_first ev c = (True, ?c)"
      by (simp add: visit_newest_first_def Let_def)
    have at: "collector_at ?c (kept @ [ev])"
      using Cons.prems(1) False by (auto simp: collector_at_def)
    from step Cons.prems(2) have "visit_while visit_newest_first evs ?c = (complete, c')" by simp
    from Cons.IH [OF at this] obtain xs ys where
      "evs = xs @ ys" "collector_at c' ((kept @ [ev]) @ xs)" "same_bounds ?c c'"
      "if complete then ys = [] \<and> rp_stoppedAt c' = rp_stoppedAt ?c
       else ys \<noteq> [] \<and> rp_stoppedAt c' = Some (le_hrcSeq (hd ys))" by blast
    then show ?thesis
      by (intro exI [of _ "ev # xs"] exI [of _ ys]) (auto simp: same_bounds_def split: if_splits)
  qed
qed

lemma collected_chain:
  "descending evs \<Longrightarrow> \<forall>ev \<in> set evs. d < le_hrcSeq ev \<Longrightarrow>
   event_chain d (records (rev (collected ledger mb evs))) \<and>
   chain_end d (records (rev (collected ledger mb evs))) = (if evs = [] then d else le_hrcSeq (hd evs))"
proof (induction evs)
  case Nil
  then show ?case by simp
next
  case (Cons ev evs)
  then have IH: "event_chain d (records (rev (collected ledger mb evs)))"
    "chain_end d (records (rev (collected ledger mb evs))) = (if evs = [] then d else le_hrcSeq (hd evs))"
    by (auto simp: descending_def)
  have "chain_end d (records (rev (collected ledger mb evs))) < le_hrcSeq ev"
    unfolding IH(2) using Cons.prems by (cases evs) (auto simp: descending_def)
  from event_or_oversize_chain(1,2) [OF this, of ledger mb] IH(1) show ?case by simp
qed

lemma collected_covered:
  "ev \<in> set evs \<Longrightarrow> covered (records (rev (collected ledger mb evs))) (le_hrcSeq ev)"
proof -
  assume ev: "ev \<in> set evs"
  have "covers (er_record (event_or_oversize_gap ledger ev mb)) (le_hrcSeq ev)"
    using event_or_oversize_chain(3) [of "le_hrcSeq ev - 1" ev] by simp
  with ev show ?thesis by (auto simp: covered_def)
qed

lemma position_of_collected: "position_of (er_record (event_or_oversize_gap ledger ev mb)) = Some (le_hrcSeq ev)"
  by (simp add: event_or_oversize_gap_def Let_def)

text \<open>Trimming drops from the oldest end and reports it in the gap.\<close>

lemma trim_replay_keeps:
  assumes "descending evs" "\<forall>ev \<in> set evs. b < le_hrcSeq ev" "rp_after c \<le> b"
    and "gap = replay_window_gap c b"
  shows "\<exists>newer older b'. evs = newer @ older \<and> b \<le> b' \<and>
    trim_replay c (collected ledger mb evs) bytes b gap =
      replay_window_gap c b' # rev (collected ledger mb newer) \<and>
    (\<forall>ev \<in> set newer. b' < le_hrcSeq ev) \<and> (\<forall>ev \<in> set older. le_hrcSeq ev \<le> b') \<and>
    (older = [] \<longrightarrow> b' = b) \<and> (older \<noteq> [] \<longrightarrow> b' = le_hrcSeq (hd older))"
  using assms
proof (induction evs arbitrary: b bytes gap rule: rev_induct)
  case Nil
  then show ?case by (simp add: trim_replay.simps [of c "[]"])
next
  case (snoc ev evs)
  show ?case
  proof (cases "rp_maxRecords c < length (evs @ [ev]) + 1 \<or>
      int (rp_maxBytes c) < bytes + int (byte_length gap)")
    case False
    with snoc.prems show ?thesis
      by (intro exI [of _ "evs @ [ev]"] exI [of _ "[]"] exI [of _ b])
         (simp add: trim_replay.simps [of c "_ @ _"])
  next
    case True
    let ?s = "le_hrcSeq ev"
    have less: "b < ?s" using snoc.prems(2) by simp
    have desc: "descending evs" "\<forall>e \<in> set evs. ?s < le_hrcSeq e"
      using snoc.prems(1) by (auto simp: descending_def sorted_wrt_append)
    let ?bytes = "bytes - int (byte_length (event_or_oversize_gap ledger ev mb))"
    have step: "trim_replay c (collected ledger mb (evs @ [ev])) bytes b gap =
        trim_replay c (collected ledger mb evs) ?bytes ?s (replay_window_gap c ?s)"
      using True less
      by (simp add: trim_replay.simps [of c "_ @ _"] position_of_collected Let_def max_def)
    have "rp_after c \<le> ?s" using snoc.prems(3) less by simp
    from snoc.IH [OF desc this refl, of ?bytes] obtain newer older b' where
      IH: "evs = newer @ older" "?s \<le> b'" "trim_replay c (collected ledger mb evs) ?bytes ?s (replay_window_gap c ?s) =
          replay_window_gap c b' # rev (collected ledger mb newer)"
        "\<forall>ev \<in> set newer. b' < le_hrcSeq ev" "\<forall>ev \<in> set older. le_hrcSeq ev \<le> b'"
        "older = [] \<longrightarrow> b' = ?s" "older \<noteq> [] \<longrightarrow> b' = le_hrcSeq (hd older)" by blast
    then show ?thesis
      using less step
      by (intro exI [of _ newer] exI [of _ "older @ [ev]"] exI [of _ b']) (cases older; simp)
  qed
qed

lemma trim_replay_bounds:
  "bytes = total_bytes newest \<Longrightarrow>
   length (trim_replay c newest bytes b gap) \<le> max 1 (rp_maxRecords c) \<and>
   (total_bytes (trim_replay c newest bytes b gap) \<le> int (rp_maxBytes c) \<or>
    length (trim_replay c newest bytes b gap) = 1)"
proof (induction c newest bytes b gap rule: trim_replay.induct)
  case (1 c newest bytes b gap)
  have split: "total_bytes (butlast newest) = bytes - int (byte_length (last newest))" if "newest \<noteq> []"
  proof -
    have "total_bytes (butlast newest @ [last newest]) = bytes" using that 1(2) by simp
    then show ?thesis by simp
  qed
  have rev: "total_bytes (rev newest) = bytes" by (simp add: 1(2) total_bytes_def rev_map [symmetric])
  show ?case
  proof (cases "newest \<noteq> [] \<and> (rp_maxRecords c < length newest + 1 \<or>
      int (rp_maxBytes c) < bytes + int (byte_length gap))")
    case True
    with 1(1) [OF True refl refl] split show ?thesis
      by (subst (1 2 3) trim_replay.simps) (simp add: Let_def)
  next
    case False
    then show ?thesis
      by (subst (1 2 3) trim_replay.simps) (auto simp: rev)
  qed
qed

definition replayed :: "string \<Rightarrow> int \<Rightarrow> nat \<Rightarrow> nat \<Rightarrow> lifecycle_event list \<Rightarrow> bool \<times> encoded list" where
  "replayed ledger afterHrcSeq mr mb evs =
     (case visit_while visit_newest_first evs (new_collector ledger afterHrcSeq mr mb) of
        (complete, c) \<Rightarrow> (complete, finish_replay complete c))"

lemma descending_append:
  "descending (xs @ ys) \<Longrightarrow> descending xs \<and> descending ys \<and> (\<forall>x \<in> set xs. \<forall>y \<in> set ys. le_hrcSeq y < le_hrcSeq x)"
  by (auto simp: descending_def sorted_wrt_append)

lemma descending_hd: "descending evs \<Longrightarrow> ev \<in> set evs \<Longrightarrow> le_hrcSeq ev \<le> le_hrcSeq (hd evs)"
  by (cases evs) (auto simp: descending_def)

text \<open>An incomplete replay: the gap up to some position, and every event after it.\<close>

definition replay_cut :: "string \<Rightarrow> int \<Rightarrow> nat \<Rightarrow> lifecycle_event list \<Rightarrow> encoded list \<Rightarrow> bool" where
  "replay_cut ledger afterHrcSeq mb evs out \<longleftrightarrow>
     (\<exists>newer older b. evs = newer @ older \<and> evs \<noteq> [] \<and> afterHrcSeq \<le> b \<and> b \<le> le_hrcSeq (hd evs) \<and>
        out = encode_record (Gap ledger Replay_window afterHrcSeq b None) # rev (collected ledger mb newer) \<and>
        (\<forall>ev \<in> set newer. b < le_hrcSeq ev) \<and> (\<forall>ev \<in> set older. le_hrcSeq ev \<le> b))"

lemma replayed_scan:
  assumes "replayed ledger afterHrcSeq mr mb evs = (complete, out)"
  obtains xs ys c where "evs = xs @ ys" "out = finish_replay complete c"
    "rp_newestFirst c = collected ledger mb xs" "rp_bytes c = total_bytes (collected ledger mb xs)"
    "length xs \<le> mr" "rp_bytes c \<le> int mb"
    "rp_ledger c = ledger" "rp_after c = afterHrcSeq" "rp_maxRecords c = mr" "rp_maxBytes c = mb"
    "complete \<Longrightarrow> ys = []" "\<not> complete \<Longrightarrow> ys \<noteq> [] \<and> rp_stoppedAt c = Some (le_hrcSeq (hd ys))"
proof -
  let ?c0 = "new_collector ledger afterHrcSeq mr mb"
  obtain c where c: "visit_while visit_newest_first evs ?c0 = (complete, c)" "out = finish_replay complete c"
    using assms by (auto simp: replayed_def split: prod.splits)
  have "collector_at ?c0 []" by (simp add: collector_at_def new_collector_def)
  from visit_while_collects [OF this c(1)] obtain xs ys where x: "evs = xs @ ys"
      "collector_at c ([] @ xs)" "same_bounds ?c0 c"
      "if complete then ys = [] \<and> rp_stoppedAt c = rp_stoppedAt ?c0
       else ys \<noteq> [] \<and> rp_stoppedAt c = Some (le_hrcSeq (hd ys))" by blast
  show thesis
    by (rule that [of xs ys c])
       (use x c(2) in \<open>auto simp: collector_at_def same_bounds_def new_collector_def split: if_splits\<close>)
qed

lemma replayed_cut:
  assumes "descending evs" "\<forall>ev \<in> set evs. afterHrcSeq < le_hrcSeq ev"
    and "replayed ledger afterHrcSeq mr mb evs = (False, out)"
  shows "replay_cut ledger afterHrcSeq mb evs out"
  using assms(3)
proof (rule replayed_scan)
  fix xs ys c
  assume evs: "evs = xs @ ys" and out: "out = finish_replay False c"
    and c: "rp_newestFirst c = collected ledger mb xs" "rp_ledger c = ledger" "rp_after c = afterHrcSeq"
      "rp_maxRecords c = mr" "rp_maxBytes c = mb"
    and stopped: "\<not> False \<Longrightarrow> ys \<noteq> [] \<and> rp_stoppedAt c = Some (le_hrcSeq (hd ys))"
  note desc = descending_append [OF assms(1) [unfolded evs]]
  have gap: "replay_window_gap c b = encode_record (Gap ledger Replay_window afterHrcSeq b None)" for b
    by (simp add: replay_window_gap_def c)
  show ?thesis
  proof (cases "xs = []")
    case True
    let ?b = "le_hrcSeq (hd ys)"
    have "out = [replay_window_gap c ?b]"
      using True out c stopped by (simp add: finish_replay_def Let_def trim_replay.simps [of c "[]"])
    moreover have "afterHrcSeq \<le> ?b" using assms(2) stopped evs by (simp add: less_imp_le)
    ultimately show ?thesis
      using True evs stopped gap desc descending_hd [of ys]
      unfolding replay_cut_def by (intro exI [of _ "[]"] exI [of _ ys] exI [of _ ?b]) auto
  next
    case False
    let ?b = "le_hrcSeq (last xs) - 1"
    have last: "last xs \<in> set xs" using False by simp
    have above: "\<forall>ev \<in> set xs. ?b < le_hrcSeq ev"
    proof
      fix ev
      assume "ev \<in> set xs"
      moreover have "xs = butlast xs @ [last xs]" using False by simp
      ultimately have "ev = last xs \<or> le_hrcSeq (last xs) < le_hrcSeq ev"
        using desc descending_append [of "butlast xs" "[last xs]"]
        by (metis Un_iff empty_iff insert_iff list.set(1,2) set_append)
      then show "?b < le_hrcSeq ev" by auto
    qed
    have ge: "rp_after c \<le> ?b" using assms(2) last evs c(3) by auto
    have "out = trim_replay c (collected ledger mb xs) (rp_bytes c) ?b (replay_window_gap c ?b)"
      using False out c by (simp add: finish_replay_def Let_def last_map position_of_collected)
    with trim_replay_keeps [of xs ?b c _ ledger mb "rp_bytes c", OF _ above ge refl] desc
    obtain newer older b' where t: "xs = newer @ older" "?b \<le> b'"
      "out = replay_window_gap c b' # rev (collected ledger mb newer)"
      "\<forall>ev \<in> set newer. b' < le_hrcSeq ev" "\<forall>ev \<in> set older. le_hrcSeq ev \<le> b'"
      "older = [] \<longrightarrow> b' = ?b" "older \<noteq> [] \<longrightarrow> b' = le_hrcSeq (hd older)" by metis
    have "\<forall>ev \<in> set ys. le_hrcSeq ev \<le> b'" using desc last t(2) by fastforce
    moreover have "b' \<le> le_hrcSeq (hd evs)"
    proof (cases "older = []")
      case True
      with t(6) descending_hd [OF assms(1), of "last xs"] last evs show ?thesis by simp
    next
      case False
      with t(1,7) descending_hd [OF assms(1), of "hd older"] evs show ?thesis by simp
    qed
    ultimately show ?thesis
      unfolding replay_cut_def using t evs ge gap c(3) False
      by (intro exI [of _ newer] exI [of _ "older @ ys"] exI [of _ b']) auto
  qed
qed

lemma replay_cut_facts:
  assumes "descending evs" "replay_cut ledger afterHrcSeq mb evs out" "\<forall>ev \<in> set evs. afterHrcSeq < le_hrcSeq ev"
  shows "event_chain afterHrcSeq (records out)"
    "chain_end afterHrcSeq (records out) \<le> le_hrcSeq (hd evs)"
    "ev \<in> set evs \<Longrightarrow> covered (records out) (le_hrcSeq ev)"
proof -
  obtain newer older b where c: "evs = newer @ older" "evs \<noteq> []" "afterHrcSeq \<le> b" "b \<le> le_hrcSeq (hd evs)"
    "out = encode_record (Gap ledger Replay_window afterHrcSeq b None) # rev (collected ledger mb newer)"
    "\<forall>ev \<in> set newer. b < le_hrcSeq ev" "\<forall>ev \<in> set older. le_hrcSeq ev \<le> b"
    using assms(2) unfolding replay_cut_def by blast
  have "descending newer" using descending_append assms(1) c(1) by blast
  note chain = collected_chain [OF this c(6), of ledger mb]
  show "event_chain afterHrcSeq (records out)" using chain c(3,5) by simp
  show "chain_end afterHrcSeq (records out) \<le> le_hrcSeq (hd evs)"
    using chain c(1,4,5) by (cases newer) auto
  show "covered (records out) (le_hrcSeq ev)" if "ev \<in> set evs"
    using that c assms(3) collected_covered [of ev newer ledger mb] by auto
qed

section \<open>Properties of the replay\<close>

text \<open>
  C6. The replay loses nothing silently: for events scanned newest first, the records that \<open>finish\<close>
  returns form one ascending chain after the cursor; every scanned or skipped event is replayed or
  lies in the single leading gap; a complete scan replays every event; and the result stays within
  the record and byte bounds (or is one gap).
\<close>

theorem replay_covers_and_fits:
  assumes "descending evs" and "\<forall>ev \<in> set evs. afterHrcSeq < le_hrcSeq ev"
    and "replayed ledger afterHrcSeq maxRecords maxBytes evs = (complete, out)"
  shows "event_chain afterHrcSeq (records out) \<and>
    (\<forall>ev \<in> set evs. covered (records out) (le_hrcSeq ev)) \<and>
    (complete \<longrightarrow> out = rev (map (\<lambda>ev. event_or_oversize_gap ledger ev maxBytes) evs)) \<and>
    length out \<le> max 1 maxRecords \<and> (total_bytes out \<le> int maxBytes \<or> length out = 1)"
proof (cases complete)
  case True
  obtain c where "out = rev (collected ledger maxBytes evs)" "length evs \<le> maxRecords"
      "total_bytes (collected ledger maxBytes evs) \<le> int maxBytes"
    using assms(3) by (rule replayed_scan) (auto simp: finish_replay_def True)
  then show ?thesis
    using collected_chain [OF assms(1,2), of ledger maxBytes] collected_covered
    by (auto simp: total_bytes_def rev_map [symmetric] simp del: rev_map)
next
  case False
  with assms(3) have cut: "replayed ledger afterHrcSeq maxRecords maxBytes evs = (False, out)" by simp
  note facts = replay_cut_facts [OF assms(1) replayed_cut [OF assms(1,2) cut] assms(2)]
  have "length out \<le> max 1 maxRecords \<and> (total_bytes out \<le> int maxBytes \<or> length out = 1)"
    using cut
  proof (rule replayed_scan)
    fix xs ys c
    assume "out = finish_replay False c" "rp_newestFirst c = collected ledger maxBytes xs"
      "rp_bytes c = total_bytes (collected ledger maxBytes xs)" "rp_maxRecords c = maxRecords"
      "rp_maxBytes c = maxBytes"
    then show ?thesis
      using trim_replay_bounds [of "rp_bytes c" "rp_newestFirst c" c]
      by (simp add: finish_replay_def Let_def)
  qed
  with facts False show ?thesis by blast
qed

theorem replay_covers_and_fits_witness:
  "\<exists>out. replayed ''L'' 0 2 200 [small_event 3, small_event 2, small_event 1] = (False, out) \<and>
     records out = [Gap ''L'' Replay_window 0 2 None, Event ''L'' (small_event 3)] \<and>
     covered (records out) 1"
proof -
  have size: "byte_length (encode_record (Gap ''L'' Replay_window 0 1 None)) = 114"
    "byte_length (encode_record (Gap ''L'' Replay_window 0 2 None)) = 114"
    "byte_length (encode_record (Gap ''L'' Replay_window 0 0 None)) = 114"
    by (simp_all add: ndjson_size)
  obtain out where out: "replayed ''L'' 0 2 200 [small_event 3, small_event 2, small_event 1] = (False, out)"
    "records out = [Gap ''L'' Replay_window 0 2 None, Event ''L'' (small_event 3)]"
    by (simp add: replayed_def new_collector_def visit_newest_first_def event_or_oversize_gap_def
        small_sizes finish_replay_def trim_replay.simps replay_window_gap_def size Let_def)
  from replay_covers_and_fits [OF _ _ out(1)] out show ?thesis by (simp add: descending_def)
qed

section \<open>The seam\<close>

definition reached_position :: "int \<Rightarrow> queue_op list \<Rightarrow> int" where
  "reached_position pos ops = foldl op_position pos ops"

lemma reached_position_simps [simp]:
  "reached_position pos [] = pos"
  "reached_position pos (op # ops) = reached_position (op_position pos op) ops"
  "reached_position pos (xs @ ys) = reached_position (reached_position pos xs) ys"
  by (simp_all add: reached_position_def)

lemma queue_run_reaches:
  assumes "queue_history a pos st" "ordered_ops pos ops" "queue_run ops st = Inr st'"
  shows "queue_history a (reached_position pos ops) st'"
  using assms
proof (induction ops arbitrary: pos st)
  case Nil
  then show ?case by simp
next
  case (Cons op ops)
  then obtain st1 where st1: "queue_exec op st = Inr st1" "queue_run ops st1 = Inr st'"
    by (auto simp: then_do_Inr_iff)
  have "ordered_ops pos [op]" "ordered_ops (op_position pos op) ops"
    using Cons.prems(2) ordered_ops_Cons by blast+
  with queue_exec_history(1) [OF Cons.prems(1) _ st1(1)] Cons.IH st1(2) show ?case by simp
qed

lemma append_all_run:
  "append_all es q = Inr q' \<Longrightarrow> queue_run (map Op_encoded es) (q, out) = Inr (q', out)"
  by (induction es arbitrary: q) (auto simp: then_do_Inr_iff)

lemma append_events_run:
  "append_events evs q = Inr q' \<Longrightarrow> queue_run (map Op_event evs) (q, out) = Inr (q', out)"
  by (induction evs arbitrary: q) (auto simp: then_do_Inr_iff)

lemma ordered_encoded_ops: "ordered_ops pos (map Op_encoded es) \<longleftrightarrow> event_chain pos (records es)"
proof (induction es arbitrary: pos)
  case Nil
  then show ?case by simp
next
  case (Cons e es)
  then show ?case using event_chain_Cons_iff [of pos "er_record e" "records es"] by simp
qed

lemma reached_encoded_ops: "reached_position pos (map Op_encoded es) = chain_end pos (records es)"
  by (induction es arbitrary: pos) simp_all

lemma ordered_ops_append:
  "ordered_ops pos (xs @ ys) \<longleftrightarrow> ordered_ops pos xs \<and> ordered_ops (reached_position pos xs) ys"
proof (induction xs arbitrary: pos)
  case Nil
  then show ?case by simp
next
  case (Cons x xs)
  then show ?case
    using ordered_ops_Cons [of pos x "xs @ ys"] ordered_ops_Cons [of pos x xs]
    unfolding append_Cons reached_position_simps by blast
qed

definition ascending :: "int \<Rightarrow> lifecycle_event list \<Rightarrow> bool" where
  "ascending pos evs \<longleftrightarrow> ordered_ops pos (map Op_event evs)"

lemma ascending_filter:
  "ascending pos evs \<Longrightarrow> ascending pos (filter P evs)"
proof -
  have "ordered_ops p (map Op_event evs) \<Longrightarrow> p' \<le> p \<Longrightarrow> ordered_ops p' (map Op_event (filter P evs))" for p p'
    by (induction evs arbitrary: p p') force+
  then show "ascending pos evs \<Longrightarrow> ascending pos (filter P evs)" by (simp add: ascending_def)
qed

definition seam_position :: "int \<Rightarrow> int \<Rightarrow> lifecycle_event list \<Rightarrow> int" where
  "seam_position afterHrcSeq head evs = max (reached_position afterHrcSeq (map Op_event evs)) head"

lemma seam_facts:
  assumes "ascending afterHrcSeq evs"
    and "append_events evs (new_queue ledger afterHrcSeq mr mb) = Inr seam"
  shows "event_chain head (records (bq_entries (discard_through head seam)))"
    "chain_end head (records (bq_entries (discard_through head seam))) \<le> seam_position afterHrcSeq head evs"
    "ev \<in> set evs \<Longrightarrow> head < le_hrcSeq ev \<Longrightarrow>
     covered (records (bq_entries (discard_through head seam))) (le_hrcSeq ev)"
proof -
  let ?ops = "map Op_event evs @ [Op_discard head]" and ?seam = "discard_through head seam"
  have append: "queue_run (xs @ ys) st = then_do (queue_run xs st) (queue_run ys)" for xs ys st
    by (induction xs arbitrary: st) (auto simp: then_do_def split: sum.splits)
  have run: "queue_run ?ops (new_queue ledger afterHrcSeq mr mb, []) = Inr (?seam, [])"
    using append_events_run [OF assms(2), of "[]"] by (simp add: append)
  have ord: "ordered_ops afterHrcSeq ?ops" using assms(1) by (simp add: ordered_ops_append ascending_def)
  have hist: "queue_history afterHrcSeq (seam_position afterHrcSeq head evs) (?seam, [])"
    using queue_run_reaches [OF queue_history_new ord run] by (simp add: seam_position_def)
  have le: "head \<le> bq_deliveredHrcSeq ?seam" by (simp add: discard_through_def Let_def)
  with hist show "event_chain head (records (bq_entries ?seam))"
    by (auto simp: queue_history_def Let_def intro: event_chain_mono)
  show "chain_end head (records (bq_entries ?seam)) \<le> seam_position afterHrcSeq head evs"
    using hist chain_end_mono [OF le, of "records (bq_entries ?seam)"]
    by (auto simp: queue_history_def Let_def)
  show "covered (records (bq_entries ?seam)) (le_hrcSeq ev)" if "ev \<in> set evs" "head < le_hrcSeq ev"
    using queue_run_history [OF queue_history_new ord run, of "le_hrcSeq ev"] that by auto
qed

text \<open>The events that the scan of a well-formed ledger visits.\<close>

abbreviation scanned :: "row_context \<Rightarrow> lifecycle_filters \<Rightarrow> int \<Rightarrow> ledger \<Rightarrow> lifecycle_event list" where
  "scanned ctx f afterHrcSeq l \<equiv> map (map_row ctx) (rev (replay_rows f afterHrcSeq l))"

lemma scanned_facts:
  assumes "ledger_wf l"
  shows "descending (scanned ctx f afterHrcSeq l)"
    "\<forall>ev \<in> set (scanned ctx f afterHrcSeq l). afterHrcSeq < le_hrcSeq ev"
    "ev \<in> set (scanned ctx f afterHrcSeq l) \<Longrightarrow> le_hrcSeq ev \<le> max_hrc_seq l"
proof -
  have "sorted_wrt (<) (map hr_hrc_seq (replay_rows f afterHrcSeq l))"
    unfolding replay_rows_def using assms by (intro sorted_wrt_filter_map) (simp add: ledger_wf_def)
  then show "descending (scanned ctx f afterHrcSeq l)"
    by (simp add: descending_def sorted_wrt_map sorted_wrt_rev)
qed (auto simp: replay_rows_def)

lemma replayed_end:
  assumes "descending evs" "\<forall>ev \<in> set evs. afterHrcSeq < le_hrcSeq ev" "\<forall>ev \<in> set evs. le_hrcSeq ev \<le> upTo"
    and "replayed ledger afterHrcSeq mr mb evs = (complete, out)"
  shows "event_chain afterHrcSeq (records out) \<and>
    chain_end afterHrcSeq (records out) \<le> max afterHrcSeq upTo \<and>
    (\<forall>ev \<in> set evs. covered (records out) (le_hrcSeq ev))"
proof (cases complete)
  case True
  have "out = rev (collected ledger mb evs)"
    using assms(4) by (rule replayed_scan) (auto simp: finish_replay_def True)
  then show ?thesis
    using collected_chain [OF assms(1,2), of ledger mb] collected_covered [of _ evs ledger mb]
      assms(3) by (cases evs) auto
next
  case False
  with assms(4) have cut: "replayed ledger afterHrcSeq mr mb evs = (False, out)" by simp
  note cut = replayed_cut [OF assms(1,2) this]
  from cut have "evs \<noteq> []" by (auto simp: replay_cut_def)
  then have "le_hrcSeq (hd evs) \<le> upTo" using assms(3) hd_in_set by blast
  with replay_cut_facts [OF assms(1) cut assms(2)] show ?thesis by fastforce
qed

lemma replay_end:
  assumes "ledger_wf l" "replayed ledger afterHrcSeq mr mb (scanned ctx f afterHrcSeq l) = (complete, out)"
  shows "event_chain afterHrcSeq (records out)"
    "chain_end afterHrcSeq (records out) \<le> max afterHrcSeq (max_hrc_seq l)"
    "r \<in> set (replay_rows f afterHrcSeq l) \<Longrightarrow> covered (records out) (hr_hrc_seq r)"
proof -
  note sc = scanned_facts [OF assms(1), where ctx = ctx and f = f and afterHrcSeq = afterHrcSeq]
  have "\<forall>ev \<in> set (scanned ctx f afterHrcSeq l). le_hrcSeq ev \<le> max_hrc_seq l" using sc(3) by blast
  note all = replayed_end [OF sc(1,2) this assms(2)]
  then show "event_chain afterHrcSeq (records out)"
    "chain_end afterHrcSeq (records out) \<le> max afterHrcSeq (max_hrc_seq l)" by blast+
  show "covered (records out) (hr_hrc_seq r)" if "r \<in> set (replay_rows f afterHrcSeq l)"
  proof -
    from that have "map_row ctx r \<in> set (scanned ctx f afterHrcSeq l)" by simp
    with all have "covered (records out) (le_hrcSeq (map_row ctx r))" by blast
    then show ?thesis by simp
  qed
qed

text \<open>What \<open>admit_stream\<close> does when it succeeds.\<close>

lemma admit_stream_Inr:
  assumes "admit_stream ctx expected afterHrcSeq f mr mb l seen incarnation = Inr (head, d)"
  obtains seam complete out q q' where
    "append_events (filter (seam_accepts f afterHrcSeq) seen) (new_queue expected afterHrcSeq mr mb) = Inr seam"
    "replayed expected afterHrcSeq mr mb (scanned ctx f afterHrcSeq l) = (complete, out)"
    "append_all out (new_queue expected afterHrcSeq mr mb) = Inr q"
    "append_all (bq_entries (discard_through head seam)) q = Inr q'"
    "head = max_hrc_seq l" "d = new_delivery (Ready expected afterHrcSeq head) q'"
    "expected = lg_incarnation l" "incarnation = expected"
proof -
  obtain complete c where scan: "visit_while visit_newest_first (scanned ctx f afterHrcSeq l)
      (new_collector expected afterHrcSeq mr mb) = (complete, c)" by (rule prod.exhaust)
  have "replayed expected afterHrcSeq mr mb (scanned ctx f afterHrcSeq l) = (complete, finish_replay complete c)"
    by (simp add: replayed_def scan)
  moreover have exp: "expected = lg_incarnation l" using assms by (simp add: admit_stream_def split: if_splits)
  have scan': "scan_replay_newest_first ctx expected afterHrcSeq f visit_newest_first
      (new_collector expected afterHrcSeq mr mb) l = Inr (max_hrc_seq l, complete, c)"
    using scan exp by (simp add: scan_replay_newest_first_def fence_ledger_def)
  obtain seam where seam: "append_events (filter (seam_accepts f afterHrcSeq) seen)
      (new_queue expected afterHrcSeq mr mb) = Inr seam"
    using assms exp by (auto simp: admit_stream_def then_do_Inr_iff)
  obtain q where q: "append_all (finish_replay complete c) (new_queue expected afterHrcSeq mr mb) = Inr q"
    using assms exp seam scan' unfolding admit_stream_def by (auto simp: then_do_Inr_iff)
  obtain q' where q': "append_all (bq_entries (discard_through (max_hrc_seq l) seam)) q = Inr q'"
    using assms exp seam scan' q unfolding admit_stream_def by (auto simp: then_do_Inr_iff queue_drain_def)
  have fin: "incarnation = expected" "head = max_hrc_seq l" "d = new_delivery (Ready expected afterHrcSeq head) q'"
    using assms exp seam scan' q q' unfolding admit_stream_def
    by (auto simp: queue_drain_def split: if_splits)
  ultimately show thesis
    using that [OF seam _ q] q' fin exp by simp
qed

lemma admit_stream_history:
  assumes "ledger_wf l" "admit_stream ctx expected afterHrcSeq f mr mb l seen incarnation = Inr (head, d)"
    and "ascending afterHrcSeq (filter (seam_accepts f afterHrcSeq) seen)" "afterHrcSeq \<le> max_hrc_seq l"
  shows "sent_history afterHrcSeq (seam_position afterHrcSeq head (filter (seam_accepts f afterHrcSeq) seen)) d"
    "r \<in> set (replay_rows f afterHrcSeq l) \<Longrightarrow> accounted d (hr_hrc_seq r)"
    "ev \<in> set seen \<Longrightarrow> seam_accepts f afterHrcSeq ev \<Longrightarrow> head < le_hrcSeq ev \<Longrightarrow> accounted d (le_hrcSeq ev)"
proof -
  let ?seen = "filter (seam_accepts f afterHrcSeq) seen"
  obtain seam complete out q q' where ad:
    "append_events ?seen (new_queue expected afterHrcSeq mr mb) = Inr seam"
    "replayed expected afterHrcSeq mr mb (scanned ctx f afterHrcSeq l) = (complete, out)"
    "append_all out (new_queue expected afterHrcSeq mr mb) = Inr q"
    "append_all (bq_entries (discard_through head seam)) q = Inr q'"
    "head = max_hrc_seq l" "d = new_delivery (Ready expected afterHrcSeq head) q'"
    using assms(2) by (rule admit_stream_Inr)
  let ?tail = "bq_entries (discard_through head seam)"
  note sm = seam_facts [OF assms(3) ad(1), where head = head]
  note rp = replay_end [OF assms(1) ad(2)]
  have low: "chain_end afterHrcSeq (records out) \<le> head" using rp(2) assms(4) ad(5) by simp
  have tail: "event_chain (chain_end afterHrcSeq (records out)) (records ?tail)"
    using sm(1) low by (rule event_chain_mono)
  let ?ops = "map Op_encoded out @ map Op_encoded ?tail"
  have run: "queue_run ?ops (new_queue expected afterHrcSeq mr mb, []) = Inr (q', [])"
  proof -
    have append: "queue_run (xs @ ys) st = then_do (queue_run xs st) (queue_run ys)" for xs ys st
      by (induction xs arbitrary: st) (auto simp: then_do_def split: sum.splits)
    show ?thesis using append_all_run [OF ad(3)] append_all_run [OF ad(4)] by (simp add: append)
  qed
  have ord: "ordered_ops afterHrcSeq ?ops"
    using rp(1) tail by (simp add: ordered_ops_append ordered_encoded_ops reached_encoded_ops)
  have "reached_position afterHrcSeq ?ops \<le> seam_position afterHrcSeq head ?seen"
    using sm(2) chain_end_mono [OF low, of "records ?tail"] by (simp add: reached_encoded_ops)
  then have hist: "queue_history afterHrcSeq (seam_position afterHrcSeq head ?seen) (q', [])"
    using queue_history_weaken queue_run_reaches [OF queue_history_new ord run] by blast
  have view: "dl_queue d = q'" "sent d = []" by (simp_all add: ad(6) new_delivery_def sent_def)
  show "sent_history afterHrcSeq (seam_position afterHrcSeq head ?seen) d"
    using hist by (simp add: sent_history_def view)
  have cov: "accounted d s" if "covered (records (out @ ?tail)) s" for s
  proof -
    from that obtain e where "e \<in> set (out @ ?tail)" "covers (er_record e) s" by (auto simp: covered_def)
    then have "Op_encoded e \<in> set ?ops" "hands_in (Op_encoded e) s" by auto
    then have "\<exists>op \<in> set ?ops. hands_in op s" by blast
    with queue_run_history [OF queue_history_new ord run, of s] show ?thesis
      by (auto simp: accounted_def view)
  qed
  show "accounted d (hr_hrc_seq r)" if "r \<in> set (replay_rows f afterHrcSeq l)"
    using rp(3) [OF that] by (intro cov) simp
  show "accounted d (le_hrcSeq ev)" if "ev \<in> set seen" "seam_accepts f afterHrcSeq ev" "head < le_hrcSeq ev"
    using sm(3) [of ev] that by (intro cov) simp
qed

text \<open>
  C1. Nothing falls into the seam between replay and live delivery: after a successful admission on a
  well-formed ledger and any interleaving of the producer and the reader that leaves the stream
  open, every matching ledger row after the cursor and every matching event seen during admission
  beyond the replay head has been sent, is queued, or lies in a reported gap; and everything sent
  and queued is one ascending chain after the cursor.
\<close>

theorem admitted_stream_accounts_for_ledger:
  assumes "ledger_wf l" and "afterHrcSeq \<le> max_hrc_seq l"
    and "admit_stream ctx expected afterHrcSeq f maxRecords maxBytes l seen incarnation = Inr (head, d0)"
    and "ascending afterHrcSeq (filter (seam_accepts f afterHrcSeq) seen)"
    and "delivery_run ls d0 = Some d" and "stream_open d"
    and "ordered_labels (seam_position afterHrcSeq head (filter (seam_accepts f afterHrcSeq) seen)) ls"
  shows "event_chain afterHrcSeq (records (sent d @ bq_entries (dl_queue d))) \<and>
    (\<forall>r \<in> set (replay_rows f afterHrcSeq l). covered (records (sent d @ bq_entries (dl_queue d))) (hr_hrc_seq r)) \<and>
    (\<forall>ev \<in> set seen. seam_accepts f afterHrcSeq ev \<and> head < le_hrcSeq ev \<longrightarrow>
       covered (records (sent d @ bq_entries (dl_queue d))) (le_hrcSeq ev))"
proof -
  note hist = admit_stream_history [OF assms(1,3,4,2)]
  have inv: "delivery_inv (Ready expected afterHrcSeq head) d0"
    using assms(3) by (rule admit_stream_Inr) (simp add: delivery_inv_new)
  note view = view_run [OF inv assms(6,7) hist(1) assms(5)]
  from view have "event_chain afterHrcSeq (records (sent d @ bq_entries (dl_queue d)))"
    using queue_history_chain [of afterHrcSeq _ "(dl_queue d, sent d)"] by (auto simp: sent_history_def)
  moreover have "accounted d s" if "accounted d0 s" for s using view that by blast
  ultimately show ?thesis using hist(2,3) unfolding accounted_def by blast
qed

definition sample_event :: "int \<Rightarrow> lifecycle_event" where
  "sample_event n = map_row plain_context (sample_row n)"

lemma sample_sizes:
  "byte_length (encode_record (Event ''L'' (sample_event 2))) = 259"
  "byte_length (encode_record (Event ''L'' (sample_event 4))) = 259"
  by (simp_all add: ndjson_size sample_event_def map_row_def plain_context_def sample_row_def
      canonical_lane_ref_def text_field_def number_field_def)

lemma sample_event_seq [simp]: "le_hrcSeq (sample_event n) = n"
  by (simp add: sample_event_def sample_row_def)

lemma sample_max: "max_hrc_seq sample_ledger = 4"
  by (simp add: max_hrc_seq_def sample_ledger_def sample_row_def)

lemma sample_replay: "replay_rows no_filters 1 sample_ledger = [sample_row 2, sample_row 4]"
  by (simp add: replay_rows_def sample_max) 
     (simp add: sample_ledger_def build_lifecycle_where_def no_filters_def sql_eq_def sample_row_def)

lemma sample_admission:
  "\<exists>d0 d. admit_stream plain_context ''L'' 1 no_filters 4 2000 sample_ledger [] ''L'' = Inr (4, d0) \<and>
     delivery_run [D_pull, D_pull] d0 = Some d \<and> stream_open d \<and>
     records (sent d) = [Event ''L'' (sample_event 2)]"
proof -
  have ev: "map_row plain_context (sample_row n) = sample_event n" for n by (simp add: sample_event_def)
  have "lg_incarnation sample_ledger = ''L''" by (simp add: sample_ledger_def)
  then show ?thesis
    by (simp add: admit_stream_def scan_replay_newest_first_def fence_ledger_def sample_replay ev sample_max
        visit_newest_first_def new_collector_def event_or_oversize_gap_def sample_sizes finish_replay_def
        append_encoded_def fits_def queue_push_def new_queue_def queue_drain_def discard_through_def
        List.map_filter_def delivery_steps stream_open_def sent_def Let_def)
qed

theorem admitted_stream_accounts_for_ledger_witness:
  "\<exists>d0 d. admit_stream plain_context ''L'' 1 no_filters 4 2000 sample_ledger [] ''L'' = Inr (4, d0) \<and>
     delivery_run [D_pull, D_pull] d0 = Some d \<and> records (sent d) = [Event ''L'' (sample_event 2)] \<and>
     (\<forall>r \<in> set [sample_row 2, sample_row 4].
        covered (records (sent d @ bq_entries (dl_queue d))) (hr_hrc_seq r))"
proof -
  obtain d0 d where d: "admit_stream plain_context ''L'' 1 no_filters 4 2000 sample_ledger [] ''L'' = Inr (4, d0)"
    "delivery_run [D_pull, D_pull] d0 = Some d" "stream_open d"
    "records (sent d) = [Event ''L'' (sample_event 2)]" using sample_admission by (elim exE conjE) (rule that)
  have "1 \<le> max_hrc_seq sample_ledger" by (simp add: sample_max)
  from admitted_stream_accounts_for_ledger [OF sample_ledger_wf this d(1) _ d(2,3)]
  have "\<forall>r \<in> set (replay_rows no_filters 1 sample_ledger).
      covered (records (sent d @ bq_entries (dl_queue d))) (hr_hrc_seq r)"
    by (simp add: ascending_def del: map_append)
  with d show ?thesis unfolding sample_replay by (intro exI [of _ d0] exI [of _ d] conjI)
qed

end
