(* ===== verification/Append_Hub.thy ===== *)
theory Append_Hub
  imports Event_Ledger
begin

text \<open>
  The announcement of appended ledger rows to live followers (lifecycle-append-hub.ts) together with
  the transactions of the connection it sits under: a row is held until its transaction has
  committed, checked against the ledger, and announced in sequence order. The scheduled microtask
  or timer is a step of its own that may run between any two other steps.
\<close>

section \<open>State and operations\<close>

text \<open>
  \<open>ah_current\<close> is the ledger as the connection sees it, \<open>ah_committed\<close> the one a rollback goes back
  to; they agree outside a transaction. \<open>ah_pending\<close> is the \<open>pending\<close> map in insertion order.
\<close>

record append_hub =
  ah_committed :: ledger
  ah_current :: ledger
  ah_in_tx :: bool
  ah_observed :: bool
  ah_pending :: "(int \<times> lifecycle_event) list"
  ah_scheduled :: bool
  ah_announced :: "lifecycle_event list"

definition new_hub :: "ledger \<Rightarrow> append_hub" where
  "new_hub l = \<lparr>ah_committed = l, ah_current = l, ah_in_tx = False, ah_observed = False,
     ah_pending = [], ah_scheduled = False, ah_announced = []\<rparr>"

text \<open>\<open>Map.set\<close>: an existing key keeps its place.\<close>

fun js_map_set :: "'k \<Rightarrow> 'v \<Rightarrow> ('k \<times> 'v) list \<Rightarrow> ('k \<times> 'v) list" where
  "js_map_set k v [] = [(k, v)]"
| "js_map_set k v ((k', v') # m) = (if k' = k then (k, v) # m else (k', v') # js_map_set k v m)"

definition hub_record :: "lifecycle_event \<Rightarrow> append_hub \<Rightarrow> append_hub" where
  "hub_record ev h =
     (if \<not> ah_observed h then h
      else h\<lparr>ah_pending := js_map_set (le_hrcSeq ev) ev (ah_pending h), ah_scheduled := True\<rparr>)"

text \<open>The stream numbers of the rows now in the ledger, by sequence number.\<close>

definition committed_stream_seq :: "ledger \<Rightarrow> int \<Rightarrow> int option" where
  "committed_stream_seq l s = map_option hr_stream_seq (row_get hr_hrc_seq (lg_rows l) s)"

definition hub_flush :: "append_hub \<Rightarrow> append_hub" where
  "hub_flush h =
     (if ah_pending h = [] \<or> ah_in_tx h then h
      else let held = map snd (sort_key fst (ah_pending h));
               live = filter (\<lambda>ev. committed_stream_seq (ah_current h) (le_hrcSeq ev) \<noteq> None \<and>
                        committed_stream_seq (ah_current h) (le_hrcSeq ev) = jnumber (le_fields ev) ''streamSeq'')
                        held
           in h\<lparr>ah_pending := [], ah_announced := ah_announced h @ (if ah_observed h then live else [])\<rparr>)"

definition flush_when_committed :: "append_hub \<Rightarrow> append_hub" where
  "flush_when_committed h = (if ah_in_tx h then h else hub_flush (h\<lparr>ah_scheduled := False\<rparr>))"

definition hub_observe :: "append_hub \<Rightarrow> append_hub" where
  "hub_observe h = h\<lparr>ah_observed := True\<rparr>"

definition hub_unobserve :: "append_hub \<Rightarrow> append_hub" where
  "hub_unobserve h = h\<lparr>ah_observed := False, ah_pending := []\<rparr>"

text \<open>
  \<open>append\<close>: in a transaction of its own, or as part of the one that is open; the flush after it
  does nothing in the second case.
\<close>

definition hub_append :: "row_context \<Rightarrow> ledger_row \<Rightarrow> append_hub \<Rightarrow> append_hub" where
  "hub_append ctx event h =
     (case append_persisted event (ah_current h) of
        (row, l) \<Rightarrow>
          let h1 = h\<lparr>ah_current := l, ah_committed := (if ah_in_tx h then ah_committed h else l)\<rparr>
          in hub_flush (hub_record (map_row ctx row) h1))"

datatype hub_label =
    Hub_append ledger_row
  | Hub_begin
  | Hub_commit
  | Hub_rollback
  | Hub_task

fun hub_exec :: "row_context \<Rightarrow> hub_label \<Rightarrow> append_hub \<Rightarrow> append_hub" where
  "hub_exec ctx (Hub_append event) h = hub_append ctx event h"
| "hub_exec ctx Hub_begin h = (if ah_in_tx h then h else h\<lparr>ah_in_tx := True\<rparr>)"
| "hub_exec ctx Hub_commit h = h\<lparr>ah_in_tx := False, ah_committed := ah_current h\<rparr>"
| "hub_exec ctx Hub_rollback h = h\<lparr>ah_in_tx := False, ah_current := ah_committed h\<rparr>"
| "hub_exec ctx Hub_task h = (if ah_scheduled h then flush_when_committed h else h)"

definition hub_run :: "row_context \<Rightarrow> hub_label list \<Rightarrow> append_hub \<Rightarrow> append_hub" where
  "hub_run ctx ls h = fold (hub_exec ctx) ls h"

section \<open>The invariant\<close>

lemma js_map_set_keys: "fst ` set (js_map_set k v m) = insert k (fst ` set m)"
  by (induction k v m rule: js_map_set.induct) auto

lemma js_map_set_distinct: "distinct (map fst m) \<Longrightarrow> distinct (map fst (js_map_set k v m))"
proof (induction k v m rule: js_map_set.induct)
  case (2 k v k' v' m)
  then show ?case using js_map_set_keys [of k v m] by (auto simp: image_iff)
qed simp

lemma js_map_set_mem: "distinct (map fst m) \<Longrightarrow>
   (x, y) \<in> set (js_map_set k v m) \<longleftrightarrow> (x = k \<and> y = v) \<or> (x \<noteq> k \<and> (x, y) \<in> set m)"
  by (induction k v m rule: js_map_set.induct) (force split: if_splits)+

text \<open>
  \<open>old\<close> are the rows from before the observer subscribed and \<open>sent\<close> those announced since: the
  committed rows begin with both, every later row of the connection's view is pending as its event,
  and any other pending entry is beyond the view (left over from a rollback).
\<close>

definition hub_rows :: "row_context \<Rightarrow> ledger_row list \<Rightarrow> ledger_row list \<Rightarrow> ledger_row list \<Rightarrow>
    ledger_row list \<Rightarrow> append_hub \<Rightarrow> bool" where
  "hub_rows ctx old sent rest uncom h \<longleftrightarrow>
     lg_rows (ah_committed h) = old @ sent @ rest \<and> lg_rows (ah_current h) = old @ sent @ rest @ uncom \<and>
     (\<forall>r \<in> set uncom. lg_allocated (ah_committed h) < hr_hrc_seq r) \<and>
     ah_announced h = map (map_row ctx) sent \<and> distinct (map fst (ah_pending h)) \<and>
     (\<forall>r \<in> set (rest @ uncom). (hr_hrc_seq r, map_row ctx r) \<in> set (ah_pending h)) \<and>
     (\<forall>(s, ev) \<in> set (ah_pending h). s = le_hrcSeq ev \<and>
        (s \<le> lg_allocated (ah_current h) \<longrightarrow> (\<exists>r \<in> set (rest @ uncom). s = hr_hrc_seq r \<and> ev = map_row ctx r)))"

definition hub_base :: "append_hub \<Rightarrow> bool" where
  "hub_base h \<longleftrightarrow>
     ledger_wf (ah_committed h) \<and> ledger_wf (ah_current h) \<and> ah_observed h \<and>
     (\<not> ah_in_tx h \<longrightarrow> ah_current h = ah_committed h) \<and>
     lg_allocated (ah_committed h) \<le> lg_allocated (ah_current h)"

definition hub_inv :: "row_context \<Rightarrow> ledger_row list \<Rightarrow> append_hub \<Rightarrow> bool" where
  "hub_inv ctx old h \<longleftrightarrow> hub_base h \<and> (\<exists>sent rest uncom. hub_rows ctx old sent rest uncom h)"

lemma hub_invE:
  assumes "hub_inv ctx old h"
  obtains sent rest uncom where "hub_base h" "hub_rows ctx old sent rest uncom h"
  using assms unfolding hub_inv_def by blast

lemma hub_invI: "hub_base h \<Longrightarrow> hub_rows ctx old sent rest uncom h \<Longrightarrow> hub_inv ctx old h"
  unfolding hub_inv_def by blast

lemma sorted_key_unique:
  fixes k :: "'a \<Rightarrow> int"
  assumes "sorted_wrt (<) (map k xs)" "sorted_wrt (<) (map k ys)" "set xs = set ys"
  shows "xs = ys"
proof -
  have "map k xs = map k ys"
    using assms by (intro strict_sorted_equal) auto
  moreover have "inj_on k (set xs \<union> set ys)"
    using assms(1) by (simp add: assms(3) [symmetric] strict_sorted_iff distinct_map)
  ultimately show ?thesis by (rule map_inj_on)
qed

lemma row_get_sorted:
  assumes "sorted_wrt (<) (map hr_hrc_seq rows)" "r \<in> set rows"
  shows "row_get hr_hrc_seq rows (hr_hrc_seq r) = Some r"
proof -
  have inj: "inj_on hr_hrc_seq (set rows)"
    using assms(1) by (simp add: strict_sorted_iff distinct_map)
  obtain r' where r': "row_get hr_hrc_seq rows (hr_hrc_seq r) = Some r'"
    using assms(2) row_get_None_iff [of hr_hrc_seq rows "hr_hrc_seq r"] by (cases "row_get hr_hrc_seq rows (hr_hrc_seq r)") auto
  from row_get_SomeD [OF r'] inj_onD [OF inj, of r' r] assms(2) have "r' = r" by blast
  with r' show ?thesis by simp
qed

lemma stream_seq_map_row [simp]: "jnumber (le_fields (map_row ctx r)) ''streamSeq'' = Some (hr_stream_seq r)"
  by (simp add: jnumber_def map_row_def)

lemma sort_key_strict:
  fixes m :: "(int \<times> 'v) list"
  assumes "distinct (map fst m)"
  shows "sorted_wrt (<) (map fst (sort_key fst m))"
  using assms by (simp add: strict_sorted_iff distinct_map inj_on_def)

text \<open>What a flush outside a transaction announces: exactly the committed rows not yet announced.\<close>

lemma flush_announces:
  assumes wf: "ledger_wf l" and rows: "lg_rows l = older @ rest"
    and dist: "distinct (map fst pending)"
    and have_rest: "\<forall>r \<in> set rest. (hr_hrc_seq r, map_row ctx r) \<in> set pending"
    and only: "\<forall>(s, ev) \<in> set pending. s = le_hrcSeq ev \<and>
       (s \<le> lg_allocated l \<longrightarrow> (\<exists>r \<in> set rest. s = hr_hrc_seq r \<and> ev = map_row ctx r))"
  shows "filter (\<lambda>ev. committed_stream_seq l (le_hrcSeq ev) \<noteq> None \<and>
             committed_stream_seq l (le_hrcSeq ev) = jnumber (le_fields ev) ''streamSeq'')
           (map snd (sort_key fst pending)) = map (map_row ctx) rest"
    (is "filter ?live ?held = _")
proof (rule sorted_key_unique [where k = le_hrcSeq])
  have sorted: "sorted_wrt (<) (map hr_hrc_seq (lg_rows l))" using wf by (simp add: ledger_wf_def)
  have keys: "map le_hrcSeq ?held = map fst (sort_key fst pending)"
    using only by (auto simp: split_beta)
  show "sorted_wrt (<) (map le_hrcSeq (filter ?live ?held))"
    by (rule sorted_wrt_filter_map) (simp only: keys sort_key_strict [OF dist])
  show "sorted_wrt (<) (map le_hrcSeq (map (map_row ctx) rest))"
    using sorted by (simp add: rows sorted_wrt_append comp_def)
  show "set (filter ?live ?held) = set (map (map_row ctx) rest)"
  proof (intro set_eqI iffI)
    fix ev
    assume "ev \<in> set (filter ?live ?held)"
    then obtain s where s: "(s, ev) \<in> set pending" and live: "committed_stream_seq l (le_hrcSeq ev) \<noteq> None" by force
    then obtain r where "r \<in> set (lg_rows l)" "hr_hrc_seq r = le_hrcSeq ev"
      by (auto simp: committed_stream_seq_def dest: row_get_SomeD)
    then have "le_hrcSeq ev \<le> lg_allocated l" using wf by (auto simp: ledger_wf_def)
    with s only show "ev \<in> set (map (map_row ctx) rest)" by fastforce
  next
    fix ev
    assume "ev \<in> set (map (map_row ctx) rest)"
    then obtain r where r: "r \<in> set rest" "ev = map_row ctx r" by auto
    then have "row_get hr_hrc_seq (lg_rows l) (hr_hrc_seq r) = Some r"
      by (intro row_get_sorted [OF sorted]) (simp add: rows)
    moreover have "(hr_hrc_seq r, map_row ctx r) \<in> set pending" using have_rest r(1) by blast
    then have "ev \<in> set ?held" using r(2) by force
    ultimately show "ev \<in> set (filter ?live ?held)" using r(2) by (simp add: committed_stream_seq_def)
  qed
qed

lemma hub_inv_flush:
  assumes "hub_inv ctx old h" "\<not> ah_in_tx h"
  shows "hub_inv ctx old (hub_flush h)"
    "ah_announced (hub_flush h) = map (map_row ctx) (drop (length old) (lg_rows (ah_committed h)))"
proof -
  obtain sent rest uncom where i: "hub_base h" "hub_rows ctx old sent rest uncom h"
    using assms(1) by (rule hub_invE)
  have cur: "ah_current h = ah_committed h" using i(1) assms(2) by (simp add: hub_base_def)
  have uncom: "uncom = []" using i(2) cur by (auto simp: hub_rows_def)
  note r = i(2) [unfolded hub_rows_def cur uncom append_Nil2]
  have "hub_inv ctx old (hub_flush h) \<and>
    ah_announced (hub_flush h) = map (map_row ctx) (drop (length old) (lg_rows (ah_committed h)))"
  proof (cases "ah_pending h = []")
    case True
    with r have "rest = []" by (cases rest) auto
    with True assms(1) r show ?thesis by (simp add: hub_flush_def)
  next
    case False
    have flush: "hub_flush h = h\<lparr>ah_pending := [], ah_announced := ah_announced h @ map (map_row ctx) rest\<rparr>"
      using flush_announces [of "ah_committed h" "old @ sent" rest "ah_pending h" ctx] r i(1) cur False assms(2)
      by (simp add: hub_flush_def hub_base_def Let_def)
    have "hub_base (hub_flush h)" using i(1) by (simp add: flush hub_base_def)
    moreover have "hub_rows ctx old (sent @ rest) [] [] (hub_flush h)"
      using r cur by (simp add: flush hub_rows_def)
    ultimately show ?thesis using r by (auto simp: flush intro: hub_invI)
  qed
  then show "hub_inv ctx old (hub_flush h)"
    "ah_announced (hub_flush h) = map (map_row ctx) (drop (length old) (lg_rows (ah_committed h)))" by auto
qed

lemma append_persisted_facts:
  assumes "ledger_wf l" "append_persisted event l = (row, l')"
  shows "ledger_wf l'" "lg_rows l' = lg_rows l @ [row]" "hr_hrc_seq row = lg_allocated l + 1"
    "lg_allocated l' = lg_allocated l + 1" "\<forall>r \<in> set (lg_rows l). hr_hrc_seq r < hr_hrc_seq row"
  using assms ledger_wf_append [OF assms]
  by (auto simp: append_persisted_def ledger_wf_def Let_def)

text \<open>Recording a freshly appended row; the ledgers are already the new ones.\<close>

lemma hub_inv_record:
  assumes inv: "hub_inv ctx old h" and app: "append_persisted event (ah_current h) = (row, l)"
  shows "hub_inv ctx old (hub_record (map_row ctx row)
    (h\<lparr>ah_current := l, ah_committed := (if ah_in_tx h then ah_committed h else l)\<rparr>))"
proof -
  obtain sent rest uncom where base: "hub_base h" and rows: "hub_rows ctx old sent rest uncom h"
    using inv by (rule hub_invE)
  note b = base [unfolded hub_base_def] and i = rows [unfolded hub_rows_def]
  have wf: "ledger_wf (ah_current h)" using b by blast
  note a = append_persisted_facts [OF wf app]
  let ?p = "js_map_set (hr_hrc_seq row) (map_row ctx row) (ah_pending h)"
  have mem: "(x, y) \<in> set ?p \<longleftrightarrow> (x = hr_hrc_seq row \<and> y = map_row ctx row) \<or>
      (x \<noteq> hr_hrc_seq row \<and> (x, y) \<in> set (ah_pending h))" for x y
    using i by (intro js_map_set_mem) blast
  have below: "\<forall>r \<in> set (rest @ uncom). hr_hrc_seq r \<noteq> hr_hrc_seq row"
  proof
    fix r
    assume "r \<in> set (rest @ uncom)"
    then have "hr_hrc_seq r < hr_hrc_seq row" using a(5) i by auto
    then show "hr_hrc_seq r \<noteq> hr_hrc_seq row" by simp
  qed
  have pend: "\<forall>r \<in> set (rest @ uncom @ [row]). (hr_hrc_seq r, map_row ctx r) \<in> set ?p"
    using i below by (auto simp: mem)
  have only: "\<forall>(s, ev) \<in> set ?p. s = le_hrcSeq ev \<and>
       (s \<le> lg_allocated l \<longrightarrow> (\<exists>r \<in> set (rest @ uncom @ [row]). s = hr_hrc_seq r \<and> ev = map_row ctx r))"
  proof (clarify)
    fix s ev
    assume "(s, ev) \<in> set ?p"
    then consider "s = hr_hrc_seq row" "ev = map_row ctx row" | "s \<noteq> hr_hrc_seq row" "(s, ev) \<in> set (ah_pending h)"
      using mem by blast
    then show "s = le_hrcSeq ev \<and>
       (s \<le> lg_allocated l \<longrightarrow> (\<exists>r \<in> set (rest @ uncom @ [row]). s = hr_hrc_seq r \<and> ev = map_row ctx r))"
    proof cases
      case 1
      then show ?thesis by simp
    next
      case 2
      with i have "s = le_hrcSeq ev" "s \<le> lg_allocated (ah_current h) \<longrightarrow>
          (\<exists>r \<in> set (rest @ uncom). s = hr_hrc_seq r \<and> ev = map_row ctx r)" by blast+
      moreover have "s \<le> lg_allocated l \<longrightarrow> s \<le> lg_allocated (ah_current h)" using 2(1) a(3,4) by simp
      ultimately show ?thesis by auto
    qed
  qed
  have dist: "distinct (map fst ?p)" using i by (intro js_map_set_distinct) blast
  let ?h = "h\<lparr>ah_current := l, ah_committed := (if ah_in_tx h then ah_committed h else l)\<rparr>"
  have base': "hub_base (hub_record (map_row ctx row) ?h)"
    using b a(1,4) by (simp add: hub_base_def hub_record_def)
  show ?thesis
  proof (cases "ah_in_tx h")
    case True
    have "hub_rows ctx old sent rest (uncom @ [row]) (hub_record (map_row ctx row) ?h)"
      unfolding hub_rows_def hub_record_def using True b i a(2-4) pend only dist by simp
    with base' show ?thesis by (rule hub_invI)
  next
    case False
    then have "uncom = []" using b i by auto
    then have "hub_rows ctx old sent (rest @ [row]) [] (hub_record (map_row ctx row) ?h)"
      unfolding hub_rows_def hub_record_def using False b i a(2-4) pend only dist by simp
    with base' show ?thesis by (rule hub_invI)
  qed
qed

lemma hub_inv_append [hrc_keep]: "hub_inv ctx old h \<Longrightarrow> hub_inv ctx old (hub_append ctx event h)"
proof -
  assume inv: "hub_inv ctx old h"
  obtain row l where app: "append_persisted event (ah_current h) = (row, l)" by (rule prod.exhaust)
  let ?h = "hub_record (map_row ctx row)
    (h\<lparr>ah_current := l, ah_committed := (if ah_in_tx h then ah_committed h else l)\<rparr>)"
  have "hub_append ctx event h = hub_flush ?h" by (simp add: hub_append_def app Let_def)
  moreover have "hub_inv ctx old (hub_flush ?h)"
    using hub_inv_flush(1) [OF hub_inv_record [OF inv app]] hub_inv_record [OF inv app]
    by (cases "ah_in_tx ?h") (auto simp: hub_flush_def)
  ultimately show ?thesis by simp
qed

lemma hub_inv_exec: "hub_inv ctx old h \<Longrightarrow> hub_inv ctx old (hub_exec ctx lab h)"
proof (cases lab)
  case (Hub_append event)
  moreover assume "hub_inv ctx old h"
  ultimately show ?thesis by (simp add: hub_inv_append)
next
  case Hub_begin
  moreover assume "hub_inv ctx old h"
  then obtain sent rest uncom where i: "hub_base h" "hub_rows ctx old sent rest uncom h" by (rule hub_invE)
  have "hub_base (h\<lparr>ah_in_tx := True\<rparr>)" using i(1) by (simp add: hub_base_def)
  moreover have "hub_rows ctx old sent rest uncom (h\<lparr>ah_in_tx := True\<rparr>)" using i(2) by (simp add: hub_rows_def)
  ultimately show ?thesis using i by (auto intro: hub_invI)
next
  case Hub_commit
  moreover assume "hub_inv ctx old h"
  then obtain sent rest uncom where i: "hub_base h" "hub_rows ctx old sent rest uncom h" by (rule hub_invE)
  have "hub_base (h\<lparr>ah_in_tx := False, ah_committed := ah_current h\<rparr>)" using i(1) by (simp add: hub_base_def)
  moreover have "hub_rows ctx old sent (rest @ uncom) [] (h\<lparr>ah_in_tx := False, ah_committed := ah_current h\<rparr>)"
    using i(2) by (simp add: hub_rows_def)
  ultimately show ?thesis by (auto intro: hub_invI)
next
  case Hub_rollback
  moreover assume "hub_inv ctx old h"
  then obtain sent rest uncom where i: "hub_base h" "hub_rows ctx old sent rest uncom h" by (rule hub_invE)
  let ?h = "h\<lparr>ah_in_tx := False, ah_current := ah_committed h\<rparr>"
  have "\<forall>(s, ev) \<in> set (ah_pending h). s = le_hrcSeq ev \<and>
       (s \<le> lg_allocated (ah_committed h) \<longrightarrow> (\<exists>r \<in> set rest. s = hr_hrc_seq r \<and> ev = map_row ctx r))"
    using i by (fastforce simp: hub_rows_def hub_base_def)
  then have "hub_rows ctx old sent rest [] ?h" using i(2) by (simp add: hub_rows_def)
  moreover have "hub_base ?h" using i(1) by (simp add: hub_base_def)
  ultimately show ?thesis by (auto intro: hub_invI)
next
  case Hub_task
  moreover assume inv: "hub_inv ctx old h"
  moreover have "hub_inv ctx old (h\<lparr>ah_scheduled := False\<rparr>)"
    using inv unfolding hub_inv_def hub_base_def hub_rows_def by simp
  ultimately show ?thesis using hub_inv_flush(1) by (auto simp: flush_when_committed_def)
qed

lemma hub_inv_run: "hub_inv ctx old h \<Longrightarrow> hub_inv ctx old (hub_run ctx labs h)"
  unfolding hub_run_def by (induction labs arbitrary: h) (simp_all add: hub_inv_exec)

lemma hub_inv_start: "ledger_wf l \<Longrightarrow> hub_inv ctx (lg_rows l) (hub_observe (new_hub l))"
  by (rule hub_invI [where sent = "[]" and rest = "[]" and uncom = "[]"])
     (simp_all add: hub_base_def hub_rows_def hub_observe_def new_hub_def)

section \<open>Properties\<close>

text \<open>
  C12. A follower sees exactly what was committed: from subscription on, under any interleaving of
  appends, nested and committed or rolled-back transactions and flush tasks, the announced events
  are those of the first rows committed since, each once and in ledger order; a rolled-back row is
  never announced; and once no transaction is open, one flush task leaves nothing unannounced.
\<close>

theorem followers_see_exactly_the_commits:
  assumes "ledger_wf l" and "h = hub_run ctx labs (hub_observe (new_hub l))"
  shows "(\<exists>sent rest. lg_rows (ah_committed h) = lg_rows l @ sent @ rest \<and>
            ah_announced h = map (map_row ctx) sent) \<and>
    (\<not> ah_in_tx h \<longrightarrow> ah_announced (hub_flush h) =
       map (map_row ctx) (drop (length (lg_rows l)) (lg_rows (ah_committed h))))"
proof -
  have inv: "hub_inv ctx (lg_rows l) h"
    using hub_inv_run [OF hub_inv_start [OF assms(1)]] assms(2) by blast
  then have "\<exists>sent rest. lg_rows (ah_committed h) = lg_rows l @ sent @ rest \<and>
            ah_announced h = map (map_row ctx) sent" unfolding hub_inv_def hub_rows_def by blast
  with hub_inv_flush(2) [OF inv] show ?thesis by blast
qed

definition rollback_labels :: "hub_label list" where
  "rollback_labels = [Hub_append (sample_row 0), Hub_begin, Hub_append (sample_row 0), Hub_rollback,
     Hub_task, Hub_begin, Hub_append (sample_row 0), Hub_append (sample_row 0), Hub_commit]"

lemma rollback_closed:
  "\<not> ah_in_tx (hub_run plain_context rollback_labels (hub_observe (new_hub sample_ledger)))"
  by code_simp

lemma rollback_announced:
  "map le_hrcSeq (ah_announced (hub_run plain_context rollback_labels (hub_observe (new_hub sample_ledger)))) = [6]"
  by code_simp

lemma rollback_committed:
  "map hr_hrc_seq (drop (length (lg_rows sample_ledger))
     (lg_rows (ah_committed (hub_run plain_context rollback_labels (hub_observe (new_hub sample_ledger)))))) = [6, 7, 8]"
  by code_simp

lemmas rollback_run = rollback_closed rollback_announced rollback_committed

theorem followers_see_exactly_the_commits_witness:
  "\<exists>h. h = hub_run plain_context rollback_labels (hub_observe (new_hub sample_ledger)) \<and>
     map le_hrcSeq (ah_announced h) = [6] \<and> map le_hrcSeq (ah_announced (hub_flush h)) = [6, 7, 8]"
proof -
  let ?h = "hub_run plain_context rollback_labels (hub_observe (new_hub sample_ledger))"
  note h = rollback_run
  note all = followers_see_exactly_the_commits [OF sample_ledger_wf refl, of plain_context rollback_labels]
  have "ah_announced (hub_flush ?h) = map (map_row plain_context)
      (drop (length (lg_rows sample_ledger)) (lg_rows (ah_committed ?h)))"
    by (rule mp [OF conjunct2 [OF all] h(1)])
  then have "map le_hrcSeq (ah_announced (hub_flush ?h)) = [6, 7, 8]" using h(3) by (simp add: comp_def)
  with h(2) show ?thesis by (intro exI [of _ ?h] conjI refl)
qed

end
