(* ===== verification/Store_Tables.thy ===== *)
theory Store_Tables
  imports HRC_Prelude "HOL-Library.Option_ord"
begin

text \<open>
  The tables of the SQLite store that the run and turn components read and write, as row lists in
  rowid order (hrc-store-sqlite/src/repositories/rows.ts and the migrations): runs, runtimes,
  runtime operations, broker invocations and broker invocation events. Columns that no modelled
  statement reads are left out of the last four. A \<open>run_row\<close> stands for the table row and for the
  \<open>HrcRunRecord\<close> read from it: their fields correspond one to one, and \<open>NULL\<close> and
  \<open>undefined\<close> are both \<open>None\<close>.
\<close>

section \<open>Run statuses\<close>

datatype run_status =
    RAccepted | RStarted | RRunning | RCompleted | RFailed | RCancelled | RInterrupted | RDegraded
  | RZombie | RQueued | RAwaitingPermission | RCoalesced | RReaped | RExited

fun show_run_status :: "run_status \<Rightarrow> string" where
  "show_run_status RAccepted = ''accepted''"
| "show_run_status RStarted = ''started''"
| "show_run_status RRunning = ''running''"
| "show_run_status RCompleted = ''completed''"
| "show_run_status RFailed = ''failed''"
| "show_run_status RCancelled = ''cancelled''"
| "show_run_status RInterrupted = ''interrupted''"
| "show_run_status RDegraded = ''degraded''"
| "show_run_status RZombie = ''zombie''"
| "show_run_status RQueued = ''queued''"
| "show_run_status RAwaitingPermission = ''awaiting_permission''"
| "show_run_status RCoalesced = ''coalesced''"
| "show_run_status RReaped = ''reaped''"
| "show_run_status RExited = ''exited''"

definition all_run_statuses :: "run_status list" where
  "all_run_statuses = [RAccepted, RStarted, RRunning, RCompleted, RFailed, RCancelled, RInterrupted,
     RDegraded, RZombie, RQueued, RAwaitingPermission, RCoalesced, RReaped, RExited]"

text \<open>\<open>parseHrcRunStatus\<close>: the status whose literal the value is, or a thrown error.\<close>

definition parse_run_status :: "string \<Rightarrow> run_status result" where
  "parse_run_status v =
     (case List.find (\<lambda>s. show_run_status s = v) all_run_statuses of
        Some s \<Rightarrow> Inr s
      | None \<Rightarrow> Inl (plain_error (''Invalid stored run status: '' @ v)))"

fun is_run_terminal :: "run_status \<Rightarrow> bool" where
  "is_run_terminal RCompleted = True"
| "is_run_terminal RFailed = True"
| "is_run_terminal RCancelled = True"
| "is_run_terminal RInterrupted = True"
| "is_run_terminal RDegraded = True"
| "is_run_terminal RZombie = True"
| "is_run_terminal RReaped = True"
| "is_run_terminal RCoalesced = True"
| "is_run_terminal RExited = True"
| "is_run_terminal _ = False"

lemma parse_show_run_status: "parse_run_status (show_run_status s) = Inr s"
  by (cases s) (simp_all add: parse_run_status_def all_run_statuses_def)

section \<open>Rows\<close>

record run_row =
  r_run_id :: string
  r_host_session_id :: string
  r_runtime_id :: "string option"
  r_scope_ref :: string
  r_lane_ref :: string
  r_generation :: int
  r_transport :: string
  r_status :: run_status
  r_accepted_at :: "string option"
  r_started_at :: "string option"
  r_completed_at :: "string option"
  r_updated_at :: string
  r_error_code :: "string option"
  r_error_message :: "string option"
  r_execution_format :: "string option"
  r_turn_key :: "string option"
  r_native_turn_id :: "string option"
  r_native_harness_generation :: "int option"
  r_native_turn_attempt :: "int option"
  r_initiating_input_id :: "string option"
  r_ownership_conflict_json :: "string option"
  r_observation_state :: "string option"
  r_observed_start_hrc_seq :: "int option"
  r_operation_id :: "string option"
  r_invocation_id :: "string option"
  r_dispatched_input_id :: "string option"
  r_broker_submission_id :: "string option"
  r_broker_input_fenced_at :: "string option"
  r_broker_input_fence_reason :: "string option"
  r_dispatch_idempotency_key :: "string option"
  r_queue_snapshot_id :: "string option"
  r_queued_input_seq :: "int option"
  r_queue_snapshot_position :: "int option"
  r_coalesced_into_run_id :: "string option"
  r_coalesced_position :: "int option"
  r_origin_actor :: "string option"
  r_origin_kind :: "string option"
  r_origin_causation_ref :: "string option"
  r_correlation_json :: "json_text option"

text \<open>
  A \<open>RunUpdatePatch\<close>: \<open>None\<close> is a field the caller left \<open>undefined\<close>. The three columns that a
  patch may set to \<open>NULL\<close> carry a nested option.
\<close>

record run_patch =
  p_host_session_id :: "string option"
  p_runtime_id :: "string option"
  p_scope_ref :: "string option"
  p_lane_ref :: "string option"
  p_generation :: "int option"
  p_transport :: "string option"
  p_status :: "run_status option"
  p_accepted_at :: "string option"
  p_started_at :: "string option"
  p_completed_at :: "string option option"
  p_updated_at :: "string option"
  p_error_code :: "string option option"
  p_error_message :: "string option option"
  p_execution_format :: "string option"
  p_turn_key :: "string option"
  p_native_turn_id :: "string option"
  p_native_harness_generation :: "int option"
  p_native_turn_attempt :: "int option"
  p_initiating_input_id :: "string option"
  p_ownership_conflict_json :: "string option"
  p_observation_state :: "string option"
  p_observed_start_hrc_seq :: "int option"
  p_operation_id :: "string option"
  p_invocation_id :: "string option"
  p_dispatched_input_id :: "string option"
  p_broker_submission_id :: "string option"
  p_broker_input_fenced_at :: "string option"
  p_broker_input_fence_reason :: "string option"
  p_dispatch_idempotency_key :: "string option"
  p_queue_snapshot_id :: "string option"
  p_queued_input_seq :: "int option"
  p_queue_snapshot_position :: "int option"
  p_coalesced_into_run_id :: "string option"
  p_coalesced_position :: "int option"
  p_origin_actor :: "string option"
  p_origin_kind :: "string option"
  p_origin_causation_ref :: "string option"

definition no_patch :: run_patch where
  "no_patch = \<lparr>p_host_session_id = None, p_runtime_id = None, p_scope_ref = None, p_lane_ref = None,
     p_generation = None, p_transport = None, p_status = None, p_accepted_at = None,
     p_started_at = None, p_completed_at = None, p_updated_at = None, p_error_code = None,
     p_error_message = None, p_execution_format = None, p_turn_key = None,
     p_native_turn_id = None, p_native_harness_generation = None, p_native_turn_attempt = None,
     p_initiating_input_id = None, p_ownership_conflict_json = None, p_observation_state = None,
     p_observed_start_hrc_seq = None, p_operation_id = None, p_invocation_id = None,
     p_dispatched_input_id = None, p_broker_submission_id = None,
     p_broker_input_fenced_at = None, p_broker_input_fence_reason = None,
     p_dispatch_idempotency_key = None, p_queue_snapshot_id = None, p_queued_input_seq = None,
     p_queue_snapshot_position = None, p_coalesced_into_run_id = None,
     p_coalesced_position = None, p_origin_actor = None, p_origin_kind = None,
     p_origin_causation_ref = None\<rparr>"

text \<open>
  \<open>collectPatchEntries\<close> over \<open>RUN_UPDATE_SPEC\<close> and the \<open>SET\<close> clause built from its entries:
  every field that is not \<open>undefined\<close> is assigned, the others keep their value.
\<close>

definition apply_patch :: "run_patch \<Rightarrow> run_row \<Rightarrow> run_row" where
  "apply_patch p r = r\<lparr>r_host_session_id :=
       or_default (p_host_session_id p) (r_host_session_id r),
     r_runtime_id := orelse (p_runtime_id p) (r_runtime_id r),
     r_scope_ref := or_default (p_scope_ref p) (r_scope_ref r),
     r_lane_ref := or_default (p_lane_ref p) (r_lane_ref r),
     r_generation := or_default (p_generation p) (r_generation r),
     r_transport := or_default (p_transport p) (r_transport r),
     r_status := or_default (p_status p) (r_status r),
     r_accepted_at := orelse (p_accepted_at p) (r_accepted_at r),
     r_started_at := orelse (p_started_at p) (r_started_at r),
     r_completed_at := or_default (p_completed_at p) (r_completed_at r),
     r_updated_at := or_default (p_updated_at p) (r_updated_at r),
     r_error_code := or_default (p_error_code p) (r_error_code r),
     r_error_message := or_default (p_error_message p) (r_error_message r),
     r_execution_format := orelse (p_execution_format p) (r_execution_format r),
     r_turn_key := orelse (p_turn_key p) (r_turn_key r),
     r_native_turn_id := orelse (p_native_turn_id p) (r_native_turn_id r),
     r_native_harness_generation :=
       orelse (p_native_harness_generation p) (r_native_harness_generation r),
     r_native_turn_attempt := orelse (p_native_turn_attempt p) (r_native_turn_attempt r),
     r_initiating_input_id := orelse (p_initiating_input_id p) (r_initiating_input_id r),
     r_ownership_conflict_json :=
       orelse (p_ownership_conflict_json p) (r_ownership_conflict_json r),
     r_observation_state := orelse (p_observation_state p) (r_observation_state r),
     r_observed_start_hrc_seq := orelse (p_observed_start_hrc_seq p) (r_observed_start_hrc_seq r),
     r_operation_id := orelse (p_operation_id p) (r_operation_id r),
     r_invocation_id := orelse (p_invocation_id p) (r_invocation_id r),
     r_dispatched_input_id := orelse (p_dispatched_input_id p) (r_dispatched_input_id r),
     r_broker_submission_id := orelse (p_broker_submission_id p) (r_broker_submission_id r),
     r_broker_input_fenced_at := orelse (p_broker_input_fenced_at p) (r_broker_input_fenced_at r),
     r_broker_input_fence_reason :=
       orelse (p_broker_input_fence_reason p) (r_broker_input_fence_reason r),
     r_dispatch_idempotency_key :=
       orelse (p_dispatch_idempotency_key p) (r_dispatch_idempotency_key r),
     r_queue_snapshot_id := orelse (p_queue_snapshot_id p) (r_queue_snapshot_id r),
     r_queued_input_seq := orelse (p_queued_input_seq p) (r_queued_input_seq r),
     r_queue_snapshot_position :=
       orelse (p_queue_snapshot_position p) (r_queue_snapshot_position r),
     r_coalesced_into_run_id := orelse (p_coalesced_into_run_id p) (r_coalesced_into_run_id r),
     r_coalesced_position := orelse (p_coalesced_position p) (r_coalesced_position r),
     r_origin_actor := orelse (p_origin_actor p) (r_origin_actor r),
     r_origin_kind := orelse (p_origin_kind p) (r_origin_kind r),
     r_origin_causation_ref :=
       orelse (p_origin_causation_ref p) (r_origin_causation_ref r)\<rparr>"

record runtime_row =
  rt_runtime_id :: string
  rt_status :: string
  rt_active_run_id :: "string option"
  rt_last_activity_at :: "string option"
  rt_updated_at :: string

record operation_row =
  op_operation_id :: string
  op_runtime_id :: string
  op_generation :: int

record invocation_row =
  inv_invocation_id :: string
  inv_operation_id :: string
  inv_runtime_id :: string
  inv_state :: string

record broker_event_row =
  be_invocation_id :: string
  be_seq :: int
  be_time :: string
  be_type :: string
  be_run_id :: "string option"
  be_runtime_id :: string
  be_harness_generation :: "int option"
  be_turn_attempt :: "int option"
  be_event_json :: json_text
  be_envelope_json :: "json_text option"

record hrc_db =
  db_sessions :: "string list"
  db_runtimes :: "runtime_row list"
  db_runs :: "run_row list"
  db_operations :: "operation_row list"
  db_invocations :: "invocation_row list"
  db_broker_events :: "broker_event_row list"

definition empty_db :: hrc_db where
  "empty_db = \<lparr>db_sessions = [], db_runtimes = [], db_runs = [], db_operations = [],
     db_invocations = [], db_broker_events = []\<rparr>"

section \<open>Constraints of the runs table\<close>

text \<open>
  The partial unique indexes and the foreign keys that the migrations declare on \<open>runs\<close>.
\<close>

definition unique_when :: "(run_row \<Rightarrow> 'k option) \<Rightarrow> run_row list \<Rightarrow> bool" where
  "unique_when f rows = distinct (filter (\<lambda>k. k \<noteq> None) (map f rows))"

definition dispatch_key :: "run_row \<Rightarrow> (string \<times> string) option" where
  "dispatch_key r = map_option (Pair (r_host_session_id r)) (r_dispatch_idempotency_key r)"

definition foreign_keys_hold :: "hrc_db \<Rightarrow> run_row \<Rightarrow> bool" where
  "foreign_keys_hold db r = (r_host_session_id r \<in> set (db_sessions db) \<and>
     (case r_runtime_id r of None \<Rightarrow> True | Some t \<Rightarrow> t \<in> rt_runtime_id ` set (db_runtimes db)))"

definition runs_constraints :: "hrc_db \<Rightarrow> run_row list \<Rightarrow> bool" where
  "runs_constraints db rows = (distinct (map r_run_id rows)
     \<and> unique_when r_queued_input_seq rows
     \<and> unique_when dispatch_key rows
     \<and> unique_when r_broker_submission_id rows
     \<and> unique_when r_turn_key rows
     \<and> list_all (foreign_keys_hold db) rows)"

text \<open>
  A statement that would leave the table against a constraint throws and changes nothing;
  otherwise the new rows are the table.
\<close>

definition write_runs :: "run_row list \<Rightarrow> hrc_db \<Rightarrow> hrc_db result" where
  "write_runs rows db = (if runs_constraints db rows then Inr (db\<lparr>db_runs := rows\<rparr>)
     else Inl (plain_error ''constraint failed''))"

lemma write_runs_Inr_iff:
  "write_runs rows db = Inr db' \<longleftrightarrow> runs_constraints db rows \<and> db' = db\<lparr>db_runs := rows\<rparr>"
  by (auto simp: write_runs_def)

lemma write_runs_Inl_iff: "write_runs rows db = Inl e \<longleftrightarrow>
  \<not> runs_constraints db rows \<and> e = plain_error ''constraint failed''"
  by (auto simp: write_runs_def)

lemma foreign_keys_other [simp]: "foreign_keys_hold (db\<lparr>db_runs := x\<rparr>) = foreign_keys_hold db"
  by (rule ext) (simp add: foreign_keys_hold_def split: option.split)

lemma runs_constraints_other [simp]:
  "runs_constraints (db\<lparr>db_runs := x\<rparr>) rows = runs_constraints db rows"
  by (simp add: runs_constraints_def)

lemma runs_constraints_distinct: "runs_constraints db rows \<Longrightarrow> distinct (map r_run_id rows)"
  by (simp add: runs_constraints_def)

end
