(* ===== verification/Run_Ownership.thy ===== *)
theory Run_Ownership
  imports Store_Tables
begin

text \<open>
  Ownership of run ids (hrc-store-sqlite/src/repositories/runtime-run-id-ownership.ts): the
  reservation map, the guards that every writer of a run-id handle passes, and the binding of the
  reserved tuple. The daemon's token reader is code outside the store: its answer at a call is the
  argument \<open>tok\<close> of the guard.
\<close>

section \<open>State and errors\<close>

record run_reservation =
  res_token :: string
  res_host_session :: string
  res_generation :: int
  res_runtime :: "string option"
  res_operation :: "string option"

type_synonym reservations = "string \<Rightarrow> run_reservation option"

record run_writer =
  w_runtime :: "string option"
  w_operation :: "string option"
  w_host_session :: string
  w_generation :: int

definition run_id_reserved_error :: "string \<Rightarrow> js_error" where
  "run_id_reserved_error runId = domain_error ''run_mismatch''
     (''run id \"'' @ runId @ ''\" is reserved by another app session birth'')
     [(''reason'', JStr ''run-id-reserved''), (''runId'', JStr runId)]"

definition run_id_ownership_error :: "string \<Rightarrow> string \<Rightarrow> js_error" where
  "run_id_ownership_error runId refusal = domain_error ''run_mismatch''
     (''run id \"'' @ runId @ ''\" is not owned by this writer'')
     [(''reason'', JStr ''run-id-not-owned''), (''runId'', JStr runId),
      (''refusal'', JStr refusal)]"

definition refusal_error :: "string \<Rightarrow> string \<Rightarrow> js_error" where
  "refusal_error runId refusal = (if refusal = ''no-token'' then run_id_reserved_error runId
     else run_id_ownership_error runId refusal)"

section \<open>Lookups\<close>

definition run_row_of :: "hrc_db \<Rightarrow> string \<Rightarrow> run_row option" where
  "run_row_of db runId = row_get r_run_id (db_runs db) runId"

definition handle_exists :: "hrc_db \<Rightarrow> string \<Rightarrow> bool" where
  "handle_exists db runId = (runId \<in> r_run_id ` set (db_runs db)
     \<or> Some runId \<in> rt_active_run_id ` set (db_runtimes db))"

definition is_named :: "hrc_db \<Rightarrow> reservations \<Rightarrow> string \<Rightarrow> bool" where
  "is_named db rv runId = (rv runId \<noteq> None \<or> handle_exists db runId)"

definition reservation_for :: "reservations \<Rightarrow> string \<Rightarrow> string option" where
  "reservation_for rv runId = map_option res_token (rv runId)"

definition app_scope :: "string \<Rightarrow> bool" where
  "app_scope s = (take 4 s = ''app:'')"

section \<open>Reserving and releasing\<close>

datatype reservation_outcome = Reserved | Exists | ReservedByOther

definition reserve_run_id ::
  "hrc_db \<Rightarrow> string \<Rightarrow> string \<Rightarrow> string \<Rightarrow> int \<Rightarrow> reservations \<Rightarrow> reservations \<times> reservation_outcome" where
  "reserve_run_id db runId token hostSession generation rv =
     (case rv runId of
        Some held \<Rightarrow> (rv, if res_token held = token then Reserved else ReservedByOther)
      | None \<Rightarrow>
          if handle_exists db runId then (rv, Exists)
          else (rv(runId := Some \<lparr>res_token = token, res_host_session = hostSession,
                  res_generation = generation, res_runtime = None, res_operation = None\<rparr>),
                Reserved))"

definition release_run_id :: "string \<Rightarrow> string \<Rightarrow> reservations \<Rightarrow> reservations" where
  "release_run_id runId token rv =
     (if map_option res_token (rv runId) = Some token then rv(runId := None) else rv)"

section \<open>Guards\<close>

definition token_refusal :: "run_reservation \<Rightarrow> run_writer \<Rightarrow> string option \<Rightarrow> string option" where
  "token_refusal res w tok =
     (if tok \<noteq> Some (res_token res) then Some ''no-token''
      else if w_host_session w \<noteq> res_host_session res then Some ''host-session-mismatch''
      else if w_generation w \<noteq> res_generation res then Some ''generation-mismatch''
      else if res_runtime res \<noteq> None \<and> w_runtime w \<noteq> res_runtime res
        then Some ''runtime-mismatch''
      else if res_operation res \<noteq> None \<and> w_operation w \<noteq> None
            \<and> w_operation w \<noteq> res_operation res then Some ''operation-mismatch''
      else None)"

text \<open>\<open>#bind\<close> fills the open columns of the reservation.\<close>

definition bind_reservation :: "run_writer \<Rightarrow> run_reservation \<Rightarrow> run_reservation" where
  "bind_reservation w res = res\<lparr>res_runtime := orelse (res_runtime res) (w_runtime w),
     res_operation := orelse (res_operation res) (w_operation w)\<rparr>"

definition bind_run :: "string \<Rightarrow> run_writer \<Rightarrow> reservations \<Rightarrow> reservations" where
  "bind_run runId w rv = rv(runId := map_option (bind_reservation w) (rv runId))"

definition assert_can_create_run ::
  "string \<Rightarrow> run_writer \<Rightarrow> string option \<Rightarrow> reservations \<Rightarrow> reservations result" where
  "assert_can_create_run runId w tok rv =
     (case rv runId of
        None \<Rightarrow> Inr rv
      | Some res \<Rightarrow>
          (case token_refusal res w tok of
             Some refusal \<Rightarrow> Inl (refusal_error runId refusal)
           | None \<Rightarrow> Inr (bind_run runId w rv)))"

definition handle_refusal ::
  "hrc_db \<Rightarrow> string \<Rightarrow> run_writer \<Rightarrow> string option \<Rightarrow> reservations \<Rightarrow> string option \<times> reservations" where
  "handle_refusal db runId w tok rv =
     (let res = rv runId; row = run_row_of db runId in
      if res = None \<and> (case row of None \<Rightarrow> True | Some r \<Rightarrow> \<not> app_scope (r_scope_ref r))
      then (None, rv)
      else if (case row of None \<Rightarrow> True | Some r \<Rightarrow> r_runtime_id r = None) then
        (case res of
           None \<Rightarrow> (Some ''unbound-without-reservation'', rv)
         | Some r \<Rightarrow>
             (case token_refusal r w tok of
                Some refusal \<Rightarrow> (Some refusal, rv)
              | None \<Rightarrow> (None, bind_run runId w rv)))
      else
        (let r = the row in
         if w_runtime w \<noteq> r_runtime_id r then (Some ''runtime-mismatch'', rv)
         else if w_host_session w \<noteq> r_host_session_id r then (Some ''host-session-mismatch'', rv)
         else if w_generation w \<noteq> r_generation r then (Some ''generation-mismatch'', rv)
         else if r_operation_id r \<noteq> None \<and> w_operation w \<noteq> r_operation_id r
           then (Some ''operation-mismatch'', rv)
         else (None, rv)))"

definition assert_can_name_active_run ::
  "hrc_db \<Rightarrow> string option \<Rightarrow> run_writer \<Rightarrow> string option \<Rightarrow> reservations \<Rightarrow> reservations result" where
  "assert_can_name_active_run db runId w tok rv =
     (case runId of
        None \<Rightarrow> Inr rv
      | Some k \<Rightarrow>
          (case handle_refusal db k w tok rv of
             (Some refusal, rv') \<Rightarrow> Inl (refusal_error k refusal)
           | (None, rv') \<Rightarrow> Inr rv'))"

definition may_name_active_run ::
  "hrc_db \<Rightarrow> string \<Rightarrow> run_writer \<Rightarrow> reservations \<Rightarrow> bool" where
  "may_name_active_run db runId w rv = (fst (handle_refusal db runId w None rv) = None)"

record binding_patch =
  bp_runtime :: "string option"
  bp_operation :: "string option"
  bp_host_session :: "string option"
  bp_generation :: "int option"

definition assert_run_binding_update ::
  "hrc_db \<Rightarrow> string \<Rightarrow> binding_patch \<Rightarrow> string option \<Rightarrow> reservations \<Rightarrow> reservations result" where
  "assert_run_binding_update db runId p tok rv =
     (if bp_runtime p = None \<and> bp_operation p = None \<and> bp_host_session p = None
        \<and> bp_generation p = None then Inr rv
      else (case run_row_of db runId of
        None \<Rightarrow> Inr rv
      | Some r \<Rightarrow>
          if rv runId = None \<and> \<not> app_scope (r_scope_ref r) then Inr rv
          else if bp_host_session p \<noteq> None \<and> bp_host_session p \<noteq> Some (r_host_session_id r)
            then Inl (run_id_ownership_error runId ''host-session-immutable'')
          else if bp_generation p \<noteq> None \<and> bp_generation p \<noteq> Some (r_generation r)
            then Inl (run_id_ownership_error runId ''generation-immutable'')
          else if bp_operation p \<noteq> None \<and> r_operation_id r \<noteq> None
                \<and> bp_operation p \<noteq> r_operation_id r
            then Inl (run_id_ownership_error runId ''operation-immutable'')
          else if bp_runtime p \<noteq> None \<and> r_runtime_id r \<noteq> None \<and> bp_runtime p \<noteq> r_runtime_id r
            then Inl (run_id_ownership_error runId ''runtime-immutable'')
          else if \<not> (bp_runtime p \<noteq> None \<and> r_runtime_id r = None)
                \<and> \<not> (bp_operation p \<noteq> None \<and> r_operation_id r = None) then Inr rv
          else (case rv runId of
             None \<Rightarrow> Inl (run_id_ownership_error runId ''unbound-without-reservation'')
           | Some res \<Rightarrow>
               (let w = \<lparr>w_runtime = orelse (bp_runtime p) (r_runtime_id r),
                         w_operation = orelse (bp_operation p) (r_operation_id r),
                         w_host_session = r_host_session_id r,
                         w_generation = r_generation r\<rparr> in
                case token_refusal res w tok of
                  Some refusal \<Rightarrow> Inl (refusal_error runId refusal)
                | None \<Rightarrow> Inr (bind_run runId w rv)))))"

section \<open>Facts about the guards\<close>

lemma bind_run_other [simp]: "k \<noteq> runId \<Longrightarrow> bind_run runId w rv k = rv k"
  by (simp add: bind_run_def)

lemma bind_run_same [simp]: "bind_run runId w rv runId = map_option (bind_reservation w) (rv runId)"
  by (simp add: bind_run_def)

lemma bind_reservation_frame [simp]:
  "res_token (bind_reservation w res) = res_token res"
  "res_host_session (bind_reservation w res) = res_host_session res"
  "res_generation (bind_reservation w res) = res_generation res"
  "res_runtime (bind_reservation w res) = orelse (res_runtime res) (w_runtime w)"
  "res_operation (bind_reservation w res) = orelse (res_operation res) (w_operation w)"
  by (simp_all add: bind_reservation_def)

lemma token_refusal_None_iff: "token_refusal res w tok = None \<longleftrightarrow>
    tok = Some (res_token res) \<and> w_host_session w = res_host_session res
    \<and> w_generation w = res_generation res
    \<and> (res_runtime res = None \<or> w_runtime w = res_runtime res)
    \<and> (res_operation res = None \<or> w_operation w = None \<or> w_operation w = res_operation res)"
  by (auto simp: token_refusal_def)

lemma token_refusal_no_token: "tok \<noteq> Some (res_token res) \<Longrightarrow> token_refusal res w tok = Some ''no-token''"
  by (simp add: token_refusal_def)

text \<open>A guard that lets a write pass either leaves the reservations alone or binds one.\<close>

lemma can_create_cases:
  assumes "assert_can_create_run runId w tok rv = Inr rv'"
  shows "(rv runId = None \<and> rv' = rv)
    \<or> (\<exists>res. rv runId = Some res \<and> token_refusal res w tok = None \<and> rv' = bind_run runId w rv)"
  using assms by (auto simp: assert_can_create_run_def split: option.splits)

lemma binding_update_other:
  assumes "assert_run_binding_update db runId p tok rv = Inr rv'" "k \<noteq> runId"
  shows "rv' k = rv k"
  using assms by (auto simp: assert_run_binding_update_def Let_def split: if_splits option.splits)

lemma can_create_other:
  assumes "assert_can_create_run runId w tok rv = Inr rv'" "k \<noteq> runId"
  shows "rv' k = rv k"
  using can_create_cases [OF assms(1)] assms(2) by auto

text \<open>The projection predicate never binds: an absent token matches no reservation.\<close>

lemma may_name_binds_nothing: "snd (handle_refusal db runId w None rv) = rv"
  by (auto simp: handle_refusal_def token_refusal_def Let_def split: option.splits)

end
