(* ===== verification/Run_Store.thy ===== *)
theory Run_Store
  imports Run_Ownership
begin

text \<open>
  The run repository (hrc-store-sqlite/src/repositories/runtime-repositories.ts): inserting,
  reading, patching and settling rows of the runs table, the claim and coalescing of queued inputs
  and the durable drain snapshot. A statement is a rewriting of the row list that the table's
  constraints accept or refuse; an operation returns the store it leaves behind together with its
  value or the error it throws, so the binding a refused \<open>INSERT\<close> leaves in the reservation map is
  visible.
\<close>

record run_store =
  rs_db :: hrc_db
  rs_reserved :: reservations

type_synonym 'a run_outcome = "run_store \<times> 'a result"

section \<open>Reading\<close>

text \<open>\<open>mapRunRow\<close>: only \<open>format2\<close> and the three known origin kinds are surfaced.\<close>

definition map_run_row :: "run_row \<Rightarrow> run_row" where
  "map_run_row r = r\<lparr>
     r_execution_format := (if r_execution_format r = Some ''format2'' then Some ''format2'' else None),
     r_origin_kind := (if r_origin_kind r \<in> {Some ''human'', Some ''agent'', Some ''system''}
       then r_origin_kind r else None)\<rparr>"

definition get_by_run_id :: "hrc_db \<Rightarrow> string \<Rightarrow> run_row option" where
  "get_by_run_id db runId = map_option map_run_row (run_row_of db runId)"

definition get_correlation_json :: "hrc_db \<Rightarrow> string \<Rightarrow> json_text option" where
  "get_correlation_json db runId = Option.bind (run_row_of db runId) r_correlation_json"

definition first_run :: "(run_row \<Rightarrow> bool) \<Rightarrow> hrc_db \<Rightarrow> run_row option" where
  "first_run p db = map_option map_run_row (List.find p (db_runs db))"

definition get_by_dispatch_idempotency_key :: "hrc_db \<Rightarrow> string \<Rightarrow> string \<Rightarrow> run_row option" where
  "get_by_dispatch_idempotency_key db h k =
     first_run (\<lambda>r. r_host_session_id r = h \<and> r_dispatch_idempotency_key r = Some k) db"

definition get_by_dispatched_input_id :: "hrc_db \<Rightarrow> string \<Rightarrow> run_row option" where
  "get_by_dispatched_input_id db i = first_run (\<lambda>r. r_dispatched_input_id r = Some i) db"

definition get_by_broker_submission_id :: "hrc_db \<Rightarrow> string \<Rightarrow> run_row option" where
  "get_by_broker_submission_id db i = first_run (\<lambda>r. r_broker_submission_id r = Some i) db"

definition get_by_turn_key :: "hrc_db \<Rightarrow> string \<Rightarrow> run_row option" where
  "get_by_turn_key db k = first_run (\<lambda>r. r_turn_key r = Some k) db"

definition list_by_runtime_id :: "hrc_db \<Rightarrow> string \<Rightarrow> run_row list" where
  "list_by_runtime_id db t = map map_run_row
     (sort_key (\<lambda>r. (r_accepted_at r, r_run_id r))
        (filter (\<lambda>r. r_runtime_id r = Some t) (db_runs db)))"

definition list_correlated_by_invocation_id :: "hrc_db \<Rightarrow> string \<Rightarrow> run_row list" where
  "list_correlated_by_invocation_id db i = map map_run_row
     (sort_key (\<lambda>r. (r_accepted_at r, r_run_id r))
        (filter (\<lambda>r. r_invocation_id r = Some i \<and> r_correlation_json r \<noteq> None) (db_runs db)))"

definition queued_for :: "string \<Rightarrow> run_row \<Rightarrow> bool" where
  "queued_for h r = (r_host_session_id r = h \<and> r_status r = RQueued)"

definition list_queued_by_host_session_id :: "hrc_db \<Rightarrow> string \<Rightarrow> run_row list" where
  "list_queued_by_host_session_id db h =
     map map_run_row (sort_key r_queued_input_seq (filter (queued_for h) (db_runs db)))"

record run_filters =
  f_run_id :: "string option"
  f_host_session_id :: "string option"
  f_generation :: "int option"
  f_runtime_id :: "string option"
  f_scope_ref :: "string option"
  f_lane_ref :: "string option"
  f_status :: "string list option"
  f_limit :: "int option"

definition no_run_filters :: run_filters where
  "no_run_filters = \<lparr>f_run_id = None, f_host_session_id = None, f_generation = None,
     f_runtime_id = None, f_scope_ref = None, f_lane_ref = None, f_status = None, f_limit = None\<rparr>"

definition matches_opt :: "'a option \<Rightarrow> 'a \<Rightarrow> bool" where
  "matches_opt f v = (case f of None \<Rightarrow> True | Some x \<Rightarrow> v = x)"

definition run_where :: "run_filters \<Rightarrow> run_row \<Rightarrow> bool" where
  "run_where f r = (matches_opt (f_run_id f) (r_run_id r)
     \<and> matches_opt (f_host_session_id f) (r_host_session_id r)
     \<and> matches_opt (f_generation f) (r_generation r)
     \<and> (case f_runtime_id f of None \<Rightarrow> True | Some t \<Rightarrow> r_runtime_id r = Some t)
     \<and> matches_opt (f_scope_ref f) (r_scope_ref r)
     \<and> matches_opt (f_lane_ref f) (r_lane_ref r)
     \<and> (case f_status f of None \<Rightarrow> True | Some ss \<Rightarrow>
          ss = [] \<or> show_run_status (r_status r) \<in> set ss))"

text \<open>\<open>ORDER BY updated_at DESC, COALESCE(...) DESC, run_id DESC\<close>: the reverse of the ascending sort.\<close>

definition recency_key :: "run_row \<Rightarrow> string \<times> string \<times> string" where
  "recency_key r = (r_updated_at r,
     or_default (orelse (r_completed_at r) (orelse (r_started_at r) (r_accepted_at r)))
       (r_updated_at r), r_run_id r)"

definition list_runs :: "hrc_db \<Rightarrow> run_filters \<Rightarrow> run_row list" where
  "list_runs db f = map map_run_row (take (nat (or_default (f_limit f) 100))
     (rev (sort_key recency_key (filter (run_where f) (db_runs db)))))"

definition get_latest_for_session :: "hrc_db \<Rightarrow> string \<Rightarrow> int option \<Rightarrow> run_row option" where
  "get_latest_for_session db h generation =
     (case list_runs db (no_run_filters\<lparr>f_host_session_id := Some h, f_generation := generation,
        f_limit := Some 1\<rparr>) of [] \<Rightarrow> None | r # _ \<Rightarrow> Some r)"

section \<open>Writing\<close>

text \<open>\<open>UPDATE runs SET ... WHERE ...\<close> with the number of rows it changed.\<close>

definition update_where ::
  "(run_row \<Rightarrow> bool) \<Rightarrow> (run_row \<Rightarrow> run_row) \<Rightarrow> hrc_db \<Rightarrow> (hrc_db \<times> nat) result" where
  "update_where cond f db = then_do
     (write_runs (map (\<lambda>r. if cond r then f r else r) (db_runs db)) db)
     (\<lambda>db'. Inr (db', length (filter cond (db_runs db))))"

definition writer_of_run :: "run_row \<Rightarrow> run_writer" where
  "writer_of_run r = \<lparr>w_runtime = r_runtime_id r, w_operation = r_operation_id r,
     w_host_session = r_host_session_id r, w_generation = r_generation r\<rparr>"

definition inserted_row :: "run_row \<Rightarrow> run_row" where
  "inserted_row r = r\<lparr>r_execution_format := Some (or_default (r_execution_format r) ''format1''),
     r_correlation_json := None\<rparr>"

definition run_insert :: "run_row \<Rightarrow> string option \<Rightarrow> run_store \<Rightarrow> run_row run_outcome" where
  "run_insert rec tok s =
     (case assert_can_create_run (r_run_id rec) (writer_of_run rec) tok (rs_reserved s) of
        Inl e \<Rightarrow> (s, Inl e)
      | Inr rv \<Rightarrow>
          (case write_runs (db_runs (rs_db s) @ [inserted_row rec]) (rs_db s) of
             Inl e \<Rightarrow> (s\<lparr>rs_reserved := rv\<rparr>, Inl e)
           | Inr db' \<Rightarrow>
               (\<lparr>rs_db = db', rs_reserved = rv\<rparr>,
                (case get_by_run_id db' (r_run_id rec) of
                   None \<Rightarrow> Inl (plain_error (''failed to reload run '' @ r_run_id rec))
                 | Some r \<Rightarrow> Inr r))))"

definition annotate_row :: "json_text option \<Rightarrow> run_row \<Rightarrow> run_row" where
  "annotate_row json r = r\<lparr>r_correlation_json := json\<rparr>"

definition set_correlation_json :: "string \<Rightarrow> json_text option \<Rightarrow> run_store \<Rightarrow> unit run_outcome" where
  "set_correlation_json runId json s =
     (case update_where (\<lambda>r. r_run_id r = runId) (annotate_row json) (rs_db s) of
        Inl e \<Rightarrow> (s, Inl e)
      | Inr (db', _) \<Rightarrow> (s\<lparr>rs_db := db'\<rparr>, Inr ()))"

definition binding_of_patch :: "run_patch \<Rightarrow> binding_patch" where
  "binding_of_patch p = \<lparr>bp_runtime = p_runtime_id p, bp_operation = p_operation_id p,
     bp_host_session = p_host_session_id p, bp_generation = p_generation p\<rparr>"

text \<open>
  The terminal-monotonicity step of \<open>update\<close>: against an answered row, a non-terminal status is
  dropped together with the stamps of its start, unless the patch clears \<open>completedAt\<close>.
\<close>

definition effective_patch :: "hrc_db \<Rightarrow> string \<Rightarrow> run_patch \<Rightarrow> run_patch" where
  "effective_patch db runId p =
     (case p_status p of
        Some st \<Rightarrow>
          if \<not> is_run_terminal st \<and> p_completed_at p \<noteq> Some None
          then (case get_by_run_id db runId of
                  Some r \<Rightarrow> if r_completed_at r \<noteq> None
                    then p\<lparr>p_status := None, p_started_at := None, p_accepted_at := None\<rparr> else p
                | None \<Rightarrow> p)
          else p
      | None \<Rightarrow> p)"

definition run_update ::
  "string \<Rightarrow> run_patch \<Rightarrow> string option \<Rightarrow> run_store \<Rightarrow> run_row option run_outcome" where
  "run_update runId p tok s =
     (case assert_run_binding_update (rs_db s) runId (binding_of_patch p) tok (rs_reserved s) of
        Inl e \<Rightarrow> (s, Inl e)
      | Inr rv \<Rightarrow>
          (let s' = s\<lparr>rs_reserved := rv\<rparr>; q = effective_patch (rs_db s) runId p in
           if q = no_patch then (s', Inr (get_by_run_id (rs_db s) runId))
           else (case update_where (\<lambda>r. r_run_id r = runId) (apply_patch q) (rs_db s) of
                   Inl e \<Rightarrow> (s', Inl e)
                 | Inr (db', _) \<Rightarrow> (s'\<lparr>rs_db := db'\<rparr>, Inr (get_by_run_id db' runId)))))"

definition run_update_status ::
  "string \<Rightarrow> run_status \<Rightarrow> string \<Rightarrow> string option \<Rightarrow> run_store \<Rightarrow> run_row option run_outcome" where
  "run_update_status runId st at tok =
     run_update runId (no_patch\<lparr>p_status := Some st, p_updated_at := Some at\<rparr>) tok"

definition fence_broker_input ::
  "string \<Rightarrow> string \<Rightarrow> string \<Rightarrow> string option \<Rightarrow> run_store \<Rightarrow> run_row option run_outcome" where
  "fence_broker_input runId fencedAt reason tok =
     run_update runId (no_patch\<lparr>p_broker_input_fenced_at := Some fencedAt,
       p_broker_input_fence_reason := Some reason, p_updated_at := Some fencedAt\<rparr>) tok"

record completion =
  cm_status :: run_status
  cm_completed_at :: string
  cm_updated_at :: string
  cm_error_code :: "string option"
  cm_error_message :: "string option"

definition complete_row :: "completion \<Rightarrow> run_row \<Rightarrow> run_row" where
  "complete_row c r = r\<lparr>r_status := cm_status c, r_completed_at := Some (cm_completed_at c),
     r_updated_at := cm_updated_at c, r_error_code := cm_error_code c,
     r_error_message := cm_error_message c\<rparr>"

definition mark_completed :: "string \<Rightarrow> completion \<Rightarrow> run_store \<Rightarrow> run_row option run_outcome" where
  "mark_completed runId c s =
     (case update_where (\<lambda>r. r_run_id r = runId) (complete_row c) (rs_db s) of
        Inl e \<Rightarrow> (s, Inl e)
      | Inr (db', _) \<Rightarrow> (s\<lparr>rs_db := db'\<rparr>, Inr (get_by_run_id db' runId)))"

definition queued_run :: "string \<Rightarrow> run_row \<Rightarrow> bool" where
  "queued_run runId r = (r_run_id r = runId \<and> r_status r = RQueued)"

record coalescence =
  co_owner_run_id :: string
  co_position :: int
  co_completed_at :: string
  co_updated_at :: string

definition coalesce_row :: "coalescence \<Rightarrow> run_row \<Rightarrow> run_row" where
  "coalesce_row c r = r\<lparr>r_status := RCoalesced, r_completed_at := Some (co_completed_at c),
     r_updated_at := co_updated_at c, r_coalesced_into_run_id := Some (co_owner_run_id c),
     r_coalesced_position := Some (co_position c)\<rparr>"

definition mark_queued_coalesced :: "string \<Rightarrow> coalescence \<Rightarrow> run_store \<Rightarrow> bool run_outcome" where
  "mark_queued_coalesced runId c s =
     (case update_where (queued_run runId) (coalesce_row c) (rs_db s) of
        Inl e \<Rightarrow> (s, Inl e)
      | Inr (db', n) \<Rightarrow> (s\<lparr>rs_db := db'\<rparr>, Inr (n = 1)))"

record claim =
  cl_runtime :: "string option"
  cl_invocation :: "string option"
  cl_operation :: "string option"
  cl_input :: "string option"
  cl_updated_at :: string

definition claim_row :: "claim \<Rightarrow> run_row \<Rightarrow> run_row" where
  "claim_row c r = r\<lparr>r_status := RAccepted, r_runtime_id := cl_runtime c,
     r_invocation_id := cl_invocation c, r_operation_id := cl_operation c,
     r_dispatched_input_id := cl_input c, r_updated_at := cl_updated_at c\<rparr>"

definition claim_queued :: "string \<Rightarrow> claim \<Rightarrow> string option \<Rightarrow> run_store \<Rightarrow> bool run_outcome" where
  "claim_queued runId c tok s =
     (case assert_run_binding_update (rs_db s) runId
        \<lparr>bp_runtime = cl_runtime c, bp_operation = cl_operation c, bp_host_session = None,
         bp_generation = None\<rparr> tok (rs_reserved s) of
        Inl e \<Rightarrow> (s, Inl e)
      | Inr rv \<Rightarrow>
          (let s' = s\<lparr>rs_reserved := rv\<rparr> in
           case update_where (queued_run runId) (claim_row c) (rs_db s) of
             Inl e \<Rightarrow> (s', Inl e)
           | Inr (db', n) \<Rightarrow> (s'\<lparr>rs_db := db'\<rparr>, Inr (n = 1))))"

section \<open>The durable drain snapshot\<close>

definition snapshotted :: "string \<Rightarrow> run_row \<Rightarrow> bool" where
  "snapshotted h r = (queued_for h r \<and> r_queue_snapshot_id r \<noteq> None)"

definition pending_snapshot :: "string \<Rightarrow> run_row \<Rightarrow> bool" where
  "pending_snapshot h r = (queued_for h r \<and> r_queue_snapshot_id r = None)"

definition existing_snapshot :: "hrc_db \<Rightarrow> string \<Rightarrow> string option" where
  "existing_snapshot db h =
     (case sort_key r_queued_input_seq (filter (snapshotted h) (db_runs db)) of
        [] \<Rightarrow> None | r # _ \<Rightarrow> r_queue_snapshot_id r)"

definition snapshot_row :: "string \<Rightarrow> int \<Rightarrow> string \<Rightarrow> run_row \<Rightarrow> run_row" where
  "snapshot_row sid n at r = r\<lparr>r_queue_snapshot_id := Some sid,
     r_queue_snapshot_position := Some n, r_updated_at := at\<rparr>"

fun assign_positions :: "string \<Rightarrow> string \<Rightarrow> string list \<Rightarrow> nat \<Rightarrow> hrc_db \<Rightarrow> hrc_db result" where
  "assign_positions sid at [] n db = Inr db"
| "assign_positions sid at (k # ks) n db = then_do
     (update_where (\<lambda>r. queued_run k r \<and> r_queue_snapshot_id r = None)
        (snapshot_row sid (int n) at) db)
     (\<lambda>(db', m). if m \<noteq> 1 then Inl (plain_error (''failed to snapshot queued run '' @ k))
        else assign_positions sid at ks (Suc n) db')"

definition snapshot_members :: "hrc_db \<Rightarrow> string \<Rightarrow> string \<Rightarrow> run_row list" where
  "snapshot_members db h sid = sort_key r_queue_snapshot_position
     (filter (\<lambda>r. queued_for h r \<and> r_queue_snapshot_id r = Some sid) (db_runs db))"

definition snapshot_queued ::
  "string \<Rightarrow> string \<Rightarrow> string \<Rightarrow> run_store \<Rightarrow> run_row list run_outcome" where
  "snapshot_queued h sid at s =
     (let db = rs_db s; selected = or_default (existing_snapshot db h) sid;
          marked = (if existing_snapshot db h = None
            then assign_positions selected at
              (map r_run_id (sort_key r_queued_input_seq (filter (pending_snapshot h) (db_runs db))))
              0 db
            else Inr db) in
      case marked of
        Inl e \<Rightarrow> (s, Inl e)
      | Inr db' \<Rightarrow> (s\<lparr>rs_db := db'\<rparr>, Inr (map map_run_row (snapshot_members db' h selected))))"

section \<open>Histories of store operations\<close>

datatype run_op =
    Insert run_row
  | Update string run_patch
  | Complete string completion
  | Claim string claim
  | Coalesce string coalescence
  | Snapshot string string string
  | Annotate string "json_text option"
  | Reserve string string string int
  | Release string string

text \<open>
  One operation, with the token its caller's context answers, and whether it returned \<open>true\<close> as a
  claim or coalescence of the run \<open>k\<close>.
\<close>

fun run_exec :: "run_op \<times> string option \<Rightarrow> run_store \<Rightarrow> run_store" where
  "run_exec (Insert r, tok) s = fst (run_insert r tok s)"
| "run_exec (Update k p, tok) s = fst (run_update k p tok s)"
| "run_exec (Complete k c, tok) s = fst (mark_completed k c s)"
| "run_exec (Claim k c, tok) s = fst (claim_queued k c tok s)"
| "run_exec (Coalesce k c, tok) s = fst (mark_queued_coalesced k c s)"
| "run_exec (Snapshot h sid at, tok) s = fst (snapshot_queued h sid at s)"
| "run_exec (Annotate k j, tok) s = fst (set_correlation_json k j s)"
| "run_exec (Reserve k t h g, tok) s =
     s\<lparr>rs_reserved := fst (reserve_run_id (rs_db s) k t h g (rs_reserved s))\<rparr>"
| "run_exec (Release k t, tok) s = s\<lparr>rs_reserved := release_run_id k t (rs_reserved s)\<rparr>"

fun takes_queued :: "string \<Rightarrow> run_op \<times> string option \<Rightarrow> run_store \<Rightarrow> bool" where
  "takes_queued k (Claim k' c, tok) s = (k' = k \<and> snd (claim_queued k' c tok s) = Inr True)"
| "takes_queued k (Coalesce k' c, tok) s =
     (k' = k \<and> snd (mark_queued_coalesced k' c s) = Inr True)"
| "takes_queued k _ s = False"

definition run_history :: "(run_op \<times> string option) list \<Rightarrow> run_store \<Rightarrow> run_store" where
  "run_history ops s = fold run_exec ops s"

primrec times_taken :: "string \<Rightarrow> (run_op \<times> string option) list \<Rightarrow> run_store \<Rightarrow> nat" where
  "times_taken k [] s = 0"
| "times_taken k (l # ls) s =
     (if takes_queued k l s then 1 else 0) + times_taken k ls (run_exec l s)"

section \<open>What an operation does to one row\<close>

lemma find_append: "List.find p (xs @ ys) = (case List.find p xs of None \<Rightarrow> List.find p ys | Some x \<Rightarrow> Some x)"
  by (induction xs) auto

lemma find_SomeD: "List.find p xs = Some x \<Longrightarrow> x \<in> set xs \<and> p x"
  by (induction xs) (auto split: if_splits)

lemma find_map: "List.find p (map f xs) = map_option f (List.find (p \<circ> f) xs)"
  by (induction xs) auto

lemma find_cong_fun: "(\<And>x. p x = q x) \<Longrightarrow> List.find p xs = List.find q xs"
  by (induction xs) auto

lemma row_get_map:
  assumes "\<And>r. key (g r) = key r"
  shows "row_get key (map g rows) k = map_option g (row_get key rows k)"
  unfolding row_get_def find_map using assms by (simp add: comp_def)

lemma row_get_snoc: "row_get key (rows @ [r]) k =
    (case row_get key rows k of Some x \<Rightarrow> Some x | None \<Rightarrow> if key r = k then Some r else None)"
  by (induction rows) (auto simp: row_get_def)

lemma update_where_Inr_iff: "update_where cond f db = Inr (db', n) \<longleftrightarrow>
    runs_constraints db (map (\<lambda>r. if cond r then f r else r) (db_runs db))
    \<and> db' = db\<lparr>db_runs := map (\<lambda>r. if cond r then f r else r) (db_runs db)\<rparr>
    \<and> n = length (filter cond (db_runs db))"
  by (auto simp: update_where_def write_runs_def)

text \<open>An \<open>UPDATE\<close> that keeps the keys rewrites the row it selects and no other.\<close>

lemma update_where_row:
  assumes "update_where cond f db = Inr (db', n)" "\<And>r. r_run_id (f r) = r_run_id r"
  shows "run_row_of db' k = map_option (\<lambda>r. if cond r then f r else r) (run_row_of db k)"
  using assms by (auto simp: update_where_Inr_iff run_row_of_def intro!: row_get_map)

lemma row_writers_key [simp]:
  "r_run_id (apply_patch p r) = r_run_id r"
  "r_run_id (complete_row c r) = r_run_id r"
  "r_run_id (coalesce_row co r) = r_run_id r"
  "r_run_id (claim_row cl r) = r_run_id r"
  "r_run_id (annotate_row j r) = r_run_id r"
  "r_run_id (snapshot_row sid n at r) = r_run_id r"
  "r_run_id (inserted_row r) = r_run_id r"
  "r_run_id (map_run_row r) = r_run_id r"
  by (simp_all add: apply_patch_def complete_row_def coalesce_row_def claim_row_def
      annotate_row_def snapshot_row_def inserted_row_def map_run_row_def)

lemma map_run_row_frame [simp]:
  "r_completed_at (map_run_row r) = r_completed_at r"
  "r_status (map_run_row r) = r_status r"
  "r_started_at (map_run_row r) = r_started_at r"
  "r_runtime_id (map_run_row r) = r_runtime_id r"
  "r_invocation_id (map_run_row r) = r_invocation_id r"
  "r_operation_id (map_run_row r) = r_operation_id r"
  "r_generation (map_run_row r) = r_generation r"
  "r_coalesced_into_run_id (map_run_row r) = r_coalesced_into_run_id r"
  "r_error_message (map_run_row r) = r_error_message r"
  "r_queue_snapshot_id (map_run_row r) = r_queue_snapshot_id r"
  "r_queued_input_seq (map_run_row r) = r_queued_input_seq r"
  "r_host_session_id (map_run_row r) = r_host_session_id r"
  by (simp_all add: map_run_row_def)

text \<open>
  The rows after one operation: every row is kept and rewritten by the operation that names it, and
  an insert appends its row.
\<close>

definition rewritten_by :: "run_op \<Rightarrow> hrc_db \<Rightarrow> run_row \<Rightarrow> run_row \<Rightarrow> bool" where
  "rewritten_by op db r r' =
     (r' = r \<or> (case op of
        Update k p \<Rightarrow> k = r_run_id r \<and> r' = apply_patch (effective_patch db k p) r
      | Complete k c \<Rightarrow> k = r_run_id r \<and> r' = complete_row c r
      | Claim k c \<Rightarrow> k = r_run_id r \<and> r_status r = RQueued \<and> r' = claim_row c r
      | Coalesce k c \<Rightarrow> k = r_run_id r \<and> r_status r = RQueued \<and> r' = coalesce_row c r
      | Annotate k j \<Rightarrow> k = r_run_id r \<and> r' = annotate_row j r
      | Snapshot h sid at \<Rightarrow> r_status r = RQueued \<and> r_queue_snapshot_id r = None
          \<and> existing_snapshot db h = None
          \<and> r_run_id r \<in> r_run_id ` set (filter (pending_snapshot h) (db_runs db))
          \<and> (\<exists>n. r' = snapshot_row sid n at r)
      | _ \<Rightarrow> False))"

definition appended_by :: "run_op \<Rightarrow> run_row list \<Rightarrow> bool" where
  "appended_by op new = (new = [] \<or> (\<exists>rec. op = Insert rec \<and> new = [inserted_row rec]))"

lemma run_row_ofD: "run_row_of db k = Some r \<Longrightarrow> r_run_id r = k \<and> r \<in> set (db_runs db)"
  by (auto simp: run_row_of_def dest: row_get_SomeD)

lemma rewritten_by_key [simp]: "rewritten_by op db r r' \<Longrightarrow> r_run_id r' = r_run_id r"
  by (cases op) (auto simp: rewritten_by_def)

lemma rewritten_by_same [simp]: "rewritten_by op db r r"
  by (simp add: rewritten_by_def)

lemma rewritten_by_cases [consumes 1, case_names same update complete claim coalesce annotate snapshot]:
  assumes "rewritten_by op db r r'"
  obtains "r' = r"
  | p where "op = Update (r_run_id r) p" "r' = apply_patch (effective_patch db (r_run_id r) p) r"
  | c where "op = Complete (r_run_id r) c" "r' = complete_row c r"
  | c where "op = Claim (r_run_id r) c" "r_status r = RQueued" "r' = claim_row c r"
  | c where "op = Coalesce (r_run_id r) c" "r_status r = RQueued" "r' = coalesce_row c r"
  | j where "op = Annotate (r_run_id r) j" "r' = annotate_row j r"
  | h sid at n where "op = Snapshot h sid at" "r_status r = RQueued" "r_queue_snapshot_id r = None"
      "existing_snapshot db h = None"
      "r_run_id r \<in> r_run_id ` set (filter (pending_snapshot h) (db_runs db))"
      "r' = snapshot_row sid n at r"
  using assms unfolding rewritten_by_def by (cases op) auto

lemma rewritten_byI:
  "rewritten_by (Update (r_run_id r) p) db r (apply_patch (effective_patch db (r_run_id r) p) r)"
  "rewritten_by (Complete (r_run_id r) c) db r (complete_row c r)"
  "r_status r = RQueued \<Longrightarrow> rewritten_by (Claim (r_run_id r) cl) db r (claim_row cl r)"
  "r_status r = RQueued \<Longrightarrow> rewritten_by (Coalesce (r_run_id r) co) db r (coalesce_row co r)"
  "rewritten_by (Annotate (r_run_id r) j) db r (annotate_row j r)"
  unfolding rewritten_by_def run_op.case by (rule disjI2, intro conjI refl, assumption?)+

lemma update_where_rows:
  assumes "update_where cond f db = Inr (db', n)"
  shows "db_runs db' = map (\<lambda>r. if cond r then f r else r) (db_runs db)"
  using assms by (simp add: update_where_Inr_iff)

lemma assign_positions_rows:
  "assign_positions sid at ks n db = Inr db' \<Longrightarrow>
   \<exists>g. db_runs db' = map g (db_runs db) \<and> (\<forall>r. g r = r \<or> r_status r = RQueued
     \<and> r_queue_snapshot_id r = None \<and> r_run_id r \<in> set ks
     \<and> (\<exists>m. g r = snapshot_row sid m at r))"
proof (induction ks arbitrary: n db)
  case Nil
  then show ?case by (auto intro: exI [of _ "\<lambda>r. r"])
next
  case (Cons j ks)
  let ?f = "snapshot_row sid (int n) at"
  let ?c = "\<lambda>r. queued_run j r \<and> r_queue_snapshot_id r = None"
  obtain db1 m where u: "update_where ?c ?f db = Inr (db1, m)"
    and rest: "assign_positions sid at ks (Suc n) db1 = Inr db'"
    using Cons.prems(1) by (auto simp: then_do_Inr_iff split: if_splits)
  from Cons.IH [OF rest] obtain g where g: "db_runs db' = map g (db_runs db1)"
    "\<forall>r. g r = r \<or> r_status r = RQueued \<and> r_queue_snapshot_id r = None \<and> r_run_id r \<in> set ks
     \<and> (\<exists>m. g r = snapshot_row sid m at r)" by blast
  let ?g = "\<lambda>r. g (if ?c r then ?f r else r)"
  have "db_runs db' = map ?g (db_runs db)"
    using g(1) update_where_rows [OF u] by simp
  moreover have "?g r = r \<or> r_status r = RQueued \<and> r_queue_snapshot_id r = None
     \<and> r_run_id r \<in> set (j # ks) \<and> (\<exists>m. ?g r = snapshot_row sid m at r)" for r
  proof (cases "?c r")
    case True
    then have "?g r = ?f r" using g(2) [rule_format, of "?f r"] by (auto simp: snapshot_row_def)
    then show ?thesis using True by (auto simp: queued_run_def)
  next
    case False
    then show ?thesis using g(2) [rule_format, of r] by auto
  qed
  ultimately show ?case by (intro exI [of _ ?g]) blast
qed

lemma snapshot_queued_db:
  "rs_db (fst (snapshot_queued h sid at s)) = rs_db s
   \<or> existing_snapshot (rs_db s) h = None \<and> assign_positions sid at
      (map r_run_id (sort_key r_queued_input_seq (filter (pending_snapshot h) (db_runs (rs_db s)))))
      0 (rs_db s) = Inr (rs_db (fst (snapshot_queued h sid at s)))"
proof (cases "existing_snapshot (rs_db s) h")
  case None
  let ?ks = "map r_run_id (sort_key r_queued_input_seq (filter (pending_snapshot h) (db_runs (rs_db s))))"
  show ?thesis
    using None by (cases "assign_positions sid at ?ks 0 (rs_db s)")
      (auto simp: snapshot_queued_def Let_def)
next
  case (Some x)
  then show ?thesis by (simp add: snapshot_queued_def)
qed

text \<open>The shape every operation gives the table.\<close>

definition rows_after :: "run_op \<Rightarrow> hrc_db \<Rightarrow> hrc_db \<Rightarrow> bool" where
  "rows_after op db db' = (\<exists>g new. db_runs db' = map g (db_runs db) @ new
     \<and> (\<forall>r. rewritten_by op db r (g r)) \<and> appended_by op new)"

lemma rows_after_refl: "rows_after op db db"
  unfolding rows_after_def
  by (rule exI [of _ "\<lambda>r. r"], rule exI [of _ "[]"]) (simp add: rewritten_by_def appended_by_def)

lemma rows_after_update:
  assumes "update_where cond f db = Inr (db', n)" "\<And>r. cond r \<Longrightarrow> rewritten_by op db r (f r)"
  shows "rows_after op db db'"
proof -
  have "rewritten_by op db r (if cond r then f r else r)" for r
    using assms(2) by simp
  then show ?thesis
    unfolding rows_after_def update_where_rows [OF assms(1)]
    by (intro exI [of _ "\<lambda>r. if cond r then f r else r"] exI [of _ "[]"])
      (simp add: appended_by_def)
qed

lemma rows_after_Update:
  "update_where (\<lambda>r. r_run_id r = k) (apply_patch (effective_patch db k p)) db = Inr (db', n) \<Longrightarrow> rows_after (Update k p) db db'"
  by (erule rows_after_update) (auto simp: queued_run_def intro: rewritten_byI)

lemma rows_after_Complete:
  "update_where (\<lambda>r. r_run_id r = k) (complete_row c) db = Inr (db', n) \<Longrightarrow> rows_after (Complete k c) db db'"
  by (erule rows_after_update) (auto simp: queued_run_def intro: rewritten_byI)

lemma rows_after_Claim:
  "update_where (queued_run k) (claim_row c) db = Inr (db', n) \<Longrightarrow> rows_after (Claim k c) db db'"
  by (erule rows_after_update) (auto simp: queued_run_def intro: rewritten_byI)

lemma rows_after_Coalesce:
  "update_where (queued_run k) (coalesce_row c) db = Inr (db', n) \<Longrightarrow> rows_after (Coalesce k c) db db'"
  by (erule rows_after_update) (auto simp: queued_run_def intro: rewritten_byI)

lemma rows_after_Annotate:
  "update_where (\<lambda>r. r_run_id r = k) (annotate_row j) db = Inr (db', n) \<Longrightarrow> rows_after (Annotate k j) db db'"
  by (erule rows_after_update) (auto simp: queued_run_def intro: rewritten_byI)

lemma rows_after_snapshot:
  "rows_after (Snapshot h sid at) (rs_db s) (rs_db (fst (snapshot_queued h sid at s)))"
  using snapshot_queued_db [of h sid at s]
proof (elim disjE conjE)
  assume "rs_db (fst (snapshot_queued h sid at s)) = rs_db s"
  then show ?thesis by (simp add: rows_after_refl)
next
  assume ex: "existing_snapshot (rs_db s) h = None"
    and "assign_positions sid at
      (map r_run_id (sort_key r_queued_input_seq (filter (pending_snapshot h) (db_runs (rs_db s)))))
      0 (rs_db s) = Inr (rs_db (fst (snapshot_queued h sid at s)))"
  from assign_positions_rows [OF this(2)] obtain g where
    g: "db_runs (rs_db (fst (snapshot_queued h sid at s))) = map g (db_runs (rs_db s))"
      "\<And>r. g r = r \<or> r_status r = RQueued \<and> r_queue_snapshot_id r = None
        \<and> r_run_id r \<in> r_run_id ` set (filter (pending_snapshot h) (db_runs (rs_db s)))
        \<and> (\<exists>m. g r = snapshot_row sid m at r)" by auto
  have "rewritten_by (Snapshot h sid at) (rs_db s) r (g r)" for r
    unfolding rewritten_by_def run_op.case using g(2) [of r] ex by blast
  then show ?thesis
    unfolding rows_after_def
    by (intro exI [of _ g] exI [of _ "[]"]) (simp add: g(1) appended_by_def)
qed

lemma rows_after_insert:
  "rows_after (Insert rec) db (db\<lparr>db_runs := db_runs db @ [inserted_row rec]\<rparr>)"
  unfolding rows_after_def
  by (rule exI [of _ "\<lambda>r. r"], rule exI [of _ "[inserted_row rec]"]) (simp add: appended_by_def)

lemma run_exec_rows: "rows_after op (rs_db s) (rs_db (run_exec (op, tok) s))"
proof (cases op)
  case (Insert rec)
  show ?thesis
    using rows_after_insert [of rec "rs_db s"]
    unfolding Insert run_exec.simps run_insert_def write_runs_def
    by (simp add: rows_after_refl split: sum.split option.split)
next
  case (Update k p)
  show ?thesis
    unfolding Update run_exec.simps run_update_def Let_def
    by (auto simp: rows_after_refl split: sum.split intro: rows_after_Update)
next
  case (Complete k c)
  show ?thesis
    unfolding Complete run_exec.simps mark_completed_def
    by (auto simp: rows_after_refl split: sum.split intro: rows_after_Complete)
next
  case (Claim k c)
  show ?thesis
    unfolding Claim run_exec.simps claim_queued_def Let_def
    by (auto simp: rows_after_refl split: sum.split intro: rows_after_Claim)
next
  case (Coalesce k c)
  show ?thesis
    unfolding Coalesce run_exec.simps mark_queued_coalesced_def
    by (auto simp: rows_after_refl split: sum.split intro: rows_after_Coalesce)
next
  case (Annotate k j)
  show ?thesis
    unfolding Annotate run_exec.simps set_correlation_json_def
    by (auto simp: rows_after_refl split: sum.split intro: rows_after_Annotate)
qed (simp_all add: rows_after_refl rows_after_snapshot)

lemma rows_afterE:
  assumes "rows_after op db db'"
  obtains g new where "db_runs db' = map g (db_runs db) @ new"
    "\<And>r. rewritten_by op db r (g r)" "appended_by op new"
  using assms by (auto simp: rows_after_def)

text \<open>A run that exists keeps existing.\<close>

lemma run_exec_row:
  assumes "run_row_of (rs_db s) k = Some r"
  shows "\<exists>r'. run_row_of (rs_db (run_exec (op, tok) s)) k = Some r' \<and> rewritten_by op (rs_db s) r r'"
proof -
  obtain g new where g: "db_runs (rs_db (run_exec (op, tok) s)) = map g (db_runs (rs_db s)) @ new"
    "\<And>r. rewritten_by op (rs_db s) r (g r)" "appended_by op new"
    using run_exec_rows [of op s tok] by (rule rows_afterE) (rule that)
  have "row_get r_run_id (map g (db_runs (rs_db s))) k = Some (g r)"
    using assms row_get_map [of r_run_id g, OF rewritten_by_key, OF g(2)] by (simp add: run_row_of_def)
  then have "run_row_of (rs_db (run_exec (op, tok) s)) k = Some (g r)"
    by (simp add: run_row_of_def g(1) row_get_def find_append)
  then show ?thesis using g(2) by blast
qed

section \<open>Examples\<close>

text \<open>A row for the concrete examples.\<close>

definition example_run :: "string \<Rightarrow> run_status \<Rightarrow> string option \<Rightarrow> int option \<Rightarrow> run_row" where
  "example_run k st c n = \<lparr>r_run_id = k, r_host_session_id = ''hs'', r_runtime_id = None, r_scope_ref = ''agent:a'',
     r_lane_ref = ''main'', r_generation = 1, r_transport = ''headless'', r_status = st,
     r_accepted_at = Some ''2026'', r_started_at = None, r_completed_at = c,
     r_updated_at = ''2026'', r_error_code = None, r_error_message = None,
     r_execution_format = None, r_turn_key = None, r_native_turn_id = None,
     r_native_harness_generation = None, r_native_turn_attempt = None,
     r_initiating_input_id = None, r_ownership_conflict_json = None, r_observation_state = None,
     r_observed_start_hrc_seq = None, r_operation_id = None, r_invocation_id = None,
     r_dispatched_input_id = None, r_broker_submission_id = None,
     r_broker_input_fenced_at = None, r_broker_input_fence_reason = None,
     r_dispatch_idempotency_key = None, r_queue_snapshot_id = None, r_queued_input_seq = n,
     r_queue_snapshot_position = None, r_coalesced_into_run_id = None,
     r_coalesced_position = None, r_origin_actor = None, r_origin_kind = None,
     r_origin_causation_ref = None, r_correlation_json = None\<rparr>"

definition example_store :: "run_row list \<Rightarrow> run_store" where
  "example_store rows = \<lparr>rs_db = empty_db\<lparr>db_sessions := [''hs''], db_runs := rows\<rparr>,
     rs_reserved = (\<lambda>_. None)\<rparr>"

definition example_three :: run_store where
  "example_three = example_store [example_run ''r1'' RCompleted (Some ''2027'') None,
     example_run ''r2'' RQueued None (Some 1), example_run ''r3'' RQueued None (Some 2)]"

definition example_claim :: claim where
  "example_claim = \<lparr>cl_runtime = None, cl_invocation = None, cl_operation = None, cl_input = None,
     cl_updated_at = ''2028''\<rparr>"

definition example_coalescence :: coalescence where
  "example_coalescence = \<lparr>co_owner_run_id = ''r3'', co_position = 0, co_completed_at = ''2028'',
     co_updated_at = ''2028''\<rparr>"

end
