(* ===== verification/Run_Histories.thy ===== *)
theory Run_Histories
  imports Run_Store
begin

text \<open>
  What histories of store operations guarantee: an answered run stays answered, a queued run is
  handed out once, a drain snapshot is never spliced, and a reserved run id belongs to the exact
  tuple its holder bound.
\<close>

section \<open>Answered runs\<close>

text \<open>
  An answered run carries \<open>completed_at\<close> and a terminal status. A writer respects the answer of
  \<open>k\<close> unless it patches \<open>completedAt\<close> to \<open>NULL\<close> or marks the run completed with a status that is
  not terminal.
\<close>

definition run_answered :: "string \<Rightarrow> run_store \<Rightarrow> bool" where
  "run_answered k s = (\<exists>r. run_row_of (rs_db s) k = Some r \<and> r_completed_at r \<noteq> None
     \<and> is_run_terminal (r_status r))"

fun respects_answer :: "string \<Rightarrow> run_op \<times> string option \<Rightarrow> bool" where
  "respects_answer k (Update k' p, tok) = (k' = k \<longrightarrow> p_completed_at p \<noteq> Some None)"
| "respects_answer k (Complete k' c, tok) = (k' = k \<longrightarrow> is_run_terminal (cm_status c))"
| "respects_answer k _ = True"

lemma effective_patch_answered:
  assumes "run_row_of db k = Some r" "r_completed_at r \<noteq> None" "p_completed_at p \<noteq> Some None"
    "p_status (effective_patch db k p) = Some st"
  shows "is_run_terminal st"
  using assms by (auto simp: effective_patch_def get_by_run_id_def split: option.splits if_splits)

lemma effective_patch_completed [simp]: "p_completed_at (effective_patch db k p) = p_completed_at p"
  by (auto simp: effective_patch_def split: option.splits)

lemma apply_patch_answer:
  "r_status (apply_patch p r) = or_default (p_status p) (r_status r)"
  "r_completed_at (apply_patch p r) = or_default (p_completed_at p) (r_completed_at r)"
  by (simp_all add: apply_patch_def)

lemma apply_effective_answered:
  assumes "run_row_of db k = Some r" "r_completed_at r \<noteq> None" "is_run_terminal (r_status r)"
    "p_completed_at p \<noteq> Some None"
  shows "r_completed_at (apply_patch (effective_patch db k p) r) \<noteq> None
    \<and> is_run_terminal (r_status (apply_patch (effective_patch db k p) r))"
proof
  show "r_completed_at (apply_patch (effective_patch db k p) r) \<noteq> None"
    using assms(2,4) by (cases "p_completed_at p") (auto simp: apply_patch_answer)
  show "is_run_terminal (r_status (apply_patch (effective_patch db k p) r))"
    using assms(3) effective_patch_answered [OF assms(1,2,4)]
    by (cases "p_status (effective_patch db k p)") (auto simp: apply_patch_answer)
qed

lemma row_status [simp]:
  "r_status (complete_row c r) = cm_status c"
  "r_status (claim_row cl r) = RAccepted"
  "r_status (coalesce_row co r) = RCoalesced"
  "r_status (annotate_row j r) = r_status r"
  "r_status (snapshot_row sid n at r) = r_status r"
  "r_completed_at (complete_row c r) = Some (cm_completed_at c)"
  "r_completed_at (coalesce_row co r) = Some (co_completed_at co)"
  "r_completed_at (annotate_row j r) = r_completed_at r"
  "r_completed_at (snapshot_row sid n at r) = r_completed_at r"
  by (simp_all add: complete_row_def claim_row_def coalesce_row_def annotate_row_def snapshot_row_def)

lemma rewritten_answered:
  assumes "rewritten_by op db r r'" "run_row_of db k = Some r" "r_completed_at r \<noteq> None"
    "is_run_terminal (r_status r)" "respects_answer k (op, tok)"
  shows "r_completed_at r' \<noteq> None \<and> is_run_terminal (r_status r')"
proof -
  have k: "r_run_id r = k" using run_row_ofD [OF assms(2)] by simp
  from assms(1) show ?thesis
  proof (cases rule: rewritten_by_cases)
    case (update p)
    then show ?thesis using apply_effective_answered [OF assms(2-4), of p] assms(5) by (simp add: k)
  qed (use assms(3-5) k in simp_all)
qed

interpretation answers: op_history run_exec "respects_answer k" "run_answered k" for k
proof
  fix l s
  assume l: "respects_answer k l" and s: "run_answered k s"
  obtain op tok where l': "l = (op, tok)" by (cases l)
  from s obtain r where r: "run_row_of (rs_db s) k = Some r" "r_completed_at r \<noteq> None"
    "is_run_terminal (r_status r)" by (auto simp: run_answered_def)
  from run_exec_row [OF r(1), of op tok] obtain r' where
    "run_row_of (rs_db (run_exec l s)) k = Some r'" "rewritten_by op (rs_db s) r r'"
    by (auto simp: l')
  then show "run_answered k (run_exec l s)"
    using rewritten_answered [of op "rs_db s" r r' k tok] r l by (auto simp: run_answered_def l')
qed

text \<open>
  C18. A run that has answered its caller stays answered. Whatever operations the daemon executes on
  the store afterwards, inserts, patches with a start or accept stamp, claims, coalescings,
  snapshots, annotations and reservations in any order and with any outcome, the row of the run
  still carries \<open>completed_at\<close> and a terminal status, as long as no patch of this run clears
  \<open>completedAt\<close> and no completion of it names a status that is not terminal.
\<close>

theorem answered_run_stays_answered:
  assumes "run_answered k s" "list_all (respects_answer k) ops"
  shows "run_answered k (run_history ops s)"
  unfolding run_history_def using assms by (rule answers.history_keeps [rotated])

theorem answered_run_stays_answered_witness:
  "run_answered ''r1'' (run_history
     [(Update ''r1'' (no_patch\<lparr>p_status := Some RRunning, p_started_at := Some ''2028''\<rparr>), None),
      (Claim ''r2'' example_claim, None)] example_three)"
proof (rule answered_run_stays_answered)
  show "run_answered ''r1'' example_three"
    by (simp add: run_answered_def example_three_def example_store_def example_run_def run_row_of_def
        row_get_def)
qed (simp add: no_patch_def)

section \<open>Taking a queued run\<close>

fun never_requeues :: "string \<Rightarrow> run_op \<times> string option \<Rightarrow> bool" where
  "never_requeues k (Update k' p, tok) = (k' = k \<longrightarrow> p_status p \<noteq> Some RQueued)"
| "never_requeues k (Complete k' c, tok) = (k' = k \<longrightarrow> cm_status c \<noteq> RQueued)"
| "never_requeues k _ = True"

definition left_queue :: "string \<Rightarrow> run_store \<Rightarrow> bool" where
  "left_queue k s = (\<exists>r. run_row_of (rs_db s) k = Some r \<and> r_status r \<noteq> RQueued)"

lemma effective_patch_status: "p_status (effective_patch db k p) \<in> {None, p_status p}"
  by (auto simp: effective_patch_def split: option.splits)

lemma rewritten_left_queue:
  assumes "rewritten_by op db r r'" "run_row_of db k = Some r" "r_status r \<noteq> RQueued" "never_requeues k (op, tok)"
  shows "r_status r' \<noteq> RQueued"
proof -
  have k: "r_run_id r = k" using run_row_ofD [OF assms(2)] by simp
  from assms(1) show ?thesis
  proof (cases rule: rewritten_by_cases)
    case (update p)
    then show ?thesis
      using effective_patch_status [of db k p] assms(3,4)
      by (cases "p_status p") (auto simp: k apply_patch_answer)
  qed (use assms(3,4) k in simp_all)
qed

lemma update_where_took:
  assumes "update_where (queued_run k) f db = Inr (db', 1)" "\<And>r. r_run_id (f r) = r_run_id r"
    "\<And>r. r_status (f r) \<noteq> RQueued"
  shows "\<exists>r. run_row_of db' k = Some r \<and> r_status r \<noteq> RQueued"
proof -
  from assms(1) have d: "distinct (map r_run_id (map (\<lambda>r. if queued_run k r then f r else r) (db_runs db)))"
    and "length (filter (queued_run k) (db_runs db)) = 1"
    by (auto simp: update_where_Inr_iff runs_constraints_def)
  then obtain x where x: "x \<in> set (db_runs db)" "queued_run k x"
    by (metis filter_empty_conv length_0_conv zero_neq_one)
  have "run_row_of db' k = map_option (\<lambda>r. if queued_run k r then f r else r) (run_row_of db k)"
    by (rule update_where_row [OF assms(1,2)])
  moreover have "run_row_of db k \<noteq> None"
    using x by (auto simp: run_row_of_def row_get_None_iff queued_run_def)
  moreover have "\<And>r. run_row_of db k = Some r \<Longrightarrow> r = x"
  proof -
    fix r assume "run_row_of db k = Some r"
    then have "r \<in> set (db_runs db)" "r_run_id r = k" by (auto dest: run_row_ofD)
    moreover have "distinct (map r_run_id (db_runs db))"
      using d assms(2) by (simp add: comp_def if_distrib cong: if_cong)
    ultimately show "r = x"
      using x by (auto simp: queued_run_def distinct_map dest: inj_onD)
  qed
  ultimately show ?thesis using x assms(3) by auto
qed

lemma takes_leaves_queue:
  assumes "takes_queued k l s"
  shows "left_queue k (run_exec l s)"
proof -
  obtain op tok where l: "l = (op, tok)" by (cases l)
  from assms consider c where "op = Claim k c" "snd (claim_queued k c tok s) = Inr True"
    | c where "op = Coalesce k c" "snd (mark_queued_coalesced k c s) = Inr True"
    unfolding l by (cases op) auto
  then show ?thesis
  proof cases
    case 1
    then show ?thesis
      by (auto simp: l left_queue_def claim_queued_def Let_def claim_row_def split: sum.splits
          intro!: update_where_took)
  next
    case 2
    then show ?thesis
      by (auto simp: l left_queue_def mark_queued_coalesced_def coalesce_row_def split: sum.splits
          intro!: update_where_took)
  qed
qed

lemma update_where_none:
  assumes "update_where (queued_run k) f db = Inr (db', n)" "run_row_of db k = Some r"
    "r_status r \<noteq> RQueued" "\<And>r. r_run_id (f r) = r_run_id r"
  shows "n = 0"
proof -
  from assms(1) have d: "distinct (map r_run_id (map (\<lambda>r. if queued_run k r then f r else r) (db_runs db)))"
    and n: "n = length (filter (queued_run k) (db_runs db))"
    by (auto simp: update_where_Inr_iff runs_constraints_def)
  have "distinct (map r_run_id (db_runs db))"
    using d assms(4) by (simp add: comp_def if_distrib cong: if_cong)
  then have "\<not> queued_run k x" if "x \<in> set (db_runs db)" for x
    using that assms(2,3) by (auto simp: queued_run_def distinct_map dest: run_row_ofD inj_onD)
  then show ?thesis using n by (simp add: filter_empty_conv)
qed

lemma left_queue_not_taken:
  assumes "left_queue k s"
  shows "\<not> takes_queued k l s"
proof
  assume "takes_queued k l s"
  obtain op tok where l: "l = (op, tok)" by (cases l)
  from assms obtain r where r: "run_row_of (rs_db s) k = Some r" "r_status r \<noteq> RQueued"
    by (auto simp: left_queue_def)
  show False
    using \<open>takes_queued k l s\<close> r
    by (cases op) (auto simp: l claim_queued_def mark_queued_coalesced_def Let_def split: sum.splits
        dest!: update_where_none)
qed

interpretation taking: one_success run_exec "never_requeues k" "left_queue k" "takes_queued k" for k
proof
  fix l s
  assume l: "never_requeues k l" and s: "left_queue k s"
  obtain op tok where l': "l = (op, tok)" by (cases l)
  from s obtain r where r: "run_row_of (rs_db s) k = Some r" "r_status r \<noteq> RQueued"
    by (auto simp: left_queue_def)
  from run_exec_row [OF r(1), of op tok] obtain r' where
    "run_row_of (rs_db (run_exec l s)) k = Some r'" "rewritten_by op (rs_db s) r r'"
    by (auto simp: l')
  then show "left_queue k (run_exec l s)"
    using rewritten_left_queue [of op "rs_db s" r r' k tok] r l by (auto simp: left_queue_def l')
qed (auto intro: takes_leaves_queue dest: left_queue_not_taken)

lemma times_taken_successes: "times_taken k ops s = taking.successes k ops s"
  by (induction ops arbitrary: s) simp_all

text \<open>
  C31. A queued run is handed out at most once. In any history of store operations, whatever they
  are and however they end, at most one claim or coalescence of the run reports success, provided
  that no writer puts the run back to \<open>queued\<close>: a second drain that finds the row in its snapshot
  gets \<open>false\<close> and dispatches nothing.
\<close>

theorem queued_run_taken_once:
  assumes "list_all (never_requeues k) ops"
  shows "times_taken k ops s \<le> 1"
  unfolding times_taken_successes using assms by (rule taking.at_most_one_success)

theorem queued_run_taken_once_witness:
  "times_taken ''r2'' [(Claim ''r2'' example_claim, None),
     (Coalesce ''r2'' example_coalescence, None)] example_three \<le> 1"
  by (rule queued_run_taken_once) simp

section \<open>Reserved run ids\<close>

text \<open>The row of a reserved run against the tuple of its reservation.\<close>

definition tuple_matches :: "run_reservation \<Rightarrow> run_row \<Rightarrow> bool" where
  "tuple_matches res r = (r_host_session_id r = res_host_session res
     \<and> r_generation r = res_generation res
     \<and> (\<forall>t. r_runtime_id r = Some t \<longrightarrow> res_runtime res = Some t)
     \<and> (\<forall>x. r_operation_id r = Some x \<longrightarrow> res_operation res = Some x))"

definition reserved_tuples_exact :: "run_store \<Rightarrow> bool" where
  "reserved_tuples_exact s = (\<forall>k res r. rs_reserved s k = Some res \<longrightarrow>
     run_row_of (rs_db s) k = Some r \<longrightarrow> tuple_matches res r)"

definition patched_tuple :: "binding_patch \<Rightarrow> run_row \<Rightarrow> run_row \<Rightarrow> bool" where
  "patched_tuple p r r' = (r_host_session_id r' = or_default (bp_host_session p) (r_host_session_id r)
     \<and> r_generation r' = or_default (bp_generation p) (r_generation r)
     \<and> (r_runtime_id r' \<in> {bp_runtime p, orelse (bp_runtime p) (r_runtime_id r)})
     \<and> (r_operation_id r' \<in> {bp_operation p, orelse (bp_operation p) (r_operation_id r)}))"

lemma guard_Inr_iff: "(if c then Inl e else x) = Inr y \<longleftrightarrow> \<not> c \<and> x = Inr y"
  by simp

lemma opt_unchanged: "\<not> (a \<noteq> None \<and> a \<noteq> Some x) \<Longrightarrow> a = Some y \<Longrightarrow> y = x"
  by auto

lemma opt_kept: "\<not> (a \<noteq> None \<and> b \<noteq> None \<and> a \<noteq> b) \<Longrightarrow> \<not> (a \<noteq> None \<and> b = None) \<Longrightarrow>
    a = Some y \<Longrightarrow> b = Some y"
  by auto

lemma orelse_same [simp]: "orelse a a = a" "orelse a None = a"
  by (cases a; simp)+

lemma matches_bind:
  assumes "tuple_matches res r" "token_refusal res w tok = None"
    "w_runtime w = orelse t (r_runtime_id r)" "w_operation w = orelse x (r_operation_id r)"
  shows "tuple_matches (bind_reservation w res) r
    \<and> (\<forall>y. t = Some y \<longrightarrow> res_runtime (bind_reservation w res) = Some y)
    \<and> (\<forall>y. x = Some y \<longrightarrow> res_operation (bind_reservation w res) = Some y)"
  using assms by (auto simp: tuple_matches_def token_refusal_None_iff)

lemma binding_update_matches:
  assumes guard: "assert_run_binding_update db k p tok rv = Inr rv'"
    and res: "rv k = Some res" and row: "run_row_of db k = Some r" and m: "tuple_matches res r"
  shows "\<exists>res'. rv' k = Some res' \<and> tuple_matches res' r
    \<and> (\<forall>y. bp_host_session p = Some y \<longrightarrow> y = r_host_session_id r)
    \<and> (\<forall>y. bp_generation p = Some y \<longrightarrow> y = r_generation r)
    \<and> (\<forall>y. bp_runtime p = Some y \<longrightarrow> res_runtime res' = Some y)
    \<and> (\<forall>y. bp_operation p = Some y \<longrightarrow> res_operation res' = Some y)"
proof -
  let ?w = "\<lparr>w_runtime = orelse (bp_runtime p) (r_runtime_id r),
             w_operation = orelse (bp_operation p) (r_operation_id r),
             w_host_session = r_host_session_id r, w_generation = r_generation r\<rparr>"
  have "(\<forall>y. bp_host_session p = Some y \<longrightarrow> y = r_host_session_id r)
    \<and> (\<forall>y. bp_generation p = Some y \<longrightarrow> y = r_generation r)
    \<and> (rv' = rv \<and> (\<forall>y. bp_runtime p = Some y \<longrightarrow> r_runtime_id r = Some y)
         \<and> (\<forall>y. bp_operation p = Some y \<longrightarrow> r_operation_id r = Some y)
       \<or> token_refusal res ?w tok = None \<and> rv' = bind_run k ?w rv)"
  proof (cases "bp_runtime p = None \<and> bp_operation p = None \<and> bp_host_session p = None
      \<and> bp_generation p = None")
    case True
    then show ?thesis using guard by (simp add: assert_run_binding_update_def)
  next
    case False
    let ?c1 = "bp_host_session p \<noteq> None \<and> bp_host_session p \<noteq> Some (r_host_session_id r)"
    let ?c2 = "bp_generation p \<noteq> None \<and> bp_generation p \<noteq> Some (r_generation r)"
    let ?c3 = "bp_operation p \<noteq> None \<and> r_operation_id r \<noteq> None \<and> bp_operation p \<noteq> r_operation_id r"
    let ?c4 = "bp_runtime p \<noteq> None \<and> r_runtime_id r \<noteq> None \<and> bp_runtime p \<noteq> r_runtime_id r"
    let ?c5 = "\<not> (bp_runtime p \<noteq> None \<and> r_runtime_id r = None)
      \<and> \<not> (bp_operation p \<noteq> None \<and> r_operation_id r = None)"
    have g: "(if ?c1 then Inl (run_id_ownership_error k ''host-session-immutable'')
          else if ?c2 then Inl (run_id_ownership_error k ''generation-immutable'')
          else if ?c3 then Inl (run_id_ownership_error k ''operation-immutable'')
          else if ?c4 then Inl (run_id_ownership_error k ''runtime-immutable'')
          else if ?c5 then Inr rv
          else (case token_refusal res ?w tok of
                  Some refusal \<Rightarrow> Inl (refusal_error k refusal)
                | None \<Rightarrow> Inr (bind_run k ?w rv))) = Inr rv'"
      using guard unfolding assert_run_binding_update_def Let_def if_not_P [OF False] row res
      by (simp only: option.case option.simps simp_thms if_False)
    note cs = g [unfolded guard_Inr_iff]
    note c = cs [THEN conjunct1] cs [THEN conjunct2, THEN conjunct1]
      cs [THEN conjunct2, THEN conjunct2, THEN conjunct1]
      cs [THEN conjunct2, THEN conjunct2, THEN conjunct2, THEN conjunct1]
    note rest = cs [THEN conjunct2, THEN conjunct2, THEN conjunct2, THEN conjunct2]
    have hg: "\<forall>y. bp_host_session p = Some y \<longrightarrow> y = r_host_session_id r"
      "\<forall>y. bp_generation p = Some y \<longrightarrow> y = r_generation r"
      using opt_unchanged [OF c(1)] opt_unchanged [OF c(2)] by blast+
    show ?thesis
    proof (cases ?c5)
      case True
      then have "rv' = rv" using rest unfolding if_P [OF True] by simp
      moreover from True have "\<forall>y. bp_runtime p = Some y \<longrightarrow> r_runtime_id r = Some y"
        "\<forall>y. bp_operation p = Some y \<longrightarrow> r_operation_id r = Some y"
        using opt_kept [OF c(4)] opt_kept [OF c(3)] by blast+
      ultimately show ?thesis using hg by blast
    next
      case False
      then have "token_refusal res ?w tok = None \<and> rv' = bind_run k ?w rv"
        using rest unfolding if_not_P [OF False] by (simp split: option.split_asm)
      with hg show ?thesis by blast
    qed
  qed
  then show ?thesis
  proof (elim conjE disjE)
    assume "rv' = rv" "\<forall>y. bp_host_session p = Some y \<longrightarrow> y = r_host_session_id r"
      "\<forall>y. bp_generation p = Some y \<longrightarrow> y = r_generation r"
      "\<forall>y. bp_runtime p = Some y \<longrightarrow> r_runtime_id r = Some y"
      "\<forall>y. bp_operation p = Some y \<longrightarrow> r_operation_id r = Some y"
    then show ?thesis using m res by (auto simp: tuple_matches_def)
  next
    assume "token_refusal res ?w tok = None" "rv' = bind_run k ?w rv"
      "\<forall>y. bp_host_session p = Some y \<longrightarrow> y = r_host_session_id r"
      "\<forall>y. bp_generation p = Some y \<longrightarrow> y = r_generation r"
    then show ?thesis
      using matches_bind [OF m, of ?w tok "bp_runtime p" "bp_operation p"] res by auto
  qed
qed

lemma patched_matches:
  assumes "assert_run_binding_update db k p tok rv = Inr rv'" "rv k = Some res"
    "run_row_of db k = Some r" "tuple_matches res r" "patched_tuple p r r'"
  shows "\<exists>res'. rv' k = Some res' \<and> tuple_matches res' r'"
proof -
  obtain res' where res': "rv' k = Some res'" "tuple_matches res' r"
    "\<forall>y. bp_host_session p = Some y \<longrightarrow> y = r_host_session_id r"
    "\<forall>y. bp_generation p = Some y \<longrightarrow> y = r_generation r"
    "\<forall>y. bp_runtime p = Some y \<longrightarrow> res_runtime res' = Some y"
    "\<forall>y. bp_operation p = Some y \<longrightarrow> res_operation res' = Some y"
    using binding_update_matches [OF assms(1-4)] by blast
  have rt: "bp_runtime p = Some y \<or> r_runtime_id r = Some y" if "r_runtime_id r' = Some y" for y
    using that assms(5) by (cases "bp_runtime p") (auto simp: patched_tuple_def)
  have op: "bp_operation p = Some y \<or> r_operation_id r = Some y" if "r_operation_id r' = Some y" for y
    using that assms(5) by (cases "bp_operation p") (auto simp: patched_tuple_def)
  have "r_host_session_id r' = r_host_session_id r"
    using res'(3) assms(5) by (cases "bp_host_session p") (auto simp: patched_tuple_def)
  moreover have "r_generation r' = r_generation r"
    using res'(4) assms(5) by (cases "bp_generation p") (auto simp: patched_tuple_def)
  ultimately have "tuple_matches res' r'"
    using rt op res'(2,5,6) unfolding tuple_matches_def by auto
  then show ?thesis using res'(1) by blast
qed

lemma effective_patch_binding [simp]:
  "p_host_session_id (effective_patch db k p) = p_host_session_id p"
  "p_generation (effective_patch db k p) = p_generation p"
  "p_runtime_id (effective_patch db k p) = p_runtime_id p"
  "p_operation_id (effective_patch db k p) = p_operation_id p"
  "p_queue_snapshot_id (effective_patch db k p) = p_queue_snapshot_id p"
  "p_queue_snapshot_position (effective_patch db k p) = p_queue_snapshot_position p"
  by (auto simp: effective_patch_def split: option.splits)

lemma row_tuple [simp]:
  "r_host_session_id (complete_row c r) = r_host_session_id r"
  "r_host_session_id (claim_row cl r) = r_host_session_id r"
  "r_host_session_id (coalesce_row co r) = r_host_session_id r"
  "r_host_session_id (annotate_row j r) = r_host_session_id r"
  "r_host_session_id (snapshot_row sid n at r) = r_host_session_id r"
  "r_generation (complete_row c r) = r_generation r"
  "r_generation (claim_row cl r) = r_generation r"
  "r_generation (coalesce_row co r) = r_generation r"
  "r_generation (annotate_row j r) = r_generation r"
  "r_generation (snapshot_row sid n at r) = r_generation r"
  "r_runtime_id (complete_row c r) = r_runtime_id r"
  "r_runtime_id (claim_row cl r) = cl_runtime cl"
  "r_runtime_id (coalesce_row co r) = r_runtime_id r"
  "r_runtime_id (annotate_row j r) = r_runtime_id r"
  "r_runtime_id (snapshot_row sid n at r) = r_runtime_id r"
  "r_operation_id (complete_row c r) = r_operation_id r"
  "r_operation_id (claim_row cl r) = cl_operation cl"
  "r_operation_id (coalesce_row co r) = r_operation_id r"
  "r_operation_id (annotate_row j r) = r_operation_id r"
  "r_operation_id (snapshot_row sid n at r) = r_operation_id r"
  by (simp_all add: complete_row_def claim_row_def coalesce_row_def annotate_row_def snapshot_row_def)

lemma apply_patch_tuple:
  "r_host_session_id (apply_patch p r) = or_default (p_host_session_id p) (r_host_session_id r)"
  "r_generation (apply_patch p r) = or_default (p_generation p) (r_generation r)"
  "r_runtime_id (apply_patch p r) = orelse (p_runtime_id p) (r_runtime_id r)"
  "r_operation_id (apply_patch p r) = orelse (p_operation_id p) (r_operation_id r)"
  by (simp_all add: apply_patch_def)

lemma patched_tuple_update:
  "patched_tuple (binding_of_patch p) r (apply_patch (effective_patch db k p) r)"
  by (simp add: patched_tuple_def binding_of_patch_def apply_patch_tuple)

lemma patched_tuple_claim:
  "patched_tuple \<lparr>bp_runtime = cl_runtime c, bp_operation = cl_operation c, bp_host_session = None,
     bp_generation = None\<rparr> r (claim_row c r)"
  by (simp add: patched_tuple_def)

text \<open>The reservations after one operation: its own run id apart, they are untouched.\<close>

fun named_by :: "run_op \<Rightarrow> string option" where
  "named_by (Insert r) = Some (r_run_id r)"
| "named_by (Update k p) = Some k"
| "named_by (Claim k c) = Some k"
| "named_by (Reserve k t h g) = Some k"
| "named_by (Release k t) = Some k"
| "named_by _ = None"

lemma reservations_elsewhere:
  assumes "named_by op \<noteq> Some k"
  shows "rs_reserved (run_exec (op, tok) s) k = rs_reserved s k"
  using assms
  by (cases op) (auto simp: run_insert_def run_update_def claim_queued_def mark_completed_def Let_def
      mark_queued_coalesced_def snapshot_queued_def set_correlation_json_def reserve_run_id_def
      release_run_id_def intro: can_create_other [OF _ not_sym] binding_update_other [OF _ not_sym]
      split: sum.splits option.splits if_splits)

text \<open>The reservation and the row of one run across each operation that names it.\<close>

lemma exact_insert:
  assumes "reserved_tuples_exact s"
  shows "reserved_tuples_exact (fst (run_insert rec tok s))"
proof (cases "assert_can_create_run (r_run_id rec) (writer_of_run rec) tok (rs_reserved s)")
  case (Inl e)
  then show ?thesis using assms by (simp add: run_insert_def)
next
  case (Inr rv)
  let ?k = "r_run_id rec" and ?s' = "fst (run_insert rec tok s)"
  have rv: "rs_reserved ?s' = rv"
    using Inr by (auto simp: run_insert_def split: sum.split)
  have new: "run_row_of (rs_db ?s') k = run_row_of (rs_db s) k
      \<or> k = ?k \<and> run_row_of (rs_db s) k = None \<and> run_row_of (rs_db ?s') k = Some (inserted_row rec)" for k
    using Inr by (auto simp: run_insert_def write_runs_def run_row_of_def row_get_snoc
        split: sum.split option.split)
  have ins: "r_host_session_id (inserted_row rec) = r_host_session_id rec"
    "r_generation (inserted_row rec) = r_generation rec"
    "r_runtime_id (inserted_row rec) = r_runtime_id rec"
    "r_operation_id (inserted_row rec) = r_operation_id rec"
    by (simp_all add: inserted_row_def)
  show ?thesis
    unfolding reserved_tuples_exact_def rv
  proof (intro allI impI)
    fix k res r
    assume res: "rv k = Some res" and row: "run_row_of (rs_db ?s') k = Some r"
    show "tuple_matches res r"
    proof (cases "k = ?k")
      case False
      then show ?thesis
        using new [of k] row res can_create_other [OF Inr False] assms
        by (auto simp: reserved_tuples_exact_def)
    next
      case True
      then obtain old where old: "rs_reserved s k = Some old"
        "token_refusal old (writer_of_run rec) tok = None" "res = bind_reservation (writer_of_run rec) old"
        using can_create_cases [OF Inr] res by auto
      from new [of k] show ?thesis
      proof (elim disjE conjE)
        assume "run_row_of (rs_db ?s') k = run_row_of (rs_db s) k"
        then have "tuple_matches old r"
          using assms old(1) row by (auto simp: reserved_tuples_exact_def)
        then show ?thesis by (auto simp: old(3) tuple_matches_def)
      next
        assume "run_row_of (rs_db ?s') k = Some (inserted_row rec)"
        then show ?thesis
          using row old(2) by (auto simp: old(3) tuple_matches_def ins token_refusal_None_iff
              writer_of_run_def)
      qed
    qed
  qed
qed

lemma exact_guarded:
  assumes ex: "reserved_tuples_exact s"
    and guard: "assert_run_binding_update (rs_db s) k p tok (rs_reserved s) = Inr rv"
    and resv: "rs_reserved s' = rv"
    and rows: "\<And>j r'. run_row_of (rs_db s') j = Some r' \<Longrightarrow>
      \<exists>r. run_row_of (rs_db s) j = Some r \<and> (r' = r \<or> j = k \<and> patched_tuple p r r')"
  shows "reserved_tuples_exact s'"
  unfolding reserved_tuples_exact_def resv
proof (intro allI impI)
  fix j res r'
  assume res: "rv j = Some res" and row: "run_row_of (rs_db s') j = Some r'"
  obtain r where r: "run_row_of (rs_db s) j = Some r" "r' = r \<or> j = k \<and> patched_tuple p r r'"
    using rows [OF row] by blast
  show "tuple_matches res r'"
  proof (cases "j = k")
    case False
    then show ?thesis
      using binding_update_other [OF guard False] res r ex by (auto simp: reserved_tuples_exact_def)
  next
    case True
    obtain old where old: "rs_reserved s k = Some old"
    proof (cases "rs_reserved s k")
      case None
      then have "rv k = None"
        using guard by (auto simp: assert_run_binding_update_def Let_def split: if_splits option.splits)
      then show ?thesis using res True by simp
    qed (rule that)
    have m: "tuple_matches old r"
      using ex old r(1) True by (auto simp: reserved_tuples_exact_def)
    from r(2) show ?thesis
    proof (elim disjE conjE)
      assume "r' = r"
      then show ?thesis
        using binding_update_matches [OF guard old _ m] r(1) res True by auto
    next
      assume "patched_tuple p r r'"
      then show ?thesis
        using patched_matches [OF guard old _ m] r(1) res True by auto
    qed
  qed
qed

lemma named_rows:
  assumes "update_where cond f db = Inr (db', n)" "\<And>r. cond r \<Longrightarrow> r_run_id r = k"
    "\<And>r. r_run_id (f r) = r_run_id r" "\<And>r. patched_tuple p r (f r)"
    "run_row_of db' j = Some r'"
  shows "\<exists>r. run_row_of db j = Some r \<and> (r' = r \<or> j = k \<and> patched_tuple p r r')"
proof -
  have "run_row_of db' j = map_option (\<lambda>r. if cond r then f r else r) (run_row_of db j)"
    by (rule update_where_row [OF assms(1,3)])
  then obtain r where r: "run_row_of db j = Some r" "r' = (if cond r then f r else r)"
    using assms(5) by (cases "run_row_of db j") auto
  then show ?thesis
    using assms(2) [of r] assms(4) run_row_ofD [OF r(1)] by (cases "cond r") auto
qed

lemma exact_update:
  assumes ex: "reserved_tuples_exact s"
  shows "reserved_tuples_exact (fst (run_update k p tok s))"
proof (cases "assert_run_binding_update (rs_db s) k (binding_of_patch p) tok (rs_reserved s)")
  case (Inl e)
  then show ?thesis using ex by (simp add: run_update_def)
next
  case (Inr rv)
  show ?thesis
  proof (rule exact_guarded [OF ex Inr])
    show "rs_reserved (fst (run_update k p tok s)) = rv"
      using Inr by (simp add: run_update_def Let_def split: sum.split)
    fix j r'
    assume "run_row_of (rs_db (fst (run_update k p tok s))) j = Some r'"
    then show "\<exists>r. run_row_of (rs_db s) j = Some r \<and> (r' = r \<or> j = k \<and> patched_tuple (binding_of_patch p) r r')"
      using Inr
      by (auto simp: run_update_def Let_def split: sum.split_asm if_split_asm
          dest: named_rows [where k = k and p = "binding_of_patch p", rotated 4]
          intro: patched_tuple_update)
  qed
qed

lemma exact_claim:
  assumes ex: "reserved_tuples_exact s"
  shows "reserved_tuples_exact (fst (claim_queued k c tok s))"
proof -
  let ?p = "\<lparr>bp_runtime = cl_runtime c, bp_operation = cl_operation c, bp_host_session = None,
     bp_generation = None\<rparr>"
  show ?thesis
  proof (cases "assert_run_binding_update (rs_db s) k ?p tok (rs_reserved s)")
    case (Inl e)
    then show ?thesis using ex by (simp add: claim_queued_def)
  next
    case (Inr rv)
    show ?thesis
    proof (rule exact_guarded [OF ex Inr])
      show "rs_reserved (fst (claim_queued k c tok s)) = rv"
        using Inr by (simp add: claim_queued_def Let_def split: sum.split)
      fix j r'
      assume "run_row_of (rs_db (fst (claim_queued k c tok s))) j = Some r'"
      then show "\<exists>r. run_row_of (rs_db s) j = Some r \<and> (r' = r \<or> j = k \<and> patched_tuple ?p r r')"
        using Inr
        by (auto simp: claim_queued_def Let_def queued_run_def split: sum.split_asm
            dest: named_rows [where k = k and p = ?p, rotated 4] intro: patched_tuple_claim)
    qed
  qed
qed

lemma row_of_elsewhere:
  assumes "run_row_of (rs_db (run_exec (op, tok) s)) k = Some r'" "\<And>rec. op \<noteq> Insert rec"
  shows "\<exists>r. run_row_of (rs_db s) k = Some r \<and> rewritten_by op (rs_db s) r r'"
proof -
  obtain g new where g: "db_runs (rs_db (run_exec (op, tok) s)) = map g (db_runs (rs_db s)) @ new"
    "\<And>r. rewritten_by op (rs_db s) r (g r)" "appended_by op new"
    using run_exec_rows [of op s tok] by (rule rows_afterE) (rule that)
  have "new = []" using g(3) assms(2) by (auto simp: appended_by_def)
  then have "run_row_of (rs_db (run_exec (op, tok) s)) k = map_option g (run_row_of (rs_db s) k)"
    using row_get_map [of r_run_id g, OF rewritten_by_key, OF g(2)] by (simp add: run_row_of_def g(1))
  then show ?thesis using assms(1) g(2) by (cases "run_row_of (rs_db s) k") auto
qed

lemma rewritten_tuple:
  assumes "rewritten_by op db r r'" "named_by op = None" "tuple_matches res r"
  shows "tuple_matches res r'"
  using assms(1)
proof (cases rule: rewritten_by_cases)
  case (update p)
  then show ?thesis using assms(2) by simp
next
  case (claim c)
  then show ?thesis using assms(2) by simp
qed (use assms(3) in \<open>simp_all add: tuple_matches_def\<close>)

lemma exact_unnamed:
  assumes "reserved_tuples_exact s" "named_by op = None"
  shows "reserved_tuples_exact (run_exec (op, tok) s)"
  unfolding reserved_tuples_exact_def
proof (intro allI impI)
  fix k res r'
  assume res: "rs_reserved (run_exec (op, tok) s) k = Some res"
    and row: "run_row_of (rs_db (run_exec (op, tok) s)) k = Some r'"
  have "op \<noteq> Insert rec" for rec using assms(2) by auto
  with row_of_elsewhere [OF row] obtain r where
    r: "run_row_of (rs_db s) k = Some r" "rewritten_by op (rs_db s) r r'" by blast
  have "rs_reserved s k = Some res"
    using res reservations_elsewhere [of op k tok s] assms(2) by simp
  then show "tuple_matches res r'"
    using rewritten_tuple [OF r(2) assms(2)] assms(1) r(1) by (auto simp: reserved_tuples_exact_def)
qed

lemma exact_reserve:
  "reserved_tuples_exact s \<Longrightarrow>
   reserved_tuples_exact (s\<lparr>rs_reserved := fst (reserve_run_id (rs_db s) k t h g (rs_reserved s))\<rparr>)"
  by (auto simp: reserved_tuples_exact_def reserve_run_id_def handle_exists_def
      dest: run_row_ofD split: option.splits)

lemma exact_release:
  "reserved_tuples_exact s \<Longrightarrow>
   reserved_tuples_exact (s\<lparr>rs_reserved := release_run_id k t (rs_reserved s)\<rparr>)"
  by (auto simp: reserved_tuples_exact_def release_run_id_def)

interpretation reserved: op_history run_exec "\<lambda>_. True" reserved_tuples_exact
proof
  fix l :: "run_op \<times> string option" and s
  assume s: "reserved_tuples_exact s"
  obtain op tok where l: "l = (op, tok)" by (cases l)
  show "reserved_tuples_exact (run_exec l s)"
  proof (cases "named_by op")
    case None
    then show ?thesis unfolding l by (rule exact_unnamed [OF s])
  next
    case (Some k)
    then show ?thesis
      using s by (cases op) (auto simp: l exact_insert exact_update exact_claim exact_reserve exact_release)
  qed
qed

text \<open>
  A reserved run id belongs to one exact tuple. Starting from a store in which it does, no
  history of inserts, patches, claims, coalescings, snapshots, annotations, reservations and
  releases, with whatever tokens their callers hold and whether the statements succeed or fail, can
  leave the row of a reserved run with another host session or generation, or with a runtime or
  operation other than the one bound in its reservation.
\<close>

theorem reserved_run_keeps_its_tuple:
  assumes "reserved_tuples_exact s"
  shows "reserved_tuples_exact (run_history ops s)"
  unfolding run_history_def
  by (rule reserved.history_keeps) (use assms in \<open>simp_all add: list_all_iff\<close>)

definition example_reservation :: run_reservation where
  "example_reservation = \<lparr>res_token = ''t'', res_host_session = ''hs'', res_generation = 1,
     res_runtime = None, res_operation = None\<rparr>"

definition example_reserved :: run_store where
  "example_reserved = example_store []\<lparr>rs_reserved := (\<lambda>_. None)(''r9'' := Some example_reservation)\<rparr>"

theorem reserved_run_keeps_its_tuple_witness:
  "reserved_tuples_exact (run_history
     [(Insert (example_run ''r9'' RAccepted None None), Some ''t''),
      (Update ''r9'' (no_patch\<lparr>p_runtime_id := Some ''rt''\<rparr>), None)] example_reserved)"
  by (rule reserved_run_keeps_its_tuple)
    (simp add: reserved_tuples_exact_def example_reserved_def example_store_def empty_db_def
      run_row_of_def row_get_def)

section \<open>Waiting for the holder\<close>

fun without_token :: "string \<Rightarrow> string \<Rightarrow> run_op \<times> string option \<Rightarrow> bool" where
  "without_token k t (Release k' t', tok) = (\<not> (k' = k \<and> t' = t) \<and> tok \<noteq> Some t)"
| "without_token k t (op, tok) = (tok \<noteq> Some t)"

definition held_unnamed :: "string \<Rightarrow> run_reservation \<Rightarrow> run_store \<Rightarrow> bool" where
  "held_unnamed k res s = (rs_reserved s k = Some res \<and> run_row_of (rs_db s) k = None)"

lemma no_row_kept:
  assumes "run_row_of (rs_db s) k = None" "\<And>rec. op = Insert rec \<Longrightarrow> r_run_id rec \<noteq> k"
  shows "run_row_of (rs_db (run_exec (op, tok) s)) k = None"
proof -
  obtain g new where g: "db_runs (rs_db (run_exec (op, tok) s)) = map g (db_runs (rs_db s)) @ new"
    "\<And>r. rewritten_by op (rs_db s) r (g r)" "appended_by op new"
    using run_exec_rows [of op s tok] by (rule rows_afterE) (rule that)
  have "row_get r_run_id (map g (db_runs (rs_db s))) k = None"
    using row_get_map [of r_run_id g, OF rewritten_by_key, OF g(2)] assms(1) by (simp add: run_row_of_def)
  moreover have "row_get r_run_id new k = None"
    using g(3) assms(2) by (auto simp: appended_by_def row_get_def)
  ultimately show ?thesis by (simp add: run_row_of_def g(1) row_get_def find_append)
qed

interpretation waiting: op_history run_exec "without_token k (res_token res)" "held_unnamed k res"
  for k res
proof
  fix l s
  assume l: "without_token k (res_token res) l" and s: "held_unnamed k res s"
  obtain op tok where l': "l = (op, tok)" by (cases l)
  have tok: "tok \<noteq> Some (res_token res)" using l by (cases op) (auto simp: l')
  have r: "rs_reserved s k = Some res" "run_row_of (rs_db s) k = None"
    using s by (auto simp: held_unnamed_def)
  show "held_unnamed k res (run_exec l s)"
  proof (cases "\<exists>rec. op = Insert rec \<and> r_run_id rec = k")
    case True
    then show ?thesis
      using s r tok
      by (auto simp: l' run_insert_def assert_can_create_run_def token_refusal_no_token held_unnamed_def)
  next
    case False
    then have row: "run_row_of (rs_db (run_exec l s)) k = None"
      unfolding l' by (intro no_row_kept r) auto
    have "rs_reserved (run_exec l s) k = Some res"
    proof (cases "named_by op = Some k")
      case True
      then show ?thesis
        using False l r
        by (cases op) (auto simp: l' run_update_def claim_queued_def assert_run_binding_update_def Let_def
            reserve_run_id_def release_run_id_def split: sum.split)
    qed (simp add: l' reservations_elsewhere r)
    with row show ?thesis by (simp add: held_unnamed_def)
  qed
qed

text \<open>
  A reserved run id waits for its holder. As long as no caller presents the reservation's token,
  whatever the other writers of the store do, the reservation stays exactly as it is and no row of
  that id comes into being: an \<open>INSERT\<close> under the id is refused.
\<close>

theorem reserved_id_waits_for_holder:
  assumes "rs_reserved s k = Some res" "run_row_of (rs_db s) k = None"
    "list_all (without_token k (res_token res)) ops"
  shows "rs_reserved (run_history ops s) k = Some res
    \<and> run_row_of (rs_db (run_history ops s)) k = None"
  using waiting.history_keeps [OF assms(3), of s] assms(1,2)
  by (simp add: held_unnamed_def run_history_def)


theorem reserved_id_waits_for_holder_witness:
  "rs_reserved (run_history [(Insert (example_run ''r9'' RAccepted None None), None),
       (Release ''r9'' ''other'', None)] example_reserved) ''r9'' = Some example_reservation
    \<and> run_row_of (rs_db (run_history [(Insert (example_run ''r9'' RAccepted None None), None),
       (Release ''r9'' ''other'', None)] example_reserved)) ''r9'' = None"
  by (rule reserved_id_waits_for_holder)
    (simp_all add: example_reserved_def example_reservation_def example_store_def empty_db_def
      run_row_of_def row_get_def)

end
