(* ===== verification/JS_Date.thy ===== *)
theory JS_Date
  imports JS_String
begin

text \<open>
  \<open>Date.parse\<close> on the timestamps of the store. Every timestamp column is written from
  \<open>new Date().toISOString()\<close>, that is \<open>YYYY-MM-DDTHH:mm:ss.sssZ\<close>; the reader below also takes the
  same form without the fraction, and the date alone. Any other text gives \<open>None\<close>, which stands for
  \<open>NaN\<close>: ECMAScript leaves its value to the implementation or to the local time zone.
\<close>

definition is_leap :: "int \<Rightarrow> bool" where
  "is_leap y = (y mod 4 = 0 \<and> (y mod 100 \<noteq> 0 \<or> y mod 400 = 0))"

definition days_in_month :: "int \<Rightarrow> int \<Rightarrow> int" where
  "days_in_month y m = (if m = 2 then (if is_leap y then 29 else 28)
     else if m \<in> {4, 6, 9, 11} then 30 else 31)"

text \<open>Days from 1970-01-01, counting years from March.\<close>

definition days_from_civil :: "int \<Rightarrow> int \<Rightarrow> int \<Rightarrow> int" where
  "days_from_civil y m d =
     (let y' = (if m \<le> 2 then y - 1 else y); era = y' div 400; yoe = y' - era * 400;
          doy = (153 * (if m > 2 then m - 3 else m + 9) + 2) div 5 + d - 1;
          doe = yoe * 365 + yoe div 4 - yoe div 100 + doy
      in era * 146097 + doe - 719468)"

definition digits_at :: "string \<Rightarrow> nat \<Rightarrow> nat \<Rightarrow> int option" where
  "digits_at s i n = (let t = take n (drop i s) in
     if length t = n \<and> list_all is_digit t then Some (int (decimal_value 0 t)) else None)"

definition char_at :: "string \<Rightarrow> nat \<Rightarrow> char \<Rightarrow> bool" where
  "char_at s i c = (i < length s \<and> s ! i = c)"

definition parse_day :: "string \<Rightarrow> int option" where
  "parse_day s =
     (case (digits_at s 0 4, digits_at s 5 2, digits_at s 8 2) of
        (Some y, Some m, Some d) \<Rightarrow>
          if char_at s 4 CHR ''-'' \<and> char_at s 7 CHR ''-'' \<and> 1 \<le> m \<and> m \<le> 12
             \<and> 1 \<le> d \<and> d \<le> days_in_month y m
          then Some (days_from_civil y m d) else None
      | _ \<Rightarrow> None)"

definition parse_clock :: "string \<Rightarrow> int option" where
  "parse_clock s =
     (case (digits_at s 11 2, digits_at s 14 2, digits_at s 17 2) of
        (Some h, Some mi, Some sec) \<Rightarrow>
          if char_at s 10 CHR ''T'' \<and> char_at s 13 CHR '':'' \<and> char_at s 16 CHR '':''
             \<and> h \<le> 23 \<and> mi \<le> 59 \<and> sec \<le> 59
          then Some (((h * 60 + mi) * 60 + sec) * 1000) else None
      | _ \<Rightarrow> None)"

definition date_parse :: "string \<Rightarrow> int option" where
  "date_parse s =
     (case parse_day s of
        None \<Rightarrow> None
      | Some day \<Rightarrow>
          if length s = 10 then Some (day * 86400000)
          else (case parse_clock s of
             None \<Rightarrow> None
           | Some clock \<Rightarrow>
               if length s = 20 \<and> char_at s 19 CHR ''Z'' then Some (day * 86400000 + clock)
               else if length s = 24 \<and> char_at s 19 CHR ''.'' \<and> char_at s 23 CHR ''Z''
               then map_option (\<lambda>ms. day * 86400000 + clock + ms) (digits_at s 20 3)
               else None))"

text \<open>\<open>Date.parse(s) <= t\<close>: a comparison with \<open>NaN\<close> is false.\<close>

definition dated_by :: "string \<Rightarrow> int \<Rightarrow> bool" where
  "dated_by s t = (case date_parse s of None \<Rightarrow> False | Some ms \<Rightarrow> ms \<le> t)"

lemma date_parse_epoch: "date_parse ''1970-01-01T00:00:00.000Z'' = Some 0"
  by code_simp

lemma date_parse_example: "date_parse ''2026-10-22T08:30:00.250Z'' = Some 1792657800250"
  by code_simp

section \<open>Writing timestamps\<close>

text \<open>
  \<open>new Date(ms).toISOString()\<close>: the civil date of a day number, a year of four digits, or a sign and
  six digits outside 0 to 9999, and \<open>None\<close> for the \<open>RangeError\<close> beyond the time range.
\<close>

definition civil_from_days :: "int \<Rightarrow> int \<times> int \<times> int" where
  "civil_from_days z0 =
     (let z = z0 + 719468; era = z div 146097; doe = z - era * 146097;
          yoe = (doe - doe div 1460 + doe div 36524 - doe div 146096) div 365;
          doy = doe - (365 * yoe + yoe div 4 - yoe div 100); mp = (5 * doy + 2) div 153;
          m = (if mp < 10 then mp + 3 else mp - 9)
      in (yoe + era * 400 + (if m \<le> 2 then 1 else 0), m, doy - (153 * mp + 2) div 5 + 1))"

definition pad_left :: "nat \<Rightarrow> int \<Rightarrow> string" where
  "pad_left n k = (let t = show_nat (nat k) in replicate (n - length t) CHR ''0'' @ t)"

definition iso_year :: "int \<Rightarrow> string" where
  "iso_year y = (if 0 \<le> y \<and> y \<le> 9999 then pad_left 4 y
     else (if y < 0 then CHR ''-'' else CHR ''+'') # pad_left 6 (abs y))"

definition to_iso :: "int \<Rightarrow> string option" where
  "to_iso ms =
     (if abs ms > 8640000000000000 then None
      else (case civil_from_days (ms div 86400000) of (y, m, d) \<Rightarrow>
        let t = ms mod 86400000 in
        Some (iso_year y @ ''-'' @ pad_left 2 m @ ''-'' @ pad_left 2 d @ ''T''
          @ pad_left 2 (t div 3600000) @ '':'' @ pad_left 2 (t div 60000 mod 60) @ '':''
          @ pad_left 2 (t div 1000 mod 60) @ ''.'' @ pad_left 3 (t mod 1000) @ ''Z'')))"

lemma to_iso_example: "to_iso 1792657800250 = Some ''2026-10-22T08:30:00.250Z''"
  by code_simp

lemma to_iso_leap_day: "to_iso 1709208000000 = Some ''2024-02-29T12:00:00.000Z''"
  by code_simp

lemma to_iso_before_epoch: "to_iso (- 1) = Some ''1969-12-31T23:59:59.999Z''"
  by code_simp

end
