(* ===== verification/Turn_Evidence.thy ===== *)
theory Turn_Evidence
  imports Run_Histories JS_Date
begin

text \<open>
  Exact ownership of native turns from the stored broker evidence
  (hrc-server/src/broker/turn-ownership.ts, first half, with the event listing of
  hrc-store-sqlite/src/repositories/broker-invocation-event-repository.ts): parsing stored events,
  matching turn coordinates, the historical epoch of an invocation, the one owner of a turn, the
  turns still open and the runs that a terminal supersedes. Everything here reads the store.
\<close>

section \<open>Parsing stored events\<close>

definition string_field :: "json_object option \<Rightarrow> string \<Rightarrow> string option" where
  "string_field ob k = Option.bind ob (\<lambda>x. jstring x k)"

definition json_object_in :: "json_text \<Rightarrow> json_object option" where
  "json_object_in t = Option.bind t json_record"

text \<open>An optional string where the code tests its truth: the empty string counts as absent.\<close>

definition truthy :: "string option \<Rightarrow> string option" where
  "truthy s = (if s = Some [] then None else s)"

record turn_coordinates =
  tc_turn :: string
  tc_generation :: "json option"
  tc_attempt :: "json option"

record parsed_event =
  pe_coordinates :: turn_coordinates
  pe_type :: string
  pe_seq :: int
  pe_runtime :: string
  pe_input :: "string option"
  pe_submission :: "string option"
  pe_ownership :: "string option"

text \<open>
  The envelope of a broker event. The fields that a stored envelope may hold with any type keep
  their JSON value.
\<close>

record envelope =
  en_invocation :: string
  en_seq :: int
  en_type :: string
  en_time :: "string option"
  en_turn :: "json option"
  en_input :: "json option"
  en_generation :: "json option"
  en_attempt :: "json option"
  en_payload :: "json option"

text \<open>
  \<open>mapBrokerInvocationEventRow\<close> puts the stored payload back into an envelope stored without one.
\<close>

definition map_event_row :: "broker_event_row \<Rightarrow> broker_event_row" where
  "map_event_row r =
     (case be_envelope_json r of
        Some (Some (JObj ob)) \<Rightarrow>
          (case (jget ob ''payload'', be_event_json r) of
             (None, Some p) \<Rightarrow> r\<lparr>be_envelope_json := Some (Some (JObj (ob @ [(''payload'', p)])))\<rparr>
           | _ \<Rightarrow> r)
      | _ \<Rightarrow> r)"

definition payload_for_row :: "broker_event_row \<Rightarrow> json_object option" where
  "payload_for_row r = json_object_in (be_event_json r)"

definition envelope_object :: "broker_event_row \<Rightarrow> json_object option" where
  "envelope_object r = Option.bind (be_envelope_json r) json_object_in"

definition row_coordinates :: "broker_event_row \<Rightarrow> string \<Rightarrow> turn_coordinates" where
  "row_coordinates r turn = \<lparr>tc_turn = turn,
     tc_generation = map_option JNum (be_harness_generation r),
     tc_attempt = map_option JNum (be_turn_attempt r)\<rparr>"

definition parse_stored_event :: "broker_event_row \<Rightarrow> parsed_event option" where
  "parse_stored_event r =
     (let payload = payload_for_row r; envel = envelope_object r in
      case orelse (string_field envel ''turnId'') (string_field payload ''turnId'') of
        None \<Rightarrow> None
      | Some turn \<Rightarrow> Some
          \<lparr>pe_coordinates = row_coordinates r turn, pe_type = be_type r, pe_seq = be_seq r,
           pe_runtime = be_runtime_id r,
           pe_input = truthy (orelse (string_field envel ''inputId'') (string_field payload ''inputId'')),
           pe_submission = string_field payload ''submissionId'',
           pe_ownership = string_field payload ''ownership''\<rparr>)"

definition envelope_payload :: "envelope \<Rightarrow> json_object option" where
  "envelope_payload env = Option.bind (en_payload env) json_record"

definition coordinates_for_envelope :: "envelope \<Rightarrow> turn_coordinates option" where
  "coordinates_for_envelope env =
     map_option (\<lambda>turn. \<lparr>tc_turn = turn, tc_generation = en_generation env,
                          tc_attempt = en_attempt env\<rparr>)
       (orelse (Option.bind (en_turn env) json_string)
          (string_field (envelope_payload env) ''turnId''))"

definition coordinates_match :: "turn_coordinates \<Rightarrow> turn_coordinates \<Rightarrow> bool" where
  "coordinates_match target evidence =
     (if tc_turn target \<noteq> tc_turn evidence then False
      else if tc_generation target \<noteq> None \<and> tc_generation evidence \<noteq> tc_generation target then False
      else if tc_attempt target \<noteq> None \<and> tc_attempt evidence \<noteq> tc_attempt target then False
      else True)"

definition input_id_for_envelope :: "envelope \<Rightarrow> string option" where
  "input_id_for_envelope env = orelse (Option.bind (en_input env) json_string)
     (string_field (envelope_payload env) ''inputId'')"

text \<open>
  \<open>coordinateKey\<close>: the code compares the serializations of the triple, in which an absent
  coordinate is \<open>null\<close>.
\<close>

definition coordinate_key :: "turn_coordinates \<Rightarrow> string \<times> json \<times> json" where
  "coordinate_key c = (tc_turn c, or_default (tc_generation c) JNull, or_default (tc_attempt c) JNull)"

section \<open>Listing events\<close>

text \<open>The effective turn id of a row, as the SQL expression over its two JSON columns.\<close>

definition effective_turn_id :: "broker_event_row \<Rightarrow> string option" where
  "effective_turn_id r = orelse (string_field (envelope_object r) ''turnId'')
     (string_field (payload_for_row r) ''turnId'')"

record event_query =
  eq_invocation :: string
  eq_types :: "string list"
  eq_through :: "int option"
  eq_runtime :: "string option"
  eq_turn :: "string option"
  eq_has_turn :: bool
  eq_limit :: "int option"

definition events_of :: "string \<Rightarrow> string list \<Rightarrow> event_query" where
  "events_of i types = \<lparr>eq_invocation = i, eq_types = types, eq_through = None,
     eq_runtime = None, eq_turn = None, eq_has_turn = False, eq_limit = None\<rparr>"

definition event_where :: "event_query \<Rightarrow> broker_event_row \<Rightarrow> bool" where
  "event_where q r = (be_invocation_id r = eq_invocation q \<and> be_type r \<in> set (eq_types q)
     \<and> (case eq_through q of None \<Rightarrow> True | Some n \<Rightarrow> be_seq r \<le> n)
     \<and> matches_opt (eq_runtime q) (be_runtime_id r)
     \<and> (case eq_turn q of
          Some t \<Rightarrow> effective_turn_id r = Some t
        | None \<Rightarrow> eq_has_turn q \<longrightarrow> effective_turn_id r \<noteq> None))"

definition list_events :: "hrc_db \<Rightarrow> event_query \<Rightarrow> broker_event_row list" where
  "list_events db q =
     (if eq_types q = [] then []
      else (let rows = sort_key be_seq (filter (event_where q) (db_broker_events db)) in
            map map_event_row (case eq_limit q of None \<Rightarrow> rows | Some n \<Rightarrow> take (nat n) rows)))"

definition parsed_events :: "broker_event_row list \<Rightarrow> parsed_event list" where
  "parsed_events rows = List.map_filter parse_stored_event rows"

section \<open>Epochs and candidates\<close>

definition invocation_of :: "hrc_db \<Rightarrow> string \<Rightarrow> invocation_row option" where
  "invocation_of db i = row_get inv_invocation_id (db_invocations db) i"

definition operation_of :: "hrc_db \<Rightarrow> string \<Rightarrow> operation_row option" where
  "operation_of db i = row_get op_operation_id (db_operations db) i"

definition historical_epoch :: "hrc_db \<Rightarrow> string \<Rightarrow> (invocation_row \<times> operation_row) option" where
  "historical_epoch db i =
     (case invocation_of db i of
        None \<Rightarrow> None
      | Some v \<Rightarrow>
          (case operation_of db (inv_operation_id v) of
             None \<Rightarrow> None
           | Some o' \<Rightarrow>
               if inv_runtime_id v \<noteq> op_runtime_id o' \<or> inv_operation_id v \<noteq> op_operation_id o'
               then None else Some (v, o')))"

text \<open>A run that belongs to the epoch of its invocation in every column.\<close>

definition run_in_epoch :: "invocation_row \<times> operation_row \<Rightarrow> string \<Rightarrow> run_row \<Rightarrow> bool" where
  "run_in_epoch epoch i r = (case epoch of (v, o') \<Rightarrow>
     r_runtime_id r = Some (inv_runtime_id v) \<and> r_invocation_id r = Some i
     \<and> r_operation_id r = Some (inv_operation_id v) \<and> r_generation r = op_generation o')"

definition valid_candidate :: "hrc_db \<Rightarrow> string \<Rightarrow> string \<Rightarrow> string option" where
  "valid_candidate db i runId =
     (case (historical_epoch db i, get_by_run_id db runId) of
        (Some epoch, Some r) \<Rightarrow> if run_in_epoch epoch i r then Some (r_run_id r) else None
      | _ \<Rightarrow> None)"

definition run_for_input :: "hrc_db \<Rightarrow> string \<Rightarrow> run_row option" where
  "run_for_input db i = orelse (get_by_dispatched_input_id db i) (get_by_broker_submission_id db i)"

definition add_candidate :: "hrc_db \<Rightarrow> string \<Rightarrow> run_row option \<Rightarrow> string list \<Rightarrow> string list" where
  "add_candidate db i r cs =
     (case r of
        None \<Rightarrow> cs
      | Some r' \<Rightarrow>
          (case valid_candidate db i (r_run_id r') of None \<Rightarrow> cs | Some k \<Rightarrow> js_set_add k cs))"

definition add_input_candidate :: "hrc_db \<Rightarrow> string \<Rightarrow> string option \<Rightarrow> string list \<Rightarrow> string list" where
  "add_input_candidate db i input cs =
     (case input of None \<Rightarrow> cs | Some x \<Rightarrow> add_candidate db i (run_for_input db x) cs)"

section \<open>The exact owner\<close>

definition turn_evidence_types :: "string list" where
  "turn_evidence_types = [''turn.started'', ''turn.attributed'', ''submission.executed'']"

definition turn_terminal_types :: "string list" where
  "turn_terminal_types = [''turn.completed'', ''turn.failed'', ''turn.interrupted'']"

text \<open>One stored event of the turn: the candidates found so far, and whether it is foreign.\<close>

definition weigh_event ::
  "hrc_db \<Rightarrow> string \<Rightarrow> parsed_event \<Rightarrow> string list \<times> bool \<Rightarrow> string list \<times> bool" where
  "weigh_event db i e = (\<lambda>(cs, foreign).
     let cs1 = (if pe_type e = ''turn.started'' then add_input_candidate db i (pe_input e) cs else cs);
         foreign1 = (foreign \<or> pe_type e = ''turn.attributed'' \<and> pe_ownership e = Some ''foreign'');
         cs2 = (if pe_type e = ''turn.attributed'' \<and> pe_ownership e = Some ''own''
                then add_input_candidate db i (pe_input e) cs1 else cs1);
         cs3 = (if pe_type e = ''submission.executed''
                then (case pe_submission e of
                        None \<Rightarrow> cs2
                      | Some x \<Rightarrow> add_candidate db i (get_by_broker_submission_id db x) cs2)
                else cs2)
     in (cs3, foreign1))"

text \<open>The event at hand itself.\<close>

definition weigh_envelope ::
  "hrc_db \<Rightarrow> string \<Rightarrow> envelope \<Rightarrow> string list \<times> bool \<Rightarrow> string list \<times> bool" where
  "weigh_envelope db i env = (\<lambda>(cs, foreign).
     if en_type env = ''turn.started'' \<or> en_type env = ''turn.attributed'' then
       let ownership = string_field (envelope_payload env) ''ownership'' in
       (if en_type env = ''turn.started'' \<or> ownership = Some ''own''
        then add_input_candidate db i (input_id_for_envelope env) cs else cs,
        foreign \<or> en_type env = ''turn.attributed'' \<and> ownership = Some ''foreign'')
     else (cs, foreign))"

definition is_launch_carried :: "json_text option \<Rightarrow> bool" where
  "is_launch_carried v =
     (case v of
        None \<Rightarrow> False
      | Some t \<Rightarrow> (case json_object_in t of
          None \<Rightarrow> False
        | Some ob \<Rightarrow> jget ob ''kind'' = Some (JStr ''launch_carried_invoke_turn'')))"

definition weigh_launch ::
  "hrc_db \<Rightarrow> string \<Rightarrow> invocation_row \<times> operation_row \<Rightarrow> run_row \<Rightarrow> string list \<Rightarrow> string list" where
  "weigh_launch db i epoch r cs =
     (if run_in_epoch epoch i r \<and> is_launch_carried (get_correlation_json db (r_run_id r))
      then add_candidate db i (Some r) cs else cs)"

definition prior_events ::
  "hrc_db \<Rightarrow> envelope \<Rightarrow> invocation_row \<Rightarrow> string list \<Rightarrow> string option \<Rightarrow> bool \<Rightarrow> parsed_event list" where
  "prior_events db env v types turn only_first = parsed_events (list_events db
     ((events_of (en_invocation env) types)\<lparr>eq_through := Some (en_seq env),
        eq_runtime := Some (inv_runtime_id v), eq_turn := turn, eq_has_turn := only_first,
        eq_limit := (if only_first then Some 1 else None)\<rparr>))"

definition first_event :: "parsed_event list \<Rightarrow> parsed_event option" where
  "first_event es = (case es of [] \<Rightarrow> None | e # _ \<Rightarrow> Some e)"

text \<open>
  The launch marker applies to the first input-less start only: the event at hand when no start is
  stored before it, or the stored first start when it is the target turn's.
\<close>

definition launch_marker_applies ::
  "turn_coordinates \<Rightarrow> envelope \<Rightarrow> parsed_event option \<Rightarrow> bool" where
  "launch_marker_applies target env stored_first =
     (en_type env = ''turn.started'' \<and> input_id_for_envelope env = None \<and> stored_first = None
      \<or> (case stored_first of
           None \<Rightarrow> False
         | Some e \<Rightarrow> pe_input e = None \<and> coordinates_match target (pe_coordinates e)))"

definition turn_candidates ::
  "hrc_db \<Rightarrow> envelope \<Rightarrow> turn_coordinates \<Rightarrow> invocation_row \<times> operation_row \<Rightarrow> string list \<times> bool" where
  "turn_candidates db env target epoch =
     (let i = en_invocation env; v = fst epoch;
          evidence = filter (\<lambda>e. coordinates_match target (pe_coordinates e))
            (prior_events db env v turn_evidence_types (Some (tc_turn target)) False);
          (cs, foreign) = weigh_envelope db i env (fold (weigh_event db i) evidence ([], False));
          stored_first = first_event (prior_events db env v [''turn.started''] None True)
      in (if launch_marker_applies target env stored_first
          then fold (weigh_launch db i epoch) (list_correlated_by_invocation_id db i) cs else cs,
          foreign))"

definition resolve_exact_turn_owner :: "hrc_db \<Rightarrow> envelope \<Rightarrow> string option" where
  "resolve_exact_turn_owner db env =
     (case coordinates_for_envelope env of
        None \<Rightarrow> None
      | Some target \<Rightarrow>
          (case historical_epoch db (en_invocation env) of
             None \<Rightarrow> None
           | Some epoch \<Rightarrow>
               (case turn_candidates db env target epoch of
                  (cs, foreign) \<Rightarrow>
                    if foreign \<or> length cs \<noteq> 1 then None else Some (hd cs))))"

section \<open>Open and superseded turns\<close>

definition bracket_events :: "hrc_db \<Rightarrow> string \<Rightarrow> int \<Rightarrow> parsed_event list" where
  "bracket_events db i through = parsed_events (list_events db
     ((events_of i (''turn.started'' # turn_terminal_types))\<lparr>eq_through := Some through\<rparr>))"

definition closed_by :: "parsed_event list \<Rightarrow> parsed_event \<Rightarrow> bool" where
  "closed_by es started = list_ex (\<lambda>t. pe_seq t > pe_seq started
     \<and> pe_type t \<in> set turn_terminal_types
     \<and> coordinate_key (pe_coordinates t) = coordinate_key (pe_coordinates started)) es"

definition started_seq :: "parsed_event list \<Rightarrow> turn_coordinates \<Rightarrow> int option" where
  "started_seq es target = map_option pe_seq (List.find (\<lambda>e. pe_type e = ''turn.started''
     \<and> coordinate_key (pe_coordinates e) = coordinate_key target) es)"

definition has_other_open_turn :: "hrc_db \<Rightarrow> envelope \<Rightarrow> bool" where
  "has_other_open_turn db env =
     (case coordinates_for_envelope env of
        None \<Rightarrow> False
      | Some target \<Rightarrow>
          (let es = bracket_events db (en_invocation env) (en_seq env);
               start = started_seq es target
           in list_ex (\<lambda>e.
                if pe_type e \<noteq> ''turn.started''
                   \<or> coordinate_key (pe_coordinates e) = coordinate_key target then False
                else if (case start of None \<Rightarrow> False | Some n \<Rightarrow> pe_seq e < n) then False
                else \<not> closed_by es e) es))"

definition superseded_run ::
  "hrc_db \<Rightarrow> string \<Rightarrow> parsed_event list \<Rightarrow> int \<Rightarrow> parsed_event \<Rightarrow> string option" where
  "superseded_run db i es start e =
     (if pe_type e \<noteq> ''turn.started'' \<or> pe_seq e \<ge> start then None
      else case pe_input e of
        None \<Rightarrow> None
      | Some input \<Rightarrow>
          if closed_by es e then None
          else (case run_for_input db input of
             None \<Rightarrow> None
           | Some r \<Rightarrow> if r_completed_at r \<noteq> None then None else valid_candidate db i (r_run_id r)))"

definition runs_superseded_by_terminal :: "hrc_db \<Rightarrow> envelope \<Rightarrow> string list" where
  "runs_superseded_by_terminal db env =
     (case coordinates_for_envelope env of
        None \<Rightarrow> []
      | Some target \<Rightarrow>
          (let es = bracket_events db (en_invocation env) (en_seq env) in
           case started_seq es target of
             None \<Rightarrow> []
           | Some start \<Rightarrow> fold (\<lambda>e ids.
               (case superseded_run db (en_invocation env) es start e of
                  None \<Rightarrow> ids | Some k \<Rightarrow> js_set_add k ids)) es []))"

definition turn_open_at :: "hrc_db \<Rightarrow> string \<Rightarrow> int \<Rightarrow> parsed_event option" where
  "turn_open_at db i n =
     (let es = bracket_events db i n;
          starts = filter (\<lambda>e. pe_type e = ''turn.started'') es
      in if starts = [] then None
         else (let started = last starts in
               if list_ex (\<lambda>e. pe_type e \<noteq> ''turn.started'' \<and> pe_seq e > pe_seq started
                    \<and> coordinate_key (pe_coordinates e) = coordinate_key (pe_coordinates started)) es
               then None else Some started))"

definition turn_terminal :: "hrc_db \<Rightarrow> string \<Rightarrow> turn_coordinates \<Rightarrow> broker_event_row option" where
  "turn_terminal db i turn = List.find
     (\<lambda>r. case parse_stored_event r of
            None \<Rightarrow> False | Some e \<Rightarrow> coordinates_match turn (pe_coordinates e))
     (list_events db ((events_of i turn_terminal_types)\<lparr>eq_turn := Some (tc_turn turn)\<rparr>))"

definition invocation_has_open_turn :: "hrc_db \<Rightarrow> string \<Rightarrow> bool" where
  "invocation_has_open_turn db i = (turn_open_at db i 9007199254740991 \<noteq> None)"

text \<open>
  \<open>envelopeForRow\<close>: the stored envelope under the columns of the row, which win where they are set.
\<close>

definition envelope_for_row :: "broker_event_row \<Rightarrow> envelope" where
  "envelope_for_row r =
     (let ob = or_default (envelope_object r) [] in
      \<lparr>en_invocation = be_invocation_id r, en_seq = be_seq r, en_type = be_type r,
       en_time = Some (be_time r), en_turn = jget ob ''turnId'', en_input = jget ob ''inputId'',
       en_generation = orelse (map_option JNum (be_harness_generation r)) (jget ob ''harnessGeneration''),
       en_attempt = orelse (map_option JNum (be_turn_attempt r)) (jget ob ''turnAttempt''),
       en_payload = Some (JObj (or_default (payload_for_row r) []))\<rparr>)"

section \<open>What an owner rests on\<close>

text \<open>The runs that one stored event names as owner, and whether it declares the turn foreign.\<close>

definition event_claims :: "hrc_db \<Rightarrow> string \<Rightarrow> parsed_event \<Rightarrow> string list" where
  "event_claims db i e = fst (weigh_event db i e ([], False))"

definition event_foreign :: "parsed_event \<Rightarrow> bool" where
  "event_foreign e = (pe_type e = ''turn.attributed'' \<and> pe_ownership e = Some ''foreign'')"

lemma set_add_candidate: "set (add_candidate db i r cs) = set cs \<union> set (add_candidate db i r [])"
  by (auto simp: add_candidate_def js_set_add_def split: option.splits)

lemma set_add_input_candidate:
  "set (add_input_candidate db i x cs) = set cs \<union> set (add_input_candidate db i x [])"
  by (cases x) (simp_all add: add_input_candidate_def set_add_candidate [of db i _ cs])

lemma set_weigh_event:
  "set (fst (weigh_event db i e cf)) = set (fst cf) \<union> set (event_claims db i e)"
proof (cases cf)
  case (Pair cs f)
  show ?thesis
    unfolding Pair
    by (cases "pe_submission e")
      (auto simp: weigh_event_def event_claims_def Let_def set_add_input_candidate [of db i _ cs]
        set_add_candidate [of db i _ cs])
qed

lemma snd_weigh_event: "snd (weigh_event db i e cf) = (snd cf \<or> event_foreign e)"
  by (cases cf) (simp add: weigh_event_def event_foreign_def Let_def)

lemma fold_weigh_event:
  "set (fst (fold (weigh_event db i) es cf)) = set (fst cf) \<union> (\<Union>e \<in> set es. set (event_claims db i e))
   \<and> snd (fold (weigh_event db i) es cf) = (snd cf \<or> (\<exists>e \<in> set es. event_foreign e))"
  by (induction es arbitrary: cf) (auto simp: set_weigh_event snd_weigh_event)

lemma add_input_candidate_grows: "k \<in> set cs \<Longrightarrow> k \<in> set (add_input_candidate db i x cs)"
  using set_add_input_candidate [of db i x cs] by blast

lemma weigh_envelope_grows:
  "set (fst cf) \<subseteq> set (fst (weigh_envelope db i env cf)) \<and> (snd cf \<longrightarrow> snd (weigh_envelope db i env cf))"
  by (cases cf) (auto simp: weigh_envelope_def Let_def add_input_candidate_grows)

lemma fold_weigh_launch_grows: "set cs \<subseteq> set (fold (weigh_launch db i epoch) rs cs)"
proof (induction rs arbitrary: cs)
  case (Cons r rs)
  have "set cs \<subseteq> set (weigh_launch db i epoch r cs)"
    using set_add_candidate [of db i "Some r" cs] by (auto simp: weigh_launch_def)
  also have "\<dots> \<subseteq> set (fold (weigh_launch db i epoch) rs (weigh_launch db i epoch r cs))"
    by (rule Cons.IH)
  finally show ?case by simp
qed simp

text \<open>Every candidate is a run of the epoch.\<close>

definition all_valid :: "hrc_db \<Rightarrow> string \<Rightarrow> string list \<Rightarrow> bool" where
  "all_valid db i cs = list_all (\<lambda>k. \<exists>j. valid_candidate db i j = Some k) cs"

lemma all_valid_add: "all_valid db i cs \<Longrightarrow> all_valid db i (add_candidate db i r cs)"
  by (auto simp: all_valid_def add_candidate_def list_all_iff split: option.splits)

lemma all_valid_input: "all_valid db i cs \<Longrightarrow> all_valid db i (add_input_candidate db i x cs)"
  by (auto simp: add_input_candidate_def all_valid_add split: option.splits)

lemma all_valid_event: "all_valid db i (fst cf) \<Longrightarrow> all_valid db i (fst (weigh_event db i e cf))"
  by (cases cf) (auto simp: weigh_event_def Let_def all_valid_add all_valid_input split: option.splits)

lemma all_valid_events: "all_valid db i (fst cf) \<Longrightarrow> all_valid db i (fst (fold (weigh_event db i) es cf))"
  by (induction es arbitrary: cf) (auto simp: all_valid_event)

lemma all_valid_envelope: "all_valid db i (fst cf) \<Longrightarrow> all_valid db i (fst (weigh_envelope db i env cf))"
  by (cases cf) (auto simp: weigh_envelope_def Let_def all_valid_input)

lemma all_valid_launch: "all_valid db i cs \<Longrightarrow> all_valid db i (fold (weigh_launch db i epoch) rs cs)"
  by (induction rs arbitrary: cs) (auto simp: weigh_launch_def all_valid_add)

lemma turn_candidates_facts:
  assumes "turn_candidates db env target epoch = (cs, foreign)"
    and "e \<in> set (prior_events db env (fst epoch) turn_evidence_types (Some (tc_turn target)) False)"
    and "coordinates_match target (pe_coordinates e)"
  shows "set (event_claims db (en_invocation env) e) \<subseteq> set cs \<and> (event_foreign e \<longrightarrow> foreign)"
proof -
  let ?i = "en_invocation env"
  let ?es = "filter (\<lambda>e. coordinates_match target (pe_coordinates e))
    (prior_events db env (fst epoch) turn_evidence_types (Some (tc_turn target)) False)"
  let ?c1 = "fold (weigh_event db ?i) ?es ([], False)"
  let ?c2 = "weigh_envelope db ?i env ?c1"
  have e: "e \<in> set ?es" using assms(2,3) by simp
  have "set (event_claims db ?i e) \<subseteq> set (fst ?c1)" "event_foreign e \<longrightarrow> snd ?c1"
    using fold_weigh_event [of db ?i ?es "([], False)"] e by blast+
  then have "set (event_claims db ?i e) \<subseteq> set (fst ?c2)" "event_foreign e \<longrightarrow> snd ?c2"
    using weigh_envelope_grows [of ?c1 db ?i env] by blast+
  moreover have "set (fst ?c2) \<subseteq> set cs \<and> foreign = snd ?c2"
    using assms(1) fold_weigh_launch_grows [of "fst ?c2" db ?i epoch]
    by (auto simp: turn_candidates_def Let_def split: prod.splits if_splits)
  ultimately show ?thesis by blast
qed

lemma turn_candidates_valid:
  assumes "turn_candidates db env target epoch = (cs, foreign)"
  shows "all_valid db (en_invocation env) cs"
proof -
  let ?i = "en_invocation env"
  let ?es = "filter (\<lambda>e. coordinates_match target (pe_coordinates e))
    (prior_events db env (fst epoch) turn_evidence_types (Some (tc_turn target)) False)"
  let ?c2 = "weigh_envelope db ?i env (fold (weigh_event db ?i) ?es ([], False))"
  have "all_valid db ?i (fst ?c2)"
    by (intro all_valid_envelope all_valid_events) (simp add: all_valid_def)
  moreover have "cs = fst ?c2
      \<or> cs = fold (weigh_launch db ?i epoch) (list_correlated_by_invocation_id db ?i) (fst ?c2)"
    using assms by (auto simp: turn_candidates_def Let_def split: prod.splits if_splits)
  ultimately show ?thesis using all_valid_launch by blast
qed

text \<open>The stored rows that count as evidence for the target turn at the event.\<close>

definition evidence_row :: "envelope \<Rightarrow> turn_coordinates \<Rightarrow> invocation_row \<Rightarrow> broker_event_row \<Rightarrow> bool" where
  "evidence_row env target v r = (be_invocation_id r = en_invocation env
     \<and> be_type r \<in> set turn_evidence_types \<and> be_seq r \<le> en_seq env
     \<and> be_runtime_id r = inv_runtime_id v \<and> effective_turn_id r = Some (tc_turn target))"

lemma evidence_row_listed:
  assumes "r \<in> set (db_broker_events db)" "evidence_row env target v r"
    "parse_stored_event (map_event_row r) = Some e"
  shows "e \<in> set (prior_events db env v turn_evidence_types (Some (tc_turn target)) False)"
  using assms unfolding prior_events_def parsed_events_def map_filter_def list_events_def
  by (auto simp: events_of_def event_where_def evidence_row_def matches_opt_def turn_evidence_types_def
      image_iff intro!: bexI [of _ r])

text \<open>
  C40. A turn owner is exact. When the broker evidence resolves the owner of a native turn, that run
  exists and belongs to the epoch of the invocation: runtime, invocation, operation and generation
  all agree. No stored evidence of the same turn and epoch, up to the event at hand, declares the
  turn foreign, and every run that such evidence names with valid coordinates is this very run: an
  ambiguous or foreign turn gets no owner.
\<close>

theorem turn_owner_is_exact:
  assumes "resolve_exact_turn_owner db env = Some k"
  shows "\<exists>target v o' r. coordinates_for_envelope env = Some target
    \<and> historical_epoch db (en_invocation env) = Some (v, o')
    \<and> get_by_run_id db k = Some r \<and> run_in_epoch (v, o') (en_invocation env) r
    \<and> (\<forall>row \<in> set (db_broker_events db). \<forall>e. evidence_row env target v row \<longrightarrow>
         parse_stored_event (map_event_row row) = Some e \<longrightarrow>
         coordinates_match target (pe_coordinates e) \<longrightarrow>
         \<not> event_foreign e \<and> set (event_claims db (en_invocation env) e) \<subseteq> {k})"
proof -
  obtain target v o' cs where t: "coordinates_for_envelope env = Some target"
    "historical_epoch db (en_invocation env) = Some (v, o')"
    "turn_candidates db env target (v, o') = (cs, False)" "length cs = 1" "k = hd cs"
    using assms
    by (auto simp: resolve_exact_turn_owner_def split: option.splits prod.splits if_splits)
  have cs: "cs = [k]" using t(4,5) by (cases cs) auto
  then obtain j where "valid_candidate db (en_invocation env) j = Some k"
    using turn_candidates_valid [OF t(3)] by (auto simp: all_valid_def)
  then obtain r where r: "get_by_run_id db j = Some r" "run_in_epoch (v, o') (en_invocation env) r"
    "r_run_id r = k"
    using t(2) by (auto simp: valid_candidate_def split: option.splits if_splits)
  then have "j = k" by (auto simp: get_by_run_id_def dest: run_row_ofD)
  have "\<not> event_foreign e \<and> set (event_claims db (en_invocation env) e) \<subseteq> {k}"
    if "row \<in> set (db_broker_events db)" "evidence_row env target v row"
      "parse_stored_event (map_event_row row) = Some e" "coordinates_match target (pe_coordinates e)"
    for row e
    using turn_candidates_facts [OF t(3) _ that(4)] evidence_row_listed [OF that(1-3)] cs by auto
  then show ?thesis
    using t(1,2) r \<open>j = k\<close> by blast
qed


section \<open>A concrete invocation\<close>

text \<open>
  A turn \<open>t1\<close> started by the submission \<open>x1\<close> of run \<open>r1\<close>, into which the steer \<open>x2\<close> of run \<open>r2\<close>
  was absorbed, and which completed.
\<close>

definition example_event :: "int \<Rightarrow> string \<Rightarrow> json_object \<Rightarrow> broker_event_row" where
  "example_event n ty payload = \<lparr>be_invocation_id = ''i'', be_seq = n,
     be_time = ''2026-10-22T08:00:00.000Z'', be_type = ty, be_run_id = None, be_runtime_id = ''rt'',
     be_harness_generation = None, be_turn_attempt = None, be_event_json = Some (JObj payload),
     be_envelope_json = None\<rparr>"

definition example_events :: "broker_event_row list" where
  "example_events =
     [example_event 1 ''turn.started'' [(''turnId'', JStr ''t1''), (''inputId'', JStr ''x1'')],
      example_event 2 ''admission.admitted'' [(''submissionId'', JStr ''x2''), (''class'', JStr ''steer'')],
      example_event 3 ''submission.absorbed'' [(''turnId'', JStr ''t1''), (''submissionId'', JStr ''x2'')],
      example_event 4 ''turn.completed'' [(''turnId'', JStr ''t1'')]]"

definition example_turn_run :: "string \<Rightarrow> string \<Rightarrow> string option \<Rightarrow> run_row" where
  "example_turn_run k x started = (example_run k RAccepted None None)\<lparr>r_runtime_id := Some ''rt'',
     r_invocation_id := Some ''i'', r_operation_id := Some ''op'', r_broker_submission_id := Some x,
     r_started_at := started, r_updated_at := ''2026-10-22T08:00:00.000Z''\<rparr>"

definition example_turns :: run_store where
  "example_turns = \<lparr>rs_db = \<lparr>db_sessions = [''hs''],
      db_runtimes = [\<lparr>rt_runtime_id = ''rt'', rt_status = ''ready'', rt_active_run_id = None,
        rt_last_activity_at = None, rt_updated_at = ''2026-10-22T08:00:00.000Z''\<rparr>],
      db_runs = [example_turn_run ''r1'' ''x1'' (Some ''2026-10-22T08:00:00.000Z''),
        example_turn_run ''r2'' ''x2'' None],
      db_operations = [\<lparr>op_operation_id = ''op'', op_runtime_id = ''rt'', op_generation = 1\<rparr>],
      db_invocations = [\<lparr>inv_invocation_id = ''i'', inv_operation_id = ''op'', inv_runtime_id = ''rt'',
        inv_state = ''ready''\<rparr>],
      db_broker_events = example_events\<rparr>, rs_reserved = (\<lambda>_. None)\<rparr>"

definition example_terminal :: envelope where
  "example_terminal = envelope_for_row (last example_events)"

theorem turn_owner_is_exact_witness:
  "\<exists>target v o' r. coordinates_for_envelope example_terminal = Some target
    \<and> historical_epoch (rs_db example_turns) (en_invocation example_terminal) = Some (v, o')
    \<and> get_by_run_id (rs_db example_turns) ''r1'' = Some r
    \<and> run_in_epoch (v, o') (en_invocation example_terminal) r"
proof -
  have "resolve_exact_turn_owner (rs_db example_turns) example_terminal = Some ''r1''" by code_simp
  from turn_owner_is_exact [OF this] show ?thesis by blast
qed

end
