(* ===== verification/Turn_Settlement.thy ===== *)
theory Turn_Settlement
  imports Turn_Evidence
begin

text \<open>
  Settling runs from turn evidence (hrc-server/src/broker/turn-ownership.ts, second half): steers
  absorbed into another turn coalesce into its owner, absorbed steers without a knowable owner are
  failed explicitly, and accepted runs that never started are settled by the turn their submission
  landed in. Every writer goes through the run repository; its patches bind no tuple column, so no
  reservation token is involved.
\<close>

section \<open>Loops with exceptions\<close>

text \<open>A \<open>for\<close> loop over statements that may throw: the first error ends it, the effects stay.\<close>

fun each_do :: "('a \<Rightarrow> run_store \<Rightarrow> unit run_outcome) \<Rightarrow> 'a list \<Rightarrow> run_store \<Rightarrow> unit run_outcome" where
  "each_do f [] s = (s, Inr ())"
| "each_do f (x # xs) s =
     (case f x s of (s', Inl e) \<Rightarrow> (s', Inl e) | (s', Inr _) \<Rightarrow> each_do f xs s')"

definition ignore_value :: "'a run_outcome \<Rightarrow> unit run_outcome" where
  "ignore_value r = (case r of (s, Inl e) \<Rightarrow> (s, Inl e) | (s, Inr _) \<Rightarrow> (s, Inr ()))"

section \<open>Absorbed steers\<close>

definition unresolved_owner_marker :: string where
  "unresolved_owner_marker = ''absorbed_submission_owner_unresolved''"

definition is_steer_submission :: "hrc_db \<Rightarrow> string \<Rightarrow> string \<Rightarrow> bool" where
  "is_steer_submission db i submission = list_ex (\<lambda>r.
     string_field (payload_for_row r) ''submissionId'' = Some submission
     \<and> Option.bind (payload_for_row r) (\<lambda>ob. jget ob ''class'') = Some (JStr ''steer''))
     (list_events db (events_of i [''admission.admitted'']))"

definition absorbed_rows :: "hrc_db \<Rightarrow> string \<Rightarrow> string option \<Rightarrow> broker_event_row list" where
  "absorbed_rows db runtimeId i =
     sort_key (\<lambda>r. (be_invocation_id r, be_seq r))
       (filter (\<lambda>r. be_runtime_id r = runtimeId \<and> be_type r = ''submission.absorbed''
           \<and> (or_default i [] = [] \<or> be_invocation_id r = or_default i []))
         (db_broker_events db))"

definition settle_auxiliary ::
  "string \<Rightarrow> string \<Rightarrow> string \<Rightarrow> string \<Rightarrow> run_store \<Rightarrow> unit run_outcome" where
  "settle_auxiliary i submission owner at s =
     (let db = rs_db s in
      case (historical_epoch db i, get_by_broker_submission_id db submission, get_by_run_id db owner) of
        (Some epoch, Some aux, Some _) \<Rightarrow>
          if r_run_id aux = owner \<or> \<not> is_steer_submission db i submission
             \<or> r_started_at aux \<noteq> None \<or> \<not> run_in_epoch epoch i aux
             \<or> valid_candidate db i owner = None
          then (s, Inr ())
          else if r_coalesced_into_run_id aux \<noteq> None \<and> r_coalesced_into_run_id aux \<noteq> Some owner
          then (s, Inl (plain_error (''absorbed auxiliary '' @ r_run_id aux @ '' already belongs to ''
                  @ or_default (r_coalesced_into_run_id aux) [])))
          else if r_coalesced_into_run_id aux = Some owner then (s, Inr ())
          else if r_status aux = RAccepted \<or> r_status aux = RCompleted
          then ignore_value (run_update (r_run_id aux)
                 (no_patch\<lparr>p_status := Some RCoalesced,
                    p_completed_at := Some (Some (or_default (r_completed_at aux) at)),
                    p_updated_at := Some at, p_coalesced_into_run_id := Some owner\<rparr>) None s)
          else if r_status aux \<in> {RFailed, RCancelled, RZombie}
          then ignore_value (run_update (r_run_id aux)
                 (no_patch\<lparr>p_coalesced_into_run_id := Some owner, p_updated_at := Some at\<rparr>) None s)
          else (s, Inr ())
      | _ \<Rightarrow> (s, Inr ()))"

definition settle_absorbed_auxiliary ::
  "envelope \<Rightarrow> string \<Rightarrow> string \<Rightarrow> run_store \<Rightarrow> unit run_outcome" where
  "settle_absorbed_auxiliary env owner now s =
     (case string_field (envelope_payload env) ''submissionId'' of
        None \<Rightarrow> (s, Inr ())
      | Some submission \<Rightarrow>
          if en_type env \<noteq> ''submission.absorbed'' then (s, Inr ())
          else settle_auxiliary (en_invocation env) submission owner (or_default (en_time env) now) s)"

text \<open>The submission a stored absorbed event of the target turn names.\<close>

definition absorbed_submission :: "turn_coordinates \<Rightarrow> broker_event_row \<Rightarrow> string option" where
  "absorbed_submission target r =
     (case parse_stored_event r of
        None \<Rightarrow> None
      | Some e \<Rightarrow> if coordinates_match target (pe_coordinates e) then pe_submission e else None)"

definition settle_prior_absorbed_auxiliaries ::
  "envelope \<Rightarrow> string \<Rightarrow> string \<Rightarrow> run_store \<Rightarrow> unit run_outcome" where
  "settle_prior_absorbed_auxiliaries env owner now s =
     (case coordinates_for_envelope env of
        None \<Rightarrow> (s, Inr ())
      | Some target \<Rightarrow> each_do
          (\<lambda>r s. case absorbed_submission target r of
                    None \<Rightarrow> (s, Inr ())
                  | Some submission \<Rightarrow> settle_auxiliary (en_invocation env) submission owner now s)
          (list_events (rs_db s)
             ((events_of (en_invocation env) [''submission.absorbed''])\<lparr>eq_turn := Some (tc_turn target)\<rparr>))
          s)"

text \<open>A steer absorbed into a turn without an owner run takes the outcome of that turn.\<close>

definition settle_unowned_steer ::
  "string \<Rightarrow> invocation_row \<times> operation_row \<Rightarrow> turn_coordinates \<Rightarrow> completion \<Rightarrow>
   broker_event_row \<Rightarrow> run_store \<Rightarrow> unit run_outcome" where
  "settle_unowned_steer i epoch target c r s =
     (case absorbed_submission target r of
        None \<Rightarrow> (s, Inr ())
      | Some submission \<Rightarrow>
          if \<not> is_steer_submission (rs_db s) i submission then (s, Inr ())
          else (case get_by_broker_submission_id (rs_db s) submission of
             None \<Rightarrow> (s, Inr ())
           | Some run \<Rightarrow>
               if r_status run \<noteq> RAccepted \<or> r_started_at run \<noteq> None
                  \<or> r_coalesced_into_run_id run \<noteq> None \<or> \<not> run_in_epoch epoch i run
               then (s, Inr ())
               else ignore_value (mark_completed (r_run_id run) c s)))"

definition settle_unowned_turn_absorbed_steers ::
  "envelope \<Rightarrow> run_status \<Rightarrow> string \<Rightarrow> run_store \<Rightarrow> unit run_outcome" where
  "settle_unowned_turn_absorbed_steers env outcome now s =
     (case (coordinates_for_envelope env, historical_epoch (rs_db s) (en_invocation env)) of
        (Some target, Some epoch) \<Rightarrow> each_do
          (settle_unowned_steer (en_invocation env) epoch target
             \<lparr>cm_status = outcome, cm_completed_at = or_default (en_time env) now,
              cm_updated_at = now, cm_error_code = None, cm_error_message = None\<rparr>)
          (list_events (rs_db s)
             ((events_of (en_invocation env) [''submission.absorbed''])\<lparr>
                eq_turn := Some (tc_turn target), eq_through := Some (en_seq env)\<rparr>))
          s
      | _ \<Rightarrow> (s, Inr ()))"

section \<open>Absorbed steers whose owner never became knowable\<close>

definition unresolved_marker :: "string option \<Rightarrow> bool" where
  "unresolved_marker m = (case m of None \<Rightarrow> False | Some t \<Rightarrow> js_includes t unresolved_owner_marker)"

definition unresolved_detail :: "string \<Rightarrow> string" where
  "unresolved_detail i = unresolved_owner_marker @ '': invocation '' @ i
     @ '' ended before exact turn ownership was established''"

text \<open>
  The steer run an absorbed row names: the unguarded \<open>JSON.parse\<close> throws on a text it rejects.
\<close>

definition absorbed_steer :: "hrc_db \<Rightarrow> broker_event_row \<Rightarrow> run_row option result" where
  "absorbed_steer db r =
     (case be_event_json r of
        None \<Rightarrow> Inl (plain_error ''SyntaxError'')
      | Some j \<Rightarrow> Inr
          (case string_field (json_record j) ''submissionId'' of
             None \<Rightarrow> None
           | Some submission \<Rightarrow>
               if is_steer_submission db (be_invocation_id r) submission
               then get_by_broker_submission_id db submission else None))"

definition fail_unresolved_row ::
  "string \<Rightarrow> broker_event_row \<Rightarrow> run_store \<Rightarrow> unit run_outcome" where
  "fail_unresolved_row now r s =
     (case absorbed_steer (rs_db s) r of
        Inl e \<Rightarrow> (s, Inl e)
      | Inr None \<Rightarrow> (s, Inr ())
      | Inr (Some run) \<Rightarrow>
          if r_started_at run \<noteq> None \<or> r_coalesced_into_run_id run \<noteq> None
             \<or> unresolved_marker (r_error_message run)
          then (s, Inr ())
          else if r_status run = RAccepted \<or> r_status run = RCompleted
          then ignore_value (mark_completed (r_run_id run)
                 \<lparr>cm_status = RFailed, cm_completed_at = or_default (r_completed_at run) now,
                  cm_updated_at = now, cm_error_code = Some ''runtime_unavailable'',
                  cm_error_message = Some (unresolved_detail (be_invocation_id r))\<rparr> s)
          else ignore_value (run_update (r_run_id run)
                 (no_patch\<lparr>p_updated_at := Some now, p_error_message := Some (Some
                    (case truthy (r_error_message run) of
                       None \<Rightarrow> unresolved_detail (be_invocation_id r)
                     | Some m \<Rightarrow> m @ ''; '' @ unresolved_detail (be_invocation_id r)))\<rparr>) None s))"

definition fail_unresolved_absorbed_auxiliaries ::
  "string \<Rightarrow> string option \<Rightarrow> string \<Rightarrow> run_store \<Rightarrow> unit run_outcome" where
  "fail_unresolved_absorbed_auxiliaries runtimeId i now s =
     each_do (fail_unresolved_row now) (absorbed_rows (rs_db s) runtimeId i) s"

definition invocation_is_terminal :: "hrc_db \<Rightarrow> string \<Rightarrow> bool" where
  "invocation_is_terminal db i =
     (case invocation_of db i of
        None \<Rightarrow> False | Some v \<Rightarrow> inv_state v \<in> {''exited'', ''failed'', ''disposed''})"

definition settle_terminal_invocation_absorbed_auxiliaries ::
  "string \<Rightarrow> string \<Rightarrow> run_store \<Rightarrow> unit run_outcome" where
  "settle_terminal_invocation_absorbed_auxiliaries runtimeId now s = each_do
     (\<lambda>i s. if invocation_is_terminal (rs_db s) i
        then fail_unresolved_absorbed_auxiliaries runtimeId (Some i) now s else (s, Inr ()))
     (fold js_set_add (map be_invocation_id (absorbed_rows (rs_db s) runtimeId None)) []) s"

definition turn_ended_unowned :: "hrc_db \<Rightarrow> string \<Rightarrow> string option \<Rightarrow> bool" where
  "turn_ended_unowned db i turn =
     (case turn of
        None \<Rightarrow> False
      | Some t \<Rightarrow> list_ex (\<lambda>r. be_run_id r = None)
          (list_events db ((events_of i turn_terminal_types)\<lparr>eq_turn := Some t\<rparr>)))"

definition unsettled_row :: "hrc_db \<Rightarrow> broker_event_row \<Rightarrow> bool result" where
  "unsettled_row db r = then_do (absorbed_steer db r) (\<lambda>run. Inr
     (case run of
        None \<Rightarrow> False
      | Some x \<Rightarrow> r_started_at x = None \<and> r_coalesced_into_run_id x = None
          \<and> \<not> unresolved_marker (r_error_message x)
          \<and> \<not> invocation_is_terminal db (be_invocation_id r)
          \<and> \<not> (r_completed_at x \<noteq> None
               \<and> turn_ended_unowned db (be_invocation_id r)
                   (string_field (payload_for_row r) ''turnId''))))"

fun some_unsettled :: "hrc_db \<Rightarrow> broker_event_row list \<Rightarrow> bool result" where
  "some_unsettled db [] = Inr False"
| "some_unsettled db (r # rs) =
     then_do (unsettled_row db r) (\<lambda>b. if b then Inr True else some_unsettled db rs)"

definition has_unsettled_absorbed_auxiliary :: "hrc_db \<Rightarrow> string \<Rightarrow> bool result" where
  "has_unsettled_absorbed_auxiliary db runtimeId =
     some_unsettled db (absorbed_rows db runtimeId None)"

section \<open>Accepted runs that never started\<close>

definition fate_missing_marker :: string where
  "fate_missing_marker = ''submission_fate_missing''"

definition submission_fate_types :: "string list" where
  "submission_fate_types = [''submission.executed'', ''submission.absorbed'', ''submission.rejected'',
     ''submission.expired'', ''submission.withdrawn'', ''submission.cancelled'', ''submission.lost'']"

definition settled_runtime_statuses :: "string list" where
  "settled_runtime_statuses = [''terminated'', ''crashed'', ''dead'', ''archived'', ''disposed'']"

record settlement =
  st_run :: string
  st_runtime :: string
  st_invocation :: string
  st_submission :: string
  st_action :: run_status
  st_turn :: "string option"
  st_owner :: "string option"
  st_completed_at :: "string option"
  st_error :: "string option"
  st_applied :: bool

record unstarted =
  un_run :: string
  un_runtime :: string
  un_invocation :: string
  un_submission :: string
  un_updated_at :: string

definition settle_as :: "unstarted \<Rightarrow> run_status \<Rightarrow> settlement" where
  "settle_as u action = \<lparr>st_run = un_run u, st_runtime = un_runtime u,
     st_invocation = un_invocation u, st_submission = un_submission u, st_action = action,
     st_turn = None, st_owner = None, st_completed_at = None, st_error = None, st_applied = False\<rparr>"

definition payload_submission_id :: "broker_event_row \<Rightarrow> string option" where
  "payload_submission_id r = orelse (string_field (payload_for_row r) ''submissionId'')
     (string_field (payload_for_row r) ''inputId'')"

definition submission_row :: "hrc_db \<Rightarrow> string \<Rightarrow> string list \<Rightarrow> string \<Rightarrow> broker_event_row option" where
  "submission_row db i types submission =
     List.find (\<lambda>r. payload_submission_id r = Some submission) (list_events db (events_of i types))"

definition terminal_outcome :: "string \<Rightarrow> run_status" where
  "terminal_outcome t = (if t = ''turn.completed'' then RCompleted
     else if t = ''turn.failed'' then RFailed
     else if t = ''turn.interrupted'' then RCancelled else RFailed)"

text \<open>The turn the submission landed in: its fate's own, or the turn open when a written steer was
  admitted.\<close>

definition landing_turn :: "hrc_db \<Rightarrow> unstarted \<Rightarrow> broker_event_row option \<Rightarrow> turn_coordinates option" where
  "landing_turn db u fate =
     (case fate of
        Some f \<Rightarrow> map_option pe_coordinates (parse_stored_event f)
      | None \<Rightarrow>
          if \<not> is_steer_submission db (un_invocation u) (un_submission u) then None
          else (case submission_row db (un_invocation u) [''admission.admitted''] (un_submission u) of
             None \<Rightarrow> None
           | Some admitted \<Rightarrow>
               if list_ex (\<lambda>r. payload_submission_id r = Some (un_submission u)
                    \<and> Option.bind (payload_for_row r) (\<lambda>ob. jget ob ''disposition'')
                        = Some (JStr ''attempted_steer''))
                  (list_events db (events_of (un_invocation u) [''input.accepted'']))
               then map_option pe_coordinates (turn_open_at db (un_invocation u) (be_seq admitted))
               else None))"

definition plan_terminal_turn ::
  "hrc_db \<Rightarrow> unstarted \<Rightarrow> broker_event_row option \<Rightarrow> turn_coordinates \<Rightarrow> broker_event_row \<Rightarrow> settlement" where
  "plan_terminal_turn db u fate turn terminal =
     (let outcome = terminal_outcome (be_type terminal);
          owner = (if is_steer_submission db (un_invocation u) (un_submission u)
                      \<and> map_option be_type fate \<noteq> Some ''submission.executed''
                   then resolve_exact_turn_owner db (envelope_for_row terminal) else None)
      in if owner \<noteq> None \<and> owner \<noteq> Some (un_run u)
         then (settle_as u RCoalesced)\<lparr>st_turn := Some (tc_turn turn), st_owner := owner,
                st_completed_at := Some (be_time terminal)\<rparr>
         else (settle_as u outcome)\<lparr>st_turn := Some (tc_turn turn),
                st_completed_at := Some (be_time terminal),
                st_error := (if outcome = RFailed
                  then Some (or_default (string_field (payload_for_row terminal) ''message'')
                               (be_type terminal)) else None)\<rparr>)"

definition fate_missing :: "unstarted \<Rightarrow> turn_coordinates option \<Rightarrow> settlement" where
  "fate_missing u turn = (settle_as u RFailed)\<lparr>st_turn := map_option tc_turn turn,
     st_error := Some (fate_missing_marker @ '': invocation '' @ un_invocation u @ '' recorded '' @
       (case turn of
          None \<Rightarrow> ''no turn evidence for submission '' @ un_submission u
        | Some t \<Rightarrow> ''submission '' @ un_submission u @ '' landed in turn '' @ tc_turn t
            @ '', which never ended''))\<rparr>"

definition plan_by_turn ::
  "hrc_db \<Rightarrow> unstarted \<Rightarrow> broker_event_row option \<Rightarrow> bool \<Rightarrow> settlement option" where
  "plan_by_turn db u fate runtime_settled =
     (let turn = landing_turn db u fate;
          terminal = Option.bind turn (turn_terminal db (un_invocation u))
      in case (turn, terminal) of
           (Some t, Some e) \<Rightarrow> Some (plan_terminal_turn db u fate t e)
         | _ \<Rightarrow>
             if \<not> runtime_settled \<and> invocation_has_open_turn db (un_invocation u) then None
             else Some (fate_missing u turn))"

definition plan_unstarted_submission :: "hrc_db \<Rightarrow> unstarted \<Rightarrow> bool \<Rightarrow> settlement option" where
  "plan_unstarted_submission db u runtime_settled =
     (let fate = submission_row db (un_invocation u) submission_fate_types (un_submission u) in
      case fate of
        Some f \<Rightarrow>
          if be_type f \<noteq> ''submission.executed'' \<and> be_type f \<noteq> ''submission.absorbed'' then
            (let reason = truthy (string_field (payload_for_row f) ''reason'');
                 cancelled = (be_type f = ''submission.withdrawn'' \<or> be_type f = ''submission.cancelled'')
             in Some ((settle_as u (if cancelled then RCancelled else RFailed))\<lparr>
                  st_completed_at := Some (be_time f),
                  st_error := (if cancelled then None else Some (be_type f @
                    (case reason of None \<Rightarrow> [] | Some t \<Rightarrow> '': '' @ t)))\<rparr>))
          else plan_by_turn db u (Some f) runtime_settled
      | None \<Rightarrow> plan_by_turn db u None runtime_settled)"

definition unstarted_of :: "run_row \<Rightarrow> unstarted option" where
  "unstarted_of r =
     (case (r_runtime_id r, r_invocation_id r, r_broker_submission_id r) of
        (Some t, Some i, Some x) \<Rightarrow>
          if r_status r = RAccepted \<and> r_started_at r = None \<and> r_completed_at r = None
          then Some \<lparr>un_run = r_run_id r, un_runtime = t, un_invocation = i, un_submission = x,
                 un_updated_at = r_updated_at r\<rparr>
          else None
      | _ \<Rightarrow> None)"

definition unstarted_runs :: "hrc_db \<Rightarrow> unstarted list" where
  "unstarted_runs db = sort_key (\<lambda>u. (un_updated_at u, un_run u))
     (List.map_filter unstarted_of (db_runs db))"

definition runtime_of :: "hrc_db \<Rightarrow> string \<Rightarrow> runtime_row option" where
  "runtime_of db t = row_get rt_runtime_id (db_runtimes db) t"

text \<open>
  The guards before a plan is made: the run and a live runtime have been quiet since the cutoff, no
  other unfinished run is active on the runtime, and the run belongs to the epoch of its invocation.
\<close>

definition sweep_ready :: "hrc_db \<Rightarrow> int \<Rightarrow> unstarted \<Rightarrow> runtime_row \<Rightarrow> bool" where
  "sweep_ready db cutoff u rt =
     (if \<not> dated_by (un_updated_at u) cutoff then False
      else if rt_status rt \<notin> set settled_runtime_statuses
        \<and> (rt_active_run_id rt \<noteq> None \<and> rt_active_run_id rt \<noteq> Some (un_run u)
             \<and> (case Option.bind (rt_active_run_id rt) (get_by_run_id db) of
                  None \<Rightarrow> True | Some claimed \<Rightarrow> r_completed_at claimed = None)
           \<or> \<not> dated_by (or_default (rt_last_activity_at rt) (rt_updated_at rt)) cutoff)
      then False
      else (case (historical_epoch db (un_invocation u), get_by_run_id db (un_run u)) of
              (Some (v, o'), Some r) \<Rightarrow> r_runtime_id r = Some (inv_runtime_id v)
                \<and> r_operation_id r = Some (inv_operation_id v) \<and> r_generation r = op_generation o'
            | _ \<Rightarrow> False))"

definition sweep_plan :: "hrc_db \<Rightarrow> int \<Rightarrow> unstarted \<Rightarrow> settlement option" where
  "sweep_plan db cutoff u =
     (case runtime_of db (un_runtime u) of
        None \<Rightarrow> None
      | Some rt \<Rightarrow> if sweep_ready db cutoff u rt
          then plan_unstarted_submission db u (rt_status rt \<in> set settled_runtime_statuses) else None)"

text \<open>The transaction that applies a plan: an error inside it rolls the store back.\<close>

definition apply_settlement :: "unstarted \<Rightarrow> settlement \<Rightarrow> string \<Rightarrow> string \<Rightarrow> run_store \<Rightarrow> bool run_outcome" where
  "apply_settlement u p at now s =
     (case get_by_run_id (rs_db s) (un_run u) of
        None \<Rightarrow> (s, Inr False)
      | Some current \<Rightarrow>
          if r_status current \<noteq> RAccepted \<or> r_completed_at current \<noteq> None
             \<or> r_started_at current \<noteq> None then (s, Inr False)
          else if st_action p = RCoalesced then
            (case settle_auxiliary (un_invocation u) (un_submission u) (or_default (st_owner p) []) at s of
               (s', Inl e) \<Rightarrow> (s, Inl e)
             | (s', Inr _) \<Rightarrow> (s', Inr (case get_by_run_id (rs_db s') (un_run u) of
                 None \<Rightarrow> False
               | Some r \<Rightarrow> r_coalesced_into_run_id r = Some (or_default (st_owner p) []))))
          else
            (case mark_completed (un_run u)
               \<lparr>cm_status = st_action p, cm_completed_at = at, cm_updated_at = now,
                cm_error_code = (case st_error p of
                  None \<Rightarrow> None
                | Some m \<Rightarrow> if starts_with m fate_missing_marker
                    then Some ''run_abandoned_by_runtime'' else None),
                cm_error_message = st_error p\<rparr> s of
               (s', Inl e) \<Rightarrow> (s, Inl e)
             | (s', Inr _) \<Rightarrow> (s', Inr True)))"

fun sweep_runs ::
  "int \<Rightarrow> bool \<Rightarrow> string \<Rightarrow> unstarted list \<Rightarrow> run_store \<Rightarrow> settlement list run_outcome" where
  "sweep_runs cutoff dry now [] s = (s, Inr [])"
| "sweep_runs cutoff dry now (u # us) s =
     (case sweep_plan (rs_db s) cutoff u of
        None \<Rightarrow> sweep_runs cutoff dry now us s
      | Some p \<Rightarrow>
          (let at = or_default (st_completed_at p) now; p' = p\<lparr>st_completed_at := Some at\<rparr>;
               more_of = (\<lambda>q r. case r of (s2, Inl e) \<Rightarrow> (s2, Inl e) | (s2, Inr qs) \<Rightarrow> (s2, Inr (q # qs)))
           in if dry then more_of (p'\<lparr>st_applied := False\<rparr>) (sweep_runs cutoff dry now us s)
              else (case apply_settlement u p' at now s of
                 (s', Inl e) \<Rightarrow> (s', Inl e)
               | (s', Inr b) \<Rightarrow> more_of (p'\<lparr>st_applied := b\<rparr>) (sweep_runs cutoff dry now us s'))))"

definition settle_unstarted_submission_runs ::
  "int \<Rightarrow> bool \<Rightarrow> string \<Rightarrow> run_store \<Rightarrow> settlement list run_outcome" where
  "settle_unstarted_submission_runs cutoff dry now s =
     sweep_runs cutoff dry now (unstarted_runs (rs_db s)) s"

end
