(* ===== verification/Queue_Snapshot.thy ===== *)
theory Queue_Snapshot
  imports Run_Histories "HOL-Library.Multiset"
begin

text \<open>
  The durable drain snapshot of the queued inputs of a host session
  (runtime-repositories.ts, \<open>snapshotQueuedByHostSessionId\<close>): what a fresh snapshot contains, and
  that later arrivals do not splice into one that is being drained.
\<close>

section \<open>Sorting\<close>

lemma insort_key_map: "insort_key f (g x) (map g xs) = map g (insort_key (\<lambda>a. f (g a)) x xs)"
  by (induction xs) auto

lemma sort_key_map: "sort_key f (map g xs) = map g (sort_key (f \<circ> g) xs)"
  by (induction xs) (auto simp: insort_key_map)

lemma insort_key_cong: "(\<And>y. y \<in> insert x (set xs) \<Longrightarrow> f y = g y) \<Longrightarrow> insort_key f x xs = insort_key g x xs"
  by (induction xs) auto

lemma sort_key_cong: "(\<And>y. y \<in> set xs \<Longrightarrow> f y = g y) \<Longrightarrow> sort_key f xs = sort_key g xs"
  by (induction xs) (auto intro!: insort_key_cong)

section \<open>A snapshot in flight\<close>

definition in_snapshot :: "string \<Rightarrow> string \<Rightarrow> run_row \<Rightarrow> bool" where
  "in_snapshot h sid r = (queued_for h r \<and> r_queue_snapshot_id r = Some sid)"

definition member_ids :: "run_store \<Rightarrow> string \<Rightarrow> string \<Rightarrow> string list" where
  "member_ids s h sid = map r_run_id (snapshot_members (rs_db s) h sid)"

definition still_queued :: "run_store \<Rightarrow> string \<Rightarrow> string \<Rightarrow> bool" where
  "still_queued s h k = (case run_row_of (rs_db s) k of None \<Rightarrow> False | Some r \<Rightarrow> queued_for h r)"

lemma still_queued_iff:
  "still_queued s h k \<longleftrightarrow> (\<exists>r. run_row_of (rs_db s) k = Some r \<and> queued_for h r)"
  by (auto simp: still_queued_def split: option.split)

lemma snapshot_members_in_snapshot:
  "snapshot_members db h sid = sort_key r_queue_snapshot_position (filter (in_snapshot h sid) (db_runs db))"
  unfolding snapshot_members_def in_snapshot_def ..

text \<open>
  The writers of a queue while a snapshot with the id \<open>sid\<close> is drained: new rows arrive without a
  snapshot, no patch touches the snapshot columns or the host session or puts a run back to
  \<open>queued\<close>, and another snapshot draws another id.
\<close>

fun drain_safe :: "string \<Rightarrow> run_op \<times> string option \<Rightarrow> bool" where
  "drain_safe sid (Insert r, tok) = (r_queue_snapshot_id r = None)"
| "drain_safe sid (Update k p, tok) = (p_status p \<noteq> Some RQueued \<and> p_queue_snapshot_id p = None
     \<and> p_queue_snapshot_position p = None \<and> p_host_session_id p = None)"
| "drain_safe sid (Complete k c, tok) = (cm_status c \<noteq> RQueued)"
| "drain_safe sid (Snapshot h sid' at, tok) = (sid' \<noteq> sid)"
| "drain_safe sid _ = True"

lemma row_snapshot [simp]:
  "r_queue_snapshot_id (complete_row c r) = r_queue_snapshot_id r"
  "r_queue_snapshot_id (claim_row cl r) = r_queue_snapshot_id r"
  "r_queue_snapshot_id (coalesce_row co r) = r_queue_snapshot_id r"
  "r_queue_snapshot_id (annotate_row j r) = r_queue_snapshot_id r"
  "r_queue_snapshot_id (snapshot_row sid n at r) = Some sid"
  "r_queue_snapshot_position (complete_row c r) = r_queue_snapshot_position r"
  "r_queue_snapshot_position (claim_row cl r) = r_queue_snapshot_position r"
  "r_queue_snapshot_position (coalesce_row co r) = r_queue_snapshot_position r"
  "r_queue_snapshot_position (annotate_row j r) = r_queue_snapshot_position r"
  "r_queue_snapshot_position (snapshot_row sid n at r) = Some n"
  "r_queue_snapshot_id (inserted_row r) = r_queue_snapshot_id r"
  "r_status (inserted_row r) = r_status r"
  "r_host_session_id (inserted_row r) = r_host_session_id r"
  by (simp_all add: complete_row_def claim_row_def coalesce_row_def annotate_row_def
      snapshot_row_def inserted_row_def)

lemma apply_patch_snapshot:
  "r_queue_snapshot_id (apply_patch p r) = orelse (p_queue_snapshot_id p) (r_queue_snapshot_id r)"
  "r_queue_snapshot_position (apply_patch p r) =
     orelse (p_queue_snapshot_position p) (r_queue_snapshot_position r)"
  by (simp_all add: apply_patch_def)

text \<open>What a drain-safe operation does to the row of a member or of a later arrival.\<close>

lemma rewritten_member:
  assumes "rewritten_by op db r r'" "drain_safe sid (op, tok)" "in_snapshot h sid r'"
  shows "in_snapshot h sid r \<and> r_queue_snapshot_position r' = r_queue_snapshot_position r"
  using assms(1)
proof (cases rule: rewritten_by_cases)
  case (update p)
  then show ?thesis
    using assms(2,3) effective_patch_status [of db "r_run_id r" p]
    by (cases "p_status p") (auto simp: in_snapshot_def queued_for_def apply_patch_snapshot
        apply_patch_tuple apply_patch_answer)
qed (use assms in \<open>auto simp: in_snapshot_def queued_for_def\<close>)

lemma rewritten_kept_member:
  assumes "rewritten_by op db r r'" "drain_safe sid (op, tok)" "in_snapshot h sid r" "queued_for h r'"
  shows "in_snapshot h sid r'"
  using assms(1)
proof (cases rule: rewritten_by_cases)
  case (update p)
  then show ?thesis
    using assms by (auto simp: in_snapshot_def apply_patch_snapshot)
qed (use assms in \<open>auto simp: in_snapshot_def queued_for_def\<close>)

lemma drain_rows:
  assumes safe: "drain_safe sid (op, tok)"
  obtains g new where "db_runs (rs_db (run_exec (op, tok) s)) = map g (db_runs (rs_db s)) @ new"
    "\<And>r. rewritten_by op (rs_db s) r (g r)" "\<And>r. r \<in> set new \<Longrightarrow> r_queue_snapshot_id r = None"
proof -
  obtain g new where g: "db_runs (rs_db (run_exec (op, tok) s)) = map g (db_runs (rs_db s)) @ new"
    "\<And>r. rewritten_by op (rs_db s) r (g r)" "appended_by op new"
    using run_exec_rows [of op s tok] by (rule rows_afterE) (rule that)
  have "\<And>r. r \<in> set new \<Longrightarrow> r_queue_snapshot_id r = None"
    using g(3) safe by (auto simp: appended_by_def)
  with g show ?thesis by (intro that)
qed

lemma distinct_ids_step:
  assumes "distinct (map r_run_id (db_runs (rs_db s)))"
  shows "distinct (map r_run_id (db_runs (rs_db (run_exec (op, tok) s))))"
proof -
  obtain g new where g: "db_runs (rs_db (run_exec (op, tok) s)) = map g (db_runs (rs_db s)) @ new"
    "\<And>r. rewritten_by op (rs_db s) r (g r)" "appended_by op new"
    using run_exec_rows [of op s tok] by (rule rows_afterE) (rule that)
  have keys: "map r_run_id (map g (db_runs (rs_db s))) = map r_run_id (db_runs (rs_db s))"
    using rewritten_by_key [OF g(2)] by simp
  show ?thesis
  proof (cases "\<exists>rec. op = Insert rec \<and> new = [inserted_row rec]")
    case False
    then have "new = []" using g(3) by (auto simp: appended_by_def)
    then show ?thesis using keys assms by (simp only: g(1) append_Nil2)
  next
    case True
    then obtain rec where rec: "op = Insert rec" "new = [inserted_row rec]" by blast
    have "db_runs (rs_db (run_exec (op, tok) s)) = db_runs (rs_db s)
        \<or> distinct (map r_run_id (db_runs (rs_db (run_exec (op, tok) s))))"
      unfolding rec run_exec.simps run_insert_def
      by (simp add: write_runs_def runs_constraints_def split: sum.split option.split)
    with assms show ?thesis by auto
  qed
qed

lemma row_of_member:
  assumes "distinct (map r_run_id (db_runs db))" "r \<in> set (db_runs db)"
  shows "run_row_of db (r_run_id r) = Some r"
proof -
  have "run_row_of db (r_run_id r) \<noteq> None"
    using assms(2) by (simp add: run_row_of_def row_get_None_iff)
  then obtain x where x: "run_row_of db (r_run_id r) = Some x" by blast
  then have "x \<in> set (db_runs db)" "r_run_id x = r_run_id r" by (auto dest: run_row_ofD)
  then show ?thesis using assms x by (auto simp: distinct_map dest: inj_onD)
qed

text \<open>The members after a drain-safe operation: those that are still queued, in their order.\<close>

lemma members_step:
  assumes safe: "drain_safe sid (op, tok)" and d: "distinct (map r_run_id (db_runs (rs_db s)))"
  shows "member_ids (run_exec (op, tok) s) h sid =
    filter (still_queued (run_exec (op, tok) s) h) (member_ids s h sid)"
proof -
  let ?s' = "run_exec (op, tok) s" and ?pos = r_queue_snapshot_position
  let ?M = "filter (in_snapshot h sid) (db_runs (rs_db s))"
  obtain g new where g: "db_runs (rs_db ?s') = map g (db_runs (rs_db s)) @ new"
    "\<And>r. rewritten_by op (rs_db s) r (g r)" "\<And>r. r \<in> set new \<Longrightarrow> r_queue_snapshot_id r = None"
    using drain_rows [OF safe, of s] by blast
  have d': "distinct (map r_run_id (db_runs (rs_db ?s')))" by (rule distinct_ids_step [OF d])
  have mem: "in_snapshot h sid (g r) \<longleftrightarrow> in_snapshot h sid r \<and> still_queued ?s' h (r_run_id r)"
    if "r \<in> set (db_runs (rs_db s))" for r
  proof -
    have "g r \<in> set (db_runs (rs_db ?s'))" using that by (simp add: g(1))
    then have "run_row_of (rs_db ?s') (r_run_id r) = Some (g r)"
      using row_of_member [OF d'] rewritten_by_key [OF g(2)] by metis
    then have "still_queued ?s' h (r_run_id r) \<longleftrightarrow> queued_for h (g r)"
      by (simp add: still_queued_iff)
    moreover have "in_snapshot h sid (g r) \<Longrightarrow> queued_for h (g r)"
      by (simp add: in_snapshot_def)
    ultimately show ?thesis
      using rewritten_member [OF g(2) safe, of h r] rewritten_kept_member [OF g(2) safe, of h r]
      by blast
  qed
  have pos: "?pos (g r) = ?pos r" if "in_snapshot h sid (g r)" for r
    using rewritten_member [OF g(2) safe that] by simp
  have none: "filter (in_snapshot h sid) new = []"
    using g(3) by (auto simp: filter_empty_conv in_snapshot_def)
  have "filter (in_snapshot h sid) (db_runs (rs_db ?s')) = map g (filter (in_snapshot h sid \<circ> g) (db_runs (rs_db s)))"
    by (simp add: g(1) none filter_map)
  also have "filter (in_snapshot h sid \<circ> g) (db_runs (rs_db s)) = filter (\<lambda>r. still_queued ?s' h (r_run_id r)) ?M"
    unfolding filter_filter by (rule filter_cong [OF refl]) (simp add: mem)
  finally have "snapshot_members (rs_db ?s') h sid =
      map g (sort_key (?pos \<circ> g) (filter (\<lambda>r. still_queued ?s' h (r_run_id r)) ?M))"
    by (simp add: snapshot_members_in_snapshot sort_key_map)
  also have "sort_key (?pos \<circ> g) (filter (\<lambda>r. still_queued ?s' h (r_run_id r)) ?M) =
      sort_key ?pos (filter (\<lambda>r. still_queued ?s' h (r_run_id r)) ?M)"
    using mem pos by (intro sort_key_cong) auto
  also have "\<dots> = filter (\<lambda>r. still_queued ?s' h (r_run_id r)) (snapshot_members (rs_db s) h sid)"
    by (simp add: snapshot_members_in_snapshot filter_sort)
  finally show ?thesis
    by (simp add: member_ids_def filter_map comp_def rewritten_by_key [OF g(2)])
qed

lemma rewritten_queued_back:
  assumes "rewritten_by op db r r'" "drain_safe sid (op, tok)" "queued_for h r'"
  shows "queued_for h r"
  using assms(1)
proof (cases rule: rewritten_by_cases)
  case (update p)
  then show ?thesis
    using assms(2,3) effective_patch_status [of db "r_run_id r" p]
    by (cases "p_status p") (auto simp: queued_for_def apply_patch_tuple apply_patch_answer)
qed (use assms in \<open>auto simp: queued_for_def\<close>)

lemma still_queued_back:
  assumes "drain_safe sid (op, tok)" "run_row_of (rs_db s) k \<noteq> None"
    "still_queued (run_exec (op, tok) s) h k"
  shows "still_queued s h k"
proof -
  from assms(2) obtain r where r: "run_row_of (rs_db s) k = Some r" by blast
  from run_exec_row [OF r, of op tok] obtain r' where
    "run_row_of (rs_db (run_exec (op, tok) s)) k = Some r'" "rewritten_by op (rs_db s) r r'" by blast
  then show ?thesis
    using rewritten_queued_back [OF _ assms(1)] assms(3) r by (auto simp: still_queued_iff)
qed

definition in_flight :: "string \<Rightarrow> string \<Rightarrow> run_store \<Rightarrow> bool" where
  "in_flight h sid s = list_all (\<lambda>r. snapshotted h r \<longrightarrow> r_queue_snapshot_id r = Some sid) (db_runs (rs_db s))"

lemma member_ids_row: "k \<in> set (member_ids s h sid) \<Longrightarrow> run_row_of (rs_db s) k \<noteq> None"
  by (auto simp: member_ids_def snapshot_members_def run_row_of_def row_get_None_iff)

lemma no_existing_snapshot:
  "existing_snapshot db h = None \<longleftrightarrow> (\<forall>r \<in> set (db_runs db). \<not> snapshotted h r)"
proof
  assume "existing_snapshot db h = None"
  then have "sort_key r_queued_input_seq (filter (snapshotted h) (db_runs db)) = []"
  proof (cases "sort_key r_queued_input_seq (filter (snapshotted h) (db_runs db))")
    case (Cons r rs)
    then have "r \<in> set (filter (snapshotted h) (db_runs db))"
      by (metis list.set_intros(1) set_sort)
    then show ?thesis
      using \<open>existing_snapshot db h = None\<close> Cons by (auto simp: existing_snapshot_def snapshotted_def)
  qed simp
  then show "\<forall>r \<in> set (db_runs db). \<not> snapshotted h r"
    by (metis filter_empty_conv set_empty set_sort)
qed (auto simp: existing_snapshot_def filter_empty_conv)

lemma existing_in_flight:
  assumes "in_flight h sid s" "existing_snapshot (rs_db s) h = Some x"
  shows "x = sid"
proof -
  from assms(2) obtain r rs where
    "sort_key r_queued_input_seq (filter (snapshotted h) (db_runs (rs_db s))) = r # rs"
    "r_queue_snapshot_id r = Some x" by (auto simp: existing_snapshot_def split: list.splits)
  moreover from this have "r \<in> set (filter (snapshotted h) (db_runs (rs_db s)))"
    by (metis list.set_intros(1) set_sort)
  ultimately show ?thesis using assms(1) by (auto simp: in_flight_def list_all_iff)
qed

lemma members_existing:
  assumes "in_flight h sid s" "member_ids s h sid \<noteq> []"
  shows "existing_snapshot (rs_db s) h = Some sid"
proof -
  from assms(2) obtain r where "r \<in> set (db_runs (rs_db s))" "snapshotted h r"
    by (auto simp: member_ids_def snapshot_members_def snapshotted_def filter_empty_conv
        simp flip: set_empty)
  then have "existing_snapshot (rs_db s) h \<noteq> None" by (auto simp: no_existing_snapshot)
  then show ?thesis using existing_in_flight [OF assms(1)] by blast
qed

lemma in_flight_step:
  assumes safe: "drain_safe sid (op, tok)" and d: "distinct (map r_run_id (db_runs (rs_db s)))"
    and fl: "in_flight h sid s" and ex: "existing_snapshot (rs_db s) h \<noteq> None"
  shows "in_flight h sid (run_exec (op, tok) s)"
proof -
  obtain g new where g: "db_runs (rs_db (run_exec (op, tok) s)) = map g (db_runs (rs_db s)) @ new"
    "\<And>r. rewritten_by op (rs_db s) r (g r)" "\<And>r. r \<in> set new \<Longrightarrow> r_queue_snapshot_id r = None"
    using drain_rows [OF safe, of s] by blast
  have "r_queue_snapshot_id (g r) = Some sid" if r: "r \<in> set (db_runs (rs_db s))" "snapshotted h (g r)" for r
  proof -
    have old: "snapshotted h r \<Longrightarrow> r_queue_snapshot_id r = Some sid"
      using fl r(1) by (auto simp: in_flight_def list_all_iff)
    have q: "queued_for h r"
      using rewritten_queued_back [OF g(2) safe] r(2) by (auto simp: snapshotted_def)
    from g(2) [of r] show ?thesis
    proof (cases rule: rewritten_by_cases)
      case (update p)
      then show ?thesis using old q r(2) safe by (auto simp: snapshotted_def apply_patch_snapshot)
    next
      case (snapshot h' sid' at n)
      then obtain x where x: "x \<in> set (db_runs (rs_db s))" "pending_snapshot h' x" "r_run_id x = r_run_id r"
        by auto
      then have "x = r" using d r(1) by (auto simp: distinct_map dest: inj_onD)
      then have "h' = h" using x(2) q by (auto simp: pending_snapshot_def queued_for_def)
      then show ?thesis using snapshot ex by simp
    qed (use old q r(2) in \<open>auto simp: snapshotted_def queued_for_def\<close>)
  qed
  then show ?thesis
    using g(3) by (auto simp: in_flight_def list_all_iff g(1) snapshotted_def)
qed

lemma distinct_ids_history:
  assumes "distinct (map r_run_id (db_runs (rs_db s)))"
  shows "distinct (map r_run_id (db_runs (rs_db (run_history ops s))))"
  unfolding run_history_def using assms
  by (induction ops arbitrary: s) (auto simp del: run_exec.simps intro!: distinct_ids_step)

lemma rows_history:
  assumes "run_row_of (rs_db s) k \<noteq> None"
  shows "run_row_of (rs_db (run_history ops s)) k \<noteq> None"
  unfolding run_history_def using assms
proof (induction ops arbitrary: s)
  case (Cons l ops)
  then show ?case using run_exec_row [of s k _ "fst l" "snd l"] by (cases l) fastforce
qed simp

lemma run_history_snoc: "run_history (ops @ [l]) s = run_exec l (run_history ops s)"
  by (simp add: run_history_def)

lemma members_history:
  assumes d: "distinct (map r_run_id (db_runs (rs_db s)))"
  shows "list_all (drain_safe sid) ops \<Longrightarrow> member_ids (run_history ops s) h sid =
     filter (still_queued (run_history ops s) h) (member_ids s h sid)"
proof (induction ops rule: rev_induct)
  case Nil
  have "still_queued s h k" if "k \<in> set (member_ids s h sid)" for k
  proof -
    from that obtain r where r: "r \<in> set (db_runs (rs_db s))" "queued_for h r" "k = r_run_id r"
      by (auto simp: member_ids_def snapshot_members_def)
    then show ?thesis using row_of_member [OF d r(1)] by (simp add: still_queued_iff)
  qed
  then show ?case by (simp add: run_history_def)
next
  case (snoc l ops)
  obtain op tok where l: "l = (op, tok)" by (cases l)
  let ?s = "run_history ops s" and ?s' = "run_exec (op, tok) (run_history ops s)"
  have safe: "drain_safe sid (op, tok)" using snoc.prems by (simp add: l)
  have was: "still_queued ?s' h k \<Longrightarrow> still_queued ?s h k" if "k \<in> set (member_ids s h sid)" for k
    using still_queued_back [OF safe rows_history [OF member_ids_row [OF that]]] .
  have "member_ids ?s' h sid = filter (still_queued ?s' h) (member_ids ?s h sid)"
    by (rule members_step [OF safe distinct_ids_history [OF d]])
  also have "\<dots> = filter (still_queued ?s' h) (filter (still_queued ?s h) (member_ids s h sid))"
    using snoc by simp
  also have "\<dots> = filter (still_queued ?s' h) (member_ids s h sid)"
    unfolding filter_filter using was by (intro filter_cong) auto
  finally show ?case unfolding run_history_snoc l .
qed

lemma in_flight_history:
  assumes d: "distinct (map r_run_id (db_runs (rs_db s)))" and fl: "in_flight h sid s"
  shows "list_all (drain_safe sid) ops \<Longrightarrow> member_ids (run_history ops s) h sid \<noteq> [] \<Longrightarrow>
    in_flight h sid (run_history ops s)"
proof (induction ops rule: rev_induct)
  case Nil
  then show ?case using fl by (simp add: run_history_def)
next
  case (snoc l ops)
  obtain op tok where l: "l = (op, tok)" by (cases l)
  let ?s = "run_history ops s"
  have safe: "drain_safe sid (op, tok)" using snoc.prems(1) by (simp add: l)
  have "member_ids (run_exec (op, tok) ?s) h sid = filter (still_queued (run_exec (op, tok) ?s) h) (member_ids ?s h sid)"
    by (rule members_step [OF safe distinct_ids_history [OF d]])
  then have ne: "member_ids ?s h sid \<noteq> []"
    using snoc.prems(2) by (auto simp: run_history_snoc l)
  then have fl': "in_flight h sid ?s" using snoc by simp
  have "existing_snapshot (rs_db ?s) h \<noteq> None"
    using members_existing [OF fl' ne] by simp
  then show ?case
    unfolding run_history_snoc l by (rule in_flight_step [OF safe distinct_ids_history [OF d] fl'])
qed

section \<open>Taking the snapshot\<close>

lemma snapshot_queued_existing:
  assumes "existing_snapshot (rs_db s) h = Some x"
  shows "snapshot_queued h sid at s = (s, Inr (map map_run_row (snapshot_members (rs_db s) h x)))"
  using assms by (simp add: snapshot_queued_def)

lemma snapshot_queued_returns:
  assumes "snd (snapshot_queued h sid at s) = Inr rows"
  shows "map r_run_id rows = member_ids (fst (snapshot_queued h sid at s)) h
    (or_default (existing_snapshot (rs_db s) h) sid)"
  using assms by (auto simp: snapshot_queued_def member_ids_def Let_def comp_def split: sum.splits)

lemma snapshot_in_flight:
  assumes "in_flight h x s" "existing_snapshot (rs_db s) h = Some x \<or> existing_snapshot (rs_db s) h = None \<and> x = sid"
  shows "in_flight h x (fst (snapshot_queued h sid at s))"
  using snapshot_queued_db [of h sid at s]
proof (elim disjE conjE)
  assume "rs_db (fst (snapshot_queued h sid at s)) = rs_db s"
  then show ?thesis using assms(1) by (simp add: in_flight_def)
next
  assume none: "existing_snapshot (rs_db s) h = None"
    and "assign_positions sid at
      (map r_run_id (sort_key r_queued_input_seq (filter (pending_snapshot h) (db_runs (rs_db s)))))
      0 (rs_db s) = Inr (rs_db (fst (snapshot_queued h sid at s)))"
  from assign_positions_rows [OF this(2)] obtain g where
    g: "db_runs (rs_db (fst (snapshot_queued h sid at s))) = map g (db_runs (rs_db s))"
      "\<And>r. g r = r \<or> (\<exists>m. g r = snapshot_row sid m at r)" by blast
  have "x = sid" using none assms(2) by simp
  then have "snapshotted h (g r) \<longrightarrow> r_queue_snapshot_id (g r) = Some x"
    if "r \<in> set (db_runs (rs_db s))" for r
    using g(2) [of r] none that by (auto simp: no_existing_snapshot)
  then show ?thesis by (auto simp: in_flight_def list_all_iff g(1))
qed

lemma in_flight_fresh: "existing_snapshot (rs_db s) h = None \<Longrightarrow> in_flight h sid s"
  by (simp add: no_existing_snapshot in_flight_def list_all_iff)

text \<open>
  C25. Later arrivals do not splice into a drain. After a snapshot of the queue of a host session,
  let any inserts, claims, coalescings, completions, patches and snapshots happen, none of which
  rewrites the snapshot columns or re-queues a run. As long as some member is still queued, every
  further snapshot, whatever id it offers, returns exactly the members that are still queued, in the
  order of the first snapshot.
\<close>

theorem snapshot_is_never_spliced:
  assumes "distinct (map r_run_id (db_runs (rs_db s)))" "in_flight h x s"
    "snd (snapshot_queued h sid at s) = Inr first"
    "list_all (drain_safe (or_default (existing_snapshot (rs_db s) h) sid)) ops"
    "s' = run_history ops (fst (snapshot_queued h sid at s))"
    "remaining = filter (still_queued s' h) (map r_run_id first)" "remaining \<noteq> []"
    "snd (snapshot_queued h sid2 at2 s') = Inr second"
  shows "map r_run_id second = remaining \<and> fst (snapshot_queued h sid2 at2 s') = s'"
proof -
  let ?x = "or_default (existing_snapshot (rs_db s) h) sid" and ?s1 = "fst (snapshot_queued h sid at s)"
  have d1: "distinct (map r_run_id (db_runs (rs_db ?s1)))"
    using distinct_ids_step [OF assms(1), of "Snapshot h sid at" None] by simp
  have fl: "in_flight h ?x s"
    using assms(2) existing_in_flight [OF assms(2)] in_flight_fresh [of s h sid]
    by (cases "existing_snapshot (rs_db s) h") auto
  have fl1: "in_flight h ?x ?s1"
    by (rule snapshot_in_flight [OF fl]) (cases "existing_snapshot (rs_db s) h"; simp)
  have first: "map r_run_id first = member_ids ?s1 h ?x"
    by (rule snapshot_queued_returns [OF assms(3)])
  have m: "member_ids s' h ?x = remaining"
    using members_history [OF d1 assms(4), of h] unfolding assms(5,6) first .
  then have "existing_snapshot (rs_db s') h = Some ?x"
    using in_flight_history [OF d1 fl1 assms(4)] assms(5,7) by (intro members_existing) simp_all
  note ex = this
  have "map r_run_id second = member_ids s' h ?x"
    using snapshot_queued_returns [OF assms(8)] unfolding snapshot_queued_existing [OF ex] ex by simp
  then show ?thesis using m snapshot_queued_existing [OF ex] by simp
qed


definition example_drain :: run_store where
  "example_drain = run_history
     [(Insert (example_run ''r4'' RQueued None (Some 3)), None), (Claim ''r2'' example_claim, None)]
     (fst (snapshot_queued ''hs'' ''snap'' ''2028'' example_three))"

theorem snapshot_is_never_spliced_witness:
  "map r_run_id (projr (snd (snapshot_queued ''hs'' ''late'' ''2029'' example_drain))) = [''r3'']
   \<and> fst (snapshot_queued ''hs'' ''late'' ''2029'' example_drain) = example_drain"
  by (rule snapshot_is_never_spliced [of example_three "''hs''" "''snap''" "''snap''" "''2028''"
        "projr (snd (snapshot_queued ''hs'' ''snap'' ''2028'' example_three))"
        "[(Insert (example_run ''r4'' RQueued None (Some 3)), None), (Claim ''r2'' example_claim, None)]"])
    (code_simp, code_simp, code_simp, code_simp, simp add: example_drain_def, code_simp, simp, code_simp)

section \<open>A fresh snapshot\<close>

text \<open>What the position loop leaves behind, in one rewriting of the rows.\<close>

definition mark_positions :: "string \<Rightarrow> string \<Rightarrow> string list \<Rightarrow> nat \<Rightarrow> run_row \<Rightarrow> run_row" where
  "mark_positions sid at ks n r =
     (if r_status r = RQueued \<and> r_queue_snapshot_id r = None
      then (case map_of (zip ks [n..<n + length ks]) (r_run_id r) of
              None \<Rightarrow> r | Some i \<Rightarrow> snapshot_row sid (int i) at r)
      else r)"

lemma mark_positions_other:
  assumes "r_run_id r \<notin> set ks"
  shows "mark_positions sid at ks n r = r"
proof -
  have "map_of (zip ks [n..<n + length ks]) (r_run_id r) = None"
    using assms by (auto simp: map_of_eq_None_iff dest: set_zip_leftD)
  then show ?thesis unfolding mark_positions_def by (simp only: option.case if_cancel)
qed

lemma snapshot_row_constraints:
  assumes "\<And>r. f r = r \<or> (\<exists>n. f r = snapshot_row sid n at r)"
  shows "runs_constraints db (map f rows) = runs_constraints db rows"
proof -
  have f: "r_run_id (f r) = r_run_id r" "r_queued_input_seq (f r) = r_queued_input_seq r"
    "dispatch_key (f r) = dispatch_key r" "r_broker_submission_id (f r) = r_broker_submission_id r"
    "r_turn_key (f r) = r_turn_key r" "foreign_keys_hold db (f r) = foreign_keys_hold db r" for r
    using assms [of r] by (auto simp: snapshot_row_def dispatch_key_def foreign_keys_hold_def)
  show ?thesis
    by (simp add: runs_constraints_def unique_when_def f comp_def list_all_iff)
qed

lemma distinct_mapI: "distinct (map f xs) \<Longrightarrow> distinct xs"
  by (simp add: distinct_map)

lemma filter_eq_single: "distinct xs \<Longrightarrow> x \<in> set xs \<Longrightarrow> filter (\<lambda>y. y = x) xs = [x]"
  by (induction xs) (auto simp: filter_empty_conv)

lemma zip_upt_Cons: "zip (k # ks) [n..<n + length (k # ks)] = (k, n) # zip ks [Suc n..<Suc n + length ks]"
  by (simp add: upt_rec)

lemma assign_positions_marks:
  "runs_constraints db (db_runs db) \<Longrightarrow> distinct ks \<Longrightarrow>
   (\<forall>k \<in> set ks. \<exists>r. run_row_of db k = Some r \<and> r_status r = RQueued \<and> r_queue_snapshot_id r = None) \<Longrightarrow>
   assign_positions sid at ks n db = Inr (db\<lparr>db_runs := map (mark_positions sid at ks n) (db_runs db)\<rparr>)"
proof (induction ks arbitrary: n db)
  case Nil
  have "mark_positions sid at [] n r = r" for r by (simp add: mark_positions_def)
  then show ?case by simp
next
  case (Cons k ks)
  let ?c = "\<lambda>r. queued_run k r \<and> r_queue_snapshot_id r = None"
  let ?f = "\<lambda>r. if ?c r then snapshot_row sid (int n) at r else r"
  let ?db1 = "db\<lparr>db_runs := map ?f (db_runs db)\<rparr>"
  have d: "distinct (map r_run_id (db_runs db))"
    using Cons.prems(1) by (rule runs_constraints_distinct)
  obtain r where r: "run_row_of db k = Some r" "r_status r = RQueued" "r_queue_snapshot_id r = None"
    using Cons.prems(3) by auto
  have one: "filter ?c (db_runs db) = [r]"
  proof -
    have "\<forall>x \<in> set (db_runs db). ?c x \<longleftrightarrow> x = r"
      using r d run_row_ofD [OF r(1)] by (auto simp: queued_run_def distinct_map dest: inj_onD)
    then have "filter ?c (db_runs db) = filter (\<lambda>x. x = r) (db_runs db)"
      by (intro filter_cong) auto
    also have "\<dots> = [r]"
      by (rule filter_eq_single [OF distinct_mapI [OF d]]) (use run_row_ofD [OF r(1)] in simp)
    finally show ?thesis .
  qed
  have c1: "runs_constraints db (map ?f (db_runs db))"
    using Cons.prems(1) by (subst snapshot_row_constraints) auto
  have u: "update_where ?c (snapshot_row sid (int n) at) db = Inr (?db1, 1)"
    unfolding update_where_Inr_iff one using c1 by simp
  have rows1: "run_row_of ?db1 j = map_option ?f (run_row_of db j)" for j
    by (rule update_where_row [OF u]) simp
  have "assign_positions sid at ks (Suc n) ?db1 =
      Inr (?db1\<lparr>db_runs := map (mark_positions sid at ks (Suc n)) (db_runs ?db1)\<rparr>)"
  proof (rule Cons.IH)
    show "runs_constraints ?db1 (db_runs ?db1)"
      using c1 by simp
    show "distinct ks" using Cons.prems(2) by simp
    show "\<forall>j \<in> set ks. \<exists>r. run_row_of ?db1 j = Some r \<and> r_status r = RQueued \<and> r_queue_snapshot_id r = None"
    proof
      fix j assume j: "j \<in> set ks"
      then obtain x where x: "run_row_of db j = Some x" "r_status x = RQueued" "r_queue_snapshot_id x = None"
        using Cons.prems(3) by auto
      have "j \<noteq> k" using j Cons.prems(2) by auto
      then have "run_row_of ?db1 j = Some x"
        unfolding rows1 using x(1) run_row_ofD [OF x(1)] by (simp add: queued_run_def)
      then show "\<exists>r. run_row_of ?db1 j = Some r \<and> r_status r = RQueued \<and> r_queue_snapshot_id r = None"
        using x by blast
    qed
  qed
  moreover have "mark_positions sid at ks (Suc n) (?f x) = mark_positions sid at (k # ks) n x" for x
    unfolding mark_positions_def zip_upt_Cons by (cases "r_run_id x = k"; cases "map_of (zip ks [Suc n..<Suc n + length ks]) (r_run_id x)") (auto simp: queued_run_def)
  ultimately show ?case
    using u by (simp add: comp_def)
qed


lemma snapshot_position_order:
  assumes "distinct (map f xs)" "\<And>i. i < length xs \<Longrightarrow> pos (xs ! i) = Some (int i)"
    "mset ys = mset xs"
  shows "sort_key pos ys = xs"
proof (rule sort_key_inj_key_eq)
  show "mset ys = mset xs" by (rule assms(3))
  have pos: "map pos xs = map (\<lambda>i. Some (int i)) [0..<length xs]"
    using assms(2) by (intro nth_equalityI) simp_all
  show "inj_on pos (set ys)"
  proof -
    have "distinct (map pos xs)"
      unfolding pos by (simp add: distinct_map inj_on_def)
    then show ?thesis
      using mset_eq_setD [OF assms(3)] by (simp add: distinct_map)
  qed
  show "sorted (map pos xs)"
    unfolding pos by (simp add: sorted_iff_nth_mono)
qed

text \<open>The pending inputs in queue order, and the table after they have got their positions.\<close>

definition pending_rows :: "hrc_db \<Rightarrow> string \<Rightarrow> run_row list" where
  "pending_rows db h = sort_key r_queued_input_seq (filter (pending_snapshot h) (db_runs db))"

definition mark_pending :: "hrc_db \<Rightarrow> string \<Rightarrow> string \<Rightarrow> string \<Rightarrow> run_row \<Rightarrow> run_row" where
  "mark_pending db h sid at = mark_positions sid at (map r_run_id (pending_rows db h)) 0"

lemma set_pending_rows [simp]: "r \<in> set (pending_rows db h) \<longleftrightarrow> r \<in> set (db_runs db) \<and> pending_snapshot h r"
  by (simp add: pending_rows_def)

lemma distinct_pending_rows:
  "distinct (map r_run_id (db_runs db)) \<Longrightarrow> distinct (map r_run_id (pending_rows db h))"
  by (simp add: pending_rows_def distinct_map distinct_filter inj_on_def)

lemma fresh_marks:
  assumes "runs_constraints db (db_runs db)"
  shows "assign_positions sid at (map r_run_id (pending_rows db h)) 0 db =
    Inr (db\<lparr>db_runs := map (mark_pending db h sid at) (db_runs db)\<rparr>)"
  unfolding mark_pending_def
proof (rule assign_positions_marks [OF assms])
  have d: "distinct (map r_run_id (db_runs db))" using assms by (rule runs_constraints_distinct)
  show "distinct (map r_run_id (pending_rows db h))" by (rule distinct_pending_rows [OF d])
  show "\<forall>k \<in> set (map r_run_id (pending_rows db h)). \<exists>r. run_row_of db k = Some r \<and> r_status r = RQueued
      \<and> r_queue_snapshot_id r = None"
    using row_of_member [OF d] by (fastforce simp: pending_snapshot_def queued_for_def)
qed

lemma marked_position:
  assumes d: "distinct (map r_run_id (db_runs db))" and i: "i < length (pending_rows db h)"
  shows "mark_pending db h sid at (pending_rows db h ! i) = snapshot_row sid (int i) at (pending_rows db h ! i)"
proof -
  let ?P = "pending_rows db h" let ?ks = "map r_run_id ?P"
  have "map_of (zip ?ks [0..<length ?ks]) (r_run_id (?P ! i)) = Some i"
    using distinct_pending_rows [OF d, of h] i
    by (intro map_of_is_SomeI) (auto simp: in_set_zip intro!: exI [of _ i])
  moreover have "pending_snapshot h (?P ! i)" using nth_mem [OF i] by simp
  ultimately show ?thesis
    by (simp add: mark_pending_def mark_positions_def pending_snapshot_def queued_for_def)
qed

lemma mark_pending_member:
  assumes d: "distinct (map r_run_id (db_runs db))" and fresh: "existing_snapshot db h = None"
    and r: "r \<in> set (db_runs db)"
  shows "in_snapshot h sid (mark_pending db h sid at r) \<longleftrightarrow> pending_snapshot h r"
proof (cases "pending_snapshot h r")
  case True
  then obtain i where i: "i < length (pending_rows db h)" "pending_rows db h ! i = r"
    using r by (metis in_set_conv_nth set_pending_rows)
  then have "mark_pending db h sid at r = snapshot_row sid (int i) at r"
    using marked_position [OF d] by metis
  then show ?thesis using True by (simp add: in_snapshot_def pending_snapshot_def queued_for_def)
next
  case False
  have "r_run_id r \<notin> set (map r_run_id (pending_rows db h))"
    using d r False by (auto simp: distinct_map dest: inj_onD)
  then have "mark_pending db h sid at r = r" unfolding mark_pending_def by (rule mark_positions_other)
  moreover have "\<not> snapshotted h r" using fresh r by (simp add: no_existing_snapshot)
  ultimately show ?thesis using False by (simp add: in_snapshot_def snapshotted_def)
qed

lemma mark_pending_id [simp]: "r_run_id (mark_pending db h sid at r) = r_run_id r"
  by (simp add: mark_pending_def mark_positions_def split: option.split)

lemma fresh_members:
  assumes d: "distinct (map r_run_id (db_runs db))" and fresh: "existing_snapshot db h = None"
  shows "snapshot_members (db\<lparr>db_runs := map (mark_pending db h sid at) (db_runs db)\<rparr>) h sid =
    map (mark_pending db h sid at) (pending_rows db h)"
  unfolding snapshot_members_in_snapshot
proof (rule snapshot_position_order [where f = r_run_id])
  let ?m = "mark_pending db h sid at"
  show "distinct (map r_run_id (map ?m (pending_rows db h)))"
    using distinct_pending_rows [OF d] by (simp add: comp_def)
  show "r_queue_snapshot_position (map ?m (pending_rows db h) ! i) = Some (int i)"
    if "i < length (map ?m (pending_rows db h))" for i
    using that marked_position [OF d, of i] by simp
  have "filter (in_snapshot h sid) (map ?m (db_runs db)) = map ?m (filter (pending_snapshot h) (db_runs db))"
    using mark_pending_member [OF d fresh] by (simp add: filter_map comp_def cong: filter_cong)
  then show "mset (filter (in_snapshot h sid) (db_runs (db\<lparr>db_runs := map ?m (db_runs db)\<rparr>))) =
      mset (map ?m (pending_rows db h))"
    by (simp add: pending_rows_def)
qed

text \<open>
  A fresh snapshot is the whole queue in arrival order. When no snapshot of the host session is
  being drained and the table satisfies its constraints, taking one cannot fail, and it returns every
  queued input of the session exactly once, in the order of its queue sequence.
\<close>

theorem fresh_snapshot_takes_whole_queue:
  assumes "runs_constraints (rs_db s) (db_runs (rs_db s))" "existing_snapshot (rs_db s) h = None"
  shows "\<exists>rows. snd (snapshot_queued h sid at s) = Inr rows
    \<and> map r_run_id rows = map r_run_id (list_queued_by_host_session_id (rs_db s) h)"
proof -
  let ?db = "rs_db s"
  let ?db' = "?db\<lparr>db_runs := map (mark_pending ?db h sid at) (db_runs ?db)\<rparr>"
  have "snd (snapshot_queued h sid at s) = Inr (map map_run_row (snapshot_members ?db' h sid))"
    using fresh_marks [OF assms(1), of sid at h] assms(2)
    by (simp add: snapshot_queued_def Let_def pending_rows_def)
  moreover have "filter (pending_snapshot h) (db_runs ?db) = filter (queued_for h) (db_runs ?db)"
    using assms(2) by (intro filter_cong) (auto simp: no_existing_snapshot pending_snapshot_def snapshotted_def)
  then have "map r_run_id (map map_run_row (snapshot_members ?db' h sid)) =
      map r_run_id (list_queued_by_host_session_id ?db h)"
    unfolding fresh_members [OF runs_constraints_distinct [OF assms(1)] assms(2)]
    by (simp add: list_queued_by_host_session_id_def comp_def pending_rows_def)
  ultimately show ?thesis by blast
qed

theorem fresh_snapshot_takes_whole_queue_witness:
  "\<exists>rows. snd (snapshot_queued ''hs'' ''snap'' ''2028'' example_three) = Inr rows
    \<and> map r_run_id rows = map r_run_id (list_queued_by_host_session_id (rs_db example_three) ''hs'')"
proof (rule fresh_snapshot_takes_whole_queue)
  show "runs_constraints (rs_db example_three) (db_runs (rs_db example_three))" by code_simp
  show "existing_snapshot (rs_db example_three) ''hs'' = None" by code_simp
qed

end
