(* ===== verification/Settlement_Histories.thy ===== *)
theory Settlement_Histories
  imports Turn_Settlement Queue_Snapshot
begin

text \<open>
  What settlements guarantee: they never touch a run that has started, absorbed steers whose owner
  cannot become known are accounted for after the explicit failure, and what a sweep reports as
  applied is what the row says afterwards.
\<close>

section \<open>Histories of settlement\<close>

datatype settle_op =
    SettleAbsorbed envelope string string
  | SettlePrior envelope string string
  | SettleUnowned envelope run_status string
  | FailUnresolved string "string option" string
  | SettleTerminal string string
  | SweepUnstarted int bool string

fun settle_exec :: "settle_op \<Rightarrow> run_store \<Rightarrow> run_store" where
  "settle_exec (SettleAbsorbed env owner now) s = fst (settle_absorbed_auxiliary env owner now s)"
| "settle_exec (SettlePrior env owner now) s = fst (settle_prior_absorbed_auxiliaries env owner now s)"
| "settle_exec (SettleUnowned env outcome now) s =
     fst (settle_unowned_turn_absorbed_steers env outcome now s)"
| "settle_exec (FailUnresolved t i now) s = fst (fail_unresolved_absorbed_auxiliaries t i now s)"
| "settle_exec (SettleTerminal t now) s =
     fst (settle_terminal_invocation_absorbed_auxiliaries t now s)"
| "settle_exec (SweepUnstarted cutoff dry now) s =
     fst (settle_unstarted_submission_runs cutoff dry now s)"

definition settle_history :: "settle_op list \<Rightarrow> run_store \<Rightarrow> run_store" where
  "settle_history ops s = fold settle_exec ops s"

text \<open>
  Every settlement writes through \<open>update\<close> and \<open>markCompleted\<close>, on the row of a run that has not
  started. So an invariant that such writes keep is kept by every settlement.
\<close>

locale unstarted_writes =
  fixes keeps_to :: "run_store \<Rightarrow> bool"
  assumes patched: "keeps_to s \<Longrightarrow> run_row_of (rs_db s) k = Some r \<Longrightarrow> r_started_at r = None \<Longrightarrow>
      keeps_to (fst (run_update k p None s))"
    and completed: "keeps_to s \<Longrightarrow> run_row_of (rs_db s) k = Some r \<Longrightarrow> r_started_at r = None \<Longrightarrow>
      keeps_to (fst (mark_completed k c s))"
    and unique_ids: "keeps_to s \<Longrightarrow> distinct (map r_run_id (db_runs (rs_db s)))"
begin

lemma patched_of:
  assumes "keeps_to s" "get_by_broker_submission_id (rs_db s) x = Some a" "r_started_at a = None"
  shows "keeps_to (fst (run_update (r_run_id a) p None s))"
    and "keeps_to (fst (mark_completed (r_run_id a) c s))"
proof -
  from assms(2) obtain y where y: "y \<in> set (db_runs (rs_db s))" "a = map_run_row y"
    by (auto simp: get_by_broker_submission_id_def first_run_def dest: find_SomeD)
  then have "run_row_of (rs_db s) (r_run_id a) = Some y" "r_started_at y = None"
    using row_of_member [OF unique_ids [OF assms(1)] y(1)] assms(3) by simp_all
  then show "keeps_to (fst (run_update (r_run_id a) p None s))"
    and "keeps_to (fst (mark_completed (r_run_id a) c s))"
    using patched [OF assms(1)] completed [OF assms(1)] by blast+
qed

lemma ignored: "fst (ignore_value r) = fst r"
  by (auto simp: ignore_value_def split: prod.split sum.split)

lemma each: "(\<And>x s. keeps_to s \<Longrightarrow> keeps_to (fst (f x s))) \<Longrightarrow> keeps_to s \<Longrightarrow>
    keeps_to (fst (each_do f xs s))"
proof (induction xs arbitrary: s)
  case (Cons x xs)
  obtain s' r where s': "f x s = (s', r)" by (cases "f x s")
  then have "keeps_to s'" using Cons.prems(1) [OF Cons.prems(2), of x] by simp
  then show ?case using Cons.IH [OF Cons.prems(1)] by (cases r) (auto simp: s')
qed simp

lemma auxiliary: "keeps_to s \<Longrightarrow> keeps_to (fst (settle_auxiliary i x owner at s))"
  by (auto simp: settle_auxiliary_def Let_def ignored split: option.split intro: patched_of)

lemma absorbed: "keeps_to s \<Longrightarrow> keeps_to (fst (settle_absorbed_auxiliary env owner now s))"
  by (auto simp: settle_absorbed_auxiliary_def auxiliary split: option.split)

lemma prior: "keeps_to s \<Longrightarrow> keeps_to (fst (settle_prior_absorbed_auxiliaries env owner now s))"
  by (auto simp: settle_prior_absorbed_auxiliaries_def split: option.split intro!: each auxiliary)

lemma unowned_steer: "keeps_to s \<Longrightarrow> keeps_to (fst (settle_unowned_steer i epoch target c r s))"
  by (auto simp: settle_unowned_steer_def ignored split: option.split intro: patched_of)

lemma unowned: "keeps_to s \<Longrightarrow> keeps_to (fst (settle_unowned_turn_absorbed_steers env outcome now s))"
  by (auto simp: settle_unowned_turn_absorbed_steers_def split: option.split intro!: each unowned_steer)

lemma absorbed_steer_submission:
  "absorbed_steer db r = Inr (Some run) \<Longrightarrow> \<exists>x. get_by_broker_submission_id db x = Some run"
  by (auto simp: absorbed_steer_def split: option.splits if_splits)

lemma unresolved_row: "keeps_to s \<Longrightarrow> keeps_to (fst (fail_unresolved_row now r s))"
  by (auto simp: fail_unresolved_row_def ignored split: sum.split option.split
      dest!: absorbed_steer_submission intro: patched_of)

lemma unresolved: "keeps_to s \<Longrightarrow> keeps_to (fst (fail_unresolved_absorbed_auxiliaries t i now s))"
  by (simp add: fail_unresolved_absorbed_auxiliaries_def each unresolved_row)

lemma terminal: "keeps_to s \<Longrightarrow>
    keeps_to (fst (settle_terminal_invocation_absorbed_auxiliaries t now s))"
  unfolding settle_terminal_invocation_absorbed_auxiliaries_def
  by (rule each) (simp_all add: unresolved)

lemma rolled_back:
  "keeps_to s \<Longrightarrow> keeps_to (fst r) \<Longrightarrow>
   keeps_to (fst (case r of (s', Inl e) \<Rightarrow> (s, Inl e) | (s', Inr v) \<Rightarrow> (s', g s' v)))"
  by (cases r) (auto split: sum.split)

lemma applied:
  assumes k: "keeps_to s"
  shows "keeps_to (fst (apply_settlement u p at now s))"
proof (cases "get_by_run_id (rs_db s) (un_run u)")
  case (Some r)
  show ?thesis
  proof (cases "r_status r \<noteq> RAccepted \<or> r_completed_at r \<noteq> None \<or> r_started_at r \<noteq> None")
    case False
    then have "keeps_to (fst (mark_completed (un_run u) c s))" for c
      using Some completed [OF k, of "un_run u"] by (auto simp: get_by_run_id_def)
    then show ?thesis
      unfolding apply_settlement_def Some option.case if_not_P [OF False]
      using auxiliary [OF k] by (simp add: rolled_back [OF k])
  qed (use k Some in \<open>simp add: apply_settlement_def\<close>)
qed (use k in \<open>simp add: apply_settlement_def\<close>)

lemma swept_runs: "keeps_to s \<Longrightarrow> keeps_to (fst (sweep_runs cutoff dry now us s))"
proof (induction us arbitrary: s)
  case (Cons u us)
  have "keeps_to s' \<Longrightarrow> keeps_to (fst (sweep_runs cutoff dry now us s'))" for s'
    by (rule Cons.IH)
  moreover have "keeps_to s'" if "apply_settlement u p at now s = (s', r)" for p at s' r
    using applied [OF Cons.prems, of u p at now] that by simp
  ultimately show ?case
    using Cons.prems by (fastforce simp: Let_def split: option.split prod.splits sum.splits)
qed simp

lemma settled: "keeps_to s \<Longrightarrow> keeps_to (settle_exec op s)"
  by (cases op) (simp_all add: absorbed prior unowned unresolved terminal swept_runs
      settle_unstarted_submission_runs_def)

lemma settled_history: "keeps_to s \<Longrightarrow> keeps_to (settle_history ops s)"
  unfolding settle_history_def by (induction ops arbitrary: s) (simp_all add: settled)

end

text \<open>A run that has started, with its row.\<close>

definition started_as :: "string \<Rightarrow> run_row \<Rightarrow> run_store \<Rightarrow> bool" where
  "started_as k row s = (distinct (map r_run_id (db_runs (rs_db s)))
     \<and> run_row_of (rs_db s) k = Some row \<and> r_started_at row \<noteq> None)"

lemma rewritten_elsewhere:
  assumes "rewritten_by (Update k' p) db r r' \<or> rewritten_by (Complete k' c) db r r'" "r_run_id r \<noteq> k'"
  shows "r' = r"
  using assms(1)
proof (elim disjE)
  assume "rewritten_by (Update k' p) db r r'"
  then show ?thesis using assms(2) by (cases rule: rewritten_by_cases) simp_all
next
  assume "rewritten_by (Complete k' c) db r r'"
  then show ?thesis using assms(2) by (cases rule: rewritten_by_cases) simp_all
qed

lemma row_elsewhere:
  assumes "run_row_of (rs_db s) k = Some r" "k \<noteq> j"
  shows "run_row_of (rs_db (fst (run_update j p None s))) k = Some r"
    and "run_row_of (rs_db (fst (mark_completed j c s))) k = Some r"
proof -
  have k: "r_run_id r \<noteq> j" using assms run_row_ofD by blast
  from run_exec_row [OF assms(1), of "Update j p" None]
  show "run_row_of (rs_db (fst (run_update j p None s))) k = Some r"
    using rewritten_elsewhere [OF disjI1 k] by auto
  from run_exec_row [OF assms(1), of "Complete j c" None]
  show "run_row_of (rs_db (fst (mark_completed j c s))) k = Some r"
    using rewritten_elsewhere [OF disjI2 k] by auto
qed

interpretation spares: unstarted_writes "started_as k row" for k row
proof
  fix s j r p
  assume s: "started_as k row s" and r: "run_row_of (rs_db s) j = Some r" "r_started_at r = None"
  have jk: "j \<noteq> k" using s r by (auto simp: started_as_def)
  have row: "run_row_of (rs_db s) k = Some row" "r_run_id row = k"
    using s by (auto simp: started_as_def dest: run_row_ofD)
  show "started_as k row (fst (run_update j p None s))"
    using row_elsewhere(1) [OF row(1)] distinct_ids_step [of s "Update j p" None] s jk
    by (simp add: started_as_def)
next
  fix s j r c
  assume s: "started_as k row s" and r: "run_row_of (rs_db s) j = Some r" "r_started_at r = None"
  have jk: "j \<noteq> k" using s r by (auto simp: started_as_def)
  have row: "run_row_of (rs_db s) k = Some row" "r_run_id row = k"
    using s by (auto simp: started_as_def dest: run_row_ofD)
  show "started_as k row (fst (mark_completed j c s))"
    using row_elsewhere(2) [OF row(1)] distinct_ids_step [of s "Complete j c" None] s jk
    by (simp add: started_as_def)
qed (simp add: started_as_def)

text \<open>
  Settlement never touches a run that has started. Whatever settlements the daemon performs,
  coalescing absorbed steers, settling unowned turns, failing steers with an unknowable owner,
  sweeping unstarted submissions, in any order and with any outcome, the row of a started run is
  the same afterwards, in every column.
\<close>

theorem settlement_spares_started_runs:
  assumes "distinct (map r_run_id (db_runs (rs_db s)))" "run_row_of (rs_db s) k = Some row"
    "r_started_at row \<noteq> None"
  shows "run_row_of (rs_db (settle_history ops s)) k = Some row"
  using spares.settled_history [of k row s ops] assms by (simp add: started_as_def)

theorem settlement_spares_started_runs_witness:
  "run_row_of (rs_db (settle_history [SweepUnstarted 1792657800250 False ''2026-10-22T09:00:00.000Z'',
       FailUnresolved ''rt'' None ''2026-10-22T09:00:00.000Z''] example_turns)) ''r1''
     = Some (example_turn_run ''r1'' ''x1'' (Some ''2026-10-22T08:00:00.000Z''))"
  by (rule settlement_spares_started_runs) code_simp+

section \<open>Absorbed steers are accounted for\<close>

text \<open>
  An absorbed steer is accounted for when it has started, has coalesced into an owner or carries the
  marker of an unknowable owner.
\<close>

definition row_accounted :: "run_row \<Rightarrow> bool" where
  "row_accounted r = (r_started_at r \<noteq> None \<or> r_coalesced_into_run_id r \<noteq> None
     \<or> unresolved_marker (r_error_message r))"

definition accounted_run :: "string \<Rightarrow> run_store \<Rightarrow> bool" where
  "accounted_run k s = (case run_row_of (rs_db s) k of None \<Rightarrow> False | Some r \<Rightarrow> row_accounted r)"

definition submission_run :: "run_store \<Rightarrow> string \<Rightarrow> string option" where
  "submission_run s x = map_option r_run_id (get_by_broker_submission_id (rs_db s) x)"

definition evidence_kept :: "run_store \<Rightarrow> run_store \<Rightarrow> bool" where
  "evidence_kept s s' = (submission_run s' = submission_run s
     \<and> db_broker_events (rs_db s') = db_broker_events (rs_db s)
     \<and> db_invocations (rs_db s') = db_invocations (rs_db s)
     \<and> db_operations (rs_db s') = db_operations (rs_db s)
     \<and> db_runtimes (rs_db s') = db_runtimes (rs_db s))"

lemma evidence_kept_refl [simp]: "evidence_kept s s"
  by (simp add: evidence_kept_def)

lemma evidence_kept_trans: "evidence_kept s s' \<Longrightarrow> evidence_kept s' s'' \<Longrightarrow> evidence_kept s s''"
  by (simp add: evidence_kept_def)

lemma accounted_mapped [simp]: "row_accounted (map_run_row r) = row_accounted r"
  by (simp add: row_accounted_def)

lemma js_includes_append: "js_includes (s @ t @ u) t"
proof -
  have "index_of (s @ t @ u) t \<noteq> None"
  proof (induction s)
    case Nil
    show ?case by (subst index_of.simps) simp
  next
    case (Cons c s)
    then show ?case by (subst index_of.simps) auto
  qed
  then show ?thesis by (simp add: js_includes_def)
qed

lemma marked_detail:
  "unresolved_marker (Some (unresolved_detail i))"
  "unresolved_marker (Some (m @ ''; '' @ unresolved_detail i))"
  using js_includes_append [of "[]" unresolved_owner_marker] js_includes_append [of "m @ ''; ''" unresolved_owner_marker]
  by (simp_all add: unresolved_marker_def unresolved_detail_def)

lemma submission_run_map:
  assumes "db_runs (rs_db s') = map g (db_runs (rs_db s))"
    "\<And>r. r_run_id (g r) = r_run_id r \<and> r_broker_submission_id (g r) = r_broker_submission_id r"
  shows "submission_run s' = submission_run s"
proof
  fix x
  have "(\<lambda>r. r_broker_submission_id (g r) = Some x) = (\<lambda>r. r_broker_submission_id r = Some x)"
    using assms(2) by simp
  then show "submission_run s' x = submission_run s x"
    using assms(2)
    by (simp add: submission_run_def get_by_broker_submission_id_def first_run_def assms(1) find_map
        comp_def option.map_comp cong: option.map_cong)
qed

lemma kept_by_update_where:
  assumes "update_where cond f db = Inr (db', n)"
    "\<And>r. r_run_id (f r) = r_run_id r \<and> r_broker_submission_id (f r) = r_broker_submission_id r"
  shows "evidence_kept (s\<lparr>rs_db := db\<rparr>) (s\<lparr>rs_db := db'\<rparr>)"
proof -
  have "submission_run (s\<lparr>rs_db := db'\<rparr>) = submission_run (s\<lparr>rs_db := db\<rparr>)"
    by (rule submission_run_map [of _ "\<lambda>r. if cond r then f r else r"])
      (use assms in \<open>simp_all add: update_where_rows\<close>)
  then show ?thesis
    using assms(1) by (simp add: evidence_kept_def update_where_Inr_iff)
qed

lemma row_submission [simp]:
  "r_broker_submission_id (complete_row c r) = r_broker_submission_id r"
  "r_started_at (complete_row c r) = r_started_at r"
  "r_coalesced_into_run_id (complete_row c r) = r_coalesced_into_run_id r"
  "r_error_message (complete_row c r) = cm_error_message c"
  by (simp_all add: complete_row_def)

lemma apply_patch_submission:
  "r_broker_submission_id (apply_patch p r) = orelse (p_broker_submission_id p) (r_broker_submission_id r)"
  "r_error_message (apply_patch p r) = or_default (p_error_message p) (r_error_message r)"
  "r_started_at (apply_patch p r) = orelse (p_started_at p) (r_started_at r)"
  "r_coalesced_into_run_id (apply_patch p r) =
     orelse (p_coalesced_into_run_id p) (r_coalesced_into_run_id r)"
  by (simp_all add: apply_patch_def)

lemma effective_patch_other [simp]:
  "p_broker_submission_id (effective_patch db k p) = p_broker_submission_id p"
  "p_error_message (effective_patch db k p) = p_error_message p"
  "p_coalesced_into_run_id (effective_patch db k p) = p_coalesced_into_run_id p"
  by (auto simp: effective_patch_def split: option.splits)

lemma kept_by_update:
  assumes "p_broker_submission_id p = None"
  shows "evidence_kept s (fst (run_update k p tok s))"
proof -
  have "evidence_kept s (s\<lparr>rs_reserved := rv\<rparr>)" for rv
    by (simp add: evidence_kept_def submission_run_def fun_eq_iff)
  moreover have "evidence_kept s (s\<lparr>rs_reserved := rv, rs_db := db'\<rparr>)"
    if "update_where (\<lambda>r. r_run_id r = k) (apply_patch (effective_patch (rs_db s) k p)) (rs_db s) = Inr (db', n)"
    for rv db' n
    using kept_by_update_where [OF that, of "s\<lparr>rs_reserved := rv\<rparr>"] assms
    by (simp add: apply_patch_submission evidence_kept_def submission_run_def fun_eq_iff)
  ultimately show ?thesis
    by (auto simp: run_update_def Let_def split: sum.split)
qed

lemma kept_by_completion: "evidence_kept s (fst (mark_completed k c s))"
  using kept_by_update_where [of "\<lambda>r. r_run_id r = k" "complete_row c" "rs_db s" _ _ s]
  by (auto simp: mark_completed_def split: sum.split)

lemma apply_no_patch: "apply_patch no_patch r = r"
  by (simp add: apply_patch_def no_patch_def)

lemma run_update_row:
  assumes "run_update k p tok s = (s', Inr v)" "run_row_of (rs_db s) k = Some y"
  shows "run_row_of (rs_db s') k = Some (apply_patch (effective_patch (rs_db s) k p) y)"
  using assms run_row_ofD [OF assms(2)]
  by (auto simp: run_update_def Let_def apply_no_patch update_where_row split: sum.splits if_splits)

lemma mark_completed_row:
  assumes "mark_completed k c s = (s', Inr v)" "run_row_of (rs_db s) k = Some y"
  shows "run_row_of (rs_db s') k = Some (complete_row c y)"
  using assms run_row_ofD [OF assms(2)]
  by (auto simp: mark_completed_def update_where_row split: sum.splits)

lemma submission_row_of:
  assumes "distinct (map r_run_id (db_runs (rs_db s)))" "get_by_broker_submission_id (rs_db s) x = Some a"
  obtains y where "run_row_of (rs_db s) (r_run_id a) = Some y" "a = map_run_row y"
    "r_broker_submission_id y = Some x"
proof -
  from assms(2) obtain y where y: "y \<in> set (db_runs (rs_db s))" "a = map_run_row y"
    "r_broker_submission_id y = Some x"
    by (auto simp: get_by_broker_submission_id_def first_run_def dest: find_SomeD)
  with row_of_member [OF assms(1) y(1)] that show ?thesis by simp
qed

text \<open>A write to a run that is not accounted for leaves the accounted ones as they are.\<close>

lemma accounted_elsewhere:
  assumes "accounted_run k s" "run_row_of (rs_db s) j = Some y" "\<not> row_accounted y"
  shows "accounted_run k (fst (run_update j p None s))" "accounted_run k (fst (mark_completed j c s))"
proof -
  from assms obtain r where r: "run_row_of (rs_db s) k = Some r" "row_accounted r" "r_run_id r = k"
    by (auto simp: accounted_run_def dest: run_row_ofD split: option.splits)
  have "k \<noteq> j" using r assms(2,3) by auto
  then show "accounted_run k (fst (run_update j p None s))" "accounted_run k (fst (mark_completed j c s))"
    using row_elsewhere [OF r(1)] r(2) by (simp_all add: accounted_run_def)
qed

definition row_settled :: "run_store \<Rightarrow> broker_event_row \<Rightarrow> bool" where
  "row_settled s r = (case absorbed_steer (rs_db s) r of
     Inl e \<Rightarrow> False | Inr None \<Rightarrow> True | Inr (Some a) \<Rightarrow> accounted_run (r_run_id a) s)"

lemma steer_kept:
  "evidence_kept s s' \<Longrightarrow> is_steer_submission (rs_db s') i x = is_steer_submission (rs_db s) i x"
  by (simp add: evidence_kept_def is_steer_submission_def list_events_def)

lemma row_settled_kept:
  assumes "row_settled s r" "evidence_kept s s'" "\<And>k. accounted_run k s \<Longrightarrow> accounted_run k s'"
  shows "row_settled s' r"
proof -
  have same: "map_option r_run_id (get_by_broker_submission_id (rs_db s') x) =
      map_option r_run_id (get_by_broker_submission_id (rs_db s) x)" for x
    using assms(2) by (simp add: evidence_kept_def submission_run_def fun_eq_iff)
  show ?thesis
  proof (cases "be_event_json r")
    case None
    then show ?thesis using assms(1) by (simp add: row_settled_def absorbed_steer_def)
  next
    case (Some j)
    show ?thesis
    proof (cases "string_field (json_record j) ''submissionId''")
      case None
      then show ?thesis using Some by (simp add: row_settled_def absorbed_steer_def)
    next
      case (Some x)
      note j = \<open>be_event_json r = Some j\<close> and x = Some
      show ?thesis
      proof (cases "is_steer_submission (rs_db s) (be_invocation_id r) x")
        case False
        then show ?thesis
          using j x steer_kept [OF assms(2)] by (simp add: row_settled_def absorbed_steer_def)
      next
        case True
        then show ?thesis
          using j x steer_kept [OF assms(2)] same [of x] assms(1,3)
          by (cases "get_by_broker_submission_id (rs_db s) x";
              cases "get_by_broker_submission_id (rs_db s') x")
            (auto simp: row_settled_def absorbed_steer_def)
      qed
    qed
  qed
qed

lemma fail_row_step:
  assumes d: "distinct (map r_run_id (db_runs (rs_db s)))"
    and step: "fail_unresolved_row now r s = (s', Inr ())"
  shows "evidence_kept s s' \<and> distinct (map r_run_id (db_runs (rs_db s')))
    \<and> (\<forall>k. accounted_run k s \<longrightarrow> accounted_run k s') \<and> row_settled s' r"
proof (cases "absorbed_steer (rs_db s) r")
  case (Inl e)
  then show ?thesis using step by (simp add: fail_unresolved_row_def)
next
  case (Inr o')
  show ?thesis
  proof (cases o')
    case None
    then show ?thesis using Inr step d by (auto simp: fail_unresolved_row_def row_settled_def)
  next
    case (Some a)
    obtain j x where x: "get_by_broker_submission_id (rs_db s) x = Some a"
      and named: "be_event_json r = Some j" "string_field (json_record j) ''submissionId'' = Some x"
        "is_steer_submission (rs_db s) (be_invocation_id r) x"
      using Inr Some by (auto simp: absorbed_steer_def split: option.splits if_splits)
    from d x obtain y where y: "run_row_of (rs_db s) (r_run_id a) = Some y" "a = map_run_row y"
      by (rule submission_row_of)
    show ?thesis
    proof (cases "row_accounted y")
      case True
      then have "s' = s"
        using step Inr Some y(2) by (simp add: fail_unresolved_row_def row_accounted_def)
      then show ?thesis using True y Inr Some d by (simp add: row_settled_def accounted_run_def)
    next
      case False
      let ?k = "r_run_id a" and ?d = "unresolved_detail (be_invocation_id r)"
      have wrote: "(\<exists>c v. mark_completed ?k c s = (s', Inr v) \<and> unresolved_marker (cm_error_message c))
          \<or> (\<exists>p v m. run_update ?k p None s = (s', Inr v) \<and> p_broker_submission_id p = None
               \<and> p_error_message p = Some (Some m) \<and> unresolved_marker (Some m))"
        using step Inr Some y(2) False marked_detail
        by (auto simp: fail_unresolved_row_def row_accounted_def ignore_value_def no_patch_def
            split: prod.splits sum.splits if_splits option.splits)
      then have "evidence_kept s s' \<and> distinct (map r_run_id (db_runs (rs_db s')))
        \<and> (\<forall>k. accounted_run k s \<longrightarrow> accounted_run k s') \<and> accounted_run ?k s'"
      proof (elim disjE exE conjE)
        fix c v
        assume w: "mark_completed ?k c s = (s', Inr v)" "unresolved_marker (cm_error_message c)"
        have "accounted_run ?k s'"
          using mark_completed_row [OF w(1) y(1)] w(2) by (simp add: accounted_run_def row_accounted_def)
        then show ?thesis
          using kept_by_completion [of s ?k c] distinct_ids_step [OF d, of "Complete ?k c" None]
            accounted_elsewhere(2) [OF _ y(1) False, of _ c] w(1) by simp
      next
        fix p v m
        assume w: "run_update ?k p None s = (s', Inr v)" "p_broker_submission_id p = None"
          "p_error_message p = Some (Some m)" "unresolved_marker (Some m)"
        have "accounted_run ?k s'"
          using run_update_row [OF w(1) y(1)] w(3,4)
          by (simp add: accounted_run_def row_accounted_def apply_patch_submission)
        then show ?thesis
          using kept_by_update [OF w(2), of s ?k None] distinct_ids_step [OF d, of "Update ?k p" None]
            accounted_elsewhere(1) [OF _ y(1) False, of _ p] w(1) by simp
      qed
      then have post: "evidence_kept s s'" "distinct (map r_run_id (db_runs (rs_db s')))"
        "\<forall>k. accounted_run k s \<longrightarrow> accounted_run k s'" "accounted_run ?k s'" by blast+
      have "row_settled s' r"
      proof -
        have "submission_run s' x = Some ?k"
          using post(1) x by (simp add: evidence_kept_def submission_run_def)
        then show ?thesis
          using named post(4) steer_kept [OF post(1)]
          by (auto simp: row_settled_def absorbed_steer_def submission_run_def)
      qed
      with post show ?thesis by blast
    qed
  qed
qed

lemma fail_rows:
  assumes "each_do (fail_unresolved_row now) rows s = (s', Inr ())"
    "distinct (map r_run_id (db_runs (rs_db s)))"
  shows "evidence_kept s s' \<and> distinct (map r_run_id (db_runs (rs_db s')))
    \<and> (\<forall>k. accounted_run k s \<longrightarrow> accounted_run k s') \<and> (\<forall>r \<in> set rows. row_settled s' r)"
  using assms
proof (induction rows arbitrary: s)
  case (Cons r rows)
  obtain s1 where s1: "fail_unresolved_row now r s = (s1, Inr ())"
    and rest: "each_do (fail_unresolved_row now) rows s1 = (s', Inr ())"
    using Cons.prems(1) by (auto split: prod.splits sum.splits)
  note one = fail_row_step [OF Cons.prems(2) s1]
  note more = Cons.IH [OF rest one [THEN conjunct2, THEN conjunct1]]
  have "row_settled s' r"
    using row_settled_kept [of s1 r s'] one more by blast
  then show ?case
    using one more evidence_kept_trans by fastforce
qed simp

lemma some_unsettled_False:
  assumes "distinct (map r_run_id (db_runs (rs_db s)))" "\<forall>r \<in> set rows. row_settled s r"
  shows "some_unsettled (rs_db s) rows = Inr False"
  using assms(2)
proof (induction rows)
  case (Cons r rows)
  have "unsettled_row (rs_db s) r = Inr False"
  proof (cases "absorbed_steer (rs_db s) r")
    case (Inl e)
    then show ?thesis using Cons.prems by (simp add: row_settled_def)
  next
    case (Inr o')
    show ?thesis
    proof (cases o')
      case None
      then show ?thesis using Inr by (simp add: unsettled_row_def)
    next
      case (Some a)
      obtain x where "get_by_broker_submission_id (rs_db s) x = Some a"
        using Inr Some by (auto simp: absorbed_steer_def split: option.splits if_splits)
      from assms(1) this obtain y where y: "run_row_of (rs_db s) (r_run_id a) = Some y" "a = map_run_row y"
        by (rule submission_row_of)
      then have "row_accounted y"
        using Cons.prems Inr Some by (simp add: row_settled_def accounted_run_def)
      then show ?thesis
        using Inr Some y(2) by (auto simp: unsettled_row_def row_accounted_def)
    qed
  qed
  then show ?case using Cons by simp
qed simp

text \<open>
  After the explicit failure nothing is left unsettled. When failing the absorbed steers of a
  runtime returns, every absorbed steer of the runtime has started, has coalesced or carries the
  unresolved-owner marker, so the guard that holds back pruning answers \<open>false\<close>; and no steer that
  was accounted for before has lost that.
\<close>

theorem explicit_failure_settles_all:
  assumes "distinct (map r_run_id (db_runs (rs_db s)))"
    "fail_unresolved_absorbed_auxiliaries t None now s = (s', Inr ())"
  shows "has_unsettled_absorbed_auxiliary (rs_db s') t = Inr False
    \<and> (\<forall>k. accounted_run k s \<longrightarrow> accounted_run k s')"
proof -
  note done_all = fail_rows [OF assms(2) [unfolded fail_unresolved_absorbed_auxiliaries_def] assms(1)]
  have "absorbed_rows (rs_db s') t None = absorbed_rows (rs_db s) t None"
    using done_all by (simp add: evidence_kept_def absorbed_rows_def)
  then show ?thesis
    using done_all by (simp add: has_unsettled_absorbed_auxiliary_def some_unsettled_False)
qed


definition example_failed :: run_store where
  "example_failed = fst (fail_unresolved_absorbed_auxiliaries ''rt'' None ''now'' example_turns)"

theorem explicit_failure_settles_all_witness:
  "has_unsettled_absorbed_auxiliary (rs_db example_failed) ''rt'' = Inr False
    \<and> accounted_run ''r1'' example_failed"
proof -
  have "distinct (map r_run_id (db_runs (rs_db example_turns)))" by code_simp
  moreover have "snd (fail_unresolved_absorbed_auxiliaries ''rt'' None ''now'' example_turns) = Inr ()"
    by code_simp
  then have "fail_unresolved_absorbed_auxiliaries ''rt'' None ''now'' example_turns = (example_failed, Inr ())"
    by (metis example_failed_def prod.collapse)
  moreover have "accounted_run ''r1'' example_turns" by code_simp
  ultimately show ?thesis using explicit_failure_settles_all by blast
qed

section \<open>What a sweep reports\<close>

definition table_ok :: "run_store \<Rightarrow> bool" where
  "table_ok s = runs_constraints (rs_db s) (db_runs (rs_db s))"

lemma table_ok_distinct: "table_ok s \<Longrightarrow> distinct (map r_run_id (db_runs (rs_db s)))"
  by (simp add: table_ok_def runs_constraints_distinct)

lemma table_ok_write:
  "update_where cond f (rs_db s) = Inr (db', n) \<Longrightarrow> table_ok (s'\<lparr>rs_db := db'\<rparr>)"
  by (simp add: table_ok_def update_where_Inr_iff)

lemma table_ok_update: "table_ok s \<Longrightarrow> table_ok (fst (run_update k p tok s))"
  using table_ok_write [of _ _ s]
  by (auto simp: run_update_def Let_def split: sum.split) (auto simp: table_ok_def)

lemma table_ok_completion: "table_ok s \<Longrightarrow> table_ok (fst (mark_completed k c s))"
  by (auto simp: mark_completed_def table_ok_write split: sum.split)

interpretation tables: unstarted_writes table_ok
  by unfold_locales (simp_all add: table_ok_update table_ok_completion table_ok_distinct)

lemma unique_whenD:
  assumes "unique_when f rows" "x \<in> set rows" "y \<in> set rows" "f x = Some v" "f y = Some v"
  shows "x = y"
proof (rule ccontr)
  assume "x \<noteq> y"
  obtain xs ys where "rows = xs @ x # ys" using assms(2) by (meson split_list)
  then have "y \<in> set xs \<or> y \<in> set ys" using assms(3) \<open>x \<noteq> y\<close> by auto
  then show False
    using assms(1,4,5) \<open>rows = xs @ x # ys\<close>
    by (auto simp: unique_when_def image_iff)
qed

lemma submission_unique:
  assumes "table_ok s" "run_row_of (rs_db s) k = Some r" "r_broker_submission_id r = Some x"
  shows "get_by_broker_submission_id (rs_db s) x = Some (map_run_row r)"
proof -
  have r: "r \<in> set (db_runs (rs_db s))" using run_row_ofD [OF assms(2)] by simp
  then have "List.find (\<lambda>r. r_broker_submission_id r = Some x) (db_runs (rs_db s)) \<noteq> None"
    using assms(3) by (auto simp: find_None_iff)
  then obtain y where y: "List.find (\<lambda>r. r_broker_submission_id r = Some x) (db_runs (rs_db s)) = Some y"
    by blast
  have "y = r"
    using unique_whenD [of r_broker_submission_id "db_runs (rs_db s)" y r x] find_SomeD [OF y] r assms(1,3)
    by (simp add: table_ok_def runs_constraints_def)
  then show ?thesis using y by (simp add: get_by_broker_submission_id_def first_run_def)
qed

text \<open>A run the sweep considers, as it stands in the store.\<close>

definition sweepable :: "run_store \<Rightarrow> unstarted \<Rightarrow> bool" where
  "sweepable s u = (\<exists>r. run_row_of (rs_db s) (un_run u) = Some r \<and> unstarted_of r = Some u
     \<and> r_coalesced_into_run_id r = None)"

lemma unstarted_ofD:
  assumes "unstarted_of r = Some u"
  shows "un_run u = r_run_id r" "r_status r = RAccepted" "r_started_at r = None"
    "r_completed_at r = None" "r_broker_submission_id r = Some (un_submission u)"
    "r_invocation_id r = Some (un_invocation u)"
  using assms by (auto simp: unstarted_of_def split: option.splits if_splits)

definition coalesced_patch :: "string \<Rightarrow> string \<Rightarrow> run_patch" where
  "coalesced_patch owner at = no_patch\<lparr>p_status := Some RCoalesced, p_completed_at := Some (Some at),
     p_updated_at := Some at, p_coalesced_into_run_id := Some owner\<rparr>"

lemma auxiliary_effect:
  assumes "table_ok s" "run_row_of (rs_db s) k = Some r" "unstarted_of r = Some u"
    "r_coalesced_into_run_id r = None"
    "settle_auxiliary i (un_submission u) owner at s = (s', Inr ())"
  shows "s' = s \<or> (\<exists>v. run_update k (coalesced_patch owner at) None s = (s', Inr v))"
proof -
  have "get_by_broker_submission_id (rs_db s) (un_submission u) = Some (map_run_row r)"
    using submission_unique [OF assms(1,2)] unstarted_ofD [OF assms(3)] by simp
  then show ?thesis
    using assms(4,5) unstarted_ofD [OF assms(3)] run_row_ofD [OF assms(2)]
    by (auto simp: settle_auxiliary_def Let_def ignore_value_def coalesced_patch_def
        split: option.splits if_splits prod.splits sum.splits)
qed

lemma coalesced_row:
  assumes "run_update k (coalesced_patch owner at) None s = (s', Inr v)" "run_row_of (rs_db s) k = Some r"
  shows "\<exists>r'. run_row_of (rs_db s') k = Some r' \<and> r_status r' = RCoalesced
    \<and> r_completed_at r' = Some at \<and> r_coalesced_into_run_id r' = Some owner"
proof -
  have "effective_patch (rs_db s) k (coalesced_patch owner at) = coalesced_patch owner at"
    by (simp add: effective_patch_def coalesced_patch_def)
  then show ?thesis
    using run_update_row [OF assms]
    by (simp add: apply_patch_submission apply_patch_answer) (simp add: coalesced_patch_def)
qed

text \<open>The row a reported settlement promises.\<close>

definition settled_as_reported :: "run_store \<Rightarrow> settlement \<Rightarrow> bool" where
  "settled_as_reported s q = (case run_row_of (rs_db s) (st_run q) of
     None \<Rightarrow> False
   | Some r \<Rightarrow> r_status r = st_action q \<and> r_completed_at r = st_completed_at q
       \<and> (if st_action q = RCoalesced then r_coalesced_into_run_id r = st_owner q
          else r_error_message r = st_error q))"

lemma settle_as_fields [simp]:
  "st_run (settle_as u a) = un_run u" "st_action (settle_as u a) = a" "st_owner (settle_as u a) = None"
  by (simp_all add: settle_as_def)

lemma terminal_outcome_not_coalesced [simp]: "terminal_outcome t \<noteq> RCoalesced"
  by (simp add: terminal_outcome_def)

lemma plan_terminal_turn_owner:
  "st_run (plan_terminal_turn db u fate turn e) = un_run u
   \<and> (st_action (plan_terminal_turn db u fate turn e) = RCoalesced \<longrightarrow>
      st_owner (plan_terminal_turn db u fate turn e) \<noteq> None)"
  by (auto simp: plan_terminal_turn_def Let_def)

lemma plan_by_turn_owner:
  assumes "plan_by_turn db u fate settled = Some p"
  shows "st_run p = un_run u \<and> (st_action p = RCoalesced \<longrightarrow> st_owner p \<noteq> None)"
  using assms plan_terminal_turn_owner [of db u fate]
  by (auto simp: plan_by_turn_def Let_def fate_missing_def split: option.splits if_splits)

lemma sweep_plan_owner:
  assumes "sweep_plan db cutoff u = Some p"
  shows "st_run p = un_run u \<and> (st_action p = RCoalesced \<longrightarrow> st_owner p \<noteq> None)"
  using assms plan_by_turn_owner [of db u _ _ p]
  by (auto simp: sweep_plan_def plan_unstarted_submission_def Let_def split: option.splits if_splits)

lemma apply_settlement_effect:
  assumes ok: "table_ok s" and u: "sweepable s u" and p: "sweep_plan db cutoff u = Some p"
    and app: "apply_settlement u p at now s = (s', Inr b)"
  shows "table_ok s' \<and> (\<forall>j r. j \<noteq> un_run u \<longrightarrow> run_row_of (rs_db s) j = Some r \<longrightarrow>
      run_row_of (rs_db s') j = Some r)
    \<and> (b \<longrightarrow> settled_as_reported s' (p\<lparr>st_completed_at := Some at, st_applied := b\<rparr>))"
proof -
  obtain r where r: "run_row_of (rs_db s) (un_run u) = Some r" "unstarted_of r = Some u"
    "r_coalesced_into_run_id r = None" using u by (auto simp: sweepable_def)
  note ur = unstarted_ofD [OF r(2)]
  have ok': "table_ok s'" using tables.applied [OF ok, of u p at now] app by simp
  have get: "get_by_run_id (rs_db s) (un_run u) = Some (map_run_row r)"
    using r(1) by (simp add: get_by_run_id_def)
  note pl = sweep_plan_owner [OF p]
  show ?thesis
  proof (cases "st_action p = RCoalesced")
    case True
    then obtain owner where owner: "st_owner p = Some owner" using pl by auto
    have aux: "settle_auxiliary (un_invocation u) (un_submission u) (or_default (st_owner p) []) at s = (s', Inr ())"
      and b: "b = (case get_by_run_id (rs_db s') (un_run u) of None \<Rightarrow> False
         | Some r \<Rightarrow> r_coalesced_into_run_id r = Some (or_default (st_owner p) []))"
      using app get ur True
      by (auto simp: apply_settlement_def split: prod.splits sum.splits)
    from auxiliary_effect [OF ok r aux, unfolded owner or_default_simps] show ?thesis
    proof (elim disjE exE)
      assume "s' = s"
      then show ?thesis using b get r(3) ok owner by simp
    next
      fix v assume v: "run_update (un_run u) (coalesced_patch owner at) None s = (s', Inr v)"
      then show ?thesis
        using coalesced_row [OF v r(1)] ok' pl True owner row_elsewhere(1) [of s _ _ "un_run u"]
        by (auto simp: settled_as_reported_def) (metis fst_conv)+
    qed
  next
    case False
    then obtain c v where c: "mark_completed (un_run u) c s = (s', Inr v)"
      "cm_status c = st_action p" "cm_completed_at c = at" "cm_error_message c = st_error p" "b"
      using app get ur by (auto simp: apply_settlement_def split: prod.splits sum.splits)
    then show ?thesis
      using mark_completed_row [OF c(1) r(1)] ok' pl False row_elsewhere(2) [of s _ _ "un_run u" c]
      by (auto simp: settled_as_reported_def)
  qed
qed

lemma apply_ignores_date:
  "apply_settlement u (p\<lparr>st_completed_at := x\<rparr>) at now s = apply_settlement u p at now s"
  by (cases p, hypsubst, unfold apply_settlement_def settlement.simps, rule refl)

lemma sweep_effect:
  assumes "sweep_runs cutoff False now us s = (s', Inr qs)" "table_ok s" "distinct (map un_run us)"
    "\<forall>u \<in> set us. sweepable s u"
  shows "distinct (map st_run qs) \<and> set (map st_run qs) \<subseteq> set (map un_run us)
    \<and> (\<forall>j r. j \<notin> set (map un_run us) \<longrightarrow> run_row_of (rs_db s) j = Some r \<longrightarrow>
         run_row_of (rs_db s') j = Some r)
    \<and> (\<forall>q \<in> set qs. st_applied q \<longrightarrow> settled_as_reported s' q)"
  using assms
proof (induction us arbitrary: s qs)
  case (Cons u us)
  have here: "sweepable s u" and others: "\<forall>v \<in> set us. sweepable s v" "un_run u \<notin> set (map un_run us)"
    "distinct (map un_run us)" using Cons.prems by auto
  show ?case
  proof (cases "sweep_plan (rs_db s) cutoff u")
    case None
    then show ?thesis using Cons.IH [of s qs] Cons.prems others by auto
  next
    case (Some p)
    let ?at = "or_default (st_completed_at p) now"
    let ?q = "\<lambda>b. p\<lparr>st_completed_at := Some ?at, st_applied := b\<rparr>"
    obtain s1 b qs' where s1: "apply_settlement u p ?at now s = (s1, Inr b)"
      and rest: "sweep_runs cutoff False now us s1 = (s', Inr qs')" and qs: "qs = ?q b # qs'"
      using Cons.prems(1) Some
      by (auto simp: Let_def apply_ignores_date split: prod.splits sum.splits)
    note eff = apply_settlement_effect [OF Cons.prems(2) here Some s1]
    have others1: "\<forall>v \<in> set us. sweepable s1 v"
    proof
      fix v assume v: "v \<in> set us"
      then have "un_run v \<noteq> un_run u" using others(2) by (metis imageI set_map)
      moreover obtain r where "run_row_of (rs_db s) (un_run v) = Some r" "unstarted_of r = Some v"
        "r_coalesced_into_run_id r = None" using others(1) v by (auto simp: sweepable_def)
      ultimately show "sweepable s1 v" using eff by (auto simp: sweepable_def)
    qed
    note ih = Cons.IH [OF rest _ others(3) others1]
    have run: "st_run (?q b) = un_run u" using sweep_plan_owner [OF Some] by simp
    have "settled_as_reported s' (?q b)" if b
    proof -
      have now1: "settled_as_reported s1 (?q b)" using eff that by blast
      then obtain r where r: "run_row_of (rs_db s1) (un_run u) = Some r"
        using run by (auto simp: settled_as_reported_def split: option.splits)
      then have "run_row_of (rs_db s') (un_run u) = Some r"
        using ih eff others(2) by blast
      then show ?thesis using now1 r run by (simp add: settled_as_reported_def)
    qed
    moreover have "run_row_of (rs_db s') j = Some r"
      if "j \<notin> set (map un_run (u # us))" "run_row_of (rs_db s) j = Some r" for j r
      using that eff ih by auto
    moreover have "distinct (map st_run qs')" "set (map st_run qs') \<subseteq> set (map un_run us)"
      "\<forall>q \<in> set qs'. st_applied q \<longrightarrow> settled_as_reported s' q"
      using ih eff by blast+
    ultimately show ?thesis
      using run others(2) by (auto simp: qs)
  qed
qed simp

lemma unstarted_runs_rows:
  assumes "distinct (map r_run_id (db_runs db))"
  shows "distinct (map un_run (unstarted_runs db))"
    and "u \<in> set (unstarted_runs db) \<Longrightarrow> \<exists>r. run_row_of db (un_run u) = Some r \<and> unstarted_of r = Some u"
proof -
  have "distinct (map un_run (List.map_filter unstarted_of rows))
      \<and> set (map un_run (List.map_filter unstarted_of rows)) \<subseteq> set (map r_run_id rows)"
    if "distinct (map r_run_id rows)" for rows
    using that
  proof (induction rows)
    case (Cons r rows)
    then show ?case
    proof (cases "unstarted_of r")
      case (Some u)
      then have "un_run u \<notin> set (map un_run (List.map_filter unstarted_of rows))"
        using Cons unstarted_ofD(1) [OF Some] by auto
      then show ?thesis using Cons Some unstarted_ofD(1) [OF Some] by (auto simp: List.map_filter_simps)
    qed (auto simp: List.map_filter_simps)
  qed (simp add: List.map_filter_simps)
  then show "distinct (map un_run (unstarted_runs db))"
    using assms by (simp add: unstarted_runs_def distinct_map)
  assume "u \<in> set (unstarted_runs db)"
  then obtain r where "r \<in> set (db_runs db)" "unstarted_of r = Some u"
    by (auto simp: unstarted_runs_def List.map_filter_def)
  then show "\<exists>r. run_row_of db (un_run u) = Some r \<and> unstarted_of r = Some u"
    using row_of_member [OF assms] unstarted_ofD(1) by metis
qed

text \<open>
  The sweep's report is true. When the sweep of unstarted submissions returns, no run occurs in
  its report twice, and for every settlement reported as applied the row of the run carries the
  reported status and completion time, and the reported owner or error message: no later step of
  the sweep has overwritten it.
\<close>

theorem sweep_report_is_true:
  assumes "runs_constraints (rs_db s) (db_runs (rs_db s))"
    "\<forall>r \<in> set (db_runs (rs_db s)). r_status r = RAccepted \<longrightarrow> r_coalesced_into_run_id r = None"
    "settle_unstarted_submission_runs cutoff False now s = (s', Inr qs)"
  shows "distinct (map st_run qs) \<and> (\<forall>q \<in> set qs. st_applied q \<longrightarrow> settled_as_reported s' q)"
proof -
  have ok: "table_ok s" using assms(1) by (simp add: table_ok_def)
  note rows = unstarted_runs_rows [OF table_ok_distinct [OF ok]]
  have "sweepable s u" if u: "u \<in> set (unstarted_runs (rs_db s))" for u
  proof -
    obtain r where r: "run_row_of (rs_db s) (un_run u) = Some r" "unstarted_of r = Some u"
      using rows(2) [OF u] by blast
    then show ?thesis
      using assms(2) run_row_ofD [OF r(1)] unstarted_ofD(2) [OF r(2)] by (auto simp: sweepable_def)
  qed
  then show ?thesis
    using sweep_effect [OF assms(3) [unfolded settle_unstarted_submission_runs_def] ok rows(1)] by blast
qed


definition example_sweep :: "settlement list run_outcome" where
  "example_sweep = settle_unstarted_submission_runs 1792657800250 False ''2026-10-22T09:00:00.000Z''
     example_turns"

lemma example_sweep_coalesces:
  "map_sum id (map (\<lambda>q. (st_run q, st_action q, st_owner q, st_applied q))) (snd example_sweep)
     = Inr [(''r2'', RCoalesced, Some ''r1'', True)]"
  by code_simp

theorem sweep_report_is_true_witness:
  "distinct (map st_run (projr (snd example_sweep)))
   \<and> list_all (settled_as_reported (fst example_sweep)) (filter st_applied (projr (snd example_sweep)))"
proof -
  have "runs_constraints (rs_db example_turns) (db_runs (rs_db example_turns))" by code_simp
  moreover have "\<forall>r \<in> set (db_runs (rs_db example_turns)). r_status r = RAccepted \<longrightarrow> r_coalesced_into_run_id r = None"
    by code_simp
  moreover have "isl (snd example_sweep) = False" by code_simp
  then have "settle_unstarted_submission_runs 1792657800250 False ''2026-10-22T09:00:00.000Z'' example_turns
      = (fst example_sweep, Inr (projr (snd example_sweep)))"
    unfolding example_sweep_def by (metis prod.collapse sum.collapse(2))
  ultimately show ?thesis
    using sweep_report_is_true by (simp add: list_all_iff)
qed

end
