(* ===== verification/Turn_Queue.thy ===== *)
theory Turn_Queue
  imports Queue_Snapshot JS_Date
begin

text \<open>
  The durable queue of headless turn inputs
  (hrc-server/src/turn-admission/routes/broker-headless-queue.ts): an accepted input is a queued run
  whose correlation column holds the prompt; a drain snapshots the queue of a host session, batches
  the leading direct messages into one delivery, and claims the batch in one transaction. The message
  table carries the execution state of the direct messages; formatting a message address is code of
  the agent-scope package and is the parameter \<open>fmt\<close>. \<open>drain_start\<close> is the synchronous part of a
  drain up to the dispatch, \<open>drain_delivered\<close> and \<open>drain_failed\<close> are its two endings.
\<close>

section \<open>State\<close>

record execution =
  ex_state :: string
  ex_mode :: "string option"
  ex_session_ref :: "string option"
  ex_scope_ref :: "string option"
  ex_lane_ref :: "string option"
  ex_host_session :: "string option"
  ex_generation :: "int option"
  ex_runtime :: "string option"
  ex_run :: "string option"
  ex_transport :: "string option"
  ex_error_code :: "string option"
  ex_error_message :: "string option"
  ex_into :: "string option"
  ex_position :: "int option"

record 'a message_row =
  ms_id :: string
  ms_from :: 'a
  ms_execution :: execution

record 'a queue_world =
  qw_store :: run_store
  qw_messages :: "'a message_row list"
  qw_drains :: "string list"

definition update_execution ::
  "string \<Rightarrow> (execution \<Rightarrow> execution) \<Rightarrow> 'a queue_world \<Rightarrow> 'a queue_world" where
  "update_execution k f w = w\<lparr>qw_messages := row_update ms_id k
     (\<lambda>m. m\<lparr>ms_execution := f (ms_execution m)\<rparr>) (qw_messages w)\<rparr>"

section \<open>The durable input\<close>

record durable_input =
  di_kind :: string
  di_prompt :: string
  di_source :: string
  di_message :: "string option"
  di_format :: "json option"
  di_intent :: "string option"

definition parse_durable_input :: "json_text option \<Rightarrow> durable_input option" where
  "parse_durable_input v =
     (case Option.bind (Option.bind v id) json_record of
        None \<Rightarrow> None
      | Some ob \<Rightarrow>
          (case (jstring ob ''kind'', jstring ob ''prompt'') of
             (Some kind, Some prompt) \<Rightarrow> Some
               \<lparr>di_kind = kind, di_prompt = prompt, di_source = or_default (jstring ob ''source'') kind,
                di_message = jstring ob ''sourceMessageId'', di_format = jget ob ''responseFormat'',
                di_intent = jstring ob ''admittedIntent''\<rparr>
           | _ \<Rightarrow> None))"

record queue_entry =
  qe_run :: run_row
  qe_delivery :: durable_input

definition is_default_plain :: "json option \<Rightarrow> bool" where
  "is_default_plain f = (case f of
     None \<Rightarrow> True
   | Some j \<Rightarrow> Option.bind (json_record j) (\<lambda>ob. jget ob ''kind'') = Some (JStr ''text''))"

definition is_coalescible :: "queue_entry \<Rightarrow> bool" where
  "is_coalescible e = (di_source (qe_delivery e) = ''semantic_dm''
     \<and> di_message (qe_delivery e) \<noteq> None \<and> is_default_plain (di_format (qe_delivery e)))"

section \<open>Enqueueing\<close>

record enqueue_options =
  eo_source :: string
  eo_runtime :: "string option"
  eo_message :: "string option"
  eo_format :: "json option"
  eo_intent :: "string option"
  eo_door :: "string option"
  eo_idempotency_key :: "string option"
  eo_actor :: "string option"
  eo_kind :: "string option"
  eo_causation :: "string option"

record session_key =
  sk_host_session :: string
  sk_scope_ref :: string
  sk_lane_ref :: string
  sk_generation :: int

definition next_queue_seq :: "hrc_db \<Rightarrow> int" where
  "next_queue_seq db =
     (case List.map_filter r_queued_input_seq (db_runs db) of
        [] \<Rightarrow> 1 | n # ns \<Rightarrow> fold max ns n + 1)"

definition queued_row ::
  "session_key \<Rightarrow> string \<Rightarrow> enqueue_options \<Rightarrow> string \<Rightarrow> string \<Rightarrow> int \<Rightarrow> run_row" where
  "queued_row session runId opts input now n =
     \<lparr>r_run_id = runId, r_host_session_id = sk_host_session session, r_runtime_id = eo_runtime opts,
      r_scope_ref = sk_scope_ref session, r_lane_ref = sk_lane_ref session,
      r_generation = sk_generation session, r_transport = ''headless'', r_status = RQueued,
      r_accepted_at = Some now, r_started_at = None, r_completed_at = None, r_updated_at = now,
      r_error_code = None, r_error_message = None, r_execution_format = None, r_turn_key = None,
      r_native_turn_id = None, r_native_harness_generation = None, r_native_turn_attempt = None,
      r_initiating_input_id = None, r_ownership_conflict_json = None, r_observation_state = None,
      r_observed_start_hrc_seq = None, r_operation_id = None, r_invocation_id = None,
      r_dispatched_input_id = Some (''input-'' @ input), r_broker_submission_id = None,
      r_broker_input_fenced_at = None, r_broker_input_fence_reason = None,
      r_dispatch_idempotency_key = eo_idempotency_key opts, r_queue_snapshot_id = None,
      r_queued_input_seq = Some n, r_queue_snapshot_position = None, r_coalesced_into_run_id = None,
      r_coalesced_position = None, r_origin_actor = eo_actor opts, r_origin_kind = eo_kind opts,
      r_origin_causation_ref = eo_causation opts, r_correlation_json = None\<rparr>"

definition durable_input_json :: "string \<Rightarrow> enqueue_options \<Rightarrow> json" where
  "durable_input_json prompt opts = JObj
     ([(''kind'', JStr ''durable_headless_turn_input''), (''prompt'', JStr prompt),
       (''source'', JStr (eo_source opts)),
       (''admittedIntent'', JStr (or_default (orelse (eo_intent opts) (eo_door opts)) ''enqueue''))]
      @ (case eo_message opts of None \<Rightarrow> [] | Some m \<Rightarrow> [(''sourceMessageId'', JStr m)])
      @ (case eo_format opts of None \<Rightarrow> [] | Some f \<Rightarrow> [(''responseFormat'', f)]))"

text \<open>
  The transaction of \<open>enqueueDurableHeadlessTurnInput\<close>: a thrown error rolls the tables back; a
  reservation that the insert has bound stays bound, since it lives outside the database.
\<close>

definition enqueue_input ::
  "session_key \<Rightarrow> string \<Rightarrow> string \<Rightarrow> enqueue_options \<Rightarrow> string \<Rightarrow> string \<Rightarrow> string option \<Rightarrow>
   run_store \<Rightarrow> unit run_outcome" where
  "enqueue_input session prompt runId opts input now tok s =
     (if get_by_run_id (rs_db s) runId \<noteq> None then (s, Inr ())
      else (case run_insert (queued_row session runId opts input now (next_queue_seq (rs_db s))) tok s of
        (s1, Inl e) \<Rightarrow> (s1\<lparr>rs_db := rs_db s\<rparr>, Inl e)
      | (s1, Inr _) \<Rightarrow>
          (case set_correlation_json runId (Some (Some (durable_input_json prompt opts))) s1 of
             (s2, Inl e) \<Rightarrow> (s2\<lparr>rs_db := rs_db s\<rparr>, Inl e)
           | (s2, Inr _) \<Rightarrow> (s2, Inr ()))))"

section \<open>Claiming a batch\<close>

record runtime_seat =
  se_runtime :: string
  se_invocation :: "string option"
  se_operation :: "string option"

record batch_member =
  bm_run :: string
  bm_message :: string
  bm_position :: int

definition unavailable :: "string \<Rightarrow> json_object \<Rightarrow> runtime_seat \<Rightarrow> string \<Rightarrow> js_error" where
  "unavailable msg extra seat runId = domain_error ''runtime_unavailable'' msg
     ([(''runtimeId'', JStr (se_runtime seat)), (''runId'', JStr runId)] @ extra
      @ [(''route'', JStr ''broker-queued-input'')])"

definition coalesce_member ::
  "string \<Rightarrow> string \<Rightarrow> batch_member \<Rightarrow> 'a queue_world \<Rightarrow> 'a queue_world result" where
  "coalesce_member owner now m w =
     (case row_get ms_id (qw_messages w) (bm_message m) of
        None \<Rightarrow> Inl (plain_error (''queued DM '' @ bm_message m @ '' is not coalescible''))
      | Some msg \<Rightarrow>
          if ex_state (ms_execution msg) \<noteq> ''accepted'' \<or> ex_run (ms_execution msg) \<noteq> Some (bm_run m)
          then Inl (plain_error (''queued DM '' @ bm_message m @ '' is not coalescible''))
          else (case mark_queued_coalesced (bm_run m)
                  \<lparr>co_owner_run_id = owner, co_position = bm_position m, co_completed_at = now,
                   co_updated_at = now\<rparr> (qw_store w) of
             (s', Inl e) \<Rightarrow> Inl e
           | (s', Inr False) \<Rightarrow> Inl (plain_error (''queued run '' @ bm_run m @ '' is not coalescible''))
           | (s', Inr True) \<Rightarrow> Inr (update_execution (bm_message m)
               (\<lambda>x. x\<lparr>ex_state := ''coalesced'', ex_into := Some owner, ex_position := Some (bm_position m)\<rparr>)
               (w\<lparr>qw_store := s'\<rparr>))))"

fun coalesce_members ::
  "string \<Rightarrow> string \<Rightarrow> batch_member list \<Rightarrow> 'a queue_world \<Rightarrow> 'a queue_world result" where
  "coalesce_members owner now [] w = Inr w"
| "coalesce_members owner now (m # ms) w =
     then_do (coalesce_member owner now m w) (coalesce_members owner now ms)"

definition roll_back :: "'a queue_world \<Rightarrow> run_store \<Rightarrow> 'a queue_world" where
  "roll_back w s = w\<lparr>qw_store := s\<lparr>rs_db := rs_db (qw_store w)\<rparr>\<rparr>"

definition claim_batch ::
  "runtime_seat \<Rightarrow> string \<Rightarrow> string \<Rightarrow> batch_member list \<Rightarrow> string \<Rightarrow> string option \<Rightarrow>
   'a queue_world \<Rightarrow> 'a queue_world \<times> unit result" where
  "claim_batch seat runId input members now tok w =
     (if se_invocation seat = None
      then (w, Inl (unavailable ''queued turn runtime has no broker invocation'' [] seat runId))
      else (case claim_queued runId
              \<lparr>cl_runtime = Some (se_runtime seat), cl_invocation = se_invocation seat,
               cl_operation = se_operation seat, cl_input = Some input, cl_updated_at = now\<rparr>
              tok (qw_store w) of
         (s1, Inl e) \<Rightarrow> (roll_back w s1, Inl e)
       | (s1, Inr False) \<Rightarrow> (w\<lparr>qw_store := s1\<rparr>,
           Inl (unavailable ''queued turn input was already claimed'' [] seat runId))
       | (s1, Inr True) \<Rightarrow>
           (case coalesce_members runId now members (w\<lparr>qw_store := s1\<rparr>) of
              Inl e \<Rightarrow> (roll_back w s1, Inl e)
            | Inr w' \<Rightarrow> (w', Inr ()))))"

text \<open>\<open>dispatchQueuedHeadlessTurnInput\<close> up to the execution of the claimed turn.\<close>

definition dispatch_queued ::
  "runtime_seat \<Rightarrow> string \<Rightarrow> batch_member list \<Rightarrow> string \<Rightarrow> string option \<Rightarrow>
   'a queue_world \<Rightarrow> 'a queue_world \<times> unit result" where
  "dispatch_queued seat runId members now tok w =
     (if se_invocation seat = None
      then (w, Inl (unavailable ''queued turn runtime has no broker invocation'' [] seat runId))
      else (case get_by_run_id (rs_db (qw_store w)) runId of
         None \<Rightarrow> (w, Inl (unavailable ''queued turn input is no longer dispatchable'' [] seat runId))
       | Some r \<Rightarrow>
           (case r_dispatched_input_id r of
              None \<Rightarrow> (w, Inl (unavailable ''queued turn input is no longer dispatchable''
                  [(''status'', JStr (show_run_status (r_status r)))] seat runId))
            | Some input \<Rightarrow>
                if r_status r \<noteq> RQueued
                then (w, Inl (unavailable ''queued turn input is no longer dispatchable''
                  [(''status'', JStr (show_run_status (r_status r)))] seat runId))
                else claim_batch seat runId input members now tok w)))"

section \<open>Draining\<close>

definition newline :: string where
  "newline = [char_of (10 :: nat)]"

fun js_join :: "string \<Rightarrow> string list \<Rightarrow> string" where
  "js_join sep [] = []"
| "js_join sep [x] = x"
| "js_join sep (x # y # xs) = x @ sep @ js_join sep (y # xs)"

definition queue_age :: "string \<Rightarrow> string \<Rightarrow> int" where
  "queue_age acceptedAt deliveredAt =
     (case (date_parse acceptedAt, date_parse deliveredAt) of
        (Some a, Some d) \<Rightarrow> max 0 (d - a) | _ \<Rightarrow> 0)"

definition format_queued_dm :: "string \<Rightarrow> string \<Rightarrow> string \<Rightarrow> string" where
  "format_queued_dm prompt acceptedAt deliveredAt = js_join newline
     [''[queued DM delivery acceptedAt='' @ acceptedAt @ '' deliveredAt='' @ deliveredAt
        @ '' queueAgeMs='' @ show_int (queue_age acceptedAt deliveredAt) @ '']'', prompt]"

definition format_remainder :: "(int option \<times> string) list \<Rightarrow> string" where
  "format_remainder entries = js_join newline
     ((''[queued delivery snapshot remainder count='' @ show_nat (length entries) @ '']'')
      # map (\<lambda>(n, sender). ''- seq='' @ (case n of None \<Rightarrow> ''n/a'' | Some k \<Rightarrow> show_int k)
           @ '' sender='' @ sender) entries)"

text \<open>
  A snapshot entry whose correlation column does not parse is \<open>undefined\<close>. The batch is the longest
  leading run of coalescible entries, or the first entry alone.
\<close>

definition snapshot_entry :: "hrc_db \<Rightarrow> run_row \<Rightarrow> queue_entry option" where
  "snapshot_entry db r = map_option (\<lambda>d. \<lparr>qe_run = r, qe_delivery = d\<rparr>)
     (parse_durable_input (get_correlation_json db (r_run_id r)))"

fun leading_coalescible :: "queue_entry option list \<Rightarrow> queue_entry list" where
  "leading_coalescible (Some e # es) = (if is_coalescible e then e # leading_coalescible es else [])"
| "leading_coalescible _ = []"

fun executing_batch :: "queue_entry option list \<Rightarrow> queue_entry list" where
  "executing_batch (Some e # es) =
     (if is_coalescible e then leading_coalescible (Some e # es) else [e])"
| "executing_batch _ = []"

definition entry_prompt :: "string \<Rightarrow> queue_entry \<Rightarrow> string" where
  "entry_prompt deliveredAt e =
     (if di_source (qe_delivery e) = ''semantic_dm''
      then format_queued_dm (di_prompt (qe_delivery e))
             (or_default (r_accepted_at (qe_run e)) (r_updated_at (qe_run e))) deliveredAt
      else di_prompt (qe_delivery e))"

definition remainder_line ::
  "('a \<Rightarrow> string) \<Rightarrow> 'a message_row list \<Rightarrow> queue_entry option \<Rightarrow> int option \<times> string" where
  "remainder_line fmt messages entry =
     (case entry of
        None \<Rightarrow> (None, ''unknown'')
      | Some e \<Rightarrow> (r_queued_input_seq (qe_run e),
          (case Option.bind (di_message (qe_delivery e)) (row_get ms_id messages) of
             None \<Rightarrow> di_source (qe_delivery e) | Some m \<Rightarrow> fmt (ms_from m))))"

fun batch_members :: "queue_entry list \<Rightarrow> int \<Rightarrow> batch_member list result" where
  "batch_members [] n = Inr []"
| "batch_members (e # es) n =
     (case di_message (qe_delivery e) of
        None \<Rightarrow> Inl (plain_error (''coalescible run '' @ r_run_id (qe_run e) @ '' has no source message''))
      | Some m \<Rightarrow> then_do (batch_members es (n + 1))
          (\<lambda>ms. Inr (\<lparr>bm_run = r_run_id (qe_run e), bm_message = m, bm_position = n\<rparr> # ms)))"

record batch =
  ba_owner :: queue_entry
  ba_prompt :: string
  ba_members :: "batch_member list"

definition make_batch ::
  "('a \<Rightarrow> string) \<Rightarrow> 'a message_row list \<Rightarrow> string \<Rightarrow> queue_entry option list \<Rightarrow> batch result" where
  "make_batch fmt messages deliveredAt entries =
     (let executing = executing_batch entries; remainder = drop (length executing) entries;
          content = js_join (newline @ newline) (map (entry_prompt deliveredAt) executing);
          trailer = format_remainder (map (remainder_line fmt messages) remainder)
      in then_do (batch_members (butlast executing) 0)
           (\<lambda>ms. Inr \<lparr>ba_owner = last executing, ba_prompt = content @ newline @ newline @ trailer,
                       ba_members = ms\<rparr>))"

datatype drain_step =
    Drain_Busy
  | Drain_Idle
  | Drain_Dispatch batch
  | Drain_Failed queue_entry js_error
  | Drain_Error js_error

text \<open>
  The drain up to its dispatch. \<open>intent\<close> is what \<open>requireSession\<close> and the persisted runtime intent
  of the session give: nothing, or the error thrown. An error before an owner is chosen is logged
  only.
\<close>

definition drain_start ::
  "('a \<Rightarrow> string) \<Rightarrow> unit result \<Rightarrow> string \<Rightarrow> string \<Rightarrow> string \<Rightarrow> string \<Rightarrow>
   'a queue_world \<Rightarrow> 'a queue_world \<times> drain_step" where
  "drain_start fmt intent h snapshotId now deliveredAt w =
     (if h \<in> set (qw_drains w) then (w, Drain_Busy)
      else (case snapshot_queued h snapshotId now (qw_store w) of
        (s, Inl e) \<Rightarrow> (w\<lparr>qw_store := s\<rparr>, Drain_Error e)
      | (s, Inr rows) \<Rightarrow>
          (let w' = w\<lparr>qw_store := s\<rparr>; entries = map (snapshot_entry (rs_db s)) rows;
               executing = executing_batch entries in
           if executing = [] then (w', Drain_Idle)
           else (case then_do intent (\<lambda>_. make_batch fmt (qw_messages w') deliveredAt entries) of
               Inl e \<Rightarrow> (w'\<lparr>qw_drains := h # qw_drains w'\<rparr>, Drain_Failed (last executing) e)
             | Inr b \<Rightarrow> (w'\<lparr>qw_drains := h # qw_drains w'\<rparr>, Drain_Dispatch b)))))"

definition release_drain :: "string \<Rightarrow> 'a queue_world \<Rightarrow> 'a queue_world" where
  "release_drain h w = w\<lparr>qw_drains := removeAll h (qw_drains w)\<rparr>"

record delivered =
  dv_status :: string
  dv_host_session :: string
  dv_generation :: int
  dv_runtime :: string
  dv_run :: string

definition drain_delivered ::
  "string \<Rightarrow> session_key \<Rightarrow> queue_entry \<Rightarrow> delivered \<Rightarrow> 'a queue_world \<Rightarrow> 'a queue_world" where
  "drain_delivered h session owner v w = release_drain h
     (case di_message (qe_delivery owner) of
        None \<Rightarrow> w
      | Some m \<Rightarrow> update_execution m (\<lambda>x. x\<lparr>
          ex_state := (if dv_status v = ''completed'' then ''completed'' else ''started''),
          ex_mode := Some ''headless'',
          ex_session_ref := Some (sk_scope_ref session @ ''/lane:'' @ sk_lane_ref session),
          ex_host_session := Some (dv_host_session v), ex_generation := Some (dv_generation v),
          ex_runtime := Some (dv_runtime v), ex_run := Some (dv_run v),
          ex_transport := Some ''headless''\<rparr>) w)"

definition drain_failed ::
  "string \<Rightarrow> queue_entry \<Rightarrow> string \<Rightarrow> string \<Rightarrow> 'a queue_world \<Rightarrow> 'a queue_world" where
  "drain_failed h owner message now w =
     (let w' = w\<lparr>qw_store := fst (mark_completed (r_run_id (qe_run owner))
            \<lparr>cm_status = RFailed, cm_completed_at = now, cm_updated_at = now,
             cm_error_code = Some ''runtime_unavailable'', cm_error_message = Some message\<rparr>
            (qw_store w))\<rparr> in
      release_drain h (case di_message (qe_delivery owner) of
          None \<Rightarrow> w'
        | Some m \<Rightarrow> update_execution m (\<lambda>x. x\<lparr>ex_state := ''failed'',
            ex_error_code := Some ''delivery_not_guaranteed'',
            ex_error_message := Some (''input '' @ m @ '' was not delivered: '' @ message)\<rparr>) w'))"

section \<open>A claim is all or nothing\<close>

definition coalesced_member :: "string \<Rightarrow> 'a queue_world \<Rightarrow> batch_member \<Rightarrow> bool" where
  "coalesced_member owner w m =
     ((case run_row_of (rs_db (qw_store w)) (bm_run m) of
         None \<Rightarrow> False
       | Some r \<Rightarrow> r_status r = RCoalesced \<and> r_coalesced_into_run_id r = Some owner
           \<and> r_coalesced_position r = Some (bm_position m))
      \<and> (case row_get ms_id (qw_messages w) (bm_message m) of
           None \<Rightarrow> False
         | Some x \<Rightarrow> ex_state (ms_execution x) = ''coalesced'' \<and> ex_into (ms_execution x) = Some owner
             \<and> ex_position (ms_execution x) = Some (bm_position m)))"

definition claimed_owner :: "runtime_seat \<Rightarrow> string \<Rightarrow> string \<Rightarrow> 'a queue_world \<Rightarrow> bool" where
  "claimed_owner seat runId input w =
     (case run_row_of (rs_db (qw_store w)) runId of
        None \<Rightarrow> False
      | Some r \<Rightarrow> r_status r = RAccepted \<and> r_runtime_id r = Some (se_runtime seat)
          \<and> r_invocation_id r = se_invocation seat \<and> r_operation_id r = se_operation seat
          \<and> r_dispatched_input_id r = Some input)"

text \<open>What has left the queue is out of the reach of a further coalescing.\<close>

definition out_of_reach :: "'a queue_world \<Rightarrow> 'a queue_world \<Rightarrow> bool" where
  "out_of_reach w w' = ((\<forall>k r. run_row_of (rs_db (qw_store w)) k = Some r \<longrightarrow> r_status r \<noteq> RQueued \<longrightarrow>
       run_row_of (rs_db (qw_store w')) k = Some r)
     \<and> (\<forall>k x. row_get ms_id (qw_messages w) k = Some x \<longrightarrow> ex_state (ms_execution x) \<noteq> ''accepted'' \<longrightarrow>
       row_get ms_id (qw_messages w') k = Some x))"

lemma out_of_reach_refl: "out_of_reach w w"
  by (simp add: out_of_reach_def)

lemma out_of_reach_trans: 
  assumes "out_of_reach w w'" "out_of_reach w' w''"
  shows "out_of_reach w w''"
  using assms unfolding out_of_reach_def by blast

lemma coalesced_member_kept:
  assumes "coalesced_member owner w m" "out_of_reach w w'"
  shows "coalesced_member owner w' m"
  using assms unfolding coalesced_member_def out_of_reach_def
  by (auto split: option.splits)

lemma claimed_owner_kept:
  assumes "claimed_owner seat k input w" "out_of_reach w w'"
  shows "claimed_owner seat k input w'"
  using assms unfolding claimed_owner_def out_of_reach_def
  by (auto split: option.splits)

lemma mark_queued_coalesced_took:
  assumes "mark_queued_coalesced k c s = (s', Inr True)"
  obtains r where "run_row_of (rs_db s) k = Some r" "r_status r = RQueued"
    "run_row_of (rs_db s') k = Some (coalesce_row c r)"
    "\<And>j x. run_row_of (rs_db s) j = Some x \<Longrightarrow> r_status x \<noteq> RQueued \<Longrightarrow> run_row_of (rs_db s') j = Some x"
proof -
  obtain db' where u: "update_where (queued_run k) (coalesce_row c) (rs_db s) = Inr (db', 1)"
    and s': "s' = s\<lparr>rs_db := db'\<rparr>"
    using assms by (auto simp: mark_queued_coalesced_def split: sum.splits)
  have row: "run_row_of db' j = map_option (\<lambda>r. if queued_run k r then coalesce_row c r else r) (run_row_of (rs_db s) j)" for j
    by (rule update_where_row [OF u]) simp
  obtain r' where r': "run_row_of db' k = Some r'" "r_status r' \<noteq> RQueued"
    using update_where_took [OF u] by (auto simp: coalesce_row_def)
  then obtain r where r: "run_row_of (rs_db s) k = Some r"
    "r' = (if queued_run k r then coalesce_row c r else r)"
    using row [of k] by auto
  have "\<exists>x \<in> set (db_runs (rs_db s)). queued_run k x"
  proof (rule ccontr)
    assume "\<not> ?thesis"
    then have "filter (queued_run k) (db_runs (rs_db s)) = []" by (simp add: filter_empty_conv)
    then show False using u by (simp add: update_where_Inr_iff)
  qed
  then obtain x where x: "x \<in> set (db_runs (rs_db s))" "queued_run k x" by blast
  have "distinct (map r_run_id (db_runs (rs_db s)))"
    using u by (auto simp: update_where_Inr_iff runs_constraints_def comp_def if_distrib cong: if_cong)
  then have "run_row_of (rs_db s) k = Some x"
    using row_of_member [of "rs_db s" x] x by (simp add: queued_run_def)
  then have q: "queued_run k r" using r(1) x(2) by simp
  show ?thesis
  proof (rule that [OF r(1)])
    show "r_status r = RQueued" using q by (simp add: queued_run_def)
    show "run_row_of (rs_db s') k = Some (coalesce_row c r)" using r' r(2) q by (simp add: s')
    show "run_row_of (rs_db s') j = Some y" if "run_row_of (rs_db s) j = Some y" "r_status y \<noteq> RQueued" for j y
      using row [of j] that by (simp add: s' queued_run_def)
  qed
qed

lemma coalesce_member_effect:
  assumes "coalesce_member owner now m w = Inr w'"
  shows "coalesced_member owner w' m \<and> out_of_reach w w'"
proof -
  let ?f = "\<lambda>x. x\<lparr>ex_state := ''coalesced'', ex_into := Some owner, ex_position := Some (bm_position m)\<rparr>"
  let ?c = "\<lparr>co_owner_run_id = owner, co_position = bm_position m, co_completed_at = now, co_updated_at = now\<rparr>"
  obtain msg s' where msg: "row_get ms_id (qw_messages w) (bm_message m) = Some msg"
    "ex_state (ms_execution msg) = ''accepted''"
    and s': "mark_queued_coalesced (bm_run m) ?c (qw_store w) = (s', Inr True)"
    and w': "w' = update_execution (bm_message m) ?f (w\<lparr>qw_store := s'\<rparr>)"
    using assms by (auto simp: coalesce_member_def split: option.splits if_splits prod.splits sum.splits bool.splits)
  from s' obtain r where r: "run_row_of (rs_db (qw_store w)) (bm_run m) = Some r" "r_status r = RQueued"
    "run_row_of (rs_db s') (bm_run m) = Some (coalesce_row ?c r)"
    "\<And>j x. run_row_of (rs_db (qw_store w)) j = Some x \<Longrightarrow> r_status x \<noteq> RQueued \<Longrightarrow>
       run_row_of (rs_db s') j = Some x"
    by (rule mark_queued_coalesced_took) blast
  have m': "row_get ms_id (qw_messages w') k = (if k = bm_message m
      then map_option (\<lambda>x. x\<lparr>ms_execution := ?f (ms_execution x)\<rparr>) (row_get ms_id (qw_messages w) k)
      else row_get ms_id (qw_messages w) k)" for k
    unfolding w' update_execution_def by (simp add: row_get_update)
  have st: "qw_store w' = s'" by (simp add: w' update_execution_def)
  have "coalesced_member owner w' m"
    using r(3) msg by (simp add: coalesced_member_def st m' coalesce_row_def)
  moreover have "out_of_reach w w'"
    using r(4) msg by (auto simp: out_of_reach_def st m')
  ultimately show ?thesis by blast
qed

lemma coalesce_members_effect:
  "coalesce_members owner now ms w = Inr w' \<Longrightarrow>
   list_all (coalesced_member owner w') ms \<and> out_of_reach w w'"
proof (induction ms arbitrary: w)
  case Nil
  then show ?case by (simp add: out_of_reach_refl)
next
  case (Cons m ms)
  then obtain w1 where w1: "coalesce_member owner now m w = Inr w1"
    and rest: "coalesce_members owner now ms w1 = Inr w'" by (auto simp: then_do_Inr_iff)
  note one = coalesce_member_effect [OF w1] and ih = Cons.IH [OF rest]
  show ?case
    using one ih coalesced_member_kept [of owner w1 m w'] out_of_reach_trans [of w w1 w'] by simp
qed

text \<open>Which run a claim took, and that a refused one wrote nothing.\<close>

lemma claim_queued_took:
  assumes "claim_queued k c tok s = (s', Inr True)"
  shows "\<exists>r. run_row_of (rs_db s) k = Some r \<and> run_row_of (rs_db s') k = Some (claim_row c r)"
proof -
  have took: "takes_queued k (Claim k c, tok) s" using assms by simp
  obtain r' where r': "run_row_of (rs_db s') k = Some r'" "r_status r' \<noteq> RQueued"
    using takes_leaves_queue [OF took] assms by (auto simp: left_queue_def)
  have "run_row_of (rs_db (run_exec (Claim k c, tok) s)) k = Some r'" using r'(1) assms by simp
  from row_of_elsewhere [OF this] obtain r where r: "run_row_of (rs_db s) k = Some r"
    "rewritten_by (Claim k c) (rs_db s) r r'" by blast
  have "\<not> left_queue k s" using left_queue_not_taken took by blast
  then have "r_status r = RQueued" using r(1) by (simp add: left_queue_def)
  then show ?thesis
    using r r' by (cases rule: rewritten_by_cases [OF r(2)]) auto
qed

lemma claim_queued_false:
  assumes "claim_queued k c tok s = (s', Inr False)"
  shows "rs_db s' = rs_db s"
proof -
  obtain db' n where u: "update_where (queued_run k) (claim_row c) (rs_db s) = Inr (db', n)" "n \<noteq> 1"
    and s': "rs_db s' = db'"
    using assms by (auto simp: claim_queued_def Let_def split: sum.splits)
  have d: "distinct (map r_run_id (db_runs (rs_db s)))"
    using u by (auto simp: update_where_Inr_iff runs_constraints_def comp_def if_distrib cong: if_cong)
  have "\<not> queued_run k x" if x: "x \<in> set (db_runs (rs_db s))" for x
  proof
    assume q: "queued_run k x"
    have "filter (queued_run k) (db_runs (rs_db s)) = filter (\<lambda>y. y = x) (db_runs (rs_db s))"
      using d x q by (intro filter_cong) (auto simp: queued_run_def distinct_map dest: inj_onD)
    then show False
      using u filter_eq_single [OF distinct_mapI [OF d] x] by (simp add: update_where_Inr_iff)
  qed
  then have "map (\<lambda>r. if queued_run k r then claim_row c r else r) (db_runs (rs_db s)) = db_runs (rs_db s)"
    by (simp add: map_idI)
  then show ?thesis using u s' by (simp add: update_where_Inr_iff)
qed

lemma claim_batch_effect:
  assumes "claim_batch seat runId input members now tok w = (w', Inr u)"
  shows "claimed_owner seat runId input w' \<and> list_all (coalesced_member runId w') members"
proof -
  obtain s1 where claim: "claim_queued runId \<lparr>cl_runtime = Some (se_runtime seat),
      cl_invocation = se_invocation seat, cl_operation = se_operation seat, cl_input = Some input,
      cl_updated_at = now\<rparr> tok (qw_store w) = (s1, Inr True)"
    and ms: "coalesce_members runId now members (w\<lparr>qw_store := s1\<rparr>) = Inr w'"
    using assms by (auto simp: claim_batch_def split: if_splits prod.splits sum.splits bool.splits)
  have "claimed_owner seat runId input (w\<lparr>qw_store := s1\<rparr>)"
    using claim_queued_took [OF claim] by (auto simp: claimed_owner_def claim_row_def)
  then show ?thesis
    using coalesce_members_effect [OF ms] claimed_owner_kept by auto
qed

text \<open>
  C37. Claiming a batch is all or nothing. If the claim returns, the owner run is accepted with the
  runtime, invocation, operation and input of the dispatch, and every other member is coalesced into
  it at its position, in the runs table and in the message table alike. If it throws, for whatever
  reason and at whatever member, both tables are as they were.
\<close>

theorem claim_is_all_or_nothing:
  assumes "claim_batch seat runId input members now tok w = (w', r)"
  shows "case r of
      Inr _ \<Rightarrow> claimed_owner seat runId input w' \<and> list_all (coalesced_member runId w') members
    | Inl e \<Rightarrow> rs_db (qw_store w') = rs_db (qw_store w) \<and> qw_messages w' = qw_messages w"
proof (cases r)
  case (Inl e)
  then show ?thesis
    using assms claim_queued_false
    by (auto simp: claim_batch_def roll_back_def split: if_splits prod.splits sum.splits bool.splits)
next
  case (Inr u)
  then show ?thesis using claim_batch_effect [of seat runId input members now tok w w' u] assms by simp
qed

text \<open>Three queued direct messages of one host session, claimed as one batch.\<close>

definition example_message :: "string \<Rightarrow> string \<Rightarrow> string message_row" where
  "example_message m k = \<lparr>ms_id = m, ms_from = ''human'', ms_execution =
     \<lparr>ex_state = ''accepted'', ex_mode = None, ex_session_ref = None, ex_scope_ref = None, ex_lane_ref = None,
      ex_host_session = None,
      ex_generation = None, ex_runtime = None, ex_run = Some k, ex_transport = None,
      ex_error_code = None, ex_error_message = None, ex_into = None, ex_position = None\<rparr>\<rparr>"

definition example_dm :: "string \<Rightarrow> string \<Rightarrow> int \<Rightarrow> run_row" where
  "example_dm k m n = (example_run k RQueued None (Some n))\<lparr>r_dispatched_input_id := Some (''input-'' @ k),
     r_correlation_json := Some (Some (JObj
     [(''kind'', JStr ''durable_headless_turn_input''), (''prompt'', JStr ''hi''),
      (''source'', JStr ''semantic_dm''), (''sourceMessageId'', JStr m)]))\<rparr>"

definition example_world :: "string queue_world" where
  "example_world = \<lparr>qw_store = \<lparr>rs_db = empty_db\<lparr>db_sessions := [''hs''],
         db_runtimes := [\<lparr>rt_runtime_id = ''rt'', rt_status = ''ready'', rt_active_run_id = None,
           rt_last_activity_at = None, rt_updated_at = ''2026''\<rparr>],
         db_runs := [example_dm ''r1'' ''m1'' 1, example_dm ''r2'' ''m2'' 2,
           example_run ''r3'' RQueued None (Some 3)]\<rparr>, rs_reserved = (\<lambda>_. None)\<rparr>,
     qw_messages = [example_message ''m1'' ''r1'', example_message ''m2'' ''r2''], qw_drains = []\<rparr>"

definition example_seat :: runtime_seat where
  "example_seat = \<lparr>se_runtime = ''rt'', se_invocation = Some ''inv'', se_operation = None\<rparr>"

definition example_members :: "batch_member list" where
  "example_members = [\<lparr>bm_run = ''r1'', bm_message = ''m1'', bm_position = 0\<rparr>]"

theorem claim_is_all_or_nothing_witness:
  "let w' = fst (claim_batch example_seat ''r2'' ''in'' example_members ''2028'' None example_world)
   in claimed_owner example_seat ''r2'' ''in'' w' \<and> list_all (coalesced_member ''r2'' w') example_members"
proof -
  have "snd (claim_batch example_seat ''r2'' ''in'' example_members ''2028'' None example_world) = Inr ()"
    by code_simp
  then have "claim_batch example_seat ''r2'' ''in'' example_members ''2028'' None example_world =
      (fst (claim_batch example_seat ''r2'' ''in'' example_members ''2028'' None example_world), Inr ())"
    by (metis prod.collapse)
  from claim_is_all_or_nothing [OF this] show ?thesis by (simp add: Let_def)
qed

section \<open>Batches\<close>

lemma leading_coalescible_prefix:
  "map Some (leading_coalescible es) = takeWhile (\<lambda>x. case x of None \<Rightarrow> False | Some e \<Rightarrow> is_coalescible e) es"
  by (induction es rule: leading_coalescible.induct) auto

lemma executing_batch_prefix:
  "es = map Some (executing_batch es) @ drop (length (executing_batch es)) es"
proof (cases es rule: executing_batch.cases)
  case (1 e rest)
  have "map Some (leading_coalescible es) = take (length (leading_coalescible es)) es"
    by (metis leading_coalescible_prefix length_map takeWhile_eq_take)
  then show ?thesis
    by (metis "1" append_take_drop_id drop0 drop_Suc_Cons executing_batch.simps(1) length_Cons
        list.map(2) list.simps(8) list.size(3) append_Cons append_Nil)
qed auto

lemma leading_coalescible_all: "list_all is_coalescible (leading_coalescible es)"
  by (induction es rule: leading_coalescible.induct) auto

lemma batch_members_Inr:
  "batch_members es n = Inr ms \<Longrightarrow> map bm_run ms = map (r_run_id \<circ> qe_run) es
     \<and> map (Some \<circ> bm_message) ms = map (di_message \<circ> qe_delivery) es
     \<and> map bm_position ms = map (\<lambda>i. n + int i) [0..<length es]"
  by (induction es n arbitrary: ms rule: batch_members.induct)
     (auto simp: then_do_Inr_iff upt_conv_Cons map_Suc_upt [symmetric] comp_def
       simp del: upt_Suc split: option.splits)

lemma batch_members_total:
  "list_all is_coalescible es \<Longrightarrow> \<exists>ms. batch_members es n = Inr ms"
  by (induction es n rule: batch_members.induct) (auto simp: is_coalescible_def)

end
