(* ===== verification/Queue_Drain.thy ===== *)
theory Queue_Drain
  imports Turn_Queue
begin

text \<open>
  The drain of a host session's queue against its abstract queue: a round that dispatches takes a
  nonempty prefix off the snapshot and leaves the rest.
\<close>

section \<open>A drain is a dequeue\<close>

text \<open>
  The abstract queue of a drain is the list of run ids the snapshot still has to deliver; a
  successful claim of a batch removes the batch and nothing else, so that a drain round takes a
  prefix off it.
\<close>

definition claim_ops :: "runtime_seat \<Rightarrow> string \<Rightarrow> string \<Rightarrow> batch_member list \<Rightarrow> string \<Rightarrow>
    string option \<Rightarrow> (run_op \<times> string option) list" where
  "claim_ops seat runId input members now tok =
     (Claim runId \<lparr>cl_runtime = Some (se_runtime seat), cl_invocation = se_invocation seat,
        cl_operation = se_operation seat, cl_input = Some input, cl_updated_at = now\<rparr>, tok)
     # map (\<lambda>m. (Coalesce (bm_run m) \<lparr>co_owner_run_id = runId, co_position = bm_position m,
        co_completed_at = now, co_updated_at = now\<rparr>, None)) members"

lemma coalesce_members_store:
  "coalesce_members owner now ms w = Inr w' \<Longrightarrow>
   qw_store w' = run_history (map (\<lambda>m. (Coalesce (bm_run m) \<lparr>co_owner_run_id = owner,
      co_position = bm_position m, co_completed_at = now, co_updated_at = now\<rparr>, None)) ms) (qw_store w)"
proof (induction ms arbitrary: w)
  case Nil
  then show ?case by (simp add: run_history_def)
next
  case (Cons m ms)
  then obtain w1 where w1: "coalesce_member owner now m w = Inr w1"
    and rest: "coalesce_members owner now ms w1 = Inr w'" by (auto simp: then_do_Inr_iff)
  have "qw_store w1 = fst (mark_queued_coalesced (bm_run m) \<lparr>co_owner_run_id = owner,
      co_position = bm_position m, co_completed_at = now, co_updated_at = now\<rparr> (qw_store w))"
    using w1 by (auto simp: coalesce_member_def update_execution_def
        split: option.splits if_splits prod.splits sum.splits bool.splits)
  then show ?case using Cons.IH [OF rest] by (simp add: run_history_def)
qed

lemma claim_batch_store:
  assumes "claim_batch seat runId input members now tok w = (w', Inr u)"
  shows "qw_store w' = run_history (claim_ops seat runId input members now tok) (qw_store w)"
proof -
  obtain s1 where claim: "claim_queued runId \<lparr>cl_runtime = Some (se_runtime seat),
      cl_invocation = se_invocation seat, cl_operation = se_operation seat, cl_input = Some input,
      cl_updated_at = now\<rparr> tok (qw_store w) = (s1, Inr True)"
    and ms: "coalesce_members runId now members (w\<lparr>qw_store := s1\<rparr>) = Inr w'"
    using assms by (auto simp: claim_batch_def split: if_splits prod.splits sum.splits bool.splits)
  then show ?thesis
    using coalesce_members_store [OF ms] by (simp add: claim_ops_def run_history_def)
qed

lemma row_of_other:
  assumes "run_row_of (rs_db s) k = Some r"
    "list_all (\<lambda>l. (case fst l of Claim j c \<Rightarrow> j \<noteq> k | Coalesce j c \<Rightarrow> j \<noteq> k | _ \<Rightarrow> False)) ops"
  shows "run_row_of (rs_db (run_history ops s)) k = Some r"
  using assms
proof (induction ops arbitrary: s)
  case (Cons l ops)
  obtain op tok where l: "l = (op, tok)" by (cases l)
  obtain r' where r': "run_row_of (rs_db (run_exec l s)) k = Some r'" "rewritten_by op (rs_db s) r r'"
    using run_exec_row [OF Cons.prems(1), of op tok] l by blast
  have k: "r_run_id r = k" using run_row_ofD [OF Cons.prems(1)] by blast
  from r'(2) have "r' = r"
    by (cases rule: rewritten_by_cases) (use Cons.prems(2) l k in auto)
  then show ?case using Cons r' by (simp add: run_history_def)
qed (simp add: run_history_def)

lemma settled_not_queued:
  "claimed_owner seat k input w \<Longrightarrow> \<not> still_queued (qw_store w) h k"
  "coalesced_member owner w m \<Longrightarrow> \<not> still_queued (qw_store w) h (bm_run m)"
  by (auto simp: claimed_owner_def coalesced_member_def still_queued_def queued_for_def
      split: option.splits)

lemma claim_batch_dequeues:
  assumes d: "distinct (map r_run_id (db_runs (rs_db (qw_store w))))"
    and claim: "claim_batch seat runId input members now tok w = (w', Inr u)"
  shows "member_ids (qw_store w') h sid =
    filter (\<lambda>k. k \<notin> insert runId (bm_run ` set members)) (member_ids (qw_store w) h sid)"
proof -
  let ?ops = "claim_ops seat runId input members now tok"
  have safe: "list_all (drain_safe sid) ?ops" by (simp add: claim_ops_def list_all_iff)
  have "still_queued (qw_store w') h k \<longleftrightarrow> k \<notin> insert runId (bm_run ` set members)"
    if k: "k \<in> set (member_ids (qw_store w) h sid)" for k
  proof (cases "k \<in> insert runId (bm_run ` set members)")
    case True
    then show ?thesis
      using claim_batch_effect [OF claim] by (auto simp: list_all_iff dest: settled_not_queued)
  next
    case False
    obtain r where r: "r \<in> set (db_runs (rs_db (qw_store w)))" "r_run_id r = k" "queued_for h r"
      using k by (auto simp: member_ids_def snapshot_members_def)
    then have row: "run_row_of (rs_db (qw_store w)) k = Some r" using row_of_member [OF d] by blast
    have "run_row_of (rs_db (qw_store w')) k = Some r"
      unfolding claim_batch_store [OF claim] using False
      by (intro row_of_other [OF row]) (auto simp: claim_ops_def list_all_iff)
    then show ?thesis using False r by (simp add: still_queued_iff)
  qed
  then show ?thesis
    unfolding claim_batch_store [OF claim] members_history [OF d safe]
    by (intro filter_cong) auto
qed


lemma executing_batch_runs:
  assumes "entries = map (snapshot_entry db) rows"
  shows "map (r_run_id \<circ> qe_run) (executing_batch entries) =
    take (length (executing_batch entries)) (map r_run_id rows)"
proof -
  let ?n = "length (executing_batch entries)"
  have "map Some (executing_batch entries) = take ?n entries"
    by (metis append_eq_conv_conj executing_batch_prefix length_map)
  then have some: "map Some (executing_batch entries) = map (snapshot_entry db) (take ?n rows)"
    by (simp add: assms take_map)
  then have "map (\<lambda>x. r_run_id (qe_run (the x))) (map Some (executing_batch entries)) =
      map (\<lambda>x. r_run_id (qe_run (the x))) (map (snapshot_entry db) (take ?n rows))" by simp
  also have "\<dots> = map r_run_id (take ?n rows)"
  proof (simp, intro ballI)
    fix r assume "r \<in> set (take ?n rows)"
    then have "snapshot_entry db r \<in> set (map Some (executing_batch entries))"
      unfolding some by simp
    then show "r_run_id (qe_run (the (snapshot_entry db r))) = r_run_id r"
      by (auto simp: snapshot_entry_def)
  qed
  finally show ?thesis by (simp add: comp_def take_map)
qed

lemma drain_start_batch:
  assumes "drain_start fmt intent h sid now deliveredAt w = (w1, Drain_Dispatch b)"
  obtains rows where "snd (snapshot_queued h sid now (qw_store w)) = Inr rows"
    "qw_store w1 = fst (snapshot_queued h sid now (qw_store w))"
    "map bm_run (ba_members b) @ [r_run_id (qe_run (ba_owner b))] =
       take (Suc (length (ba_members b))) (map r_run_id rows)"
    "Suc (length (ba_members b)) \<le> length rows"
proof -
  obtain s rows where s: "snapshot_queued h sid now (qw_store w) = (s, Inr rows)"
    using assms by (auto simp: drain_start_def split: if_splits prod.splits sum.splits)
  let ?entries = "map (snapshot_entry (rs_db s)) rows" let ?ex = "executing_batch ?entries"
  have ne: "?ex \<noteq> []" and b: "make_batch fmt (qw_messages w) deliveredAt ?entries = Inr b"
    and w1: "qw_store w1 = s"
    using assms by (auto simp: drain_start_def s Let_def then_do_Inr_iff split: if_splits sum.splits)
  from b have ms: "batch_members (butlast ?ex) 0 = Inr (ba_members b)" and ow: "ba_owner b = last ?ex"
    by (auto simp: make_batch_def Let_def then_do_Inr_iff)
  have runs: "map bm_run (ba_members b) @ [r_run_id (qe_run (ba_owner b))] = map (r_run_id \<circ> qe_run) ?ex"
    using batch_members_Inr [OF ms] ne ow
    by (metis (no_types, lifting) append_butlast_last_id comp_apply list.simps(8,9) map_append)
  then have len: "Suc (length (ba_members b)) = length ?ex"
    by (metis length_append_singleton length_map)
  have pre: "map (r_run_id \<circ> qe_run) ?ex = take (length ?ex) (map r_run_id rows)"
    by (rule executing_batch_runs [OF refl])
  have "length ?ex \<le> length rows"
    using arg_cong [OF executing_batch_prefix [of ?entries], of length] by simp
  then show ?thesis using that s w1 runs len pre by simp
qed

lemma dispatch_queued_claims:
  assumes "dispatch_queued seat runId members now tok w = (w', Inr u)"
  obtains input where "claim_batch seat runId input members now tok w = (w', Inr u)"
  using assms by (auto simp: dispatch_queued_def split: if_splits option.splits)

lemma distinct_member_ids:
  assumes "distinct (map r_run_id (db_runs (rs_db s)))"
  shows "distinct (member_ids s h sid)"
  using assms by (auto simp: member_ids_def snapshot_members_def distinct_map inj_on_def)

lemma filter_drop_prefix: "distinct xs \<Longrightarrow> filter (\<lambda>x. x \<notin> set (take n xs)) xs = drop n xs"
proof -
  assume d: "distinct xs"
  have "filter (\<lambda>x. x \<notin> set (take n xs)) (take n xs @ drop n xs) = drop n xs"
    unfolding filter_append using d set_take_disj_set_drop_if_distinct [of xs n n]
    by (auto simp: filter_id_conv)
  then show ?thesis by simp
qed

text \<open>
  C13. A drain round is a dequeue. The abstract queue is the list of run ids the current snapshot
  still has to deliver. When a drain reaches its dispatch and the dispatch claims the batch, the runs
  of the batch, the owner last, are a nonempty prefix of that queue in its order, and afterwards the
  queue is the rest: no input is skipped, delivered twice or lost.
\<close>

theorem drain_round_dequeues:
  assumes "distinct (map r_run_id (db_runs (rs_db (qw_store w))))"
    "drain_start fmt intent h sid now deliveredAt w = (w1, Drain_Dispatch b)"
    "dispatch_queued seat (r_run_id (qe_run (ba_owner b))) (ba_members b) at tok w1 = (w2, Inr u)"
    "x = or_default (existing_snapshot (rs_db (qw_store w)) h) sid" "n = Suc (length (ba_members b))"
  shows "map bm_run (ba_members b) @ [r_run_id (qe_run (ba_owner b))] = take n (member_ids (qw_store w1) h x)
    \<and> member_ids (qw_store w2) h x = drop n (member_ids (qw_store w1) h x)
    \<and> length (member_ids (qw_store w2) h x) < length (member_ids (qw_store w1) h x)"
proof -
  obtain rows where rows: "snd (snapshot_queued h sid now (qw_store w)) = Inr rows"
    "qw_store w1 = fst (snapshot_queued h sid now (qw_store w))"
    "map bm_run (ba_members b) @ [r_run_id (qe_run (ba_owner b))] = take n (map r_run_id rows)"
    "n \<le> length rows"
    using drain_start_batch [OF assms(2)] assms(5) by blast
  have ids: "map r_run_id rows = member_ids (qw_store w1) h x"
    using snapshot_queued_returns [OF rows(1)] rows(2) assms(4) by simp
  have d: "distinct (map r_run_id (db_runs (rs_db (qw_store w1))))"
    using distinct_ids_step [OF assms(1), of "Snapshot h sid now" None] rows(2) by simp
  obtain input where c: "claim_batch seat (r_run_id (qe_run (ba_owner b))) input (ba_members b) at tok w1 = (w2, Inr u)"
    using assms(3) by (rule dispatch_queued_claims)
  have taken: "insert (r_run_id (qe_run (ba_owner b))) (bm_run ` set (ba_members b)) =
      set (take n (member_ids (qw_store w1) h x))"
    using arg_cong [OF rows(3), of set] ids by simp
  have "member_ids (qw_store w2) h x = drop n (member_ids (qw_store w1) h x)"
    unfolding claim_batch_dequeues [OF d c] taken by (rule filter_drop_prefix [OF distinct_member_ids [OF d]])
  moreover have "length (member_ids (qw_store w1) h x) = length rows"
    using arg_cong [OF ids, of length] by simp
  ultimately show ?thesis using rows(3,4) ids assms(5) by simp
qed

definition example_started :: "string queue_world \<times> drain_step" where
  "example_started = drain_start id (Inr ()) ''hs'' ''snap'' ''2027'' ''2027'' example_world"

definition example_batch :: batch where
  "example_batch = (case snd example_started of Drain_Dispatch b \<Rightarrow> b
     | _ \<Rightarrow> \<lparr>ba_owner = \<lparr>qe_run = example_run [] RQueued None None, qe_delivery = \<lparr>di_kind = [],
         di_prompt = [], di_source = [], di_message = None, di_format = None, di_intent = None\<rparr>\<rparr>,
         ba_prompt = [], ba_members = []\<rparr>)"

definition example_dispatched :: "string queue_world \<times> unit result" where
  "example_dispatched = dispatch_queued example_seat ''r2'' (ba_members example_batch) ''2028'' None
     (fst example_started)"

theorem drain_round_dequeues_witness:
  "member_ids (qw_store (fst example_dispatched)) ''hs'' ''snap'' = [''r3'']"
proof -
  let ?w1 = "fst example_started"
  have dis: "dispatch_queued example_seat (r_run_id (qe_run (ba_owner example_batch)))
      (ba_members example_batch) ''2028'' None ?w1 = (fst example_dispatched, Inr ())"
  proof -
    have "r_run_id (qe_run (ba_owner example_batch)) = ''r2''" by code_simp
    moreover have "snd example_dispatched = Inr ()" by code_simp
    ultimately show ?thesis by (metis example_dispatched_def prod.collapse)
  qed
  have start: "drain_start id (Inr ()) ''hs'' ''snap'' ''2027'' ''2027'' example_world =
      (?w1, Drain_Dispatch example_batch)"
  proof -
    have "case snd example_started of Drain_Dispatch b \<Rightarrow> True | _ \<Rightarrow> False" by code_simp
    then have "snd example_started = Drain_Dispatch example_batch"
      by (auto simp: example_batch_def split: drain_step.splits)
    then show ?thesis by (metis example_started_def prod.collapse)
  qed
  have "distinct (map r_run_id (db_runs (rs_db (qw_store example_world))))" by code_simp
  moreover have "''snap'' = or_default (existing_snapshot (rs_db (qw_store example_world)) ''hs'') ''snap''"
    by code_simp
  moreover have "(2::nat) = Suc (length (ba_members example_batch))" by code_simp
  ultimately have "member_ids (qw_store (fst example_dispatched)) ''hs'' ''snap'' =
      drop 2 (member_ids (qw_store ?w1) ''hs'' ''snap'')"
    using drain_round_dequeues [OF _ start dis] by blast
  moreover have "member_ids (qw_store ?w1) ''hs'' ''snap'' = [''r1'', ''r2'', ''r3'']" by code_simp
  ultimately show ?thesis by simp
qed

section \<open>What stops a drain\<close>

text \<open>
  A head of the queue whose correlation column does not parse ends every drain before an owner is
  chosen: nothing is logged, no run is failed and the inputs behind it wait.
\<close>

lemma unreadable_head_stops_drain:
  assumes "h \<notin> set (qw_drains w)" "snapshot_queued h sid now (qw_store w) = (s, Inr (r # rows))"
    "parse_durable_input (get_correlation_json (rs_db s) (r_run_id r)) = None"
  shows "drain_start fmt intent h sid now deliveredAt w = (w\<lparr>qw_store := s\<rparr>, Drain_Idle)"
  using assms by (simp add: drain_start_def snapshot_entry_def Let_def)

section \<open>Enqueueing\<close>

lemma insort_key_append_last: "f a \<le> f x \<Longrightarrow> insort_key f a (ys @ [x]) = insort_key f a ys @ [x]"
  by (induction ys) auto

lemma sort_key_append_last:
  "(\<And>y. y \<in> set xs \<Longrightarrow> f y \<le> f x) \<Longrightarrow> sort_key f (xs @ [x]) = sort_key f xs @ [x]"
  by (induction xs) (auto simp: insort_key_append_last)

lemma next_queue_seq_fresh:
  assumes "r \<in> set (db_runs db)" "r_queued_input_seq r = Some n"
  shows "n < next_queue_seq db"
proof -
  have "n \<in> set (List.map_filter r_queued_input_seq (db_runs db))"
    using assms by (force simp: map_filter_def)
  then show ?thesis
    using fold_max_bound [of "hd (List.map_filter r_queued_input_seq (db_runs db))"
        "tl (List.map_filter r_queued_input_seq (db_runs db))"]
    by (cases "List.map_filter r_queued_input_seq (db_runs db)") (auto simp: next_queue_seq_def)
qed

lemma seq_at_most_next:
  assumes "r \<in> set (db_runs db)"
  shows "r_queued_input_seq r \<le> Some (next_queue_seq db)"
  using next_queue_seq_fresh [OF assms] by (cases "r_queued_input_seq r") auto

lemma enqueue_rows:
  assumes "get_by_run_id (rs_db s) runId = None"
    "enqueue_input session prompt runId opts input now tok s = (s', Inr ())"
  shows "db_runs (rs_db s') = db_runs (rs_db s) @ [annotate_row (Some (Some (durable_input_json prompt opts)))
    (inserted_row (queued_row session runId opts input now (next_queue_seq (rs_db s))))]"
proof -
  let ?q = "queued_row session runId opts input now (next_queue_seq (rs_db s))"
  have key: "r_run_id ?q = runId" by (simp add: queued_row_def)
  obtain s1 x where ins: "run_insert ?q tok s = (s1, Inr x)"
    and ann: "set_correlation_json runId (Some (Some (durable_input_json prompt opts))) s1 = (s', Inr ())"
    using assms by (auto simp: enqueue_input_def split: prod.splits sum.splits)
  have s1: "db_runs (rs_db s1) = db_runs (rs_db s) @ [inserted_row ?q]"
    using ins by (auto simp: run_insert_def write_runs_def split: sum.splits if_splits option.splits)
  have "db_runs (rs_db s') = map (\<lambda>r. if r_run_id r = runId
      then annotate_row (Some (Some (durable_input_json prompt opts))) r else r) (db_runs (rs_db s1))"
    using ann by (auto simp: set_correlation_json_def update_where_Inr_iff split: sum.splits)
  moreover have "\<forall>r \<in> set (db_runs (rs_db s)). r_run_id r \<noteq> runId"
    using assms(1) by (auto simp: get_by_run_id_def run_row_of_def row_get_None_iff)
  ultimately show ?thesis by (simp add: s1 key map_idI)
qed

lemma parse_durable_input_json:
  "parse_durable_input (Some (Some (durable_input_json prompt opts))) = Some
     \<lparr>di_kind = ''durable_headless_turn_input'', di_prompt = prompt, di_source = eo_source opts,
      di_message = eo_message opts, di_format = eo_format opts,
      di_intent = Some (or_default (orelse (eo_intent opts) (eo_door opts)) ''enqueue'')\<rparr>"
  by (auto simp: parse_durable_input_def durable_input_json_def jstring_def jget_append split: option.split)

text \<open>
  Enqueueing is first in, first out, and loses nothing of the input. When a new input is
  enqueued, the queue of its host session is the old queue with the new run at the end, every other
  queue is as it was, and what a drain will read back for the run is the prompt, the source, the
  message and the response format that were enqueued, with the intent resolved.
\<close>

theorem enqueue_is_fifo:
  assumes "get_by_run_id (rs_db s) runId = None"
    "enqueue_input session prompt runId opts input now tok s = (s', Inr ())"
  shows "map r_run_id (list_queued_by_host_session_id (rs_db s') h) =
      map r_run_id (list_queued_by_host_session_id (rs_db s) h)
        @ (if h = sk_host_session session then [runId] else [])
    \<and> parse_durable_input (get_correlation_json (rs_db s') runId) = Some
       \<lparr>di_kind = ''durable_headless_turn_input'', di_prompt = prompt, di_source = eo_source opts,
        di_message = eo_message opts, di_format = eo_format opts,
        di_intent = Some (or_default (orelse (eo_intent opts) (eo_door opts)) ''enqueue'')\<rparr>"
proof
  let ?j = "Some (Some (durable_input_json prompt opts))"
  let ?q = "annotate_row ?j (inserted_row (queued_row session runId opts input now (next_queue_seq (rs_db s))))"
  note rows = enqueue_rows [OF assms]
  have q: "r_run_id ?q = runId" "r_queued_input_seq ?q = Some (next_queue_seq (rs_db s))"
    "queued_for h ?q \<longleftrightarrow> h = sk_host_session session" "r_correlation_json ?q = ?j"
    by (auto simp: queued_for_def queued_row_def inserted_row_def annotate_row_def)
  have "sort_key r_queued_input_seq (filter (queued_for h) (db_runs (rs_db s)) @ [?q]) =
      sort_key r_queued_input_seq (filter (queued_for h) (db_runs (rs_db s))) @ [?q]"
    using seq_at_most_next q(2) by (intro sort_key_append_last) auto
  then show "map r_run_id (list_queued_by_host_session_id (rs_db s') h) =
      map r_run_id (list_queued_by_host_session_id (rs_db s) h)
        @ (if h = sk_host_session session then [runId] else [])"
    using q(1,3) by (auto simp: list_queued_by_host_session_id_def rows)
  have "run_row_of (rs_db s) runId = None"
    using assms(1) by (simp add: get_by_run_id_def)
  then have "run_row_of (rs_db s') runId = Some ?q"
    using q(1) by (simp add: run_row_of_def rows row_get_snoc)
  then have "get_correlation_json (rs_db s') runId = ?j"
    using q(4) by (simp add: get_correlation_json_def)
  then show "parse_durable_input (get_correlation_json (rs_db s') runId) = Some
       \<lparr>di_kind = ''durable_headless_turn_input'', di_prompt = prompt, di_source = eo_source opts,
        di_message = eo_message opts, di_format = eo_format opts,
        di_intent = Some (or_default (orelse (eo_intent opts) (eo_door opts)) ''enqueue'')\<rparr>"
    using parse_durable_input_json [of prompt opts] by simp
qed

definition example_options :: enqueue_options where
  "example_options = \<lparr>eo_source = ''semantic_dm'', eo_runtime = None, eo_message = Some ''m9'',
     eo_format = None, eo_intent = None, eo_door = Some ''dispatch'', eo_idempotency_key = None,
     eo_actor = None, eo_kind = None, eo_causation = None\<rparr>"

definition example_session :: session_key where
  "example_session = \<lparr>sk_host_session = ''hs'', sk_scope_ref = ''agent:a'', sk_lane_ref = ''main'',
     sk_generation = 1\<rparr>"

definition example_enqueued :: "unit run_outcome" where
  "example_enqueued = enqueue_input example_session ''go'' ''r9'' example_options ''u1'' ''2028'' None
     example_three"

theorem enqueue_is_fifo_witness:
  "map r_run_id (list_queued_by_host_session_id (rs_db (fst example_enqueued)) ''hs'') =
     [''r2'', ''r3'', ''r9'']
   \<and> map_option di_intent (parse_durable_input (get_correlation_json (rs_db (fst example_enqueued)) ''r9''))
     = Some (Some ''dispatch'')"
proof -
  have "snd example_enqueued = Inr ()" by code_simp
  then have "enqueue_input example_session ''go'' ''r9'' example_options ''u1'' ''2028'' None
      example_three = (fst example_enqueued, Inr ())"
    by (metis example_enqueued_def prod.collapse)
  moreover have "get_by_run_id (rs_db example_three) ''r9'' = None" by code_simp
  moreover have "map r_run_id (list_queued_by_host_session_id (rs_db example_three) ''hs'') = [''r2'', ''r3'']"
    by code_simp
  ultimately show ?thesis
    using enqueue_is_fifo [of example_three "''r9''" example_session "''go''" example_options "''u1''"
        "''2028''" None "fst example_enqueued" "''hs''"]
    by (simp add: example_session_def example_options_def)
qed

end
