(* ===== verification/First_Turn_Watch.thy ===== *)
theory First_Turn_Watch
  imports Event_Ledger Run_Histories JS_Date "HOL-Library.AList"
begin

text \<open>
  The first-turn watchdog (hrc-server/src/first-turn-watch.ts and first-turn-eval.ts over
  hrc-store-sqlite/src/repositories/first-turn-watch-repository.ts): a runtime generation whose first
  prompt has been dispatched must produce a turn by an absolute deadline, or a durable
  \<open>first_turn_missing\<close> fact is recorded and the armed run is answered. A watch row is keyed by runtime
  and generation; every transition is one conditional statement. The evaluation pass yields between
  its rows, so it is a state of the world with a step per transaction. Assembling the diagnostic
  bundle and inserting its artifact row are arguments.
\<close>

section \<open>Lifecycle events\<close>

text \<open>The event kinds and their categories (hrc-event-helper.ts); any other kind throws.\<close>

definition kind_categories :: "(string \<times> string) list" where
  "kind_categories =
     [(''session.created'', ''session''), (''session.generation_auto_rotated'', ''session''),
      (''session.continuation_dropped'', ''session''), (''session.restart_armed'', ''session''),
      (''session.restart_cancelled'', ''session''), (''session.restart_executed'', ''session''),
      (''session.retitled'', ''session''), (''session.metadata.changed'', ''session''),
      (''session.metadata.rejected'', ''session''), (''target.literal-input'', ''app_session''),
      (''runtime.created'', ''runtime''), (''runtime.ensured'', ''runtime''),
      (''runtime.interrupted'', ''runtime''), (''runtime.terminated'', ''runtime''),
      (''runtime.idle_cleanup_started'', ''runtime''), (''runtime.sweep_completed'', ''runtime''),
      (''runtime.restarted'', ''runtime''), (''runtime.dead'', ''runtime''),
      (''broker.provider_transcript_artifact.warning'', ''runtime''),
      (''runtime.crashed'', ''runtime''), (''runtime.stale'', ''runtime''),
      (''runtime.reassociated'', ''runtime''), (''runtime.settled'', ''runtime''),
      (''runtime.presentation'', ''runtime''), (''runtime.capture_state_changed'', ''runtime''),
      (''runtime.capture_released'', ''runtime''), (''runtime.context.updated'', ''runtime''),
      (''first_turn_missing'', ''runtime''), (''first_turn_missing.diagnostics'', ''runtime''),
      (''first_turn_missing.late_start'', ''runtime''), (''broker.diagnostic'', ''runtime''),
      (''broker.seat.transition'', ''runtime''), (''broker.seat.stalled'', ''runtime''),
      (''broker.dispatch_authority.disagreement'', ''runtime''),
      (''broker.socket.closed_unexpectedly'', ''runtime''),
      (''launch.wrapper_started'', ''launch''), (''launch.child_started'', ''launch''),
      (''launch.continuation_captured'', ''launch''), (''launch.exited'', ''launch''),
      (''launch.orphaned'', ''launch''), (''launch.callback_rejected'', ''launch''),
      (''command_run.started'', ''turn''), (''command_run.exited'', ''turn''),
      (''turn.accepted'', ''turn''), (''turn.started'', ''turn''), (''turn.completed'', ''turn''),
      (''turn.failed'', ''turn''), (''turn.interrupted'', ''turn''),
      (''turn.degraded_input_delivered'', ''turn''), (''turn.zombied'', ''turn''),
      (''turn.reaped'', ''turn''), (''turn.user_prompt'', ''turn''), (''turn.tool_call'', ''turn''),
      (''turn.tool_result'', ''turn''), (''turn.awaiting_input'', ''turn''),
      (''turn.input_resumed'', ''turn''), (''broker.turn.origin'', ''turn''),
      (''turn.message'', ''turn''), (''turn.message_segment'', ''turn''),
      (''input.admitted'', ''input''), (''input.rejected'', ''input''),
      (''input.landed'', ''input''), (''input.terminal'', ''input''),
      (''input.correlation'', ''input''), (''broker.submission.milestone'', ''input''),
      (''broker.submission.stalled'', ''input''), (''submission.door_downgraded'', ''input''),
      (''submission.admission'', ''input''), (''inflight.accepted'', ''inflight''),
      (''inflight.rejected'', ''inflight''), (''surface.bound'', ''surface''),
      (''surface.rebound'', ''surface''), (''surface.unbound'', ''surface''),
      (''context.cleared'', ''context''), (''server.shutting_down'', ''server''),
      (''server.stopped'', ''server''), (''server.previous_exit_unattributed'', ''server''),
      (''server.started'', ''server'')]"

definition category_for_event_kind :: "string \<Rightarrow> string result" where
  "category_for_event_kind k = (case map_of kind_categories k of
     None \<Rightarrow> Inl (plain_error (''unknown hrc event kind: '' @ k)) | Some c \<Rightarrow> Inr c)"

record event_params =
  ev_ts :: string
  ev_host_session :: string
  ev_scope_ref :: string
  ev_lane_ref :: string
  ev_generation :: int
  ev_runtime :: "string option"
  ev_run :: "string option"
  ev_transport :: "string option"
  ev_error_code :: "string option"
  ev_payload :: json

definition create_hrc_event_input :: "string \<Rightarrow> event_params \<Rightarrow> ledger_row result" where
  "create_hrc_event_input kind p = then_do (category_for_event_kind kind) (\<lambda>category. Inr
     \<lparr>hr_hrc_seq = 0, hr_stream_seq = 0, hr_source_ref = None, hr_origin_seq = None, hr_ts = ev_ts p,
      hr_host_session_id = ev_host_session p, hr_scope_ref = ev_scope_ref p,
      hr_lane_ref = ev_lane_ref p, hr_generation = ev_generation p, hr_runtime_id = ev_runtime p,
      hr_run_id = ev_run p, hr_launch_id = None, hr_app_id = None, hr_app_session_key = None,
      hr_category = category, hr_event_kind = kind, hr_transport = ev_transport p,
      hr_error_code = ev_error_code p, hr_replayed = False, hr_evidence_origin = None,
      hr_payload = ev_payload p\<rparr>)"

definition append_hrc_event :: "string \<Rightarrow> event_params \<Rightarrow> ledger \<Rightarrow> (ledger_row \<times> ledger) result" where
  "append_hrc_event kind p l =
     then_do (create_hrc_event_input kind p) (\<lambda>event. Inr (append_persisted event l))"

section \<open>The watch table\<close>

record watch_row =
  fw_runtime :: string
  fw_generation :: int
  fw_host_session :: string
  fw_scope_ref :: string
  fw_lane_ref :: string
  fw_run :: "string option"
  fw_invocation :: "string option"
  fw_transport :: "string option"
  fw_priming :: "string option"
  fw_deadline :: "string option"
  fw_first_turn :: "string option"
  fw_tripped :: "string option"
  fw_disarmed :: "string option"
  fw_disarm_reason :: "string option"
  fw_trip_seq :: "int option"
  fw_diagnostics_seq :: "int option"
  fw_bundle_dir :: "string option"
  fw_created :: string
  fw_updated :: string

definition watch_key :: "watch_row \<Rightarrow> string \<times> int" where
  "watch_key r = (fw_runtime r, fw_generation r)"

definition watch_get :: "string \<Rightarrow> int \<Rightarrow> watch_row list \<Rightarrow> watch_row option" where
  "watch_get t g rows = row_get watch_key rows (t, g)"

text \<open>The guard the transitions share: no first turn, no trip, not disarmed.\<close>

definition unsettled :: "watch_row \<Rightarrow> bool" where
  "unsettled r = (fw_first_turn r = None \<and> fw_tripped r = None \<and> fw_disarmed r = None)"

text \<open>\<open>UPDATE ... WHERE runtime_id = ? AND generation = ? AND cond\<close>, and whether a row changed.\<close>

definition watch_update ::
  "string \<Rightarrow> int \<Rightarrow> (watch_row \<Rightarrow> bool) \<Rightarrow> (watch_row \<Rightarrow> watch_row) \<Rightarrow> watch_row list \<Rightarrow> watch_row list \<times> bool" where
  "watch_update t g cond f rows =
     (case watch_get t g rows of
        None \<Rightarrow> (rows, False)
      | Some r \<Rightarrow> if cond r then (row_update watch_key (t, g) f rows, True) else (rows, False))"

record watch_input =
  wi_runtime :: string
  wi_generation :: int
  wi_host_session :: string
  wi_scope_ref :: string
  wi_lane_ref :: string
  wi_run :: "string option"
  wi_invocation :: "string option"
  wi_transport :: "string option"
  wi_priming :: string
  wi_deadline :: string

definition armed_row :: "watch_input \<Rightarrow> watch_row" where
  "armed_row i = \<lparr>fw_runtime = wi_runtime i, fw_generation = wi_generation i,
     fw_host_session = wi_host_session i, fw_scope_ref = wi_scope_ref i, fw_lane_ref = wi_lane_ref i,
     fw_run = wi_run i, fw_invocation = wi_invocation i, fw_transport = wi_transport i,
     fw_priming = Some (wi_priming i), fw_deadline = Some (wi_deadline i), fw_first_turn = None,
     fw_tripped = None, fw_disarmed = None, fw_disarm_reason = None, fw_trip_seq = None,
     fw_diagnostics_seq = None, fw_bundle_dir = None, fw_created = wi_priming i,
     fw_updated = wi_priming i\<rparr>"

definition rearmed_row :: "watch_input \<Rightarrow> watch_row \<Rightarrow> watch_row" where
  "rearmed_row i r = r\<lparr>fw_run := orelse (fw_run r) (wi_run i),
     fw_invocation := orelse (fw_invocation r) (wi_invocation i),
     fw_transport := orelse (fw_transport r) (wi_transport i), fw_priming := Some (wi_priming i),
     fw_deadline := Some (wi_deadline i), fw_updated := wi_priming i\<rparr>"

definition watch_arm :: "watch_input \<Rightarrow> watch_row list \<Rightarrow> watch_row list \<times> watch_row option" where
  "watch_arm i rows =
     (case watch_get (wi_runtime i) (wi_generation i) rows of
        None \<Rightarrow> (rows @ [armed_row i], Some (armed_row i))
      | Some r \<Rightarrow>
          (case watch_update (wi_runtime i) (wi_generation i) (\<lambda>r. fw_priming r = None \<and> unsettled r)
                  (rearmed_row i) rows of
             (rows', True) \<Rightarrow> (rows', watch_get (wi_runtime i) (wi_generation i) rows')
           | (rows', False) \<Rightarrow> (rows', None)))"

definition mark_first_turn :: "string \<Rightarrow> int \<Rightarrow> string \<Rightarrow> watch_row list \<Rightarrow> watch_row list \<times> bool" where
  "mark_first_turn t g at = watch_update t g (\<lambda>r. fw_first_turn r = None)
     (\<lambda>r. r\<lparr>fw_first_turn := Some at, fw_updated := at\<rparr>)"

definition watch_disarm ::
  "string \<Rightarrow> int \<Rightarrow> string \<Rightarrow> string \<Rightarrow> watch_row list \<Rightarrow> watch_row list \<times> watch_row option" where
  "watch_disarm t g reason at rows =
     (case watch_update t g unsettled
        (\<lambda>r. r\<lparr>fw_disarmed := Some at, fw_disarm_reason := Some reason, fw_updated := at\<rparr>) rows of
        (rows', True) \<Rightarrow> (rows', watch_get t g rows')
      | (rows', False) \<Rightarrow> (rows', None))"

definition armed_due :: "string \<Rightarrow> watch_row \<Rightarrow> bool" where
  "armed_due now r = (unsettled r \<and> (case fw_deadline r of None \<Rightarrow> False | Some d \<Rightarrow> d \<le> now))"

definition list_armed_due :: "string \<Rightarrow> nat \<Rightarrow> watch_row list \<Rightarrow> watch_row list" where
  "list_armed_due now limit rows = take limit (sort_key fw_deadline (filter (armed_due now) rows))"

definition mark_tripped ::
  "string \<Rightarrow> int \<Rightarrow> string \<Rightarrow> int \<Rightarrow> watch_row list \<Rightarrow> watch_row list \<times> bool" where
  "mark_tripped t g at n = watch_update t g unsettled
     (\<lambda>r. r\<lparr>fw_tripped := Some at, fw_trip_seq := Some n, fw_updated := at\<rparr>)"

definition record_diagnostics ::
  "string \<Rightarrow> int \<Rightarrow> string \<Rightarrow> int \<Rightarrow> string \<Rightarrow> watch_row list \<Rightarrow> watch_row list" where
  "record_diagnostics t g dir n at rows = row_update watch_key (t, g)
     (\<lambda>r. r\<lparr>fw_bundle_dir := Some dir, fw_diagnostics_seq := Some n, fw_updated := at\<rparr>) rows"

definition clear_bundle :: "string \<Rightarrow> int \<Rightarrow> string \<Rightarrow> watch_row list \<Rightarrow> watch_row list" where
  "clear_bundle t g at rows = row_update watch_key (t, g)
     (\<lambda>r. r\<lparr>fw_bundle_dir := None, fw_updated := at\<rparr>) rows"

definition get_by_trip_event_seq :: "int \<Rightarrow> watch_row list \<Rightarrow> watch_row option" where
  "get_by_trip_event_seq n = List.find (\<lambda>r. fw_trip_seq r = Some n)"

text \<open>Trips newest first; rows of one instant come in an order the statement does not fix.\<close>

definition trips_newest_first :: "watch_row list \<Rightarrow> watch_row list" where
  "trips_newest_first rows = rev (sort_key fw_tripped (filter (\<lambda>r. fw_tripped r \<noteq> None) rows))"

definition list_trips_by_runtime :: "string \<Rightarrow> watch_row list \<Rightarrow> watch_row list" where
  "list_trips_by_runtime t rows = trips_newest_first (filter (\<lambda>r. fw_runtime r = t) rows)"

definition list_trips :: "nat \<Rightarrow> watch_row list \<Rightarrow> watch_row list" where
  "list_trips limit rows = take limit (trips_newest_first rows)"

definition latest_trip_by_runtime :: "watch_row list \<Rightarrow> (string \<times> watch_row) list" where
  "latest_trip_by_runtime rows = fold (\<lambda>r. AList.update (fw_runtime r) r)
     (sort_key fw_tripped (filter (\<lambda>r. fw_tripped r \<noteq> None) rows)) []"

section \<open>The world and the pass\<close>

text \<open>
  The pass in flight: the due rows it has still to visit, the trip whose diagnostics it is
  assembling, and its summary. \<open>ep_now\<close> is the instant it listed the due rows at.
\<close>

record eval_pass =
  ep_now :: string
  ep_due :: "watch_row list"
  ep_publishing :: "(watch_row \<times> int) option"
  ep_scanned :: nat
  ep_tripped :: nat
  ep_errors :: nat

record watch_world =
  ww_watches :: "watch_row list"
  ww_ledger :: ledger
  ww_store :: run_store
  ww_pass :: "eval_pass option"

section \<open>Arming and clearing\<close>

text \<open>An environment variable is unset (\<open>None\<close>) or a text.\<close>

definition read_positive_int_env :: "string option \<Rightarrow> int \<Rightarrow> int" where
  "read_positive_int_env raw fallback =
     (case raw of
        None \<Rightarrow> fallback
      | Some t \<Rightarrow> if js_trim t = [] then fallback
          else (case parse_int (js_trim t) of
             None \<Rightarrow> fallback | Some n \<Rightarrow> if n > 0 then n else fallback))"

definition resolve_first_turn_timeout :: "string option \<Rightarrow> int option \<Rightarrow> int" where
  "resolve_first_turn_timeout env override =
     (case override of
        Some n \<Rightarrow> if n > 0 then n else read_positive_int_env env 120000
      | None \<Rightarrow> read_positive_int_env env 120000)"

definition resolve_first_turn_eval_interval :: "string option \<Rightarrow> int" where
  "resolve_first_turn_eval_interval env = read_positive_int_env env 30"

definition generation_has_started_turn :: "hrc_db \<Rightarrow> string \<Rightarrow> int \<Rightarrow> bool" where
  "generation_has_started_turn db t g =
     list_ex (\<lambda>r. r_runtime_id r = Some t \<and> r_generation r = g \<and> r_started_at r \<noteq> None) (db_runs db)"

text \<open>
  \<open>armFirstTurnWatch\<close>: the input's deadline is computed here. Whatever fails, nothing is thrown and
  nothing written.
\<close>

definition arm_first_turn_watch ::
  "string option \<Rightarrow> int option \<Rightarrow> watch_input \<Rightarrow> watch_world \<Rightarrow> watch_world" where
  "arm_first_turn_watch env override i w =
     (if generation_has_started_turn (rs_db (ww_store w)) (wi_runtime i) (wi_generation i) then w
      else (case Option.bind (date_parse (wi_priming i))
              (\<lambda>ms. to_iso (ms + resolve_first_turn_timeout env override)) of
         None \<Rightarrow> w
       | Some deadline \<Rightarrow> w\<lparr>ww_watches := fst (watch_arm (i\<lparr>wi_deadline := deadline\<rparr>) (ww_watches w))\<rparr>))"

definition note_first_turn_started :: "string \<Rightarrow> int \<Rightarrow> string \<Rightarrow> watch_world \<Rightarrow> watch_world" where
  "note_first_turn_started t g at w = w\<lparr>ww_watches := fst (mark_first_turn t g at (ww_watches w))\<rparr>"

definition disarm_first_turn_watch ::
  "string \<Rightarrow> int \<Rightarrow> string \<Rightarrow> string \<Rightarrow> watch_world \<Rightarrow> watch_world" where
  "disarm_first_turn_watch t g reason at w =
     w\<lparr>ww_watches := fst (watch_disarm t g reason at (ww_watches w))\<rparr>"

definition live_invocation_states :: "string list" where
  "live_invocation_states = [''starting'', ''ready'', ''turn_active'', ''awaiting_input'', ''stopping'']"

definition disarm_on_continuation_cleared ::
  "string \<Rightarrow> int \<Rightarrow> string \<Rightarrow> string \<Rightarrow> watch_world \<Rightarrow> watch_world" where
  "disarm_on_continuation_cleared t g invocation at w =
     (case row_get inv_invocation_id (db_invocations (rs_db (ww_store w))) invocation of
        None \<Rightarrow> w
      | Some v \<Rightarrow> if inv_state v \<in> set live_invocation_states then w
          else disarm_first_turn_watch t g (''continuation_cleared:'' @ inv_state v) at w)"

definition is_first_turn_missing_terminal_run :: "run_row \<Rightarrow> bool" where
  "is_first_turn_missing_terminal_run r =
     (r_started_at r = None \<and> r_error_code r = Some ''first_turn_missing'')"

record turn_context =
  tx_runtime :: string
  tx_host_session :: string
  tx_scope_ref :: string
  tx_lane_ref :: string
  tx_generation :: int
  tx_transport :: "string option"

definition late_start_event ::
  "turn_context \<Rightarrow> run_row \<Rightarrow> string \<Rightarrow> int \<Rightarrow> string \<Rightarrow> string \<Rightarrow> watch_row option \<Rightarrow> event_params" where
  "late_start_event ctx run invocation n occurredAt now watch =
     \<lparr>ev_ts = now, ev_host_session = tx_host_session ctx, ev_scope_ref = tx_scope_ref ctx,
      ev_lane_ref = tx_lane_ref ctx, ev_generation = tx_generation ctx,
      ev_runtime = Some (tx_runtime ctx), ev_run = Some (r_run_id run), ev_transport = tx_transport ctx,
      ev_error_code = None,
      ev_payload = JObj ([(''runId'', JStr (r_run_id run)), (''invocationId'', JStr invocation),
          (''seq'', JNum n), (''startedAt'', JStr occurredAt),
          (''terminalStatus'', JStr (show_run_status (r_status run)))]
        @ text_field ''terminalErrorCode'' (r_error_code run)
        @ text_field ''terminalCompletedAt'' (r_completed_at run)
        @ number_field ''tripEventSeq'' (Option.bind watch fw_trip_seq))\<rparr>"

definition note_turn_started_on_terminal_run ::
  "turn_context \<Rightarrow> run_row \<Rightarrow> string \<Rightarrow> int \<Rightarrow> string \<Rightarrow> string \<Rightarrow> watch_world \<Rightarrow>
   watch_world \<times> ledger_row option result" where
  "note_turn_started_on_terminal_run ctx run invocation n occurredAt now w =
     (if \<not> is_first_turn_missing_terminal_run run then (w, Inr None)
      else (case append_hrc_event ''first_turn_missing.late_start''
              (late_start_event ctx run invocation n occurredAt now
                 (watch_get (tx_runtime ctx) (tx_generation ctx) (ww_watches w))) (ww_ledger w) of
         Inl e \<Rightarrow> (w, Inl e)
       | Inr (event, l) \<Rightarrow> (w\<lparr>ww_ledger := l\<rparr>, Inr (Some event))))"

section \<open>Detection and the trip\<close>

definition first_turn_diagnostics_hint :: "int \<Rightarrow> string" where
  "first_turn_diagnostics_hint n = ''hrc runtime diagnostics '' @ show_int n"

definition watch_event :: "watch_row \<Rightarrow> string \<Rightarrow> string option \<Rightarrow> json \<Rightarrow> event_params" where
  "watch_event watch at code payload =
     \<lparr>ev_ts = at, ev_host_session = fw_host_session watch, ev_scope_ref = fw_scope_ref watch,
      ev_lane_ref = fw_lane_ref watch, ev_generation = fw_generation watch,
      ev_runtime = Some (fw_runtime watch), ev_run = fw_run watch, ev_transport = None,
      ev_error_code = code, ev_payload = payload\<rparr>"

definition trip_payload :: "watch_row \<Rightarrow> string \<Rightarrow> json" where
  "trip_payload watch at = JObj ([(''runtimeId'', JStr (fw_runtime watch)),
       (''generation'', JNum (fw_generation watch)), (''scopeRef'', JStr (fw_scope_ref watch)),
       (''hostSessionId'', JStr (fw_host_session watch))]
     @ text_field ''runId'' (fw_run watch) @ text_field ''invocationId'' (fw_invocation watch)
     @ text_field ''primingDispatchedAt'' (fw_priming watch)
     @ text_field ''firstTurnDeadlineAt'' (fw_deadline watch) @ [(''trippedAt'', JStr at)])"

definition trip_completion :: "watch_row \<Rightarrow> string \<Rightarrow> int \<Rightarrow> completion" where
  "trip_completion watch at n =
     \<lparr>cm_status = RFailed, cm_completed_at = at, cm_updated_at = at,
      cm_error_code = Some ''first_turn_missing'',
      cm_error_message = Some (''no turn.started for runtime '' @ fw_runtime watch @ '' generation ''
        @ show_int (fw_generation watch) @ '' by '' @ or_default (fw_deadline watch) at
        @ ''; diagnostics: '' @ first_turn_diagnostics_hint n)\<rparr>"

definition answer_tripped_run :: "watch_row \<Rightarrow> string \<Rightarrow> int \<Rightarrow> run_store \<Rightarrow> unit run_outcome" where
  "answer_tripped_run watch at n s =
     (case Option.bind (fw_run watch) (get_by_run_id (rs_db s)) of
        None \<Rightarrow> (s, Inr ())
      | Some r \<Rightarrow> if r_completed_at r \<noteq> None then (s, Inr ())
          else (case mark_completed (r_run_id r) (trip_completion watch at n) s of
             (s', Inl e) \<Rightarrow> (s', Inl e) | (s', Inr _) \<Rightarrow> (s', Inr ())))"

text \<open>
  \<open>recordTrip\<close>, one transaction: the event, the stamp and the answer of the armed run. \<open>Inr None\<close> is
  the lost race; a thrown error rolls everything back as well.
\<close>

definition record_trip :: "watch_row \<Rightarrow> string \<Rightarrow> watch_world \<Rightarrow> watch_world \<times> int option result" where
  "record_trip watch at w =
     (case append_hrc_event ''first_turn_missing''
             (watch_event watch at (Some ''first_turn_missing'') (trip_payload watch at)) (ww_ledger w) of
        Inl e \<Rightarrow> (w, Inl e)
      | Inr (event, l) \<Rightarrow>
          (let n = hr_hrc_seq event in
           case mark_tripped (fw_runtime watch) (fw_generation watch) at n (ww_watches w) of
             (rows, False) \<Rightarrow> (w, Inr None)
           | (rows, True) \<Rightarrow>
               (case answer_tripped_run watch at n (ww_store w) of
                  (s, Inl e) \<Rightarrow> (w, Inl e)
                | (s, Inr _) \<Rightarrow>
                    (w\<lparr>ww_ledger := l, ww_watches := rows, ww_store := s\<rparr>, Inr (Some n)))))"

text \<open>What the diagnostic I/O gave: the bundle directory with its failures, and the artifact row.\<close>

record bundle_outcome =
  bo_dir :: "string option"
  bo_failures :: "(string \<times> string) list"
  bo_artifact_error :: "string option"

definition published_failures :: "bundle_outcome \<Rightarrow> (string \<times> string) list" where
  "published_failures b = (case (bo_dir b, bo_artifact_error b) of
     (Some dir, Some e) \<Rightarrow> AList.update ''artifactRow'' e (bo_failures b)
   | _ \<Rightarrow> bo_failures b)"

definition publish_diagnostics ::
  "watch_row \<Rightarrow> int \<Rightarrow> bundle_outcome \<Rightarrow> string \<Rightarrow> watch_world \<Rightarrow> watch_world" where
  "publish_diagnostics watch n b now w =
     (case append_hrc_event ''first_turn_missing.diagnostics''
             (watch_event watch now None (JObj ([(''tripEventSeq'', JNum n)]
                @ text_field ''bundleDir'' (bo_dir b)
                @ [(''failures'', JObj (map (\<lambda>(k, v). (k, JStr v)) (published_failures b))),
                   (''retrieval'', JStr (first_turn_diagnostics_hint n))]))) (ww_ledger w) of
        Inl e \<Rightarrow> w
      | Inr (event, l) \<Rightarrow>
          (case bo_dir b of
             None \<Rightarrow> w\<lparr>ww_ledger := l\<rparr>
           | Some dir \<Rightarrow> w\<lparr>ww_ledger := l, ww_watches := record_diagnostics (fw_runtime watch)
               (fw_generation watch) dir (hr_hrc_seq event) now (ww_watches w)\<rparr>))"

section \<open>The pass\<close>

text \<open>
  \<open>runRecurringFirstTurnEval\<close> starts a pass unless one is in flight; the pass visits the due rows in
  turn, one transaction each, and yields after a trip until the diagnostics are published.
\<close>

definition start_pass :: "string \<Rightarrow> watch_world \<Rightarrow> watch_world" where
  "start_pass now w =
     (if ww_pass w \<noteq> None then w
      else (let due = list_armed_due now 100 (ww_watches w) in
        w\<lparr>ww_pass := Some \<lparr>ep_now = now, ep_due = due, ep_publishing = None, ep_scanned = length due,
             ep_tripped = 0, ep_errors = 0\<rparr>\<rparr>))"

definition visit_next :: "string \<Rightarrow> watch_world \<Rightarrow> watch_world" where
  "visit_next at w =
     (case ww_pass w of
        None \<Rightarrow> w
      | Some p \<Rightarrow>
          if ep_publishing p \<noteq> None then w
          else (case ep_due p of
             [] \<Rightarrow> w\<lparr>ww_pass := None\<rparr>
           | watch # rest \<Rightarrow>
               (case record_trip watch at w of
                  (w', Inl e) \<Rightarrow> w'\<lparr>ww_pass := Some (p\<lparr>ep_due := rest, ep_errors := Suc (ep_errors p)\<rparr>)\<rparr>
                | (w', Inr None) \<Rightarrow> w'\<lparr>ww_pass := Some (p\<lparr>ep_due := rest\<rparr>)\<rparr>
                | (w', Inr (Some n)) \<Rightarrow> w'\<lparr>ww_pass := Some (p\<lparr>ep_due := rest,
                     ep_tripped := Suc (ep_tripped p), ep_publishing := Some (watch, n)\<rparr>)\<rparr>)))"

definition publish_next :: "bundle_outcome \<Rightarrow> string \<Rightarrow> watch_world \<Rightarrow> watch_world" where
  "publish_next b now w =
     (case ww_pass w of
        None \<Rightarrow> w
      | Some p \<Rightarrow>
          (case ep_publishing p of
             None \<Rightarrow> w
           | Some (watch, n) \<Rightarrow>
               (publish_diagnostics watch n b now w)\<lparr>ww_pass := Some (p\<lparr>ep_publishing := None\<rparr>)\<rparr>))"

section \<open>Histories\<close>

datatype watch_op =
    Arm "string option" "int option" watch_input
  | First_Turn string int string
  | Disarm string int string string
  | Continuation_Cleared string int string string
  | Late_Start turn_context run_row string int string string
  | Start_Pass string
  | Visit_Next string
  | Publish_Next bundle_outcome string
  | Clear_Bundle string int string
  | Other_Event ledger_row
  | Run_Write run_op "string option"

fun watch_exec :: "watch_op \<Rightarrow> watch_world \<Rightarrow> watch_world" where
  "watch_exec (Arm env override i) w = arm_first_turn_watch env override i w"
| "watch_exec (First_Turn t g at) w = note_first_turn_started t g at w"
| "watch_exec (Disarm t g reason at) w = disarm_first_turn_watch t g reason at w"
| "watch_exec (Continuation_Cleared t g i at) w = disarm_on_continuation_cleared t g i at w"
| "watch_exec (Late_Start ctx run i n occurredAt now) w =
     fst (note_turn_started_on_terminal_run ctx run i n occurredAt now w)"
| "watch_exec (Start_Pass now) w = start_pass now w"
| "watch_exec (Visit_Next at) w = visit_next at w"
| "watch_exec (Publish_Next b now) w = publish_next b now w"
| "watch_exec (Clear_Bundle t g at) w = w\<lparr>ww_watches := clear_bundle t g at (ww_watches w)\<rparr>"
| "watch_exec (Other_Event e) w = w\<lparr>ww_ledger := snd (append_persisted e (ww_ledger w))\<rparr>"
| "watch_exec (Run_Write op tok) w = w\<lparr>ww_store := run_exec (op, tok) (ww_store w)\<rparr>"

end
