(* ===== verification/Watch_Histories.thy ===== *)
theory Watch_Histories
  imports First_Turn_Watch "HOL-Library.Multiset"
begin

text \<open>
  What every history of the first-turn watchdog keeps: well-formed watch rows, a pass that only
  holds rows that were due, and one \<open>first_turn_missing\<close> event per tripped generation.
\<close>

section \<open>Well-formed rows\<close>

definition watch_ok :: "watch_row \<Rightarrow> bool" where
  "watch_ok r = (fw_priming r \<noteq> None
     \<and> (case fw_deadline r of None \<Rightarrow> False
        | Some d \<Rightarrow> (case fw_tripped r of None \<Rightarrow> True | Some t \<Rightarrow> d \<le> t))
     \<and> (fw_tripped r = None) = (fw_trip_seq r = None)
     \<and> (fw_disarmed r = None) = (fw_disarm_reason r = None)
     \<and> (fw_tripped r = None \<or> fw_disarmed r = None)
     \<and> (fw_diagnostics_seq r = None \<or> fw_trip_seq r \<noteq> None))"

text \<open>A row the pass still has to visit was due when the pass listed it.\<close>

definition due_entry :: "watch_row list \<Rightarrow> string \<Rightarrow> watch_row \<Rightarrow> bool" where
  "due_entry rows now x = (case watch_get (fw_runtime x) (fw_generation x) rows of
     None \<Rightarrow> False
   | Some r \<Rightarrow> (case fw_deadline r of None \<Rightarrow> False | Some d \<Rightarrow> d \<le> now))"

definition published_entry :: "watch_row list \<Rightarrow> watch_row \<times> int \<Rightarrow> bool" where
  "published_entry rows = (\<lambda>(x, n). case watch_get (fw_runtime x) (fw_generation x) rows of
     None \<Rightarrow> False | Some r \<Rightarrow> fw_trip_seq r = Some n)"

definition pass_ok :: "watch_row list \<Rightarrow> eval_pass \<Rightarrow> bool" where
  "pass_ok rows p = (list_all (due_entry rows (ep_now p)) (ep_due p)
     \<and> (case ep_publishing p of None \<Rightarrow> True | Some e \<Rightarrow> published_entry rows e))"

definition watches_ok :: "watch_world \<Rightarrow> bool" where
  "watches_ok w = (distinct (map watch_key (ww_watches w)) \<and> list_all watch_ok (ww_watches w)
     \<and> (case ww_pass w of None \<Rightarrow> True | Some p \<Rightarrow> pass_ok (ww_watches w) p))"

section \<open>The trips and their events\<close>

definition stamped_trips :: "watch_row list \<Rightarrow> (string \<times> int \<times> int) list" where
  "stamped_trips rows = List.map_filter
     (\<lambda>r. map_option (\<lambda>n. (fw_runtime r, fw_generation r, n)) (fw_trip_seq r)) rows"

definition trip_events :: "ledger \<Rightarrow> (string \<times> int \<times> int) list" where
  "trip_events l = List.map_filter
     (\<lambda>e. if hr_event_kind e = ''first_turn_missing''
          then map_option (\<lambda>t. (t, hr_generation e, hr_hrc_seq e)) (hr_runtime_id e) else None) (lg_rows l)"

definition watch_inv :: "watch_world \<Rightarrow> bool" where
  "watch_inv w = (watches_ok w \<and> mset (stamped_trips (ww_watches w)) = mset (trip_events (ww_ledger w)))"

text \<open>
  The discipline: the clock does not go backwards during a pass, and nothing else writes
  \<open>first_turn_missing\<close> events.
\<close>

fun on_time :: "watch_op \<Rightarrow> watch_world \<Rightarrow> bool" where
  "on_time (Visit_Next at) w = (case ww_pass w of None \<Rightarrow> True | Some p \<Rightarrow> ep_now p \<le> at)"
| "on_time (Other_Event e) w = (hr_event_kind e \<noteq> ''first_turn_missing'')"
| "on_time _ w = True"

primrec timely :: "watch_op list \<Rightarrow> watch_world \<Rightarrow> bool" where
  "timely [] w = True"
| "timely (op # ops) w = (on_time op w \<and> timely ops (watch_exec op w))"

section \<open>Updates of the table\<close>

lemma watch_getD: "watch_get t g rows = Some r \<Longrightarrow> r \<in> set rows \<and> fw_runtime r = t \<and> fw_generation r = g"
  by (auto simp: watch_get_def watch_key_def dest!: row_get_SomeD)

lemma watch_get_member:
  assumes "distinct (map watch_key rows)" "r \<in> set rows"
  shows "watch_get (fw_runtime r) (fw_generation r) rows = Some r"
proof -
  have "row_get watch_key rows (watch_key r) \<noteq> None"
    using assms(2) by (simp add: row_get_None_iff)
  then obtain x where x: "row_get watch_key rows (watch_key r) = Some x" by blast
  then have "x = r" using row_get_SomeD [OF x] assms by (auto simp: distinct_map dest: inj_onD)
  then show ?thesis using x by (simp add: watch_get_def watch_key_def)
qed

text \<open>An update that takes effect rewrites the one row of its key.\<close>

lemma watch_update_rows:
  assumes d: "distinct (map watch_key rows)"
  shows "fst (watch_update t g cond f rows) =
    map (\<lambda>r. if watch_key r = (t, g) \<and> cond r then f r else r) rows"
proof (cases "watch_get t g rows")
  case None
  then have "\<forall>r \<in> set rows. watch_key r \<noteq> (t, g)"
    unfolding watch_get_def row_get_None_iff by (metis image_eqI)
  then have "map (\<lambda>r. if watch_key r = (t, g) \<and> cond r then f r else r) rows = rows"
    by (intro map_idI) auto
  then show ?thesis using None by (simp add: watch_update_def)
next
  case (Some x)
  have same: "r = x" if "r \<in> set rows" "watch_key r = (t, g)" for r
    using watch_get_member [OF d that(1)] that(2) Some by (simp add: watch_key_def)
  show ?thesis
  proof (cases "cond x")
    case True
    then show ?thesis using Some same by (auto simp: watch_update_def row_update_def)
  next
    case False
    then have "map (\<lambda>r. if watch_key r = (t, g) \<and> cond r then f r else r) rows = rows"
      using same by (intro map_idI) auto
    then show ?thesis using Some False by (simp add: watch_update_def)
  qed
qed

lemma watch_update_took:
  "snd (watch_update t g cond f rows) \<longleftrightarrow> (\<exists>r. watch_get t g rows = Some r \<and> cond r)"
  by (auto simp: watch_update_def split: option.split)

text \<open>A transition of the table that keeps what the pass relies on.\<close>

definition rows_kept :: "watch_row list \<Rightarrow> watch_row list \<Rightarrow> bool" where
  "rows_kept rows rows' = (\<forall>t g r. watch_get t g rows = Some r \<longrightarrow>
     (\<exists>r'. watch_get t g rows' = Some r' \<and> fw_deadline r' = fw_deadline r
       \<and> (fw_trip_seq r = None \<or> fw_trip_seq r' = fw_trip_seq r)))"

lemma rows_kept_refl: "rows_kept rows rows"
  by (simp add: rows_kept_def)

lemma pass_ok_kept: "pass_ok rows p \<Longrightarrow> rows_kept rows rows' \<Longrightarrow> pass_ok rows' p"
  unfolding pass_ok_def rows_kept_def due_entry_def published_entry_def
  by (fastforce simp: list_all_iff split: option.splits)

text \<open>
  A rewriting of the rows that keeps keys, deadlines and sequence numbers of trips, and the form of
  the row.
\<close>

definition mild :: "(watch_row \<Rightarrow> watch_row) \<Rightarrow> bool" where
  "mild f = (\<forall>r. watch_key (f r) = watch_key r \<and> fw_deadline (f r) = fw_deadline r
     \<and> fw_trip_seq (f r) = fw_trip_seq r \<and> (watch_ok r \<longrightarrow> watch_ok (f r)))"

lemma watch_get_map:
  assumes "\<And>r. watch_key (f r) = watch_key r"
  shows "watch_get t g (map f rows) = map_option f (watch_get t g rows)"
  using row_get_map [of watch_key f, OF assms] by (simp add: watch_get_def)

lemma mild_map:
  assumes "mild f" "distinct (map watch_key rows)" "list_all watch_ok rows"
  shows "distinct (map watch_key (map f rows)) \<and> list_all watch_ok (map f rows)
    \<and> rows_kept rows (map f rows) \<and> stamped_trips (map f rows) = stamped_trips rows"
proof -
  have k: "watch_key (f r) = watch_key r" for r using assms(1) by (simp add: mild_def)
  have "stamped_trips (map f rows) = stamped_trips rows"
    using assms(1) unfolding stamped_trips_def
    by (induction rows) (auto simp: map_filter_simps mild_def watch_key_def split: option.split)
  moreover have "distinct (map watch_key (map f rows))" using assms(2) by (simp add: comp_def k)
  moreover have "list_all watch_ok (map f rows)" using assms(1,3) by (auto simp: mild_def list_all_iff)
  moreover have "rows_kept rows (map f rows)"
    using assms(1) by (simp add: rows_kept_def watch_get_map [of f, OF k] mild_def)
  ultimately show ?thesis by blast
qed

text \<open>An operation on the table that the invariant allows.\<close>

definition table_step :: "watch_row list \<Rightarrow> watch_row list \<Rightarrow> bool" where
  "table_step rows rows' = (distinct (map watch_key rows') \<and> list_all watch_ok rows' \<and> rows_kept rows rows'
     \<and> stamped_trips rows' = stamped_trips rows)"

lemma update_step:
  assumes "distinct (map watch_key rows)" "list_all watch_ok rows"
    "mild (\<lambda>r. if watch_key r = (t, g) \<and> cond r then f r else r)"
  shows "table_step rows (fst (watch_update t g cond f rows))"
  unfolding table_step_def watch_update_rows [OF assms(1)] using mild_map [OF assms(3,1,2)] .

lemma first_turn_step:
  assumes "distinct (map watch_key rows)" "list_all watch_ok rows"
  shows "table_step rows (fst (mark_first_turn t g at rows))"
  unfolding mark_first_turn_def
  by (rule update_step [OF assms]) (auto simp: mild_def watch_key_def watch_ok_def split: option.splits)

lemma disarm_step:
  assumes "distinct (map watch_key rows)" "list_all watch_ok rows"
  shows "table_step rows (fst (watch_disarm t g reason at rows))"
proof -
  have "fst (watch_disarm t g reason at rows) = fst (watch_update t g unsettled
      (\<lambda>r. r\<lparr>fw_disarmed := Some at, fw_disarm_reason := Some reason, fw_updated := at\<rparr>) rows)"
    by (simp add: watch_disarm_def split: prod.split bool.split)
  then show ?thesis
    by (auto intro!: update_step [OF assms] simp: mild_def watch_key_def watch_ok_def unsettled_def
        split: option.splits)
qed

lemma clear_step:
  assumes "distinct (map watch_key rows)" "list_all watch_ok rows"
  shows "table_step rows (clear_bundle t g at rows)"
  unfolding table_step_def clear_bundle_def row_update_def
  by (rule mild_map [OF _ assms]) (auto simp: mild_def watch_key_def watch_ok_def split: option.splits)

lemma diagnostics_step:
  assumes d: "distinct (map watch_key rows)" and ok: "list_all watch_ok rows"
    and p: "published_entry rows (x, n)"
  shows "table_step rows (record_diagnostics (fw_runtime x) (fw_generation x) dir m at rows)"
proof -
  let ?f = "\<lambda>r. r\<lparr>fw_bundle_dir := Some dir, fw_diagnostics_seq := Some m, fw_updated := at\<rparr>"
  have "fw_trip_seq r = Some n" if "r \<in> set rows" "watch_key r = (fw_runtime x, fw_generation x)" for r
    using p watch_get_member [OF d that(1)] that(2) by (simp add: published_entry_def watch_key_def)
  then have "record_diagnostics (fw_runtime x) (fw_generation x) dir m at rows =
      map (\<lambda>r. if watch_key r = (fw_runtime x, fw_generation x) \<and> fw_trip_seq r \<noteq> None then ?f r else r) rows"
    unfolding record_diagnostics_def row_update_def by (intro map_cong) auto
  note eq = this
  show ?thesis
    unfolding table_step_def eq
    by (rule mild_map [OF _ d ok]) (auto simp: mild_def watch_key_def watch_ok_def split: option.splits)
qed

lemma arm_step:
  assumes d: "distinct (map watch_key rows)" and ok: "list_all watch_ok rows"
  shows "table_step rows (fst (watch_arm i rows))"
proof (cases "watch_get (wi_runtime i) (wi_generation i) rows")
  case None
  then have new: "watch_key (armed_row i) \<notin> set (map watch_key rows)"
    by (simp add: watch_get_def row_get_None_iff watch_key_def armed_row_def)
  have "watch_ok (armed_row i)" by (simp add: watch_ok_def armed_row_def)
  moreover have "rows_kept rows (rows @ [armed_row i])"
    by (simp add: rows_kept_def watch_get_def row_get_snoc)
  moreover have "stamped_trips (rows @ [armed_row i]) = stamped_trips rows"
    by (simp add: stamped_trips_def map_filter_def armed_row_def)
  ultimately show ?thesis
    using None d ok new by (simp add: watch_arm_def table_step_def)
next
  case (Some r)
  have "watch_ok r" using ok watch_getD [OF Some] by (simp add: list_all_iff)
  then obtain y where "fw_priming r = Some y" by (auto simp: watch_ok_def)
  then have "fst (watch_arm i rows) = rows"
    using Some by (simp add: watch_arm_def watch_update_def)
  then show ?thesis using d ok by (simp add: table_step_def rows_kept_refl)
qed

section \<open>The trip\<close>

lemma map_filter_append: "List.map_filter f (xs @ ys) = List.map_filter f xs @ List.map_filter f ys"
  by (simp add: map_filter_def)

text \<open>Stamping a trip adds exactly that trip.\<close>

lemma tripped_rows:
  assumes d: "distinct (map watch_key rows)" and ok: "list_all watch_ok rows"
    and took: "mark_tripped t g at n rows = (rows', True)"
    and due: "watch_get t g rows = Some r" "fw_deadline r = Some dl" "dl \<le> at"
  shows "distinct (map watch_key rows') \<and> list_all watch_ok rows' \<and> rows_kept rows rows'
    \<and> watch_get t g rows' = Some (r\<lparr>fw_tripped := Some at, fw_trip_seq := Some n, fw_updated := at\<rparr>)
    \<and> mset (stamped_trips rows') = add_mset (t, g, n) (mset (stamped_trips rows))"
proof -
  let ?f = "\<lambda>r. r\<lparr>fw_tripped := Some at, fw_trip_seq := Some n, fw_updated := at\<rparr>"
  let ?F = "\<lambda>r. if watch_key r = (t, g) \<and> unsettled r then ?f r else r"
  have rows': "rows' = map ?F rows"
    using watch_update_rows [OF d, of t g unsettled ?f] took by (simp add: mark_tripped_def)
  have u: "unsettled r"
    using watch_update_took [of t g unsettled ?f rows] took due(1) by (simp add: mark_tripped_def)
  have r: "r \<in> set rows" "watch_key r = (t, g)" using watch_getD [OF due(1)] by (auto simp: watch_key_def)
  have none: "fw_trip_seq r = None" using ok r(1) u by (auto simp: list_all_iff watch_ok_def unsettled_def)
  have same: "x = r" if "x \<in> set rows" "watch_key x = (t, g)" for x
    using watch_get_member [OF d that(1)] that(2) due(1) by (simp add: watch_key_def)
  have key: "watch_key (?F x) = watch_key x" for x by (simp add: watch_key_def)
  have F: "?F x = (if x = r then ?f r else x)" if "x \<in> set rows" for x
  proof (cases "x = r")
    case False
    then have "watch_key x \<noteq> (t, g)" using same [OF that] by blast
    then show ?thesis using False by simp
  qed (use u r(2) in simp)
  obtain xs ys where xy: "rows = xs @ r # ys" using r(1) by (meson split_list)
  have "distinct rows" using d by (simp add: distinct_map)
  then have "r \<notin> set xs" "r \<notin> set ys" by (auto simp: xy)
  then have parts: "map ?F xs = xs" "map ?F ys = ys"
    using F by (auto intro!: map_idI simp: xy)
  have split: "rows' = xs @ ?f r # ys" using parts F [OF r(1)] by (simp add: rows' xy)
  then have "mset (stamped_trips rows') = add_mset (t, g, n) (mset (stamped_trips rows))"
    using none watch_getD [OF due(1)]
    by (simp add: xy stamped_trips_def map_filter_append map_filter_simps)
  moreover have "watch_ok r" using ok by (simp add: xy)
  then have "watch_ok (?f r)" using due(2,3) u by (simp add: watch_ok_def unsettled_def)
  then have "list_all watch_ok rows'" using ok by (simp add: split xy)
  moreover have get: "watch_get a b rows' = map_option ?F (watch_get a b rows)" for a b
    unfolding rows' by (rule watch_get_map) (rule key)
  have "rows_kept rows rows'"
    unfolding rows_kept_def get using none same watch_getD by (fastforce simp: watch_key_def)
  moreover have "watch_get t g rows' = Some (?f r)" unfolding get using due(1) u r(2) by simp
  moreover have "distinct (map watch_key rows')" using d key by (simp add: rows' comp_def)
  ultimately show ?thesis by blast
qed

lemma first_turn_missing_kind: "create_hrc_event_input ''first_turn_missing'' p = Inr e \<Longrightarrow>
    hr_event_kind e = ''first_turn_missing'' \<and> hr_runtime_id e = ev_runtime p \<and> hr_generation e = ev_generation p"
  by (auto simp: create_hrc_event_input_def then_do_Inr_iff)

lemma create_kind: "create_hrc_event_input k p = Inr e \<Longrightarrow> hr_event_kind e = k"
  by (auto simp: create_hrc_event_input_def then_do_Inr_iff)

lemma trip_events_append:
  "trip_events (snd (append_persisted e l)) = trip_events l
     @ (if hr_event_kind e = ''first_turn_missing''
        then List.map_filter (\<lambda>t. map_option (\<lambda>t. (t, hr_generation e, lg_allocated l + 1)) t) [hr_runtime_id e] else [])"
  by (simp add: trip_events_def append_persisted_def Let_def map_filter_append map_filter_simps
      split: option.split)

lemma other_events:
  assumes "append_hrc_event k p l = Inr (e, l')" "k \<noteq> ''first_turn_missing''"
  shows "trip_events l' = trip_events l"
proof -
  obtain e0 where e0: "create_hrc_event_input k p = Inr e0" "append_persisted e0 l = (e, l')"
    using assms(1) by (auto simp: append_hrc_event_def then_do_Inr_iff)
  then show ?thesis
    using trip_events_append [of e0 l] create_kind [OF e0(1)] assms(2) by simp
qed

text \<open>A recorded trip: one event, one stamp, both with the same sequence number.\<close>

lemma record_trip_effect:
  assumes ok: "distinct (map watch_key (ww_watches w))" "list_all watch_ok (ww_watches w)"
    and due: "due_entry (ww_watches w) now x" "now \<le> at"
    and trip: "record_trip x at w = (w', Inr (Some n))"
  shows "distinct (map watch_key (ww_watches w')) \<and> list_all watch_ok (ww_watches w')
    \<and> rows_kept (ww_watches w) (ww_watches w') \<and> published_entry (ww_watches w') (x, n)
    \<and> mset (stamped_trips (ww_watches w')) = add_mset (fw_runtime x, fw_generation x, n) (mset (stamped_trips (ww_watches w)))
    \<and> trip_events (ww_ledger w') = trip_events (ww_ledger w) @ [(fw_runtime x, fw_generation x, n)]
    \<and> ww_pass w' = ww_pass w"
proof -
  obtain e l rows s where e: "append_hrc_event ''first_turn_missing''
      (watch_event x at (Some ''first_turn_missing'') (trip_payload x at)) (ww_ledger w) = Inr (e, l)"
    and rows: "mark_tripped (fw_runtime x) (fw_generation x) at (hr_hrc_seq e) (ww_watches w) = (rows, True)"
    and w': "w' = w\<lparr>ww_ledger := l, ww_watches := rows, ww_store := s\<rparr>" and n: "n = hr_hrc_seq e"
    using trip by (auto simp: record_trip_def Let_def split: sum.splits prod.splits bool.splits)
  obtain e0 where e0: "create_hrc_event_input ''first_turn_missing''
      (watch_event x at (Some ''first_turn_missing'') (trip_payload x at)) = Inr e0"
    "append_persisted e0 (ww_ledger w) = (e, l)"
    using e by (auto simp: append_hrc_event_def then_do_Inr_iff)
  have seq: "hr_hrc_seq e = lg_allocated (ww_ledger w) + 1"
    using e0(2) by (auto simp: append_persisted_def Let_def)
  have ev: "trip_events l = trip_events (ww_ledger w) @ [(fw_runtime x, fw_generation x, n)]"
    using trip_events_append [of e0 "ww_ledger w"] e0(2) first_turn_missing_kind [OF e0(1)] seq n
    by (simp add: watch_event_def map_filter_simps)
  obtain r dl where r: "watch_get (fw_runtime x) (fw_generation x) (ww_watches w) = Some r"
    "fw_deadline r = Some dl" "dl \<le> at"
    using due by (auto simp: due_entry_def split: option.splits intro: order_trans)
  note rows_ok = tripped_rows [OF ok rows r]
  then have "published_entry rows (x, n)" by (simp add: published_entry_def n)
  then show ?thesis using rows_ok ev by (simp add: w' n)
qed

lemma record_trip_refused:
  "record_trip x at w = (w', r) \<Longrightarrow> (\<And>n. r \<noteq> Inr (Some n)) \<Longrightarrow> w' = w"
  by (auto simp: record_trip_def Let_def split: sum.splits prod.splits bool.splits)

section \<open>Every step\<close>

lemma inv_table:
  assumes "watch_inv w" "table_step (ww_watches w) rows"
  shows "watch_inv (w\<lparr>ww_watches := rows\<rparr>)"
  using assms pass_ok_kept [of "ww_watches w" _ rows]
  by (auto simp: watch_inv_def watches_ok_def table_step_def split: option.splits)

lemma watch_invD:
  assumes "watch_inv w"
  shows "distinct (map watch_key (ww_watches w))" "list_all watch_ok (ww_watches w)"
  using assms by (auto simp: watch_inv_def watches_ok_def)

lemma inv_ledger:
  "watch_inv w \<Longrightarrow> trip_events l = trip_events (ww_ledger w) \<Longrightarrow> watch_inv (w\<lparr>ww_ledger := l\<rparr>)"
  by (auto simp: watch_inv_def watches_ok_def split: option.splits)

lemma inv_both:
  assumes "watch_inv w" "trip_events l = trip_events (ww_ledger w)" "table_step (ww_watches w) rows"
  shows "watch_inv (w\<lparr>ww_ledger := l, ww_watches := rows\<rparr>)"
  using inv_table [OF inv_ledger [OF assms(1,2)]] assms(3) by simp

lemma inv_store: "watch_inv w \<Longrightarrow> watch_inv (w\<lparr>ww_store := s\<rparr>)"
  by (auto simp: watch_inv_def watches_ok_def split: option.splits)

lemma list_armed_due_entry:
  assumes "distinct (map watch_key rows)" "x \<in> set (list_armed_due now k rows)"
  shows "due_entry rows now x"
proof -
  have "x \<in> set (filter (armed_due now) rows)"
    using assms(2) unfolding list_armed_due_def by (metis in_set_takeD set_sort)
  then show ?thesis
    using watch_get_member [OF assms(1)] by (auto simp: due_entry_def armed_due_def)
qed

lemma inv_start: "watch_inv w \<Longrightarrow> watch_inv (start_pass now w)"
  using list_armed_due_entry [OF watch_invD(1) [of w]]
  by (auto simp: start_pass_def watch_inv_def watches_ok_def pass_ok_def list_all_iff Let_def)

lemma inv_visit:
  assumes inv: "watch_inv w" and time: "on_time (Visit_Next at) w"
  shows "watch_inv (visit_next at w)"
proof (cases "ww_pass w")
  case None
  then show ?thesis using inv by (simp add: visit_next_def)
next
  case (Some p)
  note ok = watch_invD [OF inv]
  have p: "pass_ok (ww_watches w) p" using inv Some by (simp add: watch_inv_def watches_ok_def)
  show ?thesis
  proof (cases "ep_publishing p = None \<and> ep_due p \<noteq> []")
    case False
    then show ?thesis
      using inv Some by (auto simp: visit_next_def watch_inv_def watches_ok_def split: list.split)
  next
    case True
    then obtain x rest where x: "ep_due p = x # rest" by (cases "ep_due p") auto
    obtain w' r where trip: "record_trip x at w = (w', r)" by force
    have due: "due_entry (ww_watches w) (ep_now p) x" "ep_now p \<le> at"
      using p x time Some by (simp_all add: pass_ok_def)
    show ?thesis
    proof (cases "\<exists>n. r = Inr (Some n)")
      case False
      then have "w' = w" using record_trip_refused [OF trip] by blast
      then show ?thesis
        using inv Some p x trip True False
        by (auto simp: visit_next_def watch_inv_def watches_ok_def pass_ok_def split: sum.splits option.splits)
    next
      case True
      then obtain n where n: "r = Inr (Some n)" by blast
      note eff = record_trip_effect [OF ok due trip [unfolded n]]
      have "pass_ok (ww_watches w') p" using pass_ok_kept [OF p] eff by blast
      then show ?thesis
        using eff inv Some x trip n \<open>ep_publishing p = None \<and> ep_due p \<noteq> []\<close>
        by (simp add: visit_next_def watch_inv_def watches_ok_def pass_ok_def)
    qed
  qed
qed

lemma inv_publish:
  assumes inv: "watch_inv w"
  shows "watch_inv (publish_next b now w)"
proof (cases "\<exists>p x n. ww_pass w = Some p \<and> ep_publishing p = Some (x, n)")
  case False
  then show ?thesis using inv by (auto simp: publish_next_def split: option.split)
next
  case True
  then obtain p x n where p: "ww_pass w = Some p" "ep_publishing p = Some (x, n)" by blast
  note ok = watch_invD [OF inv]
  have pub: "published_entry (ww_watches w) (x, n)"
    using inv p by (simp add: watch_inv_def watches_ok_def pass_ok_def)
  have w1: "watch_inv (publish_diagnostics x n b now w) \<and> ww_pass (publish_diagnostics x n b now w) = ww_pass w"
    using inv other_events [of "''first_turn_missing.diagnostics''"] diagnostics_step [OF ok pub]
    unfolding publish_diagnostics_def
    by (auto split: sum.split option.split intro!: inv_ledger inv_both)
  then have "pass_ok (ww_watches (publish_diagnostics x n b now w)) p"
    using p by (auto simp: watch_inv_def watches_ok_def split: option.splits)
  then show ?thesis
    using w1 p by (simp add: publish_next_def watch_inv_def watches_ok_def pass_ok_def)
qed

lemma inv_disarm: "watch_inv w \<Longrightarrow> watch_inv (disarm_first_turn_watch t g reason at w)"
  unfolding disarm_first_turn_watch_def by (rule inv_table) (auto intro: disarm_step dest: watch_invD)

lemma inv_exec: "watch_inv w \<Longrightarrow> on_time op w \<Longrightarrow> watch_inv (watch_exec op w)"
proof (cases op)
  case (Arm env override i)
  assume inv: "watch_inv w"
  then show ?thesis
    using inv_table [OF inv arm_step [OF watch_invD [OF inv]]]
    by (simp add: Arm arm_first_turn_watch_def split: option.split)
next
  case (First_Turn t g at)
  assume inv: "watch_inv w"
  then show ?thesis
    using inv_table [OF inv first_turn_step [OF watch_invD [OF inv]]]
    by (simp add: First_Turn note_first_turn_started_def)
next
  case (Continuation_Cleared t g i at)
  assume "watch_inv w"
  then show ?thesis
    by (simp add: Continuation_Cleared disarm_on_continuation_cleared_def inv_disarm split: option.split)
next
  case (Late_Start ctx run i n occurredAt now)
  assume inv: "watch_inv w"
  then show ?thesis
    using inv_ledger [OF inv] other_events [of "''first_turn_missing.late_start''"]
    by (auto simp: Late_Start note_turn_started_on_terminal_run_def split: sum.split)
next
  case (Clear_Bundle t g at)
  assume inv: "watch_inv w"
  then show ?thesis
    using inv_table [OF inv clear_step [OF watch_invD [OF inv]]] by (simp add: Clear_Bundle)
next
  case (Other_Event e)
  assume "watch_inv w" "on_time op w"
  then show ?thesis using trip_events_append [of e "ww_ledger w"] by (simp add: Other_Event inv_ledger)
qed (simp_all add: inv_disarm inv_store inv_start inv_visit inv_publish)

interpretation watchdog: guarded_history watch_exec on_time watch_inv
  by unfold_locales (rule inv_exec)

lemma timely_disciplined: "timely ops w = watchdog.disciplined ops w"
  by (induction ops arbitrary: w) auto

lemma timely_inv: "timely ops w \<Longrightarrow> watch_inv w \<Longrightarrow> watch_inv (fold watch_exec ops w)"
  unfolding timely_disciplined by (rule watchdog.disciplined_keeps)

section \<open>The guarantees\<close>

text \<open>
  C33. The watch table stays well-formed. In every history from an empty table, with evaluation
  passes interleaved anywhere and a clock that does not go backwards, keys are unique, every row has
  its dispatch and its deadline, a trip is never stamped before the deadline, the trip stamp and its
  sequence number come together, as do the disarm stamp and its reason, no row is both tripped and
  disarmed, only a tripped row has diagnostics, and the pass in flight only holds rows that were due.
\<close>

theorem watch_rows_stay_well_formed:
  assumes "ww_watches w = []" "ww_pass w = None" "trip_events (ww_ledger w) = []"
    "timely ops w"
  shows "watches_ok (fold watch_exec ops w)"
proof -
  have "watch_inv w" using assms(1-3) by (simp add: watch_inv_def watches_ok_def stamped_trips_def map_filter_simps)
  then show ?thesis using timely_inv [OF assms(4)] by (simp add: watch_inv_def)
qed

text \<open>
  C36. A liveness failure is recorded exactly once. In every such history the \<open>first_turn_missing\<close>
  events of the ledger are exactly the trips stamped in the watch table, with their runtime,
  generation and sequence number, and no generation has two of them: an event never outlives the
  stamp it belongs to, whatever first turn, disarm or error raced with the pass.
\<close>

theorem trips_match_their_events:
  assumes "ww_watches w = []" "ww_pass w = None" "trip_events (ww_ledger w) = []"
    "timely ops w" "w' = fold watch_exec ops w"
  shows "mset (trip_events (ww_ledger w')) = mset (stamped_trips (ww_watches w'))
    \<and> distinct (map (\<lambda>(t, g, n). (t, g)) (trip_events (ww_ledger w')))"
proof -
  have "watch_inv w" using assms(1-3) by (simp add: watch_inv_def watches_ok_def stamped_trips_def map_filter_simps)
  then have inv: "watch_inv w'" using timely_inv [OF assms(4)] assms(5) by simp
  have sub: "distinct (map watch_key rows) \<Longrightarrow> distinct (map (\<lambda>(t, g, n). (t, g)) (stamped_trips rows))
      \<and> set (map (\<lambda>(t, g, n). (t, g)) (stamped_trips rows)) \<subseteq> set (map watch_key rows)" for rows
    by (induction rows) (auto simp: stamped_trips_def map_filter_simps watch_key_def split: option.split)
  have m: "mset (trip_events (ww_ledger w')) = mset (stamped_trips (ww_watches w'))"
    using inv by (simp add: watch_inv_def)
  then have "mset (map (\<lambda>(t, g, n). (t, g)) (trip_events (ww_ledger w'))) =
      mset (map (\<lambda>(t, g, n). (t, g)) (stamped_trips (ww_watches w')))" by simp
  then have "distinct (map (\<lambda>(t, g, n). (t, g)) (trip_events (ww_ledger w')))"
    using sub [of "ww_watches w'"] watch_invD(1) [OF inv] by (metis mset_eq_imp_distinct_iff)
  then show ?thesis using m by blast
qed

section \<open>Examples\<close>

text \<open>Two armed generations; one starts its turn during the pass, the other is tripped.\<close>

definition example_watch :: "string \<Rightarrow> int \<Rightarrow> watch_input" where
  "example_watch t g = \<lparr>wi_runtime = t, wi_generation = g, wi_host_session = ''hs'',
     wi_scope_ref = ''agent:a'', wi_lane_ref = ''main'', wi_run = Some ''r2'', wi_invocation = None,
     wi_transport = None, wi_priming = ''2026-10-22T08:00:00.000Z'', wi_deadline = []\<rparr>"

definition quiet_world :: watch_world where
  "quiet_world = \<lparr>ww_watches = [], ww_ledger = \<lparr>lg_incarnation = ''l'', lg_rows = [], lg_allocated = 0,
      lg_stream_cursor = 1\<rparr>, ww_store = example_three, ww_pass = None\<rparr>"

definition example_watch_ops :: "watch_op list" where
  "example_watch_ops = [Arm None None (example_watch ''rt'' 1), Arm (Some ''60000'') None (example_watch ''ru'' 4),
     Start_Pass ''2026-10-22T08:02:00.000Z'', First_Turn ''ru'' 4 ''2026-10-22T08:02:00.100Z'',
     Visit_Next ''2026-10-22T08:02:00.200Z'', Visit_Next ''2026-10-22T08:02:00.300Z'']"

definition quiet_end :: watch_world where
  "quiet_end = fold watch_exec example_watch_ops quiet_world"

lemma quiet_world_timely: "timely example_watch_ops quiet_world"
  by code_simp

lemma quiet_end_view:
  "(map (\<lambda>r. (fw_first_turn r = None, fw_trip_seq r)) (ww_watches quiet_end), trip_events (ww_ledger quiet_end))
     = ([(True, Some 1), (False, None)], [(''rt'', 1, 1)])"
  by code_simp

theorem watch_rows_stay_well_formed_witness:
  "watches_ok quiet_end \<and> map (\<lambda>r. (fw_first_turn r = None, fw_trip_seq r)) (ww_watches quiet_end)
     = [(True, Some 1), (False, None)]"
proof
  show "watches_ok quiet_end"
    unfolding quiet_end_def
    by (rule watch_rows_stay_well_formed [OF _ _ _ quiet_world_timely]) code_simp+
  show "map (\<lambda>r. (fw_first_turn r = None, fw_trip_seq r)) (ww_watches quiet_end)
     = [(True, Some 1), (False, None)]" using quiet_end_view by simp
qed

theorem trips_match_their_events_witness:
  "mset (trip_events (ww_ledger quiet_end)) = mset (stamped_trips (ww_watches quiet_end))
    \<and> trip_events (ww_ledger quiet_end) = [(''rt'', 1, 1)]"
proof
  show "mset (trip_events (ww_ledger quiet_end)) = mset (stamped_trips (ww_watches quiet_end))"
    using trips_match_their_events [OF _ _ _ quiet_world_timely quiet_end_def]
    by (simp add: quiet_world_def trip_events_def map_filter_simps)
  show "trip_events (ww_ledger quiet_end) = [(''rt'', 1, 1)]" using quiet_end_view by simp
qed

end
