(* ===== verification/Selectors.thy ===== *)
theory Selectors
  imports JS_String
begin

text \<open>
  The selectors of sessions, runtimes and messages (hrc-core/src/selectors.ts): parsing a text or an
  object, the canonical text, and the session reference they are built on. The grammar of scope
  references, lanes and handles is code of the package agent-scope: its functions are the record
  \<open>scope_lib\<close>.
\<close>

section \<open>The scope library\<close>

text \<open>
  A validator answers the error text, or nothing when the reference is valid; a formatter or parser
  may throw. \<open>sl_parse_session\<close> gives the lane reference of a session handle, \<open>sl_qualify\<close> the scope
  reference it resolves to with a default role.
\<close>

record scope_lib =
  sl_validate_scope :: "string \<Rightarrow> string option"
  sl_validate_lane :: "string \<Rightarrow> string option"
  sl_scope_handle :: "string \<Rightarrow> string result"
  sl_session_handle :: "string \<Rightarrow> string \<Rightarrow> string result"
  sl_parse_session :: "string \<Rightarrow> string result"
  sl_qualify :: "string \<Rightarrow> string option \<Rightarrow> string result"
  sl_build_scope :: "string \<Rightarrow> string option \<Rightarrow> string option \<Rightarrow> string option \<Rightarrow> string"

section \<open>Selectors\<close>

datatype selector =
    Stable string
  | Concrete string
  | Target string string string string string
  | Scope string string string
  | Session string string string string string
  | Host string string
  | Runtime string string
  | Message string string
  | Message_Seq string int

section \<open>Session references\<close>

definition invalid_selector :: "string \<Rightarrow> json_object \<Rightarrow> js_error" where
  "invalid_selector message detail = domain_error ''invalid_selector'' message detail"

definition invalid_monitor_selector :: "string \<Rightarrow> int \<Rightarrow> string \<Rightarrow> js_error" where
  "invalid_monitor_selector kind position reason = invalid_selector reason
     [(''kind'', JStr kind), (''position'', JNum position), (''reason'', JStr reason)]"

fun json_typeof :: "json \<Rightarrow> string" where
  "json_typeof (JStr _) = ''string''"
| "json_typeof (JNum _) = ''number''"
| "json_typeof (JBool _) = ''boolean''"
| "json_typeof _ = ''object''"

text \<open>An absent property is \<open>None\<close>.\<close>

definition assert_non_empty_string :: "json option \<Rightarrow> string \<Rightarrow> string result" where
  "assert_non_empty_string v field =
     (case Option.bind v json_string of
        None \<Rightarrow> Inl (invalid_selector (field @ '' must be a string'') [(''fieldName'', JStr field),
          (''valueType'', JStr (case v of None \<Rightarrow> ''undefined'' | Some j \<Rightarrow> json_typeof j))])
      | Some s \<Rightarrow> if js_trim s = []
          then Inl (invalid_selector (field @ '' must not be empty'') [(''fieldName'', JStr field)])
          else Inr (js_trim s))"

definition assert_non_empty_value :: "string \<Rightarrow> string \<Rightarrow> int \<Rightarrow> string result" where
  "assert_non_empty_value v kind position =
     (if v = [] then Inl (invalid_monitor_selector kind position (kind @ '' selector value must not be empty''))
      else Inr v)"

definition normalize_lane_id :: "scope_lib \<Rightarrow> string option \<Rightarrow> string result" where
  "normalize_lane_id lib laneId =
     (case laneId of
        None \<Rightarrow> Inr ''main''
      | Some l \<Rightarrow>
          if l = ''main'' then Inr ''main''
          else (let laneRef = (if starts_with l ''lane:'' then l else ''lane:'' @ l) in
            case sl_validate_lane lib laneRef of
              Some e \<Rightarrow> Inl (invalid_selector e [])
            | None \<Rightarrow> Inr (drop 5 laneRef)))"

definition session_handle_for :: "scope_lib \<Rightarrow> string \<Rightarrow> string \<Rightarrow> string result" where
  "session_handle_for lib scopeRef laneId =
     sl_session_handle lib scopeRef (if laneId = ''main'' then ''main'' else ''lane:'' @ laneId)"

definition session_ref :: "string \<Rightarrow> string \<Rightarrow> string" where
  "session_ref scopeRef laneId = scopeRef @ ''/lane:'' @ laneId"

definition split_session_ref :: "scope_lib \<Rightarrow> string \<Rightarrow> (string \<times> string) result" where
  "split_session_ref lib s =
     (case js_split CHR ''/'' s of
        [scopeRef, laneSuffix] \<Rightarrow>
          if \<not> starts_with laneSuffix ''lane:''
          then Inl (invalid_selector ''sessionRef must use \"<scopeRef>/lane:<laneRef>\" format''
                 [(''sessionRef'', JStr s)])
          else (let scope = js_trim scopeRef; lane = drop 5 (js_trim laneSuffix) in
            if scope = [] \<or> lane = []
            then Inl (invalid_selector ''sessionRef must include non-empty scopeRef and laneRef values''
                   [(''sessionRef'', JStr s)])
            else (case sl_validate_scope lib scope of
                Some e \<Rightarrow> Inl (invalid_selector
                  (''sessionRef must include a canonical agent ScopeRef: '' @ e)
                  [(''sessionRef'', JStr s), (''scopeRef'', JStr scope)])
              | None \<Rightarrow> Inr (scope, lane)))
      | _ \<Rightarrow> Inl (invalid_selector ''sessionRef must use \"<scopeRef>/lane:<laneRef>\" format''
               [(''sessionRef'', JStr s)]))"

definition normalize_session_ref :: "scope_lib \<Rightarrow> json option \<Rightarrow> string result" where
  "normalize_session_ref lib v = then_do (assert_non_empty_string v ''sessionRef'') (\<lambda>s.
     then_do (split_session_ref lib s) (\<lambda>(scope, lane). Inr (session_ref scope lane)))"

record scope_input =
  si_scope_ref :: "string option"
  si_agent :: "string option"
  si_project :: "string option"
  si_task :: "string option"
  si_role :: "string option"

definition optional_field :: "string option \<Rightarrow> string \<Rightarrow> string option result" where
  "optional_field v field = (case v of None \<Rightarrow> Inr None
     | Some s \<Rightarrow> then_do (assert_non_empty_string (Some (JStr s)) field) (\<lambda>t. Inr (Some t)))"

definition validated_scope :: "scope_lib \<Rightarrow> string \<Rightarrow> string result" where
  "validated_scope lib s = (case sl_validate_scope lib s of
     Some e \<Rightarrow> Inl (invalid_selector e []) | None \<Rightarrow> Inr s)"

definition format_canonical_scope_ref :: "scope_lib \<Rightarrow> scope_input \<Rightarrow> string result" where
  "format_canonical_scope_ref lib i =
     (case si_scope_ref i of
        Some s \<Rightarrow> then_do (assert_non_empty_string (Some (JStr s)) ''scopeRef'') (validated_scope lib)
      | None \<Rightarrow>
          then_do (assert_non_empty_string (map_option JStr (si_agent i)) ''agentId'') (\<lambda>agent.
          then_do (optional_field (si_project i) ''projectId'') (\<lambda>project.
          then_do (optional_field (si_task i) ''taskId'') (\<lambda>task.
          then_do (optional_field (si_role i) ''roleName'') (\<lambda>role.
            validated_scope lib (sl_build_scope lib agent project task role))))))"

text \<open>The call with a \<open>scopeRef\<close> alone.\<close>

definition canonical_scope :: "scope_lib \<Rightarrow> string \<Rightarrow> string result" where
  "canonical_scope lib s = format_canonical_scope_ref lib \<lparr>si_scope_ref = Some s, si_agent = None,
     si_project = None, si_task = None, si_role = None\<rparr>"

definition format_canonical_session_ref ::
  "scope_lib \<Rightarrow> string \<Rightarrow> string option \<Rightarrow> string option \<Rightarrow> string result" where
  "format_canonical_session_ref lib scopeRef laneId laneRef =
     then_do (format_canonical_scope_ref lib \<lparr>si_scope_ref = Some scopeRef, si_agent = None,
       si_project = None, si_task = None, si_role = None\<rparr>) (\<lambda>scope.
     then_do (normalize_lane_id lib (orelse laneId laneRef)) (\<lambda>lane. Inr (session_ref scope lane)))"

section \<open>Monitor selectors\<close>

text \<open>A thrown error is rethrown at its position in the selector, with its message.\<close>

definition rethrow_at :: "string \<Rightarrow> int \<Rightarrow> 'a result \<Rightarrow> 'a result" where
  "rethrow_at kind position r = (case r of
     Inl e \<Rightarrow> Inl (invalid_monitor_selector kind position (err_message e)) | Inr a \<Rightarrow> Inr a)"

definition parse_scope_selector :: "scope_lib \<Rightarrow> string \<Rightarrow> string \<Rightarrow> int \<Rightarrow> selector result" where
  "parse_scope_selector lib raw v position =
     then_do (assert_non_empty_value v ''scope'' position) (\<lambda>scopeRef.
       case sl_validate_scope lib scopeRef of
         Some e \<Rightarrow> Inl (invalid_monitor_selector ''scope'' position e)
       | None \<Rightarrow> then_do (sl_scope_handle lib scopeRef) (\<lambda>h. Inr (Scope raw scopeRef h)))"

definition parse_session_selector :: "scope_lib \<Rightarrow> string \<Rightarrow> string \<Rightarrow> int \<Rightarrow> selector result" where
  "parse_session_selector lib raw v position =
     then_do (assert_non_empty_value v ''session'' position) (\<lambda>input.
     then_do (rethrow_at ''session'' position
        (then_do (normalize_session_ref lib (Some (JStr input))) (\<lambda>ref.
           then_do (split_session_ref lib ref) (\<lambda>(scope, lane). Inr (ref, scope, lane)))))
       (\<lambda>(ref, scope, lane). then_do (sl_scope_handle lib scope) (\<lambda>h.
          then_do (session_handle_for lib scope lane) (\<lambda>k. Inr (Session raw scope ref h k)))))"

definition parse_target_selector :: "scope_lib \<Rightarrow> string option \<Rightarrow> string \<Rightarrow> selector result" where
  "parse_target_selector lib defaultRole raw =
     then_do (rethrow_at ''target'' 0 (sl_parse_session lib raw)) (\<lambda>laneRef.
     then_do (rethrow_at ''target'' 0 (then_do (sl_qualify lib raw defaultRole) (\<lambda>scopeRef.
         format_canonical_session_ref lib scopeRef None (Some laneRef)))) (\<lambda>ref.
     then_do (split_session_ref lib ref) (\<lambda>(scope, lane).
       then_do (sl_scope_handle lib scope) (\<lambda>h.
         then_do (session_handle_for lib scope lane) (\<lambda>k. Inr (Target raw scope ref h k))))))"

definition parse_sequence :: "string \<Rightarrow> int" where
  "parse_sequence s = fold (\<lambda>c n. 10 * n + int (digit_value c)) s 0"

definition parse_prefixed_selector :: "scope_lib \<Rightarrow> string \<Rightarrow> string \<Rightarrow> string \<Rightarrow> selector result" where
  "parse_prefixed_selector lib raw prefix v =
     (let position = int (length prefix) + 1 in
      if prefix = ''scope'' then parse_scope_selector lib raw v position
      else if prefix = ''session'' then parse_session_selector lib raw v position
      else if prefix = ''host''
        then then_do (assert_non_empty_value v ''host'' position) (\<lambda>k. Inr (Host raw k))
      else if prefix = ''runtime''
        then then_do (assert_non_empty_value v ''runtime'' position) (\<lambda>k. Inr (Runtime raw k))
      else if prefix = ''msg''
        then then_do (assert_non_empty_value v ''message'' position) (\<lambda>k. Inr (Message raw k))
      else if prefix = ''seq''
        then then_do (assert_non_empty_value v ''message-seq'' position) (\<lambda>k.
          if \<not> list_all is_digit k
          then Inl (invalid_monitor_selector ''message-seq'' position ''message sequence must be an integer'')
          else if parse_sequence k > 9007199254740991
          then Inl (invalid_monitor_selector ''message-seq'' position ''message sequence is too large'')
          else Inr (Message_Seq raw (parse_sequence k)))
      else Inl (invalid_monitor_selector ''selector'' 0 (''unknown selector prefix \"'' @ prefix @ ''\"'')))"

definition parse_monitor_selector :: "scope_lib \<Rightarrow> string option \<Rightarrow> string \<Rightarrow> selector result" where
  "parse_monitor_selector lib defaultRole input =
     (let raw = js_trim input in
      if raw = [] then Inl (invalid_monitor_selector ''selector'' 0 ''selector must not be empty'')
      else (case index_of raw '':'' of
         Some c \<Rightarrow>
           if (case index_of raw ''@'' of None \<Rightarrow> True | Some a \<Rightarrow> c < a)
           then parse_prefixed_selector lib raw (take c raw) (drop (Suc c) raw)
           else parse_target_selector lib defaultRole raw
       | None \<Rightarrow> parse_target_selector lib defaultRole raw))"

fun format_selector :: "selector \<Rightarrow> string" where
  "format_selector (Stable ref) = ''session:'' @ ref"
| "format_selector (Concrete h) = ''host:'' @ h"
| "format_selector (Target raw scope ref sh k) = ''session:'' @ ref"
| "format_selector (Session raw scope ref sh k) = ''session:'' @ ref"
| "format_selector (Scope raw scope sh) = ''scope:'' @ scope"
| "format_selector (Host raw h) = ''host:'' @ h"
| "format_selector (Runtime raw t) = ''runtime:'' @ t"
| "format_selector (Message raw m) = ''msg:'' @ m"
| "format_selector (Message_Seq raw n) = ''seq:'' @ show_int n"

definition parse_selector :: "scope_lib \<Rightarrow> string option \<Rightarrow> json \<Rightarrow> selector result" where
  "parse_selector lib defaultRole input =
     (case input of
        JStr s \<Rightarrow> parse_monitor_selector lib defaultRole s
      | JNull \<Rightarrow> Inl (invalid_selector ''selector must be an object'' [(''inputType'', JStr ''null'')])
      | JNum n \<Rightarrow> Inl (invalid_selector ''selector must be an object'' [(''inputType'', JStr ''number'')])
      | JBool b \<Rightarrow> Inl (invalid_selector ''selector must be an object'' [(''inputType'', JStr ''boolean'')])
      | JArr xs \<Rightarrow> Inl (invalid_selector
          ''selector must include exactly one of sessionRef or hostSessionId'' [])
      | JObj ob \<Rightarrow>
          if (jget ob ''sessionRef'' = None) = (jget ob ''hostSessionId'' = None)
          then Inl (invalid_selector ''selector must include exactly one of sessionRef or hostSessionId'' [])
          else if jget ob ''sessionRef'' \<noteq> None
          then then_do (assert_non_empty_string (jget ob ''sessionRef'') ''sessionRef'') (\<lambda>s.
            then_do (normalize_session_ref lib (Some (JStr s))) (\<lambda>ref. Inr (Stable ref)))
          else then_do (assert_non_empty_string (jget ob ''hostSessionId'') ''hostSessionId'')
            (\<lambda>h. Inr (Concrete h)))"

text \<open>
  A scope owned by Codex.app: a \<open>:task:codex-<uuid>\<close> segment at the end of the scope reference or
  before a slash (the matcher \<open>CODEX_APP_TASK_RE\<close>).
\<close>

definition hex_run :: "nat \<Rightarrow> string \<Rightarrow> string option" where
  "hex_run n s = (if length s \<ge> n \<and> list_all is_hex_lower (take n s) then Some (drop n s) else None)"

definition skip_text :: "string \<Rightarrow> string \<Rightarrow> string option" where
  "skip_text p s = (if starts_with s p then Some (drop (length p) s) else None)"

definition codex_task_here :: "string \<Rightarrow> bool" where
  "codex_task_here s =
     (case Option.bind (skip_text '':task:codex-'' s) (\<lambda>s. Option.bind (hex_run 8 s) (\<lambda>s.
        Option.bind (skip_text ''-'' s) (\<lambda>s. Option.bind (hex_run 4 s) (\<lambda>s.
        Option.bind (skip_text ''-'' s) (\<lambda>s. Option.bind (hex_run 4 s) (\<lambda>s.
        Option.bind (skip_text ''-'' s) (\<lambda>s. Option.bind (hex_run 4 s) (\<lambda>s.
        Option.bind (skip_text ''-'' s) (hex_run 12))))))))) of
        None \<Rightarrow> False | Some rest \<Rightarrow> rest = [] \<or> starts_with rest ''/'')"

fun is_codex_app_owned :: "string \<Rightarrow> bool" where
  "is_codex_app_owned [] = False"
| "is_codex_app_owned (c # s) = (codex_task_here (c # s) \<or> is_codex_app_owned s)"

lemma canonical_scope_fixed:
  assumes "canonical_scope lib s = Inr c"
  shows "canonical_scope lib c = Inr c"
  using assms
  by (auto simp: canonical_scope_def format_canonical_scope_ref_def assert_non_empty_string_def validated_scope_def
      split: if_splits option.splits)

section \<open>Canonical references\<close>

lemma js_split_two:
  assumes "js_split sep s = [a, b]"
  shows "s = a @ sep # b \<and> sep \<notin> set a \<and> sep \<notin> set b"
proof -
  have "sep \<in> set s" using assms js_split_no_sep [of sep s] by auto
  then obtain a' t where t: "s = a' @ sep # t" "sep \<notin> set a'" using split_list_first by fast
  then have a: "a' = a" "js_split sep t = [b]" using assms js_split_append [of sep a' t] by auto
  have "sep \<notin> set t"
  proof
    assume "sep \<in> set t"
    then obtain u v where "t = u @ sep # v" "sep \<notin> set u" using split_list_first by fast
    then have "js_split sep t = u # js_split sep v" by (simp add: js_split_append)
    then show False using a(2) by (metis js_split_not_Nil list.inject)
  qed
  then show ?thesis using t a js_split_no_sep [of sep t] by simp
qed

lemma js_trim_ends: "js_trim s \<noteq> [] \<Longrightarrow> \<not> is_js_space (hd (js_trim s)) \<and> \<not> is_js_space (last (js_trim s))"
proof -
  assume ne: "js_trim s \<noteq> []"
  let ?a = "dropWhile is_js_space s"
  have b: "dropWhile is_js_space (rev ?a) \<noteq> []" using ne by (simp add: js_trim_def)
  have last: "\<not> is_js_space (last (js_trim s))"
    using hd_dropWhile_not [OF b] b by (simp add: js_trim_def last_rev)
  obtain ws where ws: "rev ?a = ws @ dropWhile is_js_space (rev ?a)" by (metis takeWhile_dropWhile_id)
  then have "?a = rev (dropWhile is_js_space (rev ?a)) @ rev ws" by (metis rev_append rev_rev_ident)
  then have hd: "hd (js_trim s) = hd ?a" using b by (metis hd_append2 js_trim_def rev_is_Nil_conv)
  have "?a \<noteq> []" using b by (metis dropWhile.simps(1) rev.simps(1))
  then show ?thesis using last hd hd_dropWhile_not [of is_js_space s] by simp
qed

lemma js_trim_fix_iff: "js_trim s = s \<longleftrightarrow> s = [] \<or> \<not> is_js_space (hd s) \<and> \<not> is_js_space (last s)"
  using js_trim_id js_trim_ends by metis

lemma set_js_trim: "set (js_trim s) \<subseteq> set s"
  unfolding js_trim_def by (auto dest!: set_dropWhileD)

definition canonical_ref :: "scope_lib \<Rightarrow> string \<Rightarrow> string \<Rightarrow> bool" where
  "canonical_ref lib scope lane = (CHR ''/'' \<notin> set scope \<and> CHR ''/'' \<notin> set lane \<and> scope \<noteq> [] \<and> lane \<noteq> []
     \<and> js_trim scope = scope \<and> \<not> is_js_space (last lane) \<and> sl_validate_scope lib scope = None)"

lemma split_session_ref_canonical:
  assumes "split_session_ref lib s = Inr (scope, lane)"
  shows "canonical_ref lib scope lane"
proof -
  obtain a b where ab: "js_split CHR ''/'' s = [a, b]" "scope = js_trim a" "lane = drop 5 (js_trim b)"
    "scope \<noteq> []" "lane \<noteq> []" "sl_validate_scope lib scope = None"
    using assms by (auto simp: split_session_ref_def Let_def split: list.splits if_splits option.splits)
  note two = js_split_two [OF ab(1)]
  have "js_trim b \<noteq> []" using ab(3,5) by auto
  then have "\<not> is_js_space (last (js_trim b))" using js_trim_ends by blast
  moreover have "last lane = last (js_trim b)" using ab(3,5) by (simp add: last_drop)
  moreover have "CHR ''/'' \<notin> set scope" "CHR ''/'' \<notin> set lane"
    using two ab set_js_trim set_drop_subset by fast+
  ultimately show ?thesis using ab by (simp add: canonical_ref_def)
qed

lemma canonical_split:
  assumes "canonical_ref lib scope lane"
  shows "split_session_ref lib (session_ref scope lane) = Inr (scope, lane)"
    and "normalize_session_ref lib (Some (JStr (session_ref scope lane))) = Inr (session_ref scope lane)"
    and "js_trim (session_ref scope lane) = session_ref scope lane"
proof -
  note c = assms [unfolded canonical_ref_def]
  have split: "js_split CHR ''/'' (session_ref scope lane) = [scope, ''lane:'' @ lane]"
    using c by (simp add: session_ref_def js_split_append js_split_no_sep)
  have lane: "js_trim (''lane:'' @ lane) = ''lane:'' @ lane"
    using c by (intro js_trim_id) (simp add: is_js_space_def)
  show one: "split_session_ref lib (session_ref scope lane) = Inr (scope, lane)"
    using c lane by (simp add: split_session_ref_def split Let_def)
  show trim: "js_trim (session_ref scope lane) = session_ref scope lane"
  proof (rule js_trim_id)
    have "\<not> is_js_space (hd scope)" "scope \<noteq> []" "lane \<noteq> []" "\<not> is_js_space (last lane)"
      using c js_trim_ends [of scope] by auto
    then show "session_ref scope lane = [] \<or> \<not> is_js_space (hd (session_ref scope lane))
        \<and> \<not> is_js_space (last (session_ref scope lane))" by (simp add: session_ref_def)
  qed
  show "normalize_session_ref lib (Some (JStr (session_ref scope lane))) = Inr (session_ref scope lane)"
    using one trim by (simp add: normalize_session_ref_def assert_non_empty_string_def session_ref_def)
qed

section \<open>Parsing what was formatted\<close>

text \<open>What a selector addresses: the kind its canonical text names, and the identity.\<close>

fun selector_address :: "selector \<Rightarrow> string \<times> string" where
  "selector_address (Stable ref) = (''session'', ref)"
| "selector_address (Concrete h) = (''host'', h)"
| "selector_address (Target raw scope ref sh k) = (''session'', ref)"
| "selector_address (Session raw scope ref sh k) = (''session'', ref)"
| "selector_address (Scope raw scope sh) = (''scope'', scope)"
| "selector_address (Host raw h) = (''host'', h)"
| "selector_address (Runtime raw t) = (''runtime'', t)"
| "selector_address (Message raw m) = (''msg'', m)"
| "selector_address (Message_Seq raw n) = (''seq'', show_int n)"

lemma format_selector_address:
  "format_selector s = fst (selector_address s) @ '':'' @ snd (selector_address s)"
  by (cases s) auto

text \<open>A prefixed text is parsed by its prefix.\<close>

lemma parse_prefixed_text:
  assumes "js_trim (p @ '':'' @ v) = p @ '':'' @ v" "CHR '':'' \<notin> set p" "CHR ''@'' \<notin> set p"
  shows "parse_selector lib role (JStr (p @ '':'' @ v)) = parse_prefixed_selector lib (p @ '':'' @ v) p v"
proof -
  have c: "index_of (p @ '':'' @ v) '':'' = Some (length p)"
  proof -
    have "takeWhile (\<lambda>d. d \<noteq> CHR '':'') (p @ '':'' @ v) = p"
      using assms(2) by (subst takeWhile_append2) auto
    then show ?thesis by (simp add: index_of_split)
  qed
  have "case index_of (p @ '':'' @ v) ''@'' of None \<Rightarrow> True | Some a \<Rightarrow> length p < a"
  proof (cases "CHR ''@'' \<in> set v")
    case True
    have "takeWhile (\<lambda>d. d \<noteq> CHR ''@'') (p @ '':'' @ v) = p @ '':'' @ takeWhile (\<lambda>d. d \<noteq> CHR ''@'') v"
      using assms(3) by (subst takeWhile_append2) auto
    then show ?thesis using True assms(3) by (simp add: index_of_split)
  next
    case False
    then show ?thesis using assms(3) by (simp add: index_of_split)
  qed
  then show ?thesis
    unfolding parse_selector_def json.case parse_monitor_selector_def assms(1) Let_def c by simp
qed

text \<open>
  What the code relies on of the scope library: a valid scope reference can be shown, alone and with
  a lane, and a valid lane reference has no white space around it.
\<close>

definition scope_lib_ok :: "scope_lib \<Rightarrow> bool" where
  "scope_lib_ok lib = ((\<forall>s. sl_validate_scope lib s = None \<longrightarrow>
       (\<exists>h. sl_scope_handle lib s = Inr h) \<and> (\<forall>l. \<exists>k. sl_session_handle lib s l = Inr k))
     \<and> (\<forall>l. sl_validate_lane lib l = None \<longrightarrow> js_trim l = l))"

lemma parse_session_text:
  assumes "scope_lib_ok lib" "canonical_ref lib scope lane"
  shows "\<exists>h k. parse_selector lib role (JStr (''session:'' @ session_ref scope lane)) =
    Inr (Session (''session:'' @ session_ref scope lane) scope (session_ref scope lane) h k)"
proof -
  let ?ref = "session_ref scope lane"
  note c = canonical_split [OF assms(2)]
  have ne: "?ref \<noteq> []" "\<not> is_js_space (last ?ref)"
    using assms(2) by (simp_all add: session_ref_def canonical_ref_def)
  have t: "js_trim (''session'' @ '':'' @ ?ref) = ''session'' @ '':'' @ ?ref"
    using ne by (intro js_trim_id) (simp add: is_js_space_def)
  obtain h where h: "sl_scope_handle lib scope = Inr h"
    using assms unfolding scope_lib_ok_def canonical_ref_def by metis
  obtain k where k: "session_handle_for lib scope lane = Inr k"
    using assms unfolding scope_lib_ok_def canonical_ref_def session_handle_for_def by metis
  have "parse_session_selector lib raw ?ref n = Inr (Session raw scope ?ref h k)" for raw n
    using c h k ne by (simp add: parse_session_selector_def assert_non_empty_value_def rethrow_at_def)
  then show ?thesis
    using parse_prefixed_text [OF t, of lib role] by (simp add: parse_prefixed_selector_def Let_def)
qed

lemma assert_non_empty_stringD:
  assumes "assert_non_empty_string v field = Inr t"
  shows "t \<noteq> [] \<and> js_trim t = t"
  using assms by (auto simp: assert_non_empty_string_def split: option.splits if_splits)

lemma normalize_session_ref_canonical:
  assumes "normalize_session_ref lib v = Inr ref"
  shows "\<exists>scope lane. ref = session_ref scope lane \<and> canonical_ref lib scope lane"
  using assms split_session_ref_canonical
  by (auto simp: normalize_session_ref_def then_do_Inr_iff) blast

lemma normalize_lane_id_trim:
  assumes "scope_lib_ok lib" "normalize_lane_id lib l = Inr lane"
  shows "js_trim (''lane:'' @ lane) = ''lane:'' @ lane"
proof (cases "lane = ''main''")
  case True
  then show ?thesis by (simp add: js_trim_def is_js_space_def)
next
  case False
  then obtain k where l: "l = Some k" "k \<noteq> ''main''"
    using assms(2) by (cases l; cases "the l = ''main''") (auto simp: normalize_lane_id_def)
  define r where "r = (if starts_with k ''lane:'' then k else ''lane:'' @ k)"
  have "(case sl_validate_lane lib r of Some e \<Rightarrow> Inl (invalid_selector e []) | None \<Rightarrow> Inr (drop 5 r)) = Inr lane"
    using assms(2) l(2) unfolding normalize_lane_id_def l(1) option.case Let_def r_def by (simp only: if_False)
  then have r: "sl_validate_lane lib r = None" "lane = drop 5 r" by (simp_all split: option.splits)
  have "starts_with r ''lane:''" by (simp only: r_def starts_with_append split: if_split) simp
  then have "''lane:'' @ lane = r" using r(2) drop_prefix [of r "''lane:''"] by (simp add: eval_nat_numeral)
  moreover have "js_trim r = r" using assms(1) r(1) unfolding scope_lib_ok_def by metis
  ultimately show ?thesis by (simp only:)
qed

lemma target_ref_canonical:
  assumes lib: "scope_lib_ok lib"
    and f: "format_canonical_session_ref lib s None (Some l) = Inr ref"
    and sp: "split_session_ref lib ref = Inr (scope, lane)"
  shows "ref = session_ref scope lane \<and> canonical_ref lib scope lane"
proof -
  obtain scope1 lane1 where x: "assert_non_empty_string (Some (JStr s)) ''scopeRef'' = Inr scope1"
    "normalize_lane_id lib (Some l) = Inr lane1" "ref = session_ref scope1 lane1"
    using f by (auto simp: format_canonical_session_ref_def format_canonical_scope_ref_def
        validated_scope_def then_do_Inr_iff split: option.splits)
  note one = x(3) assert_non_empty_stringD [OF x(1)] and lane1 = normalize_lane_id_trim [OF lib x(2)]
  obtain a b where ab: "js_split CHR ''/'' ref = [a, b]" "scope = js_trim a" "lane = drop 5 (js_trim b)"
    using sp by (auto simp: split_session_ref_def Let_def split: list.splits if_splits option.splits)
  note two = js_split_two [OF ab(1)]
  have eq: "a @ CHR ''/'' # b = scope1 @ CHR ''/'' # (''lane:'' @ lane1)"
    using two one(1) by (simp add: session_ref_def)
  have "CHR ''/'' \<notin> set scope1 \<and> a = scope1"
  proof -
    have "CHR ''/'' \<notin> set scope1"
    proof
      assume "CHR ''/'' \<in> set scope1"
      then have "length (filter (\<lambda>c. c = CHR ''/'') (scope1 @ CHR ''/'' # (''lane:'' @ lane1))) \<ge> 2"
        by (auto simp: filter_empty_conv Suc_le_eq simp flip: length_greater_0_conv) 
      moreover have "length (filter (\<lambda>c. c = CHR ''/'') (a @ CHR ''/'' # b)) = 1"
        using two by (auto simp: filter_empty_conv)
      ultimately show False using eq by simp
    qed
    then show ?thesis using eq two append_Cons_eq_iff [of "CHR ''/''" a b scope1 "''lane:'' @ lane1"] by auto
  qed
  then have "a = scope1" "b = ''lane:'' @ lane1" using eq by auto
  then show ?thesis
    using one ab lane1 split_session_ref_canonical [OF sp] by simp
qed

text \<open>The shape of a parsed selector: what its identity is and how its text is written.\<close>

fun well_parsed :: "scope_lib \<Rightarrow> selector \<Rightarrow> bool" where
  "well_parsed lib (Stable ref) = (\<exists>scope lane. ref = session_ref scope lane \<and> canonical_ref lib scope lane)"
| "well_parsed lib (Session raw scope ref h k) = (\<exists>lane. ref = session_ref scope lane \<and> canonical_ref lib scope lane)"
| "well_parsed lib (Target raw scope ref h k) = (\<exists>lane. ref = session_ref scope lane \<and> canonical_ref lib scope lane)"
| "well_parsed lib (Concrete h) = (h \<noteq> [] \<and> js_trim h = h)"
| "well_parsed lib (Scope raw scope sh) = (raw = ''scope:'' @ scope \<and> js_trim raw = raw \<and> scope \<noteq> []
     \<and> sl_validate_scope lib scope = None)"
| "well_parsed lib (Host raw h) = (raw = ''host:'' @ h \<and> js_trim raw = raw \<and> h \<noteq> [])"
| "well_parsed lib (Runtime raw t) = (raw = ''runtime:'' @ t \<and> js_trim raw = raw \<and> t \<noteq> [])"
| "well_parsed lib (Message raw m) = (raw = ''msg:'' @ m \<and> js_trim raw = raw \<and> m \<noteq> [])"
| "well_parsed lib (Message_Seq raw n) = (0 \<le> n \<and> n \<le> 9007199254740991)"

lemma parse_sequence_nonneg: "0 \<le> parse_sequence s"
proof -
  have "0 \<le> a \<Longrightarrow> 0 \<le> fold (\<lambda>c n. 10 * n + int (digit_value c)) s a" for a
    by (induction s arbitrary: a) auto
  then show ?thesis by (simp add: parse_sequence_def)
qed

lemma parse_sequence_value: "parse_sequence s = int (decimal_value 0 s)"
proof -
  have "fold (\<lambda>c n. 10 * n + int (digit_value c)) s (int a) = int (decimal_value a s)" for a
  proof (induction s arbitrary: a)
    case (Cons c s)
    show ?case using Cons.IH [of "10 * a + digit_value c"] by simp
  qed simp
  from this [of 0] show ?thesis by (simp add: parse_sequence_def)
qed

lemma session_parts:
  assumes "normalize_session_ref lib v = Inr ref" "split_session_ref lib ref = Inr (scope, lane)"
  shows "\<exists>lane. ref = session_ref scope lane \<and> canonical_ref lib scope lane"
  using normalize_session_ref_canonical [OF assms(1)] canonical_split(1) assms(2) by fastforce

lemma prefixed_well_parsed:
  assumes "parse_prefixed_selector lib (p @ '':'' @ v) p v = Inr s" "js_trim (p @ '':'' @ v) = p @ '':'' @ v"
  shows "well_parsed lib s"
  using assms session_parts [of lib "Some (JStr v)"] parse_sequence_nonneg [of v]
  unfolding parse_prefixed_selector_def Let_def
  by (auto simp: parse_scope_selector_def parse_session_selector_def assert_non_empty_value_def
      then_do_Inr_iff rethrow_at_def split: if_splits option.splits sum.splits)

lemma index_of_at:
  assumes "index_of s [x] = Some c"
  shows "s = take c s @ [x] @ drop (Suc c) s"
proof -
  have "x \<in> set s" using assms by (simp add: index_of_split split: if_splits)
  then obtain a b where s: "s = a @ x # b" "x \<notin> set a" using split_list_first by fast
  have "takeWhile (\<lambda>d. d \<noteq> x) s = a" unfolding s(1) using s(2) by (subst takeWhile_append2) auto
  then have "c = length a" using assms by (simp add: index_of_split split: if_splits)
  then show ?thesis using s by simp
qed

lemma digit_not_space: "is_digit c \<Longrightarrow> \<not> is_js_space c"
  by (auto simp: is_digit_def is_js_space_def)

lemma parse_well_parsed:
  assumes "scope_lib_ok lib" "parse_selector lib role input = Inr s"
  shows "well_parsed lib s"
proof -
  have target: "well_parsed lib s" if "parse_target_selector lib role raw = Inr s" for raw
    using that
    by (auto simp: parse_target_selector_def then_do_Inr_iff rethrow_at_def split: sum.splits)
      (use target_ref_canonical [OF assms(1)] in blast)
  show ?thesis
  proof (cases input)
    case (JStr t)
    let ?raw = "js_trim t"
    have parse: "parse_monitor_selector lib role t = Inr s" using assms(2) JStr by (simp add: parse_selector_def)
    show ?thesis
    proof (cases "parse_target_selector lib role ?raw = Inr s")
      case False
      then obtain c where c: "index_of ?raw '':'' = Some c"
        "parse_prefixed_selector lib ?raw (take c ?raw) (drop (Suc c) ?raw) = Inr s"
        using parse by (auto simp: parse_monitor_selector_def Let_def split: if_splits option.splits)
      note raw = index_of_at [OF c(1)]
      then have "js_trim (take c ?raw @ '':'' @ drop (Suc c) ?raw) = take c ?raw @ '':'' @ drop (Suc c) ?raw"
        using js_trim_idem [of t] by (simp only: raw [symmetric])
      moreover have "parse_prefixed_selector lib (take c ?raw @ '':'' @ drop (Suc c) ?raw) (take c ?raw)
          (drop (Suc c) ?raw) = Inr s" using c(2) by (simp only: raw [symmetric])
      ultimately show ?thesis by (intro prefixed_well_parsed)
    qed (rule target)
  next
    case (JObj ob)
    then show ?thesis
      using assms(2) normalize_session_ref_canonical assert_non_empty_stringD
      by (auto simp: parse_selector_def then_do_Inr_iff split: if_splits)
  qed (use assms(2) in \<open>simp_all add: parse_selector_def\<close>)
qed

lemma reparse_sequence:
  assumes "0 \<le> n" "n \<le> 9007199254740991"
  shows "parse_selector lib role (JStr (''seq:'' @ show_int n)) = Inr (Message_Seq (''seq:'' @ show_int n) n)"
proof -
  have n: "show_int n = show_nat (nat n)" using assms by (simp add: show_int_def)
  have digits: "list_all is_digit (show_nat (nat n))" using show_nat_digits by (simp add: list_all_iff)
  have "is_digit (last (show_nat (nat n)))"
    using show_nat_digits [of "nat n"] last_in_set [of "show_nat (nat n)"] by simp
  then have "\<not> is_js_space (last (show_nat (nat n)))" by (rule digit_not_space)
  then have t: "js_trim (''seq'' @ '':'' @ show_nat (nat n)) = ''seq'' @ '':'' @ show_nat (nat n)"
    by (intro js_trim_id) (simp add: is_js_space_def)
  show ?thesis
    using parse_prefixed_text [OF t, of lib role] assms n digits
    by (simp add: parse_prefixed_selector_def assert_non_empty_value_def parse_sequence_value
        decimal_value_show_nat)
qed

lemma reparse_scope:
  assumes "scope_lib_ok lib" "well_parsed lib (Scope raw scope sh)"
  shows "\<exists>h. parse_selector lib role (JStr (''scope:'' @ scope)) = Inr (Scope (''scope:'' @ scope) scope h)"
proof -
  obtain h where "sl_scope_handle lib scope = Inr h"
    using assms unfolding scope_lib_ok_def by fastforce
  then show ?thesis
    using assms(2) parse_prefixed_text [of "''scope''" scope lib role]
    by (auto simp: parse_prefixed_selector_def parse_scope_selector_def assert_non_empty_value_def)
qed

text \<open>The kinds whose identity is any text.\<close>

lemma reparse_opaque:
  assumes "js_trim (p @ '':'' @ k) = p @ '':'' @ k" "k \<noteq> []"
  shows "p = ''host'' \<Longrightarrow> parse_selector lib role (JStr (''host:'' @ k)) = Inr (Host (''host:'' @ k) k)"
    and "p = ''runtime'' \<Longrightarrow> parse_selector lib role (JStr (''runtime:'' @ k)) = Inr (Runtime (''runtime:'' @ k) k)"
    and "p = ''msg'' \<Longrightarrow> parse_selector lib role (JStr (''msg:'' @ k)) = Inr (Message (''msg:'' @ k) k)"
  using parse_prefixed_text [OF assms(1), of lib role] assms(2)
  by (simp_all add: parse_prefixed_selector_def assert_non_empty_value_def)

text \<open>
  A selector can be written down and read back. The canonical text of every selector that was
  parsed, from a text or an object, parses again, with any default role, to a selector of the same
  address whose canonical text is the same.
\<close>

theorem format_selector_round_trip:
  assumes "scope_lib_ok lib" "parse_selector lib role input = Inr s"
  shows "\<exists>s'. parse_selector lib role' (JStr (format_selector s)) = Inr s'
    \<and> selector_address s' = selector_address s \<and> format_selector s' = format_selector s"
proof -
  note w = parse_well_parsed [OF assms]
  have session: "\<exists>s'. parse_selector lib role' (JStr (''session:'' @ ref)) = Inr s'
      \<and> selector_address s' = (''session'', ref)"
    if "ref = session_ref scope lane" "canonical_ref lib scope lane" for ref scope lane
    using parse_session_text [OF assms(1) that(2), of role'] that(1) by auto
  have "\<exists>s'. parse_selector lib role' (JStr (format_selector s)) = Inr s' \<and> selector_address s' = selector_address s"
  proof (cases s)
    case (Concrete h)
    have "js_trim (''host'' @ '':'' @ h) = ''host'' @ '':'' @ h"
      using w Concrete js_trim_ends [of h] by (intro js_trim_id) (simp add: is_js_space_def)
    then show ?thesis using reparse_opaque(1) w Concrete by simp
  next
    case (Scope raw scope sh)
    then show ?thesis using reparse_scope [OF assms(1), of raw scope sh role'] w by auto
  qed (use w session reparse_opaque reparse_sequence in auto)
  then show ?thesis unfolding format_selector_address by metis
qed

definition example_scope_lib :: scope_lib where
  "example_scope_lib = \<lparr>sl_validate_scope = (\<lambda>s. if starts_with s ''agent:'' then None else Some ''bad scope''),
     sl_validate_lane = (\<lambda>l. if js_trim l = l then None else Some ''bad lane''),
     sl_scope_handle = (\<lambda>s. Inr s), sl_session_handle = (\<lambda>s l. Inr (s @ ''~'' @ l)),
     sl_parse_session = (\<lambda>s. Inr ''main''), sl_qualify = (\<lambda>s r. Inr (''agent:'' @ s)),
     sl_build_scope = (\<lambda>a p t r. ''agent:'' @ a)\<rparr>"

theorem format_selector_round_trip_witness:
  "map (\<lambda>t. map_sum id format_selector (parse_selector example_scope_lib None (JStr t)))
      ['' session: agent:cody/lane:x '', ''cody'', ''seq:007'']
     = [Inr ''session:agent:cody/lane:x'', Inr ''session:agent:cody/lane:main'', Inr ''seq:7'']
   \<and> (\<exists>s'. parse_selector example_scope_lib None (JStr ''session:agent:cody/lane:main'') = Inr s'
        \<and> format_selector s' = ''session:agent:cody/lane:main'')"
proof
  show "map (\<lambda>t. map_sum id format_selector (parse_selector example_scope_lib None (JStr t)))
      ['' session: agent:cody/lane:x '', ''cody'', ''seq:007'']
     = [Inr ''session:agent:cody/lane:x'', Inr ''session:agent:cody/lane:main'', Inr ''seq:7'']"
    by code_simp
  have lib: "scope_lib_ok example_scope_lib"
    by (auto simp: scope_lib_ok_def example_scope_lib_def split: if_splits)
  have p: "parse_selector example_scope_lib None (JStr ''cody'') = Inr (Target ''cody'' ''agent:cody''
      ''agent:cody/lane:main'' ''agent:cody'' ''agent:cody~main'')" by code_simp
  from format_selector_round_trip [OF lib p, of None]
  show "\<exists>s'. parse_selector example_scope_lib None (JStr ''session:agent:cody/lane:main'') = Inr s'
        \<and> format_selector s' = ''session:agent:cody/lane:main''" by auto
qed

end
