(* ===== verification/Monitor_Reader.thy ===== *)
theory Monitor_Reader
  imports Selectors "HOL-Library.Multiset"
begin

text \<open>
  The monitor's reader (hrc-core/src/monitor/index.ts): the session and runtime a selector resolves
  to, the role tree below a target or a scope, the snapshot, the events a watch replays, and the
  cursor a wait captures before it watches. Functions of the package agent-scope and the collation
  order of the host are the fields of \<open>monitor_env\<close>; an error answered as a value is the left side of
  a \<open>resolution_result\<close>, an exception the left side of a \<open>result\<close>.
\<close>

section \<open>State\<close>

record session_identity =
  id_kind :: string
  id_agent :: string
  id_project :: "string option"
  id_task :: "string option"
  id_role :: "string option"

record mon_session =
  ms_identity :: "session_identity option"
  ms_session_ref :: string
  ms_scope :: string
  ms_lane :: string
  ms_host :: string
  ms_generation :: int
  ms_runtime :: "string option"
  ms_status :: string
  ms_turn :: "string option"

record mon_runtime =
  mr_identity :: "session_identity option"
  mr_runtime :: string
  mr_host :: string
  mr_scope :: "string option"
  mr_lane :: "string option"
  mr_status :: string
  mr_changed_at :: "string option"
  mr_transport :: string
  mr_turn :: "string option"

record mon_message =
  mm_id :: string
  mm_seq :: int
  mm_reply_to :: "string option"
  mm_root :: "string option"
  mm_session_ref :: "string option"
  mm_host :: "string option"
  mm_runtime :: "string option"
  mm_run :: "string option"

text \<open>An event: its sequence number, its identity, and its other properties.\<close>

record mon_event =
  me_seq :: int
  me_identity :: "session_identity option"
  me_fields :: json_object

record mon_state =
  st_daemon :: "json_object option"
  st_socket :: "json_object option"
  st_tmux :: "json_object option"
  st_sessions :: "mon_session list"
  st_runtimes :: "mon_runtime list"
  st_messages :: "mon_message list option"
  st_events :: "mon_event list"
  st_high_water :: "int option"
  st_session_count :: "int option"
  st_runtime_count :: "int option"

record monitor_env =
  env_lib :: scope_lib
  env_role_name :: "string \<Rightarrow> string option result"
  env_collate :: "string \<Rightarrow> string \<Rightarrow> int"

datatype match_kind = Exact | Role_Child

record resolved_parts =
  pa_session :: mon_session
  pa_runtime :: mon_runtime

record resolved_selector =
  rs_kind :: string
  rs_canonical :: string

record resolution =
  re_selector :: resolved_selector
  re_session_ref :: string
  re_scope :: string
  re_lane :: string
  re_host :: string
  re_generation :: int
  re_runtime :: string
  re_turn :: "string option"
  re_high_water :: int

type_synonym resolution_result = "js_error + resolution"

record role_tree_parts =
  rt_kind :: match_kind
  rt_role :: "string option"
  rt_parts :: resolved_parts

record matched_runtime =
  mt_kind :: match_kind
  mt_role :: "string option"
  mt_scope_handle :: string
  mt_session_handle :: string
  mt_scope :: string
  mt_session_ref :: string
  mt_host :: string
  mt_runtime :: string
  mt_status :: string
  mt_generation :: int
  mt_lane :: string
  mt_turn :: "string option"

record mon_snapshot =
  sn_selector :: "resolved_selector option"
  sn_high_water :: int
  sn_daemon :: "json_object option"
  sn_socket :: "json_object option"
  sn_tmux :: "json_object option"
  sn_sessions :: int
  sn_runtimes :: int
  sn_parts :: "resolved_parts option"
  sn_resolution :: "resolution_result option"
  sn_matches :: "matched_runtime list option"

record watch_request =
  wr_selector :: "selector option"
  wr_follow :: bool
  wr_from_seq :: "int option"
  wr_replay_tail :: "int option"
  wr_correlated :: bool

text \<open>What a watch yields: the opening snapshot, or an event of the log marked as replayed.\<close>

datatype watch_item = Snapshot_Item mon_snapshot | Replayed_Item mon_event

section \<open>Identities, lanes and session references\<close>

text \<open>A text that JavaScript counts as true.\<close>

fun truthy :: "string option \<Rightarrow> bool" where
  "truthy None = False"
| "truthy (Some s) = (s \<noteq> [])"

definition part_of_handle :: "string \<Rightarrow> string option \<Rightarrow> string" where
  "part_of_handle mark v = (if truthy v then mark @ the v else [])"

definition format_session_identity_handle :: "session_identity \<Rightarrow> string" where
  "format_session_identity_handle i = id_agent i @ part_of_handle ''@'' (id_project i)
     @ part_of_handle '':'' (id_task i) @ part_of_handle ''/'' (id_role i)"

definition lane_id :: "string \<Rightarrow> string" where
  "lane_id laneRef = (let l = (if starts_with laneRef ''lane:'' then drop 5 laneRef else laneRef) in
     if l = ''default'' then ''main'' else l)"

definition session_refs_equal :: "scope_lib \<Rightarrow> string \<Rightarrow> string \<Rightarrow> bool" where
  "session_refs_equal lib a b =
     (case split_session_ref lib a of Inl _ \<Rightarrow> a = b
      | Inr (scope, lane) \<Rightarrow> (case split_session_ref lib b of Inl _ \<Rightarrow> a = b
         | Inr (scope', lane') \<Rightarrow> scope = scope' \<and> lane_id lane = lane_id lane'))"

definition is_immediate_role_child :: "string \<Rightarrow> string \<Rightarrow> session_identity option \<Rightarrow> bool" where
  "is_immediate_role_child base candidate i =
     (case Option.bind i id_role of None \<Rightarrow> False | Some r \<Rightarrow> candidate = base @ '':role:'' @ r)"

definition safe_role_name :: "monitor_env \<Rightarrow> string \<Rightarrow> string option" where
  "safe_role_name env scopeRef = (case env_role_name env scopeRef of Inl _ \<Rightarrow> None | Inr r \<Rightarrow> r)"

fun selector_kind :: "selector \<Rightarrow> string" where
  "selector_kind (Stable ref) = ''stable''"
| "selector_kind (Concrete h) = ''concrete''"
| "selector_kind (Target raw scope ref sh k) = ''target''"
| "selector_kind (Scope raw scope sh) = ''scope''"
| "selector_kind (Session raw scope ref sh k) = ''session''"
| "selector_kind (Host raw h) = ''host''"
| "selector_kind (Runtime raw t) = ''runtime''"
| "selector_kind (Message raw m) = ''message''"
| "selector_kind (Message_Seq raw n) = ''message-seq''"

definition selector_view :: "selector \<Rightarrow> resolved_selector" where
  "selector_view s = \<lparr>rs_kind = selector_kind s, rs_canonical = format_selector s\<rparr>"

fun is_role_tree_aware :: "monitor_env \<Rightarrow> selector \<Rightarrow> bool" where
  "is_role_tree_aware env (Target raw scope ref sh k) = (safe_role_name env scope = None)"
| "is_role_tree_aware env (Scope raw scope sh) = (safe_role_name env scope = None)"
| "is_role_tree_aware env _ = False"

fun monitor_session_match_kind :: "scope_lib \<Rightarrow> mon_session \<Rightarrow> selector \<Rightarrow> match_kind option result" where
  "monitor_session_match_kind lib s (Target raw scope ref sh k) =
     (if session_refs_equal lib (ms_session_ref s) ref then Inr (Some Exact)
      else if \<not> is_immediate_role_child scope (ms_scope s) (ms_identity s) then Inr None
      else then_do (split_session_ref lib ref) (\<lambda>(_, lane).
        Inr (if lane_id (ms_lane s) = lane_id lane then Some Role_Child else None)))"
| "monitor_session_match_kind lib s (Scope raw scope sh) =
     Inr (if ms_scope s = scope then Some Exact
          else if is_immediate_role_child scope (ms_scope s) (ms_identity s) then Some Role_Child
          else None)"
| "monitor_session_match_kind lib s _ = Inr None"

section \<open>Resolution\<close>

text \<open>The later of two sessions: an active one before an inactive one, then the higher generation.\<close>

definition later_session :: "mon_session \<Rightarrow> mon_session \<Rightarrow> mon_session" where
  "later_session latest candidate =
     (let la = (ms_status latest = ''active''); ca = (ms_status candidate = ''active'') in
      if la \<noteq> ca then (if ca then candidate else latest)
      else if ms_generation candidate \<ge> ms_generation latest then candidate else latest)"

definition select_latest_session :: "mon_session list \<Rightarrow> mon_session option" where
  "select_latest_session ss = fold (\<lambda>candidate latest. case latest of
     None \<Rightarrow> Some candidate | Some l \<Rightarrow> Some (later_session l candidate)) ss None"

definition latest_session_by_session_ref :: "mon_state \<Rightarrow> string \<Rightarrow> mon_session option" where
  "latest_session_by_session_ref st ref =
     select_latest_session (filter (\<lambda>s. ms_session_ref s = ref) (st_sessions st))"

fun last_opt :: "'a list \<Rightarrow> 'a option" where
  "last_opt [] = None"
| "last_opt (x # xs) = Some (last (x # xs))"

definition resolve_runtime_for :: "mon_state \<Rightarrow> string \<Rightarrow> string option \<Rightarrow> mon_runtime option" where
  "resolve_runtime_for st host preferred =
     orelse (if truthy preferred
             then List.find (\<lambda>r. mr_runtime r = the preferred) (st_runtimes st) else None)
       (last_opt (filter (\<lambda>r. mr_host r = host) (st_runtimes st)))"

definition parts_from_session :: "mon_state \<Rightarrow> mon_session option \<Rightarrow> resolved_parts option" where
  "parts_from_session st s = Option.bind s (\<lambda>s.
     map_option (\<lambda>r. \<lparr>pa_session = s, pa_runtime = r\<rparr>)
       (resolve_runtime_for st (ms_host s) (ms_runtime s)))"

definition session_of_host :: "mon_state \<Rightarrow> string \<Rightarrow> mon_session option" where
  "session_of_host st host = List.find (\<lambda>s. ms_host s = host) (st_sessions st)"

definition parts_from_runtime :: "mon_state \<Rightarrow> mon_runtime \<Rightarrow> resolved_parts option" where
  "parts_from_runtime st r =
     map_option (\<lambda>s. \<lparr>pa_session = s, pa_runtime = r\<rparr>) (session_of_host st (mr_host r))"

definition parts_from_message :: "mon_state \<Rightarrow> mon_message \<Rightarrow> resolved_parts option" where
  "parts_from_message st m =
     Option.bind (orelse (if truthy (mm_host m) then session_of_host st (the (mm_host m)) else None)
                  (if truthy (mm_session_ref m)
                   then latest_session_by_session_ref st (the (mm_session_ref m)) else None))
       (\<lambda>s. map_option (\<lambda>r. \<lparr>pa_session = s, pa_runtime = r\<rparr>)
          (resolve_runtime_for st (ms_host s) (mm_runtime m)))"

text \<open>
  The insertion-ordered map of the role tree: a session whose continuity is known replaces the held
  one when it is the later of the two, at the held one's position.
\<close>

definition continuity_key :: "mon_session \<Rightarrow> string" where
  "continuity_key s = ms_scope s @ ''/lane:'' @ lane_id (ms_lane s)"

type_synonym latest_map = "(string \<times> match_kind \<times> mon_session) list"

definition note_session :: "scope_lib \<Rightarrow> selector \<Rightarrow> mon_session \<Rightarrow> latest_map \<Rightarrow> latest_map result" where
  "note_session lib sel s m = then_do (monitor_session_match_kind lib s sel) (\<lambda>k.
     case k of None \<Rightarrow> Inr m
     | Some k \<Rightarrow> Inr (case map_of m (continuity_key s) of
          None \<Rightarrow> map_set (continuity_key s) (k, s) m
        | Some (_, previous) \<Rightarrow>
            if later_session previous s = s then map_set (continuity_key s) (k, s) m else m))"

fun note_sessions :: "scope_lib \<Rightarrow> selector \<Rightarrow> mon_session list \<Rightarrow> latest_map \<Rightarrow> latest_map result" where
  "note_sessions lib sel [] m = Inr m"
| "note_sessions lib sel (s # ss) m = then_do (note_session lib sel s m) (note_sessions lib sel ss)"

definition compare_role_tree_parts ::
  "(string \<Rightarrow> string \<Rightarrow> int) \<Rightarrow> role_tree_parts \<Rightarrow> role_tree_parts \<Rightarrow> int" where
  "compare_role_tree_parts collate a b =
     (let sa = pa_session (rt_parts a); sb = pa_session (rt_parts b);
          aa = (ms_status sa = ''active''); ab = (ms_status sb = ''active'');
          generation = ms_generation sb - ms_generation sa;
          label = collate (or_default (rt_role a) (ms_scope sa)) (or_default (rt_role b) (ms_scope sb)) in
      if rt_kind a \<noteq> rt_kind b then (if rt_kind a = Exact then - 1 else 1)
      else if aa \<noteq> ab then (if aa then - 1 else 1)
      else if generation \<noteq> 0 then generation
      else if label \<noteq> 0 then label
      else collate (mr_runtime (pa_runtime (rt_parts a))) (mr_runtime (pa_runtime (rt_parts b))))"

text \<open>\<open>Array.prototype.sort\<close>: stable, by a comparison function.\<close>

fun insert_by :: "('a \<Rightarrow> 'a \<Rightarrow> int) \<Rightarrow> 'a \<Rightarrow> 'a list \<Rightarrow> 'a list" where
  "insert_by cmp x [] = [x]"
| "insert_by cmp x (y # ys) = (if cmp x y \<le> 0 then x # y # ys else y # insert_by cmp x ys)"

definition sort_by :: "('a \<Rightarrow> 'a \<Rightarrow> int) \<Rightarrow> 'a list \<Rightarrow> 'a list" where
  "sort_by cmp xs = foldr (insert_by cmp) xs []"

definition tree_candidate :: "mon_state \<Rightarrow> match_kind \<times> mon_session \<Rightarrow> role_tree_parts option" where
  "tree_candidate st = (\<lambda>(k, s). map_option
     (\<lambda>p. \<lparr>rt_kind = k, rt_role = Option.bind (ms_identity s) id_role, rt_parts = p\<rparr>)
     (parts_from_session st (Some s)))"

definition role_tree_of :: "monitor_env \<Rightarrow> mon_state \<Rightarrow> selector \<Rightarrow> role_tree_parts list result" where
  "role_tree_of env st sel = then_do (note_sessions (env_lib env) sel (st_sessions st) []) (\<lambda>m.
     Inr (sort_by (compare_role_tree_parts (env_collate env))
       (List.map_filter (tree_candidate st) (map snd m))))"

fun head_opt :: "'a list \<Rightarrow> 'a option" where
  "head_opt [] = None"
| "head_opt (x # xs) = Some x"

fun resolve_parts :: "monitor_env \<Rightarrow> mon_state \<Rightarrow> selector \<Rightarrow> resolved_parts option result" where
  "resolve_parts env st (Stable ref) = Inr (parts_from_session st (latest_session_by_session_ref st ref))"
| "resolve_parts env st (Session raw scope ref sh k) =
     Inr (parts_from_session st (latest_session_by_session_ref st ref))"
| "resolve_parts env st (Target raw scope ref sh k) =
     then_do (role_tree_of env st (Target raw scope ref sh k)) (\<lambda>ms. Inr (map_option rt_parts (head_opt ms)))"
| "resolve_parts env st (Scope raw scope sh) =
     then_do (role_tree_of env st (Scope raw scope sh)) (\<lambda>ms. Inr (map_option rt_parts (head_opt ms)))"
| "resolve_parts env st (Concrete h) = Inr (parts_from_session st (session_of_host st h))"
| "resolve_parts env st (Host raw h) = Inr (parts_from_session st (session_of_host st h))"
| "resolve_parts env st (Runtime raw t) = Inr (Option.bind
     (List.find (\<lambda>r. mr_runtime r = t) (st_runtimes st)) (parts_from_runtime st))"
| "resolve_parts env st (Message raw m) = Inr (Option.bind
     (List.find (\<lambda>x. mm_id x = m) (or_default (st_messages st) [])) (parts_from_message st))"
| "resolve_parts env st (Message_Seq raw n) = Inr (Option.bind
     (List.find (\<lambda>x. mm_seq x = n) (or_default (st_messages st) [])) (parts_from_message st))"

definition high_water_seq :: "mon_event list \<Rightarrow> int" where
  "high_water_seq es = fold max (map me_seq es) 0"

definition resolve_high_water :: "mon_state \<Rightarrow> int" where
  "resolve_high_water st = or_default (st_high_water st) (high_water_seq (st_events st))"

definition resolution_from_parts :: "mon_state \<Rightarrow> selector \<Rightarrow> resolved_parts \<Rightarrow> resolution" where
  "resolution_from_parts st sel p =
     (let s = pa_session p; r = pa_runtime p in
      \<lparr>re_selector = selector_view sel, re_session_ref = ms_session_ref s, re_scope = ms_scope s,
       re_lane = ms_lane s, re_host = ms_host s, re_generation = ms_generation s,
       re_runtime = mr_runtime r, re_turn = orelse (ms_turn s) (mr_turn r),
       re_high_water = resolve_high_water st\<rparr>)"

text \<open>The code, the label, the field and the identity of an unknown selector.\<close>

fun not_found_detail :: "selector \<Rightarrow> string \<times> string \<times> string \<times> json" where
  "not_found_detail (Runtime raw t) = (''unknown_runtime'', ''runtime'', ''runtimeId'', JStr t)"
| "not_found_detail (Host raw h) = (''unknown_host_session'', ''host session'', ''hostSessionId'', JStr h)"
| "not_found_detail (Concrete h) = (''unknown_host_session'', ''host session'', ''hostSessionId'', JStr h)"
| "not_found_detail (Message raw m) = (''unknown_session'', ''message'', ''messageId'', JStr m)"
| "not_found_detail (Message_Seq raw n) = (''unknown_session'', ''message sequence'', ''messageSeq'', JNum n)"
| "not_found_detail (Scope raw scope sh) = (''unknown_session'', ''scope'', ''scopeRef'', JStr scope)"
| "not_found_detail (Stable ref) = (''unknown_session'', ''session'', ''sessionRef'', JStr ref)"
| "not_found_detail (Target raw scope ref sh k) = (''unknown_session'', ''session'', ''sessionRef'', JStr ref)"
| "not_found_detail (Session raw scope ref sh k) = (''unknown_session'', ''session'', ''sessionRef'', JStr ref)"

fun show_id :: "json \<Rightarrow> string" where
  "show_id (JStr s) = s"
| "show_id (JNum n) = show_int n"
| "show_id _ = []"

definition selector_not_found :: "selector \<Rightarrow> js_error" where
  "selector_not_found sel = (case not_found_detail sel of (code, label, field, i) \<Rightarrow>
     domain_error code (''unknown '' @ label @ '' \"'' @ show_id i @ ''\"'')
       [(''selectorKind'', JStr (selector_kind sel)), (field, i)])"

definition resolve_selector :: "monitor_env \<Rightarrow> mon_state \<Rightarrow> selector \<Rightarrow> resolution_result result" where
  "resolve_selector env st sel = then_do (resolve_parts env st sel) (\<lambda>p. Inr (case p of
     None \<Rightarrow> Inl (selector_not_found sel) | Some p \<Rightarrow> Inr (resolution_from_parts st sel p)))"

definition to_matched_runtime :: "role_tree_parts \<Rightarrow> matched_runtime" where
  "to_matched_runtime c =
     (let s = pa_session (rt_parts c); r = pa_runtime (rt_parts c); l = lane_id (ms_lane s) in
      \<lparr>mt_kind = rt_kind c, mt_role = rt_role c,
       mt_scope_handle = (case ms_identity s of None \<Rightarrow> ms_scope s
          | Some i \<Rightarrow> format_session_identity_handle i),
       mt_session_handle = (case ms_identity s of None \<Rightarrow> ms_session_ref s
          | Some i \<Rightarrow> format_session_identity_handle i @ (if l = ''main'' then [] else ''~'' @ l)),
       mt_scope = ms_scope s, mt_session_ref = ms_session_ref s, mt_host = ms_host s,
       mt_runtime = mr_runtime r, mt_status = mr_status r, mt_generation = ms_generation s,
       mt_lane = l, mt_turn = orelse (ms_turn s) (mr_turn r)\<rparr>)"

definition alternative_of :: "role_tree_parts \<Rightarrow> json" where
  "alternative_of c = (let m = to_matched_runtime c in JObj
     [(''roleHandle'', JStr (mt_session_handle m)),
      (''sessionSelector'', JStr (''session:'' @ mt_session_ref m)),
      (''runtimeSelector'', JStr (''runtime:'' @ mt_runtime m)),
      (''scopeRef'', JStr (mt_scope m)), (''sessionRef'', JStr (mt_session_ref m)),
      (''runtimeId'', JStr (mt_runtime m))])"

definition ambiguous_role_tree_selector :: "selector \<Rightarrow> role_tree_parts list \<Rightarrow> js_error" where
  "ambiguous_role_tree_selector sel ms = domain_error ''invalid_selector''
     (''ambiguous monitor selector \"'' @ format_selector sel @ ''\": matched '' @ show_nat (length ms)
       @ '' runtimes; use an exact slash-role handle, session:<sessionRef>, or runtime:<runtimeId>'')
     [(''selectorKind'', JStr (selector_kind sel)), (''selector'', JStr (format_selector sel)),
      (''alternatives'', JArr (map alternative_of ms))]"

definition resolve_capture_selector :: "monitor_env \<Rightarrow> mon_state \<Rightarrow> selector \<Rightarrow> resolution_result result" where
  "resolve_capture_selector env st sel =
     (if \<not> is_role_tree_aware env sel then resolve_selector env st sel
      else then_do (role_tree_of env st sel) (\<lambda>ms. Inr (case ms of
         [] \<Rightarrow> Inl (selector_not_found sel)
       | [m] \<Rightarrow> Inr (resolution_from_parts st sel (rt_parts m))
       | _ \<Rightarrow> Inl (ambiguous_role_tree_selector sel ms))))"

text \<open>
  The capture adds the stream cursor. The proxy that guards the cursor makes writes to it silent
  no-ops; a value of the model is never written.
\<close>

record capture = resolution +
  ca_cursor :: int

definition capture_start :: "monitor_env \<Rightarrow> mon_state \<Rightarrow> selector \<Rightarrow> (js_error + capture) result" where
  "capture_start env st sel = then_do (resolve_capture_selector env st sel) (\<lambda>r. Inr (case r of
     Inl e \<Rightarrow> Inl e
   | Inr c \<Rightarrow> Inr (resolution.extend c \<lparr>ca_cursor = max 1 (re_high_water c)\<rparr>)))"

definition snapshot_state :: "monitor_env \<Rightarrow> mon_state \<Rightarrow> selector option \<Rightarrow> mon_snapshot result" where
  "snapshot_state env st sel =
     then_do (case sel of None \<Rightarrow> Inr None
        | Some s \<Rightarrow> then_do (resolve_parts env st s) (\<lambda>p. Inr (Some (s, p)))) (\<lambda>resolved.
     then_do (case sel of
          Some (Target raw scope ref sh k) \<Rightarrow>
            then_do (role_tree_of env st (Target raw scope ref sh k)) (\<lambda>ms. Inr (Some (map to_matched_runtime ms)))
        | Some (Scope raw scope sh) \<Rightarrow>
            then_do (role_tree_of env st (Scope raw scope sh)) (\<lambda>ms. Inr (Some (map to_matched_runtime ms)))
        | _ \<Rightarrow> Inr None) (\<lambda>matches.
     Inr \<lparr>sn_selector = map_option selector_view sel, sn_high_water = resolve_high_water st,
          sn_daemon = st_daemon st, sn_socket = st_socket st, sn_tmux = st_tmux st,
          sn_sessions = or_default (st_session_count st) (int (length (st_sessions st))),
          sn_runtimes = or_default (st_runtime_count st) (int (length (st_runtimes st))),
          sn_parts = Option.bind resolved snd,
          sn_resolution = map_option (\<lambda>(s, p). case p of None \<Rightarrow> Inl (selector_not_found s)
             | Some p \<Rightarrow> Inr (resolution_from_parts st s p)) resolved,
          sn_matches = matches\<rparr>))"

section \<open>Watching events\<close>

record message_projection =
  mp_message :: "string option"
  mp_reply_to :: "string option"
  mp_root :: "string option"
  mp_seq :: "int option"

fun selector_matches_message_response :: "selector \<Rightarrow> message_projection \<Rightarrow> bool" where
  "selector_matches_message_response (Message raw m) p =
     (mp_message p = Some m \<or> mp_reply_to p = Some m \<or> mp_root p = Some m)"
| "selector_matches_message_response (Message_Seq raw n) p = (mp_seq p = Some n)"
| "selector_matches_message_response _ p = False"

definition project_message :: "json_object \<Rightarrow> message_projection" where
  "project_message ob = \<lparr>mp_message = jstring ob ''messageId'',
     mp_reply_to = jstring ob ''replyToMessageId'',
     mp_root = jstring ob ''rootMessageId'', mp_seq = jnumber ob ''messageSeq''\<rparr>"

definition is_correlated_message_response :: "mon_event \<Rightarrow> selector \<Rightarrow> bool" where
  "is_correlated_message_response ev sel = (jstring (me_fields ev) ''event'' = Some ''message.response''
     \<and> selector_matches_message_response sel (project_message (me_fields ev)))"

text \<open>Two absent identities compare as equal, as \<open>===\<close> does on \<open>undefined\<close>.\<close>

definition message_event_matches :: "mon_state \<Rightarrow> mon_event \<Rightarrow> string \<Rightarrow> bool" where
  "message_event_matches st ev messageId =
     (case List.find (\<lambda>x. mm_id x = messageId) (or_default (st_messages st) []) of
        None \<Rightarrow> False
      | Some m \<Rightarrow> let f = jstring (me_fields ev) in
          if f ''replyToMessageId'' \<noteq> None then f ''replyToMessageId'' = Some (mm_id m)
          else if f ''rootMessageId'' \<noteq> None
          then f ''rootMessageId'' = mm_root m \<or> f ''rootMessageId'' = Some (mm_id m)
          else if f ''messageId'' \<noteq> None then f ''messageId'' = Some (mm_id m)
          else if jnumber (me_fields ev) ''messageSeq'' \<noteq> None
          then jnumber (me_fields ev) ''messageSeq'' = Some (mm_seq m)
          else f ''runtimeId'' = mm_runtime m \<or> f ''turnId'' = mm_run m)"

definition message_seq_event_matches :: "mon_state \<Rightarrow> mon_event \<Rightarrow> int \<Rightarrow> bool" where
  "message_seq_event_matches st ev n =
     (case List.find (\<lambda>x. mm_seq x = n) (or_default (st_messages st) []) of
        None \<Rightarrow> False | Some m \<Rightarrow> message_event_matches st ev (mm_id m))"

text \<open>The lane of a role child's event: its own, or that of its session reference.\<close>

definition event_lane :: "scope_lib \<Rightarrow> json_object \<Rightarrow> string option result" where
  "event_lane lib ob = (case jstring ob ''laneRef'' of
     Some l \<Rightarrow> Inr (Some l)
   | None \<Rightarrow> if truthy (jstring ob ''sessionRef'')
       then then_do (split_session_ref lib (the (jstring ob ''sessionRef''))) (\<lambda>(_, l). Inr (Some l))
       else Inr None)"

fun monitor_event_matches_selector :: "scope_lib \<Rightarrow> mon_state \<Rightarrow> mon_event \<Rightarrow> selector \<Rightarrow> bool result" where
  "monitor_event_matches_selector lib st ev (Stable ref) = Inr (jstring (me_fields ev) ''sessionRef'' = Some ref)"
| "monitor_event_matches_selector lib st ev (Session raw scope ref sh k) =
     Inr (jstring (me_fields ev) ''sessionRef'' = Some ref)"
| "monitor_event_matches_selector lib st ev (Target raw scope ref sh k) =
     (let sr = jstring (me_fields ev) ''sessionRef''; sc = jstring (me_fields ev) ''scopeRef'' in
      if truthy sr \<and> session_refs_equal lib (the sr) ref then Inr True
      else if \<not> truthy sc \<or> \<not> is_immediate_role_child scope (the sc) (me_identity ev) then Inr False
      else then_do (split_session_ref lib ref) (\<lambda>(_, lane).
        then_do (event_lane lib (me_fields ev)) (\<lambda>el. Inr (case el of
          None \<Rightarrow> False | Some l \<Rightarrow> lane_id l = lane_id lane))))"
| "monitor_event_matches_selector lib st ev (Scope raw scope sh) =
     Inr (case jstring (me_fields ev) ''scopeRef'' of None \<Rightarrow> False
        | Some sc \<Rightarrow> sc = scope \<or> is_immediate_role_child scope sc (me_identity ev))"
| "monitor_event_matches_selector lib st ev (Concrete h) = Inr (jstring (me_fields ev) ''hostSessionId'' = Some h)"
| "monitor_event_matches_selector lib st ev (Host raw h) = Inr (jstring (me_fields ev) ''hostSessionId'' = Some h)"
| "monitor_event_matches_selector lib st ev (Runtime raw t) = Inr (jstring (me_fields ev) ''runtimeId'' = Some t)"
| "monitor_event_matches_selector lib st ev (Message raw m) =
     Inr (jstring (me_fields ev) ''messageId'' = Some m \<or> message_event_matches st ev m)"
| "monitor_event_matches_selector lib st ev (Message_Seq raw n) =
     Inr (jnumber (me_fields ev) ''messageSeq'' = Some n \<or> message_seq_event_matches st ev n)"

fun filter_result :: "('a \<Rightarrow> bool result) \<Rightarrow> 'a list \<Rightarrow> 'a list result" where
  "filter_result p [] = Inr []"
| "filter_result p (x # xs) = then_do (p x) (\<lambda>b. then_do (filter_result p xs) (\<lambda>ys.
     Inr (if b then x # ys else ys)))"

definition matching_events :: "scope_lib \<Rightarrow> mon_state \<Rightarrow> selector option \<Rightarrow> mon_event list result" where
  "matching_events lib st sel = filter_result (\<lambda>ev. case sel of None \<Rightarrow> Inr True
     | Some s \<Rightarrow> monitor_event_matches_selector lib st ev s) (st_events st)"

text \<open>\<open>xs.slice(-n)\<close>.\<close>

definition slice_tail :: "int \<Rightarrow> 'a list \<Rightarrow> 'a list" where
  "slice_tail n xs = (if n > 0 then drop (length xs - nat n) xs else drop (nat (- n)) xs)"

definition replayed :: "watch_request \<Rightarrow> mon_event list \<Rightarrow> mon_event list" where
  "replayed req es = (case wr_from_seq req of
     Some n \<Rightarrow> filter (\<lambda>ev. me_seq ev \<ge> n \<or> (wr_correlated req \<and> (case wr_selector req of
         None \<Rightarrow> False | Some s \<Rightarrow> is_correlated_message_response ev s))) es
   | None \<Rightarrow> if wr_follow req then [] else slice_tail (or_default (wr_replay_tail req) 100) es)"

text \<open>The items the generator yields, and the error it throws after them, if any.\<close>

definition watch_events :: "monitor_env \<Rightarrow> mon_state \<Rightarrow> watch_request \<Rightarrow> watch_item list \<times> js_error option" where
  "watch_events env st req =
     (let rest = (case matching_events (env_lib env) st (wr_selector req) of
            Inl e \<Rightarrow> ([], Some e)
          | Inr es \<Rightarrow> (map Replayed_Item (replayed req es), None)) in
      if wr_follow req
      then (case snapshot_state env st (wr_selector req) of
          Inl e \<Rightarrow> ([], Some e)
        | Inr sn \<Rightarrow> (Snapshot_Item sn # fst rest, snd rest))
      else rest)"

text \<open>
  The properties of a yielded item that its consumers read by name. The \<open>snapshot\<close> and \<open>identity\<close>
  properties are the item's own data, not JSON.
\<close>

fun item_fields :: "watch_item \<Rightarrow> json_object" where
  "item_fields (Snapshot_Item sn) = [(''seq'', JNum (sn_high_water sn)), (''event'', JStr ''monitor.snapshot''),
     (''replayed'', JBool False)]"
| "item_fields (Replayed_Item ev) = (''seq'', JNum (me_seq ev))
     # filter (\<lambda>(k, _). k \<noteq> ''replayed'') (me_fields ev) @ [(''replayed'', JBool True)]"

section \<open>The current session of a continuity\<close>

definition session_rank :: "mon_session \<Rightarrow> int \<times> int" where
  "session_rank s = (if ms_status s = ''active'' then 1 else 0, ms_generation s)"

lemma later_session_rank:
  "later_session l c = (if session_rank l \<le> session_rank c then c else l)"
  by (auto simp: later_session_def session_rank_def Let_def less_eq_prod_def)

text \<open>
  What the map of the role tree holds after the sessions of \<open>seen\<close>: for each continuity that some
  of them matches, one entry, at the highest rank seen.
\<close>

definition current_map :: "scope_lib \<Rightarrow> selector \<Rightarrow> mon_session set \<Rightarrow> latest_map \<Rightarrow> bool" where
  "current_map lib sel seen m = (distinct (map fst m)
     \<and> (\<forall>key k s. (key, k, s) \<in> set m \<longrightarrow> key = continuity_key s \<and> s \<in> seen
          \<and> monitor_session_match_kind lib s sel = Inr (Some k))
     \<and> (\<forall>s k. s \<in> seen \<longrightarrow> monitor_session_match_kind lib s sel = Inr (Some k) \<longrightarrow>
          (\<exists>k' s'. (continuity_key s, k', s') \<in> set m \<and> session_rank s \<le> session_rank s')))"

lemma current_map_put:
  assumes cur: "current_map lib sel seen m" and k: "monitor_session_match_kind lib s sel = Inr (Some k)"
    and over: "\<And>a b. (continuity_key s, a, b) \<in> set m \<Longrightarrow> session_rank b \<le> session_rank s"
  shows "current_map lib sel (insert s seen) (map_set (continuity_key s) (k, s) m)"
proof -
  let ?m = "map_set (continuity_key s) (k, s) m"
  have dist: "distinct (map fst m)" using cur by (simp add: current_map_def)
  note put = set_map_set_distinct [OF dist, of "continuity_key s" "(k, s)"]
  have "\<exists>k' s'. (continuity_key t, k', s') \<in> set ?m \<and> session_rank t \<le> session_rank s'"
    if t: "t \<in> insert s seen" "monitor_session_match_kind lib t sel = Inr (Some kt)" for t kt
  proof (cases "continuity_key t = continuity_key s")
    case True
    have "session_rank t \<le> session_rank s"
    proof (cases "t = s")
      case False
      then obtain a b where "(continuity_key s, a, b) \<in> set m" "session_rank t \<le> session_rank b"
        using cur t True unfolding current_map_def by (metis insertE)
      then show ?thesis using over order_trans by blast
    qed simp
    then show ?thesis unfolding put True by blast
  next
    case False
    then show ?thesis using cur t unfolding put current_map_def by (metis (mono_tags, lifting)
      UnCI fst_conv insertE insert_iff mem_Collect_eq)
  qed
  moreover have "distinct (map fst ?m)" using dist by (auto simp: map_set_keys)
  moreover have "key = continuity_key t \<and> t \<in> insert s seen \<and> monitor_session_match_kind lib t sel = Inr (Some kt)"
    if "(key, kt, t) \<in> set ?m" for key kt t
    using that cur k unfolding put current_map_def by auto
  ultimately show ?thesis unfolding current_map_def by blast
qed

lemma current_map_skip:
  assumes "current_map lib sel seen m"
    and "\<And>k. monitor_session_match_kind lib s sel = Inr (Some k) \<Longrightarrow>
      \<exists>k' s'. (continuity_key s, k', s') \<in> set m \<and> session_rank s \<le> session_rank s'"
  shows "current_map lib sel (insert s seen) m"
  using assms unfolding current_map_def by blast

lemma note_session_current:
  assumes cur: "current_map lib sel seen m" and m': "note_session lib sel s m = Inr m'"
  shows "current_map lib sel (insert s seen) m'"
proof -
  obtain ko where ko: "monitor_session_match_kind lib s sel = Inr ko"
    using m' by (auto simp: note_session_def then_do_Inr_iff)
  show ?thesis
  proof (cases ko)
    case None
    then show ?thesis using m' ko cur by (auto simp: note_session_def intro: current_map_skip)
  next
    case (Some k)
    have dist: "distinct (map fst m)" using cur by (simp add: current_map_def)
    show ?thesis
    proof (cases "map_of m (continuity_key s)")
      case None
      then have "continuity_key s \<notin> fst ` set m" by (simp add: map_of_eq_None_iff)
      then have "current_map lib sel (insert s seen) (map_set (continuity_key s) (k, s) m)"
        using ko Some by (intro current_map_put [OF cur]) (auto simp: image_iff)
      then show ?thesis using m' ko Some None by (simp add: note_session_def)
    next
      case held: (Some e)
      then obtain k0 p where e: "(continuity_key s, k0, p) \<in> set m" "e = (k0, p)"
        by (cases e) (auto dest: map_of_SomeD)
      have only: "b = p" if "(continuity_key s, a, b) \<in> set m" for a b
        using eq_key_imp_eq_value [OF dist e(1) that] by simp
      show ?thesis
      proof (cases "later_session p s = s")
        case True
        then have "session_rank p \<le> session_rank s" by (auto simp: later_session_rank split: if_splits)
        then have "current_map lib sel (insert s seen) (map_set (continuity_key s) (k, s) m)"
          using current_map_put [OF cur] ko Some only by metis
        then show ?thesis using m' ko Some held e True by (simp add: note_session_def)
      next
        case False
        then have "session_rank s \<le> session_rank p" by (auto simp: later_session_rank split: if_splits)
        then have "current_map lib sel (insert s seen) m" using current_map_skip [OF cur] e(1) by blast
        then show ?thesis using m' ko Some held e False by (simp add: note_session_def)
      qed
    qed
  qed
qed

lemma note_sessions_current:
  "current_map lib sel seen m \<Longrightarrow> note_sessions lib sel ss m = Inr m' \<Longrightarrow>
     current_map lib sel (seen \<union> set ss) m'"
proof (induction ss arbitrary: seen m)
  case (Cons s ss)
  then obtain m1 where "note_session lib sel s m = Inr m1" "note_sessions lib sel ss m1 = Inr m'"
    by (auto simp: then_do_Inr_iff)
  then show ?case using Cons note_session_current [OF Cons.prems(1)] by fastforce
qed simp

section \<open>The order of the role tree\<close>

text \<open>
  A sort orders by a key whenever the comparison function decides by that key first, whatever it
  does on equal keys.
\<close>

lemma set_insert_by [simp]: "set (insert_by cmp x xs) = insert x (set xs)"
  by (induction xs) auto

lemma mset_insert_by: "mset (insert_by cmp x xs) = add_mset x (mset xs)"
  by (induction xs) auto

lemma mset_sort_by: "mset (sort_by cmp xs) = mset xs"
  unfolding sort_by_def by (induction xs) (simp_all add: mset_insert_by)

lemma mset_map_sort_by: "mset (map h (sort_by cmp xs)) = mset (map h xs)"
  by (simp add: mset_sort_by)

lemma sorted_insert_by:
  fixes key :: "'a \<Rightarrow> 'k::linorder"
  assumes "\<And>a b. key a < key b \<Longrightarrow> cmp a b \<le> 0" "\<And>a b. key b < key a \<Longrightarrow> 0 < cmp a b"
    and "sorted (map key xs)"
  shows "sorted (map key (insert_by cmp x xs))"
  using assms(3)
proof (induction xs)
  case (Cons y ys)
  show ?case
  proof (cases "cmp x y \<le> 0")
    case True
    then have "key x \<le> key y" using assms(2) [of y x] by (meson leD leI)
    then show ?thesis using True Cons.prems by auto
  next
    case False
    then have "key y \<le> key x" using assms(1) [of x y] by (meson leI)
    then show ?thesis using False Cons by auto
  qed
qed simp

lemma sorted_sort_by:
  fixes key :: "'a \<Rightarrow> 'k::linorder"
  assumes "\<And>a b. key a < key b \<Longrightarrow> cmp a b \<le> 0" "\<And>a b. key b < key a \<Longrightarrow> 0 < cmp a b"
  shows "sorted (map key (sort_by cmp xs))"
  unfolding sort_by_def using assms by (induction xs) (simp_all add: sorted_insert_by)

text \<open>Exact matches first, then active sessions, then the higher generation.\<close>

definition tree_order :: "role_tree_parts \<Rightarrow> int \<times> int \<times> int" where
  "tree_order c = (if rt_kind c = Exact then 0 else 1,
     - fst (session_rank (pa_session (rt_parts c))), - ms_generation (pa_session (rt_parts c)))"

lemma match_kind_cases: "k \<noteq> Exact \<longleftrightarrow> k = Role_Child"
  by (cases k) auto

lemma compare_by_tree_order:
  "tree_order a < tree_order b \<Longrightarrow> compare_role_tree_parts collate a b \<le> 0"
  "tree_order b < tree_order a \<Longrightarrow> 0 < compare_role_tree_parts collate a b"
  by (auto simp: compare_role_tree_parts_def tree_order_def session_rank_def Let_def
      match_kind_cases split: if_splits)

lemma tree_candidate_fields:
  assumes "tree_candidate st (k, s) = Some c"
  shows "rt_kind c = k" "pa_session (rt_parts c) = s"
    "resolve_runtime_for st (ms_host s) (ms_runtime s) = Some (pa_runtime (rt_parts c))"
  using assms by (auto simp: tree_candidate_def parts_from_session_def)

lemma set_map_filter: "set (List.map_filter f xs) = {y. \<exists>x \<in> set xs. f x = Some y}"
  by (induction xs) (auto simp: List.map_filter_simps split: option.splits)

lemma distinct_map_filter:
  assumes "distinct (map h xs)" "\<And>x y. f x = Some y \<Longrightarrow> g y = h x"
  shows "distinct (map g (List.map_filter f xs))"
  using assms(1)
proof (induction xs)
  case (Cons x xs)
  have "h x \<notin> g ` set (List.map_filter f xs)"
    using Cons.prems assms(2) by (auto simp: set_map_filter)
  then show ?case using Cons assms(2) by (auto simp: List.map_filter_simps split: option.splits)
qed (simp add: List.map_filter_simps)

lemma role_tree_entries:
  assumes "role_tree_of env st sel = Inr ms"
  obtains m where "current_map (env_lib env) sel (set (st_sessions st)) m"
    "set ms = {c. \<exists>kv \<in> set m. tree_candidate st (snd kv) = Some c}"
    "distinct (map (\<lambda>c. continuity_key (pa_session (rt_parts c))) ms)"
    "sorted (map tree_order ms)"
proof -
  have "current_map (env_lib env) sel {} []" by (simp add: current_map_def)
  then obtain m where m: "current_map (env_lib env) sel (set (st_sessions st)) m"
    and ms: "ms = sort_by (compare_role_tree_parts (env_collate env))
      (List.map_filter (tree_candidate st) (map snd m))"
    using assms note_sessions_current by (fastforce simp: role_tree_of_def then_do_Inr_iff)
  have set_ms: "set ms = {c. \<exists>kv \<in> set m. tree_candidate st (snd kv) = Some c}"
    unfolding ms set_mset_mset [symmetric] mset_sort_by by (simp add: set_map_filter)
  have "map (continuity_key \<circ> snd) (map snd m) = map fst m" "distinct (map fst m)"
    using m by (auto simp: current_map_def)
  then have keys: "distinct (map (continuity_key \<circ> snd) (map snd m))" by metis
  have "distinct (map (\<lambda>c. continuity_key (pa_session (rt_parts c)))
      (List.map_filter (tree_candidate st) (map snd m)))"
    using keys by (rule distinct_map_filter) (auto dest: tree_candidate_fields)
  then have "distinct (map (\<lambda>c. continuity_key (pa_session (rt_parts c))) ms)"
    unfolding ms by (subst mset_eq_imp_distinct_iff [OF mset_map_sort_by])
  moreover have "sorted (map tree_order ms)"
    unfolding ms by (rule sorted_sort_by) (rule compare_by_tree_order, assumption)+
  ultimately show ?thesis using that m set_ms by blast
qed

text \<open>An entry of the role tree is the entry of the map for its session.\<close>

lemma role_tree_entry:
  assumes "current_map lib sel seen m" "set ms = {c. \<exists>kv \<in> set m. tree_candidate st (snd kv) = Some c}"
    and "c \<in> set ms"
  shows "(continuity_key (pa_session (rt_parts c)), rt_kind c, pa_session (rt_parts c)) \<in> set m"
    "resolve_runtime_for st (ms_host (pa_session (rt_parts c))) (ms_runtime (pa_session (rt_parts c)))
      = Some (pa_runtime (rt_parts c))"
proof -
  obtain key k s where e: "(key, k, s) \<in> set m" "tree_candidate st (k, s) = Some c"
    using assms(2,3) by auto
  then have "key = continuity_key s" using assms(1) by (simp add: current_map_def)
  then show "(continuity_key (pa_session (rt_parts c)), rt_kind c, pa_session (rt_parts c)) \<in> set m"
    "resolve_runtime_for st (ms_host (pa_session (rt_parts c))) (ms_runtime (pa_session (rt_parts c)))
      = Some (pa_runtime (rt_parts c))"
    using e tree_candidate_fields [OF e(2)] by auto
qed

text \<open>
  The role tree of a target or a scope shows the current session of each continuity. Its entries
  have distinct continuities; each is a matching session of the highest rank (active before
  inactive, then generation) of its continuity, with the runtime that session resolves to; the
  entries are ordered exact matches first, then active sessions, then higher generations; and of
  every matching session the current one of its continuity is listed unless it has no runtime.
\<close>

theorem role_tree_is_current:
  assumes tree: "role_tree_of env st sel = Inr ms"
  shows "distinct (map (\<lambda>c. continuity_key (pa_session (rt_parts c))) ms) \<and> sorted (map tree_order ms)
    \<and> (\<forall>c \<in> set ms. pa_session (rt_parts c) \<in> set (st_sessions st)
        \<and> monitor_session_match_kind (env_lib env) (pa_session (rt_parts c)) sel = Inr (Some (rt_kind c))
        \<and> resolve_runtime_for st (ms_host (pa_session (rt_parts c))) (ms_runtime (pa_session (rt_parts c)))
          = Some (pa_runtime (rt_parts c))
        \<and> (\<forall>t \<in> set (st_sessions st). \<forall>k.
            monitor_session_match_kind (env_lib env) t sel = Inr (Some k)
            \<and> continuity_key t = continuity_key (pa_session (rt_parts c))
            \<longrightarrow> session_rank t \<le> session_rank (pa_session (rt_parts c))))
    \<and> (\<forall>t \<in> set (st_sessions st). \<forall>k. monitor_session_match_kind (env_lib env) t sel = Inr (Some k) \<longrightarrow>
        (\<exists>s. continuity_key s = continuity_key t \<and> session_rank t \<le> session_rank s
          \<and> (resolve_runtime_for st (ms_host s) (ms_runtime s) = None
             \<or> s \<in> (\<lambda>c. pa_session (rt_parts c)) ` set ms)))"
proof -
  let ?s = "\<lambda>c. pa_session (rt_parts c)"
  obtain m where m: "current_map (env_lib env) sel (set (st_sessions st)) m"
    and set_ms: "set ms = {c. \<exists>kv \<in> set m. tree_candidate st (snd kv) = Some c}"
    and dist_ms: "distinct (map (\<lambda>c. continuity_key (?s c)) ms)" and order: "sorted (map tree_order ms)"
    using tree by (rule role_tree_entries)
  note cur = m [unfolded current_map_def]
  have dist: "distinct (map fst m)" using cur by blast
  note entry = role_tree_entry [OF m set_ms]
  have "session_rank t \<le> session_rank (?s c)"
    if c: "c \<in> set ms" and t: "t \<in> set (st_sessions st)" "continuity_key t = continuity_key (?s c)"
      "monitor_session_match_kind (env_lib env) t sel = Inr (Some k)" for c t k
  proof -
    obtain k' s' where s': "(continuity_key t, k', s') \<in> set m" "session_rank t \<le> session_rank s'"
      using cur t by blast
    have "s' = ?s c" using eq_key_imp_eq_value [OF dist s'(1)] entry(1) [OF c] t(2) by fastforce
    then show ?thesis using s' by simp
  qed
  moreover have "\<exists>s. continuity_key s = continuity_key t \<and> session_rank t \<le> session_rank s
      \<and> (resolve_runtime_for st (ms_host s) (ms_runtime s) = None \<or> s \<in> ?s ` set ms)"
    if t: "t \<in> set (st_sessions st)" "monitor_session_match_kind (env_lib env) t sel = Inr (Some k)" for t k
  proof -
    obtain k' s where s: "(continuity_key t, k', s) \<in> set m" "session_rank t \<le> session_rank s"
      using cur t by blast
    have "s \<in> ?s ` set ms" if "resolve_runtime_for st (ms_host s) (ms_runtime s) \<noteq> None"
    proof -
      have "tree_candidate st (k', s) \<noteq> None"
        using that by (auto simp: tree_candidate_def parts_from_session_def)
      then obtain c where c: "tree_candidate st (k', s) = Some c" by blast
      then have "c \<in> set ms" using s(1) unfolding set_ms mem_Collect_eq by (metis snd_conv)
      then show ?thesis using tree_candidate_fields(2) [OF c] by blast
    qed
    then show ?thesis using s cur by metis
  qed
  ultimately show ?thesis using entry cur dist_ms order by blast
qed

definition example_session :: "string \<Rightarrow> string \<Rightarrow> int \<Rightarrow> string \<Rightarrow> mon_session" where
  "example_session role status generation host =
     \<lparr>ms_identity = Some \<lparr>id_kind = ''agent'', id_agent = ''cody'', id_project = None, id_task = None,
        id_role = (if role = [] then None else Some role)\<rparr>,
      ms_session_ref = ''agent:cody'' @ (if role = [] then [] else '':role:'' @ role) @ ''/lane:main'',
      ms_scope = ''agent:cody'' @ (if role = [] then [] else '':role:'' @ role), ms_lane = ''main'',
      ms_host = host, ms_generation = generation, ms_runtime = None, ms_status = status,
      ms_turn = None\<rparr>"

definition example_runtime :: "string \<Rightarrow> mon_runtime" where
  "example_runtime host = \<lparr>mr_identity = None, mr_runtime = ''rt-'' @ host, mr_host = host,
     mr_scope = None, mr_lane = None, mr_status = ''ready'', mr_changed_at = None,
     mr_transport = ''tmux'', mr_turn = None\<rparr>"

definition example_state :: mon_state where
  "example_state = \<lparr>st_daemon = None, st_socket = None, st_tmux = None,
     st_sessions = [example_session ''qa'' ''active'' 3 ''h3'', example_session [] ''archived'' 4 ''h2'',
       example_session [] ''active'' 1 ''h1'', example_session ''qa'' ''active'' 2 ''h4'',
       example_session ''ops'' ''active'' 9 ''h5''],
     st_runtimes = map example_runtime [''h1'', ''h2'', ''h3'', ''h4''],
     st_messages = None, st_events = [], st_high_water = None, st_session_count = None,
     st_runtime_count = None\<rparr>"

definition example_env :: monitor_env where
  "example_env = \<lparr>env_lib = example_scope_lib, env_role_name = (\<lambda>s. Inr None),
     env_collate = (\<lambda>a b. if a = b then 0 else if a < b then - 1 else 1)\<rparr>"

theorem role_tree_is_current_witness:
  "map_sum id (map (\<lambda>c. (rt_kind c, ms_host (pa_session (rt_parts c)))))
      (role_tree_of example_env example_state (Scope ''scope:agent:cody'' ''agent:cody'' ''cody''))
    = Inr [(Exact, ''h1''), (Role_Child, ''h3'')]
   \<and> (\<exists>ms. role_tree_of example_env example_state (Scope ''scope:agent:cody'' ''agent:cody'' ''cody'') = Inr ms
        \<and> sorted (map tree_order ms))"
proof
  let ?tree = "role_tree_of example_env example_state (Scope ''scope:agent:cody'' ''agent:cody'' ''cody'')"
  show a: "map_sum id (map (\<lambda>c. (rt_kind c, ms_host (pa_session (rt_parts c))))) ?tree
      = Inr [(Exact, ''h1''), (Role_Child, ''h3'')]"
    by code_simp
  then obtain ms where "?tree = Inr ms" by (cases ?tree) auto
  with role_tree_is_current [OF this] show "\<exists>ms. ?tree = Inr ms \<and> sorted (map tree_order ms)" by blast
qed

section \<open>No gap between capture and watch\<close>

lemma filter_result_append:
  "filter_result p (xs @ ys) = then_do (filter_result p xs) (\<lambda>a. then_do (filter_result p ys) (\<lambda>b. Inr (a @ b)))"
  by (induction xs) (auto simp: then_do_def split: sum.splits)

lemma filter_result_subset: "filter_result p xs = Inr ys \<Longrightarrow> set ys \<subseteq> set xs"
  by (induction xs arbitrary: ys) (auto simp: then_do_Inr_iff split: if_splits)

text \<open>What a follow replays after a capture's cursor, of a log that is split at the capture.\<close>

lemma replay_from_cursor:
  assumes "\<And>ev. ev \<in> set old \<Longrightarrow> me_seq ev \<le> hw" "\<And>ev. ev \<in> set new \<Longrightarrow> hw < me_seq ev \<and> 1 \<le> me_seq ev"
  shows "replayed \<lparr>wr_selector = sel, wr_follow = True, wr_from_seq = Some (max 1 hw),
      wr_replay_tail = None, wr_correlated = False\<rparr> (old @ new)
    = filter (\<lambda>ev. me_seq ev = hw \<and> 1 \<le> hw) old @ new"
proof -
  have "filter (\<lambda>ev. max 1 hw \<le> me_seq ev) old = filter (\<lambda>ev. me_seq ev = hw \<and> 1 \<le> hw) old"
    using assms(1) by (intro filter_cong) force+
  moreover have "filter (\<lambda>ev. max 1 hw \<le> me_seq ev) new = new"
    using assms(2) by (intro filter_True) force
  ultimately show ?thesis by (simp add: replayed_def)
qed

text \<open>
  C39. A wait that captures its start and then follows from the captured cursor misses no event. If
  events are appended after the capture, the follow opens with a snapshot and yields, in log order,
  every appended event that matches the selector; of the earlier ones it repeats only those that
  carry the captured high-water number itself.
\<close>

theorem follow_misses_nothing:
  assumes cap: "capture_start env st sel = Inr (Inr c)"
    and log: "st_events st' = st_events st @ new"
    and old: "\<And>ev. ev \<in> set (st_events st) \<Longrightarrow> me_seq ev \<le> re_high_water c"
    and new: "\<And>ev. ev \<in> set new \<Longrightarrow> re_high_water c < me_seq ev \<and> 1 \<le> me_seq ev"
    and snap: "snapshot_state env st' (Some sel) = Inr sn"
    and old_matches: "filter_result (\<lambda>ev. monitor_event_matches_selector (env_lib env) st' ev sel) (st_events st) = Inr m"
    and new_matches: "filter_result (\<lambda>ev. monitor_event_matches_selector (env_lib env) st' ev sel) new = Inr n"
  shows "watch_events env st' \<lparr>wr_selector = Some sel, wr_follow = True, wr_from_seq = Some (ca_cursor c),
      wr_replay_tail = None, wr_correlated = False\<rparr>
    = (Snapshot_Item sn # map Replayed_Item
        (filter (\<lambda>ev. me_seq ev = re_high_water c \<and> 1 \<le> re_high_water c) m @ n), None)"
proof -
  have cursor: "ca_cursor c = max 1 (re_high_water c)"
  proof -
    obtain r where "c = resolution.extend r \<lparr>ca_cursor = max 1 (re_high_water r)\<rparr>"
      using cap by (cases "resolve_capture_selector env st sel")
        (auto simp: capture_start_def split: sum.splits)
    then show ?thesis by (simp add: resolution.defs)
  qed
  have "matching_events (env_lib env) st' (Some sel) = Inr (m @ n)"
    using log old_matches new_matches by (simp add: matching_events_def filter_result_append)
  moreover have "set m \<subseteq> set (st_events st)" "set n \<subseteq> set new"
    using filter_result_subset old_matches new_matches by blast+
  then have "replayed \<lparr>wr_selector = Some sel, wr_follow = True, wr_from_seq = Some (ca_cursor c),
      wr_replay_tail = None, wr_correlated = False\<rparr> (m @ n)
    = filter (\<lambda>ev. me_seq ev = re_high_water c \<and> 1 \<le> re_high_water c) m @ n"
    unfolding cursor using old new by (intro replay_from_cursor) blast+
  ultimately show ?thesis using snap by (simp add: watch_events_def)
qed

definition example_event :: "int \<Rightarrow> string \<Rightarrow> string \<Rightarrow> mon_event" where
  "example_event n kind host = \<lparr>me_seq = n, me_identity = None,
     me_fields = [(''event'', JStr kind), (''hostSessionId'', JStr host)]\<rparr>"

definition example_log :: "mon_event list" where
  "example_log = [example_event 4 ''runtime.busy'' ''h1'', example_event 5 ''turn.started'' ''h1'',
     example_event 5 ''runtime.busy'' ''h2'']"

definition example_appended :: "mon_event list" where
  "example_appended = [example_event 6 ''turn.finished'' ''h1'', example_event 7 ''runtime.idle'' ''h2'',
     example_event 8 ''runtime.idle'' ''h1'']"

theorem follow_misses_nothing_witness:
  "\<exists>c sn. capture_start example_env (example_state\<lparr>st_events := example_log\<rparr>) (Host ''host:h1'' ''h1'') = Inr (Inr c)
     \<and> re_high_water c = 5
     \<and> watch_events example_env (example_state\<lparr>st_events := example_log @ example_appended\<rparr>)
         \<lparr>wr_selector = Some (Host ''host:h1'' ''h1''), wr_follow = True, wr_from_seq = Some (ca_cursor c),
          wr_replay_tail = None, wr_correlated = False\<rparr>
       = (Snapshot_Item sn # map Replayed_Item [example_event 5 ''turn.started'' ''h1'',
            example_event 6 ''turn.finished'' ''h1'', example_event 8 ''runtime.idle'' ''h1''], None)"
proof -
  let ?st = "example_state\<lparr>st_events := example_log\<rparr>"
  let ?st' = "example_state\<lparr>st_events := example_log @ example_appended\<rparr>"
  let ?sel = "Host ''host:h1'' ''h1''"
  let ?p = "\<lambda>ev. monitor_event_matches_selector (env_lib example_env) ?st' ev ?sel"
  have "(case capture_start example_env ?st ?sel of Inr (Inr c) \<Rightarrow> re_high_water c = 5 | _ \<Rightarrow> False)"
    by code_simp
  then obtain c where c: "capture_start example_env ?st ?sel = Inr (Inr c)" "re_high_water c = 5"
    by (auto split: sum.splits)
  have "\<not> isl (snapshot_state example_env ?st' (Some ?sel))" by code_simp
  then obtain sn where sn: "snapshot_state example_env ?st' (Some ?sel) = Inr sn"
    by (cases "snapshot_state example_env ?st' (Some ?sel)") auto
  have m: "filter_result ?p (st_events ?st)
      = Inr [example_event 4 ''runtime.busy'' ''h1'', example_event 5 ''turn.started'' ''h1'']"
    by (simp add: example_log_def example_event_def jstring_def)
  have n: "filter_result ?p example_appended
      = Inr [example_event 6 ''turn.finished'' ''h1'', example_event 8 ''runtime.idle'' ''h1'']"
    by (simp add: example_appended_def example_event_def jstring_def)
  have log: "st_events ?st' = st_events ?st @ example_appended" by simp
  have old: "me_seq ev \<le> re_high_water c" if "ev \<in> set (st_events ?st)" for ev
    using that c(2) by (auto simp: example_log_def example_event_def)
  have new: "re_high_water c < me_seq ev \<and> 1 \<le> me_seq ev" if "ev \<in> set example_appended" for ev
    using that c(2) by (auto simp: example_appended_def example_event_def)
  have "watch_events example_env ?st' \<lparr>wr_selector = Some ?sel, wr_follow = True,
      wr_from_seq = Some (ca_cursor c), wr_replay_tail = None, wr_correlated = False\<rparr>
    = (Snapshot_Item sn # map Replayed_Item [example_event 5 ''turn.started'' ''h1'',
        example_event 6 ''turn.finished'' ''h1'', example_event 8 ''runtime.idle'' ''h1''], None)"
    using follow_misses_nothing [OF c(1) log old new sn m n] c(2) by (simp add: example_event_def)
  then show ?thesis using c by blast
qed

end
