(* ===== verification/Monitor_Wait.thy ===== *)
theory Monitor_Wait
  imports Monitor_Reader JS_Date
begin

text \<open>
  The condition waits of the monitor (hrc-core/src/monitor/condition-engine.ts, with the levels of
  status-levels.ts and the codes of exit-codes.ts): the evidence that decides each condition, the
  race of the event stream with the timeout and stall timers, and the wait loop. The loop is a
  partial function: a wait that never settles is \<open>None\<close>.
\<close>

section \<open>Status levels and exit codes\<close>

datatype status_level = Level_Idle | Level_Busy | Level_Dead

definition runtime_status_level :: "(string \<times> status_level option) list" where
  "runtime_status_level =
     [(''ready'', Some Level_Idle), (''idle'', Some Level_Idle), (''busy'', Some Level_Busy),
      (''awaiting_input'', Some Level_Busy), (''dead'', Some Level_Dead), (''stale'', Some Level_Dead),
      (''terminated'', Some Level_Dead), (''stopped'', Some Level_Dead), (''failed'', Some Level_Dead),
      (''disposed'', Some Level_Dead), (''crashed'', Some Level_Dead), (''exited'', Some Level_Dead),
      (''starting'', None), (''stopping'', None), (''detached'', None)]"

definition terminal_runtime_statuses :: "string list" where
  "terminal_runtime_statuses =
     map fst (filter (\<lambda>(_, level). level = Some Level_Dead) runtime_status_level)"

definition is_terminal_runtime_status :: "string option \<Rightarrow> bool" where
  "is_terminal_runtime_status s = (case s of None \<Rightarrow> False | Some s \<Rightarrow> s \<in> set terminal_runtime_statuses)"

definition exit_ok :: int where "exit_ok = 0"
definition exit_already_true :: int where "exit_already_true = 10"
definition exit_obstruction :: int where "exit_obstruction = 12"
definition exit_terminal_failure :: int where "exit_terminal_failure = 13"
definition exit_timeout :: int where "exit_timeout = 20"
definition exit_stalled :: int where "exit_stalled = 21"
definition exit_context_changed :: int where "exit_context_changed = 22"
definition exit_monitor_error :: int where "exit_monitor_error = 23"

lemmas exit_codes = exit_ok_def exit_already_true_def exit_obstruction_def exit_terminal_failure_def
  exit_timeout_def exit_stalled_def exit_context_changed_def exit_monitor_error_def

section \<open>Conditions and outcomes\<close>

datatype condition = Until_Turn_Finished | Until_Idle | Until_Busy | Until_Response | Until_Runtime_Dead

fun condition_name :: "condition \<Rightarrow> string" where
  "condition_name Until_Turn_Finished = ''turn-finished''"
| "condition_name Until_Idle = ''idle''"
| "condition_name Until_Busy = ''busy''"
| "condition_name Until_Response = ''response''"
| "condition_name Until_Runtime_Dead = ''runtime-dead''"

datatype wait_outcome = Success | Not_Matched | Observed_Failure | Monitor_Error

fun outcome_name :: "wait_outcome \<Rightarrow> string" where
  "outcome_name Success = ''success''"
| "outcome_name Not_Matched = ''not_matched''"
| "outcome_name Observed_Failure = ''observed_failure''"
| "outcome_name Monitor_Error = ''error''"

record condition_outcome =
  co_result :: string
  co_outcome :: wait_outcome
  co_exit :: int
  co_run :: "string option"
  co_reason :: "string option"
  co_failure :: "string option"

definition outcome_of :: "string \<Rightarrow> wait_outcome \<Rightarrow> int \<Rightarrow> condition_outcome" where
  "outcome_of result outcome code = \<lparr>co_result = result, co_outcome = outcome, co_exit = code,
     co_run = None, co_reason = None, co_failure = None\<rparr>"

definition condition_results :: "string list" where
  "condition_results = [''turn_succeeded'', ''turn_failed'', ''runtime_dead'', ''runtime_crashed'',
     ''response'', ''idle'', ''busy'', ''idle_no_response'', ''turn_finished_without_response'',
     ''already_idle'', ''already_busy'', ''already_dead'', ''no_active_turn'', ''context_changed'',
     ''timeout'', ''stalled'', ''monitor_error'']"

definition context_changed_reasons :: "string list" where
  "context_changed_reasons = [''session_rebound'', ''generation_changed'', ''cleared'']"

definition failure_kinds :: "string list" where
  "failure_kinds = [''model'', ''tool'', ''process'', ''runtime'', ''cancelled'', ''unknown'']"

definition idle_runtime_statuses :: "string list" where
  "idle_runtime_statuses = [''idle'', ''ready'']"

definition is_idle_runtime_status :: "string option \<Rightarrow> bool" where
  "is_idle_runtime_status s = (case s of None \<Rightarrow> False | Some s \<Rightarrow> s \<in> set idle_runtime_statuses)"

record wait_request =
  wq_selector :: selector
  wq_condition :: condition
  wq_timeout :: "int option"
  wq_stall :: "int option"

record wait_context =
  cx_condition :: condition
  cx_selector :: selector
  cx_capture :: capture

section \<open>Reading events\<close>

definition event_kind :: "json_object \<Rightarrow> string option" where
  "event_kind ev = jstring ev ''event''"

definition result_value :: "json_object \<Rightarrow> string \<Rightarrow> string" where
  "result_value ev fallback = (case jstring ev ''result'' of
     Some r \<Rightarrow> if r \<in> set condition_results then r else fallback | None \<Rightarrow> fallback)"

definition failure_kind_value :: "json_object \<Rightarrow> string" where
  "failure_kind_value ev = (case jstring ev ''failureKind'' of
     Some k \<Rightarrow> if k \<in> set failure_kinds then k else ''unknown'' | None \<Rightarrow> ''unknown'')"

definition same_captured_turn :: "wait_context \<Rightarrow> json_object \<Rightarrow> bool" where
  "same_captured_turn cx ev = (re_turn (cx_capture cx) \<noteq> None
     \<and> jstring ev ''turnId'' = re_turn (cx_capture cx))"

definition same_runtime :: "wait_context \<Rightarrow> json_object \<Rightarrow> bool" where
  "same_runtime cx ev = (case jstring ev ''runtimeId'' of
     None \<Rightarrow> True | Some r \<Rightarrow> r = re_runtime (cx_capture cx))"

definition is_captured_turn_idle_or_finished :: "wait_context \<Rightarrow> json_object \<Rightarrow> bool" where
  "is_captured_turn_idle_or_finished cx ev =
     (event_kind ev = Some ''turn.finished'' \<and> same_captured_turn cx ev
      \<or> event_kind ev = Some ''runtime.idle'' \<and> same_runtime cx ev
        \<and> (jstring ev ''turnId'' = None \<or> same_captured_turn cx ev))"

definition message_response_matches_selector :: "wait_context \<Rightarrow> json_object \<Rightarrow> bool" where
  "message_response_matches_selector cx ev =
     selector_matches_message_response (cx_selector cx) (project_message ev)"

section \<open>Deciding evidence\<close>

definition runtime_death_outcome :: "wait_context \<Rightarrow> json_object \<Rightarrow> condition_outcome option" where
  "runtime_death_outcome cx ev =
     (let named = (cx_condition cx = Until_Runtime_Dead);
          death = (\<lambda>result. (outcome_of result (if named then Success else Not_Matched)
            (if named then exit_ok else exit_obstruction))\<lparr>co_failure := Some (failure_kind_value ev)\<rparr>) in
      if event_kind ev = Some ''runtime.dead'' \<and> same_runtime cx ev then Some (death ''runtime_dead'')
      else if event_kind ev = Some ''runtime.crashed'' \<and> same_runtime cx ev then Some (death ''runtime_crashed'')
      else None)"

definition context_changed :: "string \<Rightarrow> condition_outcome" where
  "context_changed reason =
     (outcome_of ''context_changed'' Not_Matched exit_context_changed)\<lparr>co_reason := Some reason\<rparr>"

definition evaluate_context_changed :: "wait_context \<Rightarrow> json_object \<Rightarrow> condition_outcome option" where
  "evaluate_context_changed cx ev =
     (let c = cx_capture cx; reason = jstring ev ''reason'';
          same_session = (jstring ev ''sessionRef'' = Some (re_session_ref c)) in
      if jstring ev ''result'' = Some ''context_changed''
         \<and> (case reason of None \<Rightarrow> False | Some r \<Rightarrow> r \<in> set context_changed_reasons)
      then Some (context_changed (the reason))
      else if same_session \<and> (case jnumber ev ''generation'' of None \<Rightarrow> False | Some g \<Rightarrow> g \<noteq> re_generation c)
      then Some (context_changed ''generation_changed'')
      else if same_session \<and> (case jstring ev ''hostSessionId'' of None \<Rightarrow> False | Some h \<Rightarrow> h \<noteq> re_host c)
      then Some (context_changed ''session_rebound'')
      else if (event_kind ev = Some ''context.cleared'' \<or> event_kind ev = Some ''session.cleared'') \<and> same_session
      then Some (context_changed ''cleared'')
      else None)"

definition evaluate_turn_finished :: "wait_context \<Rightarrow> json_object \<Rightarrow> condition_outcome option" where
  "evaluate_turn_finished cx ev =
     (if event_kind ev \<noteq> Some ''turn.finished'' \<or> \<not> same_captured_turn cx ev then None
      else (let result = result_value ev ''turn_succeeded'' in
        if result = ''turn_failed'' \<or> result = ''runtime_dead'' \<or> result = ''runtime_crashed''
        then Some ((outcome_of result Observed_Failure exit_terminal_failure)
          \<lparr>co_failure := Some (failure_kind_value ev)\<rparr>)
        else Some (outcome_of ''turn_succeeded'' Success exit_ok)))"

definition evaluate_response :: "wait_context \<Rightarrow> json_object \<Rightarrow> condition_outcome option" where
  "evaluate_response cx ev =
     (if event_kind ev = Some ''message.response'' \<and> message_response_matches_selector cx ev
      then Some (outcome_of ''response'' Success exit_ok)
      else if is_captured_turn_idle_or_finished cx ev
      then Some (outcome_of ''turn_finished_without_response'' Not_Matched exit_context_changed)
      else None)"

text \<open>The strategy table: what decides a condition at the start, and by an event.\<close>

fun strategy_start :: "condition \<Rightarrow> wait_context \<Rightarrow> mon_snapshot \<Rightarrow> condition_outcome option" where
  "strategy_start Until_Turn_Finished cx sn =
     (if re_turn (cx_capture cx) = None then Some (outcome_of ''no_active_turn'' Success exit_ok) else None)"
| "strategy_start Until_Idle cx sn =
     (if is_idle_runtime_status (map_option (mr_status \<circ> pa_runtime) (sn_parts sn))
      then Some (outcome_of ''already_idle'' Success exit_already_true) else None)"
| "strategy_start Until_Busy cx sn =
     (if map_option (mr_status \<circ> pa_runtime) (sn_parts sn) = Some ''busy''
      then Some (outcome_of ''already_busy'' Success exit_already_true) else None)"
| "strategy_start Until_Runtime_Dead cx sn =
     (if is_terminal_runtime_status (map_option (mr_status \<circ> pa_runtime) (sn_parts sn))
      then Some (outcome_of ''already_dead'' Success exit_already_true) else None)"
| "strategy_start Until_Response cx sn = None"

fun strategy_event :: "condition \<Rightarrow> wait_context \<Rightarrow> json_object \<Rightarrow> condition_outcome option" where
  "strategy_event Until_Turn_Finished cx ev = evaluate_turn_finished cx ev"
| "strategy_event Until_Idle cx ev =
     (if event_kind ev = Some ''runtime.idle'' \<and> same_runtime cx ev
      then Some (outcome_of (result_value ev ''idle'') Success exit_ok) else None)"
| "strategy_event Until_Busy cx ev =
     (if event_kind ev = Some ''runtime.busy'' \<and> same_runtime cx ev
      then Some (outcome_of (result_value ev ''busy'') Success exit_ok) else None)"
| "strategy_event Until_Runtime_Dead cx ev = runtime_death_outcome cx ev"
| "strategy_event Until_Response cx ev = evaluate_response cx ev"

definition evaluate_start_snapshot :: "wait_context \<Rightarrow> mon_snapshot \<Rightarrow> condition_outcome option" where
  "evaluate_start_snapshot cx sn = strategy_start (cx_condition cx) cx sn"

definition evaluate_event :: "wait_context \<Rightarrow> json_object \<Rightarrow> condition_outcome option" where
  "evaluate_event cx ev =
     (if event_kind ev = Some ''monitor.snapshot'' then None
      else orelse (evaluate_context_changed cx ev)
        (orelse (if cx_condition cx \<noteq> Until_Runtime_Dead then runtime_death_outcome cx ev else None)
          (strategy_event (cx_condition cx) cx ev)))"

section \<open>The terminal event\<close>

text \<open>The host clock stays inside the range of \<open>Date\<close>.\<close>

definition iso_text :: "int \<Rightarrow> string" where
  "iso_text t = or_default (to_iso t) []"

definition optional_property :: "string \<Rightarrow> string option \<Rightarrow> json_object" where
  "optional_property k v = (case v of None \<Rightarrow> [] | Some s \<Rightarrow> [(k, JStr s)])"

definition completed_event :: "wait_context \<Rightarrow> condition_outcome \<Rightarrow> int \<Rightarrow> json_object" where
  "completed_event cx o' t =
     [(''event'', JStr (if co_result o' = ''stalled'' then ''monitor.stalled'' else ''monitor.completed'')),
      (''selector'', JStr (rs_canonical (re_selector (cx_capture cx)))),
      (''scopeRef'', JStr (re_scope (cx_capture cx))),
      (''condition'', JStr (condition_name (cx_condition cx))),
      (''result'', JStr (co_result o')), (''outcome'', JStr (outcome_name (co_outcome o')))]
     @ optional_property ''runId'' (co_run o') @ optional_property ''reason'' (co_reason o')
     @ optional_property ''failureKind'' (co_failure o')
     @ [(''exitCode'', JNum (co_exit o')), (''replayed'', JBool False), (''ts'', JStr (iso_text t))]"

text \<open>The answer of a wait: its outcome, the events it read with the terminal one, and its time.\<close>

record wait_answer =
  wa_outcome :: condition_outcome
  wa_stream :: "json_object list"
  wa_at :: int

definition with_completed_event ::
  "wait_context \<Rightarrow> condition_outcome \<Rightarrow> json_object list \<Rightarrow> int \<Rightarrow> wait_answer" where
  "with_completed_event cx o' evs t =
     \<lparr>wa_outcome = o', wa_stream = evs @ [completed_event cx o' t], wa_at = t\<rparr>"

section \<open>The race of the stream with the timers\<close>

text \<open>
  What the stream's next item is, and when its promise settles: an event, the end, an exception, or
  never. Times are milliseconds of the host clock.
\<close>

datatype arrival = Event_At json_object int | End_At int | Fail_At js_error int | Never

fun settles_at :: "arrival \<Rightarrow> int option" where
  "settles_at (Event_At ev t) = Some t"
| "settles_at (End_At t) = Some t"
| "settles_at (Fail_At e t) = Some t"
| "settles_at Never = None"

datatype stream_result = Got arrival int | Timed_Out int | Stalled int | Hangs

definition deadline_from :: "int \<Rightarrow> int option \<Rightarrow> int option" where
  "deadline_from now ms = map_option (\<lambda>m. now + max 0 m) ms"

definition earliest_deadline :: "int option \<Rightarrow> int option \<Rightarrow> int option" where
  "earliest_deadline a b = (case a of None \<Rightarrow> b | Some x \<Rightarrow> (case b of None \<Rightarrow> a | Some y \<Rightarrow> Some (min x y)))"

text \<open>The timeout wins a tie of the timers: its timer is created first.\<close>

definition timeout_first :: "int option \<Rightarrow> int option \<Rightarrow> bool" where
  "timeout_first timeout stall = (case timeout of None \<Rightarrow> False
     | Some t \<Rightarrow> (case stall of None \<Rightarrow> True | Some s \<Rightarrow> t \<le> s))"

definition timer_result :: "int \<Rightarrow> int option \<Rightarrow> int option \<Rightarrow> int \<Rightarrow> stream_result" where
  "timer_result now timeout stall due =
     (if timeout_first timeout stall then Timed_Out (max now due) else Stalled (max now due))"

text \<open>
  An item that has settled wins over any timer, however late it is, since timers fire after the
  promises that are ready; at the same instant in the future either may win (\<open>tie\<close>).
\<close>

definition next_stream_result :: "bool \<Rightarrow> int \<Rightarrow> arrival \<Rightarrow> int option \<Rightarrow> int option \<Rightarrow> stream_result" where
  "next_stream_result tie now item timeout stall =
     (case earliest_deadline timeout stall of
        None \<Rightarrow> (case settles_at item of None \<Rightarrow> Hangs | Some t \<Rightarrow> Got item (max now t))
      | Some due \<Rightarrow> (case settles_at item of
            None \<Rightarrow> timer_result now timeout stall due
          | Some t \<Rightarrow> if t \<le> now \<or> t < due \<or> (t = due \<and> tie) then Got item (max now t)
              else timer_result now timeout stall due))"

definition wait_for_end_timer ::
  "wait_context \<Rightarrow> json_object list \<Rightarrow> int \<Rightarrow> int option \<Rightarrow> int option \<Rightarrow> wait_answer" where
  "wait_for_end_timer cx evs now timeout stall =
     (case earliest_deadline timeout stall of
        None \<Rightarrow> with_completed_event cx (outcome_of ''monitor_error'' Monitor_Error exit_monitor_error) evs now
      | Some due \<Rightarrow>
          if timeout_first timeout stall
          then with_completed_event cx (outcome_of ''timeout'' Not_Matched exit_timeout) evs (max now due)
          else with_completed_event cx (outcome_of ''stalled'' Not_Matched exit_stalled) evs (max now due))"

section \<open>The wait\<close>

text \<open>The stream: its n-th item, and how the n-th race settles a tie.\<close>

record event_source =
  es_item :: "nat \<Rightarrow> arrival"
  es_tie :: "nat \<Rightarrow> bool"

partial_function (option) wait_loop ::
  "wait_context \<Rightarrow> int option \<Rightarrow> event_source \<Rightarrow> nat \<Rightarrow> int \<Rightarrow> int option \<Rightarrow> int option
     \<Rightarrow> json_object list \<Rightarrow> wait_answer result option" where
  [code]: "wait_loop cx stallAfter src n now timeout stall evs =
     (case next_stream_result (es_tie src n) now (es_item src n) timeout stall of
        Hangs \<Rightarrow> None
      | Timed_Out t \<Rightarrow> Some (Inr (with_completed_event cx (outcome_of ''timeout'' Not_Matched exit_timeout) evs t))
      | Stalled t \<Rightarrow> Some (Inr (with_completed_event cx (outcome_of ''stalled'' Not_Matched exit_stalled) evs t))
      | Got item t \<Rightarrow> (case item of
            Event_At ev _ \<Rightarrow>
              (case evaluate_event cx ev of
                 Some o' \<Rightarrow> Some (Inr (with_completed_event cx o' (evs @ [ev]) t))
               | None \<Rightarrow> wait_loop cx stallAfter src (Suc n) t timeout (deadline_from t stallAfter) (evs @ [ev]))
          | End_At _ \<Rightarrow> Some (Inr (wait_for_end_timer cx evs t timeout stall))
          | Fail_At e _ \<Rightarrow> Some (Inl e)
          | Never \<Rightarrow> None))"

fun is_message_selector :: "selector \<Rightarrow> bool" where
  "is_message_selector (Message raw m) = True"
| "is_message_selector (Message_Seq raw n) = True"
| "is_message_selector _ = False"

definition assert_condition_selector :: "wait_request \<Rightarrow> unit result" where
  "assert_condition_selector req =
     (if wq_condition req = Until_Response \<and> \<not> is_message_selector (wq_selector req)
      then Inl (domain_error ''invalid_selector'' ''response requires a msg: selector''
        [(''condition'', JStr ''response''), (''selectorKind'', JStr (selector_kind (wq_selector req)))])
      else Inr ())"

definition capture_or_throw :: "js_error + capture \<Rightarrow> capture result" where
  "capture_or_throw r = (case r of
     Inl e \<Rightarrow> Inl (domain_error ''invalid_selector'' (err_message e) (err_detail e)) | Inr c \<Rightarrow> Inr c)"

text \<open>
  A wait over a reader: the capture it answers, the snapshot taken then, and the stream of its watch,
  which is opened at \<open>now\<close> with the captured cursor.
\<close>

definition watch_of :: "wait_request \<Rightarrow> capture \<Rightarrow> watch_request" where
  "watch_of req c = \<lparr>wr_selector = Some (wq_selector req), wr_follow = True,
     wr_from_seq = Some (ca_cursor c), wr_replay_tail = None,
     wr_correlated = (wq_condition req = Until_Response)\<rparr>"

definition monitor_wait ::
  "wait_request \<Rightarrow> (js_error + capture) result \<Rightarrow> mon_snapshot result \<Rightarrow> (watch_request \<Rightarrow> event_source)
     \<Rightarrow> int \<Rightarrow> wait_answer result option" where
  "monitor_wait req cap snap source now =
     (case then_do (assert_condition_selector req) (\<lambda>_. then_do cap (\<lambda>r. then_do (capture_or_throw r) (\<lambda>c.
             then_do snap (\<lambda>sn. Inr (c, sn))))) of
        Inl e \<Rightarrow> Some (Inl e)
      | Inr (c, sn) \<Rightarrow>
          (let cx = \<lparr>cx_condition = wq_condition req, cx_selector = wq_selector req, cx_capture = c\<rparr> in
           case evaluate_start_snapshot cx sn of
             Some o' \<Rightarrow> Some (Inr (with_completed_event cx o' [] now))
           | None \<Rightarrow> wait_loop cx (wq_stall req) (source (watch_of req c)) 0 now
               (deadline_from now (wq_timeout req)) (deadline_from now (wq_stall req)) []))"

section \<open>The first evidence\<close>

text \<open>The events up to the first one that decides, and its outcome.\<close>

fun first_evidence :: "wait_context \<Rightarrow> json_object list \<Rightarrow> (json_object list \<times> condition_outcome) option" where
  "first_evidence cx [] = None"
| "first_evidence cx (ev # evs) = (case evaluate_event cx ev of
     Some o' \<Rightarrow> Some ([ev], o')
   | None \<Rightarrow> map_option (\<lambda>(read, o'). (ev # read, o')) (first_evidence cx evs))"

lemma first_evidence_Some:
  "first_evidence cx evs = Some (read, o') \<Longrightarrow>
     \<exists>before ev rest. evs = before @ ev # rest \<and> read = before @ [ev] \<and> evaluate_event cx ev = Some o'
       \<and> (\<forall>e \<in> set before. evaluate_event cx e = None)"
proof (induction evs arbitrary: read)
  case (Cons e evs)
  show ?case
  proof (cases "evaluate_event cx e")
    case None
    then obtain read' where r: "first_evidence cx evs = Some (read', o')" "read = e # read'"
      using Cons.prems by auto
    obtain b ev rest where "evs = b @ ev # rest" "read' = b @ [ev]" "evaluate_event cx ev = Some o'"
      "\<forall>e \<in> set b. evaluate_event cx e = None"
      using Cons.IH [OF r(1)] by blast
    then have "e # evs = (e # b) @ ev # rest" "read = (e # b) @ [ev]"
      "\<forall>x \<in> set (e # b). evaluate_event cx x = None" "evaluate_event cx ev = Some o'"
      using r None by simp_all
    then show ?thesis by blast
  next
    case (Some out)
    then show ?thesis using Cons.prems by (intro exI [of _ "[]"] exI [of _ e] exI [of _ evs]) simp
  qed
qed simp

lemma first_evidence_None: "first_evidence cx evs = None \<longleftrightarrow> (\<forall>e \<in> set evs. evaluate_event cx e = None)"
  by (induction evs) (auto split: option.splits)

text \<open>The events a source supplies from its n-th item on.\<close>

primrec supplies :: "event_source \<Rightarrow> nat \<Rightarrow> json_object list \<Rightarrow> bool" where
  "supplies src n [] = True"
| "supplies src n (ev # evs) = ((\<exists>t. es_item src n = Event_At ev t) \<and> supplies src (Suc n) evs)"

definition undecided :: "condition_outcome set" where
  "undecided = {outcome_of ''timeout'' Not_Matched exit_timeout, outcome_of ''stalled'' Not_Matched exit_stalled,
     outcome_of ''monitor_error'' Monitor_Error exit_monitor_error}"

text \<open>
  What an answer reports of the events supplied from the n-th on: it read them up to the first
  evidence, or read no evidence and ended by a timer or the end of the stream.
\<close>

definition reports :: "wait_context \<Rightarrow> event_source \<Rightarrow> nat \<Rightarrow> json_object list \<Rightarrow> wait_answer \<Rightarrow> bool" where
  "reports cx src n evs a = (\<exists>read. supplies src n read
     \<and> wa_stream a = evs @ read @ [completed_event cx (wa_outcome a) (wa_at a)]
     \<and> (first_evidence cx read = Some (read, wa_outcome a)
        \<or> first_evidence cx read = None \<and> wa_outcome a \<in> undecided))"

lemma reports_undecided:
  "o' \<in> undecided \<Longrightarrow> reports cx src n evs (with_completed_event cx o' evs t)"
  unfolding reports_def with_completed_event_def by (intro exI [of _ "[]"]) simp

lemma reports_end: "reports cx src n evs (wait_for_end_timer cx evs t timeout stall)"
  by (auto simp: wait_for_end_timer_def undecided_def intro!: reports_undecided split: option.splits)

lemma reports_decided:
  assumes "es_item src n = Event_At ev t0" "evaluate_event cx ev = Some o'"
  shows "reports cx src n evs (with_completed_event cx o' (evs @ [ev]) t)"
  unfolding reports_def with_completed_event_def using assms by (intro exI [of _ "[ev]"]) simp

lemma reports_later:
  assumes "es_item src n = Event_At ev t0" "evaluate_event cx ev = None" "reports cx src (Suc n) (evs @ [ev]) a"
  shows "reports cx src n evs a"
proof -
  obtain read where r: "supplies src (Suc n) read"
    "wa_stream a = (evs @ [ev]) @ read @ [completed_event cx (wa_outcome a) (wa_at a)]"
    "first_evidence cx read = Some (read, wa_outcome a)
      \<or> first_evidence cx read = None \<and> wa_outcome a \<in> undecided"
    using assms(3) unfolding reports_def by blast
  then show ?thesis unfolding reports_def using assms(1,2) by (intro exI [of _ "ev # read"]) auto
qed

lemma next_stream_result_cases [case_names hangs got timer]:
  obtains "next_stream_result tie now item timeout stall = Hangs" "settles_at item = None" "timeout = None" "stall = None"
  | t where "settles_at item = Some t" "next_stream_result tie now item timeout stall = Got item (max now t)"
      "\<And>due. earliest_deadline timeout stall = Some due \<Longrightarrow> t \<le> now \<or> t \<le> due"
  | due where "earliest_deadline timeout stall = Some due"
      "next_stream_result tie now item timeout stall = timer_result now timeout stall due"
      "\<And>t. settles_at item = Some t \<Longrightarrow> now < t \<and> due \<le> t"
proof (cases "earliest_deadline timeout stall")
  case None
  then have "timeout = None \<and> stall = None" by (auto simp: earliest_deadline_def split: option.splits)
  then show ?thesis using None that by (auto simp: next_stream_result_def split: option.splits)
next
  case (Some due)
  then show ?thesis using that
    by (fastforce simp: next_stream_result_def split: option.splits if_splits)
qed

lemma wait_loop_reports:
  "wait_loop cx stallAfter src n now timeout stall evs = Some (Inr a) \<Longrightarrow> reports cx src n evs a"
proof -
  assume ret: "wait_loop cx stallAfter src n now timeout stall evs = Some (Inr a)"
  have "\<forall>a. r = Inr a \<longrightarrow> reports cx src n evs a" if "wait_loop cx stallAfter src n now timeout stall evs = Some r" for r
  proof (rule wait_loop.raw_induct [where P = "\<lambda>cx stallAfter src n now timeout stall evs r.
      \<forall>a. r = Inr a \<longrightarrow> reports cx src n evs a", OF _ that])
    fix f :: "wait_context \<Rightarrow> int option \<Rightarrow> event_source \<Rightarrow> nat \<Rightarrow> int \<Rightarrow> int option \<Rightarrow> int option
      \<Rightarrow> json_object list \<Rightarrow> wait_answer result option"
    fix cx stallAfter src n now timeout stall evs r
    assume IH: "\<And>cx stallAfter src n now timeout stall evs r. f cx stallAfter src n now timeout stall evs = Some r
        \<Longrightarrow> \<forall>a. r = Inr a \<longrightarrow> reports cx src n evs a"
    assume eq: "(case next_stream_result (es_tie src n) now (es_item src n) timeout stall of
        Got item t \<Rightarrow> (case item of
            Event_At ev _ \<Rightarrow>
              (case evaluate_event cx ev of
                 None \<Rightarrow> f cx stallAfter src (Suc n) t timeout (deadline_from t stallAfter) (evs @ [ev])
               | Some o' \<Rightarrow> Some (Inr (with_completed_event cx o' (evs @ [ev]) t)))
          | End_At _ \<Rightarrow> Some (Inr (wait_for_end_timer cx evs t timeout stall))
          | Fail_At e _ \<Rightarrow> Some (Inl e)
          | Never \<Rightarrow> None)
      | Timed_Out t \<Rightarrow> Some (Inr (with_completed_event cx (outcome_of ''timeout'' Not_Matched exit_timeout) evs t))
      | Stalled t \<Rightarrow> Some (Inr (with_completed_event cx (outcome_of ''stalled'' Not_Matched exit_stalled) evs t))
      | Hangs \<Rightarrow> None) = Some r"
    show "\<forall>a. r = Inr a \<longrightarrow> reports cx src n evs a"
    proof (cases rule: next_stream_result_cases [of "es_tie src n" now "es_item src n" timeout stall])
      case (got t)
      then show ?thesis using eq IH
        by (auto intro: reports_end reports_decided reports_later split: arrival.splits option.splits)
    next
      case (timer due)
      then show ?thesis using eq
        by (auto simp: timer_result_def undecided_def intro!: reports_undecided split: if_splits)
    qed (use eq in simp)
  qed
  then show "reports cx src n evs a" using ret by blast
qed

section \<open>Waits with a timeout end\<close>

lemma earliest_deadline_le:
  "earliest_deadline (Some d) stall = Some due \<Longrightarrow> due \<le> d"
  by (auto simp: earliest_deadline_def split: option.splits)

lemma end_timer_by: "now \<le> d \<Longrightarrow> wa_at (wait_for_end_timer cx evs now (Some d) stall) \<le> d"
  by (auto simp: wait_for_end_timer_def with_completed_event_def dest: earliest_deadline_le
      split: option.splits)

text \<open>An item whose arrival lets the loop go on by the deadline \<open>d\<close>.\<close>

definition event_by :: "int \<Rightarrow> arrival \<Rightarrow> bool" where
  "event_by d item = (case item of Event_At ev t \<Rightarrow> t \<le> d | _ \<Rightarrow> False)"

lemma wait_loop_ends:
  assumes "now \<le> d" "n \<le> m" "\<not> event_by d (es_item src m)"
  shows "\<exists>r. wait_loop cx stallAfter src n now (Some d) stall evs = Some r \<and> (\<forall>a. r = Inr a \<longrightarrow> wa_at a \<le> d)"
  using assms(1,2)
proof (induction "m - n" arbitrary: n now stall evs)
  case k: 0
  then have n: "n = m" by simp
  show ?case
  proof (cases rule: next_stream_result_cases [of "es_tie src n" now "es_item src n" "Some d" stall])
    case (got t)
    have "earliest_deadline (Some d) stall \<noteq> None" by (simp add: earliest_deadline_def split: option.splits)
    then have "t \<le> d" using got(3) k(2) earliest_deadline_le by fastforce
    then show ?thesis using got assms(3) n k(2) end_timer_by
      by (subst wait_loop.simps) (auto simp: event_by_def split: arrival.splits)
  next
    case (timer due)
    then show ?thesis using k(2) earliest_deadline_le [of d stall due]
      by (subst wait_loop.simps) (auto simp: timer_result_def with_completed_event_def)
  qed simp
next
  case (Suc k)
  show ?case
  proof (cases rule: next_stream_result_cases [of "es_tie src n" now "es_item src n" "Some d" stall])
    case (got t)
    have "earliest_deadline (Some d) stall \<noteq> None" by (simp add: earliest_deadline_def split: option.splits)
    then have t: "max now t \<le> d" using got(3) Suc.prems(1) earliest_deadline_le by fastforce
    show ?thesis
    proof (cases "\<exists>ev. es_item src n = Event_At ev t \<and> evaluate_event cx ev = None")
      case True
      then obtain ev where ev: "es_item src n = Event_At ev t" "evaluate_event cx ev = None" by blast
      have "\<exists>r. wait_loop cx stallAfter src (Suc n) (max now t) (Some d) (deadline_from (max now t) stallAfter)
          (evs @ [ev]) = Some r \<and> (\<forall>a. r = Inr a \<longrightarrow> wa_at a \<le> d)"
        using Suc.hyps(2) t by (intro Suc.hyps(1)) auto
      then show ?thesis using got ev by (subst wait_loop.simps) simp
    next
      case False
      then show ?thesis using got t end_timer_by
        by (subst wait_loop.simps) (auto simp: with_completed_event_def split: arrival.splits option.splits)
    qed
  next
    case (timer due)
    then show ?thesis using Suc.prems(1) earliest_deadline_le [of d stall due]
      by (subst wait_loop.simps) (auto simp: timer_result_def with_completed_event_def)
  qed simp
qed

text \<open>
  C14. A wait with a timeout ends by its deadline. Whatever capture and snapshot the reader answers,
  and whatever the stream supplies, the wait returns an answer or throws, and an answer is given no
  later than the timeout after the watch was opened, provided only that the stream does not supply
  events without end before the deadline: events that are ready win over the timer, so an unbroken
  run of them is the one way to outlast it.
\<close>

theorem monitor_wait_ends_by_deadline:
  assumes "wq_timeout req = Some ms"
    and "\<And>w. \<exists>m. \<not> event_by (now + max 0 ms) (es_item (source w) m)"
  shows "\<exists>r. monitor_wait req cap snap source now = Some r
    \<and> (\<forall>a. r = Inr a \<longrightarrow> wa_at a \<le> now + max 0 ms)"
proof -
  have loop: "\<exists>r. wait_loop cx (wq_stall req) (source w) 0 now (deadline_from now (wq_timeout req))
      (deadline_from now (wq_stall req)) [] = Some r \<and> (\<forall>a. r = Inr a \<longrightarrow> wa_at a \<le> now + max 0 ms)" for cx w
  proof -
    obtain m where "\<not> event_by (now + max 0 ms) (es_item (source w) m)" using assms(2) by blast
    then show ?thesis using assms(1)
      by (simp add: deadline_from_def) (rule wait_loop_ends [of _ _ 0 m]; simp)
  qed
  show ?thesis
    unfolding monitor_wait_def Let_def
    by (auto simp: with_completed_event_def intro: loop split: sum.splits option.splits)
qed

definition example_capture :: capture where
  "example_capture = \<lparr>re_selector = \<lparr>rs_kind = ''runtime'', rs_canonical = ''runtime:r1''\<rparr>,
     re_session_ref = ''agent:cody/lane:main'', re_scope = ''agent:cody'', re_lane = ''main'',
     re_host = ''h1'', re_generation = 1, re_runtime = ''r1'', re_turn = Some ''t1'',
     re_high_water = 1, ca_cursor = 1\<rparr>"

definition example_snapshot :: mon_snapshot where
  "example_snapshot = \<lparr>sn_selector = None, sn_high_water = 1, sn_daemon = None, sn_socket = None,
     sn_tmux = None, sn_sessions = 1, sn_runtimes = 1, sn_parts = None, sn_resolution = None,
     sn_matches = None\<rparr>"

definition example_wait :: "int option \<Rightarrow> int option \<Rightarrow> wait_request" where
  "example_wait timeout stall = \<lparr>wq_selector = Runtime ''runtime:r1'' ''r1'',
     wq_condition = Until_Turn_Finished, wq_timeout = timeout, wq_stall = stall\<rparr>"

text \<open>A stream that supplies an undecisive event every 40 milliseconds.\<close>

definition ticking :: event_source where
  "ticking = \<lparr>es_item = (\<lambda>n. Event_At [(''event'', JStr ''turn.message'')] (1000 + 40 * int n)),
     es_tie = (\<lambda>_. True)\<rparr>"

definition answer_summary :: "wait_answer result option \<Rightarrow> (string \<times> int \<times> nat \<times> int) option" where
  "answer_summary r = (case r of Some (Inr a) \<Rightarrow> Some (co_result (wa_outcome a), co_exit (wa_outcome a),
     length (wa_stream a), wa_at a) | _ \<Rightarrow> None)"

theorem monitor_wait_ends_by_deadline_witness:
  "answer_summary (monitor_wait (example_wait (Some 100) (Some 50)) (Inr (Inr example_capture))
      (Inr example_snapshot) (\<lambda>_. ticking) 1000) = Some (''timeout'', 20, 4, 1100)
   \<and> (\<exists>r. monitor_wait (example_wait (Some 100) (Some 50)) (Inr (Inr example_capture))
      (Inr example_snapshot) (\<lambda>_. ticking) 1000 = Some r)"
proof
  show "answer_summary (monitor_wait (example_wait (Some 100) (Some 50)) (Inr (Inr example_capture))
      (Inr example_snapshot) (\<lambda>_. ticking) 1000) = Some (''timeout'', 20, 4, 1100)"
    by code_simp
  have t: "wq_timeout (example_wait (Some 100) (Some 50)) = Some 100" by (simp add: example_wait_def)
  have "\<not> event_by (1000 + max 0 100) (es_item ticking 3)" by code_simp
  then have e: "\<exists>m. \<not> event_by (1000 + max 0 100) (es_item ticking m)" by blast
  show "\<exists>r. monitor_wait (example_wait (Some 100) (Some 50)) (Inr (Inr example_capture))
      (Inr example_snapshot) (\<lambda>_. ticking) 1000 = Some r"
    using monitor_wait_ends_by_deadline [OF t e] by blast
qed

section \<open>Waits over a reader\<close>

text \<open>A stream that yields its items at once, then throws or ends.\<close>

definition yields_at_once :: "json_object list \<times> js_error option \<Rightarrow> int \<Rightarrow> event_source" where
  "yields_at_once y t =
     \<lparr>es_item = (\<lambda>n. if n < length (fst y) then Event_At (fst y ! n) t
        else (case snd y of None \<Rightarrow> End_At t | Some e \<Rightarrow> Fail_At e t)),
      es_tie = (\<lambda>_. False)\<rparr>"

text \<open>
  What such a wait amounts to: the first evidence of the items in order, and without any the error
  or, at the end of the stream, the timer that is due first.
\<close>

definition decide_all ::
  "wait_context \<Rightarrow> json_object list \<times> js_error option \<Rightarrow> int \<Rightarrow> int option \<Rightarrow> int option \<Rightarrow> wait_answer result" where
  "decide_all cx y now timeout stall =
     (case first_evidence cx (fst y) of
        Some (read, o') \<Rightarrow> Inr (with_completed_event cx o' read now)
      | None \<Rightarrow> (case snd y of
          Some e \<Rightarrow> Inl e
        | None \<Rightarrow> Inr (wait_for_end_timer cx (fst y) now timeout stall)))"

lemma next_stream_ready: "settles_at item = Some now \<Longrightarrow> next_stream_result tie now item timeout stall = Got item now"
  by (auto simp: next_stream_result_def split: option.splits)

lemma first_evidence_append:
  "\<forall>e \<in> set evs. evaluate_event cx e = None \<Longrightarrow>
     first_evidence cx (evs @ rest) = map_option (\<lambda>(read, o'). (evs @ read, o')) (first_evidence cx rest)"
  by (cases "first_evidence cx rest"; induction evs) auto

lemma wait_loop_at_once:
  assumes "n \<le> length (fst y)" "\<forall>e \<in> set (take n (fst y)). evaluate_event cx e = None"
  shows "wait_loop cx stallAfter (yields_at_once y now) n now timeout (deadline_from now stallAfter) (take n (fst y))
    = Some (decide_all cx y now timeout (deadline_from now stallAfter))"
  using assms
proof (induction "length (fst y) - n" arbitrary: n)
  case 0
  then have n: "n = length (fst y)" by simp
  have "first_evidence cx (fst y) = None" using 0 n by (simp add: first_evidence_None)
  then show ?case
    by (subst wait_loop.simps)
      (auto simp: yields_at_once_def n next_stream_ready decide_all_def split: option.splits)
next
  case (Suc k)
  let ?ev = "fst y ! n"
  have n: "n < length (fst y)" using Suc.hyps(2) by simp
  then have item: "es_item (yields_at_once y now) n = Event_At ?ev now" by (simp add: yields_at_once_def)
  have take: "take n (fst y) @ [?ev] = take (Suc n) (fst y)" using n by (simp add: take_Suc_conv_app_nth)
  show ?case
  proof (cases "evaluate_event cx ?ev")
    case None
    then have "\<forall>e \<in> set (take (Suc n) (fst y)). evaluate_event cx e = None"
      using Suc.prems(2) take [symmetric] by auto
    then have "wait_loop cx stallAfter (yields_at_once y now) (Suc n) now timeout (deadline_from now stallAfter)
        (take (Suc n) (fst y)) = Some (decide_all cx y now timeout (deadline_from now stallAfter))"
      using Suc.hyps(2) n by (intro Suc.hyps(1)) auto
    then show ?thesis using None item take by (subst wait_loop.simps) (simp add: next_stream_ready)
  next
    case (Some o')
    have "fst y = take n (fst y) @ ?ev # drop (Suc n) (fst y)" using n by (rule id_take_nth_drop)
    then have "first_evidence cx (fst y) = Some (take n (fst y) @ [?ev], o')"
      using first_evidence_append [OF Suc.prems(2), of "?ev # drop (Suc n) (fst y)"] Some by simp
    then show ?thesis using Some item
      by (subst wait_loop.simps) (simp add: next_stream_ready decide_all_def)
  qed
qed

definition search_wait ::
  "wait_request \<Rightarrow> (js_error + capture) result \<Rightarrow> mon_snapshot result
     \<Rightarrow> (watch_request \<Rightarrow> json_object list \<times> js_error option) \<Rightarrow> int \<Rightarrow> wait_answer result" where
  "search_wait req cap snap watch now =
     then_do (assert_condition_selector req) (\<lambda>_. then_do cap (\<lambda>r. then_do (capture_or_throw r) (\<lambda>c.
       then_do snap (\<lambda>sn. let cx = \<lparr>cx_condition = wq_condition req, cx_selector = wq_selector req, cx_capture = c\<rparr> in
         case evaluate_start_snapshot cx sn of
           Some o' \<Rightarrow> Inr (with_completed_event cx o' [] now)
         | None \<Rightarrow> decide_all cx (watch (watch_of req c)) now
             (deadline_from now (wq_timeout req)) (deadline_from now (wq_stall req))))))"

text \<open>
  The reader a wait uses. Its contract: a follow opens with a snapshot item, which is no evidence.
\<close>

locale follow_reader =
  fixes watch :: "'st \<Rightarrow> watch_request \<Rightarrow> json_object list \<times> js_error option"
  assumes opens: "wr_follow w \<Longrightarrow> fst (watch st w) \<noteq> [] \<Longrightarrow>
    event_kind (hd (fst (watch st w))) = Some ''monitor.snapshot''"
begin

lemma opening_is_no_evidence:
  assumes "wr_follow w"
  shows "map_option snd (first_evidence cx (fst (watch st w)))
    = map_option snd (first_evidence cx (tl (fst (watch st w))))"
proof (cases "fst (watch st w)")
  case (Cons ev evs)
  then have "evaluate_event cx ev = None" using opens [OF assms, of st] by (simp add: evaluate_event_def)
  then show ?thesis using Cons by (simp add: option.map_comp comp_def split_beta)
qed simp

lemma wait_searches:
  "monitor_wait req cap snap (\<lambda>w. yields_at_once (watch st w) now) now
    = Some (search_wait req cap snap (watch st) now)"
  using wait_loop_at_once [where n = 0]
  by (auto simp: monitor_wait_def search_wait_def Let_def then_do_def split: sum.splits option.splits)

end

text \<open>The model's reader, as the properties its items show.\<close>

definition reader_watch :: "monitor_env \<times> mon_state \<Rightarrow> watch_request \<Rightarrow> json_object list \<times> js_error option" where
  "reader_watch = (\<lambda>(env, st) w. map_prod (map item_fields) id (watch_events env st w))"

interpretation reader: follow_reader reader_watch
  by unfold_locales (auto simp: reader_watch_def watch_events_def Let_def event_kind_def jstring_def
      split: sum.splits)

text \<open>A wait of the engine over the reader of one state (\<open>createMonitorReader\<close>).\<close>

definition reader_wait :: "monitor_env \<Rightarrow> mon_state \<Rightarrow> wait_request \<Rightarrow> int \<Rightarrow> wait_answer result option" where
  "reader_wait env st req now =
     monitor_wait req (capture_start env st (wq_selector req)) (snapshot_state env st (Some (wq_selector req)))
       (\<lambda>w. yields_at_once (reader_watch (env, st) w) now) now"

text \<open>
  C38. A wait over the reader of a state always returns, and its answer is that of a plain search.
  After the refusals of the selector, the capture and the snapshot, and unless the snapshot already
  decides, the answer is the first event of the replay that decides the condition, at once; without
  one it is the error that ended the replay, or the timer that is due first, or a monitor error when
  there is no timer. The opening snapshot of the replay is never the evidence.
\<close>

theorem reader_wait_is_first_evidence:
  "reader_wait env st req now = Some (search_wait req (capture_start env st (wq_selector req))
      (snapshot_state env st (Some (wq_selector req))) (reader_watch (env, st)) now)
   \<and> map_option snd (first_evidence cx (fst (reader_watch (env, st) (watch_of req c))))
     = map_option snd (first_evidence cx (tl (fst (reader_watch (env, st) (watch_of req c)))))"
  unfolding reader_wait_def
  by (rule conjI [OF reader.wait_searches reader.opening_is_no_evidence]) (simp add: watch_of_def)

text \<open>A failed turn is reported as such, and the turn before it is not taken for it.\<close>

definition busy_state :: mon_state where
  "busy_state = example_state\<lparr>st_runtimes := [(example_runtime ''h1'')\<lparr>mr_status := ''busy'', mr_turn := Some ''t1''\<rparr>],
     st_events := [
       \<lparr>me_seq = 7, me_identity = None, me_fields = [(''event'', JStr ''turn.finished''),
          (''runtimeId'', JStr ''rt-h1''), (''turnId'', JStr ''t0'')]\<rparr>,
       \<lparr>me_seq = 7, me_identity = None, me_fields = [(''event'', JStr ''turn.finished''),
          (''runtimeId'', JStr ''rt-h1''), (''turnId'', JStr ''t1''), (''result'', JStr ''turn_failed''),
          (''failureKind'', JStr ''tool'')]\<rparr>]\<rparr>"

definition busy_wait :: wait_request where
  "busy_wait = \<lparr>wq_selector = Runtime ''runtime:rt-h1'' ''rt-h1'', wq_condition = Until_Turn_Finished,
     wq_timeout = Some 100, wq_stall = None\<rparr>"

lemma failed_turn_example:
  "answer_summary (reader_wait example_env busy_state busy_wait 1000) = Some (''turn_failed'', 13, 4, 1000)"
  by code_simp

section \<open>Success rests on evidence\<close>

text \<open>The event that satisfies a condition.\<close>

fun satisfied_by :: "condition \<Rightarrow> wait_context \<Rightarrow> json_object \<Rightarrow> bool" where
  "satisfied_by Until_Turn_Finished cx ev = (event_kind ev = Some ''turn.finished'' \<and> same_captured_turn cx ev
     \<and> result_value ev ''turn_succeeded'' \<notin> {''turn_failed'', ''runtime_dead'', ''runtime_crashed''})"
| "satisfied_by Until_Idle cx ev = (event_kind ev = Some ''runtime.idle'' \<and> same_runtime cx ev)"
| "satisfied_by Until_Busy cx ev = (event_kind ev = Some ''runtime.busy'' \<and> same_runtime cx ev)"
| "satisfied_by Until_Response cx ev =
     (event_kind ev = Some ''message.response'' \<and> message_response_matches_selector cx ev)"
| "satisfied_by Until_Runtime_Dead cx ev =
     (event_kind ev \<in> {Some ''runtime.dead'', Some ''runtime.crashed''} \<and> same_runtime cx ev)"

text \<open>An event that ends any wait without success.\<close>

definition obstructs :: "wait_context \<Rightarrow> json_object \<Rightarrow> bool" where
  "obstructs cx ev = (event_kind ev \<noteq> Some ''monitor.snapshot'' \<and> (evaluate_context_changed cx ev \<noteq> None
     \<or> cx_condition cx \<noteq> Until_Runtime_Dead \<and> event_kind ev \<in> {Some ''runtime.dead'', Some ''runtime.crashed''}
       \<and> same_runtime cx ev))"

lemma outcome_of_fields [simp]:
  "co_outcome (outcome_of r out code) = out" "co_exit (outcome_of r out code) = code"
  "co_result (outcome_of r out code) = r"
  by (simp_all add: outcome_of_def)

lemma context_changed_outcome:
  "evaluate_context_changed cx ev = Some o' \<Longrightarrow> co_outcome o' = Not_Matched \<and> co_exit o' = exit_context_changed"
  by (auto simp: evaluate_context_changed_def context_changed_def Let_def split: if_splits)

lemma runtime_death_None:
  "runtime_death_outcome cx ev = None \<longleftrightarrow>
     \<not> (event_kind ev \<in> {Some ''runtime.dead'', Some ''runtime.crashed''} \<and> same_runtime cx ev)"
  by (auto simp: runtime_death_outcome_def Let_def)

lemma runtime_death_Some:
  "runtime_death_outcome cx ev = Some o' \<Longrightarrow>
     co_outcome o' = (if cx_condition cx = Until_Runtime_Dead then Success else Not_Matched)
     \<and> co_exit o' = (if cx_condition cx = Until_Runtime_Dead then exit_ok else exit_obstruction)"
  by (auto simp: runtime_death_outcome_def Let_def split: if_splits)

lemma strategy_success:
  "strategy_event (cx_condition cx) cx ev = Some o' \<Longrightarrow> co_outcome o' = Success \<Longrightarrow>
     satisfied_by (cx_condition cx) cx ev"
  by (cases "cx_condition cx")
    (auto simp: evaluate_turn_finished_def evaluate_response_def runtime_death_outcome_def Let_def
      split: if_splits)

lemma evaluate_event_Some:
  "evaluate_event cx ev = Some o' \<Longrightarrow> event_kind ev \<noteq> Some ''monitor.snapshot''
     \<and> (evaluate_context_changed cx ev = Some o'
        \<or> evaluate_context_changed cx ev = None
          \<and> (cx_condition cx \<noteq> Until_Runtime_Dead \<and> runtime_death_outcome cx ev = Some o'
             \<or> (cx_condition cx = Until_Runtime_Dead \<or> runtime_death_outcome cx ev = None)
               \<and> strategy_event (cx_condition cx) cx ev = Some o'))"
  by (cases "evaluate_context_changed cx ev"; cases "runtime_death_outcome cx ev")
    (auto simp: evaluate_event_def split: if_splits)

lemma success_evidence:
  assumes "evaluate_event cx ev = Some o'" "co_outcome o' = Success"
  shows "satisfied_by (cx_condition cx) cx ev \<and> \<not> obstructs cx ev"
proof -
  have "evaluate_context_changed cx ev = None"
    "cx_condition cx = Until_Runtime_Dead \<or> runtime_death_outcome cx ev = None"
    "strategy_event (cx_condition cx) cx ev = Some o'"
    using evaluate_event_Some [OF assms(1)] assms(2)
    by (auto dest: context_changed_outcome runtime_death_Some)
  then show ?thesis using strategy_success assms(2) by (auto simp: obstructs_def runtime_death_None)
qed

lemma no_evidence_no_obstruction: "evaluate_event cx ev = None \<Longrightarrow> \<not> obstructs cx ev"
  by (auto simp: evaluate_event_def obstructs_def runtime_death_None split: if_splits)

lemma undecided_no_success: "o' \<in> undecided \<Longrightarrow> co_outcome o' \<noteq> Success"
  by (auto simp: undecided_def)

text \<open>An answered wait was decided at its start, or by its loop.\<close>

lemma answered_wait:
  assumes "monitor_wait req cap snap source now = Some (Inr a)"
  obtains c sn cx where "cap = Inr (Inr c)" "snap = Inr sn"
    "cx = \<lparr>cx_condition = wq_condition req, cx_selector = wq_selector req, cx_capture = c\<rparr>"
    "evaluate_start_snapshot cx sn = Some (wa_outcome a) \<and> wa_stream a = [completed_event cx (wa_outcome a) (wa_at a)]
     \<or> evaluate_start_snapshot cx sn = None \<and> reports cx (source (watch_of req c)) 0 [] a"
proof -
  obtain c sn where c: "cap = Inr (Inr c)" "snap = Inr sn" "assert_condition_selector req = Inr ()"
    using assms by (auto simp: monitor_wait_def capture_or_throw_def then_do_def Let_def split: sum.splits)
  then show ?thesis
    using assms wait_loop_reports [of _ _ "source (watch_of req c)"]
    by (intro that [OF c(1,2) refl])
      (auto simp: monitor_wait_def capture_or_throw_def with_completed_event_def Let_def split: option.splits)
qed

text \<open>
  C15. A wait succeeds only on evidence of what it waits for. If a wait, over any reader and any
  timing of its stream, answers success, then either the state at its start already satisfied the
  condition and nothing was read, or the last event it read satisfies the condition for the captured
  runtime, turn or message, and no event up to that one reported a changed context of the captured
  session or, unless it is the condition, the death of the captured runtime.
\<close>

theorem wait_succeeds_on_evidence:
  assumes wait: "monitor_wait req cap snap source now = Some (Inr a)" and ok: "co_outcome (wa_outcome a) = Success"
  shows "\<exists>c sn cx read. cap = Inr (Inr c) \<and> snap = Inr sn
     \<and> cx = \<lparr>cx_condition = wq_condition req, cx_selector = wq_selector req, cx_capture = c\<rparr>
     \<and> wa_stream a = read @ [completed_event cx (wa_outcome a) (wa_at a)]
     \<and> (read = [] \<and> evaluate_start_snapshot cx sn = Some (wa_outcome a)
        \<or> read \<noteq> [] \<and> supplies (source (watch_of req c)) 0 read \<and> satisfied_by (wq_condition req) cx (last read)
          \<and> (\<forall>ev \<in> set read. \<not> obstructs cx ev))"
proof -
  obtain c sn cx where c: "cap = Inr (Inr c)" "snap = Inr sn"
    and cx: "cx = \<lparr>cx_condition = wq_condition req, cx_selector = wq_selector req, cx_capture = c\<rparr>"
    and how: "evaluate_start_snapshot cx sn = Some (wa_outcome a) \<and> wa_stream a = [completed_event cx (wa_outcome a) (wa_at a)]
     \<or> evaluate_start_snapshot cx sn = None \<and> reports cx (source (watch_of req c)) 0 [] a"
    using wait by (rule answered_wait)
  show ?thesis
  proof (cases "reports cx (source (watch_of req c)) 0 [] a")
    case True
    then obtain read where r: "supplies (source (watch_of req c)) 0 read"
      "wa_stream a = read @ [completed_event cx (wa_outcome a) (wa_at a)]"
      "first_evidence cx read = Some (read, wa_outcome a)"
      unfolding reports_def using ok undecided_no_success by auto
    obtain b ev where b: "read = b @ [ev]" "evaluate_event cx ev = Some (wa_outcome a)"
      "\<forall>e \<in> set b. evaluate_event cx e = None"
      using first_evidence_Some [OF r(3)] by auto
    then have "satisfied_by (wq_condition req) cx (last read) \<and> (\<forall>e \<in> set read. \<not> obstructs cx e)"
      using success_evidence [OF b(2) ok] no_evidence_no_obstruction cx by auto
    then show ?thesis using c r b cx by blast
  next
    case False
    then show ?thesis using how c cx by (intro exI [of _ c] exI [of _ sn] exI [of _ cx] exI [of _ "[]"]) simp
  qed
qed

text \<open>A finished turn of another runtime, then the awaited one.\<close>

definition finishing :: event_source where
  "finishing = \<lparr>es_item = (\<lambda>n. if n = 0 then Event_At [(''event'', JStr ''turn.finished''), (''turnId'', JStr ''t0'')] 1010
     else if n = 1 then Event_At [(''event'', JStr ''turn.finished''), (''turnId'', JStr ''t1'')] 1200 else Never),
     es_tie = (\<lambda>_. False)\<rparr>"

theorem wait_succeeds_on_evidence_witness:
  "\<exists>a cx read. monitor_wait (example_wait None (Some 300)) (Inr (Inr example_capture)) (Inr example_snapshot)
      (\<lambda>_. finishing) 1000 = Some (Inr a)
    \<and> wa_stream a = read @ [completed_event cx (wa_outcome a) (wa_at a)]
    \<and> length read = 2 \<and> satisfied_by Until_Turn_Finished cx (last read)"
proof -
  let ?w = "monitor_wait (example_wait None (Some 300)) (Inr (Inr example_capture)) (Inr example_snapshot)
      (\<lambda>_. finishing) 1000"
  have "(case ?w of Some (Inr a) \<Rightarrow> co_outcome (wa_outcome a) = Success \<and> length (wa_stream a) = 3 | _ \<Rightarrow> False)"
    by code_simp
  then obtain a where a: "?w = Some (Inr a)" "co_outcome (wa_outcome a) = Success" "length (wa_stream a) = 3"
    by (auto split: option.splits sum.splits)
  obtain cx read where r: "wa_stream a = read @ [completed_event cx (wa_outcome a) (wa_at a)]"
    "read = [] \<or> satisfied_by Until_Turn_Finished cx (last read)"
    using wait_succeeds_on_evidence [OF a(1,2)] by (auto simp: example_wait_def)
  then have "length read = 2" using a(3) by simp
  then show ?thesis using a(1) r by auto
qed

section \<open>The terminal event\<close>

text \<open>The exit codes of each outcome.\<close>

fun exits_of :: "wait_outcome \<Rightarrow> int set" where
  "exits_of Success = {exit_ok, exit_already_true}"
| "exits_of Not_Matched = {exit_obstruction, exit_timeout, exit_stalled, exit_context_changed}"
| "exits_of Observed_Failure = {exit_terminal_failure}"
| "exits_of Monitor_Error = {exit_monitor_error}"

definition exit_agrees :: "condition_outcome \<Rightarrow> bool" where
  "exit_agrees o' = (co_exit o' \<in> exits_of (co_outcome o'))"

lemma start_exit_agrees: "evaluate_start_snapshot cx sn = Some o' \<Longrightarrow> exit_agrees o'"
  by (cases "cx_condition cx") (auto simp: evaluate_start_snapshot_def exit_agrees_def split: if_splits)

lemma strategy_exit_agrees: "strategy_event (cx_condition cx) cx ev = Some o' \<Longrightarrow> exit_agrees o'"
  by (cases "cx_condition cx")
    (auto simp: exit_agrees_def evaluate_turn_finished_def evaluate_response_def Let_def
      dest: runtime_death_Some split: if_splits)

lemma context_exit_agrees: "evaluate_context_changed cx ev = Some o' \<Longrightarrow> exit_agrees o'"
  by (auto simp: exit_agrees_def dest: context_changed_outcome)

lemma death_exit_agrees: "runtime_death_outcome cx ev = Some o' \<Longrightarrow> exit_agrees o'"
  by (auto simp: exit_agrees_def dest: runtime_death_Some)

lemma evaluate_exit_agrees: "evaluate_event cx ev = Some o' \<Longrightarrow> exit_agrees o'"
  using evaluate_event_Some [of cx ev o'] context_exit_agrees death_exit_agrees strategy_exit_agrees by blast

lemma undecided_exit_agrees: "o' \<in> undecided \<Longrightarrow> exit_agrees o'"
  by (auto simp: undecided_def exit_agrees_def)

lemma reports_exit_agrees: "reports cx src n evs a \<Longrightarrow> exit_agrees (wa_outcome a)"
  by (auto simp: reports_def dest!: first_evidence_Some intro: evaluate_exit_agrees undecided_exit_agrees)

lemma reports_terminal_event:
  "reports cx src n evs a \<Longrightarrow> \<exists>read. wa_stream a = read @ [completed_event cx (wa_outcome a) (wa_at a)]"
  by (auto simp: reports_def)

lemma completed_event_fields:
  "jstring (completed_event cx o' t) ''outcome'' = Some (outcome_name (co_outcome o'))"
  "jstring (completed_event cx o' t) ''result'' = Some (co_result o')"
  "jnumber (completed_event cx o' t) ''exitCode'' = Some (co_exit o')"
  "jstring (completed_event cx o' t) ''event'' =
     Some (if co_result o' = ''stalled'' then ''monitor.stalled'' else ''monitor.completed'')"
  by (auto simp: completed_event_def jstring_def jnumber_def optional_property_def jget_append split: option.splits)

text \<open>
  Every answered wait closes its event stream with one terminal event that says what the answer
  says. The last event carries the result, the outcome and the exit code of the answer, the code is
  one of those of its outcome (0 or 10 for success, 12, 20, 21 or 22 for no match, 13 for an observed
  failure, 23 for a monitor error), and it is named \<open>monitor.stalled\<close> exactly for the result
  \<open>stalled\<close>, else \<open>monitor.completed\<close>.
\<close>

theorem wait_answer_matches_terminal_event:
  assumes wait: "monitor_wait req cap snap source now = Some (Inr a)"
  shows "wa_stream a \<noteq> []
    \<and> jstring (last (wa_stream a)) ''result'' = Some (co_result (wa_outcome a))
    \<and> jstring (last (wa_stream a)) ''outcome'' = Some (outcome_name (co_outcome (wa_outcome a)))
    \<and> jnumber (last (wa_stream a)) ''exitCode'' = Some (co_exit (wa_outcome a))
    \<and> co_exit (wa_outcome a) \<in> exits_of (co_outcome (wa_outcome a))
    \<and> jstring (last (wa_stream a)) ''event'' =
        Some (if co_result (wa_outcome a) = ''stalled'' then ''monitor.stalled'' else ''monitor.completed'')"
proof -
  have "\<exists>cx read. wa_stream a = read @ [completed_event cx (wa_outcome a) (wa_at a)] \<and> exit_agrees (wa_outcome a)"
    using wait
  proof (rule answered_wait)
    fix c sn cx
    assume "evaluate_start_snapshot cx sn = Some (wa_outcome a) \<and> wa_stream a = [completed_event cx (wa_outcome a) (wa_at a)]
      \<or> evaluate_start_snapshot cx sn = None \<and> reports cx (source (watch_of req c)) 0 [] a"
    then show ?thesis using start_exit_agrees reports_exit_agrees reports_terminal_event append_Nil by metis
  qed
  then show ?thesis by (auto simp: completed_event_fields exit_agrees_def)
qed

theorem wait_answer_matches_terminal_event_witness:
  "\<exists>a. monitor_wait (example_wait None (Some 50)) (Inr (Inr example_capture)) (Inr example_snapshot)
      (\<lambda>_. finishing) 1000 = Some (Inr a)
    \<and> jnumber (last (wa_stream a)) ''exitCode'' = Some 21
    \<and> jstring (last (wa_stream a)) ''event'' = Some ''monitor.stalled''"
proof -
  let ?w = "monitor_wait (example_wait None (Some 50)) (Inr (Inr example_capture)) (Inr example_snapshot)
      (\<lambda>_. finishing) 1000"
  have "(case ?w of Some (Inr a) \<Rightarrow> co_result (wa_outcome a) = ''stalled'' \<and> co_exit (wa_outcome a) = 21 | _ \<Rightarrow> False)"
    by code_simp
  then obtain a where a: "?w = Some (Inr a)" "co_result (wa_outcome a) = ''stalled''" "co_exit (wa_outcome a) = 21"
    by (auto split: option.splits sum.splits)
  then show ?thesis using wait_answer_matches_terminal_event [OF a(1)] by auto
qed

end
