(* ===== verification/Authority_Lock.thy ===== *)
theory Authority_Lock
  imports HRC_Prelude
begin

text \<open>
  The in-process locks around the birth of a session
  (hrc-server/src/federation/authority-lock.ts): a lock per scope that summons share and a
  retirement holds alone, and inside it a chain of promises per scope and lane that lets one mint
  run at a time. The claim mutex (\<open>withScopeClaimMutex\<close> of hrc-server/src/scope-claim-core.ts) is a
  chain of the same shape. An operation is split where it suspends: it enters (and may wait), is
  let in, and leaves in its \<open>finally\<close>.
\<close>

section \<open>The lock of a scope\<close>

datatype lock_kind = Summon | Retirement

record scope_lock =
  sl_readers :: int
  sl_writer :: bool
  sl_queue :: "(lock_kind \<times> nat) list"

definition fresh_lock :: scope_lock where
  "fresh_lock = \<lparr>sl_readers = 0, sl_writer = False, sl_queue = []\<rparr>"

definition acquire :: "scope_lock \<Rightarrow> lock_kind \<Rightarrow> nat \<Rightarrow> scope_lock \<times> bool" where
  "acquire lock kind i =
     (let writerQueued = list_ex (\<lambda>x. fst x = Retirement) (sl_queue lock) in
      if kind = Summon \<and> \<not> sl_writer lock \<and> \<not> writerQueued
      then (lock\<lparr>sl_readers := sl_readers lock + 1\<rparr>, True)
      else if kind = Retirement \<and> \<not> sl_writer lock \<and> sl_readers lock = 0 \<and> sl_queue lock = []
      then (lock\<lparr>sl_writer := True\<rparr>, True)
      else (lock\<lparr>sl_queue := sl_queue lock @ [(kind, i)]\<rparr>, False))"

text \<open>The loop that lets every summon in front of the queue in; the waiters made ready, in order.\<close>

fun admit_summons :: "(lock_kind \<times> nat) list \<Rightarrow> (lock_kind \<times> nat) list \<times> (lock_kind \<times> nat) list" where
  "admit_summons ((Summon, i) # queue) = (let (ready, rest) = admit_summons queue in ((Summon, i) # ready, rest))"
| "admit_summons queue = ([], queue)"

definition drain :: "scope_lock \<Rightarrow> scope_lock \<times> (lock_kind \<times> nat) list" where
  "drain lock =
     (if sl_writer lock \<or> 0 < sl_readers lock then (lock, [])
      else case sl_queue lock of
        [] \<Rightarrow> (lock, [])
      | (Retirement, i) # queue \<Rightarrow> (lock\<lparr>sl_queue := queue, sl_writer := True\<rparr>, [(Retirement, i)])
      | queue \<Rightarrow> (let (ready, rest) = admit_summons queue in
          (lock\<lparr>sl_readers := sl_readers lock + int (length ready), sl_queue := rest\<rparr>, ready)))"

definition release :: "scope_lock \<Rightarrow> lock_kind \<Rightarrow> scope_lock \<times> (lock_kind \<times> nat) list" where
  "release lock kind = drain (if kind = Summon then lock\<lparr>sl_readers := sl_readers lock - 1\<rparr> else lock\<lparr>sl_writer := False\<rparr>)"

definition idle_lock :: "scope_lock \<Rightarrow> bool" where
  "idle_lock lock = (\<not> sl_writer lock \<and> sl_readers lock = 0 \<and> sl_queue lock = [])"

text \<open>
  The map of locks of one owner and the operations inside; each step answers who it let in.
\<close>

record scope_locks =
  lw_locks :: "(string \<times> scope_lock) list"
  lw_inside :: "(string \<times> lock_kind \<times> nat) list"

definition no_locks :: scope_locks where
  "no_locks = \<lparr>lw_locks = [], lw_inside = []\<rparr>"

definition lock_at :: "scope_locks \<Rightarrow> string \<Rightarrow> scope_lock" where
  "lock_at w scope = or_default (map_of (lw_locks w) scope) fresh_lock"

definition enter_scope :: "string \<Rightarrow> lock_kind \<Rightarrow> nat \<Rightarrow> scope_locks \<Rightarrow> scope_locks \<times> (string \<times> lock_kind \<times> nat) list" where
  "enter_scope scope kind i w =
     (let (lock, granted) = acquire (lock_at w scope) kind i; let_in = (if granted then [(scope, kind, i)] else []) in
      (w\<lparr>lw_locks := map_set scope lock (lw_locks w), lw_inside := lw_inside w @ let_in\<rparr>, let_in))"

definition leave_scope :: "string \<Rightarrow> lock_kind \<Rightarrow> nat \<Rightarrow> scope_locks \<Rightarrow> scope_locks \<times> (string \<times> lock_kind \<times> nat) list" where
  "leave_scope scope kind i w =
     (let (lock, ready) = release (lock_at w scope) kind; let_in = map (Pair scope) ready in
      (w\<lparr>lw_locks := (if idle_lock lock then filter (\<lambda>(k, _). k \<noteq> scope) (lw_locks w) else map_set scope lock (lw_locks w)),
         lw_inside := remove1 (scope, kind, i) (lw_inside w) @ let_in\<rparr>, let_in))"

datatype scope_lock_op = Enter string lock_kind nat | Leave string lock_kind nat

fun scope_lock_step :: "scope_lock_op \<Rightarrow> scope_locks \<Rightarrow> scope_locks \<times> (string \<times> lock_kind \<times> nat) list" where
  "scope_lock_step (Enter scope kind i) w = enter_scope scope kind i w"
| "scope_lock_step (Leave scope kind i) w = leave_scope scope kind i w"

text \<open>Only an operation that is inside leaves.\<close>

fun scope_lock_allowed :: "scope_lock_op \<Rightarrow> scope_locks \<Rightarrow> bool" where
  "scope_lock_allowed (Enter scope kind i) w = True"
| "scope_lock_allowed (Leave scope kind i) w = ((scope, kind, i) \<in> set (lw_inside w))"

fun lock_grants :: "scope_lock_op list \<Rightarrow> scope_locks \<Rightarrow> (string \<times> lock_kind \<times> nat) list" where
  "lock_grants [] w = []"
| "lock_grants (l # ls) w = snd (scope_lock_step l w) @ lock_grants ls (fst (scope_lock_step l w))"

section \<open>One lock\<close>

definition lock_ok :: "scope_lock \<Rightarrow> (lock_kind \<times> nat) list \<Rightarrow> bool" where
  "lock_ok l ins = (sl_readers l = int (length (filter (\<lambda>x. fst x = Summon) ins))
     \<and> sl_writer l = list_ex (\<lambda>x. fst x = Retirement) ins
     \<and> (sl_writer l \<longrightarrow> length ins = 1)
     \<and> (sl_queue l \<noteq> [] \<longrightarrow> sl_writer l \<or> (0 < sl_readers l \<and> fst (hd (sl_queue l)) = Retirement)))"

lemma lock_kind_cases: "k \<noteq> Summon \<longleftrightarrow> k = Retirement" "k \<noteq> Retirement \<longleftrightarrow> k = Summon"
  by (cases k; simp)+

lemma lock_ok_empty_inside: "lock_ok l ins \<Longrightarrow> ins = [] \<Longrightarrow> idle_lock l"
  by (auto simp: lock_ok_def idle_lock_def)

lemma lock_ok_no_writer:
  assumes "lock_ok l ins" "\<not> sl_writer l"
  shows "sl_readers l = int (length ins)"
proof -
  have "filter (\<lambda>x. fst x = Summon) ins = ins"
    using assms by (intro filter_True) (auto simp: lock_ok_def list_ex_iff lock_kind_cases)
  then show ?thesis using assms(1) by (simp add: lock_ok_def)
qed

lemma lock_ok_idle: "lock_ok l ins \<Longrightarrow> idle_lock l \<longleftrightarrow> ins = []"
  using lock_ok_empty_inside [of l ins] lock_ok_no_writer [of l ins] by (auto simp: idle_lock_def)

text \<open>A grant finds nobody waiting.\<close>

lemma acquire_ok:
  assumes "lock_ok l ins" "acquire l k i = (l', g)"
  shows "lock_ok l' (if g then ins @ [(k, i)] else ins)"
    "if g then sl_queue l = [] \<and> sl_queue l' = [] else sl_queue l' = sl_queue l @ [(k, i)]"
proof -
  have q: "sl_queue l = []" if "\<not> sl_writer l" "\<not> list_ex (\<lambda>x. fst x = Retirement) (sl_queue l)"
    using assms(1) that by (cases "sl_queue l") (auto simp: lock_ok_def)
  have r: "ins = []" if "\<not> sl_writer l" "sl_readers l = 0"
    using lock_ok_no_writer [OF assms(1) that(1)] that(2) by simp
  have w: "0 < sl_readers l" if "\<not> sl_writer l" "sl_readers l \<noteq> 0"
    using lock_ok_no_writer [OF assms(1) that(1)] that(2) by simp
  have "l' = l\<lparr>sl_readers := sl_readers l + 1\<rparr> \<and> g \<and> k = Summon \<and> \<not> sl_writer l \<and> sl_queue l = []
      \<or> l' = l\<lparr>sl_writer := True\<rparr> \<and> g \<and> k = Retirement \<and> \<not> sl_writer l \<and> ins = [] \<and> sl_queue l = []
      \<or> l' = l\<lparr>sl_queue := sl_queue l @ [(k, i)]\<rparr> \<and> \<not> g
        \<and> (sl_writer l \<or> sl_queue l \<noteq> [] \<or> (k = Retirement \<and> 0 < sl_readers l))"
    using assms(2) q r w by (cases k) (auto simp: acquire_def Let_def split: if_splits)
  then show "lock_ok l' (if g then ins @ [(k, i)] else ins)"
  proof (elim disjE conjE)
    assume "l' = l\<lparr>sl_readers := sl_readers l + 1\<rparr>" "g" "k = Summon" "\<not> sl_writer l" "sl_queue l = []"
    then show ?thesis using assms(1) by (simp add: lock_ok_def)
  next
    assume "l' = l\<lparr>sl_writer := True\<rparr>" "g" "k = Retirement" "\<not> sl_writer l" "ins = []" "sl_queue l = []"
    then show ?thesis using assms(1) by (simp add: lock_ok_def)
  qed (use assms(1) in \<open>auto simp: lock_ok_def hd_append\<close>)
  show "if g then sl_queue l = [] \<and> sl_queue l' = [] else sl_queue l' = sl_queue l @ [(k, i)]"
    using assms q by (auto simp: acquire_def Let_def split: if_splits)
qed

lemma admit_summons_split: "admit_summons q = (ready, rest) \<Longrightarrow>
    q = ready @ rest \<and> list_all (\<lambda>x. fst x = Summon) ready \<and> (rest \<noteq> [] \<longrightarrow> fst (hd rest) = Retirement)
    \<and> (q \<noteq> [] \<and> fst (hd q) = Summon \<longrightarrow> ready \<noteq> [])"
proof (induction q arbitrary: ready rest rule: admit_summons.induct)
  case (1 i queue)
  then show ?case by (auto simp: Let_def split: prod.splits)
qed auto

text \<open>What the queue lost is what was let in, in order.\<close>

lemma drain_ok:
  assumes "sl_readers l = int (length (filter (\<lambda>x. fst x = Summon) ins))"
    "sl_writer l = list_ex (\<lambda>x. fst x = Retirement) ins" "sl_writer l \<longrightarrow> length ins = 1"
    "sl_queue l \<noteq> [] \<and> ins \<noteq> [] \<longrightarrow> fst (hd (sl_queue l)) = Retirement" "drain l = (l', ready)"
  shows "lock_ok l' (ins @ ready) \<and> sl_queue l = ready @ sl_queue l'"
proof (cases "sl_writer l \<or> 0 < sl_readers l")
  case True
  then have "ins \<noteq> []" using assms(1,2) by auto
  then show ?thesis using True assms by (auto simp: drain_def lock_ok_def)
next
  case False
  then have "filter (\<lambda>x. fst x = Summon) ins = []" "\<not> list_ex (\<lambda>x. fst x = Retirement) ins"
    using assms(1,2) by auto
  then have ins: "ins = []" by (cases ins) (auto simp: lock_kind_cases split: if_splits)
  show ?thesis
  proof (cases "sl_queue l")
    case (Cons w queue)
    obtain k i where w: "w = (k, i)" by (cases w)
    show ?thesis
    proof (cases k)
      case Summon
      obtain rd rest where a: "admit_summons (sl_queue l) = (rd, rest)" by (cases "admit_summons (sl_queue l)")
      note s = admit_summons_split [OF a]
      have f: "filter (\<lambda>x. fst x = Summon) rd = rd" "\<not> list_ex (\<lambda>x. fst x = Retirement) rd"
        using s by (auto simp: list_all_iff list_ex_iff intro!: filter_True)
      have "l' = l\<lparr>sl_readers := sl_readers l + int (length rd), sl_queue := rest\<rparr>" "ready = rd"
        using assms(5) False a Cons w Summon by (auto simp: drain_def)
      then show ?thesis
        using False ins s f Cons w Summon assms(1) by (auto simp: lock_ok_def)
    next
      case Retirement
      then show ?thesis using False ins Cons w assms(1,5) by (auto simp: drain_def lock_ok_def)
    qed
  qed (use False ins assms(1,5) in \<open>auto simp: drain_def lock_ok_def\<close>)
qed

lemma release_ok:
  assumes ok: "lock_ok l ins" and i: "(k, i) \<in> set ins" and r: "release l k = (l', ready)"
  shows "lock_ok l' (remove1 (k, i) ins @ ready) \<and> sl_queue l = ready @ sl_queue l'"
proof -
  let ?ins = "remove1 (k, i) ins" and ?l = "if k = Summon then l\<lparr>sl_readers := sl_readers l - 1\<rparr> else l\<lparr>sl_writer := False\<rparr>"
  have len: "length ?ins = length ins - 1" "0 < length ins" using i by (auto simp: length_remove1 length_pos_if_in_set)
  have drain: "drain ?l = (l', ready)" using r by (simp add: release_def)
  have "sl_readers ?l = int (length (filter (\<lambda>x. fst x = Summon) ?ins)) \<and> sl_writer ?l = list_ex (\<lambda>x. fst x = Retirement) ?ins
      \<and> (sl_writer ?l \<longrightarrow> length ?ins = 1) \<and> (sl_queue ?l \<noteq> [] \<and> ?ins \<noteq> [] \<longrightarrow> fst (hd (sl_queue ?l)) = Retirement)"
  proof (cases k)
    case Summon
    then have nw: "\<not> sl_writer l"
      using ok i by (cases ins) (auto simp: lock_ok_def)
    then have "set ins \<subseteq> {(k, i). k = Summon}" using ok by (auto simp: lock_ok_def list_ex_iff lock_kind_cases)
    then have sub: "\<forall>x \<in> set ?ins. fst x = Summon" using set_remove1_subset [of "(k, i)" ins] by auto
    then have all: "filter (\<lambda>x. fst x = Summon) ?ins = ?ins" "\<not> list_ex (\<lambda>x. fst x = Retirement) ?ins"
      by (auto simp: list_ex_iff intro!: filter_True)
    have "sl_readers l = int (length ins)" using lock_ok_no_writer [OF ok nw] .
    then have "sl_readers l - 1 = int (length ?ins)" using len by (simp add: of_nat_diff Suc_leI)
    then show ?thesis using Summon nw all ok by (auto simp: lock_ok_def)
  next
    case Retirement
    have "list_ex (\<lambda>x. fst x = Retirement) ins" using i Retirement by (force simp: list_ex_iff)
    then have "sl_writer l" "length ins = 1" using ok by (simp_all add: lock_ok_def)
    then have "?ins = []" "filter (\<lambda>x. fst x = Summon) ins = []"
      using i Retirement by (auto simp: length_Suc_conv)
    then show ?thesis using Retirement ok by (simp add: lock_ok_def)
  qed
  then show ?thesis using drain_ok [OF _ _ _ _ drain] by (auto split: if_splits)
qed

section \<open>All locks\<close>

definition inside_of :: "scope_locks \<Rightarrow> string \<Rightarrow> (lock_kind \<times> nat) list" where
  "inside_of w scope = map snd (filter (\<lambda>x. fst x = scope) (lw_inside w))"

text \<open>A scope has an entry exactly while somebody is inside.\<close>

definition world_ok :: "scope_locks \<Rightarrow> bool" where
  "world_ok w = (\<forall>scope. lock_ok (lock_at w scope) (inside_of w scope)
     \<and> (map_of (lw_locks w) scope = None \<longleftrightarrow> inside_of w scope = []))"

lemma of_scope_remove1: "map snd (filter (\<lambda>x. fst x = s) (remove1 (s', y) xs))
    = (if s' = s then remove1 y (map snd (filter (\<lambda>x. fst x = s) xs)) else map snd (filter (\<lambda>x. fst x = s) xs))"
  by (induction xs) auto

lemma of_scope_tagged [simp]: "filter (\<lambda>x. fst x = s) (map (Pair s') ys) = (if s' = s then map (Pair s') ys else [])"
  by (induction ys) auto

lemma snd_Pair [simp]: "snd \<circ> Pair s = id"
  by (simp add: fun_eq_iff)

lemma in_inside_of: "(scope, k, i) \<in> set (lw_inside w) \<longleftrightarrow> (k, i) \<in> set (inside_of w scope)"
  by (force simp: inside_of_def)

lemma map_of_filter_other: "map_of (filter (\<lambda>(k, _). k \<noteq> s) kvs) k' = (if k' = s then None else map_of kvs k')"
  by (induction kvs) auto

lemma enter_scope_effect:
  assumes ok: "world_ok w" and e: "enter_scope scope k i w = (w', gs)"
  shows "world_ok w'" "\<exists>gr. gs = map (Pair scope) gr \<and>
      gr @ sl_queue (lock_at w' scope) = sl_queue (lock_at w scope) @ [(k, i)]"
    "scope' \<noteq> scope \<Longrightarrow> lock_at w' scope' = lock_at w scope'"
proof -
  obtain l g where a: "acquire (lock_at w scope) k i = (l, g)" by (cases "acquire (lock_at w scope) k i")
  have at: "lock_at w' s = (if s = scope then l else lock_at w s)"
      "inside_of w' s = (if s = scope \<and> g then inside_of w s @ [(k, i)] else inside_of w s)"
      "map_of (lw_locks w') s = (if s = scope then Some l else map_of (lw_locks w) s)" for s
    using e a by (auto simp: enter_scope_def Let_def lock_at_def inside_of_def)
  note one = acquire_ok [OF _ a, of "inside_of w scope"]
  have ok1: "lock_ok (lock_at w scope) (inside_of w scope)" using ok by (simp add: world_ok_def)
  have "inside_of w' scope \<noteq> []"
    using one(1,2) [OF ok1] lock_ok_empty_inside [of l "[]"] at(2) [of scope] by (cases g) (auto simp: idle_lock_def)
  then show "world_ok w'"
    using ok one(1) [OF ok1] at unfolding world_ok_def by (auto split: if_splits)
  show "\<exists>gr. gs = map (Pair scope) gr \<and> gr @ sl_queue (lock_at w' scope) = sl_queue (lock_at w scope) @ [(k, i)]"
    using e a one(2) [OF ok1] at by (intro exI [where x = "if g then [(k, i)] else []"]) (auto simp: enter_scope_def Let_def)
  show "scope' \<noteq> scope \<Longrightarrow> lock_at w' scope' = lock_at w scope'" using at by simp
qed

lemma leave_scope_effect:
  assumes ok: "world_ok w" and i: "(scope, k, i) \<in> set (lw_inside w)" and e: "leave_scope scope k i w = (w', gs)"
  shows "world_ok w'" "\<exists>gr. gs = map (Pair scope) gr \<and> gr @ sl_queue (lock_at w' scope) = sl_queue (lock_at w scope)"
    "scope' \<noteq> scope \<Longrightarrow> lock_at w' scope' = lock_at w scope'"
proof -
  obtain l ready where r: "release (lock_at w scope) k = (l, ready)" by (cases "release (lock_at w scope) k")
  have ok1: "lock_ok (lock_at w scope) (inside_of w scope)" using ok by (simp add: world_ok_def)
  note one = release_ok [OF ok1 i [unfolded in_inside_of] r]
  have gs: "gs = map (Pair scope) ready" using e r by (auto simp: leave_scope_def Let_def)
  have ent: "map_of (lw_locks w') s = (if s = scope then (if idle_lock l then None else Some l) else map_of (lw_locks w) s)" for s
    using e r by (auto simp: leave_scope_def Let_def map_of_filter_other)
  have ins: "inside_of w' s = (if s = scope then remove1 (k, i) (inside_of w s) @ ready else inside_of w s)" for s
    using e r by (auto simp: leave_scope_def Let_def inside_of_def of_scope_remove1)
  have fresh: "l = fresh_lock" if "idle_lock l" using that by (cases l) (simp add: idle_lock_def fresh_lock_def)
  have at: "lock_at w' s = (if s = scope then l else lock_at w s)" for s
    using ent [of s] fresh by (auto simp: lock_at_def)
  have "lock_ok l (inside_of w' scope)" using one by (simp add: ins)
  from lock_ok_idle [OF this] this show "world_ok w'"
    using ok unfolding world_ok_def at ent by (auto simp: ins)
  show "\<exists>gr. gs = map (Pair scope) gr \<and> gr @ sl_queue (lock_at w' scope) = sl_queue (lock_at w scope)"
    using gs one at by auto
  show "scope' \<noteq> scope \<Longrightarrow> lock_at w' scope' = lock_at w scope'" using at by simp
qed

interpretation locks: guarded_history "\<lambda>l w. fst (scope_lock_step l w)" scope_lock_allowed world_ok
proof
  fix l w
  assume "scope_lock_allowed l w" "world_ok w"
  then show "world_ok (fst (scope_lock_step l w))"
    using enter_scope_effect(1) leave_scope_effect(1) by (cases l) (metis scope_lock_allowed.simps scope_lock_step.simps prod.collapse)+
qed

lemma no_locks_ok: "world_ok no_locks"
  by (simp add: world_ok_def no_locks_def lock_at_def inside_of_def lock_ok_def fresh_lock_def)

text \<open>Who arrived at a scope, who was let in, and who waits.\<close>

definition arrivals_of :: "string \<Rightarrow> scope_lock_op list \<Rightarrow> (lock_kind \<times> nat) list" where
  "arrivals_of scope ls = concat (map (\<lambda>l. case l of Enter s k i \<Rightarrow> if s = scope then [(k, i)] else [] | Leave _ _ _ \<Rightarrow> []) ls)"

definition let_into :: "string \<Rightarrow> (string \<times> lock_kind \<times> nat) list \<Rightarrow> (lock_kind \<times> nat) list" where
  "let_into scope gs = map snd (filter (\<lambda>x. fst x = scope) gs)"

lemma scope_lock_step_order:
  assumes "world_ok w" "scope_lock_allowed l w"
  shows "let_into scope (snd (scope_lock_step l w)) @ sl_queue (lock_at (fst (scope_lock_step l w)) scope)
    = sl_queue (lock_at w scope) @ arrivals_of scope [l]"
proof (cases l)
  case (Enter s k i)
  obtain w' gs where e: "enter_scope s k i w = (w', gs)" by (cases "enter_scope s k i w")
  show ?thesis
    using enter_scope_effect(2,3) [OF assms(1) e] Enter e by (cases "s = scope") (auto simp: let_into_def arrivals_of_def)
next
  case (Leave s k i)
  obtain w' gs where e: "leave_scope s k i w = (w', gs)" by (cases "leave_scope s k i w")
  show ?thesis
    using leave_scope_effect(2,3) [OF assms(1) _ e] assms(2) Leave e by (cases "s = scope") (auto simp: let_into_def arrivals_of_def)
qed

lemma lock_history_order: "world_ok w \<Longrightarrow> locks.disciplined ls w \<Longrightarrow>
    let_into scope (lock_grants ls w) @ sl_queue (lock_at (fold (\<lambda>l w. fst (scope_lock_step l w)) ls w) scope)
    = sl_queue (lock_at w scope) @ arrivals_of scope ls"
proof (induction ls arbitrary: w)
  case (Cons l ls)
  then have ok: "world_ok (fst (scope_lock_step l w))" "scope_lock_allowed l w" using locks.keeps_allowed by auto
  have split: "arrivals_of scope (l # ls) = arrivals_of scope [l] @ arrivals_of scope ls" by (simp add: arrivals_of_def)
  have "let_into scope (lock_grants (l # ls) w) = let_into scope (snd (scope_lock_step l w)) @ let_into scope (lock_grants ls (fst (scope_lock_step l w)))"
    by (simp add: let_into_def)
  then show ?case
    using Cons.IH [OF ok(1)] Cons.prems(2) scope_lock_step_order [OF Cons.prems(1) ok(2), of scope] split by simp
qed (simp add: let_into_def arrivals_of_def)

definition lock_history :: "scope_lock_op list \<Rightarrow> scope_locks" where
  "lock_history ls = fold (\<lambda>l w. fst (scope_lock_step l w)) ls no_locks"

lemma lock_history_ok: "locks.disciplined ls no_locks \<Longrightarrow> world_ok (lock_history ls)"
  unfolding lock_history_def by (rule locks.disciplined_keeps [OF _ no_locks_ok])

text \<open>
  C27. A retirement holds the lock of its scope alone: in every history of enters and leaves, when a
  retirement is inside a scope, no summon and no other retirement is inside it.
\<close>

theorem retirement_is_alone:
  assumes "locks.disciplined ls no_locks" "(scope, Retirement, i) \<in> set (lw_inside (lock_history ls))"
  shows "inside_of (lock_history ls) scope = [(Retirement, i)]"
proof -
  let ?ins = "inside_of (lock_history ls) scope"
  have ok: "lock_ok (lock_at (lock_history ls) scope) ?ins"
    using lock_history_ok [OF assms(1)] by (simp add: world_ok_def)
  have i: "(Retirement, i) \<in> set ?ins" using assms(2) in_inside_of by blast
  then have "list_ex (\<lambda>x. fst x = Retirement) ?ins" by (force simp: list_ex_iff)
  then have "length ?ins = 1" using ok by (simp add: lock_ok_def)
  then show ?thesis using i by (auto simp: length_Suc_conv)
qed

text \<open>
  C28. The lock of a scope is fair: in every history, whoever was let into a scope, followed by whoever
  still waits for it, is exactly the list of arrivals in their order; so no summon overtakes a waiting
  retirement and no retirement waits for a later summon. Somebody waits only while somebody is
  inside, and the map keeps no entry for a scope that nobody is inside.
\<close>

theorem scope_lock_is_fair:
  assumes "locks.disciplined ls no_locks"
  shows "let_into scope (lock_grants ls no_locks) @ sl_queue (lock_at (lock_history ls) scope) = arrivals_of scope ls
    \<and> (sl_queue (lock_at (lock_history ls) scope) = [] \<or> inside_of (lock_history ls) scope \<noteq> [])
    \<and> (map_of (lw_locks (lock_history ls)) scope = None \<longleftrightarrow> inside_of (lock_history ls) scope = [])"
proof -
  have ok: "world_ok (lock_history ls)" by (rule lock_history_ok [OF assms])
  have "idle_lock (lock_at (lock_history ls) scope)" if "inside_of (lock_history ls) scope = []"
    using lock_ok_idle ok that by (auto simp: world_ok_def)
  moreover have "sl_queue (lock_at no_locks scope) = []" by (simp add: lock_at_def no_locks_def fresh_lock_def)
  ultimately show ?thesis
    using ok lock_history_order [OF no_locks_ok assms, of scope] by (auto simp: lock_history_def world_ok_def idle_lock_def)
qed

section \<open>Chains of promises\<close>

text \<open>
  A later arrival waits for the promise of the arrival before it, whatever that promise brings. The
  mint lock forgets a key when its last promise is released; the claim mutex never does.
\<close>

record chain_world =
  cw_tails :: "(string \<times> nat) list"
  cw_waiting :: "(string \<times> nat \<times> nat option) list"
  cw_inside :: "(string \<times> nat) list"
  cw_released :: "nat list"

definition no_chains :: chain_world where
  "no_chains = \<lparr>cw_tails = [], cw_waiting = [], cw_inside = [], cw_released = []\<rparr>"

definition chain_enter :: "string \<Rightarrow> nat \<Rightarrow> chain_world \<Rightarrow> chain_world" where
  "chain_enter key i w = w\<lparr>cw_tails := map_set key i (cw_tails w),
     cw_waiting := cw_waiting w @ [(key, i, map_of (cw_tails w) key)]\<rparr>"

text \<open>The continuation after \<open>await prior\<close>.\<close>

definition chain_start :: "string \<Rightarrow> nat \<Rightarrow> nat option \<Rightarrow> chain_world \<Rightarrow> chain_world" where
  "chain_start key i prior w = w\<lparr>cw_waiting := remove1 (key, i, prior) (cw_waiting w), cw_inside := cw_inside w @ [(key, i)]\<rparr>"

definition mint_leave :: "string \<Rightarrow> nat \<Rightarrow> chain_world \<Rightarrow> chain_world" where
  "mint_leave key i w = w\<lparr>cw_inside := remove1 (key, i) (cw_inside w), cw_released := i # cw_released w,
     cw_tails := (if map_of (cw_tails w) key = Some i then filter (\<lambda>(k, _). k \<noteq> key) (cw_tails w) else cw_tails w)\<rparr>"

definition claim_leave :: "string \<Rightarrow> nat \<Rightarrow> chain_world \<Rightarrow> chain_world" where
  "claim_leave key i w = w\<lparr>cw_inside := remove1 (key, i) (cw_inside w), cw_released := i # cw_released w\<rparr>"

datatype chain_op = Chain_Enter string nat | Chain_Start string nat "nat option" | Chain_Leave string nat

fun chain_step :: "(string \<Rightarrow> nat \<Rightarrow> chain_world \<Rightarrow> chain_world) \<Rightarrow> chain_op \<Rightarrow> chain_world \<Rightarrow> chain_world" where
  "chain_step leave (Chain_Enter key i) w = chain_enter key i w"
| "chain_step leave (Chain_Start key i prior) w = chain_start key i prior w"
| "chain_step leave (Chain_Leave key i) w = leave key i w"

definition chain_ids :: "chain_world \<Rightarrow> nat set" where
  "chain_ids w = (fst \<circ> snd) ` set (cw_waiting w) \<union> snd ` set (cw_inside w) \<union> set (cw_released w)"

text \<open>Every arrival has a promise of its own; a continuation runs once its promise is released.\<close>

fun chain_allowed :: "chain_op \<Rightarrow> chain_world \<Rightarrow> bool" where
  "chain_allowed (Chain_Enter key i) w = (i \<notin> chain_ids w)"
| "chain_allowed (Chain_Start key i prior) w = ((key, i, prior) \<in> set (cw_waiting w)
     \<and> (case prior of None \<Rightarrow> True | Some p \<Rightarrow> p \<in> set (cw_released w)))"
| "chain_allowed (Chain_Leave key i) w = ((key, i) \<in> set (cw_inside w))"

fun linked :: "nat option \<Rightarrow> (nat \<times> nat option) list \<Rightarrow> bool" where
  "linked p [] = True"
| "linked p ((i, p') # ws) = (p' = p \<and> linked (Some i) ws)"

fun promise_end :: "nat option \<Rightarrow> (nat \<times> nat option) list \<Rightarrow> nat option" where
  "promise_end p [] = p"
| "promise_end p ((i, p') # ws) = promise_end (Some i) ws"

definition waiting_for :: "chain_world \<Rightarrow> string \<Rightarrow> (nat \<times> nat option) list" where
  "waiting_for w key = map snd (filter (\<lambda>x. fst x = key) (cw_waiting w))"

definition running :: "chain_world \<Rightarrow> string \<Rightarrow> nat list" where
  "running w key = map snd (filter (\<lambda>x. fst x = key) (cw_inside w))"

text \<open>
  The arrivals of a key that are not released form one chain: at most one runs, the others wait each
  for the one before, and the tail is the last.
\<close>

definition line_from :: "nat option \<Rightarrow> nat list \<Rightarrow> nat list \<Rightarrow> bool" where
  "line_from p run released = (case run of
     [] \<Rightarrow> (case p of None \<Rightarrow> True | Some r \<Rightarrow> r \<in> set released)
   | [i] \<Rightarrow> p = Some i
   | _ \<Rightarrow> False)"

definition key_ok :: "chain_world \<Rightarrow> string \<Rightarrow> bool" where
  "key_ok w key = (\<exists>p. linked p (waiting_for w key) \<and> line_from p (running w key) (cw_released w)
     \<and> map_of (cw_tails w) key = promise_end p (waiting_for w key))"

definition waiting_ids :: "chain_world \<Rightarrow> nat set" where
  "waiting_ids w = (fst \<circ> snd) ` set (cw_waiting w)"

definition inside_ids :: "chain_world \<Rightarrow> nat set" where
  "inside_ids w = snd ` set (cw_inside w)"

definition chains_ok :: "chain_world \<Rightarrow> bool" where
  "chains_ok w = ((\<forall>key. key_ok w key)
     \<and> distinct (map (fst \<circ> snd) (cw_waiting w)) \<and> distinct (map snd (cw_inside w))
     \<and> waiting_ids w \<inter> inside_ids w = {} \<and> waiting_ids w \<inter> set (cw_released w) = {}
     \<and> inside_ids w \<inter> set (cw_released w) = {})"

lemma waiting_idsI: "(key, i, p) \<in> set (cw_waiting w) \<Longrightarrow> i \<in> waiting_ids w"
  unfolding waiting_ids_def by (rule image_eqI [where x = "(key, i, p)"]) simp_all

lemma inside_idsI: "(key, i) \<in> set (cw_inside w) \<Longrightarrow> i \<in> inside_ids w"
  unfolding inside_ids_def by (rule image_eqI [where x = "(key, i)"]) simp_all

lemma waiting_for_iff: "(i, p) \<in> set (waiting_for w key) \<longleftrightarrow> (key, i, p) \<in> set (cw_waiting w)"
  by (force simp: waiting_for_def)

lemma running_iff: "i \<in> set (running w key) \<longleftrightarrow> (key, i) \<in> set (cw_inside w)"
  by (force simp: running_def)

lemma waiting_for_ids: "j \<in> fst ` set (waiting_for w key) \<Longrightarrow> j \<in> waiting_ids w"
  by (auto simp: waiting_for_iff dest: waiting_idsI)

lemma running_ids: "j \<in> set (running w key) \<Longrightarrow> j \<in> inside_ids w"
  by (auto simp: running_iff dest: inside_idsI)

lemma linked_append [simp]: "linked p (ws @ [(i, p')]) \<longleftrightarrow> linked p ws \<and> p' = promise_end p ws"
  by (induction p ws rule: linked.induct) auto

lemma promise_end_append [simp]: "promise_end p (ws @ [(i, p')]) = Some i"
  by (induction p ws rule: linked.induct) auto

lemma linked_prior: "linked p ws \<Longrightarrow> (i, p') \<in> set ws \<Longrightarrow> p' = p \<or> (\<exists>j. p' = Some j \<and> j \<in> fst ` set ws)"
  by (induction p ws rule: linked.induct) force+

lemma promise_end_in: "promise_end p ws = p \<or> (\<exists>j. promise_end p ws = Some j \<and> j \<in> fst ` set ws)"
  by (induction p ws rule: promise_end.induct) force+

lemma distinct_map_remove1:
  assumes "distinct (map f xs)" "x \<in> set xs"
  shows "distinct (map f (remove1 x xs))" "f ` set (remove1 x xs) = f ` set xs - {f x}"
proof -
  have d: "distinct xs" "inj_on f (set xs)" using assms(1) by (simp_all add: distinct_map)
  then show "distinct (map f (remove1 x xs))" by (auto simp: distinct_map intro: inj_on_subset)
  show "f ` set (remove1 x xs) = f ` set xs - {f x}"
    using d assms(2) by (auto simp: inj_on_def)
qed

lemma waiting_for_remove1: "map snd (filter (\<lambda>x. fst x = s) (remove1 (s', y) xs))
    = (if s' = s then remove1 y (map snd (filter (\<lambda>x. fst x = s) xs)) else map snd (filter (\<lambda>x. fst x = s) xs))"
  by (rule of_scope_remove1)

text \<open>Only the first in the line of a key can be continued.\<close>

lemma start_is_head:
  assumes ok: "chains_ok w" and a: "chain_allowed (Chain_Start key i prior) w"
  shows "running w key = [] \<and> (\<exists>ws. waiting_for w key = (i, prior) # ws)"
proof -
  have w: "(key, i, prior) \<in> set (cw_waiting w)" using a by simp
  then have in_key: "(i, prior) \<in> set (waiting_for w key)" by (simp add: waiting_for_iff)
  have not_released: "j \<notin> set (cw_released w)" if "j \<in> fst ` set (waiting_for w key) \<or> j \<in> set (running w key)" for j
    using that waiting_for_ids running_ids ok unfolding chains_ok_def by (meson disjoint_iff)
  obtain p where p: "linked p (waiting_for w key)"
      "line_from p (running w key) (cw_released w)"
    using ok unfolding chains_ok_def key_ok_def by blast
  obtain j p' ws where ws: "waiting_for w key = (j, p') # ws" using in_key by (cases "waiting_for w key") auto
  have prior: "prior \<noteq> Some k" if "k \<in> fst ` set (waiting_for w key) \<or> k \<in> set (running w key)" for k
    using not_released [OF that] a by auto
  have "(i, prior) = (j, p')"
  proof (rule ccontr)
    assume "(i, prior) \<noteq> (j, p')"
    then have "(i, prior) \<in> set ws" using in_key ws by auto
    moreover have "linked (Some j) ws" using p(1) ws by simp
    ultimately have "prior = Some j \<or> (\<exists>k. prior = Some k \<and> k \<in> fst ` set ws)" by (auto dest: linked_prior)
    then have "\<exists>k. prior = Some k \<and> k \<in> fst ` set (waiting_for w key)" unfolding ws by auto
    then show False using prior by blast
  qed
  moreover have "running w key = []"
  proof (cases "running w key")
    case (Cons k ks)
    then have "p = Some k" using p(2) by (cases ks) (auto simp: line_from_def)
    then have "p' = Some k" using p(1) ws by simp
    then show ?thesis using calculation prior Cons by auto
  qed simp
  ultimately show ?thesis using ws by simp
qed

lemma chain_enter_keeps:
  assumes ok: "chains_ok w" and i: "i \<notin> chain_ids w"
  shows "chains_ok (chain_enter key i w)"
proof -
  have "key_ok (chain_enter key i w) k" for k
  proof -
    obtain p where "linked p (waiting_for w k)" "line_from p (running w k) (cw_released w)"
        "map_of (cw_tails w) k = promise_end p (waiting_for w k)"
      using ok unfolding chains_ok_def key_ok_def by blast
    then show ?thesis
      unfolding key_ok_def by (intro exI [where x = p]) (auto simp: chain_enter_def waiting_for_def running_def)
  qed
  moreover have "waiting_ids (chain_enter key i w) = insert i (waiting_ids w)" "inside_ids (chain_enter key i w) = inside_ids w"
    by (simp_all add: waiting_ids_def inside_ids_def chain_enter_def)
  ultimately show ?thesis
    using ok i by (simp add: chains_ok_def chain_enter_def chain_ids_def waiting_ids_def [symmetric] inside_ids_def [symmetric])
qed

lemma chain_start_keeps:
  assumes ok: "chains_ok w" and a: "chain_allowed (Chain_Start key i prior) w"
  shows "chains_ok (chain_start key i prior w)"
proof -
  obtain ws where h: "running w key = []" "waiting_for w key = (i, prior) # ws" using start_is_head [OF ok a] by blast
  have w: "(key, i, prior) \<in> set (cw_waiting w)" using a by simp
  have run: "running (chain_start key i prior w) k = (if k = key then [i] else running w k)" for k
    using h(1) by (simp add: chain_start_def running_def)
  have wait: "waiting_for (chain_start key i prior w) k = (if k = key then ws else waiting_for w k)" for k
    using h(2) by (simp add: chain_start_def waiting_for_def waiting_for_remove1)
  have "key_ok (chain_start key i prior w) k" for k
  proof -
    obtain p where p: "linked p (waiting_for w k)" "line_from p (running w k) (cw_released w)"
        "map_of (cw_tails w) k = promise_end p (waiting_for w k)"
      using ok unfolding chains_ok_def key_ok_def by blast
    have same: "cw_tails (chain_start key i prior w) = cw_tails w" "cw_released (chain_start key i prior w) = cw_released w"
      by (simp_all add: chain_start_def)
    show ?thesis
    proof (cases "k = key")
      case True
      then show ?thesis using p h unfolding key_ok_def run wait same
        by (intro exI [where x = "Some i"]) (simp add: line_from_def)
    qed (use p in \<open>auto simp: key_ok_def run wait same\<close>)
  qed
  moreover have "waiting_ids (chain_start key i prior w) = waiting_ids w - {i}"
      "distinct (map (fst \<circ> snd) (cw_waiting (chain_start key i prior w)))"
    using distinct_map_remove1 [of "fst \<circ> snd" "cw_waiting w" "(key, i, prior)"] w ok
    by (simp_all add: waiting_ids_def chain_start_def chains_ok_def)
  moreover have "inside_ids (chain_start key i prior w) = insert i (inside_ids w)" by (simp add: inside_ids_def chain_start_def)
  moreover have "i \<notin> inside_ids w" "i \<notin> set (cw_released w)"
    using ok waiting_idsI [OF w] unfolding chains_ok_def by (meson disjoint_iff)+
  moreover have "cw_released (chain_start key i prior w) = cw_released w"
      "map snd (cw_inside (chain_start key i prior w)) = map snd (cw_inside w) @ [i]" by (simp_all add: chain_start_def)
  ultimately show ?thesis using ok unfolding chains_ok_def by (auto simp: inside_ids_def)
qed

text \<open>The contract of the two chains: what leaving does, and whether the last one out removes the key.\<close>

locale serial_chain =
  fixes leave :: "string \<Rightarrow> nat \<Rightarrow> chain_world \<Rightarrow> chain_world" and forgets :: bool
  assumes leave_lists: "cw_inside (leave key i w) = remove1 (key, i) (cw_inside w)" "cw_waiting (leave key i w) = cw_waiting w"
      "cw_released (leave key i w) = i # cw_released w"
    and leave_tails: "map_of (cw_tails (leave key i w)) k
      = (if k = key \<and> forgets \<and> map_of (cw_tails w) key = Some i then None else map_of (cw_tails w) k)"
begin

lemma leave_keeps:
  assumes ok: "chains_ok w" and i: "(key, i) \<in> set (cw_inside w)"
  shows "chains_ok (leave key i w)"
proof -
  have inr: "i \<in> set (running w key)" using i by (simp add: running_iff)
  obtain p where p: "linked p (waiting_for w key)" "map_of (cw_tails w) key = promise_end p (waiting_for w key)"
      "line_from p (running w key) (cw_released w)"
    using ok unfolding chains_ok_def key_ok_def by blast
  have one: "running w key = [i]" "p = Some i" using p(3) inr by (auto simp: line_from_def split: list.splits)
  have wait: "waiting_for (leave key i w) k = waiting_for w k" for k by (simp add: waiting_for_def leave_lists)
  have run: "running (leave key i w) k = (if k = key then [] else running w k)" for k
    using one by (simp add: running_def leave_lists of_scope_remove1)
  have "i \<notin> fst ` set (waiting_for w key)"
    using ok inside_idsI [OF i] waiting_for_ids unfolding chains_ok_def by (meson disjoint_iff)
  then have last_out: "waiting_for w key = []" if "promise_end p (waiting_for w key) = Some i"
    using that promise_end_in [of "Some (fst (hd (waiting_for w key)))" "tl (waiting_for w key)"]
    by (cases "waiting_for w key") (auto simp: image_iff)
  have "key_ok (leave key i w) k" for k
  proof (cases "k = key")
    case True
    show ?thesis
    proof (cases "forgets \<and> map_of (cw_tails w) key = Some i")
      case forget: True
      then have "waiting_for w key = []" using last_out p(2) by simp
      then show ?thesis using True forget leave_tails [of key i w key]
        by (auto simp: key_ok_def wait run line_from_def intro!: exI [where x = None])
    next
      case False
      then have "map_of (cw_tails (leave key i w)) key = map_of (cw_tails w) key" using leave_tails by simp
      then show ?thesis using True p one
        by (auto simp: key_ok_def wait run leave_lists line_from_def intro!: exI [where x = "Some i"])
    qed
  next
    case False
    then have "map_of (cw_tails (leave key i w)) k = map_of (cw_tails w) k" using leave_tails by simp
    moreover obtain p where "linked p (waiting_for w k)" "line_from p (running w k) (cw_released w)"
        "map_of (cw_tails w) k = promise_end p (waiting_for w k)"
      using ok unfolding chains_ok_def key_ok_def by blast
    ultimately show ?thesis using False unfolding key_ok_def wait run leave_lists
      by (intro exI [where x = p]) (auto simp: line_from_def split: list.splits option.splits)
  qed
  moreover have "inside_ids (leave key i w) = inside_ids w - {i}" "distinct (map snd (cw_inside (leave key i w)))"
    using distinct_map_remove1 [of snd "cw_inside w" "(key, i)"] i ok by (simp_all add: inside_ids_def leave_lists chains_ok_def)
  moreover have "i \<notin> waiting_ids w" using ok inside_idsI [OF i] unfolding chains_ok_def by (meson disjoint_iff)
  moreover have "waiting_ids (leave key i w) = waiting_ids w" by (simp add: waiting_ids_def leave_lists)
  ultimately show ?thesis using ok unfolding chains_ok_def leave_lists by auto
qed

lemma step_keeps: "chain_allowed l w \<Longrightarrow> chains_ok w \<Longrightarrow> chains_ok (chain_step leave l w)"
proof (cases l)
  case (Chain_Start key i prior)
  then show "chain_allowed l w \<Longrightarrow> chains_ok w \<Longrightarrow> chains_ok (chain_step leave l w)"
    using chain_start_keeps by (simp del: chain_allowed.simps)
qed (use chain_enter_keeps leave_keeps in simp_all)

text \<open>A chain that forgets keeps no released promise as a tail.\<close>

definition tails_live :: "chain_world \<Rightarrow> bool" where
  "tails_live w = (forgets \<longrightarrow> (\<forall>key t. map_of (cw_tails w) key = Some t \<longrightarrow> t \<notin> set (cw_released w)))"

lemma tail_somewhere:
  assumes "chains_ok w" "map_of (cw_tails w) key = Some t"
  shows "t \<in> fst ` set (waiting_for w key) \<or> t \<in> set (running w key) \<or> t \<in> set (cw_released w)"
proof -
  obtain p where p: "linked p (waiting_for w key)" "line_from p (running w key) (cw_released w)"
      "map_of (cw_tails w) key = promise_end p (waiting_for w key)"
    using assms(1) unfolding chains_ok_def key_ok_def by blast
  have "t \<in> fst ` set (waiting_for w key) \<or> p = Some t"
    using promise_end_in [of p "waiting_for w key"] p(3) assms(2) by (metis option.inject)
  moreover have "t \<in> set (running w key) \<or> t \<in> set (cw_released w)" if "p = Some t"
    using p(2) that by (simp add: line_from_def split: list.splits)
  ultimately show ?thesis by blast
qed

lemma step_keeps_live:
  assumes a: "chain_allowed l w" and ok: "chains_ok w" and live: "tails_live w"
  shows "tails_live (chain_step leave l w)"
proof (cases l)
  case (Chain_Leave key i)
  have i: "(key, i) \<in> set (cw_inside w)" using a Chain_Leave by simp
  have inj: "inj_on snd (set (cw_inside w))" using ok by (simp add: chains_ok_def distinct_map)
  have "t \<noteq> i \<and> t \<notin> set (cw_released w)"
    if f: forgets and t: "map_of (cw_tails (leave key i w)) k = Some t" for k t
  proof -
    have tk: "map_of (cw_tails w) k = Some t" "k = key \<Longrightarrow> t \<noteq> i"
      using t f leave_tails [of key i w k] by (auto split: if_splits)
    have nr: "t \<notin> set (cw_released w)" using live f tk(1) unfolding tails_live_def by blast
    have "t \<noteq> i" if "k \<noteq> key"
    proof
      assume "t = i"
      then consider "i \<in> fst ` set (waiting_for w k)" | "i \<in> set (running w k)"
        using tail_somewhere [OF ok tk(1)] nr by blast
      then show False
      proof cases
        case 1
        then show False using ok inside_idsI [OF i] waiting_for_ids unfolding chains_ok_def by (meson disjoint_iff)
      next
        case 2
        then show False using inj_onD [OF inj, of "(k, i)" "(key, i)"] i that by (simp add: running_iff)
      qed
    qed
    then show ?thesis using tk(2) nr by blast
  qed
  then show ?thesis using Chain_Leave by (simp add: tails_live_def leave_lists)
next
  case (Chain_Enter key i)
  then show ?thesis using a live by (auto simp: tails_live_def chain_enter_def chain_ids_def)
next
  case Chain_Start
  then show ?thesis using live by (auto simp: tails_live_def chain_start_def)
qed

lemma step_keeps_both: "chain_allowed l w \<Longrightarrow> chains_ok w \<and> tails_live w \<Longrightarrow> chains_ok (chain_step leave l w) \<and> tails_live (chain_step leave l w)"
  using step_keeps step_keeps_live by blast

lemma nobody_no_tail:
  assumes "chains_ok w" "tails_live w" forgets "waiting_for w key = []" "running w key = []"
  shows "map_of (cw_tails w) key = None"
proof (rule ccontr)
  assume "map_of (cw_tails w) key \<noteq> None"
  then obtain t where t: "map_of (cw_tails w) key = Some t" by blast
  moreover have "t \<notin> set (cw_released w)" using assms(2) assms(3) t unfolding tails_live_def by blast
  ultimately show False using tail_somewhere [OF assms(1) t] assms(4,5) by simp
qed

end

text \<open>The arrivals and the continuations of a key, in order.\<close>

definition entered_of :: "string \<Rightarrow> chain_op list \<Rightarrow> nat list" where
  "entered_of key ls = concat (map (\<lambda>l. case l of Chain_Enter k i \<Rightarrow> if k = key then [i] else [] | _ \<Rightarrow> []) ls)"

definition started_of :: "string \<Rightarrow> chain_op list \<Rightarrow> nat list" where
  "started_of key ls = concat (map (\<lambda>l. case l of Chain_Start k i _ \<Rightarrow> if k = key then [i] else [] | _ \<Rightarrow> []) ls)"

lemma no_chains_ok: "chains_ok no_chains"
  by (auto simp: chains_ok_def key_ok_def no_chains_def waiting_for_def running_def waiting_ids_def inside_ids_def line_from_def
      intro!: exI [where x = None])

context serial_chain begin

lemma step_order:
  assumes "chain_allowed l w" "chains_ok w"
  shows "started_of key [l] @ map fst (waiting_for (chain_step leave l w) key) = map fst (waiting_for w key) @ entered_of key [l]"
proof (cases l)
  case (Chain_Enter k i)
  then show ?thesis by (simp add: started_of_def entered_of_def chain_enter_def waiting_for_def)
next
  case (Chain_Start k i prior)
  obtain ws where "waiting_for w k = (i, prior) # ws" using start_is_head [OF assms(2)] assms(1) Chain_Start by blast
  then show ?thesis using Chain_Start
    by (auto simp: started_of_def entered_of_def chain_start_def waiting_for_def waiting_for_remove1)
next
  case Chain_Leave
  then show ?thesis by (simp add: started_of_def entered_of_def waiting_for_def leave_lists)
qed

lemma serial_history:
  assumes "guarded_history.disciplined (chain_step leave) chain_allowed ls w" "chains_ok w" "tails_live w"
  shows "chains_ok (fold (chain_step leave) ls w) \<and> tails_live (fold (chain_step leave) ls w)
    \<and> started_of key ls @ map fst (waiting_for (fold (chain_step leave) ls w) key) = map fst (waiting_for w key) @ entered_of key ls"
proof -
  have g: "guarded_history (chain_step leave) chain_allowed (\<lambda>w. chains_ok w \<and> tails_live w)"
    by unfold_locales (rule step_keeps_both)
  show ?thesis
    using assms
  proof (induction ls arbitrary: w)
    case (Cons l ls)
    have a: "chain_allowed l w" "guarded_history.disciplined (chain_step leave) chain_allowed ls (chain_step leave l w)"
      using Cons.prems(1) guarded_history.disciplined.simps(2) [OF g] by simp_all
    have split: "started_of key (l # ls) = started_of key [l] @ started_of key ls"
        "entered_of key (l # ls) = entered_of key [l] @ entered_of key ls"
      by (simp_all add: started_of_def entered_of_def)
    show ?case
      using Cons.IH [OF a(2)] step_keeps_both [OF a(1)] step_order [OF a(1) Cons.prems(2), of key] Cons.prems(2,3)
      by (simp add: split)
  qed (simp add: started_of_def entered_of_def)
qed

lemma serial_line:
  assumes "chains_ok w"
  shows "length (running w key) \<le> 1"
    "waiting_for w key = (i, prior) # ws \<Longrightarrow> running w key = [] \<Longrightarrow> chain_allowed (Chain_Start key i prior) w"
proof -
  obtain p where p: "linked p (waiting_for w key)" "line_from p (running w key) (cw_released w)"
    using assms unfolding chains_ok_def key_ok_def by blast
  then show "length (running w key) \<le> 1" by (auto simp: line_from_def split: list.splits)
  assume h: "waiting_for w key = (i, prior) # ws" "running w key = []"
  then have "(key, i, prior) \<in> set (cw_waiting w)" using waiting_for_iff [of i prior w key] by simp
  then show "chain_allowed (Chain_Start key i prior) w"
    using p h by (auto simp: line_from_def split: option.splits)
qed

end

interpretation mint_chain: serial_chain mint_leave True
  by unfold_locales (auto simp: mint_leave_def map_of_filter_other)

interpretation claim_chain: serial_chain claim_leave False
  by unfold_locales (auto simp: claim_leave_def)

interpretation mint_history: guarded_history "chain_step mint_leave" chain_allowed "\<lambda>w. chains_ok w \<and> mint_chain.tails_live w"
  by unfold_locales (rule mint_chain.step_keeps_both)

interpretation claim_history: guarded_history "chain_step claim_leave" chain_allowed "\<lambda>w. chains_ok w \<and> claim_chain.tails_live w"
  by unfold_locales (rule claim_chain.step_keeps_both)

text \<open>
  Mints of one scope and lane run one at a time and in the order of their arrival: in every history
  at most one is inside, those that were continued followed by those that wait are exactly the
  arrivals, the first in the line can be continued whenever nobody is inside, and when nobody is
  inside or waits the lock keeps no entry.
\<close>

theorem mints_run_in_turn:
  assumes "mint_history.disciplined ls no_chains"
  shows "length (running (fold (chain_step mint_leave) ls no_chains) key) \<le> 1
    \<and> started_of key ls @ map fst (waiting_for (fold (chain_step mint_leave) ls no_chains) key) = entered_of key ls
    \<and> (case waiting_for (fold (chain_step mint_leave) ls no_chains) key of
        (i, prior) # ws \<Rightarrow> running (fold (chain_step mint_leave) ls no_chains) key \<noteq> []
          \<or> chain_allowed (Chain_Start key i prior) (fold (chain_step mint_leave) ls no_chains)
      | [] \<Rightarrow> running (fold (chain_step mint_leave) ls no_chains) key \<noteq> []
          \<or> map_of (cw_tails (fold (chain_step mint_leave) ls no_chains)) key = None)"
proof -
  let ?w = "fold (chain_step mint_leave) ls no_chains"
  have live: "mint_chain.tails_live no_chains" by (simp add: mint_chain.tails_live_def no_chains_def)
  note h = mint_chain.serial_history [OF assms no_chains_ok live, of key]
  have "waiting_for no_chains key = []" by (simp add: waiting_for_def no_chains_def)
  then show ?thesis
    using h mint_chain.serial_line [of ?w key] mint_chain.nobody_no_tail [of ?w key] by (auto split: list.split)
qed

text \<open>
  Claims of one agent and project run one at a time and in the order of their arrival, and a claim
  that failed does not block the ones behind it: the first in the line can be continued whenever
  nobody is inside.
\<close>

theorem claims_run_in_turn:
  assumes "claim_history.disciplined ls no_chains"
  shows "length (running (fold (chain_step claim_leave) ls no_chains) key) \<le> 1
    \<and> started_of key ls @ map fst (waiting_for (fold (chain_step claim_leave) ls no_chains) key) = entered_of key ls
    \<and> (case waiting_for (fold (chain_step claim_leave) ls no_chains) key of
        (i, prior) # ws \<Rightarrow> running (fold (chain_step claim_leave) ls no_chains) key \<noteq> []
          \<or> chain_allowed (Chain_Start key i prior) (fold (chain_step claim_leave) ls no_chains)
      | [] \<Rightarrow> True)"
proof -
  let ?w = "fold (chain_step claim_leave) ls no_chains"
  have live: "claim_chain.tails_live no_chains" by (simp add: claim_chain.tails_live_def)
  note h = claim_chain.serial_history [OF assms no_chains_ok live, of key]
  have "waiting_for no_chains key = []" by (simp add: waiting_for_def no_chains_def)
  then show ?thesis using h claim_chain.serial_line [of ?w key] by (auto split: list.split)
qed

section \<open>Examples\<close>

definition example_locks :: "scope_lock_op list" where
  "example_locks = [Enter ''s'' Summon 1, Enter ''s'' Retirement 2, Enter ''s'' Summon 3, Leave ''s'' Summon 1]"

lemma example_locks_disciplined: "locks.disciplined example_locks no_locks"
  by (simp add: example_locks_def) code_simp

theorem retirement_is_alone_witness: "inside_of (lock_history example_locks) ''s'' = [(Retirement, 2)]"
proof (rule retirement_is_alone [OF example_locks_disciplined])
  show "(''s'', Retirement, 2) \<in> set (lw_inside (lock_history example_locks))" by code_simp
qed

theorem scope_lock_is_fair_witness:
  "let_into ''s'' (lock_grants example_locks no_locks) @ sl_queue (lock_at (lock_history example_locks) ''s'')
    = [(Summon, 1), (Retirement, 2), (Summon, 3)]"
proof -
  have "arrivals_of ''s'' example_locks = [(Summon, 1), (Retirement, 2), (Summon, 3)]" by code_simp
  then show ?thesis using scope_lock_is_fair [OF example_locks_disciplined, of "''s''"] by simp
qed

definition example_chain :: "chain_op list" where
  "example_chain = [Chain_Enter ''k'' 1, Chain_Enter ''k'' 2, Chain_Start ''k'' 1 None, Chain_Leave ''k'' 1, Chain_Start ''k'' 2 (Some 1)]"

lemma example_chain_disciplined: "mint_history.disciplined example_chain no_chains" "claim_history.disciplined example_chain no_chains"
  by (simp_all add: example_chain_def) (code_simp+)

theorem mints_run_in_turn_witness:
  "started_of ''k'' example_chain @ map fst (waiting_for (fold (chain_step mint_leave) example_chain no_chains) ''k'') = [1, 2]"
proof -
  have "entered_of ''k'' example_chain = [1, 2]" by code_simp
  then show ?thesis using mints_run_in_turn [OF example_chain_disciplined(1), of "''k''"] by simp
qed

theorem claims_run_in_turn_witness:
  "started_of ''k'' example_chain @ map fst (waiting_for (fold (chain_step claim_leave) example_chain no_chains) ''k'') = [1, 2]"
proof -
  have "entered_of ''k'' example_chain = [1, 2]" by code_simp
  then show ?thesis using claims_run_in_turn [OF example_chain_disciplined(2), of "''k''"] by simp
qed

end
