(* ===== verification/Session_Store.thy ===== *)
theory Session_Store
  imports HRC_Prelude JS_String
begin

text \<open>
  The store of host sessions and of the continuity of a scope and lane
  (hrc-store-sqlite/src/repositories/session-repositories.ts and session-identity.ts), the rows of
  durable claims (roster-claim-repository.ts) and the fences that callers send
  (hrc-core/src/fences.ts). A continuity names the active host session of a scope and lane; the
  earlier sessions of the lane are found by following the priors. The parser of scope references is
  code of the package agent-scope and a parameter. The columns of JSON text hold what
  \<open>serializeJson\<close> wrote, so they are JSON values here.
\<close>

section \<open>Rows\<close>

datatype session_status = SActive | SArchived | SInactive | STerminated

definition parse_session_status :: "string \<Rightarrow> session_status result" where
  "parse_session_status s =
     (if s = ''active'' then Inr SActive
      else if s = ''archived'' then Inr SArchived
      else if s = ''inactive'' then Inr SInactive
      else if s = ''terminated'' then Inr STerminated
      else Inl (plain_error (''Invalid stored session status: '' @ s)))"

record scope_identity =
  si_kind :: string
  si_agent :: string
  si_project :: "string option"
  si_task :: "string option"
  si_role :: "string option"

record hrc_session =
  ss_host :: string
  ss_scope :: string
  ss_lane :: string
  ss_generation :: int
  ss_status :: session_status
  ss_prior :: "string option"
  ss_created :: string
  ss_updated :: string
  ss_intent :: "json option"
  ss_continuation :: "json option"

text \<open>A row has one column more than the record, a record read from the store has the identity.\<close>

record session_row = hrc_session +
  ss_reuse_disabled :: bool

record session_record = hrc_session +
  ss_identity :: "scope_identity option"

record continuity_row =
  cn_scope :: string
  cn_lane :: string
  cn_active :: string
  cn_updated :: string
  cn_identity :: scope_identity

record continuity_record =
  cr_session_ref :: string
  cr_scope :: string
  cr_lane :: string
  cr_identity :: "scope_identity option"
  cr_active :: string
  cr_updated :: string
  cr_priors :: "string list"

record roster_claim =
  rc_key :: string
  rc_hash :: string
  rc_base :: string
  rc_claimed :: string
  rc_successor :: string
  rc_created :: string

record session_db =
  sd_sessions :: "session_row list"
  sd_continuities :: "continuity_row list"
  sd_claims :: "roster_claim list"

definition no_sessions :: session_db where
  "no_sessions = \<lparr>sd_sessions = [], sd_continuities = [], sd_claims = []\<rparr>"

definition cn_key :: "continuity_row \<Rightarrow> string \<times> string" where
  "cn_key c = (cn_scope c, cn_lane c)"

section \<open>Identities\<close>

definition derive_session_identity :: "(string \<Rightarrow> scope_identity option) \<Rightarrow> string \<Rightarrow> scope_identity" where
  "derive_session_identity parseScopeRef scopeRef =
     or_default (parseScopeRef scopeRef)
       \<lparr>si_kind = ''unparsed'', si_agent = scopeRef, si_project = None, si_task = None, si_role = None\<rparr>"

definition read_session_identity :: "session_db \<Rightarrow> string \<Rightarrow> string \<Rightarrow> scope_identity option" where
  "read_session_identity db scopeRef laneRef = map_option cn_identity (row_get cn_key (sd_continuities db) (scopeRef, laneRef))"

section \<open>Continuities\<close>

lemma prior_in_range:
  assumes "Option.bind (map_of byHost current) id = Some prior"
  shows "Some prior \<in> snd ` set byHost"
proof -
  have "map_of byHost current = Some (Some prior)" using assms by (auto simp: bind_eq_Some_conv)
  then show ?thesis by (force dest: map_of_SomeD)
qed

text \<open>
  The loop of \<open>derivePriorHostSessionIds\<close> over the rows of a scope and lane: it follows the priors
  until a session has none or one was seen before.
\<close>

function prior_chain :: "(string \<times> string option) list \<Rightarrow> string list \<Rightarrow> string \<Rightarrow> string list" where
  "prior_chain byHost found current =
     (case Option.bind (map_of byHost current) id of
        None \<Rightarrow> found
      | Some prior \<Rightarrow> if prior = [] \<or> prior \<in> set found then found else prior_chain byHost (found @ [prior]) prior)"
  by pat_completeness auto

termination
proof (relation "measure (\<lambda>(byHost, found, current). card (snd ` set byHost - Some ` set found))")
  fix byHost :: "(string \<times> string option) list" and found current prior
  assume p: "Option.bind (map_of byHost current) id = Some prior" "\<not> (prior = [] \<or> prior \<in> set found)"
  have "snd ` set byHost - Some ` set (found @ [prior]) = snd ` set byHost - Some ` set found - {Some prior}" by auto
  moreover have "Some prior \<in> snd ` set byHost - Some ` set found" using prior_in_range [OF p(1)] p(2) by auto
  ultimately show "((byHost, found @ [prior], prior), byHost, found, current)
      \<in> measure (\<lambda>(byHost, found, current). card (snd ` set byHost - Some ` set found))"
    using card_Diff1_less [of "snd ` set byHost - Some ` set found" "Some prior"] by simp
qed simp

declare prior_chain.simps [simp del]

definition of_lane :: "string \<Rightarrow> string \<Rightarrow> session_row \<Rightarrow> bool" where
  "of_lane scopeRef laneRef r = (ss_scope r = scopeRef \<and> ss_lane r = laneRef)"

definition derive_priors :: "session_db \<Rightarrow> string \<Rightarrow> string \<Rightarrow> string \<Rightarrow> string list" where
  "derive_priors db scopeRef laneRef active =
     (let rows = sort_key ss_generation (filter (of_lane scopeRef laneRef) (sd_sessions db)) in
      rev (prior_chain (map (\<lambda>r. (ss_host r, ss_prior r)) rows) [] active))"

definition strip_lane :: "string \<Rightarrow> string" where
  "strip_lane laneRef = (if starts_with laneRef ''lane:'' then drop 5 laneRef else laneRef)"

definition get_by_key :: "session_db \<Rightarrow> string \<Rightarrow> string \<Rightarrow> continuity_record option" where
  "get_by_key db scopeRef laneRef = map_option (\<lambda>c.
     \<lparr>cr_session_ref = cn_scope c @ ''/lane:'' @ strip_lane (cn_lane c), cr_scope = cn_scope c, cr_lane = cn_lane c,
       cr_identity = read_session_identity db (cn_scope c) (cn_lane c), cr_active = cn_active c,
       cr_updated = cn_updated c, cr_priors = derive_priors db (cn_scope c) (cn_lane c) (cn_active c)\<rparr>)
     (row_get cn_key (sd_continuities db) (scopeRef, laneRef))"

definition disassociate_scope :: "string \<Rightarrow> session_db \<Rightarrow> session_db \<times> continuity_record list" where
  "disassociate_scope scopeRef db =
     (let continuities = List.map_filter (\<lambda>c. get_by_key db (cn_scope c) (cn_lane c))
            (filter (\<lambda>c. cn_scope c = scopeRef) (sd_continuities db)) in
      (if continuities = [] then db
       else db\<lparr>sd_continuities := filter (\<lambda>c. cn_scope c \<noteq> scopeRef) (sd_continuities db)\<rparr>, continuities))"

text \<open>A conflicting insert keeps the identity of the row that is there.\<close>

definition continuity_upsert ::
  "(string \<Rightarrow> scope_identity option) \<Rightarrow> string \<Rightarrow> string \<Rightarrow> string \<Rightarrow> string \<Rightarrow> session_db \<Rightarrow> session_db" where
  "continuity_upsert parseScopeRef scopeRef laneRef active now db =
     (let identity = or_default (read_session_identity db scopeRef laneRef) (derive_session_identity parseScopeRef scopeRef);
          old = sd_continuities db in
      db\<lparr>sd_continuities :=
        (if row_get cn_key old (scopeRef, laneRef) = None
         then old @ [\<lparr>cn_scope = scopeRef, cn_lane = laneRef, cn_active = active, cn_updated = now, cn_identity = identity\<rparr>]
         else row_update cn_key (scopeRef, laneRef) (\<lambda>c. c\<lparr>cn_active := active, cn_updated := now\<rparr>) old)\<rparr>)"

section \<open>Sessions\<close>

definition session_decorate :: "session_db \<Rightarrow> session_row \<Rightarrow> session_record" where
  "session_decorate db r = hrc_session.extend (hrc_session.truncate r)
     (session_record.fields (read_session_identity db (ss_scope r) (ss_lane r)))"

definition session_count :: "session_db \<Rightarrow> nat" where
  "session_count db = length (sd_sessions db)"

definition get_by_host :: "session_db \<Rightarrow> string \<Rightarrow> session_record option" where
  "get_by_host db hostSessionId = map_option (session_decorate db) (row_get ss_host (sd_sessions db) hostSessionId)"

text \<open>The primary key, and the foreign key of the prior, which a row may satisfy itself.\<close>

definition session_insert :: "'a hrc_session_scheme \<Rightarrow> session_db \<Rightarrow> session_db result" where
  "session_insert rec db =
     (if ss_host rec \<in> ss_host ` set (sd_sessions db)
      then Inl (plain_error ''UNIQUE constraint failed: sessions.host_session_id'')
      else if (case ss_prior rec of None \<Rightarrow> False | Some p \<Rightarrow> p \<noteq> ss_host rec \<and> p \<notin> ss_host ` set (sd_sessions db))
      then Inl (plain_error ''FOREIGN KEY constraint failed'')
      else Inr (db\<lparr>sd_sessions := sd_sessions db
        @ [hrc_session.extend (hrc_session.truncate rec) (session_row.fields False)]\<rparr>))"

definition update_session :: "string \<Rightarrow> (session_row \<Rightarrow> session_row) \<Rightarrow> session_db \<Rightarrow> session_db" where
  "update_session hostSessionId f db = db\<lparr>sd_sessions := row_update ss_host hostSessionId f (sd_sessions db)\<rparr>"

definition session_update_status :: "string \<Rightarrow> session_status \<Rightarrow> string \<Rightarrow> session_db \<Rightarrow> session_db" where
  "session_update_status hostSessionId status now =
     update_session hostSessionId (\<lambda>r. r\<lparr>ss_status := status, ss_updated := now\<rparr>)"

definition session_update_intent :: "string \<Rightarrow> json option \<Rightarrow> string \<Rightarrow> session_db \<Rightarrow> session_db" where
  "session_update_intent hostSessionId intent now =
     update_session hostSessionId (\<lambda>r. r\<lparr>ss_intent := intent, ss_updated := now\<rparr>)"

definition session_update_continuation :: "string \<Rightarrow> json \<Rightarrow> string \<Rightarrow> session_db \<Rightarrow> session_db" where
  "session_update_continuation hostSessionId continuation now = update_session hostSessionId
     (\<lambda>r. r\<lparr>ss_continuation := Some continuation, ss_reuse_disabled := False, ss_updated := now\<rparr>)"

definition set_continuation_reuse_disabled :: "string \<Rightarrow> bool \<Rightarrow> string \<Rightarrow> session_db \<Rightarrow> session_db" where
  "set_continuation_reuse_disabled hostSessionId disabled now =
     update_session hostSessionId (\<lambda>r. r\<lparr>ss_reuse_disabled := disabled, ss_updated := now\<rparr>)"

definition is_continuation_reuse_disabled :: "session_db \<Rightarrow> string \<Rightarrow> bool" where
  "is_continuation_reuse_disabled db hostSessionId =
     (case row_get ss_host (sd_sessions db) hostSessionId of None \<Rightarrow> False | Some r \<Rightarrow> ss_reuse_disabled r)"

definition list_by_filters :: "session_db \<Rightarrow> string \<Rightarrow> string option \<Rightarrow> session_record list" where
  "list_by_filters db scopeRef laneRef =
     (case laneRef of
        Some (c # lane) \<Rightarrow> map (session_decorate db)
          (sort_key ss_generation (filter (of_lane scopeRef (c # lane)) (sd_sessions db)))
      | _ \<Rightarrow> map (session_decorate db)
          (sort_key (\<lambda>r. (ss_lane r, ss_generation r)) (filter (\<lambda>r. ss_scope r = scopeRef) (sd_sessions db))))"

section \<open>Claims\<close>

definition claim_insert :: "roster_claim \<Rightarrow> session_db \<Rightarrow> session_db result" where
  "claim_insert c db =
     (if rc_key c \<in> rc_key ` set (sd_claims db)
      then Inl (plain_error ''UNIQUE constraint failed: roster_claims.idempotency_key'')
      else Inr (db\<lparr>sd_claims := sd_claims db @ [c]\<rparr>))"

definition get_by_idempotency_key :: "session_db \<Rightarrow> string \<Rightarrow> roster_claim option" where
  "get_by_idempotency_key db key = row_get rc_key (sd_claims db) key"

definition list_by_base_scope :: "session_db \<Rightarrow> string \<Rightarrow> roster_claim list" where
  "list_by_base_scope db baseScope = sort_key rc_created (filter (\<lambda>c. rc_base c = baseScope) (sd_claims db))"

section \<open>Finding the session of a reference\<close>

definition bad_request :: "string \<Rightarrow> string \<Rightarrow> js_error" where
  "bad_request ref message = domain_error ''malformed_request'' message [(''sessionRef'', JStr ref)]"

definition parse_session_ref :: "string \<Rightarrow> (string \<times> string) result" where
  "parse_session_ref ref =
     (case js_split (CHR ''/'') (js_trim ref) of
        [scope, lane] \<Rightarrow>
          if \<not> starts_with lane ''lane:''
          then Inl (bad_request ref ''sessionRef must use \"<scopeRef>/lane:<laneRef>\" format'')
          else if js_trim scope = [] \<or> js_trim (drop 5 lane) = []
          then Inl (bad_request ref ''sessionRef must include scopeRef and laneRef'')
          else Inr (js_trim scope, js_trim (drop 5 lane))
      | _ \<Rightarrow> Inl (bad_request ref ''sessionRef must use \"<scopeRef>/lane:<laneRef>\" format''))"

definition continuity_session :: "session_db \<Rightarrow> string \<Rightarrow> string \<Rightarrow> session_record option" where
  "continuity_session db scopeRef laneRef =
     Option.bind (get_by_key db scopeRef laneRef) (\<lambda>c. get_by_host db (cr_active c))"

definition find_continuity_session :: "session_db \<Rightarrow> string \<Rightarrow> session_record option result" where
  "find_continuity_session db ref =
     then_do (parse_session_ref ref) (\<lambda>(scopeRef, laneRef). Inr (continuity_session db scopeRef laneRef))"

definition require_continuity :: "session_db \<Rightarrow> 'a hrc_session_scheme \<Rightarrow> continuity_record result" where
  "require_continuity db s =
     (case get_by_key db (ss_scope s) (ss_lane s) of
        Some c \<Rightarrow> Inr c
      | None \<Rightarrow> Inl (domain_error ''unknown_session''
          (''unknown continuity for \"'' @ ss_scope s @ ''/lane:'' @ ss_lane s @ ''\"'')
          [(''scopeRef'', JStr (ss_scope s)), (''laneRef'', JStr (ss_lane s))]))"

section \<open>Fences\<close>

record fence =
  fc_host :: "string option"
  fc_generation :: "int option"
  fc_follow :: "bool option"

definition no_fence :: fence where
  "no_fence = \<lparr>fc_host = None, fc_generation = None, fc_follow = None\<rparr>"

definition invalid_fence :: "string \<Rightarrow> js_error" where
  "invalid_fence message = domain_error ''invalid_fence'' message []"

fun parse_expected_host :: "json option \<Rightarrow> string option result" where
  "parse_expected_host None = Inr None"
| "parse_expected_host (Some (JStr s)) =
     (if js_trim s = [] then Inl (invalid_fence ''expectedHostSessionId must not be empty'') else Inr (Some (js_trim s)))"
| "parse_expected_host (Some v) = Inl (invalid_fence ''expectedHostSessionId must be a string when provided'')"

fun parse_expected_generation :: "json option \<Rightarrow> int option result" where
  "parse_expected_generation None = Inr None"
| "parse_expected_generation (Some (JNum n)) =
     (if n < 0 then Inl (invalid_fence ''expectedGeneration must be zero or greater'') else Inr (Some n))"
| "parse_expected_generation (Some v) = Inl (invalid_fence ''expectedGeneration must be an integer when provided'')"

fun parse_follow_latest :: "json option \<Rightarrow> bool option result" where
  "parse_follow_latest None = Inr None"
| "parse_follow_latest (Some (JBool b)) = Inr (Some b)"
| "parse_follow_latest (Some v) = Inl (invalid_fence ''followLatest must be a boolean when provided'')"

text \<open>An array is an object without the three fields.\<close>

fun fence_fields :: "json \<Rightarrow> json_object result" where
  "fence_fields (JObj ob) = Inr ob"
| "fence_fields (JArr vs) = Inr []"
| "fence_fields v = Inl (invalid_fence ''fence must be an object when provided'')"

definition parse_fence :: "json option \<Rightarrow> fence result" where
  "parse_fence input =
     (case input of
        None \<Rightarrow> Inr no_fence
      | Some v \<Rightarrow> then_do (fence_fields v) (\<lambda>ob.
          then_do (parse_expected_host (jget ob ''expectedHostSessionId'')) (\<lambda>h.
          then_do (parse_expected_generation (jget ob ''expectedGeneration'')) (\<lambda>g.
          then_do (parse_follow_latest (jget ob ''followLatest'')) (\<lambda>f.
            if h \<noteq> None \<and> f = Some True
            then Inl (invalid_fence ''expectedHostSessionId and followLatest cannot be combined'')
            else Inr \<lparr>fc_host = h, fc_generation = g, fc_follow = f\<rparr>)))))"

datatype fence_outcome = Fence_Ok string int | Fence_Stale js_error

definition validate_fence :: "json option \<Rightarrow> string \<Rightarrow> int \<Rightarrow> fence_outcome result" where
  "validate_fence input activeHost generation = then_do (parse_fence input) (\<lambda>fence. Inr
     (if fc_follow fence = Some True then Fence_Ok activeHost generation
      else if fc_host fence \<noteq> None \<and> fc_host fence \<noteq> Some activeHost
      then Fence_Stale (domain_error ''stale_context'' ''host session fence is stale''
        [(''expectedHostSessionId'', JStr (the (fc_host fence))), (''activeHostSessionId'', JStr activeHost)])
      else if fc_generation fence \<noteq> None \<and> fc_generation fence \<noteq> Some generation
      then Fence_Stale (domain_error ''stale_context'' ''generation fence is stale''
        [(''expectedGeneration'', JNum (the (fc_generation fence))), (''activeGeneration'', JNum generation)])
      else Fence_Ok activeHost generation))"

text \<open>
  A fence is passed only by the state it expects: the answer is success exactly when the fence is
  well formed and, unless it follows the latest, each of host session and generation it names is the
  current one; and what a passed fence resolves to is always the current state.
\<close>

theorem fence_admits_the_expected_state:
  "validate_fence input activeHost generation = Inr (Fence_Ok h g) \<longleftrightarrow>
     h = activeHost \<and> g = generation
     \<and> (\<exists>fence. parse_fence input = Inr fence
        \<and> (fc_follow fence = Some True
           \<or> (fc_host fence \<in> {None, Some activeHost} \<and> fc_generation fence \<in> {None, Some generation})))"
proof (cases "parse_fence input")
  case (Inr fence)
  then show ?thesis by (cases "fc_follow fence = Some True") (auto simp: validate_fence_def)
qed (simp add: validate_fence_def)

section \<open>Lineages\<close>

text \<open>
  The shape every operation keeps: identifiers and keys are unique, a continuity names a session of its
  scope and lane, and a prior is an earlier session of the same scope and lane.
\<close>

definition prior_ok :: "session_row set \<Rightarrow> session_row \<Rightarrow> bool" where
  "prior_ok rows r = (case ss_prior r of None \<Rightarrow> True | Some p \<Rightarrow>
     (\<exists>q \<in> rows. ss_host q = p \<and> of_lane (ss_scope r) (ss_lane r) q \<and> ss_generation q < ss_generation r))"

definition lineage_ok :: "session_db \<Rightarrow> bool" where
  "lineage_ok db = ((\<forall>r \<in> set (sd_sessions db). ss_host r \<noteq> []) \<and> distinct (map ss_host (sd_sessions db)) \<and> distinct (map cn_key (sd_continuities db))
     \<and> (\<forall>r \<in> set (sd_sessions db). prior_ok (set (sd_sessions db)) r)
     \<and> (\<forall>c \<in> set (sd_continuities db). \<exists>r \<in> set (sd_sessions db). ss_host r = cn_active c \<and> of_lane (cn_scope c) (cn_lane c) r))"

text \<open>A list of sessions from the first of a lineage to a given one.\<close>

fun ancestry :: "session_row list \<Rightarrow> string list \<Rightarrow> bool" where
  "ancestry rows [] = True"
| "ancestry rows [h] = (\<exists>r \<in> set rows. ss_host r = h \<and> ss_prior r = None)"
| "ancestry rows (h # h' # hs) = (\<exists>r \<in> set rows. ss_host r = h \<and> ss_prior r = Some h' \<and> ancestry rows (h' # hs))"

text \<open>
  The loop, when it starts from a session of a well-formed lineage and what it found is not older.
\<close>

lemma map_of_hosts:
  assumes "distinct (map ss_host rows)" "r \<in> set rows"
  shows "map_of (map (\<lambda>r. (ss_host r, ss_prior r)) rows) (ss_host r) = Some (ss_prior r)"
  using assms by (intro map_of_is_SomeI) (auto simp: comp_def)

definition gen_of :: "session_row list \<Rightarrow> string \<Rightarrow> int" where
  "gen_of rows h = (case row_get ss_host rows h of None \<Rightarrow> 0 | Some r \<Rightarrow> ss_generation r)"

lemma row_get_here: "distinct (map key rows) \<Longrightarrow> r \<in> set rows \<Longrightarrow> row_get key rows (key r) = Some r"
  by (induction rows) (auto simp: row_get_def)

lemma gen_of_here: "distinct (map ss_host rows) \<Longrightarrow> r \<in> set rows \<Longrightarrow> gen_of rows (ss_host r) = ss_generation r"
  by (simp add: gen_of_def row_get_here)

lemma prior_chain_ancestry:
  assumes "distinct (map ss_host rows)" "\<forall>r \<in> set rows. ss_host r \<noteq> [] \<and> prior_ok (set rows) r" "r \<in> set rows"
    "\<forall>h \<in> set found. ss_generation r \<le> gen_of rows h"
  shows "\<exists>hs. prior_chain (map (\<lambda>r. (ss_host r, ss_prior r)) rows) found (ss_host r) = found @ hs \<and> ancestry rows (ss_host r # hs)"
  using assms(3,4)
proof (induction "nat (ss_generation r - Min (ss_generation ` set rows))" arbitrary: r found rule: less_induct)
  case less
  note m = map_of_hosts [OF assms(1) less.prems(1)]
  show ?case
  proof (cases "ss_prior r")
    case None
    then have "prior_chain (map (\<lambda>r. (ss_host r, ss_prior r)) rows) found (ss_host r) = found @ []"
      by (subst prior_chain.simps) (simp add: m)
    moreover have "ancestry rows [ss_host r]" using less.prems(1) None by auto
    ultimately show ?thesis by blast
  next
    case (Some p)
    obtain q where q: "q \<in> set rows" "ss_host q = p" "ss_generation q < ss_generation r" "p \<noteq> []"
      using bspec [OF assms(2) less.prems(1)] Some assms(2) by (auto simp: prior_ok_def)
    have g: "gen_of rows p = ss_generation q" using gen_of_here [OF assms(1) q(1)] q(2) by simp
    have new: "p \<notin> set found" using less.prems(2) g q(3) by auto
    have "Min (ss_generation ` set rows) \<le> ss_generation q" using q(1) by simp
    then have "nat (ss_generation q - Min (ss_generation ` set rows)) < nat (ss_generation r - Min (ss_generation ` set rows))"
      using q(3) by linarith
    then obtain hs where hs: "prior_chain (map (\<lambda>r. (ss_host r, ss_prior r)) rows) (found @ [p]) (ss_host q) = (found @ [p]) @ hs"
        "ancestry rows (ss_host q # hs)"
      using less.hyps [OF _ q(1), of "found @ [p]"] less.prems(2) q(3) g by fastforce
    have "prior_chain (map (\<lambda>r. (ss_host r, ss_prior r)) rows) found (ss_host r) = found @ p # hs"
      using hs(1) q(2,4) new Some by (subst prior_chain.simps) (simp add: m)
    moreover have "ancestry rows (ss_host r # p # hs)" using hs(2) q(2) Some less.prems(1) by auto
    ultimately show ?thesis by blast
  qed
qed

lemma filter_lane_ok:
  assumes "\<forall>r \<in> set rows. prior_ok (set rows) r"
  shows "\<forall>r \<in> set (filter (of_lane s l) rows). prior_ok (set (filter (of_lane s l) rows)) r"
proof
  fix r
  assume r: "r \<in> set (filter (of_lane s l) rows)"
  then have "prior_ok (set rows) r" using assms by simp
  then show "prior_ok (set (filter (of_lane s l) rows)) r"
    using r by (cases "ss_prior r") (auto simp: prior_ok_def of_lane_def)
qed

lemma ancestry_mono: "ancestry rows hs \<Longrightarrow> set rows \<subseteq> set rows' \<Longrightarrow> ancestry rows' hs"
  by (induction rows hs rule: ancestry.induct) fastforce+

lemma derive_priors_ancestry:
  assumes ok: "lineage_ok db" and r: "r \<in> set (sd_sessions db)"
  shows "ancestry (sd_sessions db) (ss_host r # rev (derive_priors db (ss_scope r) (ss_lane r) (ss_host r)))"
proof -
  let ?rows = "sort_key ss_generation (filter (of_lane (ss_scope r) (ss_lane r)) (sd_sessions db))"
  have d: "distinct (map ss_host ?rows)"
    using ok by (auto simp: lineage_ok_def distinct_map intro: inj_on_subset)
  have "\<forall>q \<in> set ?rows. ss_host q \<noteq> [] \<and> prior_ok (set ?rows) q"
    using filter_lane_ok [of "sd_sessions db" "ss_scope r" "ss_lane r"] ok by (simp add: lineage_ok_def)
  moreover have "r \<in> set ?rows" using r by (simp add: of_lane_def)
  ultimately obtain hs where "prior_chain (map (\<lambda>r. (ss_host r, ss_prior r)) ?rows) [] (ss_host r) = hs" "ancestry ?rows (ss_host r # hs)"
    using prior_chain_ancestry [OF d, of r "[]"] by auto
  then show ?thesis using ancestry_mono [of ?rows _ "sd_sessions db"] by (auto simp: derive_priors_def)
qed

end
