(* ===== verification/Input_Ledger.thy ===== *)
theory Input_Ledger
  imports Run_Store Event_Ledger
begin

text \<open>
  The durable ledger of format-2 inputs: the repository
  (hrc-store-sqlite/src/repositories/broker-input-repositories.ts), the methods of the broker event
  mapper that land, terminate and annotate an input
  (hrc-server/src/broker/event-mapper/format2-input.ts and run-resolution.ts), and the admission of
  an input with its durable fence
  (hrc-server/src/turn-admission/routes/broker-headless-format2.ts). An operation that throws
  leaves no trace: the mapper's runs inside the projection's transaction, and of the others the one
  statement that writes is the last one that can throw.
\<close>

section \<open>Rows\<close>

datatype landing_kind = Initiating | Joined

datatype terminal_kind = Rejected | Withdrawn

fun show_landing :: "landing_kind \<Rightarrow> string" where
  "show_landing Initiating = ''initiating''"
| "show_landing Joined = ''joined''"

fun show_terminal :: "terminal_kind \<Rightarrow> string" where
  "show_terminal Rejected = ''rejected''"
| "show_terminal Withdrawn = ''withdrawn''"

datatype correlation_fact = Lost | Expired | Cancelled | Invocation_Failed | Invocation_Exited

fun show_fact :: "correlation_fact \<Rightarrow> string" where
  "show_fact Lost = ''lost''"
| "show_fact Expired = ''expired''"
| "show_fact Cancelled = ''cancelled''"
| "show_fact Invocation_Failed = ''invocation_failed''"
| "show_fact Invocation_Exited = ''invocation_exited''"

text \<open>A row of \<open>inputs\<close>, which is also the \<open>HrcInputRecord\<close> read from it.\<close>

record input_row =
  in_input_id :: string
  in_admission_host_session_id :: string
  in_idempotency_key :: string
  in_request_hash :: string
  in_host_session_id :: "string option"
  in_runtime_id :: "string option"
  in_operation_id :: "string option"
  in_invocation_id :: "string option"
  in_broker_submission_id :: "string option"
  in_door :: "string option"
  in_admission_class :: "string option"
  in_origin :: "string option"
  in_status :: string
  in_uncertainty :: "string option"
  in_cleanup_protection :: string
  in_landing_kind :: "landing_kind option"
  in_carrier_run_id :: "string option"
  in_turn_id :: "string option"
  in_run_started_hrc_seq :: "int option"
  in_legacy_run_id :: "string option"
  in_admitted_at :: "string option"
  in_landed_at :: "string option"
  in_terminal_at :: "string option"
  in_terminal_kind :: "terminal_kind option"
  in_error_code :: "string option"
  in_error_message :: "string option"
  in_created_at :: string
  in_updated_at :: string

text \<open>The columns of a runtime and of a broker invocation that these components read.\<close>

record placed_runtime =
  pr_runtime_id :: string
  pr_host_session_id :: string
  pr_scope_ref :: string
  pr_lane_ref :: string
  pr_generation :: int
  pr_transport :: string
  pr_status :: string
  pr_controller_kind :: string
  pr_active_operation_id :: "string option"
  pr_active_invocation_id :: "string option"
  pr_created_at :: string

record placed_invocation =
  pi_invocation_id :: string
  pi_operation_id :: string
  pi_runtime_id :: string
  pi_execution_format :: string

record input_db =
  id_store :: run_store
  id_inputs :: "input_row list"
  id_ledger :: ledger
  id_runtimes :: "placed_runtime list"
  id_invocations :: "placed_invocation list"

abbreviation id_runs :: "input_db \<Rightarrow> run_row list" where
  "id_runs d \<equiv> db_runs (rs_db (id_store d))"

section \<open>The repository\<close>

definition inputs_constraints :: "input_row list \<Rightarrow> bool" where
  "inputs_constraints rows = (distinct (map in_input_id rows)
     \<and> distinct (map (\<lambda>r. (in_admission_host_session_id r, in_idempotency_key r)) rows)
     \<and> distinct (filter (\<lambda>s. s \<noteq> None) (map in_broker_submission_id rows)))"

definition write_inputs :: "input_row list \<Rightarrow> input_db \<Rightarrow> input_db result" where
  "write_inputs rows d = (if inputs_constraints rows then Inr (d\<lparr>id_inputs := rows\<rparr>)
     else Inl (plain_error ''constraint failed''))"

definition get_input :: "input_db \<Rightarrow> string \<Rightarrow> input_row option" where
  "get_input d inputId = row_get in_input_id (id_inputs d) inputId"

definition get_by_admission :: "input_db \<Rightarrow> string \<Rightarrow> string \<Rightarrow> input_row option" where
  "get_by_admission d host key = List.find (\<lambda>r. in_admission_host_session_id r = host \<and> in_idempotency_key r = key) (id_inputs d)"

definition get_by_submission :: "input_db \<Rightarrow> string \<Rightarrow> input_row option" where
  "get_by_submission d submission = List.find (\<lambda>r. in_broker_submission_id r = Some submission) (id_inputs d)"

definition require_input :: "string \<Rightarrow> input_db \<Rightarrow> string \<Rightarrow> input_row result" where
  "require_input message d inputId = (case get_input d inputId of
     None \<Rightarrow> Inl (plain_error (message @ inputId)) | Some r \<Rightarrow> Inr r)"

definition input_insert :: "input_row \<Rightarrow> input_db \<Rightarrow> (input_db \<times> input_row) result" where
  "input_insert rec d = then_do (write_inputs (id_inputs d @ [rec]) d) (\<lambda>d'.
     then_do (require_input ''failed to reload input '' d' (in_input_id rec)) (\<lambda>r. Inr (d', r)))"

text \<open>\<open>UPDATE inputs SET ... WHERE ...\<close>, and the reload of the named row.\<close>

definition update_inputs ::
  "(input_row \<Rightarrow> bool) \<Rightarrow> (input_row \<Rightarrow> input_row) \<Rightarrow> string \<Rightarrow> string \<Rightarrow> input_db \<Rightarrow> (input_db \<times> input_row) result" where
  "update_inputs cond f message inputId d =
     then_do (write_inputs (map (\<lambda>r. if cond r then f r else r) (id_inputs d)) d) (\<lambda>d'.
       then_do (require_input message d' inputId) (\<lambda>r. Inr (d', r)))"

definition bind_broker_submission :: "string \<Rightarrow> string \<Rightarrow> string \<Rightarrow> input_db \<Rightarrow> (input_db \<times> input_row) result" where
  "bind_broker_submission inputId submission updatedAt d =
     (let conflict = Inl (plain_error (''input broker submission conflict for '' @ inputId)) in
      then_do (require_input ''input not found for broker bind '' d inputId) (\<lambda>prior.
        case in_broker_submission_id prior of
          Some held \<Rightarrow> if held = submission then Inr (d, prior) else conflict
        | None \<Rightarrow> then_do (update_inputs (\<lambda>r. in_input_id r = inputId \<and> in_broker_submission_id r = None)
              (\<lambda>r. r\<lparr>in_broker_submission_id := Some submission, in_updated_at := updatedAt\<rparr>)
              ''failed to reload broker-bound input '' inputId d)
            (\<lambda>(d', bound). if in_broker_submission_id bound \<noteq> Some submission then conflict else Inr (d', bound))))"

record landing =
  ld_input_id :: string
  ld_kind :: landing_kind
  ld_carrier_run_id :: string
  ld_turn_id :: string
  ld_run_started_hrc_seq :: int
  ld_landed_at :: string

text \<open>The live run that an input may land on: the exact observed execution of its own placement.\<close>

definition live_carrier :: "landing \<Rightarrow> input_row \<Rightarrow> run_row \<Rightarrow> bool" where
  "live_carrier ld prior r = (r_run_id r = ld_carrier_run_id ld
     \<and> r_execution_format r = Some ''format2''
     \<and> r_native_turn_id r = Some (ld_turn_id ld)
     \<and> Some (r_host_session_id r) = in_host_session_id prior
     \<and> r_runtime_id r = in_runtime_id prior
     \<and> r_operation_id r = in_operation_id prior
     \<and> r_invocation_id r = in_invocation_id prior
     \<and> r_observed_start_hrc_seq r = Some (ld_run_started_hrc_seq ld)
     \<and> r_completed_at r = None
     \<and> r_status r = RRunning)"

definition complete_coordinate :: "input_row \<Rightarrow> bool" where
  "complete_coordinate r = (in_host_session_id r \<noteq> None \<and> in_runtime_id r \<noteq> None
     \<and> in_operation_id r \<noteq> None \<and> in_invocation_id r \<noteq> None)"

definition landed_row :: "landing \<Rightarrow> input_row \<Rightarrow> input_row" where
  "landed_row ld r = r\<lparr>in_status := show_landing (ld_kind ld), in_cleanup_protection := ''carrier-run'',
     in_landing_kind := Some (ld_kind ld), in_carrier_run_id := Some (ld_carrier_run_id ld),
     in_turn_id := Some (ld_turn_id ld), in_run_started_hrc_seq := Some (ld_run_started_hrc_seq ld),
     in_landed_at := Some (ld_landed_at ld), in_updated_at := ld_landed_at ld\<rparr>"

definition same_landing :: "landing \<Rightarrow> input_row \<Rightarrow> bool" where
  "same_landing ld r = (in_landing_kind r = Some (ld_kind ld) \<and> in_carrier_run_id r = Some (ld_carrier_run_id ld)
     \<and> in_turn_id r = Some (ld_turn_id ld) \<and> in_run_started_hrc_seq r = Some (ld_run_started_hrc_seq ld))"

definition record_landing :: "landing \<Rightarrow> input_db \<Rightarrow> (input_db \<times> input_row) result" where
  "record_landing ld d =
     then_do (require_input ''input not found for landing '' d (ld_input_id ld)) (\<lambda>prior.
       if in_landing_kind prior \<noteq> None
       then (if same_landing ld prior then Inr (d, prior)
         else Inl (plain_error (''input landing conflict for '' @ ld_input_id ld)))
       else if in_status prior \<noteq> ''accepted''
       then Inl (plain_error (''input cannot land from status '' @ in_status prior @ '': '' @ ld_input_id ld))
       else if \<not> complete_coordinate prior
       then Inl (plain_error (''format-2 input landing requires a complete input coordinate: '' @ ld_input_id ld))
       else if \<not> list_ex (live_carrier ld prior) (id_runs d)
       then Inl (plain_error (''format-2 input landing requires an active exact carrier run: '' @ ld_carrier_run_id ld))
       else update_inputs (\<lambda>r. in_input_id r = ld_input_id ld \<and> in_landing_kind r = None) (landed_row ld)
         ''failed to reload landed input '' (ld_input_id ld) d)"

record terminal_fact =
  tf_input_id :: string
  tf_terminal :: terminal_kind
  tf_terminal_at :: string
  tf_error_code :: "string option"
  tf_error_message :: "string option"

definition terminal_row :: "terminal_fact \<Rightarrow> input_row \<Rightarrow> input_row" where
  "terminal_row tf r = r\<lparr>in_status := show_terminal (tf_terminal tf), in_cleanup_protection := ''released'',
     in_terminal_kind := Some (tf_terminal tf), in_terminal_at := Some (tf_terminal_at tf),
     in_error_code := tf_error_code tf, in_error_message := tf_error_message tf,
     in_updated_at := tf_terminal_at tf\<rparr>"

definition record_terminal :: "terminal_fact \<Rightarrow> input_db \<Rightarrow> (input_db \<times> input_row) result" where
  "record_terminal tf d =
     then_do (require_input ''input not found for terminal '' d (tf_input_id tf)) (\<lambda>prior.
       case in_terminal_kind prior of
         Some t \<Rightarrow> if t = tf_terminal tf then Inr (d, prior)
           else Inl (plain_error (''input terminal conflict for '' @ tf_input_id tf))
       | None \<Rightarrow>
           if in_status prior \<noteq> ''accepted'' \<or> in_landing_kind prior \<noteq> None
           then Inl (plain_error (''input cannot terminalize from status '' @ in_status prior @ '': '' @ tf_input_id tf))
           else update_inputs (\<lambda>r. in_input_id r = tf_input_id tf \<and> in_landing_kind r = None \<and> in_terminal_kind r = None)
             (terminal_row tf) ''failed to reload terminal input '' (tf_input_id tf) d)"

definition record_correlation :: "string \<Rightarrow> correlation_fact \<Rightarrow> string \<Rightarrow> input_db \<Rightarrow> (input_db \<times> input_row) result" where
  "record_correlation inputId obs observedAt d =
     then_do (require_input ''input not found for correlation '' d inputId) (\<lambda>prior.
       update_inputs (\<lambda>r. in_input_id r = inputId)
         (\<lambda>r. r\<lparr>in_uncertainty := Some (show_fact obs), in_updated_at := observedAt\<rparr>)
         ''failed to reload correlated input '' inputId d)"

definition list_protected_by_invocation :: "string \<Rightarrow> input_db \<Rightarrow> input_row list" where
  "list_protected_by_invocation invocationId d = sort_key (\<lambda>r. (in_created_at r, in_input_id r))
     (filter (\<lambda>r. in_invocation_id r = Some invocationId \<and> in_cleanup_protection r = ''protected'') (id_inputs d))"

definition list_protected_by_runtime :: "string \<Rightarrow> input_db \<Rightarrow> input_row list" where
  "list_protected_by_runtime runtimeId d = sort_key (\<lambda>r. (in_created_at r, in_input_id r))
     (filter (\<lambda>r. in_runtime_id r = Some runtimeId \<and> in_cleanup_protection r = ''protected'') (id_inputs d))"

section \<open>Lifecycle facts\<close>

record projection_ctx =
  pc_runtime_id :: string
  pc_host_session_id :: string
  pc_scope_ref :: string
  pc_lane_ref :: string
  pc_generation :: int
  pc_transport :: string
  pc_run_id :: "string option"

definition input_event :: "string \<Rightarrow> string \<Rightarrow> projection_ctx \<Rightarrow> string option \<Rightarrow> json \<Rightarrow> ledger_row" where
  "input_event kind ts ctx runId payload =
     \<lparr>hr_hrc_seq = 0, hr_stream_seq = 0, hr_source_ref = None, hr_origin_seq = None, hr_ts = ts,
      hr_host_session_id = pc_host_session_id ctx, hr_scope_ref = pc_scope_ref ctx, hr_lane_ref = pc_lane_ref ctx,
      hr_generation = pc_generation ctx, hr_runtime_id = Some (pc_runtime_id ctx), hr_run_id = runId,
      hr_launch_id = None, hr_app_id = None, hr_app_session_key = None, hr_category = ''input'',
      hr_event_kind = kind, hr_transport = Some (pc_transport ctx), hr_error_code = None, hr_replayed = False,
      hr_evidence_origin = None, hr_payload = payload\<rparr>"

definition append_input_event :: "ledger_row \<Rightarrow> input_db \<Rightarrow> input_db" where
  "append_input_event event d = d\<lparr>id_ledger := snd (append_persisted event (id_ledger d))\<rparr>"

definition opt_field :: "string \<Rightarrow> json option \<Rightarrow> json_object" where
  "opt_field k v = (case v of None \<Rightarrow> [] | Some j \<Rightarrow> [(k, j)])"

section \<open>Evidence\<close>

record input_envelope =
  ev_invocation_id :: string
  ev_type :: string
  ev_time :: "string option"
  ev_input_id :: "string option"
  ev_turn_id :: "string option"
  ev_harness_generation :: "int option"
  ev_turn_attempt :: "int option"
  ev_payload :: json

definition payload_string :: "json \<Rightarrow> string \<Rightarrow> string option" where
  "payload_string payload k = (case payload of JObj ob \<Rightarrow> jstring ob k | _ \<Rightarrow> None)"

definition extract_turn_id :: "input_envelope \<Rightarrow> string option" where
  "extract_turn_id ev = orelse (ev_turn_id ev) (payload_string (ev_payload ev) ''turnId'')"

definition get_invocation :: "input_db \<Rightarrow> string \<Rightarrow> placed_invocation option" where
  "get_invocation d k = row_get pi_invocation_id (id_invocations d) k"

definition get_runtime :: "input_db \<Rightarrow> string \<Rightarrow> placed_runtime option" where
  "get_runtime d k = row_get pr_runtime_id (id_runtimes d) k"

definition placed_at :: "placed_invocation \<Rightarrow> placed_runtime \<Rightarrow> input_row \<Rightarrow> bool" where
  "placed_at iv rt r = (in_invocation_id r = Some (pi_invocation_id iv)
     \<and> in_runtime_id r = Some (pr_runtime_id rt) \<and> in_operation_id r = Some (pi_operation_id iv))"

definition native_ids :: "input_envelope \<Rightarrow> string list" where
  "native_ids ev = remdups (List.map_filter (\<lambda>x. x) [ev_input_id ev, payload_string (ev_payload ev) ''inputId'',
     payload_string (ev_payload ev) ''submissionId''])"

definition input_for_envelope :: "input_envelope \<Rightarrow> placed_invocation \<Rightarrow> placed_runtime \<Rightarrow> input_db \<Rightarrow> input_row option" where
  "input_for_envelope ev iv rt d =
     (case remdups (filter (placed_at iv rt) (List.map_filter (get_by_submission d) (native_ids ev))) of
        [r] \<Rightarrow> Some r | _ \<Rightarrow> None)"

definition inputs_for_disposition :: "placed_invocation \<Rightarrow> placed_runtime \<Rightarrow> string \<Rightarrow> string \<Rightarrow> input_db \<Rightarrow> input_row list" where
  "inputs_for_disposition iv rt turnId type d =
     rev (remdups (rev (filter (placed_at iv rt) (List.map_filter
       (\<lambda>be. if be_invocation_id be = pi_invocation_id iv \<and> be_type be = type then
            (case be_event_json be of
               Some payload \<Rightarrow> if payload_string payload ''turnId'' = Some turnId
                 then Option.bind (payload_string payload ''submissionId'') (get_by_submission d) else None
             | None \<Rightarrow> None)
          else None)
       (sort_key be_seq (db_broker_events (rs_db (id_store d))))))))"

section \<open>Projection of evidence\<close>

definition landed_event :: "landing \<Rightarrow> string \<Rightarrow> projection_ctx \<Rightarrow> ledger_row" where
  "landed_event ld submission ctx = input_event ''input.landed'' (ld_landed_at ld) ctx (Some (ld_carrier_run_id ld))
     (JObj [(''inputId'', JStr (ld_input_id ld)), (''kind'', JStr (show_landing (ld_kind ld))),
       (''carrierRunId'', JStr (ld_carrier_run_id ld)), (''turnId'', JStr (ld_turn_id ld)),
       (''brokerSubmissionId'', JStr submission), (''runStartedHrcSeq'', JNum (ld_run_started_hrc_seq ld))])"

definition carrier_matches :: "landing \<Rightarrow> input_row \<Rightarrow> run_row \<Rightarrow> bool" where
  "carrier_matches ld r run = (complete_coordinate r \<and> r_execution_format run = Some ''format2''
     \<and> Some (r_host_session_id run) = in_host_session_id r \<and> r_runtime_id run = in_runtime_id r
     \<and> r_operation_id run = in_operation_id r \<and> r_invocation_id run = in_invocation_id r
     \<and> r_native_turn_id run = Some (ld_turn_id ld)
     \<and> r_observed_start_hrc_seq run = Some (ld_run_started_hrc_seq ld))"

text \<open>The initiating input is written on its run, unless the run names another.\<close>

definition claim_initiating :: "landing \<Rightarrow> run_row \<Rightarrow> string option \<Rightarrow> input_db \<Rightarrow> input_db result" where
  "claim_initiating ld run tok d =
     (if ld_kind ld \<noteq> Initiating then Inr d
      else case r_initiating_input_id run of
        Some held \<Rightarrow> if held = ld_input_id ld then Inr d
          else Inl (plain_error (''format-2 initiating input conflict for '' @ ld_carrier_run_id ld))
      | None \<Rightarrow> (case run_update (ld_carrier_run_id ld)
          (no_patch\<lparr>p_initiating_input_id := Some (ld_input_id ld), p_updated_at := Some (ld_landed_at ld)\<rparr>) tok (id_store d) of
            (st, Inl e) \<Rightarrow> Inl e
          | (st, Inr _) \<Rightarrow> Inr (d\<lparr>id_store := st\<rparr>)))"

definition land_input :: "landing \<Rightarrow> projection_ctx \<Rightarrow> string option \<Rightarrow> input_db \<Rightarrow> input_db result" where
  "land_input ld ctx tok d =
     (case get_input d (ld_input_id ld) of
        None \<Rightarrow> Inr d
      | Some r \<Rightarrow>
          if in_landing_kind r \<noteq> None \<or> in_status r \<noteq> ''accepted'' then Inr d
          else (case get_by_run_id (rs_db (id_store d)) (ld_carrier_run_id ld) of
              None \<Rightarrow> Inl (plain_error (''format-2 carrier run missing: '' @ ld_carrier_run_id ld))
            | Some run \<Rightarrow>
                if \<not> carrier_matches ld r run
                then Inl (plain_error (''format-2 input landing carrier coordinate mismatch: '' @ ld_input_id ld))
                else then_do (claim_initiating ld run tok d) (\<lambda>d1.
                  then_do (record_landing ld d1) (\<lambda>(d2, landed).
                    case in_broker_submission_id landed of
                      None \<Rightarrow> Inl (plain_error (''format-2 landed input has no broker submission: '' @ in_input_id landed))
                    | Some submission \<Rightarrow> Inr (append_input_event (landed_event ld submission ctx) d2)))))"

text \<open>What an envelope concerns: its invocation, its runtime and the one input it names.\<close>

definition subject_of :: "input_envelope \<Rightarrow> input_db \<Rightarrow> input_row option" where
  "subject_of ev d =
     (case get_invocation d (ev_invocation_id ev) of None \<Rightarrow> None
      | Some iv \<Rightarrow> (case get_runtime d (pi_runtime_id iv) of None \<Rightarrow> None
        | Some rt \<Rightarrow> input_for_envelope ev iv rt d))"

definition land_from_envelope ::
  "input_envelope \<Rightarrow> projection_ctx \<Rightarrow> landing_kind \<Rightarrow> string \<Rightarrow> string option \<Rightarrow> input_db \<Rightarrow> input_db result" where
  "land_from_envelope ev ctx kind now tok d =
     (case pc_run_id ctx of None \<Rightarrow> Inr d
      | Some runId \<Rightarrow>
          (case (get_invocation d (ev_invocation_id ev), get_runtime d (pc_runtime_id ctx), extract_turn_id ev,
             Option.bind (get_by_run_id (rs_db (id_store d)) runId) r_observed_start_hrc_seq) of
             (Some iv, Some rt, Some turnId, Some startedSeq) \<Rightarrow>
               (case input_for_envelope ev iv rt d of None \<Rightarrow> Inr d
                | Some r \<Rightarrow> land_input \<lparr>ld_input_id = in_input_id r, ld_kind = kind, ld_carrier_run_id = runId,
                    ld_turn_id = turnId, ld_run_started_hrc_seq = startedSeq, ld_landed_at = now\<rparr> ctx tok d)
           | _ \<Rightarrow> Inr d))"

definition envelope_reason :: "input_envelope \<Rightarrow> string option" where
  "envelope_reason ev = orelse (payload_string (ev_payload ev) ''reason'') (payload_string (ev_payload ev) ''message'')"

definition terminal_from_envelope :: "input_envelope \<Rightarrow> projection_ctx \<Rightarrow> terminal_kind \<Rightarrow> string \<Rightarrow> input_db \<Rightarrow> input_db result" where
  "terminal_from_envelope ev ctx kind now d =
     (case subject_of ev d of None \<Rightarrow> Inr d
      | Some r \<Rightarrow>
          if in_status r \<noteq> ''accepted'' \<or> in_landing_kind r \<noteq> None then Inr d
          else (let at = or_default (ev_time ev) now in
            then_do (record_terminal \<lparr>tf_input_id = in_input_id r, tf_terminal = kind, tf_terminal_at = at,
                tf_error_code = None, tf_error_message = envelope_reason ev\<rparr> d) (\<lambda>(d', terminalized).
              Inr (append_input_event (input_event ''input.terminal'' at ctx None
                (JObj ([(''inputId'', JStr (in_input_id terminalized)), (''terminal'', JStr (show_terminal kind))]
                  @ opt_field ''error'' (map_option (\<lambda>m. JObj [(''message'', JStr m)]) (envelope_reason ev))))) d'))))"

definition correlate_input ::
  "input_row \<Rightarrow> projection_ctx \<Rightarrow> correlation_fact \<Rightarrow> string \<Rightarrow> string option \<Rightarrow> input_db \<Rightarrow> input_db result" where
  "correlate_input r ctx obs now detail d =
     then_do (record_correlation (in_input_id r) obs now d) (\<lambda>(d', correlated).
       Inr (append_input_event (input_event ''input.correlation'' now ctx (in_carrier_run_id correlated)
         (JObj ([(''inputId'', JStr (in_input_id correlated)), (''fact'', JStr (show_fact obs))]
           @ opt_field ''detail'' (map_option JStr detail)))) d'))"

definition correlation_from_envelope :: "input_envelope \<Rightarrow> projection_ctx \<Rightarrow> correlation_fact \<Rightarrow> string \<Rightarrow> input_db \<Rightarrow> input_db result" where
  "correlation_from_envelope ev ctx obs now d =
     (case subject_of ev d of None \<Rightarrow> Inr d
      | Some r \<Rightarrow> correlate_input r ctx obs (or_default (ev_time ev) now) (envelope_reason ev) d)"

fun correlate_all ::
  "input_row list \<Rightarrow> projection_ctx \<Rightarrow> correlation_fact \<Rightarrow> string \<Rightarrow> string option \<Rightarrow> input_db \<Rightarrow> input_db result" where
  "correlate_all [] ctx obs now detail d = Inr d"
| "correlate_all (r # rs) ctx obs now detail d =
     then_do (correlate_input r ctx obs now detail d) (correlate_all rs ctx obs now detail)"

definition invocation_correlation :: "input_envelope \<Rightarrow> projection_ctx \<Rightarrow> correlation_fact \<Rightarrow> string \<Rightarrow> input_db \<Rightarrow> input_db result" where
  "invocation_correlation ev ctx obs now d =
     correlate_all (list_protected_by_invocation (ev_invocation_id ev) d) ctx obs (or_default (ev_time ev) now)
       (orelse (payload_string (ev_payload ev) ''reason'') (payload_string (ev_payload ev) ''code'')) d"

text \<open>The input branches of \<open>projectFormat2Turn\<close>.\<close>

definition project_submission :: "input_envelope \<Rightarrow> projection_ctx \<Rightarrow> string \<Rightarrow> string option \<Rightarrow> input_db \<Rightarrow> input_db result" where
  "project_submission ev ctx now tok d =
     (if ev_type ev = ''submission.executed'' \<or> ev_type ev = ''turn.attributed'' then land_from_envelope ev ctx Initiating now tok d
      else if ev_type ev = ''submission.absorbed'' then land_from_envelope ev ctx Joined now tok d
      else if ev_type ev = ''submission.rejected'' then terminal_from_envelope ev ctx Rejected now d
      else if ev_type ev = ''submission.withdrawn'' then terminal_from_envelope ev ctx Withdrawn now d
      else if ev_type ev = ''submission.lost'' then correlation_from_envelope ev ctx Lost now d
      else if ev_type ev = ''submission.expired'' then correlation_from_envelope ev ctx Expired now d
      else if ev_type ev = ''submission.cancelled'' then correlation_from_envelope ev ctx Cancelled now d
      else Inr d)"

section \<open>The execution of a native turn\<close>

record turn_start =
  ts_run_id :: string
  ts_turn_id :: string
  ts_initiating_input_id :: "string option"
  ts_joined_input_ids :: "string list"
  ts_minted :: bool

definition show_opt_int :: "int option \<Rightarrow> string" where
  "show_opt_int n = (case n of None \<Rightarrow> ''-'' | Some i \<Rightarrow> show_int i)"

definition format2_turn_key :: "input_envelope \<Rightarrow> placed_invocation \<Rightarrow> placed_runtime \<Rightarrow> string \<Rightarrow> string" where
  "format2_turn_key ev iv rt turnId = pr_runtime_id rt @ ''|'' @ pi_operation_id iv @ ''|'' @ pi_invocation_id iv
     @ ''|'' @ turnId @ ''|g='' @ show_opt_int (ev_harness_generation ev) @ ''|a='' @ show_opt_int (ev_turn_attempt ev)"

definition lifecycle_transport :: "string \<Rightarrow> string" where
  "lifecycle_transport t = (if t = ''sdk'' \<or> t = ''tmux'' \<or> t = ''headless'' then t else ''headless'')"

definition minted_run :: "string \<Rightarrow> input_envelope \<Rightarrow> placed_invocation \<Rightarrow> placed_runtime \<Rightarrow> int \<Rightarrow> string \<Rightarrow> string \<Rightarrow> string option \<Rightarrow> run_row" where
  "minted_run runId ev iv rt generation turnId now initiating =
     \<lparr>r_run_id = runId, r_host_session_id = pr_host_session_id rt, r_runtime_id = Some (pr_runtime_id rt),
      r_scope_ref = pr_scope_ref rt, r_lane_ref = pr_lane_ref rt, r_generation = generation,
      r_transport = lifecycle_transport (pr_transport rt), r_status = RRunning, r_accepted_at = None,
      r_started_at = Some (or_default (ev_time ev) now), r_completed_at = None, r_updated_at = now,
      r_error_code = None, r_error_message = None, r_execution_format = Some ''format2'',
      r_turn_key = Some (format2_turn_key ev iv rt turnId), r_native_turn_id = Some turnId,
      r_native_harness_generation = ev_harness_generation ev, r_native_turn_attempt = ev_turn_attempt ev,
      r_initiating_input_id = initiating, r_ownership_conflict_json = None, r_observation_state = Some ''observed'',
      r_observed_start_hrc_seq = None, r_operation_id = Some (pi_operation_id iv),
      r_invocation_id = Some (pi_invocation_id iv), r_dispatched_input_id = None, r_broker_submission_id = None,
      r_broker_input_fenced_at = None, r_broker_input_fence_reason = None, r_dispatch_idempotency_key = None,
      r_queue_snapshot_id = None, r_queued_input_seq = None, r_queue_snapshot_position = None,
      r_coalesced_into_run_id = None, r_coalesced_position = None, r_origin_actor = None, r_origin_kind = None,
      r_origin_causation_ref = None, r_correlation_json = None\<rparr>"

definition prepare_turn_start ::
  "input_envelope \<Rightarrow> placed_invocation \<Rightarrow> placed_runtime \<Rightarrow> int \<Rightarrow> string \<Rightarrow> string \<Rightarrow> string option \<Rightarrow> bool \<Rightarrow> input_db
    \<Rightarrow> (input_db \<times> turn_start option) result" where
  "prepare_turn_start ev iv rt generation now runId tok retained d =
     (if retained \<or> pi_execution_format iv \<noteq> ''format2'' \<or> ev_type ev \<noteq> ''turn.started'' then Inr (d, None)
      else case extract_turn_id ev of None \<Rightarrow> Inr (d, None)
      | Some turnId \<Rightarrow>
         (case get_by_turn_key (rs_db (id_store d)) (format2_turn_key ev iv rt turnId) of
            Some run \<Rightarrow> Inr (d, Some \<lparr>ts_run_id = r_run_id run, ts_turn_id = turnId,
              ts_initiating_input_id = r_initiating_input_id run, ts_joined_input_ids = [], ts_minted = False\<rparr>)
          | None \<Rightarrow>
             (let executed = inputs_for_disposition iv rt turnId ''submission.executed'' d;
                  initiating = map_option in_input_id
                    (orelse (input_for_envelope ev iv rt d) (case executed of [] \<Rightarrow> None | r # _ \<Rightarrow> Some r));
                  joined = filter (\<lambda>i. Some i \<noteq> initiating)
                    (map in_input_id (inputs_for_disposition iv rt turnId ''submission.absorbed'' d)) in
              case run_insert (minted_run runId ev iv rt generation turnId now initiating) tok (id_store d) of
                (st, Inl e) \<Rightarrow> Inl e
              | (st, Inr _) \<Rightarrow> Inr (d\<lparr>id_store := st\<rparr>, Some \<lparr>ts_run_id = runId, ts_turn_id = turnId,
                  ts_initiating_input_id = initiating, ts_joined_input_ids = remdups joined, ts_minted = True\<rparr>))))"

fun land_all :: "landing list \<Rightarrow> projection_ctx \<Rightarrow> string option \<Rightarrow> input_db \<Rightarrow> input_db result" where
  "land_all [] ctx tok d = Inr d"
| "land_all (ld # lds) ctx tok d = then_do (land_input ld ctx tok d) (land_all lds ctx tok)"

definition finalize_turn_start ::
  "turn_start \<Rightarrow> projection_ctx \<Rightarrow> (string \<times> int) option \<Rightarrow> string \<Rightarrow> string option \<Rightarrow> input_db \<Rightarrow> input_db result" where
  "finalize_turn_start ts ctx lifecycle now tok d =
     (case lifecycle of None \<Rightarrow> Inr d
      | Some (kind, seq) \<Rightarrow>
          if kind \<noteq> ''turn.started'' then Inr d
          else (case run_update (ts_run_id ts) (no_patch\<lparr>p_observed_start_hrc_seq := Some seq,
              p_observation_state := Some ''observed'', p_updated_at := Some now\<rparr>) tok (id_store d) of
              (st, Inl e) \<Rightarrow> Inl e
            | (st, Inr _) \<Rightarrow>
                (let ld = (\<lambda>kind i. \<lparr>ld_input_id = i, ld_kind = kind, ld_carrier_run_id = ts_run_id ts,
                       ld_turn_id = ts_turn_id ts, ld_run_started_hrc_seq = seq, ld_landed_at = now\<rparr>) in
                 land_all (map (ld Initiating) (case ts_initiating_input_id ts of None \<Rightarrow> [] | Some i \<Rightarrow> [i])
                   @ map (ld Joined) (ts_joined_input_ids ts)) ctx tok (d\<lparr>id_store := st\<rparr>))))"

section \<open>Admission\<close>

record dispatch_session =
  ds_host_session_id :: string
  ds_scope_ref :: string
  ds_lane_ref :: string
  ds_generation :: int

record dispatch_options =
  do_idempotency_key :: "string option"
  do_request_hash :: "string option"
  do_door :: "string option"
  do_origin :: "string option"
  do_established :: "string option"

record input_receipt =
  re_input_id :: string
  re_host_session_id :: string
  re_generation :: int
  re_runtime_id :: string
  re_invocation_id :: string
  re_after_seq :: int

definition conflict_error :: "string \<Rightarrow> js_error" where
  "conflict_error message = domain_error ''idempotency_key_conflict'' message []"

definition unavailable_error :: "string \<Rightarrow> js_error" where
  "unavailable_error message = domain_error ''runtime_unavailable'' message []"

definition reuse_refusal :: string where
  "reuse_refusal = ''caller-surface-reuse-refusal''"

definition dispatch_identity :: "dispatch_options \<Rightarrow> (string \<times> string) result" where
  "dispatch_identity opts = (case (do_idempotency_key opts, do_request_hash opts) of
     (Some k, Some h) \<Rightarrow> Inr (k, h)
   | _ \<Rightarrow> Inl (conflict_error ''format2 dispatch requires an idempotency key and canonical request hash''))"

definition admission_rows :: "string \<Rightarrow> string \<Rightarrow> string \<Rightarrow> ledger \<Rightarrow> ledger_row list" where
  "admission_rows inputId runtimeId invocationId l = filter (\<lambda>r. hr_event_kind r = ''input.admitted''
     \<and> hr_runtime_id r = Some runtimeId \<and> payload_string (hr_payload r) ''inputId'' = Some inputId
     \<and> payload_string (hr_payload r) ''invocationId'' = Some invocationId) (lg_rows l)"

definition find_admission_after_seq :: "string \<Rightarrow> string \<Rightarrow> string \<Rightarrow> ledger \<Rightarrow> int option" where
  "find_admission_after_seq inputId runtimeId invocationId l =
     (case admission_rows inputId runtimeId invocationId l of
        [r] \<Rightarrow> (case hr_payload r of
            JObj ob \<Rightarrow> (case jnumber ob ''afterSeq'' of Some n \<Rightarrow> if 0 \<le> n then Some n else None | None \<Rightarrow> None)
          | _ \<Rightarrow> None)
      | _ \<Rightarrow> None)"

definition format2_receipt :: "dispatch_session \<Rightarrow> placed_runtime \<Rightarrow> input_row \<Rightarrow> input_db \<Rightarrow> input_receipt result" where
  "format2_receipt session rt r d =
     (case (in_invocation_id r, in_runtime_id r) of
        (Some invocationId, Some runtimeId) \<Rightarrow>
          (case find_admission_after_seq (in_input_id r) runtimeId invocationId (id_ledger d) of
             None \<Rightarrow> Inl (unavailable_error ''format2 input is missing its durable admission fence'')
           | Some afterSeq \<Rightarrow> Inr \<lparr>re_input_id = in_input_id r, re_host_session_id = ds_host_session_id session,
               re_generation = pr_generation rt, re_runtime_id = runtimeId, re_invocation_id = invocationId,
               re_after_seq = afterSeq\<rparr>)
      | _ \<Rightarrow> Inl (unavailable_error ''format2 input has no durable invocation placement''))"

definition max_broker_seq :: "string \<Rightarrow> input_db \<Rightarrow> int" where
  "max_broker_seq invocationId d =
     (case map be_seq (filter (\<lambda>e. be_invocation_id e = invocationId) (db_broker_events (rs_db (id_store d)))) of
        [] \<Rightarrow> 0 | n # ns \<Rightarrow> fold max ns n)"

definition accepted_input ::
  "string \<Rightarrow> string \<Rightarrow> string \<Rightarrow> string \<Rightarrow> string \<Rightarrow> string \<Rightarrow> string \<Rightarrow> string option \<Rightarrow> dispatch_options \<Rightarrow> string \<Rightarrow> input_row" where
  "accepted_input inputId host key hash runtimeId operationId invocationId submission opts now =
     \<lparr>in_input_id = inputId, in_admission_host_session_id = host, in_idempotency_key = key, in_request_hash = hash,
      in_host_session_id = Some host, in_runtime_id = Some runtimeId, in_operation_id = Some operationId,
      in_invocation_id = Some invocationId, in_broker_submission_id = submission, in_door = do_door opts,
      in_admission_class = do_door opts, in_origin = do_origin opts, in_status = ''accepted'', in_uncertainty = None,
      in_cleanup_protection = ''protected'', in_landing_kind = None, in_carrier_run_id = None, in_turn_id = None,
      in_run_started_hrc_seq = None, in_legacy_run_id = None, in_admitted_at = Some now, in_landed_at = None,
      in_terminal_at = None, in_terminal_kind = None, in_error_code = None, in_error_message = None,
      in_created_at = now, in_updated_at = now\<rparr>"

definition admitted_event :: "dispatch_session \<Rightarrow> string \<Rightarrow> string \<Rightarrow> input_row \<Rightarrow> string \<Rightarrow> int \<Rightarrow> string \<Rightarrow> ledger_row" where
  "admitted_event session runtimeId transport r invocationId afterSeq now =
     input_event ''input.admitted'' now \<lparr>pc_runtime_id = runtimeId, pc_host_session_id = ds_host_session_id session,
         pc_scope_ref = ds_scope_ref session, pc_lane_ref = ds_lane_ref session, pc_generation = ds_generation session,
         pc_transport = transport, pc_run_id = None\<rparr> None
       (JObj ([(''inputId'', JStr (in_input_id r)), (''idempotencyKey'', JStr (in_idempotency_key r)),
         (''requestHash'', JStr (in_request_hash r))]
         @ opt_field ''brokerSubmissionId'' (map_option JStr (in_broker_submission_id r))
         @ [(''invocationId'', JStr invocationId), (''afterSeq'', JNum afterSeq)]
         @ opt_field ''door'' (map_option JStr (in_door r))))"

text \<open>
  The reservation: the input row and its admission fact, in one transaction. A warm dispatch reserves
  on the live invocation; a cold start reserves its initial input with the submission id that the
  start request carries.
\<close>

definition reserve_input ::
  "dispatch_session \<Rightarrow> string \<Rightarrow> string \<Rightarrow> string \<Rightarrow> input_row \<Rightarrow> string \<Rightarrow> input_db \<Rightarrow> (input_db \<times> input_row) result" where
  "reserve_input session runtimeId transport invocationId rec now d =
     then_do (input_insert rec d) (\<lambda>(d', admitted).
       Inr (append_input_event (admitted_event session runtimeId transport admitted invocationId
         (max_broker_seq invocationId d) now) d', admitted))"

definition reserve_warm_input ::
  "dispatch_session \<Rightarrow> placed_runtime \<Rightarrow> string \<Rightarrow> string \<Rightarrow> string \<Rightarrow> dispatch_options \<Rightarrow> string \<Rightarrow> input_db \<Rightarrow> (input_db \<times> input_row) result" where
  "reserve_warm_input session rt inputId key hash opts now d =
     (case (pr_active_invocation_id rt, pr_active_operation_id rt) of
        (Some invocationId, Some operationId) \<Rightarrow>
          reserve_input session (pr_runtime_id rt) ''headless'' invocationId
            (accepted_input inputId (ds_host_session_id session) key hash (pr_runtime_id rt) operationId invocationId None opts now) now d
      | _ \<Rightarrow> Inl (unavailable_error ''format2 runtime has no invocation placement''))"

definition reserve_cold_input ::
  "dispatch_session \<Rightarrow> placed_runtime \<Rightarrow> string \<Rightarrow> string \<Rightarrow> string \<Rightarrow> string \<Rightarrow> string \<Rightarrow> dispatch_options \<Rightarrow> string \<Rightarrow> input_db
    \<Rightarrow> (input_db \<times> input_row) result" where
  "reserve_cold_input session rt inputId key hash operationId invocationId opts now =
     reserve_input session (pr_runtime_id rt) (lifecycle_transport (pr_transport rt)) invocationId
       (accepted_input inputId (ds_host_session_id session) key hash (pr_runtime_id rt) operationId invocationId (Some inputId) opts now) now"

datatype dispatch_step = Replied input_receipt | Submitting input_row placed_runtime | Starting

definition unavailable_status :: "string \<Rightarrow> bool" where
  "unavailable_status st = (st \<in> set [''terminated'', ''dead'', ''stale'', ''crashed'', ''detached''])"

definition live_runtime :: "string \<Rightarrow> input_db \<Rightarrow> placed_runtime option" where
  "live_runtime host d =
     (case rev (filter (\<lambda>rt. pr_controller_kind rt = ''harness-broker'' \<and> pr_active_invocation_id rt \<noteq> None
         \<and> \<not> unavailable_status (pr_status rt))
       (sort_key (\<lambda>rt. (pr_created_at rt, pr_runtime_id rt)) (filter (\<lambda>rt. pr_host_session_id rt = host) (id_runtimes d)))) of
       [] \<Rightarrow> None | rt # _ \<Rightarrow> Some rt)"

text \<open>The dispatch up to its first suspension: a replay, a warm reservation, or a cold start.\<close>

definition dispatch_admit ::
  "dispatch_session \<Rightarrow> dispatch_options \<Rightarrow> string \<Rightarrow> string \<Rightarrow> input_db \<Rightarrow> (input_db \<times> dispatch_step) result" where
  "dispatch_admit session opts inputId now d =
     then_do (dispatch_identity opts) (\<lambda>(key, hash).
       case get_by_admission d (ds_host_session_id session) key of
         Some existing \<Rightarrow>
           if in_request_hash existing \<noteq> hash
           then Inl (conflict_error ''format2 idempotency key was replayed with a different request'')
           else (case (Option.bind (in_runtime_id existing) (get_runtime d), in_invocation_id existing) of
               (Some rt, Some invocationId) \<Rightarrow>
                 if do_established opts \<noteq> None \<and> Some invocationId \<noteq> do_established opts
                 then Inl (unavailable_error reuse_refusal)
                 else then_do (format2_receipt session rt existing d) (\<lambda>receipt. Inr (d, Replied receipt))
             | _ \<Rightarrow> Inl (unavailable_error ''format2 admission has no live durable placement''))
       | None \<Rightarrow>
           (case live_runtime (ds_host_session_id session) d of
              Some rt \<Rightarrow>
                if do_established opts \<noteq> None \<and> pr_active_invocation_id rt \<noteq> do_established opts
                then Inl (unavailable_error reuse_refusal)
                else if map_option pi_execution_format (Option.bind (pr_active_invocation_id rt) (get_invocation d))
                  \<noteq> Some ''format2''
                then Inl (conflict_error ''format2 dispatch cannot join a format1 invocation'')
                else then_do (reserve_warm_input session rt inputId key hash opts now d)
                  (\<lambda>(d', r). Inr (d', Submitting r rt))
            | None \<Rightarrow> if do_established opts \<noteq> None then Inl (unavailable_error reuse_refusal)
                else Inr (d, Starting)))"

datatype submit_result = Sub_Ok string | Sub_Refused | Sub_Threw

text \<open>The rest of a warm dispatch: an error of the submission or of the binding is logged.\<close>

definition dispatch_settle ::
  "dispatch_session \<Rightarrow> input_row \<Rightarrow> placed_runtime \<Rightarrow> submit_result \<Rightarrow> string \<Rightarrow> input_db \<Rightarrow> input_db \<times> input_receipt result" where
  "dispatch_settle session r rt result now d =
     (let d' = (case result of
        Sub_Ok submission \<Rightarrow> (case bind_broker_submission (in_input_id r) submission now d of
            Inl e \<Rightarrow> d | Inr (d', bound) \<Rightarrow> d')
      | _ \<Rightarrow> d) in (d', format2_receipt session rt r d'))"

text \<open>The acceptance callback of a cold start.\<close>

definition dispatch_accepted :: "dispatch_session \<Rightarrow> string \<Rightarrow> placed_runtime \<Rightarrow> input_db \<Rightarrow> input_receipt result" where
  "dispatch_accepted session key rt d =
     (case get_by_admission d (ds_host_session_id session) key of
        None \<Rightarrow> Inl (unavailable_error ''format2 start graph did not reserve its initial input'')
      | Some r \<Rightarrow> if in_invocation_id r = None
          then Inl (unavailable_error ''format2 start graph did not reserve its initial input'')
          else format2_receipt session rt r d)"

end
