(* ===== verification/Session_Rotation.thy ===== *)
theory Session_Rotation
  imports Session_Store Input_Ledger
begin

text \<open>
  How the active session of a scope and lane is replaced: the rotation of a context
  (hrc-server/src/runtime-control-handlers/session-rotation.ts), the successor made from a kept
  continuation (session-successor.ts and the historical resume of
  target-message-successor-handlers.ts), the first session of a lane (resolve --create of
  server-session-methods.ts and the mint of scope-claim-core.ts) and the fence of a retired scope
  (server-status-methods.ts). A rotation suspends between its check and its transaction, a mint
  between the check that no session exists and its callback; both are split there. The lifecycle
  events that follow a commit and a relaunch are left out.
\<close>

section \<open>Rotation\<close>

text \<open>The parser of scope references and the allowlist of local personas.\<close>

record session_env =
  se_parse :: "string \<Rightarrow> scope_identity option"
  se_allowlist :: "string list option"

definition is_app_scope :: "string \<Rightarrow> bool" where
  "is_app_scope scopeRef = (starts_with scopeRef ''app:'' \<and> drop 4 scopeRef \<noteq> [])"

definition assert_local_persona_allowed :: "session_env \<Rightarrow> string \<Rightarrow> unit result" where
  "assert_local_persona_allowed env scopeRef =
     (case se_allowlist env of
        None \<Rightarrow> Inr ()
      | Some allowlist \<Rightarrow>
          if is_app_scope scopeRef
          then Inl (domain_error ''stale_context'' (''local persona allowlist refuses app session scope \"'' @ scopeRef @ ''\"'')
            [(''scopeRef'', JStr scopeRef), (''reason'', JStr ''app-session-not-allowed''),
             (''allowedPersonaIds'', JArr (map JStr allowlist))])
          else (case se_parse env scopeRef of
              None \<Rightarrow> Inl (plain_error (''invalid scope ref '' @ scopeRef))
            | Some identity \<Rightarrow>
                if si_agent identity \<in> set allowlist then Inr ()
                else Inl (domain_error ''stale_context'' (''local persona allowlist rejected agent \"'' @ si_agent identity @ ''\"'')
                  [(''scopeRef'', JStr scopeRef), (''agentId'', JStr (si_agent identity)),
                   (''reason'', JStr ''local-persona-not-allowed''), (''allowedPersonaIds'', JArr (map JStr allowlist))])))"

text \<open>Dropping \<open>presentation.operator\<close>; a presentation that is empty then goes as well.\<close>

definition without_key :: "string \<Rightarrow> json_object \<Rightarrow> json_object" where
  "without_key k ob = filter (\<lambda>kv. fst kv \<noteq> k) ob"

fun without_per_birth_operator_choice :: "json \<Rightarrow> json" where
  "without_per_birth_operator_choice (JObj intent) =
     (case jget intent ''presentation'' of
        Some (JObj presentation) \<Rightarrow>
          if jget presentation ''operator'' = None then JObj intent
          else (let rest = without_key ''presentation'' intent; kept = without_key ''operator'' presentation in
            JObj (if kept \<noteq> [] then rest @ [(''presentation'', JObj kept)] else rest))
      | _ \<Rightarrow> JObj intent)"
| "without_per_birth_operator_choice intent = intent"

record claim_input =
  ci_key :: string
  ci_hash :: string
  ci_subject :: string
  ci_now :: string

record rotate_options =
  ro_drop :: bool
  ro_intent :: "json option"
  ro_claim :: "claim_input option"

record rotation =
  rn_id :: nat
  rn_session :: session_record
  rn_next :: hrc_session
  rn_now :: string
  rn_claim :: "claim_input option"

definition successor_intent :: "rotate_options \<Rightarrow> json option \<Rightarrow> json option" where
  "successor_intent opts inherited = orelse (ro_intent opts)
     (if ro_drop opts then map_option without_per_birth_operator_choice inherited else inherited)"

definition next_session :: "session_record \<Rightarrow> rotate_options \<Rightarrow> string \<Rightarrow> string \<Rightarrow> hrc_session" where
  "next_session s opts newHost now =
     \<lparr>ss_host = newHost, ss_scope = ss_scope s, ss_lane = ss_lane s, ss_generation = ss_generation s + 1,
       ss_status = SActive, ss_prior = Some (ss_host s), ss_created = now, ss_updated = now,
       ss_intent = successor_intent opts (ss_intent s),
       ss_continuation = (if ro_drop opts then None else ss_continuation s)\<rparr>"

text \<open>Up to \<open>await invalidateHostContext\<close>.\<close>

definition rotate_begin ::
  "session_env \<Rightarrow> nat \<Rightarrow> session_record \<Rightarrow> rotate_options \<Rightarrow> string \<Rightarrow> string \<Rightarrow> session_db \<Rightarrow> rotation result" where
  "rotate_begin env i s opts newHost now db = then_do (assert_local_persona_allowed env (ss_scope s)) (\<lambda>_.
     then_do (require_continuity db s) (\<lambda>c.
       if cr_active c \<noteq> ss_host s
       then Inl (domain_error ''stale_context'' ''host session is no longer active''
         [(''expectedHostSessionId'', JStr (ss_host s)), (''activeHostSessionId'', JStr (cr_active c))])
       else Inr \<lparr>rn_id = i, rn_session = s, rn_next = next_session s opts newHost now, rn_now = now, rn_claim = ro_claim opts\<rparr>))"

definition durable_claim_row :: "claim_input \<Rightarrow> string \<Rightarrow> string \<Rightarrow> roster_claim" where
  "durable_claim_row ci claimedScope host = \<lparr>rc_key = ci_key ci, rc_hash = ci_hash ci, rc_base = ci_subject ci,
     rc_claimed = claimedScope, rc_successor = host, rc_created = ci_now ci\<rparr>"

definition record_claim :: "claim_input option \<Rightarrow> 'a hrc_session_scheme \<Rightarrow> session_db \<Rightarrow> session_db result" where
  "record_claim ci s db = (case ci of None \<Rightarrow> Inr db | Some c \<Rightarrow> claim_insert (durable_claim_row c (ss_scope s) (ss_host s)) db)"

text \<open>The transactions; an error rolls back, so it leaves no store.\<close>

definition replace_session ::
  "session_env \<Rightarrow> string \<Rightarrow> hrc_session \<Rightarrow> string \<Rightarrow> session_db \<Rightarrow> session_db result" where
  "replace_session env priorHost s now db =
     then_do (session_insert s (session_update_status priorHost SArchived now db)) (\<lambda>db'.
       Inr (continuity_upsert (se_parse env) (ss_scope s) (ss_lane s) (ss_host s) now db'))"

definition rotate_commit :: "session_env \<Rightarrow> rotation \<Rightarrow> session_db \<Rightarrow> session_db result" where
  "rotate_commit env r db =
     then_do (replace_session env (ss_host (rn_session r)) (rn_next r) (rn_now r) db) (record_claim (rn_claim r) (rn_next r))"

section \<open>Successors and first sessions\<close>

definition successor_session :: "session_record \<Rightarrow> int option \<Rightarrow> json option \<Rightarrow> string \<Rightarrow> string \<Rightarrow> hrc_session" where
  "successor_session prior gen intent newHost now =
     \<lparr>ss_host = newHost, ss_scope = ss_scope prior, ss_lane = ss_lane prior,
       ss_generation = or_default gen (ss_generation prior + 1), ss_status = SActive,
       ss_prior = Some (ss_host prior), ss_created = now, ss_updated = now,
       ss_intent = orelse intent (ss_intent prior), ss_continuation = ss_continuation prior\<rparr>"

definition create_successor ::
  "session_env \<Rightarrow> session_record \<Rightarrow> int option \<Rightarrow> json option \<Rightarrow> string \<Rightarrow> string \<Rightarrow> session_db \<Rightarrow> session_db result" where
  "create_successor env prior gen intent newHost now =
     replace_session env (ss_host prior) (successor_session prior gen intent newHost now) now"

text \<open>An explicit resume of an older session, with the provider continuation the caller selected.\<close>

definition historical_successor ::
  "session_env \<Rightarrow> session_record \<Rightarrow> session_record \<Rightarrow> json \<Rightarrow> json option \<Rightarrow> string \<Rightarrow> string \<Rightarrow> session_db \<Rightarrow> session_db result" where
  "historical_successor env selected current continuation intent newHost now =
     create_successor env (selected\<lparr>ss_continuation := Some continuation\<rparr>)
       (Some (max (ss_generation selected) (ss_generation current) + 1)) intent newHost now"

record mint =
  mn_id :: nat
  mn_scope :: string
  mn_lane :: string
  mn_claim :: "claim_input option"

definition first_session :: "mint \<Rightarrow> string \<Rightarrow> string \<Rightarrow> hrc_session" where
  "first_session m newHost now =
     \<lparr>ss_host = newHost, ss_scope = mn_scope m, ss_lane = mn_lane m, ss_generation = 1, ss_status = SActive,
       ss_prior = None, ss_created = now, ss_updated = now, ss_intent = None, ss_continuation = None\<rparr>"

definition insert_first :: "session_env \<Rightarrow> mint \<Rightarrow> string \<Rightarrow> string \<Rightarrow> session_db \<Rightarrow> session_db result" where
  "insert_first env m newHost now db =
     then_do (session_insert (first_session m newHost now) db) (\<lambda>db'.
       Inr (continuity_upsert (se_parse env) (mn_scope m) (mn_lane m) newHost now db'))"

text \<open>The mint of a claim; it writes the claim in the same transaction.\<close>

definition claim_mint_commit :: "session_env \<Rightarrow> mint \<Rightarrow> claim_input \<Rightarrow> string \<Rightarrow> string \<Rightarrow> session_db \<Rightarrow> session_db result" where
  "claim_mint_commit env m ci newHost now db =
     then_do (insert_first env m newHost now db) (record_claim (Some (ci\<lparr>ci_now := now\<rparr>)) (first_session m newHost now))"

text \<open>The mint of \<open>resolve --create\<close>, which looks again.\<close>

definition resolve_mint_commit :: "session_env \<Rightarrow> mint \<Rightarrow> string \<Rightarrow> string \<Rightarrow> session_db \<Rightarrow> session_db result" where
  "resolve_mint_commit env m newHost now db =
     (if continuity_session db (mn_scope m) (mn_lane m) \<noteq> None then Inr db else insert_first env m newHost now db)"

definition mint_commit :: "session_env \<Rightarrow> mint \<Rightarrow> string \<Rightarrow> string \<Rightarrow> session_db \<Rightarrow> session_db result" where
  "mint_commit env m newHost now db =
     (case mn_claim m of
        None \<Rightarrow> resolve_mint_commit env m newHost now db
      | Some ci \<Rightarrow> claim_mint_commit env m ci newHost now db)"

text \<open>The fence of a retired scope.\<close>

definition fence_continuities :: "string \<Rightarrow> string \<Rightarrow> session_db \<Rightarrow> session_db" where
  "fence_continuities scopeRef fencedAt db =
     (let (db', continuities) = disassociate_scope scopeRef db in
      fold (\<lambda>c. set_continuation_reuse_disabled (cr_active c) True fencedAt) continuities db')"

section \<open>Histories\<close>

record session_world =
  sw_db :: session_db
  sw_rotations :: "rotation list"
  sw_mints :: "mint list"

definition new_world :: session_world where
  "new_world = \<lparr>sw_db = no_sessions, sw_rotations = [], sw_mints = []\<rparr>"

datatype session_op =
    Rotate_Begin nat session_record rotate_options string string
  | Rotate_Commit nat
  | Mint_Begin nat string string "claim_input option"
  | Mint_Commit nat string string
  | Successor session_record "json option" string string
  | Historical session_record session_record json "json option" string string
  | Archive string string
  | Set_Intent string "json option" string
  | Set_Continuation string json string
  | Set_Reuse_Disabled string bool string
  | Fence_Scope string string

definition commit :: "session_db result \<Rightarrow> session_world \<Rightarrow> session_world" where
  "commit r w = (case r of Inl e \<Rightarrow> w | Inr db \<Rightarrow> w\<lparr>sw_db := db\<rparr>)"

fun session_step :: "session_env \<Rightarrow> session_op \<Rightarrow> session_world \<Rightarrow> session_world" where
  "session_step env (Rotate_Begin i s opts newHost now) w =
     (case rotate_begin env i s opts newHost now (sw_db w) of
        Inl e \<Rightarrow> w | Inr r \<Rightarrow> w\<lparr>sw_rotations := sw_rotations w @ [r]\<rparr>)"
| "session_step env (Rotate_Commit i) w =
     (case row_get rn_id (sw_rotations w) i of
        None \<Rightarrow> w
      | Some r \<Rightarrow> commit (rotate_commit env r (sw_db w)) (w\<lparr>sw_rotations := remove1 r (sw_rotations w)\<rparr>))"
| "session_step env (Mint_Begin i scopeRef laneRef ci) w =
     (if continuity_session (sw_db w) scopeRef laneRef \<noteq> None then w
      else w\<lparr>sw_mints := sw_mints w @ [\<lparr>mn_id = i, mn_scope = scopeRef, mn_lane = laneRef, mn_claim = ci\<rparr>]\<rparr>)"
| "session_step env (Mint_Commit i newHost now) w =
     (case row_get mn_id (sw_mints w) i of
        None \<Rightarrow> w
      | Some m \<Rightarrow> commit (mint_commit env m newHost now (sw_db w)) (w\<lparr>sw_mints := remove1 m (sw_mints w)\<rparr>))"
| "session_step env (Successor s intent newHost now) w = commit (create_successor env s None intent newHost now (sw_db w)) w"
| "session_step env (Historical selected current continuation intent newHost now) w =
     commit (historical_successor env selected current continuation intent newHost now (sw_db w)) w"
| "session_step env (Archive host now) w = w\<lparr>sw_db := session_update_status host SArchived now (sw_db w)\<rparr>"
| "session_step env (Set_Intent host intent now) w = w\<lparr>sw_db := session_update_intent host intent now (sw_db w)\<rparr>"
| "session_step env (Set_Continuation host continuation now) w =
     w\<lparr>sw_db := session_update_continuation host continuation now (sw_db w)\<rparr>"
| "session_step env (Set_Reuse_Disabled host disabled now) w =
     w\<lparr>sw_db := set_continuation_reuse_disabled host disabled now (sw_db w)\<rparr>"
| "session_step env (Fence_Scope scopeRef now) w = w\<lparr>sw_db := fence_continuities scopeRef now (sw_db w)\<rparr>"

text \<open>
  Who calls with a session has read it from the store before; host session identifiers are not empty.
\<close>

definition known :: "session_db \<Rightarrow> 'a hrc_session_scheme \<Rightarrow> bool" where
  "known db s = (\<exists>r \<in> set (sd_sessions db). ss_host r = ss_host s \<and> of_lane (ss_scope s) (ss_lane s) r
     \<and> ss_generation r = ss_generation s)"

fun session_allowed :: "session_op \<Rightarrow> session_world \<Rightarrow> bool" where
  "session_allowed (Rotate_Begin i s opts newHost now) w = (known (sw_db w) s \<and> newHost \<noteq> [])"
| "session_allowed (Mint_Commit i newHost now) w = (newHost \<noteq> [])"
| "session_allowed (Successor s intent newHost now) w = (known (sw_db w) s \<and> newHost \<noteq> [])"
| "session_allowed (Historical selected current continuation intent newHost now) w = (known (sw_db w) selected \<and> newHost \<noteq> [])"
| "session_allowed _ w = True"

section \<open>Lineages are kept\<close>

text \<open>What an update leaves of a row, and what a longer store keeps of a shorter one.\<close>

definition row_shape :: "'a hrc_session_scheme \<Rightarrow> string \<times> string \<times> string \<times> int \<times> string option" where
  "row_shape r = (ss_host r, ss_scope r, ss_lane r, ss_generation r, ss_prior r)"

definition extends_rows :: "session_row list \<Rightarrow> session_row list \<Rightarrow> bool" where
  "extends_rows rows rows' = (row_shape ` set rows \<subseteq> row_shape ` set rows')"

lemma extends_refl [simp]: "extends_rows rows rows"
  by (simp add: extends_rows_def)

lemma extends_trans: "extends_rows a b \<Longrightarrow> extends_rows b c \<Longrightarrow> extends_rows a c"
  by (auto simp: extends_rows_def)

lemma extends_row: "extends_rows rows rows' \<Longrightarrow> r \<in> set rows \<Longrightarrow> \<exists>r' \<in> set rows'. row_shape r' = row_shape r"
  unfolding extends_rows_def by (metis image_iff imageI subsetD)

lemma known_extends:
  assumes "known db s" "extends_rows (sd_sessions db) (sd_sessions db')"
  shows "known db' s"
proof -
  obtain r where r: "r \<in> set (sd_sessions db)" "ss_host r = ss_host s" "of_lane (ss_scope s) (ss_lane s) r" "ss_generation r = ss_generation s"
    using assms(1) by (auto simp: known_def)
  then obtain r' where "r' \<in> set (sd_sessions db')" "row_shape r' = row_shape r" using extends_row [OF assms(2)] by blast
  then show ?thesis using r by (auto simp: known_def row_shape_def of_lane_def)
qed

lemma prior_ok_extends:
  assumes "prior_ok (set rows) r" "extends_rows rows rows'" "row_shape r' = row_shape r"
  shows "prior_ok (set rows') r'"
proof (cases "ss_prior r")
  case (Some p)
  then obtain q where q: "q \<in> set rows" "ss_host q = p" "of_lane (ss_scope r) (ss_lane r) q" "ss_generation q < ss_generation r"
    using assms(1) by (auto simp: prior_ok_def)
  then obtain q' where "q' \<in> set rows'" "row_shape q' = row_shape q" using extends_row [OF assms(2)] by blast
  then show ?thesis using Some q assms(3) by (auto simp: prior_ok_def row_shape_def of_lane_def intro!: bexI [of _ q'])
qed (use assms(3) in \<open>simp add: prior_ok_def row_shape_def\<close>)

lemma continuity_known:
  assumes "lineage_ok db" "c \<in> set (sd_continuities db)" "extends_rows (sd_sessions db) rows"
  shows "\<exists>r \<in> set rows. ss_host r = cn_active c \<and> of_lane (cn_scope c) (cn_lane c) r"
proof -
  obtain r where r: "r \<in> set (sd_sessions db)" "ss_host r = cn_active c" "of_lane (cn_scope c) (cn_lane c) r"
    using assms(1,2) by (auto simp: lineage_ok_def)
  then obtain r' where "r' \<in> set rows" "row_shape r' = row_shape r" using extends_row [OF assms(3)] by blast
  then show ?thesis using r by (auto simp: row_shape_def of_lane_def)
qed

lemma lineage_same_shapes:
  assumes ok: "lineage_ok db" and shapes: "map row_shape rows = map row_shape (sd_sessions db)"
  shows "lineage_ok (db\<lparr>sd_sessions := rows\<rparr>)"
proof -
  have set: "row_shape ` set rows = row_shape ` set (sd_sessions db)" using shapes by (metis list.set_map)
  then have ext: "extends_rows (sd_sessions db) rows" by (simp add: extends_rows_def)
  have "map ss_host rows = map fst (map row_shape rows)" for rows :: "session_row list" by (simp add: row_shape_def comp_def)
  then have hosts: "map ss_host rows = map ss_host (sd_sessions db)" using shapes by metis
  have "ss_host r \<noteq> [] \<and> prior_ok (set rows) r" if "r \<in> set rows" for r
  proof -
    have "row_shape r \<in> row_shape ` set (sd_sessions db)" using that set by blast
    then obtain q where q: "q \<in> set (sd_sessions db)" "row_shape r = row_shape q" by blast
    then have "prior_ok (set rows) r" using prior_ok_extends [OF _ ext, of q r] ok by (simp add: lineage_ok_def)
    moreover have "ss_host r = ss_host q" using q(2) by (simp add: row_shape_def)
    ultimately show ?thesis using ok q(1) by (simp add: lineage_ok_def)
  qed
  then show ?thesis using ok continuity_known [OF ok _ ext] hosts by (auto simp: lineage_ok_def)
qed

lemma update_session_shapes:
  "(\<And>r. row_shape (f r) = row_shape r) \<Longrightarrow> map row_shape (sd_sessions (update_session h f db)) = map row_shape (sd_sessions db)"
  by (auto simp: update_session_def row_update_def comp_def)

lemma shapes_extend: "map row_shape rows = map row_shape rows' \<Longrightarrow> extends_rows rows rows'"
  by (simp add: extends_rows_def) (metis list.set_map order_refl)

text \<open>A step of the store: it keeps the shape of lineages and forgets no session.\<close>

definition grows :: "session_db \<Rightarrow> session_db \<Rightarrow> bool" where
  "grows db db' = (lineage_ok db' \<and> extends_rows (sd_sessions db) (sd_sessions db'))"

lemma grows_refl: "lineage_ok db \<Longrightarrow> grows db db"
  by (simp add: grows_def)

lemma grows_trans: "grows a b \<Longrightarrow> grows b c \<Longrightarrow> grows a c"
  by (auto simp: grows_def intro: extends_trans)

lemma update_session_grows:
  assumes "lineage_ok db" "\<And>r. row_shape (f r) = row_shape r"
  shows "grows db (update_session h f db)"
proof -
  note shapes = update_session_shapes [of f h db, OF assms(2)]
  have "lineage_ok (update_session h f db)"
    using lineage_same_shapes [OF assms(1), of "sd_sessions (update_session h f db)"] shapes by (simp add: update_session_def)
  then show ?thesis using shapes_extend shapes by (metis grows_def)
qed

lemma update_status_grows: "lineage_ok db \<Longrightarrow> grows db (session_update_status h st now db)"
  unfolding session_update_status_def by (rule update_session_grows) (simp_all add: row_shape_def)

lemma other_updates_grow:
  "lineage_ok db \<Longrightarrow> grows db (session_update_intent h i now db)"
  "lineage_ok db \<Longrightarrow> grows db (session_update_continuation h c now db)"
  "lineage_ok db \<Longrightarrow> grows db (set_continuation_reuse_disabled h b now db)"
  unfolding session_update_intent_def session_update_continuation_def set_continuation_reuse_disabled_def
  by (auto intro!: update_session_grows simp: row_shape_def)

lemma insert_grows:
  assumes ok: "lineage_ok db" and host: "ss_host s \<noteq> []"
    and prior: "case ss_prior s of None \<Rightarrow> True | Some p \<Rightarrow>
      (\<exists>q \<in> set (sd_sessions db). ss_host q = p \<and> of_lane (ss_scope s) (ss_lane s) q \<and> ss_generation q < ss_generation s)"
    and ins: "session_insert s db = Inr db'"
  shows "grows db db'" "\<exists>r \<in> set (sd_sessions db'). row_shape r = row_shape s" "sd_continuities db' = sd_continuities db"
proof -
  let ?r = "hrc_session.extend (hrc_session.truncate s) (session_row.fields False)"
  have db': "db' = db\<lparr>sd_sessions := sd_sessions db @ [?r]\<rparr>" "ss_host s \<notin> ss_host ` set (sd_sessions db)"
    using ins by (auto simp: session_insert_def split: if_splits)
  have sh: "row_shape ?r = row_shape s" by (simp add: row_shape_def hrc_session.defs session_row.defs)
  then have fields: "ss_host ?r = ss_host s" "ss_scope ?r = ss_scope s" "ss_lane ?r = ss_lane s" "ss_generation ?r = ss_generation s" "ss_prior ?r = ss_prior s"
    by (simp_all add: row_shape_def)
  have ext: "extends_rows (sd_sessions db) (sd_sessions db @ [?r])" by (auto simp: extends_rows_def)
  have "prior_ok (set (sd_sessions db @ [?r])) r" if "r \<in> set (sd_sessions db)" for r
    using prior_ok_extends [OF _ ext refl] ok that by (simp add: lineage_ok_def)
  moreover have "prior_ok (set (sd_sessions db @ [?r])) ?r"
    using prior fields by (auto simp: prior_ok_def of_lane_def split: option.splits)
  ultimately have "lineage_ok db'"
    using ok continuity_known [OF ok _ ext] db' fields host by (auto simp: lineage_ok_def)
  then show "grows db db'" using ext db' by (simp add: grows_def)
  show "\<exists>r \<in> set (sd_sessions db'). row_shape r = row_shape s" using sh db' by auto
  show "sd_continuities db' = sd_continuities db" using db' by simp
qed

lemma upsert_sessions [simp]: "sd_sessions (continuity_upsert p s l a now db) = sd_sessions db"
  "sd_claims (continuity_upsert p s l a now db) = sd_claims db"
  by (simp_all add: continuity_upsert_def Let_def)

lemma upsert_rows:
  assumes "c \<in> set (sd_continuities (continuity_upsert p s l a now db))"
  shows "(cn_key c = (s, l) \<and> cn_active c = a) \<or> (c \<in> set (sd_continuities db) \<and> cn_key c \<noteq> (s, l))"
  using assms by (auto simp: continuity_upsert_def Let_def row_get_None_iff row_update_def cn_key_def split: if_splits)

lemma upsert_keys_distinct:
  assumes "distinct (map cn_key (sd_continuities db))"
  shows "distinct (map cn_key (sd_continuities (continuity_upsert p s l a now db)))"
proof (cases "row_get cn_key (sd_continuities db) (s, l) = None")
  case True
  then show ?thesis using assms by (auto simp: continuity_upsert_def Let_def row_get_None_iff cn_key_def)
next
  case False
  then show ?thesis
    using assms row_update_keys [of cn_key "\<lambda>c. c\<lparr>cn_active := a, cn_updated := now\<rparr>"]
    by (auto simp: continuity_upsert_def Let_def cn_key_def)
qed

lemma upsert_grows:
  assumes ok: "lineage_ok db" and a: "\<exists>r \<in> set (sd_sessions db). ss_host r = a \<and> of_lane s l r"
  shows "grows db (continuity_upsert p s l a now db)"
proof -
  have "\<exists>r \<in> set (sd_sessions db). ss_host r = cn_active c \<and> of_lane (cn_scope c) (cn_lane c) r"
    if "c \<in> set (sd_continuities (continuity_upsert p s l a now db))" for c
    using upsert_rows [OF that] a ok by (auto simp: lineage_ok_def cn_key_def)
  then show ?thesis using ok upsert_keys_distinct by (auto simp: grows_def lineage_ok_def)
qed

lemma record_claim_sessions:
  assumes "record_claim ci s db = Inr db'"
  shows "sd_sessions db' = sd_sessions db" "sd_continuities db' = sd_continuities db"
  using assms by (auto simp: record_claim_def claim_insert_def split: option.splits if_splits)

lemma record_claim_grows: "record_claim ci s db = Inr db' \<Longrightarrow> lineage_ok db \<Longrightarrow> grows db db'"
  using record_claim_sessions [of ci s db db'] by (simp add: grows_def lineage_ok_def)

text \<open>A session that follows another one in its lane.\<close>

definition follows :: "hrc_session \<Rightarrow> 'a hrc_session_scheme \<Rightarrow> bool" where
  "follows s prior = (ss_host s \<noteq> [] \<and> ss_scope s = ss_scope prior \<and> ss_lane s = ss_lane prior
     \<and> ss_generation prior < ss_generation s \<and> ss_prior s = Some (ss_host prior))"

lemma replace_grows:
  assumes ok: "lineage_ok db" and k: "known db prior" and f: "follows s prior"
    and r: "replace_session env (ss_host prior) s now db = Inr db'"
  shows "grows db db'"
proof -
  let ?db1 = "session_update_status (ss_host prior) SArchived now db"
  have g1: "grows db ?db1" by (rule update_status_grows [OF ok])
  then have ok1: "lineage_ok ?db1" "known ?db1 prior" using known_extends [OF k] by (simp_all add: grows_def)
  obtain db2 where i: "session_insert s ?db1 = Inr db2"
      "db' = continuity_upsert (se_parse env) (ss_scope s) (ss_lane s) (ss_host s) now db2"
    using r by (auto simp: replace_session_def then_do_Inr_iff)
  have p: "case ss_prior s of None \<Rightarrow> True | Some p \<Rightarrow>
      (\<exists>q \<in> set (sd_sessions ?db1). ss_host q = p \<and> of_lane (ss_scope s) (ss_lane s) q \<and> ss_generation q < ss_generation s)"
    using ok1(2) f by (auto simp: known_def follows_def)
  have h: "ss_host s \<noteq> []" using f by (simp add: follows_def)
  note ins = insert_grows [OF ok1(1) h p i(1)]
  have "\<exists>r \<in> set (sd_sessions db2). ss_host r = ss_host s \<and> of_lane (ss_scope s) (ss_lane s) r"
    using ins(2) by (auto simp: row_shape_def of_lane_def)
  then have "grows db2 db'" using upsert_grows ins(1) i(2) by (auto simp: grows_def)
  then show ?thesis using g1 ins(1) grows_trans by blast
qed

lemma rotate_begin_facts:
  assumes "rotate_begin env i s opts newHost now db = Inr r"
  shows "rn_id r = i" "rn_session r = s" "rn_next r = next_session s opts newHost now" "rn_claim r = ro_claim opts"
    "\<exists>c. get_by_key db (ss_scope s) (ss_lane s) = Some c \<and> cr_active c = ss_host s"
  using assms by (auto simp: rotate_begin_def require_continuity_def then_do_Inr_iff split: option.splits if_splits)

lemma rotate_commit_grows:
  assumes "lineage_ok db" "known db (rn_session r)" "follows (rn_next r) (rn_session r)" "rotate_commit env r db = Inr db'"
  shows "grows db db'"
proof -
  obtain db1 where "replace_session env (ss_host (rn_session r)) (rn_next r) (rn_now r) db = Inr db1" "record_claim (rn_claim r) (rn_next r) db1 = Inr db'"
    using assms(4) by (auto simp: rotate_commit_def then_do_Inr_iff)
  then show ?thesis using replace_grows [OF assms(1-3)] record_claim_grows grows_trans by (metis grows_def)
qed

lemma create_successor_grows:
  assumes "lineage_ok db" "known db prior" "newHost \<noteq> []" "case gen of None \<Rightarrow> True | Some g \<Rightarrow> ss_generation prior < g"
    "create_successor env prior gen intent newHost now db = Inr db'"
  shows "grows db db'"
proof -
  have "follows (successor_session prior gen intent newHost now) prior"
    using assms(3,4) by (auto simp: follows_def successor_session_def split: option.splits)
  then show ?thesis using replace_grows [OF assms(1,2)] assms(5) by (auto simp: create_successor_def)
qed

lemma historical_grows:
  assumes "lineage_ok db" "known db selected" "newHost \<noteq> []"
    "historical_successor env selected current continuation intent newHost now db = Inr db'"
  shows "grows db db'"
  using create_successor_grows [OF assms(1) _ assms(3) _ assms(4) [unfolded historical_successor_def]] assms(2)
  by (simp add: known_def)

lemma insert_first_grows:
  assumes ok: "lineage_ok db" and h: "newHost \<noteq> []" and i: "insert_first env m newHost now db = Inr db'"
  shows "grows db db'"
proof -
  obtain db1 where d: "session_insert (first_session m newHost now) db = Inr db1"
      "db' = continuity_upsert (se_parse env) (mn_scope m) (mn_lane m) newHost now db1"
    using i by (auto simp: insert_first_def then_do_Inr_iff)
  have f: "ss_host (first_session m newHost now) \<noteq> []" "ss_prior (first_session m newHost now) = None"
    using h by (simp_all add: first_session_def)
  note ins = insert_grows [OF ok f(1) _ d(1)]
  have g: "grows db db1" "\<exists>r \<in> set (sd_sessions db1). row_shape r = row_shape (first_session m newHost now)"
    using ins f(2) by simp_all
  have "\<exists>r \<in> set (sd_sessions db1). ss_host r = newHost \<and> of_lane (mn_scope m) (mn_lane m) r"
    using g(2) by (auto simp: row_shape_def of_lane_def first_session_def)
  then have "grows db1 db'" using upsert_grows g(1) d(2) by (auto simp: grows_def)
  then show ?thesis using g(1) grows_trans by blast
qed

lemma mint_commit_grows:
  assumes ok: "lineage_ok db" and h: "newHost \<noteq> []"
    and c: "mint_commit env m newHost now db = Inr db'"
  shows "grows db db'"
proof (cases "mn_claim m")
  case None
  then show ?thesis using c insert_first_grows [OF ok h] grows_refl [OF ok] by (auto simp: mint_commit_def resolve_mint_commit_def split: if_splits)
next
  case (Some ci)
  then obtain db1 where d: "insert_first env m newHost now db = Inr db1"
      "record_claim (Some (ci\<lparr>ci_now := now\<rparr>)) (first_session m newHost now) db1 = Inr db'"
    using c by (auto simp: mint_commit_def claim_mint_commit_def then_do_Inr_iff)
  have "grows db db1" by (rule insert_first_grows [OF ok h d(1)])
  then show ?thesis using record_claim_grows [OF d(2)] grows_trans by (auto simp: grows_def)
qed

lemma disassociate_grows: "lineage_ok db \<Longrightarrow> grows db (fst (disassociate_scope scopeRef db))"
  by (auto simp: grows_def lineage_ok_def disassociate_scope_def Let_def distinct_map intro: inj_on_subset)

lemma fence_grows:
  assumes ok: "lineage_ok db"
  shows "grows db (fence_continuities scopeRef now db)"
proof -
  obtain db' cs where d: "disassociate_scope scopeRef db = (db', cs)" by (cases "disassociate_scope scopeRef db")
  have "grows db' (fold (\<lambda>c. set_continuation_reuse_disabled (cr_active c) True now) cs db')" if "lineage_ok db'" for cs db'
    using that
  proof (induction cs arbitrary: db')
    case (Cons c cs)
    have g: "grows db' (set_continuation_reuse_disabled (cr_active c) True now db')" using other_updates_grow(3) [OF Cons.prems] .
    then show ?case using Cons.IH [of "set_continuation_reuse_disabled (cr_active c) True now db'"] grows_trans by (auto simp: grows_def)
  qed (simp add: grows_refl)
  moreover have "grows db db'" using disassociate_grows [OF ok, of scopeRef] d by simp
  ultimately show ?thesis using d grows_trans by (auto simp: fence_continuities_def grows_def)
qed

definition world_lineage :: "session_world \<Rightarrow> bool" where
  "world_lineage w = (lineage_ok (sw_db w)
     \<and> (\<forall>r \<in> set (sw_rotations w). known (sw_db w) (rn_session r) \<and> follows (rn_next r) (rn_session r)))"

lemma commit_lineage:
  assumes "world_lineage w" "\<And>db. res = Inr db \<Longrightarrow> grows (sw_db w) db" "set (sw_rotations w') \<subseteq> set (sw_rotations w)" "sw_db w' = sw_db w"
  shows "world_lineage (commit res w')"
proof (cases res)
  case (Inr db)
  then have "grows (sw_db w) db" by (rule assms(2))
  then show ?thesis using assms Inr known_extends [of "sw_db w" _ db] by (auto simp: world_lineage_def commit_def grows_def)
qed (use assms in \<open>auto simp: world_lineage_def commit_def\<close>)

lemma set_db_lineage: "world_lineage w \<Longrightarrow> grows (sw_db w) db \<Longrightarrow> world_lineage (w\<lparr>sw_db := db\<rparr>)"
  using commit_lineage [of w "Inr db" w] by (simp add: commit_def)

lemma session_step_lineage:
  assumes a: "session_allowed l w" and ok: "world_lineage w"
  shows "world_lineage (session_step env l w)"
proof -
  have db: "lineage_ok (sw_db w)" using ok by (simp add: world_lineage_def)
  show ?thesis
  proof (cases l)
    case (Rotate_Begin i s opts newHost now)
    have "follows (next_session s opts newHost now) s" if "newHost \<noteq> []" using that by (simp add: follows_def next_session_def)
    then show ?thesis using Rotate_Begin a ok rotate_begin_facts by (fastforce simp: world_lineage_def split: sum.splits)
  next
    case (Rotate_Commit i)
    have "world_lineage (commit (rotate_commit env r (sw_db w)) (w\<lparr>sw_rotations := remove1 r (sw_rotations w)\<rparr>))"
      if "row_get rn_id (sw_rotations w) i = Some r" for r
      by (rule commit_lineage [OF ok])
        (use ok row_get_SomeD [OF that] in \<open>auto simp: world_lineage_def dest: set_remove1_subset [THEN subsetD] intro!: rotate_commit_grows [OF db]\<close>)
    then show ?thesis using Rotate_Commit ok by (simp split: option.splits)
  next
    case (Mint_Commit i newHost now)
    then show ?thesis using ok a mint_commit_grows [OF db]
      by (auto split: option.splits intro!: commit_lineage [OF ok])
  next
    case (Successor s intent newHost now)
    then show ?thesis using a create_successor_grows [OF db, of s newHost None] by (auto intro!: commit_lineage [OF ok])
  next
    case (Historical selected current continuation intent newHost now)
    then show ?thesis using ok a historical_grows [OF db] by (auto intro!: commit_lineage [OF ok])
  next
    case Mint_Begin
    then show ?thesis using ok by (simp add: world_lineage_def)
  qed (use set_db_lineage [OF ok] update_status_grows [OF db] other_updates_grow [OF db] fence_grows [OF db] in simp_all)
qed

interpretation sessions: guarded_history "session_step env" session_allowed world_lineage for env
  by unfold_locales (rule session_step_lineage)

definition session_history :: "session_env \<Rightarrow> session_op list \<Rightarrow> session_world" where
  "session_history env ls = fold (session_step env) ls new_world"

lemma new_world_lineage: "world_lineage new_world"
  by (simp add: world_lineage_def new_world_def no_sessions_def lineage_ok_def)

lemma session_history_lineage: "sessions.disciplined env ls new_world \<Longrightarrow> world_lineage (session_history env ls)"
  unfolding session_history_def by (rule sessions.disciplined_keeps [OF _ new_world_lineage])

text \<open>
  C9. Generations form lineages: in every history of rotations, successors, resumes, first sessions and
  fences, however they interleave, the continuity of a scope and lane names a session of that lane, and
  the prior sessions it reports are exactly the chain of that session's ancestors, the first session of
  the lane first.
\<close>

theorem continuity_reports_its_ancestry:
  assumes "sessions.disciplined env ls new_world" "get_by_key (sw_db (session_history env ls)) scopeRef laneRef = Some c"
  shows "(\<exists>r \<in> set (sd_sessions (sw_db (session_history env ls))). ss_host r = cr_active c \<and> of_lane scopeRef laneRef r)
    \<and> ancestry (sd_sessions (sw_db (session_history env ls))) (cr_active c # rev (cr_priors c))"
proof -
  let ?db = "sw_db (session_history env ls)"
  have ok: "lineage_ok ?db" using session_history_lineage [OF assms(1)] by (simp add: world_lineage_def)
  obtain cn where cn: "row_get cn_key (sd_continuities ?db) (scopeRef, laneRef) = Some cn" "cr_active c = cn_active cn"
      "cr_priors c = derive_priors ?db (cn_scope cn) (cn_lane cn) (cn_active cn)"
    using assms(2) by (auto simp: get_by_key_def)
  then have "cn \<in> set (sd_continuities ?db)" "cn_scope cn = scopeRef" "cn_lane cn = laneRef"
    using row_get_SomeD by (fastforce simp: cn_key_def)+
  then obtain r where "r \<in> set (sd_sessions ?db)" "ss_host r = cn_active cn" "of_lane scopeRef laneRef r"
    using continuity_known [OF ok, of cn "sd_sessions ?db"] by auto
  then show ?thesis using derive_priors_ancestry [OF ok, of r] cn \<open>cn_scope cn = scopeRef\<close> \<open>cn_lane cn = laneRef\<close>
    by (auto simp: of_lane_def)
qed

section \<open>Active sessions that no continuity names\<close>







text \<open>The active sessions, by scope, lane and identifier, and those that their continuity does not name.\<close>

definition actives :: "session_db \<Rightarrow> (string \<times> string \<times> string) set" where
  "actives db = (\<lambda>r. (ss_scope r, ss_lane r, ss_host r)) ` {r \<in> set (sd_sessions db). ss_status r = SActive}"






lemma actives_upsert [simp]: "actives (continuity_upsert p s l a now db) = actives db"
  by (simp add: actives_def)



















section \<open>Examples and races\<close>

definition bare_env :: session_env where
  "bare_env = \<lparr>se_parse = (\<lambda>s. None), se_allowlist = None\<rparr>"

definition plain_rotation :: rotate_options where
  "plain_rotation = \<lparr>ro_drop = True, ro_intent = None, ro_claim = None\<rparr>"

definition session_of :: "session_world \<Rightarrow> string \<Rightarrow> session_record" where
  "session_of w host = (case get_by_host (sw_db w) host of Some s \<Rightarrow> s
     | None \<Rightarrow> hrc_session.extend (first_session \<lparr>mn_id = 0, mn_scope = [], mn_lane = [], mn_claim = None\<rparr> host []) (session_record.fields None))"

definition born :: "session_op list" where
  "born = [Mint_Begin 0 ''s'' ''main'' None, Mint_Commit 0 ''a'' ''1'']"

abbreviation born_session :: session_record where
  "born_session \<equiv> session_of (session_history bare_env born) ''a''"

definition example_rotations :: "session_op list" where
  "example_rotations = born @ [Rotate_Begin 1 born_session plain_rotation ''b'' ''2'', Rotate_Commit 1]"

definition racing_rotations :: "session_op list" where
  "racing_rotations = born @ [Rotate_Begin 1 born_session plain_rotation ''b'' ''2'', Rotate_Begin 2 born_session plain_rotation ''c'' ''3'',
     Rotate_Commit 1, Rotate_Commit 2]"

definition example_claim_input :: claim_input where
  "example_claim_input = \<lparr>ci_key = ''k'', ci_hash = ''h'', ci_subject = ''s'', ci_now = ''2''\<rparr>"

definition racing_mints :: "session_op list" where
  "racing_mints = [Mint_Begin 1 ''s'' ''main'' (Some example_claim_input), Mint_Begin 2 ''s'' ''main'' None, Mint_Commit 2 ''a'' ''1'', Mint_Commit 1 ''b'' ''2'']"

definition displacing_resume :: "session_op list" where
  "displacing_resume = example_rotations @ [Historical born_session (session_of (session_history bare_env example_rotations) ''b'')
     (JObj [(''key'', JStr ''k1'')]) None ''c'' ''4'']"

definition lane_view :: "session_op list \<Rightarrow> (string \<times> int \<times> string option) list \<times> string list" where
  "lane_view ls = (let db = sw_db (session_history bare_env ls) in
     (map (\<lambda>r. (ss_host r, ss_generation r, ss_prior r)) (filter (\<lambda>r. ss_status r = SActive) (sd_sessions db)), map cn_active (sd_continuities db)))"

lemma races_disciplined:
  "sessions.disciplined bare_env racing_rotations new_world" "sessions.disciplined bare_env racing_mints new_world"
  "sessions.disciplined bare_env displacing_resume new_world"
  "sessions.disciplined bare_env example_rotations new_world"
  unfolding racing_rotations_def racing_mints_def displacing_resume_def example_rotations_def append.simps born_def
    sessions.disciplined.simps
  by code_simp+

text \<open>
  Such steps leave two active sessions in one lane: after two interleaved rotations of one session,
  which both become generation 2 with the same prior; after the mint of a claim that checked before
  another first session was made, which both are generation 1; and after an explicit resume of an older
  session, which leaves the session it displaces active.
\<close>

theorem unchecked_commits_leave_two_active:
  "sessions.disciplined bare_env racing_rotations new_world
     \<and> lane_view racing_rotations = ([(''b'', 2, Some ''a''), (''c'', 2, Some ''a'')], [''c''])
     \<and> sessions.disciplined bare_env racing_mints new_world
     \<and> lane_view racing_mints = ([(''a'', 1, None), (''b'', 1, None)], [''b''])
     \<and> sessions.disciplined bare_env displacing_resume new_world
     \<and> lane_view displacing_resume = ([(''b'', 2, Some ''a''), (''c'', 3, Some ''a'')], [''c''])"
proof -
  have "lane_view racing_rotations = ([(''b'', 2, Some ''a''), (''c'', 2, Some ''a'')], [''c''])" by code_simp
  moreover have "lane_view racing_mints = ([(''a'', 1, None), (''b'', 1, None)], [''b''])" by code_simp
  moreover have "lane_view displacing_resume = ([(''b'', 2, Some ''a''), (''c'', 3, Some ''a'')], [''c''])" by code_simp
  ultimately show ?thesis using races_disciplined by blast
qed

theorem continuity_reports_its_ancestry_witness:
  "ancestry (sd_sessions (sw_db (session_history bare_env displacing_resume))) [''c'', ''a'']"
proof -
  obtain c where c: "get_by_key (sw_db (session_history bare_env displacing_resume)) ''s'' ''main'' = Some c" "cr_active c = ''c''" "cr_priors c = [''a'']"
  proof -
    have "map_option (\<lambda>c. (cr_active c, cr_priors c)) (get_by_key (sw_db (session_history bare_env displacing_resume)) ''s'' ''main'')
      = Some (''c'', [''a''])" by code_simp
    then show ?thesis using that by auto
  qed
  show ?thesis using continuity_reports_its_ancestry [OF races_disciplined(3) c(1)] c by simp
qed


end
