(* ===== verification/Scope_Claims.thy ===== *)
theory Scope_Claims
  imports Session_Rotation
begin

text \<open>
  Claim-and-start: a caller claims a scope that is free and starts it in one request, either the first
  free slot of a roster (hrc-server/src/roster-claim.ts) or the one scope it names
  (hrc-server/src/exact-claim.ts); both share the replay of a recorded claim, the test of freedom and
  the transactions of scope-claim-core.ts. The claims of one agent and project run one at a time (the
  chain of Authority_Lock), so a claim is one operation here, from its replay to the registration of
  its start (runtime-start-handlers.ts); the end of the start, with the intent that it may have written to
  its session, is a step of its own. Parsing and building scope references is code of the package
  agent-scope, and the request hash is SHA-256 of a canonical text: both are parameters. Requests
  with an initial prompt, which go through the turn admission, and remote homes are left out.
\<close>

section \<open>Requests\<close>

text \<open>\<open>Object.keys(record).sort()\<close>; an absent member and an undefined one are both left out of the object.\<close>

fun canonical_json :: "json \<Rightarrow> string" where
  "canonical_json (JArr vs) = ''['' @ comma_join (map canonical_json vs) @ '']''"
| "canonical_json (JObj ob) = ''{'' @ comma_join (map (\<lambda>(k, t). json_quote k @ '':'' @ t)
     (sort_key fst (map (\<lambda>(k, v). (k, canonical_json v)) ob))) @ ''}''"
| "canonical_json v = json_stringify v"

definition json_or_null :: "json option \<Rightarrow> json" where
  "json_or_null v = or_default v JNull"

record start_request =
  sq_ref :: string
  sq_key :: string
  sq_implicit :: bool
  sq_intent :: json
  sq_style :: "json option"

text \<open>An undefined member of these literals is written as null.\<close>

definition suffix_request_text :: "start_request \<Rightarrow> string" where
  "suffix_request_text q = canonical_json (JObj ([(''baseSessionRef'', JStr (sq_ref q)), (''conflictPolicy'', JStr ''suffix'')]
     @ (if sq_implicit q then [(''summonIntent'', JStr ''implicit'')] else [])
     @ [(''runtimeIntent'', sq_intent q), (''restartStyle'', json_or_null (sq_style q))]))"

definition exact_request_text :: "start_request \<Rightarrow> string" where
  "exact_request_text q = canonical_json (JObj [(''sessionRef'', JStr (sq_ref q)), (''conflictPolicy'', JStr ''reject''),
     (''summonIntent'', JStr ''implicit''),
     (''runtimeIntent'', sq_intent q), (''restartStyle'', json_or_null (sq_style q))])"

record claim_env = session_env +
  ce_build :: "string \<Rightarrow> string \<Rightarrow> string \<Rightarrow> string option \<Rightarrow> string"
  ce_hash :: "string \<Rightarrow> string"

record claim_scope =
  cs_scope :: string
  cs_lane :: string
  cs_agent :: string
  cs_project :: string
  cs_task :: string
  cs_role :: "string option"
  cs_mutex :: string

definition parse_claim_scope :: "claim_env \<Rightarrow> string \<Rightarrow> string \<Rightarrow> claim_scope result" where
  "parse_claim_scope env ref field = then_do (parse_session_ref ref) (\<lambda>(scopeRef, laneRef).
     case se_parse env scopeRef of
       None \<Rightarrow> Inl (domain_error ''malformed_request'' (field @ '' carries an invalid scope ref'')
         [(''field'', JStr field), (field, JStr ref)])
     | Some p \<Rightarrow>
         (case (si_project p, si_task p) of
            (Some project, Some task) \<Rightarrow> Inr \<lparr>cs_scope = scopeRef, cs_lane = laneRef, cs_agent = si_agent p,
              cs_project = project, cs_task = task, cs_role = si_role p,
              cs_mutex = ''roster:'' @ si_agent p @ '':'' @ project\<rparr>
          | _ \<Rightarrow> Inl (domain_error ''malformed_request''
              (''claim-and-start requires a project- and task-qualified scope in '' @ field)
              [(''field'', JStr field), (field, JStr ref)])))"

definition roster_slot_tokens :: "string \<Rightarrow> string list" where
  "roster_slot_tokens base = base # map (\<lambda>suffix. base @ ''-'' @ suffix) roster_suffixes"

definition slot_scope_ref :: "claim_env \<Rightarrow> claim_scope \<Rightarrow> string \<Rightarrow> string" where
  "slot_scope_ref env base slot = ce_build env (cs_agent base) (cs_project base) slot (cs_role base)"

definition slot_session_ref :: "claim_env \<Rightarrow> claim_scope \<Rightarrow> string \<Rightarrow> string" where
  "slot_session_ref env base slot = slot_scope_ref env base slot @ ''/lane:'' @ cs_lane base"

text \<open>Writing the session into the correlation of the intent.\<close>

definition member_object :: "string \<Rightarrow> json_object \<Rightarrow> json_object" where
  "member_object k ob = (case jget ob k of Some (JObj m) \<Rightarrow> m | _ \<Rightarrow> [])"

definition localize_intent :: "json_object \<Rightarrow> 'a hrc_session_scheme \<Rightarrow> json_object" where
  "localize_intent intent s =
     (let placement = member_object ''placement'' intent; correlation = member_object ''correlation'' placement in
      map_set ''placement'' (JObj (map_set ''correlation'' (JObj (map_set ''generation'' (JNum (ss_generation s))
        (map_set ''hostSessionId'' (JStr (ss_host s))
          (map_set ''sessionRef'' (JObj [(''scopeRef'', JStr (ss_scope s)), (''laneRef'', JStr (ss_lane s))]) correlation))))
        placement)) intent)"

section \<open>Freedom\<close>

text \<open>
  The claim's view of the server: the scopes of participant registrations, the scopes of held
  reservations, the host sessions with a start in flight, and the host session and status of every
  runtime.
\<close>

record claim_world =
  kw_db :: session_db
  kw_registered :: "string list"
  kw_held :: "string list"
  kw_starting :: "string list"
  kw_runtimes :: "(string \<times> string) list"

definition is_claim_scope_free :: "claim_world \<Rightarrow> 'a hrc_session_scheme \<Rightarrow> bool" where
  "is_claim_scope_free w s =
     (ss_scope s \<notin> set (kw_registered w) \<and> ss_scope s \<notin> set (kw_held w) \<and> ss_host s \<notin> set (kw_starting w)
      \<and> list_all (\<lambda>rt. fst rt = ss_host s \<longrightarrow> unavailable_status (snd rt)) (kw_runtimes w))"

section \<open>Claiming\<close>

definition replay_recorded_claim :: "session_db \<Rightarrow> string \<Rightarrow> string \<Rightarrow> (session_record \<times> string) option result" where
  "replay_recorded_claim db key requestHash =
     (case get_by_idempotency_key db key of
        None \<Rightarrow> Inr None
      | Some recorded \<Rightarrow>
          if rc_hash recorded \<noteq> requestHash
          then Inl (domain_error ''idempotency_key_conflict''
            ''idempotencyKey was already used for a different claim-and-start request''
            [(''idempotencyKey'', JStr key), (''baseScope'', JStr (rc_base recorded)), (''claimedScope'', JStr (rc_claimed recorded))])
          else (case get_by_host db (rc_successor recorded) of
              Some s \<Rightarrow>
                if ss_status s = SActive
                   \<and> map_option cr_active (get_by_key db (ss_scope s) (ss_lane s)) = Some (ss_host s)
                then Inr (Some (s, rc_claimed recorded))
                else Inl (domain_error ''roster_claim_superseded'' ''the recorded claim is no longer the active session''
                  [(''idempotencyKey'', JStr key), (''claimedScope'', JStr (rc_claimed recorded)),
                   (''successorHostSessionId'', JStr (rc_successor recorded))])
            | None \<Rightarrow> Inl (domain_error ''roster_claim_superseded'' ''the recorded claim is no longer the active session''
                [(''idempotencyKey'', JStr key), (''claimedScope'', JStr (rc_claimed recorded)),
                 (''successorHostSessionId'', JStr (rc_successor recorded))])))"

datatype claim_target = Replayed session_record | Fresh string string | Recycled session_record

text \<open>The walk over the slots of a roster.\<close>

fun first_free_slot :: "claim_env \<Rightarrow> claim_world \<Rightarrow> claim_scope \<Rightarrow> string list \<Rightarrow> claim_target option result" where
  "first_free_slot env w base [] = Inr None"
| "first_free_slot env w base (slot # slots) = then_do (find_continuity_session (kw_db w) (slot_session_ref env base slot)) (\<lambda>found.
     case found of
       None \<Rightarrow> Inr (Some (Fresh (slot_scope_ref env base slot) (cs_lane base)))
     | Some existing \<Rightarrow>
         if \<not> is_claim_scope_free w existing then first_free_slot env w base slots
         else Inr (Some (Recycled existing)))"

definition roster_exhausted :: "claim_scope \<Rightarrow> js_error" where
  "roster_exhausted base = domain_error ''session_roster_exhausted'' ''every roster slot for this scope is occupied by a live session''
     [(''baseScope'', JStr (cs_scope base)), (''laneRef'', JStr (cs_lane base)),
      (''slots'', JArr (map JStr (roster_slot_tokens (cs_task base))))]"

definition prepare_claim_target :: "claim_env \<Rightarrow> claim_world \<Rightarrow> claim_scope \<Rightarrow> string \<Rightarrow> string \<Rightarrow> claim_target result" where
  "prepare_claim_target env w base key requestHash = then_do (replay_recorded_claim (kw_db w) key requestHash) (\<lambda>replayed.
     case replayed of
       Some (s, _) \<Rightarrow> Inr (Replayed s)
     | None \<Rightarrow> then_do (first_free_slot env w base (roster_slot_tokens (cs_task base))) (\<lambda>target.
         case target of Some t \<Rightarrow> Inr t | None \<Rightarrow> Inl (roster_exhausted base)))"

definition scope_occupied :: "claim_scope \<Rightarrow> session_record \<Rightarrow> js_error" where
  "scope_occupied scope existing = domain_error ''session_scope_occupied'' ''the exact scope is occupied by a live session''
     [(''scopeRef'', JStr (cs_scope scope)), (''laneRef'', JStr (cs_lane scope)),
      (''sessionRef'', JStr (cs_scope scope @ ''/lane:'' @ cs_lane scope)),
      (''occupyingHostSessionId'', JStr (ss_host existing)), (''retryable'', JBool False)]"

definition prepare_exact_target :: "claim_world \<Rightarrow> claim_scope \<Rightarrow> string \<Rightarrow> string \<Rightarrow> claim_target result" where
  "prepare_exact_target w scope key requestHash = then_do (replay_recorded_claim (kw_db w) key requestHash) (\<lambda>replayed.
     case replayed of
       Some (s, _) \<Rightarrow> Inr (Replayed s)
     | None \<Rightarrow> then_do (find_continuity_session (kw_db w) (cs_scope scope @ ''/lane:'' @ cs_lane scope)) (\<lambda>found.
         case found of
           None \<Rightarrow> Inr (Fresh (cs_scope scope) (cs_lane scope))
         | Some existing \<Rightarrow> if \<not> is_claim_scope_free w existing then Inl (scope_occupied scope existing) else Inr (Recycled existing)))"

text \<open>What a target becomes: the store after it and the session that is to be started.\<close>

definition reload_session :: "session_db \<Rightarrow> string \<Rightarrow> js_error \<Rightarrow> (session_db \<times> session_record) result" where
  "reload_session db host e = (case get_by_host db host of None \<Rightarrow> Inl e | Some s \<Rightarrow> Inr (db, s))"

definition successor_disappeared :: "string \<Rightarrow> string \<Rightarrow> js_error" where
  "successor_disappeared key claimedScope = domain_error ''roster_claim_superseded'' ''claim successor disappeared before start''
     [(''idempotencyKey'', JStr key), (''claimedScope'', JStr claimedScope)]"

fun materialize ::
  "session_env \<Rightarrow> claim_input \<Rightarrow> string \<Rightarrow> string \<Rightarrow> claim_target \<Rightarrow> session_db \<Rightarrow> (session_db \<times> session_record) result" where
  "materialize env ci newHost now (Replayed s) db = Inr (db, s)"
| "materialize env ci newHost now (Fresh scopeRef laneRef) db =
     then_do (claim_mint_commit env \<lparr>mn_id = 0, mn_scope = scopeRef, mn_lane = laneRef, mn_claim = Some ci\<rparr> ci newHost now db)
       (\<lambda>db'. reload_session db' newHost (plain_error (''failed to reload session '' @ newHost)))"
| "materialize env ci newHost now (Recycled existing) db =
     then_do (rotate_begin env 0 existing \<lparr>ro_drop = True, ro_intent = None, ro_claim = Some ci\<rparr> newHost now db) (\<lambda>r.
       then_do (rotate_commit env r db)
         (\<lambda>db'. reload_session db' newHost (successor_disappeared (ci_key ci) (ss_scope existing))))"

text \<open>\<open>startRuntimeForSession\<close> up to the registration of its operation; a start in flight is joined.\<close>

definition start_runtime :: "session_env \<Rightarrow> session_record \<Rightarrow> claim_world \<Rightarrow> claim_world" where
  "start_runtime env s w =
     (case assert_local_persona_allowed env (ss_scope s) of
        Inl e \<Rightarrow> w
      | Inr _ \<Rightarrow> if ss_scope s \<in> set (kw_registered w) then w else w\<lparr>kw_starting := js_set_add (ss_host s) (kw_starting w)\<rparr>)"


text \<open>Both policies from the mutex on: the claim commits or leaves the world as it was.\<close>

definition finish_claim ::
  "claim_env \<Rightarrow> claim_input \<Rightarrow> string \<Rightarrow> string \<Rightarrow> claim_target result \<Rightarrow> claim_world \<Rightarrow> claim_world \<times> (session_record \<times> bool) result" where
  "finish_claim env ci newHost now target w =
     (case then_do target (\<lambda>t. materialize (session_env.truncate env) ci newHost now t (kw_db w)) of
        Inl e \<Rightarrow> (w, Inl e)
      | Inr (db', s) \<Rightarrow> (start_runtime (session_env.truncate env) s (w\<lparr>kw_db := db'\<rparr>),
          Inr (s, get_by_idempotency_key (kw_db w) (ci_key ci) \<noteq> None)))"

definition admitted_scope :: "claim_env \<Rightarrow> string \<Rightarrow> string \<Rightarrow> claim_scope result" where
  "admitted_scope env ref field = then_do (parse_claim_scope env ref field) (\<lambda>scope.
     then_do (assert_local_persona_allowed (session_env.truncate env) (cs_scope scope)) (\<lambda>_. Inr scope))"

definition start_suffix_roster ::
  "claim_env \<Rightarrow> start_request \<Rightarrow> string \<Rightarrow> string \<Rightarrow> claim_world \<Rightarrow> claim_world \<times> (session_record \<times> bool) result" where
  "start_suffix_roster env q newHost now w =
     (let hash = ce_hash env (suffix_request_text q) in
      case admitted_scope env (sq_ref q) ''baseSessionRef'' of
        Inl e \<Rightarrow> (w, Inl e)
      | Inr base \<Rightarrow> finish_claim env \<lparr>ci_key = sq_key q, ci_hash = hash, ci_subject = cs_scope base, ci_now = now\<rparr> newHost now
          (prepare_claim_target env w base (sq_key q) hash) w)"

definition start_exact_scope ::
  "claim_env \<Rightarrow> start_request \<Rightarrow> string \<Rightarrow> string \<Rightarrow> claim_world \<Rightarrow> claim_world \<times> (session_record \<times> bool) result" where
  "start_exact_scope env q newHost now w =
     (let hash = ce_hash env (exact_request_text q) in
      case admitted_scope env (sq_ref q) ''sessionRef'' of
        Inl e \<Rightarrow> (w, Inl e)
      | Inr scope \<Rightarrow> finish_claim env \<lparr>ci_key = sq_key q, ci_hash = hash, ci_subject = cs_scope scope, ci_now = now\<rparr> newHost now
          (prepare_exact_target w scope (sq_key q) hash) w)"

section \<open>Retries\<close>




lemma session_insert_facts:
  assumes "session_insert s db = Inr db'"
  shows "\<exists>r. row_get ss_host (sd_sessions db') (ss_host s) = Some r \<and> row_shape r = row_shape s \<and> ss_status r = ss_status s"
    "sd_claims db' = sd_claims db" "sd_continuities db' = sd_continuities db"
    "ss_host s \<notin> ss_host ` set (sd_sessions db)"
    "\<forall>r \<in> set (sd_sessions db). r \<in> set (sd_sessions db')"
proof -
  let ?r = "hrc_session.extend (hrc_session.truncate s) (session_row.fields False)"
  have d: "db' = db\<lparr>sd_sessions := sd_sessions db @ [?r]\<rparr>" "ss_host s \<notin> ss_host ` set (sd_sessions db)"
    using assms by (auto simp: session_insert_def split: if_splits)
  have f: "row_shape ?r = row_shape s" "ss_status ?r = ss_status s" "ss_host ?r = ss_host s"
    by (simp_all add: row_shape_def hrc_session.defs session_row.defs)
  have "row_get ss_host (sd_sessions db @ [?r]) (ss_host s) = Some ?r"
    using d(2) f(3) row_get_None_iff [of ss_host "sd_sessions db" "ss_host s"] by (simp add: row_get_append)
  then show "\<exists>r. row_get ss_host (sd_sessions db') (ss_host s) = Some r \<and> row_shape r = row_shape s \<and> ss_status r = ss_status s"
    using d(1) f by auto
  show "sd_claims db' = sd_claims db" "sd_continuities db' = sd_continuities db" "ss_host s \<notin> ss_host ` set (sd_sessions db)"
      "\<forall>r \<in> set (sd_sessions db). r \<in> set (sd_sessions db')"
    using d by auto
qed


lemma claim_insert_facts:
  assumes "claim_insert c db = Inr db'"
  shows "get_by_idempotency_key db' (rc_key c) = Some c" "sd_sessions db' = sd_sessions db" "sd_continuities db' = sd_continuities db"
    "sd_claims db' = sd_claims db @ [c]" "rc_key c \<notin> rc_key ` set (sd_claims db)"
  using assms row_get_None_iff [of rc_key "sd_claims db" "rc_key c"]
  by (auto simp: claim_insert_def get_by_idempotency_key_def row_get_append split: if_splits)






lemma start_runtime_db [simp]: "kw_db (start_runtime env s w) = kw_db w"
  by (simp add: start_runtime_def split: sum.splits)





section \<open>The walk over the roster\<close>





section \<open>Occupied sessions\<close>











section \<open>Claims and the sessions they name\<close>

definition claims_ok :: "session_db \<Rightarrow> bool" where
  "claims_ok db = (distinct (map rc_key (sd_claims db)) \<and> distinct (map rc_successor (sd_claims db))
     \<and> (\<forall>c \<in> set (sd_claims db). \<exists>r \<in> set (sd_sessions db). ss_host r = rc_successor c \<and> ss_scope r = rc_claimed c))"

lemma claims_extend:
  assumes "claims_ok db" "sd_claims db' = sd_claims db" "extends_rows (sd_sessions db) (sd_sessions db')"
  shows "claims_ok db'"
proof -
  have "\<exists>r \<in> set (sd_sessions db'). ss_host r = rc_successor c \<and> ss_scope r = rc_claimed c" if c: "c \<in> set (sd_claims db)" for c
  proof -
    obtain r where r: "r \<in> set (sd_sessions db)" "ss_host r = rc_successor c" "ss_scope r = rc_claimed c"
      using assms(1) c by (auto simp: claims_ok_def)
    then obtain r' where "r' \<in> set (sd_sessions db')" "row_shape r' = row_shape r" using extends_row [OF assms(3)] by blast
    then show ?thesis using r by (auto simp: row_shape_def)
  qed
  then show ?thesis using assms(1,2) by (simp add: claims_ok_def)
qed

lemma record_keeps_claims:
  assumes ok: "claims_ok db" and new: "ss_host s \<notin> ss_host ` set (sd_sessions db)"
    and cl: "sd_claims db1 = sd_claims db" and ext: "extends_rows (sd_sessions db) (sd_sessions db1)"
    and row: "\<exists>r \<in> set (sd_sessions db1). row_shape r = row_shape s" and rec: "record_claim ci s db1 = Inr db'"
  shows "claims_ok db'"
proof (cases ci)
  case None
  then show ?thesis using rec claims_extend [OF ok cl ext] by (simp add: record_claim_def)
next
  case (Some c)
  then have i: "claim_insert (durable_claim_row c (ss_scope s) (ss_host s)) db1 = Inr db'" using rec by (simp add: record_claim_def)
  note f = claim_insert_facts [OF i]
  have "claims_ok db1" by (rule claims_extend [OF ok cl ext])
  moreover have "ss_host s \<notin> rc_successor ` set (sd_claims db1)" using ok new cl by (force simp: claims_ok_def)
  ultimately show ?thesis using f row by (auto simp: claims_ok_def durable_claim_row_def row_shape_def)
qed

lemma replace_facts:
  assumes "replace_session env h s now db = Inr db'"
  shows "sd_claims db' = sd_claims db" "ss_host s \<notin> ss_host ` set (sd_sessions db)"
    "\<exists>r \<in> set (sd_sessions db'). row_shape r = row_shape s" "extends_rows (sd_sessions db) (sd_sessions db')"
proof -
  let ?db0 = "session_update_status h SArchived now db"
  obtain db1 where i: "session_insert s ?db0 = Inr db1" "sd_sessions db' = sd_sessions db1" "sd_claims db' = sd_claims db1"
    using assms by (auto simp: replace_session_def then_do_Inr_iff)
  note f = session_insert_facts [OF i(1)]
  have shapes: "map row_shape (sd_sessions ?db0) = map row_shape (sd_sessions db)"
    unfolding session_update_status_def by (rule update_session_shapes) (simp add: row_shape_def)
  have "map ss_host (sd_sessions ?db0) = map fst (map row_shape (sd_sessions ?db0))" "map ss_host (sd_sessions db) = map fst (map row_shape (sd_sessions db))"
    by (simp_all add: row_shape_def)
  then have "ss_host ` set (sd_sessions ?db0) = ss_host ` set (sd_sessions db)" using shapes by (metis list.set_map)
  then show "ss_host s \<notin> ss_host ` set (sd_sessions db)" using f(4) by simp
  show "sd_claims db' = sd_claims db" using f(2) i(3) by (simp add: session_update_status_def update_session_def)
  show "\<exists>r \<in> set (sd_sessions db'). row_shape r = row_shape s" using f(1) i(2) row_get_SomeD by fastforce
  have "extends_rows (sd_sessions ?db0) (sd_sessions db')" using f(5) i(2) by (auto simp: extends_rows_def)
  then show "extends_rows (sd_sessions db) (sd_sessions db')" using shapes_extend shapes extends_trans by metis
qed

lemma insert_first_facts:
  assumes "insert_first env m newHost now db = Inr db'"
  shows "sd_claims db' = sd_claims db" "newHost \<notin> ss_host ` set (sd_sessions db)"
    "\<exists>r \<in> set (sd_sessions db'). row_shape r = row_shape (first_session m newHost now)" "extends_rows (sd_sessions db) (sd_sessions db')"
proof -
  obtain db1 where i: "session_insert (first_session m newHost now) db = Inr db1" "sd_sessions db' = sd_sessions db1" "sd_claims db' = sd_claims db1"
    using assms by (auto simp: insert_first_def then_do_Inr_iff)
  note f = session_insert_facts [OF i(1)]
  show "sd_claims db' = sd_claims db" using f(2) i(3) by simp
  show "newHost \<notin> ss_host ` set (sd_sessions db)" using f(4) by (simp add: first_session_def)
  show "\<exists>r \<in> set (sd_sessions db'). row_shape r = row_shape (first_session m newHost now)" using f(1) i(2) row_get_SomeD by fastforce
  show "extends_rows (sd_sessions db) (sd_sessions db')" using f(5) i(2) by (auto simp: extends_rows_def)
qed

lemma rotate_commit_claims:
  assumes "claims_ok db" "rotate_commit env r db = Inr db'"
  shows "claims_ok db'"
proof -
  obtain db1 where d: "replace_session env (ss_host (rn_session r)) (rn_next r) (rn_now r) db = Inr db1" "record_claim (rn_claim r) (rn_next r) db1 = Inr db'"
    using assms(2) by (auto simp: rotate_commit_def then_do_Inr_iff)
  note f = replace_facts [OF d(1)]
  show ?thesis by (rule record_keeps_claims [OF assms(1) f(2) f(1) f(4) f(3) d(2)])
qed

lemma mint_commit_claims:
  assumes "claims_ok db" "mint_commit env m newHost now db = Inr db'"
  shows "claims_ok db'"
proof (cases "mn_claim m")
  case None
  then show ?thesis
    using assms insert_first_facts claims_extend by (fastforce simp: mint_commit_def resolve_mint_commit_def split: if_splits)
next
  case (Some ci)
  then obtain db1 where d: "insert_first env m newHost now db = Inr db1"
      "record_claim (Some (ci\<lparr>ci_now := now\<rparr>)) (first_session m newHost now) db1 = Inr db'"
    using assms(2) by (auto simp: mint_commit_def claim_mint_commit_def then_do_Inr_iff)
  note f = insert_first_facts [OF d(1)]
  have h: "ss_host (first_session m newHost now) \<notin> ss_host ` set (sd_sessions db)" using f(2) by (simp add: first_session_def)
  show ?thesis by (rule record_keeps_claims [OF assms(1) h f(1) f(4) f(3) d(2)])
qed

lemma fence_claims: "sd_claims (fence_continuities scopeRef now db) = sd_claims db"
proof -
  have "sd_claims (fold (\<lambda>c. set_continuation_reuse_disabled (cr_active c) True now) cs db) = sd_claims db" for cs :: "continuity_record list" and db
    by (induction cs arbitrary: db) (simp_all add: set_continuation_reuse_disabled_def update_session_def)
  then show ?thesis by (simp add: fence_continuities_def disassociate_scope_def Let_def split: prod.splits)
qed

lemma session_step_claims:
  assumes a: "session_allowed l w" and ok: "world_lineage w" and cl: "claims_ok (sw_db w)"
  shows "claims_ok (sw_db (session_step env l w))"
proof -
  have same: "claims_ok db'" if "grows (sw_db w) db'" "sd_claims db' = sd_claims (sw_db w)" for db'
    using claims_extend [OF cl that(2)] that(1) by (simp add: grows_def)
  have db: "lineage_ok (sw_db w)" using ok by (simp add: world_lineage_def)
  have put: "claims_ok (sw_db (commit res w'))" if "\<And>db. res = Inr db \<Longrightarrow> claims_ok db" "sw_db w' = sw_db w" for res w'
    using that cl by (cases res) (simp_all add: commit_def)
  note plain = session_update_status_def session_update_intent_def session_update_continuation_def set_continuation_reuse_disabled_def update_session_def
  show ?thesis
  proof (cases l)
    case (Rotate_Commit i)
    then show ?thesis using cl rotate_commit_claims [OF cl] by (auto intro!: put split: option.splits)
  next
    case (Mint_Commit i newHost now)
    then show ?thesis using cl mint_commit_claims [OF cl] by (auto intro!: put split: option.splits)
  next
    case (Successor s intent newHost now)
    have "claims_ok db" if "create_successor env s None intent newHost now (sw_db w) = Inr db" for db
      using replace_facts [OF that [unfolded create_successor_def]] claims_extend [OF cl] by blast
    then show ?thesis using Successor by (auto intro!: put)
  next
    case (Historical selected current continuation intent newHost now)
    have "claims_ok db" if "historical_successor env selected current continuation intent newHost now (sw_db w) = Inr db" for db
      using replace_facts [OF that [unfolded historical_successor_def create_successor_def]] claims_extend [OF cl] by blast
    then show ?thesis using Historical by (auto intro!: put)
  next
    case (Archive host now)
    then show ?thesis using same [OF update_status_grows [OF db]] by (simp add: plain)
  next
    case (Set_Intent host intent now)
    then show ?thesis using same [OF other_updates_grow(1) [OF db]] by (simp add: plain)
  next
    case (Set_Continuation host continuation now)
    then show ?thesis using same [OF other_updates_grow(2) [OF db]] by (simp add: plain)
  next
    case (Set_Reuse_Disabled host disabled now)
    then show ?thesis using same [OF other_updates_grow(3) [OF db]] by (simp add: plain)
  next
    case (Fence_Scope scopeRef now)
    then show ?thesis using same [OF fence_grows [OF db]] fence_claims by simp
  qed (use cl in \<open>auto split: sum.splits\<close>)
qed

interpretation claimed: guarded_history "session_step env" session_allowed "\<lambda>w. world_lineage w \<and> claims_ok (sw_db w)" for env
  by unfold_locales (blast intro: session_step_lineage session_step_claims)

text \<open>
  A claim and the session it names are one fact: in every history, however claims, rotations and
  successors interleave, two claims have different keys and name different sessions, and the session
  each names exists, in the scope it claimed.
\<close>

theorem claims_name_their_sessions:
  assumes "claimed.disciplined env ls new_world"
  shows "distinct (map rc_key (sd_claims (sw_db (session_history env ls))))
    \<and> distinct (map rc_successor (sd_claims (sw_db (session_history env ls))))
    \<and> (\<forall>c \<in> set (sd_claims (sw_db (session_history env ls))).
        \<exists>r \<in> set (sd_sessions (sw_db (session_history env ls))). ss_host r = rc_successor c \<and> ss_scope r = rc_claimed c)"
proof -
  have "claims_ok (sw_db new_world)" by (simp add: claims_ok_def new_world_def no_sessions_def)
  then have "claims_ok (sw_db (session_history env ls))"
    using claimed.disciplined_keeps [OF assms] new_world_lineage by (simp add: session_history_def)
  then show ?thesis by (simp add: claims_ok_def)
qed

section \<open>Examples\<close>

definition example_claim_env :: claim_env where
  "example_claim_env = \<lparr>se_parse = (\<lambda>s. if starts_with s ''p:'' then Some \<lparr>si_kind = ''task'', si_agent = ''ada'',
       si_project = Some ''p'', si_task = Some (drop 2 s), si_role = None\<rparr> else None),
     se_allowlist = None, ce_build = (\<lambda>a p t r. p @ CHR '':'' # t), ce_hash = (\<lambda>t. ''h'')\<rparr>"

definition example_request :: "string \<Rightarrow> start_request" where
  "example_request key = \<lparr>sq_ref = ''p:base/lane:main'', sq_key = key, sq_implicit = True, sq_intent = JObj [], sq_style = None\<rparr>"

definition idle_server :: claim_world where
  "idle_server = \<lparr>kw_db = no_sessions, kw_registered = [], kw_held = [], kw_starting = [], kw_runtimes = []\<rparr>"

definition claimed_once :: claim_world where
  "claimed_once = fst (start_suffix_roster example_claim_env (example_request ''k1'') ''h1'' ''1'' idle_server)"

lemma claimed_once_value: "claimed_once = idle_server\<lparr>kw_starting := [''h1''], kw_db := \<lparr>
     sd_sessions = [\<lparr>ss_host = ''h1'', ss_scope = ''p:base'', ss_lane = ''main'', ss_generation = 1, ss_status = SActive,
       ss_prior = None, ss_created = ''1'', ss_updated = ''1'', ss_intent = None, ss_continuation = None, ss_reuse_disabled = False\<rparr>],
     sd_continuities = [\<lparr>cn_scope = ''p:base'', cn_lane = ''main'', cn_active = ''h1'', cn_updated = ''1'', cn_identity =
       \<lparr>si_kind = ''task'', si_agent = ''ada'', si_project = Some ''p'', si_task = Some ''base'', si_role = None\<rparr>\<rparr>],
     sd_claims = [\<lparr>rc_key = ''k1'', rc_hash = ''h'', rc_base = ''p:base'', rc_claimed = ''p:base'', rc_successor = ''h1'', rc_created = ''1''\<rparr>]\<rparr>\<rparr>"
  by code_simp

definition answer_view :: "claim_world \<times> (session_record \<times> bool) result \<Rightarrow> (string \<times> string \<times> bool) option" where
  "answer_view a = (case snd a of Inl e \<Rightarrow> None | Inr (s, b) \<Rightarrow> Some (ss_host s, ss_scope s, b))"

text \<open>
  A reserved address is not protected before its first session: with a held reservation of the
  base scope and no session there, an exact claim mints and starts a session at the reserved address,
  and a roster claim takes the reserved slot instead of walking on; once a session exists there, the
  exact claim is refused and the roster takes the next slot.
\<close>

theorem reserved_address_is_claimed:
  "answer_view (start_exact_scope example_claim_env (example_request ''k1'') ''h1'' ''1'' (idle_server\<lparr>kw_held := [''p:base'']\<rparr>))
     = Some (''h1'', ''p:base'', False)
   \<and> answer_view (start_suffix_roster example_claim_env (example_request ''k1'') ''h1'' ''1'' (idle_server\<lparr>kw_held := [''p:base'']\<rparr>))
     = Some (''h1'', ''p:base'', False)
   \<and> answer_view (start_exact_scope example_claim_env (example_request ''k2'') ''h2'' ''2'' (claimed_once\<lparr>kw_held := [''p:base''], kw_starting := []\<rparr>))
     = None
   \<and> answer_view (start_suffix_roster example_claim_env (example_request ''k2'') ''h2'' ''2'' (claimed_once\<lparr>kw_held := [''p:base''], kw_starting := []\<rparr>))
     = Some (''h2'', ''p:base-nova'', False)"
  unfolding claimed_once_value by code_simp





theorem claims_name_their_sessions_witness:
  "distinct (map rc_key (sd_claims (sw_db (session_history bare_env racing_mints))))"
proof -
  have "claimed.disciplined bare_env racing_mints new_world"
    unfolding racing_mints_def claimed.disciplined.simps by code_simp
  then show ?thesis using claims_name_their_sessions by blast
qed

end
