(* ===== verification/Placement_Registry.thy ===== *)
theory Placement_Registry
  imports Selectors Session_Store
begin

text \<open>
  Where a scope lives (hrc-store-sqlite/src/federation-repositories.ts): the placement ledger of a
  node, which says what the node itself is home of or has retired, and the collective registry,
  which binds a scope to one node and records the node a scope not yet born is designated to, with
  the syntax of node identifiers (hrc-server/src/federation/node-id.ts) and the rebuilding of a lost
  registry from the ledgers, where the order that \<open>localeCompare\<close> sorts rows in is a parameter.
  Each transaction is one operation. The scope grammar is the record \<open>scope_lib\<close>. The section sign of
  one message is written out, as it is outside the model's characters; the rewriting of tables of an
  older schema is left out.
\<close>

section \<open>Node identifiers\<close>

definition require_node_id :: "string \<Rightarrow> string \<Rightarrow> string result" where
  "require_node_id nodeId field =
     (if js_trim nodeId = [] then Inl (plain_error (field @ '' must not be empty'')) else Inr (js_trim nodeId))"

definition node_id_char :: "char \<Rightarrow> bool" where
  "node_id_char c = (is_word_char c \<or> c = CHR ''.'' \<or> c = CHR ''-'')"

definition reserved_node_ids :: "string list" where
  "reserved_node_ids = [''local'']"

definition is_reserved_node_id :: "string \<Rightarrow> bool" where
  "is_reserved_node_id v = (js_to_lower v \<in> set reserved_node_ids)"

definition node_id_pattern :: "string \<Rightarrow> bool" where
  "node_id_pattern v = (1 \<le> length v \<and> length v \<le> 64 \<and> list_all node_id_char v)"

definition is_valid_node_id :: "string \<Rightarrow> bool" where
  "is_valid_node_id v = (node_id_pattern v \<and> \<not> is_reserved_node_id v)"

definition join_with :: "string \<Rightarrow> string list \<Rightarrow> string" where
  "join_with sep ss = (case ss of [] \<Rightarrow> [] | t # ts \<Rightarrow> t @ concat (map (\<lambda>u. sep @ u) ts))"

definition node_id_violation :: "string \<Rightarrow> string option" where
  "node_id_violation v =
     (if v = [] then Some ''it is empty''
      else if length v > 64 then Some (''it is '' @ show_nat (length v) @ '' characters (maximum 64)'')
      else if \<not> node_id_pattern v
      then Some (''it contains disallowed character(s) ''
        @ join_with '', '' (map (\<lambda>c. json_quote [c]) (fold js_set_add (filter (\<lambda>c. \<not> node_id_char c) v) []))
        @ '' (allowed: A-Z a-z 0-9 . _ -)'')
      else if is_reserved_node_id v
      then Some ''it is the reserved placement sentinel \"local\" (federation spec section 5)''
      else None)"

definition parse_node_id :: "string \<Rightarrow> string \<Rightarrow> string result" where
  "parse_node_id v ctxt = (case node_id_violation v of
     None \<Rightarrow> Inr v
   | Some why \<Rightarrow> Inl (plain_error (ctxt @ '' is not a valid nodeId ('' @ json_quote v @ ''): '' @ why)))"

section \<open>The placement ledger of a node\<close>

record placement_binding =
  pb_scope :: string
  pb_home :: string
  pb_created :: string
  pb_updated :: string

datatype placement_state = Placed | Withdrawn_For_Good

record placement_row = placement_binding +
  pl_state :: placement_state
  pl_retired_at :: "string option"
  pl_reason :: "string option"

definition map_binding :: "'a placement_binding_scheme \<Rightarrow> placement_binding" where
  "map_binding r = \<lparr>pb_scope = pb_scope r, pb_home = pb_home r, pb_created = pb_created r, pb_updated = pb_updated r\<rparr>"

type_synonym placement_ledger = "placement_row list"

definition ledger_get :: "scope_lib \<Rightarrow> string \<Rightarrow> placement_ledger \<Rightarrow> placement_row option result" where
  "ledger_get lib scopeRef rows = then_do (canonical_scope lib scopeRef) (\<lambda>c. Inr (row_get pb_scope rows c))"

definition active_authority :: "scope_lib \<Rightarrow> string \<Rightarrow> placement_ledger \<Rightarrow> placement_row option result" where
  "active_authority lib scopeRef rows = then_do (ledger_get lib scopeRef rows) (\<lambda>r. Inr
     (case r of Some p \<Rightarrow> if pl_state p = Placed then Some p else None | None \<Rightarrow> None))"

definition list_ledger :: "placement_ledger \<Rightarrow> placement_row list" where
  "list_ledger rows = sort_key pb_scope rows"

datatype retire_outcome = Retired | Retire_Idempotent | Retire_Conflict | Retire_Not_Found

record retire_result =
  rr_outcome :: retire_outcome
  rr_record :: "placement_row option"

text \<open>The rows that the \<open>UPDATE\<close> of a retirement hits.\<close>

definition retires :: "string \<Rightarrow> string \<Rightarrow> placement_row \<Rightarrow> bool" where
  "retires scopeRef home r = (pb_scope r = scopeRef \<and> pl_state r = Placed \<and> pb_home r = home)"

definition retire_update :: "string \<Rightarrow> string \<Rightarrow> string \<Rightarrow> string \<Rightarrow> placement_ledger \<Rightarrow> placement_ledger" where
  "retire_update scopeRef home reason retiredAt rows = map (\<lambda>r. if retires scopeRef home r
     then r\<lparr>pl_state := Withdrawn_For_Good, pl_retired_at := Some retiredAt, pl_reason := Some reason, pb_updated := retiredAt\<rparr>
     else r) rows"

text \<open>The transaction of a retirement, after its arguments have been checked.\<close>

definition retire_transaction ::
  "string \<Rightarrow> string \<Rightarrow> string \<Rightarrow> string \<Rightarrow> placement_ledger \<Rightarrow> placement_ledger \<times> retire_result" where
  "retire_transaction scopeRef home reason retiredAt rows =
     (case row_get pb_scope rows scopeRef of
        None \<Rightarrow> (rows, \<lparr>rr_outcome = Retire_Not_Found, rr_record = None\<rparr>)
      | Some current \<Rightarrow>
          if pb_home current \<noteq> home then (rows, \<lparr>rr_outcome = Retire_Conflict, rr_record = Some current\<rparr>)
          else if pl_state current = Withdrawn_For_Good
          then (rows, \<lparr>rr_outcome = Retire_Idempotent, rr_record = Some current\<rparr>)
          else (let rows' = retire_update scopeRef home reason retiredAt rows in
            if length (filter (retires scopeRef home) rows) \<noteq> 1
            then (rows', \<lparr>rr_outcome = Retire_Conflict, rr_record = Some current\<rparr>)
            else (rows', \<lparr>rr_outcome = Retired, rr_record = row_get pb_scope rows' scopeRef\<rparr>)))"

definition retire_placement :: "scope_lib \<Rightarrow> string \<Rightarrow> string \<Rightarrow> string \<Rightarrow> string \<Rightarrow> placement_ledger
    \<Rightarrow> placement_ledger \<times> retire_result result" where
  "retire_placement lib scopeRef expectedHome reason retiredAt rows =
     (case then_do (canonical_scope lib scopeRef) (\<lambda>c.
             then_do (require_node_id expectedHome ''expectedHomeNodeId'') (\<lambda>home.
               if js_trim reason = [] then Inl (plain_error ''retirement reason must not be empty'')
               else Inr (c, home))) of
        Inl e \<Rightarrow> (rows, Inl e)
      | Inr (c, home) \<Rightarrow>
          (let (rows', r) = retire_transaction c home reason retiredAt rows in (rows', Inr r)))"

record install_input =
  np_scope :: string
  np_home :: string
  np_created :: "string option"
  np_updated :: string

definition install_of :: "'a placement_binding_scheme \<Rightarrow> install_input" where
  "install_of b = \<lparr>np_scope = pb_scope b, np_home = pb_home b, np_created = Some (pb_created b), np_updated = pb_updated b\<rparr>"

definition retired_error :: "string \<Rightarrow> js_error" where
  "retired_error scopeRef = plain_error (''scope '' @ scopeRef @ '' is permanently retired on this node'')"

definition placement_conflict :: "string \<Rightarrow> js_error" where
  "placement_conflict scopeRef = plain_error (''conflicting placement ledger row for '' @ scopeRef)"

definition placed_row :: "placement_binding \<Rightarrow> placement_row" where
  "placed_row b = \<lparr>pb_scope = pb_scope b, pb_home = pb_home b, pb_created = pb_created b, pb_updated = pb_updated b,
     pl_state = Placed, pl_retired_at = None, pl_reason = None\<rparr>"

definition install_transaction :: "placement_binding \<Rightarrow> placement_ledger \<Rightarrow> placement_ledger \<times> placement_row result" where
  "install_transaction b rows =
     (case row_get pb_scope rows (pb_scope b) of
        Some current \<Rightarrow>
          if pl_state current = Withdrawn_For_Good then (rows, Inl (retired_error (pb_scope b)))
          else if pb_home current \<noteq> pb_home b then (rows, Inl (placement_conflict (pb_scope b)))
          else (rows, Inr current)
      | None \<Rightarrow>
          (let rows' = rows @ [placed_row b] in
           case row_get pb_scope rows' (pb_scope b) of
             None \<Rightarrow> (rows, Inl (plain_error ''placement ledger insert did not store a row''))
           | Some stored \<Rightarrow> (rows', Inr stored)))"

definition install_active :: "scope_lib \<Rightarrow> install_input \<Rightarrow> placement_ledger \<Rightarrow> placement_ledger \<times> placement_row result" where
  "install_active lib i rows =
     (case then_do (canonical_scope lib (np_scope i)) (\<lambda>c.
             then_do (require_node_id (np_home i) ''homeNodeId'') (\<lambda>home.
               Inr \<lparr>pb_scope = c, pb_home = home, pb_created = or_default (np_created i) (np_updated i),
                 pb_updated = np_updated i\<rparr>)) of
        Inl e \<Rightarrow> (rows, Inl e)
      | Inr normalized \<Rightarrow> install_transaction normalized rows)"

section \<open>The registry\<close>

datatype superseded_by = By_Pin | By_Task_Default | By_Default_Home | By_Explicit_Local

datatype birth_decision = Supersede superseded_by | Enforce_Designated_Home

datatype designation_state = Live | Superseded

datatype provenance = Home_Of_Sender | Home_Of_Retired_Sender

record designation =
  de_scope :: string
  de_epoch :: int
  de_home :: string
  de_provenance :: provenance
  de_envelope :: string
  de_sender :: string
  de_at :: string
  de_state :: designation_state
  de_by :: "superseded_by option"
  de_superseded_at :: "string option"

text \<open>\<open>rg_audit\<close> holds the last home of each scope whose binding was deleted, with the time.\<close>

record registry =
  rg_bindings :: "placement_binding list"
  rg_designations :: "designation list"
  rg_audit :: "(string \<times> string \<times> string) list"

definition empty_registry :: registry where
  "empty_registry = \<lparr>rg_bindings = [], rg_designations = [], rg_audit = []\<rparr>"

definition registry_get :: "scope_lib \<Rightarrow> string \<Rightarrow> registry \<Rightarrow> placement_binding option result" where
  "registry_get lib scopeRef g = then_do (canonical_scope lib scopeRef) (\<lambda>c. Inr (row_get pb_scope (rg_bindings g) c))"

definition retired_home :: "scope_lib \<Rightarrow> string \<Rightarrow> registry \<Rightarrow> string option result" where
  "retired_home lib scopeRef g = then_do (canonical_scope lib scopeRef) (\<lambda>c.
     Inr (map_option fst (map_of (rg_audit g) c)))"

definition list_bindings :: "registry \<Rightarrow> placement_binding list" where
  "list_bindings g = sort_key pb_scope (rg_bindings g)"

definition designations_of :: "string \<Rightarrow> registry \<Rightarrow> designation list" where
  "designations_of c g = filter (\<lambda>d. de_scope d = c) (rg_designations g)"

definition live_of :: "string \<Rightarrow> registry \<Rightarrow> designation option" where
  "live_of c g = List.find (\<lambda>d. de_scope d = c \<and> de_state d = Live) (rg_designations g)"

definition live_designation :: "scope_lib \<Rightarrow> string \<Rightarrow> registry \<Rightarrow> designation option result" where
  "live_designation lib scopeRef g = then_do (canonical_scope lib scopeRef) (\<lambda>c. Inr (live_of c g))"

definition designation_history :: "scope_lib \<Rightarrow> string \<Rightarrow> registry \<Rightarrow> designation list result" where
  "designation_history lib scopeRef g = then_do (canonical_scope lib scopeRef) (\<lambda>c.
     Inr (sort_key de_epoch (designations_of c g)))"

definition latest_designation :: "scope_lib \<Rightarrow> string \<Rightarrow> registry \<Rightarrow> designation option result" where
  "latest_designation lib scopeRef g = then_do (canonical_scope lib scopeRef) (\<lambda>c.
     Inr (case sort_key (\<lambda>d. - de_epoch d) (designations_of c g) of [] \<Rightarrow> None | d # _ \<Rightarrow> Some d))"

definition list_unborn_for_node :: "string \<Rightarrow> nat \<Rightarrow> registry \<Rightarrow> designation list result" where
  "list_unborn_for_node homeNodeId limit g = then_do (require_node_id homeNodeId ''homeNodeId'') (\<lambda>home.
     Inr (take limit (sort_key de_scope (filter (\<lambda>d. de_state d = Live \<and> de_home d = home
       \<and> row_get pb_scope (rg_bindings g) (de_scope d) = None) (rg_designations g)))))"

record designation_input =
  di_scope :: string
  di_home :: string
  di_provenance :: provenance
  di_envelope :: string
  di_sender :: string
  di_now :: string

definition max_epoch :: "designation list \<Rightarrow> int option" where
  "max_epoch ds = (case map de_epoch ds of [] \<Rightarrow> None | e # es \<Rightarrow> Some (fold max es e))"

definition record_designation :: "scope_lib \<Rightarrow> designation_input \<Rightarrow> registry \<Rightarrow> registry \<times> designation result" where
  "record_designation lib i g =
     (case then_do (canonical_scope lib (di_scope i)) (\<lambda>c.
             then_do (require_node_id (di_home i) ''homeNodeId'') (\<lambda>home. Inr (c, home))) of
        Inl e \<Rightarrow> (g, Inl e)
      | Inr (c, home) \<Rightarrow>
          (case live_of c g of
             Some live \<Rightarrow> (g, Inr live)
           | None \<Rightarrow>
               (let d = \<lparr>de_scope = c, de_epoch = or_default (max_epoch (designations_of c g)) 0 + 1, de_home = home,
                      de_provenance = di_provenance i, de_envelope = di_envelope i, de_sender = di_sender i,
                      de_at = di_now i, de_state = Live, de_by = None, de_superseded_at = None\<rparr>;
                    g' = g\<lparr>rg_designations := rg_designations g @ [d]\<rparr> in
                case live_of c g' of
                  None \<Rightarrow> (g, Inl (plain_error ''birth designation insert did not store a row''))
                | Some stored \<Rightarrow> (g', Inr stored))))"

datatype establish_result =
    Created placement_binding | Existing placement_binding | Designation_Mismatch designation

definition supersede_designation :: "string \<Rightarrow> int \<Rightarrow> superseded_by \<Rightarrow> string \<Rightarrow> registry \<Rightarrow> registry" where
  "supersede_designation c epoch how now g = g\<lparr>rg_designations := map (\<lambda>d.
     if de_scope d = c \<and> de_epoch d = epoch
     then d\<lparr>de_state := Superseded, de_by := Some how, de_superseded_at := Some now\<rparr> else d) (rg_designations g)\<rparr>"

text \<open>A declared home ends the designation of a scope not yet born, in the transaction of its birth.\<close>

definition birth_supersedes :: "birth_decision option \<Rightarrow> string \<Rightarrow> string \<Rightarrow> registry \<Rightarrow> registry" where
  "birth_supersedes decision c now g =
     (case (live_of c g, decision) of
        (Some d, Some (Supersede how)) \<Rightarrow> supersede_designation c (de_epoch d) how now g
      | _ \<Rightarrow> g)"

definition birth_mismatch :: "birth_decision option \<Rightarrow> string \<Rightarrow> string \<Rightarrow> registry \<Rightarrow> designation option" where
  "birth_mismatch decision c home g =
     (case live_of c g of
        Some d \<Rightarrow> if decision = Some Enforce_Designated_Home \<and> home \<noteq> de_home d then Some d else None
      | None \<Rightarrow> None)"

definition establish_transaction ::
  "string \<Rightarrow> string \<Rightarrow> birth_decision option \<Rightarrow> string \<Rightarrow> registry \<Rightarrow> registry \<times> establish_result result" where
  "establish_transaction c home decision now g =
     (case row_get pb_scope (rg_bindings g) c of
        Some current \<Rightarrow> (g, Inr (Existing current))
      | None \<Rightarrow>
          (case birth_mismatch decision c home g of
             Some d \<Rightarrow> (g, Inr (Designation_Mismatch d))
           | None \<Rightarrow>
               (let g' = birth_supersedes decision c now g;
                    g'' = g'\<lparr>rg_bindings := rg_bindings g'
                      @ [\<lparr>pb_scope = c, pb_home = home, pb_created = now, pb_updated = now\<rparr>]\<rparr> in
                case row_get pb_scope (rg_bindings g'') c of
                  None \<Rightarrow> (g, Inl (plain_error ''binding registry insert did not store a row''))
                | Some stored \<Rightarrow> (g'', Inr (Created stored)))))"

definition establish_binding :: "scope_lib \<Rightarrow> string \<Rightarrow> string \<Rightarrow> birth_decision option \<Rightarrow> string \<Rightarrow> registry
    \<Rightarrow> registry \<times> establish_result result" where
  "establish_binding lib scopeRef homeNodeId decision now g =
     (case then_do (canonical_scope lib scopeRef) (\<lambda>c.
             then_do (require_node_id homeNodeId ''homeNodeId'') (\<lambda>home. Inr (c, home))) of
        Inl e \<Rightarrow> (g, Inl e)
      | Inr (c, home) \<Rightarrow> establish_transaction c home decision now g)"

datatype delete_outcome = Deleted | Delete_Idempotent | Delete_Conflict placement_binding

definition delete_transaction :: "string \<Rightarrow> string \<Rightarrow> string \<Rightarrow> registry \<Rightarrow> registry \<times> delete_outcome" where
  "delete_transaction c home retiredAt g =
     (case row_get pb_scope (rg_bindings g) c of
        None \<Rightarrow> (g, Delete_Idempotent)
      | Some current \<Rightarrow>
          if pb_home current \<noteq> home then (g, Delete_Conflict current)
          else (g\<lparr>rg_bindings := filter (\<lambda>b. \<not> (pb_scope b = c \<and> pb_home b = home)) (rg_bindings g),
                  rg_designations := filter (\<lambda>d. \<not> (de_scope d = c \<and> de_state d = Live)) (rg_designations g),
                  rg_audit := map_set c (home, retiredAt) (rg_audit g)\<rparr>, Deleted))"

definition delete_binding :: "scope_lib \<Rightarrow> string \<Rightarrow> string \<Rightarrow> string \<Rightarrow> registry \<Rightarrow> registry \<times> delete_outcome result" where
  "delete_binding lib scopeRef expectedHome retiredAt g =
     (case then_do (canonical_scope lib scopeRef) (\<lambda>c.
             then_do (require_node_id expectedHome ''expectedHomeNodeId'') (\<lambda>home. Inr (c, home))) of
        Inl e \<Rightarrow> (g, Inl e)
      | Inr (c, home) \<Rightarrow> (let (g', r) = delete_transaction c home retiredAt g in (g', Inr r)))"

subsection \<open>Rebuilding a lost registry\<close>

definition insert_rebuilt :: "placement_binding \<Rightarrow> registry \<Rightarrow> registry result" where
  "insert_rebuilt b g =
     (if row_get pb_scope (rg_bindings g) (pb_scope b) \<noteq> None
      then Inl (plain_error ''UNIQUE constraint failed: binding_registry.scope_ref'')
      else Inr (g\<lparr>rg_bindings := rg_bindings g @ [b]\<rparr>))"

fun insert_all :: "placement_binding list \<Rightarrow> registry \<Rightarrow> registry result" where
  "insert_all [] g = Inr g"
| "insert_all (b # bs) g = then_do (insert_rebuilt b g) (insert_all bs)"

text \<open>The loop over the ledger rows: the rows selected so far and the number of duplicates.\<close>

fun select_rows :: "scope_lib \<Rightarrow> placement_row list \<Rightarrow> (string \<times> placement_row) list \<Rightarrow> nat
    \<Rightarrow> ((string \<times> placement_row) list \<times> nat) result" where
  "select_rows lib [] selected duplicates = Inr (selected, duplicates)"
| "select_rows lib (r # rs) selected duplicates =
     (if pl_state r \<noteq> Placed then select_rows lib rs selected duplicates
      else then_do (canonical_scope lib (pb_scope r)) (\<lambda>c.
        case map_of selected c of
          None \<Rightarrow> select_rows lib rs (map_set c (r\<lparr>pb_scope := c\<rparr>) selected) duplicates
        | Some current \<Rightarrow>
            if pb_home current \<noteq> pb_home r then Inl (placement_conflict c)
            else select_rows lib rs selected (Suc duplicates)))"

text \<open>\<open>order\<close> is the permutation that sorting by \<open>localeCompare\<close> makes of the selected rows.\<close>

definition rebuild_registry :: "scope_lib \<Rightarrow> (placement_row list \<Rightarrow> placement_row list) \<Rightarrow> placement_row list
    \<Rightarrow> registry \<Rightarrow> registry \<times> (nat \<times> nat) result" where
  "rebuild_registry lib order ledgerRows target =
     (if list_bindings target \<noteq> [] then (target, Inl (plain_error ''binding registry rebuild target must be empty''))
      else case select_rows lib ledgerRows [] 0 of
        Inl e \<Rightarrow> (target, Inl e)
      | Inr (selected, duplicates) \<Rightarrow>
          (case insert_all (map map_binding (order (map snd selected))) target of
             Inl e \<Rightarrow> (target, Inl e)
           | Inr g \<Rightarrow> (g, Inr (length selected, duplicates))))"

end
