(* ===== verification/Placement_Births.thy ===== *)
theory Placement_Births
  imports Placement_Registry
begin

text \<open>
  What is done with the ledger and the registry: the designation of a birth on the registry's host
  (hrc-server/src/federation/birth-designation.ts), the client of the node that hosts the registry
  (registry-local-client.ts, registry-client.ts) and the routes that answer every other node
  (registry-endpoint.ts), the birth of a scope on a node (establishment.ts), its retirement
  (retirement.ts) and the question whether a node is the home of a scope (home-authority.ts). What
  waits for the registry is split there. The envelope reader, the token check and the parsers of
  senders are parameters; log lines and the detail texts of answers are left out.
\<close>

section \<open>Designating a birth\<close>

text \<open>The parsers throw on a text of the other spelling (\<open>None\<close>), and so may the formatter.\<close>

record sender_lib =
  sn_parse_ref :: "string \<Rightarrow> scope_identity option"
  sn_parse_handle :: "string \<Rightarrow> scope_identity option"
  sn_format :: "scope_identity \<Rightarrow> string option"

definition before_lane :: "string \<Rightarrow> string" where
  "before_lane s = (case index_of s ''/lane:'' of None \<Rightarrow> s | Some i \<Rightarrow> take i s)"

fun first_parsed :: "(scope_identity \<Rightarrow> string option) \<Rightarrow> (string \<Rightarrow> scope_identity option) list \<Rightarrow> string \<Rightarrow> string option" where
  "first_parsed fmt [] v = None"
| "first_parsed fmt (p # ps) v =
     (case p v of
        None \<Rightarrow> first_parsed fmt ps v
      | Some parsed \<Rightarrow>
          if or_default (scope_identity.si_project parsed) [] = [] then None
          else (case fmt parsed of None \<Rightarrow> first_parsed fmt ps v | Some s \<Rightarrow> Some s))"

definition canonical_sender :: "sender_lib \<Rightarrow> string \<Rightarrow> string option" where
  "canonical_sender slib raw =
     (let v = js_trim (before_lane (js_trim raw)) in
      if v = [] then None else first_parsed (sn_format slib) [sn_parse_ref slib, sn_parse_handle slib] v)"

record birth_envelope =
  ev_id :: string
  ev_seq :: int
  ev_from_scope :: "string option"

datatype designate_answer =
    Designated designation
  | Not_Designated
  | Envelope_Unavailable string
  | Designate_Failed js_error

definition answer_of :: "registry \<times> designation result \<Rightarrow> registry \<times> designate_answer" where
  "answer_of r = (fst r, case snd r of Inl e \<Rightarrow> Designate_Failed e | Inr d \<Rightarrow> Designated d)"

text \<open>After the envelope has been read.\<close>

definition designate_from :: "scope_lib \<Rightarrow> sender_lib \<Rightarrow> string \<Rightarrow> birth_envelope option \<Rightarrow> string \<Rightarrow> registry
    \<Rightarrow> registry \<times> designate_answer" where
  "designate_from lib slib scopeRef envelope now g =
     (case envelope of
        None \<Rightarrow> (g, Not_Designated)
      | Some e \<Rightarrow>
          if or_default (ev_from_scope e) [] = [] then (g, Not_Designated)
          else (case canonical_sender slib (or_default (ev_from_scope e) []) of
             None \<Rightarrow> (g, Not_Designated)
           | Some sender \<Rightarrow>
               (case then_do (registry_get lib sender g) (\<lambda>b.
                       then_do (case b of None \<Rightarrow> retired_home lib sender g | Some _ \<Rightarrow> Inr None) (\<lambda>h. Inr (b, h))) of
                  Inl err \<Rightarrow> (g, Designate_Failed err)
                | Inr (Some b, _) \<Rightarrow> answer_of (record_designation lib \<lparr>di_scope = scopeRef, di_home = pb_home b,
                    di_provenance = Home_Of_Sender, di_envelope = ev_id e, di_sender = sender, di_now = now\<rparr> g)
                | Inr (None, Some home) \<Rightarrow> answer_of (record_designation lib \<lparr>di_scope = scopeRef, di_home = home,
                    di_provenance = Home_Of_Retired_Sender, di_envelope = ev_id e, di_sender = sender, di_now = now\<rparr> g)
                | Inr (None, None) \<Rightarrow> (g, Not_Designated))))"

definition designate_birth :: "scope_lib \<Rightarrow> sender_lib \<Rightarrow> (string \<Rightarrow> birth_envelope option result) option \<Rightarrow> string
    \<Rightarrow> string \<Rightarrow> registry \<Rightarrow> registry \<times> designate_answer" where
  "designate_birth lib slib reader scopeRef now g =
     (case live_designation lib scopeRef g of
        Inl e \<Rightarrow> (g, Designate_Failed e)
      | Inr (Some live) \<Rightarrow> (g, Designated live)
      | Inr None \<Rightarrow>
          (case reader of
             None \<Rightarrow> (g, Not_Designated)
           | Some read \<Rightarrow>
               (case read scopeRef of
                  Inl e \<Rightarrow> (g, Envelope_Unavailable
                    (''cannot read the birth envelope for '' @ scopeRef @ '': '' @ err_message e))
                | Inr envelope \<Rightarrow> designate_from lib slib scopeRef envelope now g)))"

section \<open>The client on the registry's host\<close>

datatype registry_error =
    Registry_Refused int string
  | Registry_Unreachable string
  | Registry_Threw js_error

definition unreachable :: registry_error where
  "unreachable = Registry_Unreachable ''federation binding registry is unreachable''"

fun as_registry_error :: "registry_error \<Rightarrow> registry_error" where
  "as_registry_error (Registry_Threw e) = unreachable"
| "as_registry_error e = e"

definition refuse_blank :: "string \<Rightarrow> registry_error + unit" where
  "refuse_blank v = (if js_trim v = [] then Inl (Registry_Refused 400 ''invalid_request'') else Inr ())"

definition client_consult :: "scope_lib \<Rightarrow> string \<Rightarrow> registry \<Rightarrow> registry_error + placement_binding option" where
  "client_consult lib scopeRef g =
     (case refuse_blank scopeRef of
        Inl e \<Rightarrow> Inl e
      | Inr _ \<Rightarrow> (case registry_get lib scopeRef g of Inl e \<Rightarrow> Inl (as_registry_error (Registry_Threw e)) | Inr b \<Rightarrow> Inr b))"

definition client_establish :: "scope_lib \<Rightarrow> string \<Rightarrow> string \<Rightarrow> string \<Rightarrow> birth_decision option \<Rightarrow> string \<Rightarrow> registry
    \<Rightarrow> registry \<times> (registry_error + establish_result)" where
  "client_establish lib localNode scopeRef home decision now g =
     (if home \<noteq> localNode then (g, Inl (Registry_Refused 400 ''invalid_request''))
      else case establish_binding lib scopeRef home decision now g of
        (g', Inl e) \<Rightarrow> (g', Inl (as_registry_error (Registry_Threw e)))
      | (g', Inr r) \<Rightarrow> (g', Inr r))"

definition client_designate :: "scope_lib \<Rightarrow> sender_lib \<Rightarrow> (string \<Rightarrow> birth_envelope option result) option \<Rightarrow> string
    \<Rightarrow> string \<Rightarrow> registry \<Rightarrow> registry \<times> (registry_error + designation option)" where
  "client_designate lib slib reader scopeRef now g =
     (case refuse_blank scopeRef of
        Inl e \<Rightarrow> (g, Inl e)
      | Inr _ \<Rightarrow>
          (case designate_birth lib slib reader scopeRef now g of
             (g', Designated d) \<Rightarrow> (g', Inr (Some d))
           | (g', Not_Designated) \<Rightarrow> (g', Inr None)
           | (g', Envelope_Unavailable m) \<Rightarrow> (g', Inl (Registry_Unreachable m))
           | (g', Designate_Failed e) \<Rightarrow> (g', Inl (as_registry_error (Registry_Threw e)))))"

definition client_list_unborn :: "string \<Rightarrow> string \<Rightarrow> registry \<Rightarrow> registry_error + designation list" where
  "client_list_unborn localNode home g =
     (if home \<noteq> localNode then Inl (Registry_Refused 400 ''invalid_request'')
      else case list_unborn_for_node home 200 g of Inl e \<Rightarrow> Inl (Registry_Threw e) | Inr ds \<Rightarrow> Inr ds)"

text \<open>Without a designation the outcome is none, otherwise it is the state of the latest one.\<close>

definition client_read_designation :: "scope_lib \<Rightarrow> string \<Rightarrow> registry \<Rightarrow> registry_error + designation option" where
  "client_read_designation lib scopeRef g =
     (case refuse_blank scopeRef of
        Inl e \<Rightarrow> Inl e
      | Inr _ \<Rightarrow> (case latest_designation lib scopeRef g of Inl e \<Rightarrow> Inl (Registry_Threw e) | Inr d \<Rightarrow> Inr d))"

definition client_delete :: "scope_lib \<Rightarrow> string \<Rightarrow> string \<Rightarrow> string \<Rightarrow> string \<Rightarrow> registry
    \<Rightarrow> registry \<times> (registry_error + delete_outcome)" where
  "client_delete lib localNode scopeRef expectedHome retiredAt g =
     (if expectedHome \<noteq> localNode then (g, Inl (Registry_Refused 400 ''invalid_request''))
      else case delete_binding lib scopeRef expectedHome retiredAt g of
        (g', Inl e) \<Rightarrow> (g', Inl (Registry_Threw e))
      | (g', Inr r) \<Rightarrow> (g', Inr r))"

section \<open>The routes for the other nodes\<close>

text \<open>A request with its path, query and parsed body (\<open>None\<close> when it is not JSON).\<close>

record registry_request =
  rq_method :: string
  rq_path :: string
  rq_query :: "(string \<times> string) list"
  rq_body :: "json option"

type_synonym response = "int \<times> json_object"

text \<open>What ends a request early: a malformed one, or a thrown error.\<close>

datatype request_failure = Invalid_Request | Request_Threw js_error

definition required_string :: "json_object \<Rightarrow> string \<Rightarrow> request_failure + string" where
  "required_string ob field =
     (case jstring ob field of
        None \<Rightarrow> Inl Invalid_Request
      | Some s \<Rightarrow> if js_trim s = [] then Inl Invalid_Request else Inr (js_trim s))"

definition request_record :: "registry_request \<Rightarrow> request_failure + json_object" where
  "request_record r = (case Option.bind (rq_body r) json_record of None \<Rightarrow> Inl Invalid_Request | Some ob \<Rightarrow> Inr ob)"

definition parse_superseded_by :: "json option \<Rightarrow> request_failure + superseded_by" where
  "parse_superseded_by v =
     (if v = Some (JStr ''pin'') then Inr By_Pin
      else if v = Some (JStr ''task_default'') then Inr By_Task_Default
      else if v = Some (JStr ''default_home_node'') then Inr By_Default_Home
      else if v = Some (JStr ''explicit_local'') then Inr By_Explicit_Local
      else Inl Invalid_Request)"

definition parse_birth_decision :: "json option \<Rightarrow> request_failure + birth_decision option" where
  "parse_birth_decision v =
     (case v of
        None \<Rightarrow> Inr None
      | Some j \<Rightarrow>
          (case json_record j of
             None \<Rightarrow> Inl Invalid_Request
           | Some ob \<Rightarrow>
               if jget ob ''action'' = Some (JStr ''enforce-designated-home'') then Inr (Some Enforce_Designated_Home)
               else if jget ob ''action'' = Some (JStr ''supersede'')
               then (case parse_superseded_by (jget ob ''supersededBy'') of
                  Inl e \<Rightarrow> Inl e | Inr how \<Rightarrow> Inr (Some (Supersede how)))
               else Inl Invalid_Request))"

fun show_superseded_by :: "superseded_by \<Rightarrow> string" where
  "show_superseded_by By_Pin = ''pin''"
| "show_superseded_by By_Task_Default = ''task_default''"
| "show_superseded_by By_Default_Home = ''default_home_node''"
| "show_superseded_by By_Explicit_Local = ''explicit_local''"

fun show_provenance :: "provenance \<Rightarrow> string" where
  "show_provenance Home_Of_Sender = ''default_home_node(sender)''"
| "show_provenance Home_Of_Retired_Sender = ''default_home_node(sender-retired)''"

definition binding_json :: "placement_binding \<Rightarrow> json" where
  "binding_json b = JObj [(''scopeRef'', JStr (pb_scope b)), (''homeNodeId'', JStr (pb_home b)),
     (''createdAt'', JStr (pb_created b)), (''updatedAt'', JStr (pb_updated b))]"

definition optional_member :: "string \<Rightarrow> string option \<Rightarrow> json_object" where
  "optional_member k v = (case v of None \<Rightarrow> [] | Some s \<Rightarrow> [(k, JStr s)])"

definition designation_json :: "designation \<Rightarrow> json" where
  "designation_json d = JObj ([(''scopeRef'', JStr (de_scope d)), (''homeNodeId'', JStr (de_home d)),
     (''provenance'', JStr (show_provenance (de_provenance d))), (''birthEnvelopeId'', JStr (de_envelope d)),
     (''senderScopeRef'', JStr (de_sender d)), (''designationEpoch'', JNum (de_epoch d)),
     (''designatedAt'', JStr (de_at d)), (''state'', JStr (if de_state d = Live then ''live'' else ''superseded''))]
     @ optional_member ''supersededBy'' (map_option show_superseded_by (de_by d))
     @ optional_member ''supersededAt'' (de_superseded_at d))"

definition fault_response :: "request_failure \<Rightarrow> response" where
  "fault_response f = (case f of
     Invalid_Request \<Rightarrow> (400, [(''ok'', JBool False), (''error'', JStr ''invalid_request'')])
   | Request_Threw e \<Rightarrow> (500, [(''ok'', JBool False), (''error'', JStr ''internal_error''), (''retryable'', JBool True)]))"

definition node_mismatch :: response where
  "node_mismatch = (403, [(''ok'', JBool False), (''error'', JStr ''authenticated_node_mismatch'')])"

definition ok_response :: "string \<Rightarrow> json_object \<Rightarrow> response" where
  "ok_response peer members = (200, [(''ok'', JBool True), (''authenticatedNodeId'', JStr peer)] @ members)"

definition respond :: "registry \<times> (request_failure + response) \<Rightarrow> registry \<times> response" where
  "respond r = (fst r, case snd r of Inl f \<Rightarrow> fault_response f | Inr resp \<Rightarrow> resp)"

definition query_scope :: "registry_request \<Rightarrow> string \<Rightarrow> request_failure + string" where
  "query_scope r k = (case map_of (rq_query r) k of
     None \<Rightarrow> Inl Invalid_Request | Some s \<Rightarrow> if js_trim s = [] then Inl Invalid_Request else Inr s)"

definition lift_result :: "'a result \<Rightarrow> request_failure + 'a" where
  "lift_result r = (case r of Inl e \<Rightarrow> Inl (Request_Threw e) | Inr a \<Rightarrow> Inr a)"

definition and_then :: "'e + 'a \<Rightarrow> ('a \<Rightarrow> 'e + 'b) \<Rightarrow> 'e + 'b" where
  "and_then r f = (case r of Inl e \<Rightarrow> Inl e | Inr a \<Rightarrow> f a)"

lemma and_then_simps [simp]: "and_then (Inl e) f = Inl e" "and_then (Inr a) f = f a"
  by (simp_all add: and_then_def)

lemma and_then_Inr_iff: "and_then r f = Inr b \<longleftrightarrow> (\<exists>a. r = Inr a \<and> f a = Inr b)"
  by (cases r) auto

definition consult_route :: "scope_lib \<Rightarrow> string \<Rightarrow> registry_request \<Rightarrow> registry \<Rightarrow> request_failure + response" where
  "consult_route lib peer r g = and_then (query_scope r ''scopeRef'') (\<lambda>s.
     and_then (lift_result (registry_get lib s g)) (\<lambda>b. Inr (case b of
        None \<Rightarrow> (404, [(''ok'', JBool False), (''error'', JStr ''unbound''), (''authenticatedNodeId'', JStr peer)])
      | Some record' \<Rightarrow> (200, [(''ok'', JBool True), (''outcome'', JStr ''bound''),
          (''authenticatedNodeId'', JStr peer), (''binding'', binding_json record')]))))"

fun establish_members :: "establish_result \<Rightarrow> json_object" where
  "establish_members (Created b) = [(''outcome'', JStr ''created''), (''binding'', binding_json b)]"
| "establish_members (Existing b) = [(''outcome'', JStr ''existing''), (''binding'', binding_json b)]"
| "establish_members (Designation_Mismatch d) = [(''outcome'', JStr ''designation-mismatch''), (''designation'', designation_json d)]"

definition establish_route :: "scope_lib \<Rightarrow> string \<Rightarrow> registry_request \<Rightarrow> string \<Rightarrow> registry
    \<Rightarrow> registry \<times> (request_failure + response)" where
  "establish_route lib peer r now g =
     (case and_then (request_record r) (\<lambda>ob. and_then (required_string ob ''homeNodeId'') (\<lambda>home. Inr (ob, home))) of
        Inl f \<Rightarrow> (g, Inl f)
      | Inr (ob, home) \<Rightarrow>
          if home \<noteq> peer then (g, Inr node_mismatch)
          else if jget ob ''placementSource'' \<noteq> None \<or> jget ob ''establishmentProvenance'' \<noteq> None
          then (g, Inl Invalid_Request)
          else (case and_then (parse_birth_decision (jget ob ''birthDesignation'')) (\<lambda>decision.
                  and_then (required_string ob ''scopeRef'') (\<lambda>s. Inr (decision, s))) of
             Inl f \<Rightarrow> (g, Inl f)
           | Inr (decision, s) \<Rightarrow>
               (let (g', res) = establish_binding lib s home decision now g in
                (g', and_then (lift_result res) (\<lambda>e. Inr (ok_response peer (establish_members e)))))))"

definition delete_route :: "scope_lib \<Rightarrow> string \<Rightarrow> registry_request \<Rightarrow> registry
    \<Rightarrow> registry \<times> (request_failure + response)" where
  "delete_route lib peer r g =
     (case and_then (request_record r) (\<lambda>ob. and_then (required_string ob ''expectedHomeNodeId'') (\<lambda>home. Inr (ob, home))) of
        Inl f \<Rightarrow> (g, Inl f)
      | Inr (ob, home) \<Rightarrow>
          if home \<noteq> peer then (g, Inr node_mismatch)
          else (case and_then (required_string ob ''scopeRef'') (\<lambda>s.
                  and_then (required_string ob ''retiredAt'') (\<lambda>at. Inr (s, at))) of
             Inl f \<Rightarrow> (g, Inl f)
           | Inr (s, at) \<Rightarrow>
               (let (g', res) = delete_binding lib s home at g in
                (g', and_then (lift_result res) (\<lambda>outcome. Inr (case outcome of
                    Delete_Conflict b \<Rightarrow> (409, [(''ok'', JBool False), (''authenticatedNodeId'', JStr peer),
                      (''outcome'', JStr ''conflict''), (''binding'', binding_json b)])
                  | Deleted \<Rightarrow> ok_response peer [(''outcome'', JStr ''deleted'')]
                  | Delete_Idempotent \<Rightarrow> ok_response peer [(''outcome'', JStr ''idempotent'')]))))))"

definition designation_route :: "scope_lib \<Rightarrow> string \<Rightarrow> registry_request \<Rightarrow> registry \<Rightarrow> request_failure + response" where
  "designation_route lib peer r g = and_then (query_scope r ''scopeRef'') (\<lambda>s.
     and_then (lift_result (latest_designation lib s g)) (\<lambda>d. Inr (ok_response peer (case d of
        None \<Rightarrow> [(''outcome'', JStr ''none'')]
      | Some record' \<Rightarrow> [(''outcome'', JStr (if de_state record' = Live then ''designated'' else ''superseded'')),
          (''designation'', designation_json record')]))))"

definition unborn_route :: "string \<Rightarrow> registry_request \<Rightarrow> registry \<Rightarrow> request_failure + response" where
  "unborn_route peer r g = and_then (query_scope r ''homeNodeId'') (\<lambda>home.
     if js_trim home \<noteq> peer then Inr node_mismatch
     else and_then (lift_result (list_unborn_for_node peer 200 g)) (\<lambda>ds.
       Inr (ok_response peer [(''designations'', JArr (map designation_json ds))])))"

definition designate_route :: "scope_lib \<Rightarrow> sender_lib \<Rightarrow> (string \<Rightarrow> birth_envelope option result) option \<Rightarrow> string
    \<Rightarrow> registry_request \<Rightarrow> string \<Rightarrow> registry \<Rightarrow> registry \<times> (request_failure + response)" where
  "designate_route lib slib reader peer r now g =
     (case and_then (request_record r) (\<lambda>ob. required_string ob ''scopeRef'') of
        Inl f \<Rightarrow> (g, Inl f)
      | Inr s \<Rightarrow>
          (case designate_birth lib slib reader s now g of
             (g', Designated d) \<Rightarrow> (g', Inr (ok_response peer [(''kind'', JStr ''designated''), (''designation'', designation_json d)]))
           | (g', Not_Designated) \<Rightarrow> (g', Inr (ok_response peer [(''kind'', JStr ''none'')]))
           | (g', Envelope_Unavailable m) \<Rightarrow> (g', Inr (503,
               [(''ok'', JBool False), (''error'', JStr ''runtime_unavailable''), (''retryable'', JBool True)]))
           | (g', Designate_Failed e) \<Rightarrow> (g', Inl (Request_Threw e))))"

text \<open>\<open>peer\<close> is what the token of the request authenticates.\<close>

definition handle_registry_request :: "scope_lib \<Rightarrow> sender_lib \<Rightarrow> (string \<Rightarrow> birth_envelope option result) option
    \<Rightarrow> string option \<Rightarrow> registry_request \<Rightarrow> string \<Rightarrow> registry \<Rightarrow> registry \<times> response" where
  "handle_registry_request lib slib reader peer r now g =
     (case peer of
        None \<Rightarrow> (g, (401, [(''ok'', JBool False), (''error'', JStr ''unauthorized'')]))
      | Some n \<Rightarrow> respond
         (if rq_method r = ''GET'' \<and> rq_path r = ''/v1/federation/registry/consult''
          then (g, consult_route lib n r g)
          else if rq_method r = ''POST'' \<and> rq_path r = ''/v1/federation/registry/establish''
          then establish_route lib n r now g
          else if rq_method r = ''GET'' \<and> rq_path r = ''/v1/federation/registry/designation''
          then (g, designation_route lib n r g)
          else if rq_method r = ''GET'' \<and> rq_path r = ''/v1/federation/registry/unborn-designations''
          then (g, unborn_route n r g)
          else if rq_method r = ''POST'' \<and> rq_path r = ''/v1/federation/registry/designate-birth''
          then designate_route lib slib reader n r now g
          else if rq_method r = ''POST'' \<and> rq_path r = ''/v1/federation/registry/delete''
          then delete_route lib n r g
          else (g, Inr (404, [(''ok'', JBool False), (''error'', JStr ''not_found'')]))))"

section \<open>The birth of a scope on a node\<close>

datatype placement_outcome =
    Established placement_binding
  | Already_Established placement_binding
  | Bound_Elsewhere placement_binding
  | Placement_Mismatch designation

text \<open>What the request sends to the registry, and what is done when the registry has answered.\<close>

definition birth_request :: "string \<Rightarrow> string result" where
  "birth_request home = parse_node_id home ''homeNodeId''"

definition finish_birth :: "scope_lib \<Rightarrow> string \<Rightarrow> establish_result \<Rightarrow> placement_ledger
    \<Rightarrow> placement_ledger \<times> placement_outcome result" where
  "finish_birth lib home reply rows =
     (let finish = (\<lambda>b.
        if pb_home b \<noteq> home then (rows, Inr (Bound_Elsewhere b))
        else case active_authority lib (pb_scope b) rows of
          Inl e \<Rightarrow> (rows, Inl e)
        | Inr alreadyActive \<Rightarrow>
            (case install_active lib (install_of b) rows of
               (rows', Inl e) \<Rightarrow> (rows', Inl e)
             | (rows', Inr _) \<Rightarrow> (rows', Inr (if alreadyActive = None then Established b else Already_Established b)))) in
      case reply of
        Designation_Mismatch d \<Rightarrow> (rows, Inr (Placement_Mismatch d))
      | Created b \<Rightarrow> finish b
      | Existing b \<Rightarrow> finish b)"

text \<open>A birth that nothing interrupts, with the client of the host or the route of a peer as the registry.\<close>

definition establish_local_placement ::
  "scope_lib \<Rightarrow> (string \<Rightarrow> string \<Rightarrow> birth_decision option \<Rightarrow> string \<Rightarrow> registry \<Rightarrow> registry \<times> establish_result result)
    \<Rightarrow> string \<Rightarrow> string \<Rightarrow> birth_decision option \<Rightarrow> string \<Rightarrow> registry \<Rightarrow> placement_ledger
    \<Rightarrow> registry \<times> placement_ledger \<times> placement_outcome result" where
  "establish_local_placement lib ask scopeRef homeNodeId decision now g rows =
     (case birth_request homeNodeId of
        Inl e \<Rightarrow> (g, rows, Inl e)
      | Inr home \<Rightarrow>
          (case ask scopeRef home decision now g of
             (g', Inl e) \<Rightarrow> (g', rows, Inl e)
           | (g', Inr reply) \<Rightarrow> (let (rows', r) = finish_birth lib home reply rows in (g', rows', r))))"

section \<open>The retirement of a scope\<close>

record locate_binding =
  lb_home :: string
  lb_created :: string
  lb_updated :: string

definition binding_view :: "'a placement_binding_scheme \<Rightarrow> locate_binding" where
  "binding_view r = \<lparr>lb_home = pb_home r, lb_created = pb_created r, lb_updated = pb_updated r\<rparr>"

definition ledger_view :: "placement_row option \<Rightarrow> (placement_state \<times> locate_binding) option" where
  "ledger_view r = map_option (\<lambda>x. (pl_state x, binding_view x)) r"

datatype retirement_outcome =
    Retirement_Refused | Live_Runtime_Present | Retirement_Conflict | Scope_Retired | Retirement_Idempotent
  | Registry_Unavailable

datatype retirement_state = Unchanged | Old_Home_Live | Fenced_Registry_Pending | Retired_State

record retirement_answer =
  ra_scope :: string
  ra_reason :: string
  ra_outcome :: retirement_outcome
  ra_state :: retirement_state
  ra_retryable :: bool
  ra_ledger :: "(placement_state \<times> locate_binding) option"
  ra_binding :: "locate_binding option"
  ra_live_runtimes :: "string list"

definition ra_ok :: "retirement_answer \<Rightarrow> bool" where
  "ra_ok a = (ra_outcome a \<in> {Scope_Retired, Retirement_Idempotent})"

text \<open>A retirement that has fenced its node and waits for the registry to delete the binding.\<close>

record pending_retirement =
  pr_scope :: string
  pr_reason :: string
  pr_outcome :: retire_outcome
  pr_row :: placement_row
  pr_deleted_at :: string

datatype retirement_step = Retirement_Answers retirement_answer | Retirement_Pends pending_retirement

definition answer :: "string \<Rightarrow> string \<Rightarrow> retirement_outcome \<Rightarrow> retirement_state \<Rightarrow> bool \<Rightarrow> placement_row option
    \<Rightarrow> retirement_answer" where
  "answer scopeRef reason outcome st retryable row = \<lparr>ra_scope = scopeRef, ra_reason = reason, ra_outcome = outcome,
     ra_state = st, ra_retryable = retryable, ra_ledger = ledger_view row, ra_binding = None, ra_live_runtimes = []\<rparr>"

text \<open>
  The part that runs without waiting: the checks, the durable mark of the ledger and the fence of the
  continuities, which may throw (the mark stays).
\<close>

definition retire_scope_begin :: "scope_lib \<Rightarrow> string \<Rightarrow> string \<Rightarrow> string \<Rightarrow> string list \<Rightarrow> string \<Rightarrow> unit result
    \<Rightarrow> placement_ledger \<Rightarrow> placement_ledger \<times> retirement_step result" where
  "retire_scope_begin lib localNode rawScope rawReason liveRuntimes now fenced rows =
     (case canonical_scope lib rawScope of
        Inl e \<Rightarrow> (rows, Inl e)
      | Inr scopeRef \<Rightarrow>
          (let reason = js_trim rawReason; answers = (\<lambda>a. (rows, Inr (Retirement_Answers a))) in
           if reason = [] then (rows, Inl (plain_error ''retirement reason must not be empty''))
           else case ledger_get lib scopeRef rows of
             Inl e \<Rightarrow> (rows, Inl e)
           | Inr None \<Rightarrow> answers (answer scopeRef reason Retirement_Refused Unchanged False None)
           | Inr (Some before) \<Rightarrow>
               if pb_home before \<noteq> localNode
               then answers (answer scopeRef reason Retirement_Refused Unchanged False (Some before))
               else if pl_state before = Placed \<and> liveRuntimes \<noteq> []
               then answers ((answer scopeRef reason Live_Runtime_Present Old_Home_Live True (Some before))
                 \<lparr>ra_live_runtimes := liveRuntimes\<rparr>)
               else (let retiredAt = or_default (pl_retired_at before) now in
                 case retire_placement lib scopeRef localNode reason retiredAt rows of
                   (rows', Inl e) \<Rightarrow> (rows', Inl e)
                 | (rows', Inr local) \<Rightarrow>
                     (case rr_record local of
                        None \<Rightarrow> (rows', Inr (Retirement_Answers (answer scopeRef reason Retirement_Conflict Unchanged False None)))
                      | Some row \<Rightarrow>
                          if rr_outcome local \<in> {Retire_Conflict, Retire_Not_Found}
                          then (rows', Inr (Retirement_Answers (answer scopeRef reason Retirement_Conflict Unchanged False (Some row))))
                          else (case fenced of
                             Inl e \<Rightarrow> (rows', Inl e)
                           | Inr _ \<Rightarrow> (rows', Inr (Retirement_Pends \<lparr>pr_scope = scopeRef, pr_reason = reason,
                               pr_outcome = rr_outcome local, pr_row = row,
                               pr_deleted_at = or_default (pl_retired_at row) retiredAt\<rparr>)))))))"

text \<open>When the registry has answered the deletion, or could not be asked.\<close>

definition retire_scope_finish :: "pending_retirement \<Rightarrow> registry_error + delete_outcome
    \<Rightarrow> registry_error + retirement_answer" where
  "retire_scope_finish p reply =
     (let answers = (\<lambda>outcome st retryable. answer (pr_scope p) (pr_reason p) outcome st retryable (Some (pr_row p))) in
      case reply of
        Inl (Registry_Unreachable m) \<Rightarrow> Inr (answers Registry_Unavailable Fenced_Registry_Pending True)
      | Inl e \<Rightarrow> Inl e
      | Inr (Delete_Conflict b) \<Rightarrow>
          Inr ((answers Retirement_Conflict Fenced_Registry_Pending False)\<lparr>ra_binding := Some (binding_view b)\<rparr>)
      | Inr deleted \<Rightarrow> Inr (answers
          (if pr_outcome p = Retire_Idempotent \<and> deleted = Delete_Idempotent then Retirement_Idempotent else Scope_Retired)
          Retired_State False))"

section \<open>The home of a scope\<close>

datatype registry_view =
    Not_Consulted string
  | View_Bound locate_binding
  | View_Unbound
  | View_Unknown string bool

datatype home_authority =
    Bound_In_Ledger locate_binding bool
  | Bound_In_Registry locate_binding bool
  | Unbound
  | Unknown_Home string bool

text \<open>The memo of remembered registry answers, by scope (\<open>None\<close> without one).\<close>

type_synonym home_memo = "(string \<times> locate_binding) list option"

record home_resolution =
  hs_local :: "placement_row option"
  hs_registry :: registry_view
  hs_authority :: home_authority

fun registry_error_message :: "registry_error \<Rightarrow> string" where
  "registry_error_message (Registry_Refused status code) =
     ''federation binding registry refused the request ('' @ code @ '')''"
| "registry_error_message (Registry_Unreachable m) = m"
| "registry_error_message (Registry_Threw e) = err_message e"

definition is_unreachable :: "registry_error \<Rightarrow> bool" where
  "is_unreachable e = (case e of Registry_Unreachable m \<Rightarrow> True | _ \<Rightarrow> False)"

definition resolve_home :: "scope_lib \<Rightarrow> string \<Rightarrow> (string \<Rightarrow> registry_error + placement_binding option) option
    \<Rightarrow> placement_ledger \<Rightarrow> string \<Rightarrow> home_memo \<Rightarrow> home_memo \<times> home_resolution result" where
  "resolve_home lib localNode consult rows scopeRef memo =
     (case ledger_get lib scopeRef rows of
        Inl e \<Rightarrow> (memo, Inl e)
      | Inr local \<Rightarrow>
          (let answers = (\<lambda>memo' view authority.
             (memo', Inr \<lparr>hs_local = local, hs_registry = view, hs_authority = authority\<rparr>)) in
           case (case local of Some r \<Rightarrow> if pl_state r = Placed then Some r else None | None \<Rightarrow> None) of
             Some r \<Rightarrow> answers
               (if pb_home r = localNode then map_option (filter (\<lambda>kv. fst kv \<noteq> scopeRef)) memo else memo)
               (Not_Consulted ''The active local ledger is authoritative.'')
               (Bound_In_Ledger (binding_view r) (pb_home r = localNode))
           | None \<Rightarrow>
               (case consult of
                  None \<Rightarrow> answers memo (Not_Consulted ''Federation is not configured.'') Unbound
                | Some ask \<Rightarrow>
                    (case Option.bind memo (\<lambda>m. map_of m scopeRef) of
                       Some remembered \<Rightarrow> answers memo (View_Bound remembered) (Bound_In_Registry remembered False)
                     | None \<Rightarrow>
                         (case ask scopeRef of
                            Inl e \<Rightarrow> answers memo (View_Unknown (registry_error_message e) (is_unreachable e))
                              (Unknown_Home (registry_error_message e) (is_unreachable e))
                          | Inr None \<Rightarrow> answers memo View_Unbound Unbound
                          | Inr (Some b) \<Rightarrow>
                              if pb_home b = localNode
                              then answers memo (View_Bound (binding_view b))
                                (if map_option pl_state local = Some Withdrawn_For_Good then Unbound else Bound_In_Registry (binding_view b) True)
                              else answers (map_option (map_set scopeRef (binding_view b)) memo)
                                (View_Bound (binding_view b)) (Bound_In_Registry (binding_view b) False))))))"

datatype home_source = From_Ledger | From_Registry

definition resolve_foreign_home :: "scope_lib \<Rightarrow> string \<Rightarrow> (string \<Rightarrow> registry_error + placement_binding option) option
    \<Rightarrow> placement_ledger \<Rightarrow> string \<Rightarrow> home_memo \<Rightarrow> home_memo \<times> (string \<times> home_source) option result" where
  "resolve_foreign_home lib localNode consult rows scopeRef memo =
     (case resolve_home lib localNode consult rows scopeRef memo of
        (memo', Inl e) \<Rightarrow> (memo', Inl e)
      | (memo', Inr h) \<Rightarrow> (memo', Inr (case hs_authority h of
            Bound_In_Ledger b False \<Rightarrow> Some (lb_home b, From_Ledger)
          | Bound_In_Registry b False \<Rightarrow> Some (lb_home b, From_Registry)
          | _ \<Rightarrow> None)))"

end
