(* ===== verification/Summon_Gate.thy ===== *)
theory Summon_Gate
  imports Placement_Births
begin

text \<open>
  The gate every summon passes before a session is minted (hrc-server/src/federation/summon-gate.ts):
  may this node summon this scope? The placement tiers that choose the home of a scope not yet born
  (summon-gate-placement.ts), the decision, the disposition read off it, and the tail of the
  authority check that installs or establishes what was allowed (summon-gate-server-authority.ts,
  summon-gate-server-placement.ts). The gate waits for the registry, the policy, the designation
  and the capability: each is a function of the scope that may fail, the answer it gets. The
  diagnostic texts of refusals are left out.
\<close>

section \<open>Policy\<close>

record placement_stanza =
  ps_participant_only :: bool
  ps_pins :: "(string \<times> string) list"
  ps_homes :: "(string \<times> string) list"

record gate_policy =
  gp_node :: "string option"
  gp_placement :: "placement_stanza option"
  gp_claims_task :: bool

datatype refuse_reason =
    Scope_Is_Retired | Participant_Only | Homed_Elsewhere | Pin_Mismatch | Invalid_Pin | Routed_Elsewhere
  | Undeclared_Placement | Policy_Unavailable | Registry_Unreached | Registry_Refusal
  | Capability_Missing string | Capability_Root_Unresolvable | Capability_Unobserved
  | Directive_Conflict | Unknown_Node | Invalid_Provision_Value
  | Designated_Elsewhere | Designated_Home_Unreachable

datatype allow_reason = Gate_Dark | Non_Agent_Scope | Local_Authority | Registry_Bound_Local | Virgin_Establishment

record allowance =
  al_reason :: allow_reason
  al_home :: "string option"
  al_decision :: "birth_decision option"
  al_registry_binding :: "placement_binding option"
  al_placement_binding :: "placement_binding option"

record refusal =
  rf_reason :: refuse_reason
  rf_retryable :: bool
  rf_home :: "string option"
  rf_capability :: "string option"
  rf_binding :: "placement_binding option"
  rf_designation :: "designation option"
  rf_remote_allowed :: bool

datatype evaluation = Allow allowance | Refuse refusal

definition allow :: "allow_reason \<Rightarrow> allowance" where
  "allow r = \<lparr>al_reason = r, al_home = None, al_decision = None, al_registry_binding = None, al_placement_binding = None\<rparr>"

definition refuse :: "refuse_reason \<Rightarrow> refusal" where
  "refuse r = \<lparr>rf_reason = r, rf_retryable = False, rf_home = None, rf_capability = None, rf_binding = None,
     rf_designation = None, rf_remote_allowed = False\<rparr>"

definition exact_key :: "(string \<Rightarrow> scope_identity option) \<Rightarrow> string \<Rightarrow> string option" where
  "exact_key parse scopeRef = Option.bind (parse scopeRef) (\<lambda>p.
     Option.bind (scope_identity.si_task p) (\<lambda>t.
     map_option (\<lambda>q. q @ '':'' @ t) (scope_identity.si_project p)))"

definition task_key :: "(string \<Rightarrow> scope_identity option) \<Rightarrow> string \<Rightarrow> string option" where
  "task_key parse scopeRef = Option.bind (parse scopeRef) scope_identity.si_task"

text \<open>The base of a reserved name, for the first suffix whose base is declared.\<close>

fun inherited_home :: "(string \<times> string) list \<Rightarrow> string \<Rightarrow> string list \<Rightarrow> (string \<times> string) option" where
  "inherited_home homes task [] = None"
| "inherited_home homes task (suffix # ss) =
     (if \<not> ends_with task (''-'' @ suffix) then inherited_home homes task ss
      else let base = take (length task - length (''-'' @ suffix)) task in
        case map_of homes base of
          Some n \<Rightarrow> Some (base, n)
        | None \<Rightarrow> inherited_home homes task ss)"

definition home_declaration :: "(string \<Rightarrow> scope_identity option) \<Rightarrow> string \<Rightarrow> (string \<times> string) list option
    \<Rightarrow> (string \<times> string) option" where
  "home_declaration parse scopeRef homes = Option.bind homes (\<lambda>hs.
     Option.bind (task_key parse scopeRef) (\<lambda>task.
       case map_of hs task of Some n \<Rightarrow> Some (task, n) | None \<Rightarrow> inherited_home hs task roster_suffixes))"

datatype home_selection =
    Sel_Pin | Sel_Task_Default | Sel_Directive | Sel_Explicit_Local | Sel_Local_Default | Sel_Configured_Default
  | Sel_Birth_Designation

record designated_home =
  dh_home :: string
  dh_selection :: home_selection
  dh_key :: "string option"
  dh_designation :: "designation option"

definition home_at :: "string \<Rightarrow> home_selection \<Rightarrow> designated_home" where
  "home_at n sel = \<lparr>dh_home = n, dh_selection = sel, dh_key = None, dh_designation = None\<rparr>"

definition designation_decision :: "designated_home \<Rightarrow> birth_decision option" where
  "designation_decision h = (case dh_selection h of
     Sel_Pin \<Rightarrow> Some (Supersede By_Pin)
   | Sel_Task_Default \<Rightarrow> Some (Supersede By_Task_Default)
   | Sel_Directive \<Rightarrow> Some (Supersede By_Default_Home)
   | Sel_Configured_Default \<Rightarrow> Some (Supersede By_Default_Home)
   | Sel_Explicit_Local \<Rightarrow> Some (Supersede By_Explicit_Local)
   | Sel_Birth_Designation \<Rightarrow> Some Enforce_Designated_Home
   | Sel_Local_Default \<Rightarrow> None)"

definition permits_remote :: "designated_home \<Rightarrow> bool" where
  "permits_remote h = (dh_selection h \<in> {Sel_Pin, Sel_Task_Default, Sel_Directive, Sel_Configured_Default})"

text \<open>The \<open>node=\<close> member of the directive block, before it has been looked at.\<close>

definition directive_node :: "json option \<Rightarrow> string list option \<Rightarrow> refusal + string option" where
  "directive_node raw known =
     (case raw of
        None \<Rightarrow> Inr None
      | Some j \<Rightarrow>
          (case json_string j of
             None \<Rightarrow> Inl (refuse Invalid_Provision_Value)
           | Some s \<Rightarrow>
               (let n = js_trim s in
                if n = [] then Inl (refuse Invalid_Provision_Value)
                else if is_reserved_node_id n then Inl (refuse Invalid_Provision_Value)
                else if \<not> is_valid_node_id n then Inl (refuse Invalid_Provision_Value)
                else if (case known of None \<Rightarrow> False | Some ns \<Rightarrow> n \<notin> set ns) then Inl (refuse Unknown_Node)
                else Inr (Some n))))"

definition directive_conflict :: "string \<Rightarrow> refusal" where
  "directive_conflict declared = (refuse Directive_Conflict)\<lparr>rf_home := Some declared\<rparr>"

text \<open>A declared home: refused when it names no node or disagrees with the directive.\<close>

definition declared_home :: "string \<Rightarrow> string \<Rightarrow> home_selection \<Rightarrow> string option \<Rightarrow> refusal + designated_home" where
  "declared_home key n sel directive =
     (if is_reserved_node_id n then Inl (refuse Invalid_Pin)
      else if directive \<noteq> None \<and> directive \<noteq> Some n then Inl (directive_conflict n)
      else Inr ((home_at n sel)\<lparr>dh_key := Some key\<rparr>))"

datatype summon_intent = Implicit | Explicit_Local

definition resolve_designated_home :: "(string \<Rightarrow> scope_identity option) \<Rightarrow> string \<Rightarrow> gate_policy option \<Rightarrow> string
    \<Rightarrow> summon_intent \<Rightarrow> json option \<Rightarrow> string list option \<Rightarrow> refusal + designated_home" where
  "resolve_designated_home parse scopeRef policy localNode intent provisionNode known =
     and_then (directive_node provisionNode known) (\<lambda>directive.
       let stanza = Option.bind policy gp_placement in
       case Option.bind (exact_key parse scopeRef) (\<lambda>k. map_option (\<lambda>n. (k, n)) (Option.bind stanza (\<lambda>p. map_of (ps_pins p) k))) of
         Some (key, pin) \<Rightarrow> declared_home key pin Sel_Pin directive
       | None \<Rightarrow>
           (case home_declaration parse scopeRef (map_option ps_homes stanza) of
              Some (key, n) \<Rightarrow> declared_home key n Sel_Task_Default directive
            | None \<Rightarrow>
                (case directive of
                   Some n \<Rightarrow> Inr (home_at n Sel_Directive)
                 | None \<Rightarrow>
                     if intent = Explicit_Local then Inr (home_at localNode Sel_Explicit_Local)
                     else (case policy of
                        None \<Rightarrow> Inl (refuse Undeclared_Placement)
                      | Some p \<Rightarrow>
                          (case gp_node p of
                             None \<Rightarrow> Inr (home_at localNode Sel_Local_Default)
                           | Some n \<Rightarrow> if is_reserved_node_id n then Inl (refuse Invalid_Pin)
                               else Inr (home_at n Sel_Configured_Default))))))"

definition declared_placement_home :: "(string \<Rightarrow> scope_identity option) \<Rightarrow> string \<Rightarrow> gate_policy option \<Rightarrow> string
    \<Rightarrow> json option \<Rightarrow> string list option \<Rightarrow> refusal + string" where
  "declared_placement_home parse scopeRef policy localNode provisionNode known =
     and_then (resolve_designated_home parse scopeRef policy localNode Implicit provisionNode known) (\<lambda>h. Inr (dh_home h))"

section \<open>The decision\<close>

datatype capability =
    Capable
  | Incapable (ca_name: string) (ca_root_unresolvable: bool) (ca_retryable: "bool option")

datatype gate_mode = Off | Advisory | Enforce

datatype summon_origin = From_Local | From_Ingress | From_Establish | From_Repair

text \<open>What the gate is given: its node, its own ledger, and what answers its questions.\<close>

record gate_deps =
  gd_mode :: gate_mode
  gd_configured :: bool
  gd_local :: string
  gd_lib :: scope_lib
  gd_parse :: "string \<Rightarrow> scope_identity option"
  gd_ledger :: placement_ledger
  gd_consult :: "string \<Rightarrow> registry_error + placement_binding option"
  gd_policy :: "string \<Rightarrow> gate_policy option result"
  gd_designate :: "(string \<Rightarrow> registry_error + designation option) option"
  gd_capability :: "(string \<Rightarrow> capability result) option"
  gd_known :: "string list option"

record gate_request =
  gr_scope :: string
  gr_intent :: summon_intent
  gr_participant_claim :: bool
  gr_origin :: "summon_origin option"
  gr_node :: "json option"
  gr_deps :: gate_deps

definition require_capability :: "gate_request \<Rightarrow> allowance \<Rightarrow> evaluation" where
  "require_capability q authority =
     (case gd_capability (gr_deps q) of
        None \<Rightarrow> Allow authority
      | Some observe \<Rightarrow>
          (case observe (gr_scope q) of
             Inl e \<Rightarrow> Refuse ((refuse Capability_Unobserved)\<lparr>rf_retryable := True, rf_home := al_home authority\<rparr>)
           | Inr Capable \<Rightarrow> Allow authority
           | Inr (Incapable c root retryable) \<Rightarrow>
               Refuse ((refuse (if root then Capability_Root_Unresolvable else Capability_Missing c))
                 \<lparr>rf_retryable := or_default retryable False, rf_home := al_home authority, rf_capability := Some c\<rparr>)))"

definition node_local_refusal :: "gate_request \<Rightarrow> designated_home \<Rightarrow> refusal option" where
  "node_local_refusal q h =
     (if gr_origin q \<noteq> Some From_Establish \<or> permits_remote h then None
      else Some ((refuse Routed_Elsewhere)\<lparr>rf_home := Some (gd_local (gr_deps q))\<rparr>))"

definition apply_birth_designation :: "gate_request \<Rightarrow> string \<Rightarrow> designated_home \<Rightarrow> refusal + designated_home" where
  "apply_birth_designation q scopeRef h =
     (if dh_selection h \<noteq> Sel_Local_Default then Inr h
      else if gr_intent q \<noteq> Implicit \<or> gr_origin q = Some From_Establish then Inr h
      else case gd_designate (gr_deps q) of
        None \<Rightarrow> Inr h
      | Some ask \<Rightarrow>
          (case ask scopeRef of
             Inl (Registry_Refused s c) \<Rightarrow> Inl (refuse Registry_Refusal)
           | Inl e \<Rightarrow> Inl ((refuse Registry_Unreached)\<lparr>rf_retryable := True\<rparr>)
           | Inr None \<Rightarrow> Inr h
           | Inr (Some d) \<Rightarrow>
               if (case gd_known (gr_deps q) of None \<Rightarrow> False | Some ns \<Rightarrow> de_home d \<notin> set ns)
               then Inl ((refuse Designated_Home_Unreachable)
                 \<lparr>rf_retryable := True, rf_home := Some (de_home d), rf_designation := Some d\<rparr>)
               else Inr ((home_at (de_home d) Sel_Birth_Designation)\<lparr>dh_designation := Some d\<rparr>)))"

definition decide_virgin :: "gate_request \<Rightarrow> designated_home \<Rightarrow> evaluation" where
  "decide_virgin q h =
     (case node_local_refusal q h of
        Some r \<Rightarrow> Refuse r
      | None \<Rightarrow>
          if dh_home h = gd_local (gr_deps q)
          then require_capability q ((allow Virgin_Establishment)
            \<lparr>al_home := Some (dh_home h), al_decision := designation_decision h\<rparr>)
          else (case dh_designation h of
             Some d \<Rightarrow> Refuse ((refuse Designated_Elsewhere)\<lparr>rf_home := Some (de_home d), rf_designation := Some d\<rparr>)
           | None \<Rightarrow>
               if dh_key h \<noteq> None
               then Refuse ((refuse Pin_Mismatch)\<lparr>rf_home := Some (dh_home h), rf_remote_allowed := True\<rparr>)
               else Refuse ((refuse Routed_Elsewhere)
                 \<lparr>rf_home := Some (dh_home h), rf_remote_allowed := permits_remote h\<rparr>)))"

definition decide_unbound :: "gate_request \<Rightarrow> string \<Rightarrow> evaluation" where
  "decide_unbound q scopeRef =
     (case gd_policy (gr_deps q) scopeRef of
        Inl e \<Rightarrow> Refuse ((refuse Policy_Unavailable)\<lparr>rf_retryable := True\<rparr>)
      | Inr policy \<Rightarrow>
          if \<not> gr_participant_claim q \<and> (case Option.bind policy gp_placement of Some p \<Rightarrow> ps_participant_only p | None \<Rightarrow> False)
          then Refuse (refuse Participant_Only)
          else (case and_then (resolve_designated_home (gd_parse (gr_deps q)) scopeRef policy (gd_local (gr_deps q))
                    (gr_intent q) (gr_node q) (gd_known (gr_deps q))) (apply_birth_designation q scopeRef) of
             Inl r \<Rightarrow> Refuse r
           | Inr h \<Rightarrow> decide_virgin q h))"

definition decide_consulted :: "gate_request \<Rightarrow> string \<Rightarrow> evaluation" where
  "decide_consulted q scopeRef =
     (case gd_consult (gr_deps q) scopeRef of
        Inl (Registry_Refused s c) \<Rightarrow> Refuse (refuse Registry_Refusal)
      | Inl e \<Rightarrow> Refuse ((refuse Registry_Unreached)\<lparr>rf_retryable := True\<rparr>)
      | Inr (Some b) \<Rightarrow>
          if pb_home b = gd_local (gr_deps q)
          then require_capability q ((allow Registry_Bound_Local)\<lparr>al_home := Some (pb_home b), al_registry_binding := Some b\<rparr>)
          else Refuse ((refuse Homed_Elsewhere)\<lparr>rf_home := Some (pb_home b), rf_binding := Some b\<rparr>)
      | Inr None \<Rightarrow> decide_unbound q scopeRef)"

definition decide :: "gate_request \<Rightarrow> evaluation result" where
  "decide q =
     (case canonical_scope (gd_lib (gr_deps q)) (gr_scope q) of
        Inl e \<Rightarrow> Inr (Allow (allow Non_Agent_Scope))
      | Inr scopeRef \<Rightarrow> then_do (ledger_get (gd_lib (gr_deps q)) scopeRef (gd_ledger (gr_deps q))) (\<lambda>r. Inr
          (case r of
             None \<Rightarrow> decide_consulted q scopeRef
           | Some local \<Rightarrow>
               if pl_state local = Withdrawn_For_Good then Refuse (refuse Scope_Is_Retired)
               else if pb_home local = gd_local (gr_deps q)
               then require_capability q ((allow Local_Authority)
                 \<lparr>al_home := Some (pb_home local), al_placement_binding := Some (map_binding local)\<rparr>)
               else Refuse ((refuse Homed_Elsewhere)
                 \<lparr>rf_home := Some (pb_home local), rf_binding := Some (map_binding local)\<rparr>))))"

datatype disposition =
    Local_Bound placement_binding home_source
  | Local_Establish string "birth_decision option"
  | Remote_Bound placement_binding
  | Remote_Establish string refuse_reason
  | Placement_Refused refuse_reason bool "string option"

definition disposition_for :: "gate_request \<Rightarrow> evaluation \<Rightarrow> disposition option" where
  "disposition_for q ev =
     (case ev of
        Refuse r \<Rightarrow>
          if rf_reason r = Homed_Elsewhere \<and> rf_binding r \<noteq> None then map_option Remote_Bound (rf_binding r)
          else if gr_intent q = Implicit \<and> rf_home r \<noteq> None \<and> rf_remote_allowed r
            \<and> rf_reason r \<in> {Pin_Mismatch, Routed_Elsewhere}
          then map_option (\<lambda>n. Remote_Establish n (rf_reason r)) (rf_home r)
          else Some (Placement_Refused (rf_reason r) (rf_retryable r) (rf_home r))
      | Allow a \<Rightarrow>
          (case al_reason a of
             Local_Authority \<Rightarrow> map_option (\<lambda>b. Local_Bound b From_Ledger) (al_placement_binding a)
           | Registry_Bound_Local \<Rightarrow> map_option (\<lambda>b. Local_Bound b From_Registry) (al_registry_binding a)
           | Virgin_Establishment \<Rightarrow> map_option (\<lambda>n. Local_Establish n (al_decision a)) (al_home a)
           | _ \<Rightarrow> None))"

record gate_result =
  gt_evaluation :: evaluation
  gt_placement :: "disposition option"
  gt_enforced :: bool
  gt_mode :: gate_mode

fun is_refusal :: "evaluation \<Rightarrow> bool" where
  "is_refusal (Refuse r) = True"
| "is_refusal (Allow a) = False"

definition evaluate_summon_gate :: "gate_request \<Rightarrow> gate_result" where
  "evaluate_summon_gate q =
     (let mode = gd_mode (gr_deps q) in
      if mode = Off \<or> \<not> gd_configured (gr_deps q)
      then \<lparr>gt_evaluation = Allow (allow Gate_Dark), gt_placement = None, gt_enforced = False, gt_mode = mode\<rparr>
      else (let ev = (case decide q of Inr ev \<Rightarrow> ev
                | Inl e \<Rightarrow> Refuse ((refuse Policy_Unavailable)\<lparr>rf_retryable := True\<rparr>)) in
        \<lparr>gt_evaluation = ev, gt_placement = disposition_for q ev,
         gt_enforced = (mode = Enforce \<and> is_refusal ev), gt_mode = mode\<rparr>))"

section \<open>Acting on the decision\<close>

text \<open>Why a summon ends: the refusal of the gate, a failing birth, or a birth that was lost.\<close>

datatype summon_error =
    Gate_Refused refusal
  | Birth_Failed registry_error
  | Birth_Designated_Elsewhere designation
  | Birth_Lost placement_binding
  | Install_Failed js_error

text \<open>
  The tail of the authority check: \<open>reply\<close> is what the registry answers to the birth, once asked. An
  error of the local part of a birth is reported like one of the registry.
\<close>

definition commit_birth :: "scope_lib \<Rightarrow> string \<Rightarrow> registry_error + establish_result \<Rightarrow> placement_ledger
    \<Rightarrow> placement_ledger \<times> (summon_error + unit)" where
  "commit_birth lib home reply rows =
     (case and_then (case birth_request home of Inl e \<Rightarrow> Inl (Registry_Threw e) | Inr n \<Rightarrow> Inr n) (\<lambda>n. reply) of
        Inl e \<Rightarrow> (rows, Inl (Birth_Failed e))
      | Inr r \<Rightarrow>
          (case finish_birth lib home r rows of
             (rows', Inl e) \<Rightarrow> (rows', Inl (Birth_Failed (Registry_Threw e)))
           | (rows', Inr (Placement_Mismatch d)) \<Rightarrow> (rows', Inl (Birth_Designated_Elsewhere d))
           | (rows', Inr (Bound_Elsewhere b)) \<Rightarrow> (rows', Inl (Birth_Lost b))
           | (rows', Inr _) \<Rightarrow> (rows', Inr ())))"

definition commit_summon :: "scope_lib \<Rightarrow> gate_result \<Rightarrow> registry_error + establish_result \<Rightarrow> placement_ledger
    \<Rightarrow> placement_ledger \<times> (summon_error + unit)" where
  "commit_summon lib res reply rows =
     (case gt_evaluation res of
        Refuse r \<Rightarrow> (rows, if gt_enforced res then Inl (Gate_Refused r) else Inr ())
      | Allow a \<Rightarrow>
          (case (al_reason a, al_registry_binding a, al_home a) of
             (Registry_Bound_Local, Some b, _) \<Rightarrow>
               (case install_active lib (install_of b) rows of
                  (rows', Inl e) \<Rightarrow> (rows', Inl (Install_Failed e))
                | (rows', Inr _) \<Rightarrow> (rows', Inr ()))
           | (Virgin_Establishment, _, Some home) \<Rightarrow> commit_birth lib home reply rows
           | _ \<Rightarrow> (rows, Inr ())))"

text \<open>Who is asked to birth a scope for another node acts on the disposition in the same way.\<close>

datatype remote_establish_result =
    Remote_Existing placement_binding
  | Remote_Established placement_binding
  | Remote_Refused int refuse_reason bool "string option"
  | Remote_Birth_Refused int registry_error
  | Remote_Mismatch designation
  | Remote_Threw js_error

definition establish_remote_authority :: "gate_request \<Rightarrow> registry_error + establish_result \<Rightarrow> placement_ledger
    \<Rightarrow> placement_ledger \<times> remote_establish_result" where
  "establish_remote_authority q reply rows =
     (let lib = gd_lib (gr_deps q); n = gd_local (gr_deps q) in
      case gt_placement (evaluate_summon_gate q) of
        None \<Rightarrow> (rows, Remote_Refused 409 Undeclared_Placement False None)
      | Some (Local_Bound b From_Ledger) \<Rightarrow> (rows, Remote_Existing b)
      | Some (Local_Bound b From_Registry) \<Rightarrow>
          (case install_active lib (install_of b) rows of
             (rows', Inl e) \<Rightarrow> (rows', Remote_Threw e)
           | (rows', Inr _) \<Rightarrow> (rows', Remote_Existing b))
      | Some (Remote_Bound b) \<Rightarrow> (rows, Remote_Existing b)
      | Some (Remote_Establish candidate reason) \<Rightarrow> (rows, Remote_Refused 409 reason False (Some candidate))
      | Some (Placement_Refused reason retryable home) \<Rightarrow>
          (rows, Remote_Refused (if reason = Registry_Unreached then 503 else 409) reason retryable home)
      | Some (Local_Establish home decision) \<Rightarrow>
          (case and_then (case birth_request n of Inl e \<Rightarrow> Inl (Registry_Threw e) | Inr _ \<Rightarrow> Inr ()) (\<lambda>_. reply) of
             Inl e \<Rightarrow> (rows, Remote_Birth_Refused (case e of Registry_Refused s c \<Rightarrow> 409 | _ \<Rightarrow> 503) e)
           | Inr r \<Rightarrow>
               (case finish_birth lib n r rows of
                  (rows', Inl e) \<Rightarrow> (rows', Remote_Birth_Refused 503 (Registry_Threw e))
                | (rows', Inr (Placement_Mismatch d)) \<Rightarrow> (rows', Remote_Mismatch d)
                | (rows', Inr (Established b)) \<Rightarrow> (rows', Remote_Established b)
                | (rows', Inr (Already_Established b)) \<Rightarrow> (rows', Remote_Existing b)
                | (rows', Inr (Bound_Elsewhere b)) \<Rightarrow> (rows', Remote_Existing b))))"

end
