(* ===== verification/Placement_Histories.thy ===== *)
theory Placement_Histories
  imports Summon_Gate
begin

text \<open>
  A collective of nodes and its registry: births, consultations, designations and retirements of any
  number of nodes in any interleaving. Each step is what runs between two waits. An answer of the
  registry, and a deletion sent to it, are kept once they have been made: they may arrive late,
  more than once, or never, which covers lost replies, retries and a node that stops at any point.
\<close>

section \<open>Histories\<close>

text \<open>
  \<open>fd_answers\<close> holds, for each node, the bindings that the registry has answered it with, whether to
  a consultation or to a birth; \<open>fd_deletes\<close> the deletions that retirements have sent.
\<close>

record federation =
  fd_registry :: registry
  fd_ledger :: "string \<Rightarrow> placement_ledger"
  fd_answers :: "(string \<times> placement_binding) list"
  fd_deletes :: "(string \<times> string \<times> string) list"

definition empty_federation :: federation where
  "empty_federation = \<lparr>fd_registry = empty_registry, fd_ledger = (\<lambda>_. []), fd_answers = [], fd_deletes = []\<rparr>"

datatype fed_op =
    Consult string string
  | Ask_Birth string string "birth_decision option" string
  | Take_Answer string placement_binding
  | Begin_Retirement string string string "string list" string "unit result"
  | Deliver_Delete string string string
  | Designate string "birth_envelope option" string

definition put_ledger :: "string \<Rightarrow> placement_ledger \<Rightarrow> federation \<Rightarrow> federation" where
  "put_ledger n rows w = w\<lparr>fd_ledger := (fd_ledger w)(n := rows)\<rparr>"

definition note_answer :: "string \<Rightarrow> placement_binding option \<Rightarrow> federation \<Rightarrow> federation" where
  "note_answer n b w = (case b of None \<Rightarrow> w | Some x \<Rightarrow> w\<lparr>fd_answers := fd_answers w @ [(n, x)]\<rparr>)"

definition answered_binding :: "registry_error + establish_result \<Rightarrow> placement_binding option" where
  "answered_binding r = (case r of Inr (Created b) \<Rightarrow> Some b | Inr (Existing b) \<Rightarrow> Some b | _ \<Rightarrow> None)"

fun fed_step :: "scope_lib \<Rightarrow> sender_lib \<Rightarrow> fed_op \<Rightarrow> federation \<Rightarrow> federation" where
  "fed_step lib slib (Consult n s) w =
     note_answer n (case client_consult lib s (fd_registry w) of Inl e \<Rightarrow> None | Inr b \<Rightarrow> b) w"
| "fed_step lib slib (Ask_Birth n s decision now) w =
     (case birth_request n of
        Inl e \<Rightarrow> w
      | Inr home \<Rightarrow> (let (g, r) = client_establish lib n s home decision now (fd_registry w) in
          note_answer n (answered_binding r) (w\<lparr>fd_registry := g\<rparr>)))"
| "fed_step lib slib (Take_Answer n b) w =
     (if (n, b) \<in> set (fd_answers w)
      then put_ledger n (fst (finish_birth lib n (Existing b) (fd_ledger w n))) w else w)"
| "fed_step lib slib (Begin_Retirement n s reason live now fenced) w =
     (case retire_scope_begin lib n s reason live now fenced (fd_ledger w n) of
        (rows, Inr (Retirement_Pends p)) \<Rightarrow>
          (put_ledger n rows w)\<lparr>fd_deletes := fd_deletes w @ [(n, pr_scope p, pr_deleted_at p)]\<rparr>
      | (rows, _) \<Rightarrow> put_ledger n rows w)"
| "fed_step lib slib (Deliver_Delete n s at) w =
     (if (n, s, at) \<in> set (fd_deletes w)
      then w\<lparr>fd_registry := fst (client_delete lib n s n at (fd_registry w))\<rparr> else w)"
| "fed_step lib slib (Designate s envelope now) w =
     w\<lparr>fd_registry := fst (designate_from lib slib s envelope now (fd_registry w))\<rparr>"

section \<open>What the operations do to the rows\<close>

lemma map_binding_id [simp]: "map_binding (b :: placement_binding) = b"
  by (simp add: map_binding_def)

lemma map_binding_placed_row [simp]: "map_binding (placed_row b) = b"
  by (simp add: map_binding_def placed_row_def)

lemma map_binding_simps [simp]: "pb_scope (map_binding r) = pb_scope r" "pb_home (map_binding r) = pb_home r"
  by (simp_all add: map_binding_def)

lemma placed_row_simps [simp]:
  "pb_scope (placed_row b) = pb_scope b" "pb_home (placed_row b) = pb_home b" "pl_state (placed_row b) = Placed"
  by (simp_all add: placed_row_def)

lemma map_binding_eqD: "map_binding r = map_binding r' \<Longrightarrow> pb_scope r = pb_scope r' \<and> pb_home r = pb_home r'"
  by (simp add: map_binding_def)

definition canonical_binding :: "scope_lib \<Rightarrow> 'a placement_binding_scheme \<Rightarrow> bool" where
  "canonical_binding lib b = (canonical_scope lib (pb_scope b) = Inr (pb_scope b) \<and> js_trim (pb_home b) = pb_home b \<and> pb_home b \<noteq> [])"

lemma install_of_binding:
  assumes "canonical_binding lib (b :: placement_binding)"
  shows "install_active lib (install_of b) rows = install_transaction b rows"
  using assms by (cases b) (simp add: canonical_binding_def install_active_def install_of_def require_node_id_def)

text \<open>What a node does with an answer that names it.\<close>

lemma finish_birth_ledger:
  assumes "canonical_binding lib b"
  shows "fst (finish_birth lib n (Existing b) rows) = (if pb_home b = n then fst (install_transaction b rows) else rows)"
  using assms by (auto simp: finish_birth_def install_of_binding active_authority_def ledger_get_def canonical_binding_def
      split: option.splits prod.splits sum.splits)

lemma install_transaction_rows:
  "fst (install_transaction b rows) = (if row_get pb_scope rows (pb_scope b) = None then rows @ [placed_row b] else rows)"
  by (auto simp: install_transaction_def row_get_append split: option.splits)

lemma establish_rows:
  assumes "establish_binding lib s home decision now g = (g', r)"
  shows "rg_bindings g' = rg_bindings g \<or>
    (\<exists>c. canonical_scope lib s = Inr c \<and> row_get pb_scope (rg_bindings g) c = None \<and> js_trim home \<noteq> []
      \<and> rg_bindings g' = rg_bindings g @ [\<lparr>pb_scope = c, pb_home = js_trim home, pb_created = now, pb_updated = now\<rparr>])"
  using assms
  by (auto simp: establish_binding_def establish_transaction_def birth_supersedes_def supersede_designation_def
      require_node_id_def then_do_def Let_def split: sum.splits option.splits birth_decision.splits if_splits)

lemma establish_answer:
  assumes "establish_binding lib s home decision now g = (g', Inr r)" "answered_binding (Inr r) = Some b"
  shows "b \<in> set (rg_bindings g') \<and> canonical_scope lib s = Inr (pb_scope b)"
  using assms
  by (auto simp: establish_binding_def establish_transaction_def birth_supersedes_def supersede_designation_def answered_binding_def
      require_node_id_def then_do_def Let_def row_get_append split: sum.splits option.splits birth_decision.splits if_splits
      dest!: row_get_SomeD)

lemma delete_rows:
  "rg_bindings (fst (delete_binding lib s home at g)) = rg_bindings g \<or>
   (\<exists>c. canonical_scope lib s = Inr c \<and>
     rg_bindings (fst (delete_binding lib s home at g)) = filter (\<lambda>b. \<not> (pb_scope b = c \<and> pb_home b = js_trim home)) (rg_bindings g))"
  by (auto simp: delete_binding_def delete_transaction_def require_node_id_def then_do_def Let_def
      split: sum.splits option.splits if_splits prod.splits)

lemma designate_rows [simp]: "rg_bindings (fst (designate_from lib slib s envelope now g)) = rg_bindings g"
  by (auto simp: designate_from_def answer_of_def record_designation_def then_do_def Let_def
      split: sum.splits option.splits if_splits prod.splits)

lemma row_get_in: "distinct (map key rows) \<Longrightarrow> r \<in> set rows \<Longrightarrow> key r = k \<Longrightarrow> row_get key rows k = Some r"
  by (auto simp: row_get_here)

lemma retire_update_scopes [simp]: "map pb_scope (retire_update c home why at rows) = map pb_scope rows"
  by (induction rows) (auto simp: retire_update_def)

lemma retire_update_row:
  assumes "r \<in> set (retire_update c home why at rows)"
  shows "(r \<in> set rows \<and> \<not> retires c home r) \<or>
    (\<exists>x \<in> set rows. retires c home x \<and> pb_scope r = c \<and> pb_home r = home \<and> pl_state r = Withdrawn_For_Good)"
  using assms by (auto simp: retire_update_def retires_def split: if_splits)

lemma retire_update_keeps:
  "r \<in> set rows \<Longrightarrow> \<not> retires c home r \<Longrightarrow> r \<in> set (retire_update c home why at rows)"
  by (force simp: retire_update_def)

lemma retire_update_withdrawn:
  assumes "\<exists>r \<in> set rows. pb_scope r = k \<and> pl_state r = Withdrawn_For_Good"
  shows "\<exists>r \<in> set (retire_update c home why at rows). pb_scope r = k \<and> pl_state r = Withdrawn_For_Good"
  using assms by (auto simp: retires_def intro!: bexI retire_update_keeps)

lemma retire_update_hits:
  assumes "x \<in> set rows" "retires c home x"
  shows "\<exists>r \<in> set (retire_update c home why at rows). pb_scope r = c \<and> pl_state r = Withdrawn_For_Good"
  unfolding retire_update_def set_map by (rule bexI [OF _ imageI [OF assms(1)]]) (use assms(2) in \<open>simp add: retires_def\<close>)

lemma retire_begin_rows:
  "fst (retire_scope_begin lib n s reason live now fenced rows) = rows \<or>
   (\<exists>c why at. canonical_scope lib s = Inr c \<and>
     fst (retire_scope_begin lib n s reason live now fenced rows) = retire_update c (js_trim n) why at rows)"
  by (auto simp: retire_scope_begin_def retire_placement_def retire_transaction_def require_node_id_def then_do_def Let_def
      ledger_get_def canonical_scope_fixed split: sum.splits option.splits if_splits prod.splits)

lemma retire_update_get:
  "row_get pb_scope (retire_update c home why at rows) k = map_option (\<lambda>r. if retires c home r
     then r\<lparr>pl_state := Withdrawn_For_Good, pl_retired_at := Some at, pl_reason := Some why, pb_updated := at\<rparr> else r)
     (row_get pb_scope rows k)"
  by (induction rows) (auto simp: retire_update_def row_get_def)

lemma retire_transaction_record:
  assumes "retire_transaction c home why at rows = (rows', x)" "rr_record x = Some r"
    "rr_outcome x \<notin> {Retire_Conflict, Retire_Not_Found}"
  shows "r \<in> set rows' \<and> pb_scope r = c \<and> pl_state r = Withdrawn_For_Good"
proof (cases "row_get pb_scope rows c")
  case None
  then show ?thesis using assms by (auto simp: retire_transaction_def)
next
  case (Some current)
  note current = row_get_SomeD [OF Some]
  show ?thesis
  proof (cases "pb_home current = home \<and> pl_state current = Placed")
    case True
    then have hit: "retires c home current" using current by (simp add: retires_def)
    have "row_get pb_scope rows' c = Some r" "rows' = retire_update c home why at rows"
      using assms Some True by (auto simp: retire_transaction_def Let_def split: if_splits)
    then show ?thesis using retire_update_get [of c home why at rows c] Some hit row_get_SomeD [of pb_scope rows' c r] by auto
  next
    case False
    then have "pl_state current = Withdrawn_For_Good \<and> rows' = rows \<and> r = current"
      using assms Some by (cases "pl_state current") (auto simp: retire_transaction_def split: if_splits)
    then show ?thesis using current by simp
  qed
qed

lemma retire_begin_pends:
  assumes "retire_scope_begin lib n s reason live now fenced rows = (rows', Inr (Retirement_Pends p))"
  shows "canonical_scope lib s = Inr (pr_scope p) \<and> pr_row p \<in> set rows' \<and> pb_scope (pr_row p) = pr_scope p
    \<and> pl_state (pr_row p) = Withdrawn_For_Good"
  using assms
  by (auto simp: retire_scope_begin_def retire_placement_def require_node_id_def then_do_def Let_def
      ledger_get_def canonical_scope_fixed split: sum.splits option.splits if_splits prod.splits
      dest!: retire_transaction_record)

section \<open>One home\<close>

definition withdrawn_at :: "federation \<Rightarrow> string \<Rightarrow> string \<Rightarrow> bool" where
  "withdrawn_at w n s = (\<exists>r \<in> set (fd_ledger w n). pb_scope r = s \<and> pl_state r = Withdrawn_For_Good)"

text \<open>
  A node's ledger holds rows of the node itself, and a row in force agrees with the registry; an answer
  that names its node is still the registry's, unless the node has retired the scope since; a
  deletion is only under way for a scope that its sender has retired.
\<close>

definition ledger_ok :: "scope_lib \<Rightarrow> placement_binding list \<Rightarrow> string \<Rightarrow> placement_ledger \<Rightarrow> bool" where
  "ledger_ok lib bs n rows = (distinct (map pb_scope rows)
     \<and> (\<forall>r \<in> set rows. pb_home r = n \<and> canonical_binding lib r \<and> (pl_state r = Placed \<longrightarrow> map_binding r \<in> set bs)))"

definition homes_ok :: "scope_lib \<Rightarrow> federation \<Rightarrow> bool" where
  "homes_ok lib w = (let bs = rg_bindings (fd_registry w) in
     distinct (map pb_scope bs) \<and> (\<forall>b \<in> set bs. canonical_binding lib b)
     \<and> (\<forall>n. ledger_ok lib bs n (fd_ledger w n))
     \<and> (\<forall>(n, b) \<in> set (fd_answers w). canonical_binding lib b
         \<and> (pb_home b = n \<longrightarrow> b \<in> set bs \<or> withdrawn_at w n (pb_scope b)))
     \<and> (\<forall>(n, s, at) \<in> set (fd_deletes w). withdrawn_at w n s))"

lemma homes_okI:
  assumes "distinct (map pb_scope (rg_bindings (fd_registry w)))" "\<And>b. b \<in> set (rg_bindings (fd_registry w)) \<Longrightarrow> canonical_binding lib b"
    and "\<And>n. ledger_ok lib (rg_bindings (fd_registry w)) n (fd_ledger w n)"
    and "\<And>n b. (n, b) \<in> set (fd_answers w) \<Longrightarrow> canonical_binding lib b"
    and "\<And>b. (pb_home b, b) \<in> set (fd_answers w) \<Longrightarrow> b \<in> set (rg_bindings (fd_registry w)) \<or> withdrawn_at w (pb_home b) (pb_scope b)"
    and "\<And>n s at. (n, s, at) \<in> set (fd_deletes w) \<Longrightarrow> withdrawn_at w n s"
  shows "homes_ok lib w"
  using assms(1-4,6) unfolding homes_ok_def Let_def by (auto split: prod.splits) (use assms(5) in blast)

lemma homes_okD:
  assumes "homes_ok lib w"
  shows "distinct (map pb_scope (rg_bindings (fd_registry w)))"
    and "b \<in> set (rg_bindings (fd_registry w)) \<Longrightarrow> canonical_binding lib b"
    and "ledger_ok lib (rg_bindings (fd_registry w)) n (fd_ledger w n)"
    and "(n, b) \<in> set (fd_answers w) \<Longrightarrow> canonical_binding lib b"
    and "(pb_home b, b) \<in> set (fd_answers w) \<Longrightarrow> b \<in> set (rg_bindings (fd_registry w)) \<or> withdrawn_at w (pb_home b) (pb_scope b)"
    and "(n, s, at) \<in> set (fd_deletes w) \<Longrightarrow> withdrawn_at w n s"
  using assms unfolding homes_ok_def Let_def by (auto split: prod.splits)

lemma ledger_okD:
  assumes "ledger_ok lib bs n rows" "r \<in> set rows"
  shows "pb_home r = n" "canonical_binding lib r" "pl_state r = Placed \<Longrightarrow> map_binding r \<in> set bs"
    "row_get pb_scope rows (pb_scope r) = Some r"
  using assms by (auto simp: ledger_ok_def row_get_here)

lemma ledger_ok_mono: "ledger_ok lib bs n rows \<Longrightarrow> set bs \<subseteq> set bs' \<Longrightarrow> ledger_ok lib bs' n rows"
  by (auto simp: ledger_ok_def)

lemma note_answer_simps [simp]:
  "fd_registry (note_answer n a w) = fd_registry w" "fd_ledger (note_answer n a w) = fd_ledger w"
  "fd_deletes (note_answer n a w) = fd_deletes w" "withdrawn_at (note_answer n a w) = withdrawn_at w"
  "set (fd_answers (note_answer n a w)) = set (fd_answers w) \<union> (case a of None \<Rightarrow> {} | Some b \<Rightarrow> {(n, b)})"
  by (auto simp: note_answer_def withdrawn_at_def fun_eq_iff split: option.splits)

lemma withdrawn_at_registry [simp]: "withdrawn_at (w\<lparr>fd_registry := g\<rparr>) = withdrawn_at w"
  by (simp add: withdrawn_at_def fun_eq_iff)

text \<open>Steps that only let the registry and the answers grow.\<close>

lemma grows_homes_ok:
  assumes "homes_ok lib w" "set (rg_bindings (fd_registry w)) \<subseteq> set (rg_bindings g)"
    "distinct (map pb_scope (rg_bindings g))" "\<forall>b \<in> set (rg_bindings g). canonical_binding lib b"
    and "case a of None \<Rightarrow> True | Some b \<Rightarrow> b \<in> set (rg_bindings g)"
  shows "homes_ok lib (note_answer n a (w\<lparr>fd_registry := g\<rparr>))"
proof -
  note ok = homes_okD [OF assms(1)]
  have l: "ledger_ok lib (rg_bindings g) m (fd_ledger w m)" for m
    using ledger_ok_mono [OF ok(3) assms(2)] .
  show ?thesis
  proof (rule homes_okI)
    fix m b
    assume "(m, b) \<in> set (fd_answers (note_answer n a (w\<lparr>fd_registry := g\<rparr>)))"
    then show "canonical_binding lib b" using assms(4,5) ok(4) by (auto split: option.splits)
  next
    fix b
    assume "(pb_home b, b) \<in> set (fd_answers (note_answer n a (w\<lparr>fd_registry := g\<rparr>)))"
    then show "b \<in> set (rg_bindings (fd_registry (note_answer n a (w\<lparr>fd_registry := g\<rparr>))))
      \<or> withdrawn_at (note_answer n a (w\<lparr>fd_registry := g\<rparr>)) (pb_home b) (pb_scope b)"
      using assms(2,5) ok(5) by (auto split: option.splits)
  qed (use assms(3,4) ok(6) l in auto)
qed

lemma consult_keeps: "homes_ok lib w \<Longrightarrow> homes_ok lib (fed_step lib slib (Consult n s) w)"
proof -
  assume a: "homes_ok lib w"
  have "case (case client_consult lib s (fd_registry w) of Inl e \<Rightarrow> None | Inr b \<Rightarrow> b) of None \<Rightarrow> True
      | Some b \<Rightarrow> b \<in> set (rg_bindings (fd_registry w))"
    by (auto simp: client_consult_def registry_get_def then_do_def split: sum.splits option.splits dest: row_get_SomeD)
  then show ?thesis using grows_homes_ok [OF a, of "fd_registry w"] homes_okD(1,2) [OF a] by auto
qed

lemma ask_birth_keeps: "homes_ok lib w \<Longrightarrow> homes_ok lib (fed_step lib slib (Ask_Birth n s decision now) w)"
proof -
  assume a: "homes_ok lib w"
  note ok = homes_okD [OF a]
  obtain g r where gr: "establish_binding lib s n decision now (fd_registry w) = (g, r)" by fastforce
  have bs: "set (rg_bindings (fd_registry w)) \<subseteq> set (rg_bindings g)" "distinct (map pb_scope (rg_bindings g))"
      "\<forall>b \<in> set (rg_bindings g). canonical_binding lib b"
    using establish_rows [OF gr] ok(1,2)
    by (auto simp: row_get_None_iff canonical_binding_def canonical_scope_fixed)
  have "case (case r of Inl e \<Rightarrow> None | Inr x \<Rightarrow> answered_binding (Inr x)) of None \<Rightarrow> True | Some b \<Rightarrow> b \<in> set (rg_bindings g)"
    using establish_answer [of lib s n decision now "fd_registry w" g] gr by (auto split: sum.splits option.splits)
  then have "homes_ok lib (note_answer n (case r of Inl e \<Rightarrow> None | Inr x \<Rightarrow> answered_binding (Inr x)) (w\<lparr>fd_registry := g\<rparr>))"
    using grows_homes_ok [OF a bs] by blast
  then show ?thesis using a gr
    by (auto simp: birth_request_def parse_node_id_def client_establish_def answered_binding_def Let_def note_answer_def
        split: sum.splits option.splits prod.splits)
qed

text \<open>Steps that change one ledger, where what has been withdrawn stays so.\<close>

lemma put_ledger_simps [simp]:
  "fd_registry (put_ledger n rows w) = fd_registry w" "fd_answers (put_ledger n rows w) = fd_answers w"
  "fd_deletes (put_ledger n rows w) = fd_deletes w" "fd_ledger (put_ledger n rows w) m = (if m = n then rows else fd_ledger w m)"
  by (simp_all add: put_ledger_def)

lemma withdrawn_at_put_ledger:
  "withdrawn_at (put_ledger n rows w) m s = (if m = n then \<exists>r \<in> set rows. pb_scope r = s \<and> pl_state r = Withdrawn_For_Good else withdrawn_at w m s)"
  by (simp add: withdrawn_at_def)

lemma put_ledger_keeps:
  assumes "homes_ok lib w" "ledger_ok lib (rg_bindings (fd_registry w)) n rows"
    and keeps: "\<And>s. withdrawn_at w n s \<Longrightarrow> \<exists>r \<in> set rows. pb_scope r = s \<and> pl_state r = Withdrawn_For_Good"
  shows "homes_ok lib (put_ledger n rows w)"
proof -
  note ok = homes_okD [OF assms(1)]
  have w: "withdrawn_at w m s \<Longrightarrow> withdrawn_at (put_ledger n rows w) m s" for m s
    using keeps [of s] by (cases "m = n") (simp_all add: withdrawn_at_put_ledger)
  show ?thesis by (rule homes_okI) (use assms(2) ok w in \<open>auto; blast\<close>)+
qed

lemma install_ledger_ok:
  assumes "ledger_ok lib bs n rows" "canonical_binding lib b" "pb_home b = n"
    and "b \<in> set bs \<or> (\<exists>r \<in> set rows. pb_scope r = pb_scope b \<and> pl_state r = Withdrawn_For_Good)"
  shows "ledger_ok lib bs n (fst (install_transaction b rows))"
proof (cases "row_get pb_scope rows (pb_scope b) = None")
  case True
  then have "b \<in> set bs" using assms(4) by (force simp: row_get_None_iff)
  then show ?thesis using assms(1-3) True by (auto simp: install_transaction_rows ledger_ok_def row_get_None_iff canonical_binding_def)
qed (use assms(1) in \<open>auto simp: install_transaction_rows\<close>)

lemma take_answer_keeps: "homes_ok lib w \<Longrightarrow> homes_ok lib (fed_step lib slib (Take_Answer n b) w)"
proof -
  assume a: "homes_ok lib w"
  note ok = homes_okD [OF a]
  show ?thesis
  proof (cases "(n, b) \<in> set (fd_answers w) \<and> pb_home b = n")
    case True
    then have c: "canonical_binding lib b" and b: "b \<in> set (rg_bindings (fd_registry w)) \<or> withdrawn_at w n (pb_scope b)"
      using ok(4,5) by blast+
    have "ledger_ok lib (rg_bindings (fd_registry w)) n (fst (install_transaction b (fd_ledger w n)))"
      using install_ledger_ok [OF ok(3) c] True b by (simp add: withdrawn_at_def)
    then have "homes_ok lib (put_ledger n (fst (install_transaction b (fd_ledger w n))) w)"
      by (rule put_ledger_keeps [OF a]) (auto simp: withdrawn_at_def install_transaction_rows)
    then show ?thesis using True c by (simp add: finish_birth_ledger)
  next
    case False
    then have "(n, b) \<in> set (fd_answers w) \<Longrightarrow> put_ledger n (fd_ledger w n) w = w"
      by (simp add: put_ledger_def)
    then show ?thesis using a False ok(4) by (auto simp: finish_birth_ledger)
  qed
qed

lemma retire_ledger_ok:
  assumes "ledger_ok lib bs n rows"
  shows "ledger_ok lib bs n (retire_update c home why at rows)"
proof -
  have "pb_home r = n \<and> canonical_binding lib r \<and> (pl_state r = Placed \<longrightarrow> map_binding r \<in> set bs)"
    if "r \<in> set (retire_update c home why at rows)" for r
    using retire_update_row [OF that] ledger_okD(1,2,3) [OF assms]
    by (auto simp: retires_def canonical_binding_def)
  then show ?thesis using assms by (simp add: ledger_ok_def)
qed

lemma begin_retirement_keeps:
  "homes_ok lib w \<Longrightarrow> homes_ok lib (fed_step lib slib (Begin_Retirement n s reason live now fenced) w)"
proof -
  assume a: "homes_ok lib w"
  note ok = homes_okD [OF a]
  obtain rows r where rr: "retire_scope_begin lib n s reason live now fenced (fd_ledger w n) = (rows, r)" by fastforce
  then have rows: "rows = fd_ledger w n \<or> (\<exists>c why at. rows = retire_update c (js_trim n) why at (fd_ledger w n))"
    using retire_begin_rows [of lib n s reason live now fenced "fd_ledger w n"] by auto
  have l: "ledger_ok lib (rg_bindings (fd_registry w)) n rows" using rows ok(3) retire_ledger_ok by blast
  have k: "\<exists>r \<in> set rows. pb_scope r = k \<and> pl_state r = Withdrawn_For_Good" if "withdrawn_at w n k" for k
    using rows that retire_update_withdrawn [of "fd_ledger w n" k] by (auto simp: withdrawn_at_def)
  have p: "homes_ok lib (put_ledger n rows w)" using put_ledger_keeps [OF a l k] by blast
  show ?thesis
  proof (cases "\<exists>p. r = Inr (Retirement_Pends p)")
    case True
    then obtain p where p': "r = Inr (Retirement_Pends p)" by blast
    let ?w = "(put_ledger n rows w)\<lparr>fd_deletes := fd_deletes w @ [(n, pr_scope p, pr_deleted_at p)]\<rparr>"
    have d: "withdrawn_at (put_ledger n rows w) n (pr_scope p)"
      using retire_begin_pends [OF rr [unfolded p']] by (auto simp: withdrawn_at_put_ledger)
    have w: "withdrawn_at ?w = withdrawn_at (put_ledger n rows w)" by (simp add: withdrawn_at_def fun_eq_iff)
    have "homes_ok lib ?w" using p d unfolding homes_ok_def w by (auto simp: Let_def)
    then show ?thesis using rr p' by simp
  next
    case False
    then show ?thesis using p rr by (auto split: sum.splits retirement_step.splits)
  qed
qed

text \<open>A deletion takes away a binding of the node that has retired the scope, and no other.\<close>

lemma deliver_delete_keeps: "homes_ok lib w \<Longrightarrow> homes_ok lib (fed_step lib slib (Deliver_Delete n s at) w)"
proof -
  assume a: "homes_ok lib w"
  note ok = homes_okD [OF a]
  show ?thesis
  proof (cases "(n, s, at) \<in> set (fd_deletes w)")
    case True
    let ?bs = "rg_bindings (fd_registry w)" and ?g = "fst (delete_binding lib s n at (fd_registry w))"
    obtain x where x: "x \<in> set (fd_ledger w n)" "pb_scope x = s" "pl_state x = Withdrawn_For_Good"
      using ok(6) [OF True] by (auto simp: withdrawn_at_def)
    note lx = ledger_okD [OF ok(3) x(1)]
    have c: "canonical_scope lib s = Inr s" "js_trim n = n" using lx(1,2) x(2) by (auto simp: canonical_binding_def)
    have bs: "rg_bindings ?g = ?bs \<or> rg_bindings ?g = filter (\<lambda>b. \<not> (pb_scope b = s \<and> pb_home b = n)) ?bs"
      using delete_rows [of lib s n at "fd_registry w"] c by auto
    have keep: "b \<in> set (rg_bindings ?g)" if "b \<in> set ?bs" "pb_scope b \<noteq> s \<or> pb_home b \<noteq> n" for b
      using bs that by auto
    have l: "ledger_ok lib (rg_bindings ?g) m (fd_ledger w m)" for m
    proof -
      have "map_binding r \<in> set (rg_bindings ?g)" if r: "r \<in> set (fd_ledger w m)" "pl_state r = Placed" for r
      proof (rule keep)
        show "map_binding r \<in> set ?bs" using ledger_okD(3) [OF ok(3) r(1)] r(2) .
        show "pb_scope (map_binding r) \<noteq> s \<or> pb_home (map_binding r) \<noteq> n"
        proof (rule ccontr)
          assume "\<not> ?thesis"
          then have "pb_scope r = s" "pb_home r = n" by simp_all
          then have "row_get pb_scope (fd_ledger w n) s = Some r" using ledger_okD(1,4) [OF ok(3) r(1)] by simp
          then show False using lx(4) x(2,3) r(2) by simp
        qed
      qed
      then show ?thesis using ok(3) [of m] by (auto simp: ledger_ok_def)
    qed
    have sub: "set (rg_bindings ?g) \<subseteq> set ?bs" "distinct (map pb_scope (rg_bindings ?g))"
      using bs ok(1) by (auto simp: distinct_map_filter)
    have "homes_ok lib (w\<lparr>fd_registry := ?g\<rparr>)"
    proof (rule homes_okI)
      fix b
      assume "(pb_home b, b) \<in> set (fd_answers (w\<lparr>fd_registry := ?g\<rparr>))"
      then show "b \<in> set (rg_bindings (fd_registry (w\<lparr>fd_registry := ?g\<rparr>))) \<or> withdrawn_at (w\<lparr>fd_registry := ?g\<rparr>) (pb_home b) (pb_scope b)"
        using ok(5) [of b] keep [of b] ok(6) [OF True] by auto
    qed (use sub ok l in auto)
    then show ?thesis using True
      by (auto simp: client_delete_def split: prod.splits sum.splits)
  qed (use a in simp)
qed

lemma designate_keeps: "homes_ok lib w \<Longrightarrow> homes_ok lib (fed_step lib slib (Designate s envelope now) w)"
  unfolding homes_ok_def by (simp add: Let_def)

lemma fed_step_keeps: "homes_ok lib w \<Longrightarrow> homes_ok lib (fed_step lib slib l w)"
  by (cases l) (simp_all only: consult_keeps ask_birth_keeps take_answer_keeps begin_retirement_keeps deliver_delete_keeps designate_keeps)

interpretation collective: op_history "fed_step lib slib" "\<lambda>l. True" "homes_ok lib" for lib slib
  by unfold_locales (rule fed_step_keeps)

lemma empty_homes_ok: "homes_ok lib empty_federation"
  by (simp add: homes_ok_def empty_federation_def empty_registry_def ledger_ok_def)

lemma history_homes_ok: "homes_ok lib (fold (fed_step lib slib) ls empty_federation)"
  by (rule collective.history_keeps [OF _ empty_homes_ok]) (simp add: list_all_iff)

text \<open>What the invariant says of two nodes and the registry.\<close>

lemma active_authority_row:
  assumes "active_authority lib s rows = Inr (Some r)"
  shows "\<exists>c. canonical_scope lib s = Inr c \<and> r \<in> set rows \<and> pb_scope r = c \<and> pl_state r = Placed"
  using assms by (auto simp: active_authority_def ledger_get_def then_do_def split: sum.splits option.splits if_splits dest: row_get_SomeD)

lemma authority_is_bound:
  assumes "homes_ok lib w" "active_authority lib s (fd_ledger w n) = Inr (Some r)"
  shows "pb_home r = n \<and> registry_get lib s (fd_registry w) = Inr (Some (map_binding r))"
proof -
  note ok = homes_okD [OF assms(1)]
  obtain c where c: "canonical_scope lib s = Inr c" "r \<in> set (fd_ledger w n)" "pb_scope r = c" "pl_state r = Placed"
    using active_authority_row [OF assms(2)] by blast
  have "map_binding r \<in> set (rg_bindings (fd_registry w))" using ledger_okD(3) [OF ok(3) c(2)] c(4) by blast
  then show ?thesis using ledger_okD(1) [OF ok(3) c(2)] c(1,3) row_get_in [OF ok(1)] by (simp add: registry_get_def)
qed

text \<open>
  C7. In every interleaving of births, consultations, designations and retirements, with answers and
  deletions that arrive late, repeatedly or never, at most one node has authority over a scope, and
  the registry names that node with the very binding the node holds.
\<close>

theorem scope_has_one_home:
  assumes "w = fold (fed_step lib slib) ls empty_federation"
    and "active_authority lib s (fd_ledger w n) = Inr (Some r)"
  shows "pb_home r = n \<and> registry_get lib s (fd_registry w) = Inr (Some (map_binding r))
    \<and> (\<forall>m r'. active_authority lib s (fd_ledger w m) = Inr (Some r') \<longrightarrow> m = n)"
proof -
  have ok: "homes_ok lib w" using assms(1) history_homes_ok by simp
  show ?thesis
    using authority_is_bound [OF ok assms(2)] authority_is_bound [OF ok, of s] map_binding_eqD by fastforce
qed

section \<open>Summoning\<close>

text \<open>A row in force stays so until the node retires its scope.\<close>

definition spares_scope :: "scope_lib \<Rightarrow> string \<Rightarrow> string \<Rightarrow> fed_op \<Rightarrow> bool" where
  "spares_scope lib n c l = (case l of
     Begin_Retirement m s reason live now fenced \<Rightarrow> \<not> (m = n \<and> canonical_scope lib s = Inr c)
   | _ \<Rightarrow> True)"

definition row_in_force :: "string \<Rightarrow> placement_row \<Rightarrow> federation \<Rightarrow> bool" where
  "row_in_force n r w = (r \<in> set (fd_ledger w n))"

lemma finish_birth_grows: "r \<in> set rows \<Longrightarrow> r \<in> set (fst (finish_birth lib n (Existing b) rows))"
  by (auto simp: finish_birth_def install_active_def install_transaction_def Let_def
      split: sum.splits option.splits prod.splits if_splits)

lemma spared_row_stays:
  assumes "spares_scope lib n (pb_scope r) l" "row_in_force n r w"
  shows "row_in_force n r (fed_step lib slib l w)"
proof (cases l)
  case (Begin_Retirement m s reason live now fenced)
  have "r \<in> set (fst (retire_scope_begin lib m s reason live now fenced (fd_ledger w m)))" if "m = n"
    using retire_begin_rows [of lib m s reason live now fenced "fd_ledger w m"] assms that Begin_Retirement
      retire_update_keeps [of r "fd_ledger w m"]
    by (auto simp: spares_scope_def row_in_force_def retires_def)
  then show ?thesis using assms(2) Begin_Retirement
    by (auto simp: row_in_force_def put_ledger_def split: prod.splits sum.splits retirement_step.splits)
next
  case (Take_Answer m b)
  then show ?thesis using assms(2) finish_birth_grows by (auto simp: row_in_force_def)
next
  case (Ask_Birth m s d now)
  then show ?thesis using assms(2) by (auto simp: row_in_force_def split: sum.splits prod.splits)
qed (use assms(2) in \<open>auto simp: row_in_force_def\<close>)

interpretation spared: op_history "fed_step lib slib" "spares_scope lib n (pb_scope r)" "row_in_force n r" for lib slib n r
  by unfold_locales (rule spared_row_stays)

text \<open>An answer the registry has given the node, for the scope.\<close>

definition answered_with :: "federation \<Rightarrow> string \<Rightarrow> string \<Rightarrow> placement_binding \<Rightarrow> bool" where
  "answered_with w n c b = ((n, b) \<in> set (fd_answers w) \<and> pb_scope b = c)"

lemma installed_authority:
  assumes "canonical_binding lib b" "install_transaction b rows = (rows', Inr r)"
  shows "active_authority lib (pb_scope b) rows' = Inr (Some r) \<and> pb_home r = pb_home b"
  using assms
  by (auto simp: install_transaction_def active_authority_def ledger_get_def canonical_binding_def Let_def row_get_append
      split: option.splits if_splits placement_state.splits) (metis placement_state.exhaust)+

text \<open>What the gate has found when it allows a summon.\<close>

lemma allow_simps [simp]: "al_reason (allow r) = r"
  by (simp add: allow_def)

lemma require_capability_allows: "require_capability q authority = Allow a \<Longrightarrow> a = authority"
  by (auto simp: require_capability_def split: option.splits sum.splits capability.splits)

lemma decide_virgin_allows:
  assumes "decide_virgin q h = Allow a"
  shows "al_reason a = Virgin_Establishment \<and> al_home a = Some (gd_local (gr_deps q)) \<and> dh_home h = gd_local (gr_deps q)
    \<and> al_decision a = designation_decision h"
  using assms by (auto simp: decide_virgin_def Let_def dest!: require_capability_allows split: option.splits if_splits)

lemma decide_consulted_allows:
  assumes "decide_consulted q c = Allow a"
  shows "(al_reason a = Registry_Bound_Local \<and> (\<exists>b. gd_consult (gr_deps q) c = Inr (Some b) \<and> pb_home b = gd_local (gr_deps q)
        \<and> al_registry_binding a = Some b))
    \<or> (al_reason a = Virgin_Establishment \<and> al_home a = Some (gd_local (gr_deps q)) \<and> gd_consult (gr_deps q) c = Inr None)"
  using assms
  by (auto simp: decide_consulted_def decide_unbound_def dest!: require_capability_allows decide_virgin_allows
      split: sum.splits option.splits registry_error.splits if_splits)

lemma decide_allows:
  assumes "decide q = Inr (Allow a)" "canonical_scope (gd_lib (gr_deps q)) (gr_scope q) = Inr c"
  shows "(al_reason a = Local_Authority \<and> (\<exists>r \<in> set (gd_ledger (gr_deps q)). pb_scope r = c \<and> pl_state r = Placed
        \<and> pb_home r = gd_local (gr_deps q)))
    \<or> decide_consulted q c = Allow a"
proof (cases "row_get pb_scope (gd_ledger (gr_deps q)) c")
  case None
  then show ?thesis using assms canonical_scope_fixed [OF assms(2)] by (simp add: decide_def ledger_get_def)
next
  case (Some r)
  then show ?thesis
    using assms canonical_scope_fixed [OF assms(2)] row_get_SomeD [OF Some]
    by (cases "pl_state r") (auto simp: decide_def ledger_get_def dest!: require_capability_allows split: if_splits)
qed

lemma take_answer_installs:
  assumes "homes_ok lib w" "answered_with w n c b" "pb_home b = n" "install_transaction b (fd_ledger w n) = (rows, Inr r)"
  shows "homes_ok lib (put_ledger n rows w) \<and> active_authority lib c rows = Inr (Some r)"
proof -
  have c: "canonical_binding lib b" using homes_okD(4) [OF assms(1)] assms(2) by (auto simp: answered_with_def)
  have "fed_step lib slib (Take_Answer n b) w = put_ledger n rows w" for slib
    using assms finish_birth_ledger [OF c, of n "fd_ledger w n"] by (simp add: answered_with_def)
  then show ?thesis using take_answer_keeps [OF assms(1), of undefined n b] installed_authority [OF c assms(4)] assms(2)
    by (simp add: answered_with_def)
qed

lemma finish_birth_installs:
  assumes "canonical_binding lib b" "finish_birth lib n (Existing b) rows = (rows', Inr out)" "\<forall>x. out \<noteq> Bound_Elsewhere x"
  shows "pb_home b = n \<and> (\<exists>r. install_transaction b rows = (rows', Inr r))"
  using assms by (auto simp: finish_birth_def install_of_binding split: sum.splits option.splits prod.splits if_splits)

lemma commit_birth_takes_answer:
  assumes "commit_birth lib home reply rows = (rows', Inr ())" "\<forall>b. answered_binding reply = Some b \<longrightarrow> canonical_binding lib b"
  shows "\<exists>b r. answered_binding reply = Some b \<and> pb_home b = home \<and> install_transaction b rows = (rows', Inr r)"
proof -
  obtain r out where r: "reply = Inr r" "finish_birth lib home r rows = (rows', Inr out)"
      "\<forall>d. out \<noteq> Placement_Mismatch d" "\<forall>b. out \<noteq> Bound_Elsewhere b"
    using assms(1) by (auto simp: commit_birth_def split: sum.splits prod.splits placement_outcome.splits)
  obtain b where b: "answered_binding reply = Some b" "finish_birth lib home (Existing b) rows = (rows', Inr out)"
    using r by (cases r) (auto simp: answered_binding_def finish_birth_def Let_def)
  show ?thesis using finish_birth_installs [OF _ b(2) r(4)] assms(2) b(1) by blast
qed

text \<open>
  C8. An enforced summon that goes through leaves its scope at home: when the gate has allowed it, on
  answers of the registry that may be of any age, and the tail of the check has returned, this node
  has authority over the scope, the registry names this node, and no other node has authority, provided
  the node did not begin to retire the scope meanwhile (which the lock of the scope excludes).
\<close>

theorem summoned_scope_is_home:
  assumes w0: "w0 = fold (fed_step lib slib) ls empty_federation" and w1: "w1 = fold (fed_step lib slib) ls' w0"
    and spared: "list_all (spares_scope lib n c) ls'"
    and deps: "gd_lib (gr_deps q) = lib" "gd_local (gr_deps q) = n" "gd_ledger (gr_deps q) = fd_ledger w0 n"
    and gate: "gd_mode (gr_deps q) = Enforce" "gd_configured (gr_deps q)" "canonical_scope lib (gr_scope q) = Inr c"
    and consult: "\<forall>b. gd_consult (gr_deps q) c = Inr (Some b) \<longrightarrow> answered_with w1 n c b"
    and reply: "\<forall>b. answered_binding reply = Some b \<longrightarrow> answered_with w1 n c b"
    and commit: "commit_summon lib (evaluate_summon_gate q) reply (fd_ledger w1 n) = (rows, Inr ())"
  shows "\<exists>r. active_authority lib c rows = Inr (Some r) \<and> pb_home r = n
    \<and> registry_get lib c (fd_registry w1) = Inr (Some (map_binding r))
    \<and> (\<forall>m r'. m \<noteq> n \<longrightarrow> active_authority lib c (fd_ledger w1 m) \<noteq> Inr (Some r'))"
proof -
  have "w1 = fold (fed_step lib slib) (ls @ ls') empty_federation" using w0 w1 by simp
  then have ok: "homes_ok lib w1" using history_homes_ok by metis
  have canonical: "answered_with w1 n c b \<Longrightarrow> canonical_binding lib b" for b
    using homes_okD(4) [OF ok] by (auto simp: answered_with_def)
  obtain a where a: "decide q = Inr (Allow a)" "gt_evaluation (evaluate_summon_gate q) = Allow a"
    using commit gate(1,2)
    by (auto simp: commit_summon_def evaluate_summon_gate_def Let_def split: evaluation.splits sum.splits)
  note found = decide_allows [OF a(1), unfolded deps, OF gate(3)] decide_consulted_allows [of q c a, unfolded deps]
  have "\<exists>r. active_authority lib c rows = Inr (Some r) \<and> homes_ok lib (put_ledger n rows w1)"
  proof (cases "al_reason a")
    case Local_Authority
    then obtain r where r: "r \<in> set (fd_ledger w0 n)" "pb_scope r = c" "pl_state r = Placed"
      using found by auto
    have rows: "rows = fd_ledger w1 n" using commit a(2) Local_Authority by (simp add: commit_summon_def)
    have "row_in_force n r w1"
      using spared.history_keeps [of lib n r ls' w0 slib] spared w1 r(1,2) by (simp add: row_in_force_def)
    then have "row_get pb_scope rows c = Some r" using rows ledger_okD(4) [OF homes_okD(3) [OF ok]] r(2) by (auto simp: row_in_force_def)
    moreover have "put_ledger n rows w1 = w1" using rows by (simp add: put_ledger_def)
    ultimately show ?thesis using ok r(3) canonical_scope_fixed [OF gate(3)] by (simp add: active_authority_def ledger_get_def)
  next
    case Registry_Bound_Local
    then obtain b where b: "gd_consult (gr_deps q) c = Inr (Some b)" "pb_home b = n" "al_registry_binding a = Some b"
      using found by auto
    have an: "answered_with w1 n c b" using consult b(1) by blast
    obtain r where "install_transaction b (fd_ledger w1 n) = (rows, Inr r)"
      using commit a(2) Registry_Bound_Local b(3) install_of_binding [OF canonical [OF an]]
      by (auto simp: commit_summon_def split: prod.splits sum.splits)
    then show ?thesis using take_answer_installs [OF ok an b(2)] by blast
  next
    case Virgin_Establishment
    then have h: "al_home a = Some n" using found by auto
    have cb: "commit_birth lib n reply (fd_ledger w1 n) = (rows, Inr ())"
      using commit a(2) Virgin_Establishment h by (simp add: commit_summon_def)
    obtain b r where b: "answered_binding reply = Some b" "pb_home b = n" "install_transaction b (fd_ledger w1 n) = (rows, Inr r)"
      using commit_birth_takes_answer [OF cb] reply canonical by blast
    then show ?thesis using take_answer_installs [OF ok _ b(2,3)] reply by blast
  qed (use found in auto)
  then obtain r where r: "active_authority lib c rows = Inr (Some r)" "homes_ok lib (put_ledger n rows w1)" by blast
  have bound: "pb_home x = m \<and> registry_get lib c (fd_registry w1) = Inr (Some (map_binding x))"
    if "active_authority lib c (if m = n then rows else fd_ledger w1 m) = Inr (Some x)" for m x
    using authority_is_bound [OF r(2), of c m x] that by simp
  show ?thesis
  proof (intro exI conjI allI impI notI)
    fix m r'
    assume m: "m \<noteq> n" "active_authority lib c (fd_ledger w1 m) = Inr (Some r')"
    show False using bound [of m r'] bound [of n r] r(1) m map_binding_eqD by fastforce
  qed (use bound [of n r] r(1) in auto)
qed

end
