(* ===== verification/Placement_Recovery.thy ===== *)
theory Placement_Recovery
  imports Placement_Histories "HOL-Library.Multiset"
begin

text \<open>
  What the collective recovers from: a lost registry is rebuilt from the ledgers, births and retirements
  that stopped half way are completed by asking again, and the designation of a birth stays
  unambiguous. The requests that other nodes send to the registry, and the examples of the histories.
\<close>

section \<open>Rebuilding the registry\<close>

lemma map_set_new: "k \<notin> fst ` set kvs \<Longrightarrow> map_set k v kvs = kvs @ [(k, v)]"
  by (induction k v kvs rule: map_set.induct) auto

lemma select_rows_distinct:
  assumes "distinct (map fst selected @ map pb_scope (filter (\<lambda>r. pl_state r = Placed) rows))"
    and "\<forall>r \<in> set rows. canonical_binding lib r"
  shows "select_rows lib rows selected d =
    Inr (selected @ map (\<lambda>r. (pb_scope r, r)) (filter (\<lambda>r. pl_state r = Placed) rows), d)"
  using assms
proof (induction rows arbitrary: selected)
  case (Cons r rs)
  show ?case
  proof (cases "pl_state r = Placed")
    case True
    then have "pb_scope r \<notin> fst ` set selected" using Cons.prems(1) by auto
    then have "map_of selected (pb_scope r) = None" "map_set (pb_scope r) r selected = selected @ [(pb_scope r, r)]"
      by (simp_all add: map_of_eq_None_iff map_set_new)
    moreover have "r\<lparr>pb_scope := pb_scope r\<rparr> = r" by simp
    ultimately show ?thesis using Cons True by (simp add: canonical_binding_def)
  qed (use Cons in simp)
qed simp

lemma insert_all_distinct:
  assumes "distinct (map pb_scope (rg_bindings g) @ map pb_scope bs)"
  shows "insert_all bs g = Inr (g\<lparr>rg_bindings := rg_bindings g @ bs\<rparr>)"
  using assms
proof (induction bs arbitrary: g)
  case (Cons b bs)
  have "row_get pb_scope (rg_bindings g) (pb_scope b) = None" using Cons.prems by (auto simp: row_get_None_iff)
  then show ?case using Cons by (simp add: insert_rebuilt_def)
qed simp

lemma rebuild_distinct:
  assumes "distinct (map pb_scope (filter (\<lambda>r. pl_state r = Placed) rows))" "\<forall>r \<in> set rows. canonical_binding lib r"
    and order: "\<And>rs. mset (order rs) = mset rs"
  shows "\<exists>g k. rebuild_registry lib order rows empty_registry = (g, Inr (k, 0))
    \<and> set (rg_bindings g) = map_binding ` {r \<in> set rows. pl_state r = Placed}"
proof -
  let ?sel = "filter (\<lambda>r. pl_state r = Placed) rows"
  have m: "mset (map map_binding (order ?sel)) = mset (map map_binding ?sel)" using order by simp
  then have st: "set (map map_binding (order ?sel)) = map_binding ` set ?sel" by (metis mset_eq_setD set_map)
  have "mset (map pb_scope (order ?sel)) = mset (map pb_scope ?sel)" using order by simp
  then have "distinct (map pb_scope (order ?sel))" using assms(1) mset_eq_imp_distinct_iff by blast
  then have "insert_all (map map_binding (order ?sel)) empty_registry
      = Inr (empty_registry\<lparr>rg_bindings := map map_binding (order ?sel)\<rparr>)"
    using insert_all_distinct [of empty_registry "map map_binding (order ?sel)"] by (simp add: empty_registry_def comp_def)
  moreover have "select_rows lib rows [] 0 = Inr (map (\<lambda>r. (pb_scope r, r)) ?sel, 0)"
    using select_rows_distinct [of "[]" rows lib 0] assms(1,2) by simp
  ultimately show ?thesis using st by (auto simp: rebuild_registry_def comp_def list_bindings_def empty_registry_def)
qed

lemma placed_scopes_distinct:
  assumes "homes_ok lib w" "distinct nodes"
  shows "distinct (map pb_scope (filter (\<lambda>r. pl_state r = Placed) (concat (map (\<lambda>n. list_ledger (fd_ledger w n)) nodes))))"
  using assms(2)
proof (induction nodes)
  case (Cons n ns)
  note ok = homes_okD [OF assms(1)]
  have d: "distinct (map pb_scope (list_ledger (fd_ledger w n)))"
    using ok(3) [of n] by (simp add: ledger_ok_def list_ledger_def distinct_map)
  have one: "m = n" if "r \<in> set (fd_ledger w n)" "r' \<in> set (fd_ledger w m)" "pl_state r = Placed" "pl_state r' = Placed"
    "pb_scope r = pb_scope r'" for r r' m
  proof -
    have "map_binding r \<in> set (rg_bindings (fd_registry w))" "map_binding r' \<in> set (rg_bindings (fd_registry w))"
      using that(3,4) ledger_okD(3) [OF ok(3) that(1)] ledger_okD(3) [OF ok(3) that(2)] by blast+
    then have "map_binding r = map_binding r'"
      using that(5) row_get_in [OF ok(1)] by (metis map_binding_simps(1) option.inject)
    then show ?thesis using map_binding_eqD ledger_okD(1) [OF ok(3) that(1)] ledger_okD(1) [OF ok(3) that(2)] by metis
  qed
  have "False" if r: "r \<in> set (list_ledger (fd_ledger w n))" "pl_state r = Placed" and m: "m \<in> set ns"
      "r' \<in> set (list_ledger (fd_ledger w m))" "pl_state r' = Placed" "pb_scope r = pb_scope r'" for r r' m
    using one [of r r' m] that Cons.prems by (auto simp: list_ledger_def)
  then have "pb_scope ` set (filter (\<lambda>r. pl_state r = Placed) (list_ledger (fd_ledger w n)))
      \<inter> pb_scope ` set (filter (\<lambda>r. pl_state r = Placed) (concat (map (\<lambda>n. list_ledger (fd_ledger w n)) ns))) = {}"
    by auto
  then show ?case using Cons d by (simp add: distinct_map_filter)
qed simp

text \<open>
  C20. A registry that is lost can be rebuilt from the ledgers of the nodes after any history: the rebuild
  meets no conflict and no duplicate, binds exactly the scopes that some node has authority over, to
  that node, and restores only bindings the lost registry held.
\<close>

theorem rebuilt_registry_names_the_homes:
  assumes "w = fold (fed_step lib slib) ls empty_federation" and "distinct nodes"
    and "\<And>rs. mset (order rs) = mset rs"
  shows "\<exists>g k. rebuild_registry lib order (concat (map (\<lambda>n. list_ledger (fd_ledger w n)) nodes)) empty_registry = (g, Inr (k, 0))
    \<and> set (rg_bindings g) = {map_binding r | n r s. n \<in> set nodes \<and> active_authority lib s (fd_ledger w n) = Inr (Some r)}
    \<and> set (rg_bindings g) \<subseteq> set (rg_bindings (fd_registry w))"
proof -
  have ok: "homes_ok lib w" using assms(1) history_homes_ok by simp
  note okd = homes_okD [OF ok]
  let ?rows = "concat (map (\<lambda>n. list_ledger (fd_ledger w n)) nodes)"
  have "\<forall>r \<in> set ?rows. canonical_binding lib r" using ledger_okD(2) [OF okd(3)] by (auto simp: list_ledger_def)
  then obtain g k where g: "rebuild_registry lib order ?rows empty_registry = (g, Inr (k, 0))"
      "set (rg_bindings g) = map_binding ` {r \<in> set ?rows. pl_state r = Placed}"
    using rebuild_distinct [OF placed_scopes_distinct [OF ok assms(2)], of lib order] assms(3) by blast
  have auth: "active_authority lib (pb_scope r) (fd_ledger w n) = Inr (Some r)"
    if "r \<in> set (fd_ledger w n)" "pl_state r = Placed" for r n
    using ledger_okD(2,4) [OF okd(3) that(1)] that(2) by (simp add: active_authority_def ledger_get_def canonical_binding_def)
  have "set (rg_bindings g) = {map_binding r | n r s. n \<in> set nodes \<and> active_authority lib s (fd_ledger w n) = Inr (Some r)}"
    unfolding g(2) using auth active_authority_row by (fastforce simp: list_ledger_def)
  moreover have "set (rg_bindings g) \<subseteq> set (rg_bindings (fd_registry w))"
    unfolding g(2) using ledger_okD(3) [OF okd(3)] by (auto simp: list_ledger_def)
  ultimately show ?thesis using g(1) by blast
qed

section \<open>Interrupted births and retirements\<close>

text \<open>
  C21. A birth that stopped between the registry and the ledger converges: wherever the registry names a
  node that has no row, the same birth asked again, whatever its decision, changes nothing in the
  registry and gives the node its authority.
\<close>

theorem interrupted_birth_converges:
  assumes "w = fold (fed_step lib slib) ls empty_federation"
    and "registry_get lib s (fd_registry w) = Inr (Some b)" "ledger_get lib s (fd_ledger w (pb_home b)) = Inr None"
    and "is_valid_node_id (pb_home b)"
  shows "\<exists>rows. establish_local_placement lib (establish_binding lib) s (pb_home b) decision now (fd_registry w) (fd_ledger w (pb_home b))
      = (fd_registry w, rows, Inr (Established b))
    \<and> active_authority lib s rows = Inr (Some (placed_row b))"
proof -
  have ok: "homes_ok lib w" using assms(1) history_homes_ok by simp
  obtain c where c: "canonical_scope lib s = Inr c" "row_get pb_scope (rg_bindings (fd_registry w)) c = Some b"
    using assms(2) by (auto simp: registry_get_def then_do_def split: sum.splits)
  have b: "b \<in> set (rg_bindings (fd_registry w))" "pb_scope b = c" using row_get_SomeD [OF c(2)] by auto
  have cb: "canonical_binding lib b" using homes_okD(2) [OF ok b(1)] .
  have e: "establish_binding lib s (pb_home b) decision now (fd_registry w) = (fd_registry w, Inr (Existing b))"
    using c cb by (simp add: establish_binding_def establish_transaction_def require_node_id_def canonical_binding_def)
  have none: "row_get pb_scope (fd_ledger w (pb_home b)) c = None" using assms(3) c(1) by (simp add: ledger_get_def)
  have i: "install_transaction b (fd_ledger w (pb_home b)) = (fd_ledger w (pb_home b) @ [placed_row b], Inr (placed_row b))"
    using none b(2) by (simp add: install_transaction_def Let_def row_get_append)
  have "birth_request (pb_home b) = Inr (pb_home b)"
    using assms(4) by (auto simp: birth_request_def parse_node_id_def node_id_violation_def is_valid_node_id_def node_id_pattern_def)
  moreover have "finish_birth lib (pb_home b) (Existing b) (fd_ledger w (pb_home b)) = (fd_ledger w (pb_home b) @ [placed_row b], Inr (Established b))"
    using i none b(2) cb by (simp add: finish_birth_def install_of_binding [OF cb] active_authority_def ledger_get_def canonical_binding_def)
  ultimately show ?thesis
    using e c(1) none b(2) by (simp add: establish_local_placement_def active_authority_def ledger_get_def row_get_append)
qed

lemma delete_effect:
  assumes "homes_ok lib w" "row_get pb_scope (rg_bindings (fd_registry w)) c = None \<or>
      (\<exists>b. row_get pb_scope (rg_bindings (fd_registry w)) c = Some b \<and> pb_home b = n)"
  shows "\<exists>g out. delete_transaction c n at (fd_registry w) = (g, out) \<and> row_get pb_scope (rg_bindings g) c = None
    \<and> live_of c g = (if out = Deleted then None else live_of c (fd_registry w)) \<and> out \<in> {Deleted, Delete_Idempotent}"
proof (cases "row_get pb_scope (rg_bindings (fd_registry w)) c")
  case None
  then show ?thesis by (simp add: delete_transaction_def)
next
  case (Some b)
  then have h: "pb_home b = n" using assms(2) by auto
  have "b' = b" if "b' \<in> set (rg_bindings (fd_registry w))" "pb_scope b' = c" for b'
    using row_get_in [OF homes_okD(1) [OF assms(1)] that] Some by simp
  then have "row_get pb_scope (filter (\<lambda>b. \<not> (pb_scope b = c \<and> pb_home b = n)) (rg_bindings (fd_registry w))) c = None"
    using h by (auto simp: row_get_None_iff)
  moreover have "List.find (\<lambda>d. de_scope d = c \<and> de_state d = Live)
      (filter (\<lambda>d. \<not> (de_scope d = c \<and> de_state d = Live)) (rg_designations (fd_registry w))) = None"
    by (auto simp: find_None_iff)
  ultimately show ?thesis using Some h by (simp add: delete_transaction_def live_of_def)
qed

text \<open>A valid node identifier has no white space to trim.\<close>

lemma valid_node_id_trimmed:
  assumes "is_valid_node_id m"
  shows "js_trim m = m" "m \<noteq> []" "birth_request m = Inr m"
proof -
  have "list_all (\<lambda>c. \<not> is_js_space c) m"
    using assms by (auto simp: is_valid_node_id_def node_id_pattern_def node_id_char_def is_js_space_def is_word_char_def
        is_digit_def is_lower_def is_upper_def list_all_iff)
  then show "js_trim m = m" by (intro js_trim_no_space) (auto simp: list_all_iff)
  show "m \<noteq> []" "birth_request m = Inr m"
    using assms by (auto simp: birth_request_def parse_node_id_def node_id_violation_def is_valid_node_id_def node_id_pattern_def)
qed

text \<open>A birth in a scope that is bound nowhere, on a node that has no row of it.\<close>

lemma unbound_birth:
  assumes c: "canonical_scope lib s = Inr c" and m: "is_valid_node_id m"
    and free: "row_get pb_scope (rg_bindings g) c = None" "row_get pb_scope rows c = None"
  shows "\<exists>g' rows' b. establish_local_placement lib (establish_binding lib) s m None now g rows = (g', rows', Inr (Established b))
    \<and> pb_home b = m \<and> registry_get lib s g' = Inr (Some b) \<and> active_authority lib s rows' = Inr (Some (placed_row b))"
proof -
  define b where "b = \<lparr>pb_scope = c, pb_home = m, pb_created = now, pb_updated = now\<rparr>"
  note v = valid_node_id_trimmed [OF m]
  have f: "pb_scope b = c" "pb_home b = m" by (simp_all add: b_def)
  have cb: "canonical_binding lib b" using canonical_scope_fixed [OF c] v f by (simp add: canonical_binding_def)
  have none: "birth_mismatch None c m g = None" by (simp add: birth_mismatch_def split: option.split)
  have same: "rg_bindings (birth_supersedes None c now g) = rg_bindings g" by (simp add: birth_supersedes_def split: option.split)
  obtain g' where e: "establish_binding lib s m None now g = (g', Inr (Created b))" "row_get pb_scope (rg_bindings g') c = Some b"
    using c v free(1) none same
    by (simp add: establish_binding_def establish_transaction_def require_node_id_def row_get_append Let_def b_def)
  have i: "install_transaction b rows = (rows @ [placed_row b], Inr (placed_row b))"
    using free(2) by (simp add: install_transaction_def Let_def row_get_append b_def)
  have "finish_birth lib m (Created b) rows = (rows @ [placed_row b], Inr (Established b))"
    using i free(2) canonical_scope_fixed [OF c] f by (simp add: finish_birth_def install_of_binding [OF cb] active_authority_def ledger_get_def)
  then show ?thesis
    using e c free(2) v(3) by (auto simp: establish_local_placement_def active_authority_def ledger_get_def registry_get_def row_get_append b_def)
qed

text \<open>A node that has withdrawn a scope refuses every birth of it, whatever the registry answers.\<close>

lemma withdrawn_birth:
  assumes c: "canonical_scope lib s = Inr c" and r: "row_get pb_scope rows c = Some r" "pl_state r = Withdrawn_For_Good"
    and n: "js_trim n = n" "n \<noteq> []"
  shows "\<exists>g' out. establish_local_placement lib (establish_binding lib) s n decision now g rows = (g', rows, out)
    \<and> (\<forall>b. out \<noteq> Inr (Established b) \<and> out \<noteq> Inr (Already_Established b))"
proof (cases "birth_request n")
  case (Inr home)
  then have home: "home = n" by (simp add: birth_request_def parse_node_id_def split: option.splits)
  obtain g' reply where e: "establish_binding lib s n decision now g = (g', reply)" by fastforce
  have scope: "pb_scope b = c" if "reply = Inr (Created b) \<or> reply = Inr (Existing b)" for b
    using that e c n row_get_SomeD
    by (fastforce simp: establish_binding_def establish_transaction_def require_node_id_def row_get_append Let_def
        birth_supersedes_def supersede_designation_def split: option.splits if_splits birth_decision.splits)
  have fin: "fst (finish_birth lib n x rows) = rows \<and>
      (\<forall>b. snd (finish_birth lib n x rows) \<noteq> Inr (Established b) \<and> snd (finish_birth lib n x rows) \<noteq> Inr (Already_Established b))"
    if x: "reply = Inr x" for x
  proof (cases x)
    case (Designation_Mismatch d)
    then show ?thesis by (simp add: finish_birth_def)
  next
    case (Created b)
    have "canonical_binding lib b" if "pb_home b = n" using scope [of b] x Created that canonical_scope_fixed [OF c] n
      by (simp add: canonical_binding_def)
    then show ?thesis using Created scope [of b] x r
      by (auto simp: finish_birth_def install_of_binding install_transaction_def active_authority_def ledger_get_def Let_def split: sum.splits)
  next
    case (Existing b)
    have "canonical_binding lib b" if "pb_home b = n" using scope [of b] x Existing that canonical_scope_fixed [OF c] n
      by (simp add: canonical_binding_def)
    then show ?thesis using Existing scope [of b] x r
      by (auto simp: finish_birth_def install_of_binding install_transaction_def active_authority_def ledger_get_def Let_def split: sum.splits)
  qed
  show ?thesis
  proof (cases reply)
    case (Inl e')
    then show ?thesis using e Inr home by (simp add: establish_local_placement_def)
  next
    case reply: (Inr x)
    then show ?thesis using fin [OF reply] e Inr home by (cases "finish_birth lib n x rows") (simp add: establish_local_placement_def)
  qed
qed (simp add: establish_local_placement_def)

text \<open>Where the registry names no other node, a node that has not withdrawn the scope has no row of it.\<close>

lemma unnamed_has_no_row:
  assumes ok: "homes_ok lib w" and c: "canonical_scope lib s = Inr c" and n: "row_get pb_scope (fd_ledger w n) c = Some r" "pl_state r = Withdrawn_For_Good"
    and named: "\<forall>b. registry_get lib s (fd_registry w) = Inr (Some b) \<longrightarrow> pb_home b = n"
    and m: "\<forall>q. row_get pb_scope (fd_ledger w m) c = Some q \<longrightarrow> pl_state q \<noteq> Withdrawn_For_Good"
  shows "row_get pb_scope (fd_ledger w m) c = None"
proof (cases "row_get pb_scope (fd_ledger w m) c")
  case (Some q)
  then have q: "q \<in> set (fd_ledger w m)" "pb_scope q = c" "pl_state q = Placed"
    using row_get_SomeD [OF Some] m by (auto intro: placement_state.exhaust)
  have "map_binding q \<in> set (rg_bindings (fd_registry w))" "pb_home q = m"
    using ledger_okD(1,3) [OF homes_okD(3) [OF ok] q(1)] q(3) by blast+
  then have "registry_get lib s (fd_registry w) = Inr (Some (map_binding q))" "pb_home (map_binding q) = m"
    using row_get_in [OF homes_okD(1) [OF ok], of "map_binding q"] c q(2) by (auto simp: registry_get_def map_binding_def)
  then have "m = n" using named by auto
  then show ?thesis using Some n q(3) by simp
qed

text \<open>
  C22. A retirement that stopped between its ledger and the registry completes: asked again on the node
  that has the scope withdrawn, and as long as the registry names no other node, it changes nothing in
  the ledger, deletes the binding and answers success. Then any node that has not withdrawn the scope
  itself becomes its home by an ordinary birth, with the registry naming it; and the old home never does:
  whatever the registry holds, a birth there leaves its ledger as it is and establishes nothing.
\<close>

theorem interrupted_retirement_completes:
  assumes "w = fold (fed_step lib slib) ls empty_federation"
    and "ledger_get lib s (fd_ledger w n) = Inr (Some r)" "pl_state r = Withdrawn_For_Good" "js_trim reason \<noteq> []"
    and "\<forall>b. registry_get lib s (fd_registry w) = Inr (Some b) \<longrightarrow> pb_home b = n"
  shows "\<exists>p g out. retire_scope_begin lib n s reason live now (Inr ()) (fd_ledger w n) = (fd_ledger w n, Inr (Retirement_Pends p))
    \<and> client_delete lib n (pr_scope p) n (pr_deleted_at p) (fd_registry w) = (g, Inr out)
    \<and> (\<exists>a. retire_scope_finish p (Inr out) = Inr a \<and> ra_ok a \<and> ra_state a = Retired_State)
    \<and> registry_get lib s g = Inr None
    \<and> (\<forall>m later. is_valid_node_id m \<and> (\<forall>q. ledger_get lib s (fd_ledger w m) = Inr (Some q) \<longrightarrow> pl_state q \<noteq> Withdrawn_For_Good) \<longrightarrow>
        (\<exists>g' rows b. establish_local_placement lib (establish_binding lib) s m None later g (fd_ledger w m) = (g', rows, Inr (Established b))
          \<and> pb_home b = m \<and> registry_get lib s g' = Inr (Some b) \<and> active_authority lib s rows = Inr (Some (placed_row b))))
    \<and> (\<forall>decision later g0. \<exists>g' answer.
        establish_local_placement lib (establish_binding lib) s n decision later g0 (fd_ledger w n) = (g', fd_ledger w n, answer)
          \<and> (\<forall>b. answer \<noteq> Inr (Established b) \<and> answer \<noteq> Inr (Already_Established b)))"
proof -
  have ok: "homes_ok lib w" using assms(1) history_homes_ok by simp
  obtain c where c: "canonical_scope lib s = Inr c" "row_get pb_scope (fd_ledger w n) c = Some r"
    using assms(2) by (auto simp: ledger_get_def then_do_def split: sum.splits)
  have cc: "canonical_scope lib c = Inr c" using canonical_scope_fixed [OF c(1)] .
  have r: "pb_home r = n" "js_trim n = n" "n \<noteq> []"
    using ledger_okD(1,2) [OF homes_okD(3) [OF ok], of r n] row_get_SomeD [OF c(2)] by (auto simp: canonical_binding_def)
  define p where "p = \<lparr>pr_scope = c, pr_reason = js_trim reason, pr_outcome = Retire_Idempotent, pr_row = r,
    pr_deleted_at = or_default (pl_retired_at r) (or_default (pl_retired_at r) now)\<rparr>"
  have b: "retire_scope_begin lib n s reason live now (Inr ()) (fd_ledger w n) = (fd_ledger w n, Inr (Retirement_Pends p))"
    using c cc r assms(3,4)
    by (simp add: retire_scope_begin_def ledger_get_def retire_placement_def require_node_id_def retire_transaction_def p_def)
  have "row_get pb_scope (rg_bindings (fd_registry w)) c = None \<or> (\<exists>b. row_get pb_scope (rg_bindings (fd_registry w)) c = Some b \<and> pb_home b = n)"
    using assms(5) c(1) by (cases "row_get pb_scope (rg_bindings (fd_registry w)) c") (auto simp: registry_get_def)
  then obtain g out where d: "delete_transaction c n (pr_deleted_at p) (fd_registry w) = (g, out)"
      "row_get pb_scope (rg_bindings g) c = None" "out \<in> {Deleted, Delete_Idempotent}"
    using delete_effect [OF ok] by blast
  have e: "client_delete lib n (pr_scope p) n (pr_deleted_at p) (fd_registry w) = (g, Inr out)"
    using cc r d(1) by (simp add: client_delete_def delete_binding_def require_node_id_def p_def)
  have f: "\<exists>a. retire_scope_finish p (Inr out) = Inr a \<and> ra_ok a \<and> ra_state a = Retired_State"
    using d(3) by (auto simp: retire_scope_finish_def answer_def ra_ok_def Let_def)
  have none: "registry_get lib s g = Inr None" using d(2) c(1) by (simp add: registry_get_def)
  have next_home: "\<exists>g' rows b. establish_local_placement lib (establish_binding lib) s m None later g (fd_ledger w m) = (g', rows, Inr (Established b))
      \<and> pb_home b = m \<and> registry_get lib s g' = Inr (Some b) \<and> active_authority lib s rows = Inr (Some (placed_row b))"
    if m: "is_valid_node_id m \<and> (\<forall>q. ledger_get lib s (fd_ledger w m) = Inr (Some q) \<longrightarrow> pl_state q \<noteq> Withdrawn_For_Good)" for m later
    using unbound_birth [OF c(1) conjunct1 [OF m] d(2) unnamed_has_no_row [OF ok c(1) c(2) assms(3,5)]] m c(1)
    by (simp add: ledger_get_def)
  have "\<exists>g' answer. establish_local_placement lib (establish_binding lib) s n decision later g0 (fd_ledger w n) = (g', fd_ledger w n, answer)
      \<and> (\<forall>b. answer \<noteq> Inr (Established b) \<and> answer \<noteq> Inr (Already_Established b))" for decision later g0
    by (rule withdrawn_birth [OF c(1) c(2) assms(3) r(2,3)])
  then show ?thesis
    using b e f none next_home by - (rule exI [of _ p], rule exI [of _ g], rule exI [of _ out], blast)
qed

section \<open>Designations\<close>

text \<open>
  The table's own constraints, and what they make of the live designation: epochs are unique within a
  scope, one designation of a scope is live at most, and it is the latest.
\<close>

definition designations_ok :: "designation list \<Rightarrow> bool" where
  "designations_ok ds = (distinct (map (\<lambda>d. (de_scope d, de_epoch d)) ds)
     \<and> (\<forall>d \<in> set ds. 1 \<le> de_epoch d)
     \<and> (\<forall>d \<in> set ds. \<forall>d' \<in> set ds. de_state d = Live \<and> de_scope d' = de_scope d \<longrightarrow> de_epoch d' \<le> de_epoch d)
     \<and> (\<forall>d \<in> set ds. \<forall>d' \<in> set ds. de_state d = Live \<and> de_state d' = Live \<and> de_scope d' = de_scope d \<longrightarrow> d' = d))"

lemma max_epoch_bound:
  assumes "d \<in> set ds"
  shows "\<exists>m. max_epoch ds = Some m \<and> de_epoch d \<le> m"
  using assms fold_max_bound by (cases ds) (fastforce simp: max_epoch_def)+

lemma max_epoch_positive: "\<forall>d \<in> set ds. 1 \<le> de_epoch d \<Longrightarrow> 1 \<le> or_default (max_epoch ds) 0 + 1"
proof (cases ds)
  case (Cons d es)
  assume "\<forall>d \<in> set ds. 1 \<le> de_epoch d"
  then show ?thesis using max_epoch_bound [of d ds] Cons by auto
qed (simp add: max_epoch_def)

lemma insert_designation_ok:
  assumes "designations_ok (rg_designations g)" "live_of c g = None"
    and "de_scope d = c" "de_epoch d = or_default (max_epoch (designations_of c g)) 0 + 1"
  shows "designations_ok (rg_designations g @ [d])"
proof -
  have above: "de_epoch d' < de_epoch d" if "d' \<in> set (rg_designations g)" "de_scope d' = c" for d'
    using max_epoch_bound [of d' "designations_of c g"] that assms(4) by (auto simp: designations_of_def)
  have live: "de_state d' \<noteq> Live" if "d' \<in> set (rg_designations g)" "de_scope d' = c" for d'
    using assms(2) that by (auto simp: live_of_def find_None_iff)
  have "1 \<le> de_epoch d" using max_epoch_positive [of "designations_of c g"] assms(1,4)
    by (auto simp: designations_ok_def designations_of_def)
  then show ?thesis using assms(1,3) above live by (fastforce simp: designations_ok_def)
qed

lemma filter_designations_ok: "designations_ok ds \<Longrightarrow> designations_ok (filter P ds)"
  by (auto simp: designations_ok_def distinct_map_filter)

lemma designations_okI:
  assumes "distinct (map (\<lambda>d. (de_scope d, de_epoch d)) ds)" "\<And>d. d \<in> set ds \<Longrightarrow> 1 \<le> de_epoch d"
    and "\<And>d d'. d \<in> set ds \<Longrightarrow> d' \<in> set ds \<Longrightarrow> de_state d = Live \<Longrightarrow> de_scope d' = de_scope d \<Longrightarrow> de_epoch d' \<le> de_epoch d"
    and "\<And>d d'. d \<in> set ds \<Longrightarrow> d' \<in> set ds \<Longrightarrow> de_state d = Live \<Longrightarrow> de_state d' = Live \<Longrightarrow> de_scope d' = de_scope d \<Longrightarrow> d' = d"
  shows "designations_ok ds"
  using assms unfolding designations_ok_def by blast

lemma map_designations_ok:
  assumes "designations_ok ds"
    and "\<And>d. de_scope (u d) = de_scope d" "\<And>d. de_epoch (u d) = de_epoch d" "\<And>d. de_state (u d) = Live \<Longrightarrow> u d = d"
  shows "designations_ok (map u ds)"
proof (rule designations_okI)
  have "map (\<lambda>d. (de_scope d, de_epoch d)) (map u ds) = map (\<lambda>d. (de_scope d, de_epoch d)) ds"
    using assms(2,3) by simp
  then show "distinct (map (\<lambda>d. (de_scope d, de_epoch d)) (map u ds))"
    using assms(1) unfolding designations_ok_def by metis
next
  have live: "d \<in> set ds" if "d \<in> set (map u ds)" "de_state d = Live" for d
    using that by (force dest: assms(4))
  show "d' = d" if "d \<in> set (map u ds)" "d' \<in> set (map u ds)" "de_state d = Live" "de_state d' = Live" "de_scope d' = de_scope d" for d d'
    using live [OF that(1,3)] live [OF that(2,4)] that(3-5) assms(1) unfolding designations_ok_def by blast
  show "de_epoch d' \<le> de_epoch d" if "d \<in> set (map u ds)" "d' \<in> set (map u ds)" "de_state d = Live" "de_scope d' = de_scope d" for d d'
    using that(2,4) live [OF that(1,3)] that(3) assms(1-3) by (auto simp: designations_ok_def)
  show "1 \<le> de_epoch d" if "d \<in> set (map u ds)" for d using that assms(1,3) by (auto simp: designations_ok_def)
qed

lemma supersede_ok:
  "designations_ok (rg_designations g) \<Longrightarrow> designations_ok (rg_designations (supersede_designation c e how now g))"
  by (simp add: supersede_designation_def) (rule map_designations_ok, auto split: if_splits)

lemma record_designation_ok:
  assumes "designations_ok (rg_designations g)"
  shows "designations_ok (rg_designations (fst (record_designation lib i g)))"
  using assms
  by (auto simp: record_designation_def Let_def split: sum.splits option.splits prod.splits intro!: insert_designation_ok)

lemma establish_designations:
  "rg_designations (fst (establish_binding lib s home decision now g)) = rg_designations g \<or>
   (\<exists>c e how. rg_designations (fst (establish_binding lib s home decision now g))
      = rg_designations (supersede_designation c e how now g))"
  by (auto simp: establish_binding_def establish_transaction_def birth_supersedes_def Let_def supersede_designation_def
      split: sum.splits option.splits birth_decision.splits prod.splits)

lemma fed_step_designations:
  assumes "designations_ok (rg_designations (fd_registry w))"
  shows "designations_ok (rg_designations (fd_registry (fed_step lib slib l w)))"
proof (cases l)
  case (Ask_Birth n s decision now)
  have "designations_ok (rg_designations (fst (establish_binding lib s n decision now (fd_registry w))))"
    using establish_designations [of lib s n decision now "fd_registry w"] assms supersede_ok by auto
  then show ?thesis using assms Ask_Birth
    by (auto simp: client_establish_def birth_request_def parse_node_id_def split: sum.splits option.splits prod.splits)
next
  case (Designate s envelope now)
  show ?thesis using assms record_designation_ok Designate
    by (auto simp: designate_from_def answer_of_def split: sum.splits option.splits prod.splits)
next
  case (Deliver_Delete n s at)
  have "designations_ok (rg_designations (fst (delete_binding lib s n at (fd_registry w))))"
    using assms filter_designations_ok
    by (auto simp: delete_binding_def delete_transaction_def split: sum.splits option.splits prod.splits if_splits)
  then show ?thesis using assms Deliver_Delete by (auto simp: client_delete_def split: sum.splits prod.splits)
qed (use assms in \<open>auto split: prod.splits sum.splits retirement_step.splits\<close>)

interpretation designations: op_history "fed_step lib slib" "\<lambda>l. True" "\<lambda>w. designations_ok (rg_designations (fd_registry w))" for lib slib
  by unfold_locales (rule fed_step_designations)

lemma sort_newest_first: "ds \<noteq> [] \<Longrightarrow> \<exists>d rest. sort_key (\<lambda>d. - de_epoch d) ds = d # rest \<and> d \<in> set ds \<and> (\<forall>d' \<in> set ds. de_epoch d' \<le> de_epoch d)"
proof -
  assume "ds \<noteq> []"
  then obtain d rest where e: "sort_key (\<lambda>d. - de_epoch d) ds = d # rest"
    by (metis set_empty set_sort neq_Nil_conv)
  then have "set (d # rest) = set ds" "sorted (map (\<lambda>d. - de_epoch d) (d # rest))" by (metis set_sort, metis sorted_sort_key)
  then show ?thesis using e by fastforce
qed

text \<open>
  C24. After any history the designation a scope lives by is unambiguous: while a live one is recorded, a
  further envelope gets the same answer and records nothing, it is the one a read of the latest
  designation reports, and a birth that is bound to the designation creates the scope on the
  designated node and nowhere else.
\<close>

theorem designation_directs_births:
  assumes "w = fold (fed_step lib slib) ls empty_federation" and "g = fd_registry w"
    and "live_designation lib s g = Inr (Some d)"
  shows "latest_designation lib s g = Inr (Some d)
    \<and> designate_birth lib slib reader s now g = (g, Designated d)
    \<and> (js_trim (di_home i) \<noteq> [] \<longrightarrow> di_scope i = s \<longrightarrow> record_designation lib i g = (g, Inr d))
    \<and> (\<forall>n g' b. establish_binding lib s n (Some Enforce_Designated_Home) now g = (g', Inr (Created b)) \<longrightarrow> pb_home b = de_home d)"
proof -
  have ok: "designations_ok (rg_designations g)"
    unfolding assms(1,2) by (rule designations.history_keeps)
      (simp_all add: list_all_iff empty_federation_def empty_registry_def designations_ok_def)
  obtain c where c: "canonical_scope lib s = Inr c" "live_of c g = Some d"
    using assms(3) by (auto simp: live_designation_def then_do_def split: sum.splits)
  then have d: "d \<in> set (designations_of c g)" "de_state d = Live" "de_scope d = c"
    by (auto simp: live_of_def designations_of_def find_Some_iff)
  then have ne: "designations_of c g \<noteq> []" by auto
  obtain d' rest where l: "sort_key (\<lambda>d. - de_epoch d) (designations_of c g) = d' # rest" "d' \<in> set (designations_of c g)"
      "\<forall>x \<in> set (designations_of c g). de_epoch x \<le> de_epoch d'"
    using sort_newest_first [OF ne] by blast
  have "de_epoch d = de_epoch d'" using ok d l(2,3) unfolding designations_ok_def designations_of_def by (auto intro: antisym)
  then have "d' = d" using ok d l(2) unfolding designations_ok_def designations_of_def distinct_map by (auto dest: inj_onD)
  then have "latest_designation lib s g = Inr (Some d)" using c(1) l(1) by (simp add: latest_designation_def)
  then show ?thesis using c assms(3)
    by (auto simp: designate_birth_def record_designation_def require_node_id_def establish_binding_def establish_transaction_def
        birth_mismatch_def birth_supersedes_def row_get_append Let_def split: option.splits if_splits sum.splits)
qed

section \<open>Requests of other nodes\<close>

lemma required_string_trimmed: "required_string ob k = Inr s \<Longrightarrow> js_trim s = s"
  by (auto simp: required_string_def split: option.splits if_splits)

lemma establish_route_asks:
  "fst (establish_route lib n r now g) = g \<or>
   (js_trim n = n \<and> (\<exists>s decision. fst (establish_route lib n r now g) = fst (establish_binding lib s n decision now g)))"
  by (auto simp: establish_route_def Let_def case_prod_beta and_then_Inr_iff dest!: required_string_trimmed split: sum.splits)

lemma establish_route_rows:
  assumes "establish_route lib n r now g = (g', res)"
  shows "rg_bindings g' = rg_bindings g \<or> (\<exists>b. rg_bindings g' = rg_bindings g @ [b] \<and> pb_home b = n)"
  using establish_route_asks [of lib n r now g] assms establish_rows [OF prod.collapse [symmetric], of lib _ n _ now g] by fastforce

lemma delete_route_asks:
  "fst (delete_route lib n r g) = g \<or>
   (js_trim n = n \<and> (\<exists>s at. fst (delete_route lib n r g) = fst (delete_binding lib s n at g)))"
  by (auto simp: delete_route_def Let_def case_prod_beta and_then_Inr_iff dest!: required_string_trimmed split: sum.splits)

lemma delete_route_rows:
  assumes "delete_route lib n r g = (g', res)"
  shows "rg_bindings g' = rg_bindings g \<or> (\<exists>c. rg_bindings g' = filter (\<lambda>b. \<not> (pb_scope b = c \<and> pb_home b = n)) (rg_bindings g))"
proof (cases "g' = g")
  case False
  then obtain s at where "g' = fst (delete_binding lib s n at g)" "js_trim n = n"
    using delete_route_asks [of lib n r g] assms by auto
  then show ?thesis using delete_rows [of lib s n at g] by auto
qed simp

lemma designate_route_rows:
  "rg_bindings (fst (designate_route lib slib reader n r now g)) = rg_bindings g"
proof -
  have "designate_birth lib slib reader s now g = (g', a) \<Longrightarrow> rg_bindings g' = rg_bindings g" for s g' a
    by (auto simp: designate_birth_def split: sum.splits option.splits) (metis designate_rows fst_conv)
  then show ?thesis by (auto simp: designate_route_def split: sum.splits prod.splits designate_answer.splits)
qed

text \<open>
  C23. A request to the registry acts for the node its token authenticates: whatever its method, path,
  query and body, the only bindings it can add or take away are that node's own, and a request that
  authenticates no node changes nothing.
\<close>

theorem registry_requests_act_for_their_peer:
  assumes "handle_registry_request lib slib reader peer r now g = (g', resp)"
    and "b \<in> set (rg_bindings g) \<union> set (rg_bindings g')" "peer \<noteq> Some (pb_home b)"
  shows "b \<in> set (rg_bindings g) \<and> b \<in> set (rg_bindings g')"
proof (cases peer)
  case None
  then show ?thesis using assms by (simp add: handle_registry_request_def)
next
  case (Some n)
  have "g' \<in> {g, fst (establish_route lib n r now g), fst (designate_route lib slib reader n r now g), fst (delete_route lib n r g)}"
    using assms(1) by (auto simp: Some handle_registry_request_def respond_def split: if_splits)
  then have "rg_bindings g' = rg_bindings g \<or> (\<exists>b. rg_bindings g' = rg_bindings g @ [b] \<and> pb_home b = n)
      \<or> (\<exists>c. rg_bindings g' = filter (\<lambda>b. \<not> (pb_scope b = c \<and> pb_home b = n)) (rg_bindings g))"
    using establish_route_rows [OF prod.collapse [symmetric]] delete_route_rows [OF prod.collapse [symmetric]] designate_route_rows
    by blast
  then show ?thesis using assms(2,3) Some by auto
qed

section \<open>Examples\<close>

definition example_born :: placement_binding where
  "example_born = \<lparr>pb_scope = ''agent:a'', pb_home = ''x'', pb_created = ''1'', pb_updated = ''1''\<rparr>"

definition example_senders :: sender_lib where
  "example_senders = \<lparr>sn_parse_ref = (\<lambda>s. None), sn_parse_handle = (\<lambda>s. Some \<lparr>si_kind = ''agent'', si_agent = s,
     si_project = Some ''p'', si_task = None, si_role = None\<rparr>), sn_format = (\<lambda>i. Some (''agent:'' @ scope_identity.si_agent i))\<rparr>"

definition example_envelope :: "string \<Rightarrow> birth_envelope option" where
  "example_envelope e = Some \<lparr>ev_id = e, ev_seq = 1, ev_from_scope = Some ''a/lane:m''\<rparr>"

text \<open>Two nodes ask for the same birth; then the first retires the scope, and the deletion is on its way.\<close>

definition racing_births :: "fed_op list" where
  "racing_births = [Ask_Birth ''x'' ''agent:a'' None ''1'', Ask_Birth ''y'' ''agent:a'' None ''2'',
     Take_Answer ''x'' example_born, Take_Answer ''y'' example_born]"

definition fenced_home :: "fed_op list" where
  "fenced_home = racing_births @ [Begin_Retirement ''x'' ''agent:a'' ''r'' [] ''3'' (Inr ())]"

definition fed_run :: "fed_op list \<Rightarrow> federation" where
  "fed_run ls = fold (fed_step example_scope_lib example_senders) ls empty_federation"

text \<open>
  The epoch of a designation is used again: the deletion of a retired scope's binding takes its live
  designation with it, and the next designation of the scope, on another envelope, gets the same epoch.
\<close>

definition designated_then_retired :: "fed_op list" where
  "designated_then_retired = [Ask_Birth ''x'' ''agent:a'' None ''1'', Designate ''agent:b'' (example_envelope ''e1'') ''2'',
     Ask_Birth ''x'' ''agent:b'' (Some Enforce_Designated_Home) ''3'',
     Take_Answer ''x'' \<lparr>pb_scope = ''agent:b'', pb_home = ''x'', pb_created = ''3'', pb_updated = ''3''\<rparr>,
     Begin_Retirement ''x'' ''agent:b'' ''r'' [] ''4'' (Inr ()), Deliver_Delete ''x'' ''agent:b'' ''4'',
     Designate ''agent:b'' (example_envelope ''e2'') ''5'']"

lemma retired_scope_reuses_designation_epoch:
  "map (\<lambda>n. map_option (\<lambda>d. (de_epoch d, de_envelope d)) (live_of ''agent:b'' (fd_registry (fed_run (take n designated_then_retired)))))
     [2, 7] = [Some (1, ''e1''), Some (1, ''e2'')]"
  unfolding fed_run_def designated_then_retired_def by code_simp

lemma racing_births_homes:
  "active_authority example_scope_lib ''agent:a'' (fd_ledger (fed_run racing_births) ''x'') = Inr (Some (placed_row example_born))"
  unfolding fed_run_def racing_births_def example_born_def by code_simp

theorem scope_has_one_home_witness:
  "registry_get example_scope_lib ''agent:a'' (fd_registry (fed_run racing_births)) = Inr (Some example_born)
   \<and> \<not> (\<exists>r. active_authority example_scope_lib ''agent:a'' (fd_ledger (fed_run racing_births) ''y'') = Inr (Some r))"
  using scope_has_one_home [OF fed_run_def racing_births_homes] by auto

definition example_summon :: gate_request where
  "example_summon = \<lparr>gr_scope = ''agent:a'', gr_intent = Implicit, gr_participant_claim = False, gr_origin = None, gr_node = None,
     gr_deps = \<lparr>gd_mode = Enforce, gd_configured = True, gd_local = ''x'', gd_lib = example_scope_lib, gd_parse = (\<lambda>s. None),
       gd_ledger = [], gd_consult = (\<lambda>s. Inr None), gd_policy = (\<lambda>s. Inr (Some \<lparr>gp_node = None, gp_placement = None, gp_claims_task = False\<rparr>)),
       gd_designate = None, gd_capability = None, gd_known = None\<rparr>\<rparr>"

theorem summoned_scope_is_home_witness:
  "\<exists>r. active_authority example_scope_lib ''agent:a'' [placed_row example_born] = Inr (Some r) \<and> pb_home r = ''x''
    \<and> \<not> (\<exists>r'. active_authority example_scope_lib ''agent:a'' (fd_ledger (fed_run (take 2 racing_births)) ''y'') = Inr (Some r'))"
proof -
  have w: "fed_run (take 2 racing_births) = fold (fed_step example_scope_lib example_senders) (take 2 racing_births) (fed_run [])"
    by (simp add: fed_run_def)
  have spared: "list_all (spares_scope example_scope_lib ''x'' ''agent:a'') (take 2 racing_births)"
    by (simp add: racing_births_def spares_scope_def)
  have deps: "gd_lib (gr_deps example_summon) = example_scope_lib" "gd_local (gr_deps example_summon) = ''x''"
      "gd_ledger (gr_deps example_summon) = fd_ledger (fed_run []) ''x''" "gd_mode (gr_deps example_summon) = Enforce"
      "gd_configured (gr_deps example_summon)" "gd_consult (gr_deps example_summon) ''agent:a'' = Inr None"
    by (simp_all add: example_summon_def fed_run_def empty_federation_def)
  have scope: "canonical_scope example_scope_lib (gr_scope example_summon) = Inr ''agent:a''"
    unfolding example_summon_def by code_simp
  have "answered_with (fed_run (take 2 racing_births)) ''x'' ''agent:a'' example_born"
    unfolding fed_run_def racing_births_def example_born_def by code_simp
  then have reply: "\<forall>b. answered_binding (Inr (Created example_born)) = Some b \<longrightarrow> answered_with (fed_run (take 2 racing_births)) ''x'' ''agent:a'' b"
    by (simp add: answered_binding_def)
  have commit: "commit_summon example_scope_lib (evaluate_summon_gate example_summon) (Inr (Created example_born))
      (fd_ledger (fed_run (take 2 racing_births)) ''x'') = ([placed_row example_born], Inr ())"
    unfolding fed_run_def racing_births_def example_born_def example_summon_def by code_simp
  show ?thesis
    using summoned_scope_is_home [OF fed_run_def w spared deps(1-5) scope _ reply commit] deps(6) by auto
qed

theorem rebuilt_registry_names_the_homes_witness:
  "\<exists>g k. rebuild_registry example_scope_lib (sort_key pb_scope)
      (concat (map (\<lambda>n. list_ledger (fd_ledger (fed_run racing_births) n)) [''x'', ''y''])) empty_registry = (g, Inr (k, 0))
    \<and> set (rg_bindings g) \<subseteq> set (rg_bindings (fd_registry (fed_run racing_births)))"
  using rebuilt_registry_names_the_homes [OF fed_run_def, of "[''x'', ''y'']" "sort_key pb_scope"] by fastforce

theorem interrupted_birth_converges_witness:
  "\<exists>rows. establish_local_placement example_scope_lib (establish_binding example_scope_lib) ''agent:a'' ''x'' None ''9''
      (fd_registry (fed_run (take 2 racing_births))) (fd_ledger (fed_run (take 2 racing_births)) ''x'')
      = (fd_registry (fed_run (take 2 racing_births)), rows, Inr (Established example_born))
    \<and> active_authority example_scope_lib ''agent:a'' rows = Inr (Some (placed_row example_born))"
proof -
  have "registry_get example_scope_lib ''agent:a'' (fd_registry (fed_run (take 2 racing_births))) = Inr (Some example_born)"
      "ledger_get example_scope_lib ''agent:a'' (fd_ledger (fed_run (take 2 racing_births)) (pb_home example_born)) = Inr None"
      "is_valid_node_id (pb_home example_born)" "pb_home example_born = ''x''"
    unfolding fed_run_def racing_births_def example_born_def by code_simp+
  then show ?thesis using interrupted_birth_converges [OF fed_run_def] by metis
qed

theorem interrupted_retirement_completes_witness:
  "\<exists>p g out g' rows b. retire_scope_begin example_scope_lib ''x'' ''agent:a'' ''r'' [] ''9'' (Inr ()) (fd_ledger (fed_run fenced_home) ''x'')
      = (fd_ledger (fed_run fenced_home) ''x'', Inr (Retirement_Pends p))
    \<and> client_delete example_scope_lib ''x'' (pr_scope p) ''x'' (pr_deleted_at p) (fd_registry (fed_run fenced_home)) = (g, Inr out)
    \<and> establish_local_placement example_scope_lib (establish_binding example_scope_lib) ''agent:a'' ''y'' None ''10'' g
        (fd_ledger (fed_run fenced_home) ''y'') = (g', rows, Inr (Established b)) \<and> pb_home b = ''y''"
proof -
  define r where "r = (placed_row example_born)\<lparr>pl_state := Withdrawn_For_Good, pl_retired_at := Some ''3'', pl_reason := Some ''r'', pb_updated := ''3''\<rparr>"
  have row: "ledger_get example_scope_lib ''agent:a'' (fd_ledger (fed_run fenced_home) ''x'') = Inr (Some r)"
      and why: "js_trim ''r'' \<noteq> []"
      and bound: "registry_get example_scope_lib ''agent:a'' (fd_registry (fed_run fenced_home)) = Inr (Some example_born)"
      and y: "is_valid_node_id ''y''" "ledger_get example_scope_lib ''agent:a'' (fd_ledger (fed_run fenced_home) ''y'') = Inr None"
    unfolding fed_run_def fenced_home_def racing_births_def example_born_def r_def by code_simp+
  have "pl_state r = Withdrawn_For_Good" "\<forall>b. registry_get example_scope_lib ''agent:a'' (fd_registry (fed_run fenced_home)) = Inr (Some b)
      \<longrightarrow> pb_home b = ''x''"
    using bound by (simp_all add: r_def example_born_def)
  from interrupted_retirement_completes [OF fed_run_def row this(1) why this(2), of "[]" "''9''"]
  obtain p g out where g: "retire_scope_begin example_scope_lib ''x'' ''agent:a'' ''r'' [] ''9'' (Inr ()) (fd_ledger (fed_run fenced_home) ''x'')
      = (fd_ledger (fed_run fenced_home) ''x'', Inr (Retirement_Pends p))"
    "client_delete example_scope_lib ''x'' (pr_scope p) ''x'' (pr_deleted_at p) (fd_registry (fed_run fenced_home)) = (g, Inr out)"
    "\<forall>m later. is_valid_node_id m \<and> (\<forall>q. ledger_get example_scope_lib ''agent:a'' (fd_ledger (fed_run fenced_home) m) = Inr (Some q)
        \<longrightarrow> pl_state q \<noteq> Withdrawn_For_Good) \<longrightarrow>
      (\<exists>g' rows b. establish_local_placement example_scope_lib (establish_binding example_scope_lib) ''agent:a'' m None later g
          (fd_ledger (fed_run fenced_home) m) = (g', rows, Inr (Established b)) \<and> pb_home b = m
        \<and> registry_get example_scope_lib ''agent:a'' g' = Inr (Some b) \<and> active_authority example_scope_lib ''agent:a'' rows = Inr (Some (placed_row b)))"
    by blast
  have "is_valid_node_id ''y'' \<and> (\<forall>q. ledger_get example_scope_lib ''agent:a'' (fd_ledger (fed_run fenced_home) ''y'') = Inr (Some q)
        \<longrightarrow> pl_state q \<noteq> Withdrawn_For_Good)" using y by simp
  with g(3) [rule_format, of "''y''" "''10''"] show ?thesis using g(1,2) by blast
qed

theorem designation_directs_births_witness:
  "\<exists>d. latest_designation example_scope_lib ''agent:b'' (fd_registry (fed_run (take 2 designated_then_retired))) = Inr (Some d)
    \<and> de_home d = ''x''"
proof -
  define d where "d = \<lparr>de_scope = ''agent:b'', de_epoch = 1, de_home = ''x'', de_provenance = Home_Of_Sender, de_envelope = ''e1'',
    de_sender = ''agent:a'', de_at = ''2'', de_state = Live, de_by = None, de_superseded_at = None\<rparr>"
  have "live_designation example_scope_lib ''agent:b'' (fd_registry (fed_run (take 2 designated_then_retired))) = Inr (Some d)"
    unfolding fed_run_def designated_then_retired_def d_def by code_simp
  then have "latest_designation example_scope_lib ''agent:b'' (fd_registry (fed_run (take 2 designated_then_retired))) = Inr (Some d)"
    using designation_directs_births [OF fed_run_def refl] by blast
  then show ?thesis by (simp add: d_def)
qed

definition example_delete :: registry_request where
  "example_delete = \<lparr>rq_method = ''POST'', rq_path = ''/v1/federation/registry/delete'', rq_query = [], rq_body = Some (JObj
     [(''expectedHomeNodeId'', JStr ''x''), (''scopeRef'', JStr ''agent:a''), (''retiredAt'', JStr ''9'')])\<rparr>"

theorem registry_requests_act_for_their_peer_witness:
  "example_born \<in> set (rg_bindings (fst (handle_registry_request example_scope_lib example_senders None (Some ''y'') example_delete ''9''
     (fd_registry (fed_run racing_births)))))"
proof -
  have b: "example_born \<in> set (rg_bindings (fd_registry (fed_run racing_births)))"
    unfolding fed_run_def racing_births_def example_born_def by code_simp
  obtain g' resp where h: "handle_registry_request example_scope_lib example_senders None (Some ''y'') example_delete ''9''
      (fd_registry (fed_run racing_births)) = (g', resp)" by (rule prod.exhaust)
  have "Some ''y'' \<noteq> Some (pb_home example_born)" by (simp add: example_born_def)
  then show ?thesis using registry_requests_act_for_their_peer [OF h, of example_born] b h by simp
qed

end
