(* ===== verification/Server_Lock.thy ===== *)
theory Server_Lock
  imports JS_Date
begin

text \<open>
  The lock of the server process (hrc-server/src/server-lock.ts): acquisition, the cleanup of a stale
  lock under a claim file, and release, as a step relation over the file system and any number of
  processes. Each step is the code between two awaits; every interleaving, a process killed at any
  point, a failing file operation and the answer of the socket probe are labels of a history.
\<close>

section \<open>Owners and lock files\<close>

record lock_owner =
  lo_pid :: int
  lo_created :: string

text \<open>The text of a lock file: JSON followed by a newline, or a text that is not JSON.\<close>

datatype lock_text = Json_Text json | Plain_Text string

definition serialize_lock_owner :: "lock_owner \<Rightarrow> lock_text" where
  "serialize_lock_owner o' = Json_Text (JObj [(''pid'', JNum (lo_pid o')), (''createdAt'', JStr (lo_created o'))])"

fun parse_lock_owner :: "lock_text \<Rightarrow> lock_owner option" where
  "parse_lock_owner (Json_Text (JNum n)) = (if n > 0 then Some \<lparr>lo_pid = n, lo_created = ''unknown''\<rparr> else None)"
| "parse_lock_owner (Json_Text (JObj ob)) =
     (case jnumber ob ''pid'' of None \<Rightarrow> None
      | Some pid \<Rightarrow> (case jstring ob ''createdAt'' of None \<Rightarrow> None
          | Some c \<Rightarrow> if pid > 0 \<and> c \<noteq> [] then Some \<lparr>lo_pid = pid, lo_created = c\<rparr> else None))"
| "parse_lock_owner (Json_Text _) = None"
| "parse_lock_owner (Plain_Text s) =
     (case parse_int (js_trim s) of None \<Rightarrow> None
      | Some n \<Rightarrow> if n > 0 then Some \<lparr>lo_pid = n, lo_created = ''unknown''\<rparr> else None)"

text \<open>A file by the inode its creator opened: the creator's pid and a serial number.\<close>

datatype inode = Inode (creator: int) (serial: nat)

record lock_file =
  lf_inode :: inode
  lf_text :: lock_text

section \<open>Processes\<close>

text \<open>
  Where a process stands in \<open>acquireServerLock\<close> and \<open>releaseServerLock\<close>. In the cleanup section
  (from the claim's creation to its release) it carries its claim's inode and owner; a verdict is
  the error the section throws, or nothing when acquisition is retried.
\<close>

datatype lock_pc =
    P_Lock_Open
  | P_Lock_Write lock_owner inode
  | P_Lock_Undo inode
  | P_Lock_Read
  | P_Probe lock_text lock_owner
  | P_Claim_Open lock_text
  | P_Claim_Write lock_text lock_owner inode
  | P_Claim_Undo inode
  | P_Claim_Read lock_text
  | P_Claim_Wait lock_text
  | P_Claim_Unlink lock_text
  | P_Recheck lock_text lock_owner inode
  | P_Reprobe lock_owner lock_owner inode
  | P_Socket_Unlink lock_owner inode
  | P_Lock_Unlink lock_owner inode
  | P_Claim_Release_Read "js_error option" lock_owner inode
  | P_Claim_Release_Unlink "js_error option" inode
  | P_Held lock_owner inode
  | P_Release_Read lock_owner inode
  | P_Release_Unlink lock_owner inode
  | P_Released
  | P_Failed js_error

record lock_world =
  lw_lock :: "lock_file option"
  lw_claim :: "lock_file option"
  lw_socket :: bool
  lw_next :: nat
  lw_procs :: "(int \<times> lock_pc) list"
  lw_others :: "int list"

text \<open>\<open>lw_procs\<close> are the live daemons by pid, \<open>lw_others\<close> the pids of other live processes.\<close>

definition is_live_process :: "lock_world \<Rightarrow> int \<Rightarrow> bool" where
  "is_live_process w pid = (pid \<in> set (map fst (lw_procs w)) \<or> pid \<in> set (lw_others w))"

text \<open>What the host answers at a step: its clock, its uptime, the file operation, the socket probe.\<close>

record step_input =
  si_now :: int
  si_uptime :: int
  si_ok :: bool
  si_responsive :: bool

definition boot_margin_ms :: int where "boot_margin_ms = 60000"

definition predates_boot :: "step_input \<Rightarrow> lock_owner \<Rightarrow> bool" where
  "predates_boot i o' = (case date_parse (lo_created o') of None \<Rightarrow> False
     | Some c \<Rightarrow> c < si_now i - si_uptime i * 1000 - boot_margin_ms)"

definition is_lock_owner_alive :: "lock_world \<Rightarrow> step_input \<Rightarrow> lock_owner \<Rightarrow> bool" where
  "is_lock_owner_alive w i o' = (\<not> predates_boot i o' \<and> is_live_process w (lo_pid o'))"

definition create_lock_owner :: "int \<Rightarrow> step_input \<Rightarrow> lock_owner" where
  "create_lock_owner pid i = \<lparr>lo_pid = pid, lo_created = or_default (to_iso (si_now i)) []\<rparr>"

definition malformed_lock :: js_error where
  "malformed_lock = plain_error ''hrc server lock is malformed; manual cleanup required''"

definition already_running :: "lock_owner \<Rightarrow> js_error" where
  "already_running o' = plain_error (''hrc server already running with lock (pid '' @ show_int (lo_pid o')
     @ '', createdAt '' @ lo_created o' @ '')'')"

definition io_error :: js_error where
  "io_error = plain_error ''file operation failed''"

section \<open>Steps\<close>

definition set_pc :: "int \<Rightarrow> lock_pc \<Rightarrow> lock_world \<Rightarrow> lock_world" where
  "set_pc pid pc w = w\<lparr>lw_procs := map (\<lambda>(q, c). (q, if q = pid then pc else c)) (lw_procs w)\<rparr>"

text \<open>\<open>open(path, 'wx')\<close> creates an empty file; a write goes to the opened file, wherever its path is.\<close>

definition fresh_file :: "int \<Rightarrow> lock_world \<Rightarrow> lock_file" where
  "fresh_file pid w = \<lparr>lf_inode = Inode pid (lw_next w), lf_text = Plain_Text []\<rparr>"

definition write_inode :: "inode \<Rightarrow> lock_text \<Rightarrow> lock_file option \<Rightarrow> lock_file option" where
  "write_inode n t f = map_option (\<lambda>f. if lf_inode f = n then f\<lparr>lf_text := t\<rparr> else f) f"

text \<open>The verdict of the cleanup section, once its claim is released.\<close>

definition after_cleanup :: "js_error option \<Rightarrow> lock_pc" where
  "after_cleanup v = (case v of None \<Rightarrow> P_Lock_Open | Some e \<Rightarrow> P_Failed e)"

fun lock_step :: "int \<Rightarrow> step_input \<Rightarrow> lock_pc \<Rightarrow> lock_world \<Rightarrow> lock_world" where
  "lock_step pid i P_Lock_Open w =
     (if \<not> si_ok i then set_pc pid (P_Failed io_error) w
      else (case lw_lock w of
         Some _ \<Rightarrow> set_pc pid P_Lock_Read w
       | None \<Rightarrow> (set_pc pid (P_Lock_Write (create_lock_owner pid i) (Inode pid (lw_next w))) w)
           \<lparr>lw_lock := Some (fresh_file pid w), lw_next := Suc (lw_next w)\<rparr>))"
| "lock_step pid i (P_Lock_Write o' n) w =
     (if \<not> si_ok i then set_pc pid (P_Lock_Undo n) w
      else (set_pc pid (P_Held o' n) w)\<lparr>lw_lock := write_inode n (serialize_lock_owner o') (lw_lock w)\<rparr>)"
| "lock_step pid i (P_Lock_Undo n) w =
     (set_pc pid (P_Failed io_error) w)\<lparr>lw_lock := (if si_ok i then None else lw_lock w)\<rparr>"
| "lock_step pid i P_Lock_Read w =
     (if \<not> si_ok i then set_pc pid (P_Failed io_error) w
      else (case lw_lock w of
         None \<Rightarrow> set_pc pid P_Lock_Open w
       | Some f \<Rightarrow> (case parse_lock_owner (lf_text f) of
            None \<Rightarrow> set_pc pid (P_Failed malformed_lock) w
          | Some o' \<Rightarrow> if is_lock_owner_alive w i o' then set_pc pid (P_Failed (already_running o')) w
              else set_pc pid (P_Probe (lf_text f) o') w)))"
| "lock_step pid i (P_Probe t o') w =
     set_pc pid (if si_responsive i then P_Failed (already_running o') else P_Claim_Open t) w"
| "lock_step pid i (P_Claim_Open t) w =
     (if \<not> si_ok i then set_pc pid (P_Failed io_error) w
      else (case lw_claim w of
         Some _ \<Rightarrow> set_pc pid (P_Claim_Read t) w
       | None \<Rightarrow> (set_pc pid (P_Claim_Write t (create_lock_owner pid i) (Inode pid (lw_next w))) w)
           \<lparr>lw_claim := Some (fresh_file pid w), lw_next := Suc (lw_next w)\<rparr>))"
| "lock_step pid i (P_Claim_Write t h n) w =
     (if \<not> si_ok i then set_pc pid (P_Claim_Undo n) w
      else (set_pc pid (P_Recheck t h n) w)\<lparr>lw_claim := write_inode n (serialize_lock_owner h) (lw_claim w)\<rparr>)"
| "lock_step pid i (P_Claim_Undo n) w =
     (set_pc pid (P_Failed io_error) w)\<lparr>lw_claim := (if si_ok i then None else lw_claim w)\<rparr>"
| "lock_step pid i (P_Claim_Read t) w =
     (if \<not> si_ok i then set_pc pid (P_Failed io_error) w
      else (case Option.bind (lw_claim w) (\<lambda>f. parse_lock_owner (lf_text f)) of
         Some o' \<Rightarrow> if is_live_process w (lo_pid o') then set_pc pid (P_Claim_Wait t) w
           else set_pc pid (P_Claim_Unlink t) w
       | None \<Rightarrow> set_pc pid (P_Claim_Unlink t) w))"
| "lock_step pid i (P_Claim_Wait t) w = set_pc pid (P_Claim_Open t) w"
| "lock_step pid i (P_Claim_Unlink t) w =
     (if \<not> si_ok i then set_pc pid (P_Failed io_error) w
      else (set_pc pid (P_Claim_Open t) w)\<lparr>lw_claim := None\<rparr>)"
| "lock_step pid i (P_Recheck t h n) w =
     (if \<not> si_ok i then set_pc pid (P_Claim_Release_Read (Some io_error) h n) w
      else (case lw_lock w of
         None \<Rightarrow> set_pc pid (P_Claim_Release_Read None h n) w
       | Some f \<Rightarrow>
           if lf_text f \<noteq> t then set_pc pid (P_Claim_Release_Read None h n) w
           else (case parse_lock_owner (lf_text f) of
              None \<Rightarrow> set_pc pid (P_Claim_Release_Read (Some malformed_lock) h n) w
            | Some o' \<Rightarrow> if is_lock_owner_alive w i o'
                then set_pc pid (P_Claim_Release_Read (Some (already_running o')) h n) w
                else set_pc pid (P_Reprobe o' h n) w)))"
| "lock_step pid i (P_Reprobe o' h n) w =
     set_pc pid (if si_responsive i then P_Claim_Release_Read (Some (already_running o')) h n
       else P_Socket_Unlink h n) w"
| "lock_step pid i (P_Socket_Unlink h n) w =
     (if \<not> si_ok i then set_pc pid (P_Claim_Release_Read (Some io_error) h n) w
      else (set_pc pid (P_Lock_Unlink h n) w)\<lparr>lw_socket := False\<rparr>)"
| "lock_step pid i (P_Lock_Unlink h n) w =
     (if \<not> si_ok i then set_pc pid (P_Claim_Release_Read (Some io_error) h n) w
      else (set_pc pid (P_Claim_Release_Read None h n) w)\<lparr>lw_lock := None\<rparr>)"
| "lock_step pid i (P_Claim_Release_Read v h n) w =
     (case Option.bind (lw_claim w) (\<lambda>f. parse_lock_owner (lf_text f)) of
        Some o' \<Rightarrow> if si_ok i \<and> o' = h then set_pc pid (P_Claim_Release_Unlink v n) w
          else set_pc pid (after_cleanup v) w
      | None \<Rightarrow> set_pc pid (after_cleanup v) w)"
| "lock_step pid i (P_Claim_Release_Unlink v n) w =
     (set_pc pid (after_cleanup v) w)\<lparr>lw_claim := (if si_ok i then None else lw_claim w)\<rparr>"
| "lock_step pid i (P_Held o' n) w = w"
| "lock_step pid i (P_Release_Read o' n) w =
     (if \<not> si_ok i then set_pc pid (P_Failed io_error) w
      else if Option.bind (lw_lock w) (\<lambda>f. parse_lock_owner (lf_text f)) = Some o'
      then set_pc pid (P_Release_Unlink o' n) w else set_pc pid P_Released w)"
| "lock_step pid i (P_Release_Unlink o' n) w =
     (if \<not> si_ok i then set_pc pid (P_Failed io_error) w
      else (set_pc pid P_Released w)\<lparr>lw_lock := None\<rparr>)"
| "lock_step pid i P_Released w = w"
| "lock_step pid i (P_Failed e) w = w"

text \<open>A daemon starts, takes a step, begins to release its lock (at stop or failed startup), or dies.\<close>

datatype lock_label = Spawn int | Run int step_input | Stop int | Kill int

definition pc_of :: "int \<Rightarrow> lock_world \<Rightarrow> lock_pc option" where
  "pc_of pid w = map_of (lw_procs w) pid"

fun lock_exec :: "lock_label \<Rightarrow> lock_world \<Rightarrow> lock_world" where
  "lock_exec (Spawn pid) w = w\<lparr>lw_procs := (pid, P_Lock_Open) # lw_procs w\<rparr>"
| "lock_exec (Run pid i) w = (case pc_of pid w of None \<Rightarrow> w | Some pc \<Rightarrow> lock_step pid i pc w)"
| "lock_exec (Stop pid) w = (case pc_of pid w of
     Some (P_Held o' n) \<Rightarrow> set_pc pid (P_Release_Read o' n) w | _ \<Rightarrow> w)"
| "lock_exec (Kill pid) w = w\<lparr>lw_procs := filter (\<lambda>(q, _). q \<noteq> pid) (lw_procs w)\<rparr>"

text \<open>The live daemons that believe they hold the lock.\<close>

fun holds_lock :: "lock_pc \<Rightarrow> bool" where
  "holds_lock (P_Held o' n) = True"
| "holds_lock _ = False"

definition holders :: "lock_world \<Rightarrow> int list" where
  "holders w = map fst (filter (\<lambda>(_, pc). holds_lock pc) (lw_procs w))"

section \<open>Startup of the socket, and failed startup\<close>

definition prepare_socket_for_startup :: "bool \<Rightarrow> lock_world \<Rightarrow> lock_world result" where
  "prepare_socket_for_startup responsive w =
     (if responsive then Inl (plain_error ''hrc server socket is already active'')
      else Inr (w\<lparr>lw_socket := False\<rparr>))"

definition cleanup_failed_startup :: "bool \<Rightarrow> int \<Rightarrow> lock_world \<Rightarrow> lock_world" where
  "cleanup_failed_startup should_cleanup_socket pid w =
     lock_exec (Stop pid) (if should_cleanup_socket then w\<lparr>lw_socket := False\<rparr> else w)"

section \<open>Parsing what was written\<close>

lemma parse_serialized:
  "lo_pid o' > 0 \<Longrightarrow> lo_created o' \<noteq> [] \<Longrightarrow> parse_lock_owner (serialize_lock_owner o') = Some o'"
  by (simp add: serialize_lock_owner_def jnumber_def jstring_def)

lemma parse_empty: "parse_lock_owner (Plain_Text []) = None"
  by (simp add: parse_int_def js_trim_def)

section \<open>Mutual exclusion\<close>

text \<open>The claim file and the lock file a process relies on, its owner, and the steps that clear a lock.\<close>

fun claim_of :: "lock_pc \<Rightarrow> inode option" where
  "claim_of (P_Claim_Write t h n) = Some n"
| "claim_of (P_Claim_Undo n) = Some n"
| "claim_of (P_Recheck t h n) = Some n"
| "claim_of (P_Reprobe o' h n) = Some n"
| "claim_of (P_Socket_Unlink h n) = Some n"
| "claim_of (P_Lock_Unlink h n) = Some n"
| "claim_of (P_Claim_Release_Read v h n) = Some n"
| "claim_of (P_Claim_Release_Unlink v n) = Some n"
| "claim_of _ = None"

fun lock_of :: "lock_pc \<Rightarrow> inode option" where
  "lock_of (P_Lock_Write o' n) = Some n"
| "lock_of (P_Lock_Undo n) = Some n"
| "lock_of (P_Held o' n) = Some n"
| "lock_of (P_Release_Read o' n) = Some n"
| "lock_of (P_Release_Unlink o' n) = Some n"
| "lock_of _ = None"

fun written_owner :: "lock_pc \<Rightarrow> lock_owner option" where
  "written_owner (P_Held o' n) = Some o'"
| "written_owner (P_Release_Read o' n) = Some o'"
| "written_owner (P_Release_Unlink o' n) = Some o'"
| "written_owner _ = None"

fun own_owner :: "lock_pc \<Rightarrow> lock_owner option" where
  "own_owner (P_Lock_Write o' n) = Some o'"
| "own_owner pc = written_owner pc"

definition held_text :: "lock_pc \<Rightarrow> lock_text" where
  "held_text pc = (case written_owner pc of None \<Rightarrow> Plain_Text [] | Some o' \<Rightarrow> serialize_lock_owner o')"

fun clearing :: "lock_pc \<Rightarrow> bool" where
  "clearing (P_Reprobe o' h n) = True"
| "clearing (P_Socket_Unlink h n) = True"
| "clearing (P_Lock_Unlink h n) = True"
| "clearing _ = False"

definition lock_held_by :: "lock_world \<Rightarrow> inode \<Rightarrow> bool" where
  "lock_held_by w n = (\<exists>q qc. (q, qc) \<in> set (lw_procs w) \<and> lock_of qc = Some n)"

text \<open>
  A process in the cleanup section has the claim file at its path; one that created the lock file
  has it at its path with the text it wrote; one about to clear the lock clears one that no live
  process created.
\<close>

definition process_fine :: "lock_world \<Rightarrow> int \<Rightarrow> lock_pc \<Rightarrow> bool" where
  "process_fine w p pc =
     ((\<forall>n. claim_of pc = Some n \<longrightarrow> creator n = p \<and> map_option lf_inode (lw_claim w) = Some n)
     \<and> (\<forall>n. lock_of pc = Some n \<longrightarrow> creator n = p
          \<and> (\<exists>f. lw_lock w = Some f \<and> lf_inode f = n \<and> lf_text f = held_text pc))
     \<and> (\<forall>o'. own_owner pc = Some o' \<longrightarrow> lo_pid o' = p)
     \<and> (clearing pc \<longrightarrow> (\<exists>f. lw_lock w = Some f \<and> \<not> lock_held_by w (lf_inode f))))"

definition exclusive :: "lock_world \<Rightarrow> bool" where
  "exclusive w = (distinct (map fst (lw_procs w))
     \<and> (\<forall>p pc. (p, pc) \<in> set (lw_procs w) \<longrightarrow> process_fine w p pc))"

lemma exclusive_at_most_one: "exclusive w \<Longrightarrow> length (holders w) \<le> 1"
proof -
  assume ex: "exclusive w"
  have one: "p = q" if "p \<in> set (holders w)" "q \<in> set (holders w)" for p q
  proof -
    have held: "\<exists>n f. creator n = r \<and> lw_lock w = Some f \<and> lf_inode f = n" if r: "r \<in> set (holders w)" for r
    proof -
      obtain pc where pc: "(r, pc) \<in> set (lw_procs w)" "holds_lock pc" using r by (auto simp: holders_def)
      then obtain n where "lock_of pc = Some n" by (cases pc) auto
      then show ?thesis using ex pc unfolding exclusive_def process_fine_def by blast
    qed
    show ?thesis using held [OF that(1)] held [OF that(2)] by auto
  qed
  have "distinct (holders w)"
    unfolding holders_def using ex by (intro List.distinct_map_filter) (simp add: exclusive_def)
  show "length (holders w) \<le> 1"
  proof (rule ccontr)
    assume "\<not> length (holders w) \<le> 1"
    then obtain x y zs where h: "holders w = x # y # zs" by (cases "holders w" rule: remdups_adj.cases) auto
    then have "x = y" by (intro one) simp_all
    then show False using \<open>distinct (holders w)\<close> h by simp
  qed
qed

text \<open>
  The discipline: pids of live daemons are distinct, no live daemon's lock predates the boot by the
  clock of the step, and no step unlinks the claim file of a process that is in the cleanup section.
\<close>

fun exclusive_cleanup :: "lock_label \<Rightarrow> lock_world \<Rightarrow> bool" where
  "exclusive_cleanup (Spawn p) w = (p \<notin> set (map fst (lw_procs w)))"
| "exclusive_cleanup (Run p i) w =
     (list_all (\<lambda>(q, qc). case own_owner qc of None \<Rightarrow> True | Some o' \<Rightarrow> \<not> predates_boot i o') (lw_procs w)
      \<and> (case pc_of p w of
           Some (P_Claim_Unlink t) \<Rightarrow> (case lw_claim w of None \<Rightarrow> True
             | Some f \<Rightarrow> list_all (\<lambda>(_, qc). claim_of qc \<noteq> Some (lf_inode f)) (lw_procs w))
         | _ \<Rightarrow> True))"
| "exclusive_cleanup _ w = True"

lemma procs_set_pc: "lw_procs (set_pc p pc w) = map (\<lambda>(q, c). (q, if q = p then pc else c)) (lw_procs w)"
  by (simp add: set_pc_def)

lemma fst_set_pc [simp]: "map fst (lw_procs (set_pc p pc w)) = map fst (lw_procs w)"
  by (simp add: procs_set_pc comp_def split_beta)

lemma set_pc_fields [simp]:
  "lw_lock (set_pc p pc w) = lw_lock w" "lw_claim (set_pc p pc w) = lw_claim w"
  by (simp_all add: set_pc_def)

lemma in_set_pc: "(q, qc) \<in> set (lw_procs (set_pc p pc w)) \<Longrightarrow>
    q = p \<and> qc = pc \<and> p \<in> fst ` set (lw_procs w) \<or> q \<noteq> p \<and> (q, qc) \<in> set (lw_procs w)"
  by (force simp: procs_set_pc split: if_splits)

text \<open>Moving on without touching a file.\<close>

lemma keep_move:
  assumes ex: "exclusive w" and at: "pc_of p w = Some pc"
    and claim: "claim_of pc' = None \<or> claim_of pc' = claim_of pc"
    and lock: "lock_of pc' = None \<or> lock_of pc' = lock_of pc \<and> held_text pc' = held_text pc"
    and own: "own_owner pc' = None \<or> own_owner pc' = own_owner pc"
    and clear: "clearing pc' \<Longrightarrow> clearing pc \<or> (\<exists>f. lw_lock w = Some f \<and> \<not> lock_held_by w (lf_inode f))"
  shows "exclusive (set_pc p pc' w)"
proof -
  have pc: "(p, pc) \<in> set (lw_procs w)" using at by (auto simp: pc_of_def dest: map_of_SomeD)
  have fewer: "lock_held_by w n" if held: "lock_held_by (set_pc p pc' w) n" for n
  proof -
    obtain q qc where q: "(q, qc) \<in> set (lw_procs (set_pc p pc' w))" "lock_of qc = Some n"
      using held unfolding lock_held_by_def by blast
    show ?thesis using in_set_pc [OF q(1)] q(2) pc lock unfolding lock_held_by_def by fastforce
  qed
  have same: "process_fine (set_pc p pc' w) q qc" if "process_fine w q qc" for q qc
    using that fewer unfolding process_fine_def by (auto)
  have fine: "process_fine w p pc" using ex pc by (simp add: exclusive_def)
  have "process_fine w p pc'"
    unfolding process_fine_def
  proof (intro conjI)
    show "clearing pc' \<longrightarrow> (\<exists>f. lw_lock w = Some f \<and> \<not> lock_held_by w (lf_inode f))"
      using fine clear unfolding process_fine_def by blast
    show "\<forall>n. claim_of pc' = Some n \<longrightarrow> creator n = p \<and> map_option lf_inode (lw_claim w) = Some n"
      using fine claim unfolding process_fine_def by fastforce
    show "\<forall>o'. own_owner pc' = Some o' \<longrightarrow> lo_pid o' = p"
      using fine own unfolding process_fine_def by fastforce
    show "\<forall>n. lock_of pc' = Some n \<longrightarrow> creator n = p
        \<and> (\<exists>f. lw_lock w = Some f \<and> lf_inode f = n \<and> lf_text f = held_text pc')"
      using fine lock unfolding process_fine_def by (elim disjE) (simp, metis)
  qed
  then have "process_fine (set_pc p pc' w) q qc" if "(q, qc) \<in> set (lw_procs (set_pc p pc' w))" for q qc
    using in_set_pc [OF that] same ex unfolding exclusive_def by blast
  then show ?thesis using ex unfolding exclusive_def by simp
qed

lemma keep_claim_gone:
  assumes "exclusive w"
    and "\<And>q qc f. (q, qc) \<in> set (lw_procs w) \<Longrightarrow> lw_claim w = Some f \<Longrightarrow> claim_of qc \<noteq> Some (lf_inode f)"
  shows "exclusive (w\<lparr>lw_claim := None\<rparr>)"
  using assms unfolding exclusive_def process_fine_def lock_held_by_def by (fastforce)

lemma keep_lock_gone:
  assumes "exclusive w"
    and "\<And>q qc f. (q, qc) \<in> set (lw_procs w) \<Longrightarrow> lw_lock w = Some f \<Longrightarrow> lock_of qc \<noteq> Some (lf_inode f) \<and> \<not> clearing qc"
  shows "exclusive (w\<lparr>lw_lock := None\<rparr>)"
  using assms unfolding exclusive_def process_fine_def lock_held_by_def by (fastforce)

lemma keep_claim_write:
  "exclusive w \<Longrightarrow> exclusive (w\<lparr>lw_claim := write_inode n t (lw_claim w)\<rparr>)"
proof -
  have i: "map_option lf_inode (write_inode n t f) = map_option lf_inode f" for f
    by (simp add: write_inode_def option.map_comp comp_def if_distrib cong: if_cong)
  show "exclusive w \<Longrightarrow> ?thesis" unfolding exclusive_def process_fine_def lock_held_by_def by (simp add: i)
qed

text \<open>Creating a claim or a lock file, and writing the lock.\<close>

lemma creators_absent:
  assumes "exclusive w" "lw_lock w = None" "(q, qc) \<in> set (lw_procs w)"
  shows "lock_of qc = None" "\<not> clearing qc"
  using assms unfolding exclusive_def process_fine_def by (cases "lock_of qc"; fastforce)+

lemma claimants_absent:
  assumes "exclusive w" "lw_claim w = None" "(q, qc) \<in> set (lw_procs w)"
  shows "claim_of qc = None"
  using assms unfolding exclusive_def process_fine_def by (cases "claim_of qc"; fastforce)

lemma keep_claim_new:
  assumes ex: "exclusive w" and at: "pc_of p w = Some (P_Claim_Open t)" and none: "lw_claim w = None"
    and "pc' = P_Claim_Write t h n" "creator n = p" "lf_inode f = n"
  shows "exclusive ((set_pc p pc' w)\<lparr>lw_claim := Some f, lw_next := k\<rparr>)"
proof -
  let ?w = "(set_pc p pc' w)\<lparr>lw_claim := Some f, lw_next := k\<rparr>"
  have procs: "lw_procs ?w = lw_procs (set_pc p pc' w)" "lw_lock ?w = lw_lock w" by simp_all
  have held: "lock_held_by ?w m \<Longrightarrow> lock_held_by w m" for m
    using assms(4) in_set_pc unfolding lock_held_by_def procs by fastforce
  have "process_fine ?w q qc" if q: "(q, qc) \<in> set (lw_procs ?w)" for q qc
  proof (cases "q = p")
    case True
    then have "qc = pc'" using in_set_pc q unfolding procs by blast
    then show ?thesis using assms(4-6) True by (simp add: process_fine_def)
  next
    case False
    then have old: "(q, qc) \<in> set (lw_procs w)" using in_set_pc q unfolding procs by blast
    have "process_fine w q qc" using ex old by (simp add: exclusive_def)
    then show ?thesis using claimants_absent [OF ex none old] held unfolding process_fine_def procs by fastforce
  qed
  then show ?thesis using ex unfolding exclusive_def procs by simp
qed

lemma keep_lock_new:
  assumes ex: "exclusive w" and at: "pc_of p w = Some P_Lock_Open" and none: "lw_lock w = None"
    and "pc' = P_Lock_Write h n" "creator n = p" "lo_pid h = p" "f = \<lparr>lf_inode = n, lf_text = Plain_Text []\<rparr>"
  shows "exclusive ((set_pc p pc' w)\<lparr>lw_lock := Some f, lw_next := k\<rparr>)"
proof -
  let ?w = "(set_pc p pc' w)\<lparr>lw_lock := Some f, lw_next := k\<rparr>"
  have procs: "lw_procs ?w = lw_procs (set_pc p pc' w)" "lw_claim ?w = lw_claim w" by simp_all
  have "process_fine ?w q qc" if q: "(q, qc) \<in> set (lw_procs ?w)" for q qc
  proof (cases "q = p")
    case True
    then have "qc = pc'" using in_set_pc q unfolding procs by blast
    then show ?thesis using assms(4-7) True by (simp add: process_fine_def held_text_def)
  next
    case False
    then have old: "(q, qc) \<in> set (lw_procs w)" using in_set_pc q unfolding procs by blast
    have "process_fine w q qc" using ex old by (simp add: exclusive_def)
    then show ?thesis using creators_absent [OF ex none old] unfolding process_fine_def procs by simp
  qed
  then show ?thesis using ex unfolding exclusive_def procs by simp
qed

lemma keep_lock_write:
  assumes ex: "exclusive w" and at: "pc_of p w = Some (P_Lock_Write h n)"
  shows "exclusive ((set_pc p (P_Held h n) w)\<lparr>lw_lock := write_inode n (serialize_lock_owner h) (lw_lock w)\<rparr>)"
proof -
  let ?w = "(set_pc p (P_Held h n) w)\<lparr>lw_lock := write_inode n (serialize_lock_owner h) (lw_lock w)\<rparr>"
  have pc: "(p, P_Lock_Write h n) \<in> set (lw_procs w)" using at by (auto simp: pc_of_def dest: map_of_SomeD)
  then have own: "process_fine w p (P_Lock_Write h n)" using ex by (simp add: exclusive_def)
  then obtain f where f: "lw_lock w = Some f" "lf_inode f = n" "creator n = p" "lo_pid h = p"
    by (auto simp: process_fine_def)
  have procs: "lw_procs ?w = lw_procs (set_pc p (P_Held h n) w)" "lw_claim ?w = lw_claim w"
    "lw_lock ?w = Some (f\<lparr>lf_text := serialize_lock_owner h\<rparr>)"
    using f by (simp_all add: write_inode_def)
  have by_p: "lock_held_by w n" using pc unfolding lock_held_by_def by fastforce
  have "process_fine ?w q qc" if q: "(q, qc) \<in> set (lw_procs ?w)" for q qc
  proof (cases "q = p")
    case True
    then have "qc = P_Held h n" using in_set_pc q unfolding procs by blast
    then show ?thesis using f True procs by (simp add: process_fine_def held_text_def)
  next
    case False
    then have old: "(q, qc) \<in> set (lw_procs w)" using in_set_pc q unfolding procs by blast
    have fine: "process_fine w q qc" using ex old by (simp add: exclusive_def)
    have "lock_of qc = None" "\<not> clearing qc"
      using fine f by_p False unfolding process_fine_def by (cases "lock_of qc"; fastforce)+
    then show ?thesis using fine unfolding process_fine_def procs by simp
  qed
  then show ?thesis using ex unfolding exclusive_def procs by simp
qed

text \<open>A process that goes on to unlink the lock is the only one that relies on it or clears it.\<close>

lemma other_claimant:
  assumes "exclusive w" "(p, pc) \<in> set (lw_procs w)" "(q, qc) \<in> set (lw_procs w)"
    and "claim_of pc = Some n" "claim_of qc = Some m"
  shows "q = p"
  using assms unfolding exclusive_def process_fine_def by (metis option.inject)

lemma other_creator:
  assumes "exclusive w" "(p, pc) \<in> set (lw_procs w)" "(q, qc) \<in> set (lw_procs w)"
    and "lock_of pc = Some n" "lock_of qc = Some m"
  shows "q = p"
  using assms unfolding exclusive_def process_fine_def by (metis option.inject)

lemma clearing_claims: "clearing pc \<Longrightarrow> \<exists>n. claim_of pc = Some n"
  by (cases pc) auto

lemma unlink_by_cleaner:
  assumes ex: "exclusive w" and at: "pc_of p w = Some (P_Lock_Unlink h n)"
  shows "exclusive ((set_pc p (P_Claim_Release_Read v h n) w)\<lparr>lw_lock := None\<rparr>)"
proof (rule keep_lock_gone)
  have pc: "(p, P_Lock_Unlink h n) \<in> set (lw_procs w)" using at by (auto simp: pc_of_def dest: map_of_SomeD)
  show ex': "exclusive (set_pc p (P_Claim_Release_Read v h n) w)" using ex at by (rule keep_move) auto
  fix q qc f
  assume q: "(q, qc) \<in> set (lw_procs (set_pc p (P_Claim_Release_Read v h n) w))"
    and f: "lw_lock (set_pc p (P_Claim_Release_Read v h n) w) = Some f"
  have free: "\<not> lock_held_by w (lf_inode f)"
    using ex pc f unfolding exclusive_def process_fine_def by fastforce
  show "lock_of qc \<noteq> Some (lf_inode f) \<and> \<not> clearing qc"
  proof (cases "q = p")
    case True
    then show ?thesis using in_set_pc [OF q] by auto
  next
    case False
    then have old: "(q, qc) \<in> set (lw_procs w)" using in_set_pc [OF q] by blast
    then show ?thesis
      using free other_claimant [OF ex pc old] clearing_claims [of qc] False
      unfolding lock_held_by_def by auto
  qed
qed

lemma unlink_by_creator:
  assumes ex: "exclusive w" and at: "pc_of p w = Some pc" and n: "lock_of pc = Some n"
    and pc': "claim_of pc' = None" "lock_of pc' = None" "own_owner pc' = None" "\<not> clearing pc'"
  shows "exclusive ((set_pc p pc' w)\<lparr>lw_lock := None\<rparr>)"
proof (rule keep_lock_gone)
  have pc: "(p, pc) \<in> set (lw_procs w)" using at by (auto simp: pc_of_def dest: map_of_SomeD)
  show "exclusive (set_pc p pc' w)" using ex at pc' by (intro keep_move) auto
  fix q qc f
  assume q: "(q, qc) \<in> set (lw_procs (set_pc p pc' w))" and f: "lw_lock (set_pc p pc' w) = Some f"
  have "lf_inode f = n" using ex pc n f unfolding exclusive_def process_fine_def by fastforce
  then have held: "lock_held_by w (lf_inode f)" using pc n unfolding lock_held_by_def by blast
  show "lock_of qc \<noteq> Some (lf_inode f) \<and> \<not> clearing qc"
  proof (cases "q = p")
    case True
    then show ?thesis using in_set_pc [OF q] pc' by auto
  next
    case False
    then have old: "(q, qc) \<in> set (lw_procs w)" using in_set_pc [OF q] by blast
    have "process_fine w q qc" using ex old by (simp add: exclusive_def)
    then have "\<not> clearing qc" using held f unfolding process_fine_def by fastforce
    then show ?thesis using other_creator [OF ex pc old n] False by auto
  qed
qed

lemma unlink_claim_by_owner:
  assumes ex: "exclusive w" and at: "pc_of p w = Some pc" and n: "claim_of pc = Some n"
    and pc': "claim_of pc' = None" "lock_of pc' = None" "own_owner pc' = None" "\<not> clearing pc'"
  shows "exclusive ((set_pc p pc' w)\<lparr>lw_claim := None\<rparr>)"
proof (rule keep_claim_gone)
  have pc: "(p, pc) \<in> set (lw_procs w)" using at by (auto simp: pc_of_def dest: map_of_SomeD)
  show "exclusive (set_pc p pc' w)" using ex at pc' by (intro keep_move) auto
  fix q qc f
  assume q: "(q, qc) \<in> set (lw_procs (set_pc p pc' w))" and f: "lw_claim (set_pc p pc' w) = Some f"
  show "claim_of qc \<noteq> Some (lf_inode f)"
    using in_set_pc [OF q] pc' other_claimant [OF ex pc _ n] by (metis option.distinct(1))
qed

text \<open>A lock whose owner is not alive, at a clock reading the discipline allows, has no live creator.\<close>

lemma parse_serialized_eq: "parse_lock_owner (serialize_lock_owner h) = Some o' \<Longrightarrow> o' = h"
  by (auto simp: serialize_lock_owner_def jnumber_def jstring_def split: if_splits)

lemma written_own: "written_owner pc = Some h \<Longrightarrow> own_owner pc = Some h"
  by (cases pc) auto

lemma dead_owner_free:
  assumes ex: "exclusive w" and f: "lw_lock w = Some f" "parse_lock_owner (lf_text f) = Some o'"
    and dead: "\<not> is_lock_owner_alive w i o'"
    and clock: "list_all (\<lambda>(q, qc). case own_owner qc of None \<Rightarrow> True | Some o' \<Rightarrow> \<not> predates_boot i o') (lw_procs w)"
  shows "\<not> lock_held_by w (lf_inode f)"
proof
  assume "lock_held_by w (lf_inode f)"
  then obtain q qc where q: "(q, qc) \<in> set (lw_procs w)" "lock_of qc = Some (lf_inode f)"
    unfolding lock_held_by_def by blast
  have fine: "process_fine w q qc" using ex q by (simp add: exclusive_def)
  then have written: "lf_text f = held_text qc" using q f by (auto simp: process_fine_def)
  then obtain h where h: "written_owner qc = Some h"
    using f(2) parse_empty by (cases "written_owner qc") (auto simp: held_text_def)
  then have "o' = h" using f(2) written parse_serialized_eq by (simp add: held_text_def)
  moreover have "lo_pid h = q" using fine written_own [OF h] by (simp add: process_fine_def)
  moreover have "\<not> predates_boot i h" using clock q written_own [OF h] by (fastforce simp: list_all_iff)
  ultimately show False using dead q(1) by (force simp: is_lock_owner_alive_def is_live_process_def)
qed

lemma claim_write_keeps:
  assumes "exclusive w" "pc_of p w = Some (P_Claim_Write t h n)"
  shows "exclusive ((set_pc p (P_Recheck t h n) w)\<lparr>lw_claim := write_inode n x (lw_claim w)\<rparr>)"
proof -
  have "exclusive (set_pc p (P_Recheck t h n) w)" using assms by (rule keep_move) auto
  from keep_claim_write [OF this, of n x] show ?thesis by simp
qed

lemma claim_unlink_keeps:
  assumes "exclusive w" "pc_of p w = Some (P_Claim_Unlink t)"
    and "\<And>f. lw_claim w = Some f \<Longrightarrow> list_all (\<lambda>(_, qc). claim_of qc \<noteq> Some (lf_inode f)) (lw_procs w)"
  shows "exclusive ((set_pc p (P_Claim_Open t) w)\<lparr>lw_claim := None\<rparr>)"
proof (rule keep_claim_gone)
  show "exclusive (set_pc p (P_Claim_Open t) w)" using assms(1,2) by (rule keep_move) auto
  fix q qc f
  assume q: "(q, qc) \<in> set (lw_procs (set_pc p (P_Claim_Open t) w))"
    and "lw_claim (set_pc p (P_Claim_Open t) w) = Some f"
  then show "claim_of qc \<noteq> Some (lf_inode f)"
    using in_set_pc [OF q] assms(3) [of f] by (fastforce simp: list_all_iff)
qed

lemma socket_keeps: "exclusive w \<Longrightarrow> exclusive (w\<lparr>lw_socket := b\<rparr>)"
  unfolding exclusive_def process_fine_def lock_held_by_def by simp

lemma after_cleanup_of [simp]:
  "claim_of (after_cleanup v) = None" "lock_of (after_cleanup v) = None"
  "own_owner (after_cleanup v) = None" "\<not> clearing (after_cleanup v)"
  by (simp_all add: after_cleanup_def split: option.splits)

lemma set_pc_same_file [simp]:
  "(set_pc p pc w)\<lparr>lw_lock := lw_lock w\<rparr> = set_pc p pc w" "(set_pc p pc w)\<lparr>lw_claim := lw_claim w\<rparr> = set_pc p pc w"
  by (simp_all add: set_pc_def)

lemma step_keeps_exclusive:
  assumes ex: "exclusive w" and at: "pc_of p w = Some pc" and ok: "exclusive_cleanup (Run p i) w"
  shows "exclusive (lock_step p i pc w)"
proof -
  note move = keep_move [OF ex at]
  show ?thesis
  proof (cases pc)
    case P_Lock_Open
    then show ?thesis
      using at by (auto simp: fresh_file_def create_lock_owner_def split: option.split
          intro!: move keep_lock_new [OF ex])
  next
    case (P_Lock_Write h n)
    then show ?thesis using at keep_lock_write [OF ex] by (auto simp: held_text_def intro!: move)
  next
    case (P_Lock_Undo n)
    then show ?thesis using unlink_by_creator [OF ex at] by (auto intro!: move simp del: fst_set_pc)
  next
    case P_Lock_Read
    then show ?thesis by (auto intro!: move split: option.split)
  next
    case (P_Claim_Open t)
    then show ?thesis
      using at by (auto simp: fresh_file_def split: option.split intro!: move keep_claim_new [OF ex])
  next
    case (P_Claim_Write t h n)
    then show ?thesis using at claim_write_keeps [OF ex] by (auto intro!: move)
  next
    case (P_Claim_Undo n)
    then show ?thesis using unlink_claim_by_owner [OF ex at] by (auto intro!: move)
  next
    case (P_Claim_Read t)
    then show ?thesis by (auto intro!: move split: option.split)
  next
    case (P_Claim_Unlink t)
    then show ?thesis using at ok claim_unlink_keeps [OF ex] by (auto intro!: move split: option.splits)
  next
    case (P_Recheck t h n)
    then show ?thesis
      using ok dead_owner_free [OF ex, of _ _ i] by (auto intro!: move split: option.split)
  next
    case (P_Socket_Unlink h n)
    then show ?thesis by (auto intro!: move socket_keeps)
  next
    case (P_Lock_Unlink h n)
    then show ?thesis using at unlink_by_cleaner [OF ex] by (auto intro!: move)
  next
    case (P_Claim_Release_Read v h n)
    then show ?thesis by (auto intro!: move split: option.split)
  next
    case (P_Claim_Release_Unlink v n)
    then show ?thesis using unlink_claim_by_owner [OF ex at] by (auto intro!: move)
  next
    case (P_Release_Read h n)
    then show ?thesis by (auto intro!: move simp: held_text_def)
  next
    case (P_Release_Unlink h n)
    then show ?thesis using unlink_by_creator [OF ex at] by (auto intro!: move)
  qed (use ex in \<open>auto intro!: move\<close>)
qed

lemma exec_keeps_exclusive:
  assumes "exclusive_cleanup l w" "exclusive w"
  shows "exclusive (lock_exec l w)"
proof (cases l)
  case (Spawn p)
  then show ?thesis using assms
    unfolding exclusive_def process_fine_def lock_held_by_def by fastforce
next
  case (Run p i)
  then show ?thesis using assms step_keeps_exclusive by (auto split: option.split)
next
  case (Stop p)
  show ?thesis
  proof (cases "pc_of p w")
    case (Some pc)
    then show ?thesis using Stop assms(2)
      by (cases pc) (auto intro!: keep_move [OF assms(2) Some] simp: held_text_def)
  qed (use Stop assms in simp)
next
  case (Kill p)
  have "distinct (map fst (filter (\<lambda>(q, _). q \<noteq> p) (lw_procs w)))"
    using assms(2) by (intro List.distinct_map_filter) (simp add: exclusive_def)
  then show ?thesis using assms(2) Kill
    unfolding exclusive_def process_fine_def lock_held_by_def by fastforce
qed

interpretation lock_histories: guarded_history lock_exec exclusive_cleanup exclusive
  by unfold_locales (rule exec_keeps_exclusive)

primrec cleanup_exclusive :: "lock_label list \<Rightarrow> lock_world \<Rightarrow> bool" where
  "cleanup_exclusive [] w = True"
| "cleanup_exclusive (l # ls) w = (exclusive_cleanup l w \<and> cleanup_exclusive ls (lock_exec l w))"

lemma cleanup_exclusive_disciplined: "cleanup_exclusive ls w = lock_histories.disciplined ls w"
  by (induction ls arbitrary: w) auto

text \<open>
  C16. At most one live daemon holds the server lock, and the lock file names it, in every
  interleaving of any number of daemons that start, acquire, clear a stale lock, release, fail and
  die, from any files left behind, as long as no step removes the claim file of a daemon that is
  in the cleanup section (and the clock does not put a live daemon's lock before the boot).
\<close>

theorem server_lock_is_exclusive:
  assumes "lw_procs w = []" "cleanup_exclusive ls w" "w' = fold lock_exec ls w"
  shows "length (holders w') \<le> 1
    \<and> (\<forall>p o' n. pc_of p w' = Some (P_Held o' n) \<longrightarrow>
        lo_pid o' = p \<and> map_option lf_text (lw_lock w') = Some (serialize_lock_owner o'))"
proof -
  have "exclusive w" using assms(1) by (simp add: exclusive_def)
  then have ex: "exclusive w'"
    using lock_histories.disciplined_keeps assms(2,3) by (simp add: cleanup_exclusive_disciplined)
  then have "lo_pid o' = p \<and> map_option lf_text (lw_lock w') = Some (serialize_lock_owner o')"
    if "pc_of p w' = Some (P_Held o' n)" for p o' n
  proof -
    have "(p, P_Held o' n) \<in> set (lw_procs w')" using that by (auto simp: pc_of_def dest: map_of_SomeD)
    then have "process_fine w' p (P_Held o' n)" using ex by (simp add: exclusive_def)
    then show ?thesis by (auto simp: process_fine_def held_text_def)
  qed
  then show ?thesis using exclusive_at_most_one [OF ex] by blast
qed

definition stale_world :: lock_world where
  "stale_world = \<lparr>lw_lock = Some \<lparr>lf_inode = Inode 7 0, lf_text =
       serialize_lock_owner \<lparr>lo_pid = 7, lo_created = ''2026-10-20T00:00:00.000Z''\<rparr>\<rparr>,
     lw_claim = None, lw_socket = True, lw_next = 1, lw_procs = [], lw_others = []\<rparr>"

definition quiet_input :: step_input where
  "quiet_input = \<lparr>si_now = 1792657800250, si_uptime = 864000, si_ok = True, si_responsive = False\<rparr>"

definition go :: "int \<Rightarrow> lock_label" where
  "go p = Run p quiet_input"

text \<open>One daemon clears the lock of a dead one while another waits for its claim, then is refused.\<close>

definition orderly_labels :: "lock_label list" where
  "orderly_labels = [Spawn 1, Spawn 2] @ map go ([1, 1, 1, 1, 1, 2, 2, 2, 2, 2, 2] @ replicate 8 1 @ [2, 2, 2, 2, 2])"

theorem server_lock_is_exclusive_witness:
  "holders (fold lock_exec orderly_labels stale_world) = [1] \<and> length (holders (fold lock_exec orderly_labels stale_world)) \<le> 1"
proof
  show "holders (fold lock_exec orderly_labels stale_world) = [1]" by code_simp
  have "cleanup_exclusive orderly_labels stale_world" by code_simp
  then show "length (holders (fold lock_exec orderly_labels stale_world)) \<le> 1"
    using server_lock_is_exclusive [OF _ _ refl, of stale_world orderly_labels] by (simp add: stale_world_def)
qed

definition racing_labels :: "lock_label list" where
  "racing_labels = [Spawn 1, Spawn 2] @ map go
     [1, 1, 1, 2, 2, 2, 1, 2, 2, 2, 2, 1, 2, 1, 2, 1, 2, 1, 2, 1, 1, 1, 1, 2, 2, 2, 2, 2]"

text \<open>
  Without that discipline the lock is not exclusive. Two daemons that start over the lock of a
  dead one, with every file operation succeeding and nobody dying, can both end holding it: the
  second reads the claim file between its creation and its write, takes the empty text for an
  abandoned claim and removes it, and later removes the lock the first one has just created.
\<close>

theorem claim_race_admits_two_holders:
  "holders (fold lock_exec racing_labels stale_world) = [2, 1]"
  by code_simp

section \<open>A lock nobody can read\<close>

text \<open>Where a process can stand while the lock file has no owner to parse.\<close>

fun refused_or_trying :: "lock_pc \<Rightarrow> bool" where
  "refused_or_trying P_Lock_Open = True"
| "refused_or_trying P_Lock_Read = True"
| "refused_or_trying (P_Failed e) = True"
| "refused_or_trying _ = False"

definition stuck_on :: "lock_file \<Rightarrow> lock_world \<Rightarrow> bool" where
  "stuck_on f w = (lw_lock w = Some f \<and> parse_lock_owner (lf_text f) = None
     \<and> list_all (\<lambda>(_, pc). refused_or_trying pc) (lw_procs w))"

lemma stuck_set_pc: "stuck_on f w \<Longrightarrow> refused_or_trying pc \<Longrightarrow> stuck_on f (set_pc p pc w)"
  by (auto simp: stuck_on_def procs_set_pc list_all_iff)

lemma stuck_at: "stuck_on f w \<Longrightarrow> pc_of p w = Some pc \<Longrightarrow> refused_or_trying pc"
  by (auto simp: stuck_on_def pc_of_def list_all_iff dest!: map_of_SomeD)

lemma stuck_exec:
  assumes stuck: "stuck_on f w"
  shows "stuck_on f (lock_exec l w)"
proof (cases l)
  case (Run p i)
  have lock: "lw_lock w = Some f" "parse_lock_owner (lf_text f) = None"
    using stuck by (simp_all add: stuck_on_def)
  show ?thesis
  proof (cases "pc_of p w")
    case (Some pc)
    then show ?thesis
      using stuck_at [OF stuck Some] stuck lock Run by (cases pc) (auto intro: stuck_set_pc)
  qed (use Run stuck in simp)
next
  case (Stop p)
  show ?thesis
  proof (cases "pc_of p w")
    case (Some pc)
    then show ?thesis using stuck_at [OF stuck Some] stuck Stop by (cases pc) simp_all
  qed (use Stop stuck in simp)
qed (use stuck in \<open>auto simp: stuck_on_def list_all_iff\<close>)

interpretation stuck_histories: op_history lock_exec "\<lambda>_. True" "stuck_on f" for f
  by unfold_locales (rule stuck_exec)

text \<open>
  A lock file without a readable owner blocks every daemon for good. Whatever daemons start and
  in whatever interleaving, none ever holds the lock and the file stays as it is; a daemon that dies
  between creating its lock file and writing its owner leaves such a file.
\<close>

theorem unreadable_lock_blocks_all:
  assumes "lw_lock w = Some f" "parse_lock_owner (lf_text f) = None" "lw_procs w = []"
  shows "holders (fold lock_exec ls w) = [] \<and> lw_lock (fold lock_exec ls w) = Some f"
proof -
  have "stuck_on f w" using assms by (simp add: stuck_on_def)
  then have s: "stuck_on f (fold lock_exec ls w)"
    by (intro stuck_histories.history_keeps) (simp_all add: list_all_iff)
  have "\<not> holds_lock pc" if "refused_or_trying pc" for pc using that by (cases pc) auto
  then show ?thesis using s by (auto simp: stuck_on_def holders_def list_all_iff filter_empty_conv)
qed

definition dying_labels :: "lock_label list" where
  "dying_labels = [Spawn 1, go 1, Kill 1]"

theorem unreadable_lock_blocks_all_witness:
  "lw_lock (fold lock_exec dying_labels (stale_world\<lparr>lw_lock := None\<rparr>))
     = Some \<lparr>lf_inode = Inode 1 1, lf_text = Plain_Text []\<rparr>
   \<and> holders (fold lock_exec orderly_labels (fold lock_exec dying_labels (stale_world\<lparr>lw_lock := None\<rparr>))) = []"
proof
  let ?w = "fold lock_exec dying_labels (stale_world\<lparr>lw_lock := None\<rparr>)"
  show l: "lw_lock ?w = Some \<lparr>lf_inode = Inode 1 1, lf_text = Plain_Text []\<rparr>"
    by (simp add: dying_labels_def go_def stale_world_def quiet_input_def pc_of_def set_pc_def fresh_file_def)
  have "lw_procs ?w = []"
    by (simp add: dying_labels_def go_def stale_world_def quiet_input_def pc_of_def set_pc_def fresh_file_def)
  then show "holders (fold lock_exec orderly_labels ?w) = []"
    using unreadable_lock_blocks_all [OF l] parse_empty by simp
qed

end
