(* ===== verification/Session_Metadata.thy ===== *)
theory Session_Metadata
  imports Event_Ledger "HOL-Library.Sublist"
begin

text \<open>
  Session metadata: validation, flattening to dotted keys and nesting (hrc-core/src/session-metadata.ts),
  and the store of values by continuity, key and source with its lifecycle events
  (hrc-store-sqlite/src/session-metadata-repository.ts). Numbers are integers, so the finiteness
  test always passes; the dash of one message and the ellipsis of a cut attribution, which are
  outside the model's characters, are written otherwise.
\<close>

section \<open>Values and keys\<close>

fun metadata_scalar :: "json \<Rightarrow> bool" where
  "metadata_scalar (JArr xs) = False"
| "metadata_scalar (JObj ob) = False"
| "metadata_scalar _ = True"

fun storable :: "json \<Rightarrow> bool" where
  "storable (JArr xs) = list_all metadata_scalar xs"
| "storable v = metadata_scalar v"

definition metadata_max_keys :: nat where "metadata_max_keys = 64"
definition metadata_key_max_bytes :: nat where "metadata_key_max_bytes = 128"
definition metadata_value_max_bytes :: nat where "metadata_value_max_bytes = 4096"
definition title_max_length :: nat where "title_max_length = 200"

definition key_segment :: "string \<Rightarrow> bool" where
  "key_segment s = (s \<noteq> [] \<and> is_lower (hd s) \<and> list_all (\<lambda>c. is_lower c \<or> is_upper c \<or> is_digit c) (tl s)
     \<and> length s \<le> 64)"

definition key_pattern :: "string \<Rightarrow> bool" where
  "key_pattern key = (let segments = js_split CHR ''.'' key in length segments \<le> 4 \<and> list_all key_segment segments)"

definition is_hex_digit :: "char \<Rightarrow> bool" where
  "is_hex_digit c = (is_digit c \<or> c \<in> set ''abcdefABCDEF'')"

fun bounded_text :: "nat \<Rightarrow> json \<Rightarrow> string option" where
  "bounded_text maxLength (JStr s) =
     (if js_trim s = [] then Some ''must be non-empty''
      else if length (js_trim s) > maxLength then Some (''must be at most '' @ show_nat maxLength @ '' characters'')
      else if list_ex (\<lambda>c. (of_char c :: nat) < 32 \<or> (of_char c :: nat) = 127) (js_trim s)
      then Some ''must not contain control characters'' else None)"
| "bounded_text maxLength _ = Some ''must be a string''"

fun hex_color :: "json \<Rightarrow> string option" where
  "hex_color (JStr (c # s)) = (if c = CHR ''#'' \<and> length s = 6 \<and> list_all is_hex_digit s then None
     else Some ''must be a #RRGGBB hex color'')"
| "hex_color _ = Some ''must be a #RRGGBB hex color''"

definition registered_metadata :: "(string \<times> (json \<Rightarrow> string option)) list" where
  "registered_metadata = [(''title'', bounded_text title_max_length), (''appearance.color'', hex_color),
     (''appearance.terminalBg'', hex_color)]"

definition key_reason :: string where
  "key_reason = ''key must have 1-4 valid segments (at most 64 characters each) and at most 128 bytes''"

text \<open>The reason of a refusal, or the value to keep.\<close>

definition validate_entry :: "string \<Rightarrow> json \<Rightarrow> bool \<Rightarrow> string + json" where
  "validate_entry key v registered =
     (if \<not> key_pattern key \<or> utf8_length key > metadata_key_max_bytes then Inl key_reason
      else if \<not> storable v then Inl ''value must be a JSON scalar or array of scalars''
      else if utf8_length (json_stringify v) > metadata_value_max_bytes
      then Inl ''serialized value must be at most 4096 bytes''
      else (case (if registered then Option.bind (map_of registered_metadata key) (\<lambda>rule. rule v) else None) of
         Some reason \<Rightarrow> Inl reason
       | None \<Rightarrow> Inr (case v of JStr s \<Rightarrow> if key = ''title'' \<and> registered then JStr (js_trim s) else v | _ \<Rightarrow> v)))"

section \<open>Flattening\<close>

record metadata_validation =
  va_values :: json_object
  va_rejected :: "(string \<times> string) list"

definition reject_key :: "string \<Rightarrow> string \<Rightarrow> metadata_validation \<Rightarrow> metadata_validation" where
  "reject_key key reason va = va\<lparr>va_rejected := va_rejected va @ [(key, reason)]\<rparr>"

definition keep_value :: "string \<Rightarrow> json \<Rightarrow> metadata_validation \<Rightarrow> metadata_validation" where
  "keep_value key v va = va\<lparr>va_values := map_set key v (va_values va)\<rparr>"

text \<open>One key names an object above or below the other.\<close>

definition key_below :: "string \<Rightarrow> string \<Rightarrow> bool" where
  "key_below key held = starts_with key (held @ ''.'')"

definition leaf_collision :: "string \<Rightarrow> string list \<Rightarrow> string option" where
  "leaf_collision key held = List.find (\<lambda>h. h = key \<or> key_below h key \<or> key_below key h) held"

definition visit_leaf :: "string \<Rightarrow> json \<Rightarrow> metadata_validation \<Rightarrow> metadata_validation" where
  "visit_leaf key v va =
     (case validate_entry key v False of
        Inl reason \<Rightarrow> reject_key key reason va
      | Inr kept \<Rightarrow> (case leaf_collision key (map fst (va_values va)) of
          Some c \<Rightarrow> reject_key key (''key collides with '' @ c) va
        | None \<Rightarrow> keep_value key kept va))"

definition child_key :: "string \<Rightarrow> string \<Rightarrow> string" where
  "child_key key child = (if key \<noteq> [] then key @ ''.'' @ child else child)"

fun visit :: "string \<Rightarrow> json \<Rightarrow> metadata_validation \<Rightarrow> metadata_validation"
and visit_entries :: "string \<Rightarrow> json_object \<Rightarrow> metadata_validation \<Rightarrow> metadata_validation" where
  "visit key v va =
     (case validate_entry key JNull False of
        Inl reason \<Rightarrow> reject_key key reason va
      | Inr _ \<Rightarrow> (case v of JObj ob \<Rightarrow> visit_entries key ob va | _ \<Rightarrow> visit_leaf key v va))"
| "visit_entries key [] va = va"
| "visit_entries key ((child, v) # ob) va = visit_entries key ob (visit (child_key key child) v va)"

declare visit.simps [simp del]

definition no_metadata :: metadata_validation where
  "no_metadata = \<lparr>va_values = [], va_rejected = []\<rparr>"

fun flatten_session_metadata :: "json \<Rightarrow> metadata_validation" where
  "flatten_session_metadata (JObj ob) = visit_entries [] ob no_metadata"
| "flatten_session_metadata _ = reject_key [] ''metadata must be an object'' no_metadata"

section \<open>Validation against the keys held\<close>

definition js_set_of :: "'a list \<Rightarrow> 'a list" where
  "js_set_of xs = fold js_set_add xs []"

definition held_collision :: "string \<Rightarrow> string list \<Rightarrow> string option" where
  "held_collision key held = List.find (\<lambda>h. h \<noteq> key \<and> (key_below h key \<or> key_below key h)) held"

definition admit_entry ::
  "bool \<Rightarrow> string \<times> json \<Rightarrow> metadata_validation \<times> string list \<Rightarrow> metadata_validation \<times> string list" where
  "admit_entry registered = (\<lambda>(key, v) (va, held).
     case validate_entry key v registered of
       Inl reason \<Rightarrow> (reject_key key reason va, held)
     | Inr kept \<Rightarrow> (case held_collision key held of
         Some c \<Rightarrow> (reject_key key (''key collides with '' @ c) va, held)
       | None \<Rightarrow> if key \<notin> set held \<and> length held \<ge> metadata_max_keys
           then (reject_key key ''continuity may hold at most 64 distinct keys'' va, held)
           else (keep_value key kept va, js_set_add key held)))"

definition validate_session_metadata :: "json \<Rightarrow> string list \<Rightarrow> bool \<Rightarrow> metadata_validation" where
  "validate_session_metadata input existing registered =
     (let flat = flatten_session_metadata input in
      fst (fold (admit_entry registered) (va_values flat)
        (\<lparr>va_values = [], va_rejected = va_rejected flat\<rparr>, js_set_of existing)))"

section \<open>Nesting\<close>

definition type_error :: js_error where
  "type_error = plain_error ''TypeError''"

text \<open>
  \<open>cursor[part] = ...\<close> on a primitive throws; on an array it sets a property that JSON does not show.
\<close>

fun put_path :: "string list \<Rightarrow> json \<Rightarrow> json_object \<Rightarrow> json_object result" where
  "put_path [] v ob = Inr ob"
| "put_path [p] v ob = Inr (map_set p v ob)"
| "put_path (p # q # ps) v ob =
     (case jget ob p of
        None \<Rightarrow> then_do (put_path (q # ps) v []) (\<lambda>sub. Inr (map_set p (JObj sub) ob))
      | Some (JObj sub) \<Rightarrow> then_do (put_path (q # ps) v sub) (\<lambda>sub'. Inr (map_set p (JObj sub') ob))
      | Some (JArr xs) \<Rightarrow> Inr ob
      | Some _ \<Rightarrow> Inl type_error)"

fun nest_session_metadata :: "json_object \<Rightarrow> json_object \<Rightarrow> json_object result" where
  "nest_session_metadata [] ob = Inr ob"
| "nest_session_metadata ((key, v) # kvs) ob =
     then_do (put_path (js_split CHR ''.'' key) v ob) (nest_session_metadata kvs)"

text \<open>A cut attribution ends with an ellipsis of three bytes.\<close>

datatype attribution = Whole string | Cut string

fun attribution_bytes :: "attribution \<Rightarrow> nat" where
  "attribution_bytes (Whole s) = utf8_length s"
| "attribution_bytes (Cut s) = utf8_length s + 3"

fun take_bounded :: "string \<Rightarrow> string \<Rightarrow> string" where
  "take_bounded result [] = result"
| "take_bounded result (c # s) =
     (if attribution_bytes (Cut (result @ [c])) > 256 then result else take_bounded (result @ [c]) s)"

definition truncate_updated_by :: "string \<Rightarrow> attribution" where
  "truncate_updated_by s = (if utf8_length s \<le> 256 then Whole s else Cut (take_bounded [] s))"

section \<open>The store\<close>

datatype metadata_source = From_Api | From_Launch | From_Hrc

fun source_name :: "metadata_source \<Rightarrow> string" where
  "source_name From_Api = ''api''"
| "source_name From_Launch = ''launch''"
| "source_name From_Hrc = ''hrc''"

fun precedence :: "metadata_source \<Rightarrow> nat" where
  "precedence From_Api = 3"
| "precedence From_Launch = 2"
| "precedence From_Hrc = 1"

record metadata_row =
  md_scope :: string
  md_lane :: string
  md_key :: string
  md_source :: metadata_source
  md_value :: json
  md_updated_at :: string
  md_updated_by :: attribution

record metadata_db =
  mb_rows :: "metadata_row list"
  mb_continuities :: "(string \<times> string \<times> string) list"
  mb_generations :: "(string \<times> int) list"
  mb_ledger :: ledger

definition rows_of :: "string \<Rightarrow> string \<Rightarrow> metadata_row list \<Rightarrow> metadata_row list" where
  "rows_of scope lane rows = filter (\<lambda>r. md_scope r = scope \<and> md_lane r = lane) rows"

text \<open>The stable sort by precedence: api, then launch, then hrc.\<close>

definition ranked :: "metadata_row list \<Rightarrow> metadata_row list" where
  "ranked rows = filter (\<lambda>r. md_source r = From_Api) rows @ filter (\<lambda>r. md_source r = From_Launch) rows
     @ filter (\<lambda>r. md_source r = From_Hrc) rows"

definition continuity_rows :: "string \<Rightarrow> string \<Rightarrow> metadata_db \<Rightarrow> metadata_row list" where
  "continuity_rows scope lane db = ranked (rows_of scope lane (mb_rows db))"

record source_record =
  sr_source :: metadata_source
  sr_updated_by :: attribution
  sr_updated_at :: string

record resolved_source =
  so_record :: source_record
  so_unregistered :: bool
  so_shadowed :: "(source_record \<times> json) list"

definition source_record_of :: "metadata_row \<Rightarrow> source_record" where
  "source_record_of r = \<lparr>sr_source = md_source r, sr_updated_by = md_updated_by r, sr_updated_at = md_updated_at r\<rparr>"

definition take_row ::
  "metadata_row \<Rightarrow> json_object \<times> (string \<times> resolved_source) list \<Rightarrow> json_object \<times> (string \<times> resolved_source) list" where
  "take_row r = (\<lambda>(values, sources). case map_of sources (md_key r) of
     Some winner \<Rightarrow> (values, map_set (md_key r)
       (winner\<lparr>so_shadowed := so_shadowed winner @ [(source_record_of r, md_value r)]\<rparr>) sources)
   | None \<Rightarrow> (map_set (md_key r) (md_value r) values, map_set (md_key r)
       \<lparr>so_record = source_record_of r, so_unregistered = (map_of registered_metadata (md_key r) = None),
        so_shadowed = []\<rparr> sources))"

definition resolve_rows :: "metadata_row list \<Rightarrow> json_object \<times> (string \<times> resolved_source) list" where
  "resolve_rows rows = fold take_row rows ([], [])"

definition metadata_get ::
  "string \<Rightarrow> string \<Rightarrow> metadata_db \<Rightarrow> (json_object \<times> (string \<times> resolved_source) list) result" where
  "metadata_get scope lane db = (case resolve_rows (continuity_rows scope lane db) of
     (values, sources) \<Rightarrow> then_do (nest_session_metadata values []) (\<lambda>ob. Inr (ob, sources)))"

record metadata_input =
  mi_scope :: string
  mi_lane :: string
  mi_source :: metadata_source
  mi_set :: "json option"
  mi_clear :: "string list"
  mi_replace :: bool
  mi_updated_by :: string
  mi_now :: string

definition clear_rejections :: "string list \<Rightarrow> metadata_validation \<Rightarrow> metadata_validation" where
  "clear_rejections keys va = fold (\<lambda>key va. case validate_entry key JNull False of
     Inl reason \<Rightarrow> reject_key key reason va | Inr _ \<Rightarrow> va) keys va"

definition rejection_json :: "string \<times> string \<Rightarrow> json" where
  "rejection_json = (\<lambda>(key, reason). JObj [(''key'', JStr key), (''reason'', JStr reason)])"

definition kept_rows :: "metadata_input \<Rightarrow> metadata_row list \<Rightarrow> metadata_row list" where
  "kept_rows i before' = filter (\<lambda>r. md_source r \<noteq> mi_source i
     \<or> (\<not> mi_replace i \<and> md_key r \<notin> set (mi_clear i))) before'"

definition validate_write :: "metadata_input \<Rightarrow> metadata_row list \<Rightarrow> metadata_validation" where
  "validate_write i before' = clear_rejections (js_set_of (mi_clear i))
     (validate_session_metadata (or_default (mi_set i) (JObj [])) (map md_key (kept_rows i before')) True)"

text \<open>The values the source is to hold: its rows that are kept, and the admitted ones.\<close>

definition desired_values :: "metadata_input \<Rightarrow> metadata_row list \<Rightarrow> json_object \<Rightarrow> json_object" where
  "desired_values i before' values = fold (\<lambda>(k, v). map_set k v) values
     (map (\<lambda>r. (md_key r, md_value r)) (filter (\<lambda>r. md_source r = mi_source i
        \<and> \<not> mi_replace i \<and> md_key r \<notin> set (mi_clear i)) before'))"

definition same_row :: "metadata_input \<Rightarrow> string \<Rightarrow> metadata_row \<Rightarrow> bool" where
  "same_row i key r = (md_scope r = mi_scope i \<and> md_lane r = mi_lane i \<and> md_key r = key \<and> md_source r = mi_source i)"

definition upsert_row :: "metadata_input \<Rightarrow> string \<Rightarrow> json \<Rightarrow> metadata_row list \<Rightarrow> metadata_row list" where
  "upsert_row i key v rows =
     (let by' = truncate_updated_by (mi_updated_by i) in
      if list_ex (same_row i key) rows
      then map (\<lambda>r. if same_row i key r
        then r\<lparr>md_value := v, md_updated_at := mi_now i, md_updated_by := by'\<rparr> else r) rows
      else rows @ [\<lparr>md_scope = mi_scope i, md_lane = mi_lane i, md_key = key, md_source = mi_source i,
        md_value = v, md_updated_at = mi_now i, md_updated_by = by'\<rparr>])"

definition delete_missing ::
  "metadata_input \<Rightarrow> metadata_row list \<Rightarrow> json_object \<Rightarrow> metadata_row list \<Rightarrow> metadata_row list \<times> (string \<times> string) list" where
  "delete_missing i before' desired rows =
     (let gone = filter (\<lambda>r. md_source r = mi_source i \<and> jget desired (md_key r) = None) before' in
      (fold (\<lambda>r rows. filter (\<lambda>r'. \<not> same_row i (md_key r) r') rows) gone rows,
       map (\<lambda>r. (md_key r, ''clear'')) gone))"

definition stored_value :: "metadata_input \<Rightarrow> metadata_row list \<Rightarrow> string \<Rightarrow> json option" where
  "stored_value i before' key =
     map_option md_value (List.find (\<lambda>r. md_key r = key \<and> md_source r = mi_source i) before')"

definition write_desired ::
  "metadata_input \<Rightarrow> metadata_row list \<Rightarrow> json_object \<Rightarrow> metadata_row list \<Rightarrow> metadata_row list \<times> (string \<times> string) list" where
  "write_desired i before' desired rows =
     (let fresh = filter (\<lambda>(k, v). stored_value i before' k \<noteq> Some v) desired in
      (fold (\<lambda>(k, v). upsert_row i k v) fresh rows, map (\<lambda>(k, _). (k, ''set'')) fresh))"

definition changed_payload ::
  "(string \<Rightarrow> string) \<Rightarrow> metadata_input \<Rightarrow> metadata_row list \<Rightarrow> string \<times> string \<Rightarrow> json" where
  "changed_payload norm i after' = (\<lambda>(key, op). JObj
     [(''scopeRef'', JStr (mi_scope i)), (''laneRef'', JStr (canonical_lane_ref norm (mi_lane i))),
      (''key'', JStr key), (''op'', JStr op), (''source'', JStr (source_name (mi_source i))),
      (''resolved'', case List.find (\<lambda>r. md_key r = key) after' of None \<Rightarrow> JNull
         | Some r \<Rightarrow> JObj [(''value'', md_value r), (''source'', JStr (source_name (md_source r)))])])"

definition metadata_event :: "metadata_input \<Rightarrow> string \<Rightarrow> int \<Rightarrow> string \<Rightarrow> json \<Rightarrow> ledger_row" where
  "metadata_event i host generation kind payload =
     \<lparr>hr_hrc_seq = 0, hr_stream_seq = 0, hr_source_ref = None, hr_origin_seq = None, hr_ts = mi_now i,
      hr_host_session_id = host, hr_scope_ref = mi_scope i, hr_lane_ref = mi_lane i,
      hr_generation = generation, hr_runtime_id = None, hr_run_id = None, hr_launch_id = None,
      hr_app_id = None, hr_app_session_key = None, hr_category = ''session'', hr_event_kind = kind,
      hr_transport = None, hr_error_code = None, hr_replayed = False, hr_evidence_origin = None,
      hr_payload = payload\<rparr>"

text \<open>
  The write, in one immediate transaction: an exception leaves the database as it was. A continuity
  whose session row is missing makes the first event throw.
\<close>

definition metadata_write :: "(string \<Rightarrow> string) \<Rightarrow> metadata_input \<Rightarrow> metadata_db \<Rightarrow>
    metadata_db \<times> ((json_object \<times> (string \<times> resolved_source) list) \<times> (string \<times> string) list) result" where
  "metadata_write norm i db =
     (case map_of (map (\<lambda>(s, l, h). ((s, l), h)) (mb_continuities db)) (mi_scope i, mi_lane i) of
        None \<Rightarrow> (db, Inl (domain_error ''unknown_host_session'' ''unknown continuity''
          [(''scopeRef'', JStr (mi_scope i)), (''laneRef'', JStr (mi_lane i))]))
      | Some host \<Rightarrow>
          (let before' = continuity_rows (mi_scope i) (mi_lane i) db;
               va = validate_write i before' in
           if mi_source i = From_Api \<and> va_rejected va \<noteq> []
           then (db, Inl (domain_error ''malformed_request'' ''invalid session metadata''
             [(''rejected'', JArr (map rejection_json (va_rejected va)))]))
           else
             (let desired = desired_values i before' (va_values va);
                  (rows1, cleared) = delete_missing i before' desired (mb_rows db);
                  (rows2, set') = write_desired i before' desired rows1;
                  db' = db\<lparr>mb_rows := rows2\<rparr>;
                  changed = cleared @ set' in
              case metadata_get (mi_scope i) (mi_lane i) db' of
                Inl e \<Rightarrow> (db, Inl e)
              | Inr resolved \<Rightarrow>
                  (let after' = continuity_rows (mi_scope i) (mi_lane i) db';
                       payloads = map (\<lambda>c. (''session.metadata.changed'', changed_payload norm i after' c)) changed
                         @ map (\<lambda>r. (''session.metadata.rejected'', rejection_json r)) (va_rejected va) in
                   case map_of (mb_generations db) host of
                     None \<Rightarrow> if payloads = [] then (db', Inr (resolved, va_rejected va)) else (db, Inl type_error)
                   | Some generation \<Rightarrow>
                       (db'\<lparr>mb_ledger := fold (\<lambda>(kind, payload) l.
                            snd (append_persisted (metadata_event i host generation kind payload) l)) payloads (mb_ledger db)\<rparr>,
                        Inr (resolved, va_rejected va))))))"

end
