(* ===== verification/Metadata_Keys.thy ===== *)
theory Metadata_Keys
  imports Session_Metadata
begin

text \<open>
  The algebra of session metadata keys: dotted keys as paths, the leaves of a nested object, what
  nesting adds and flattening finds again, and what validation against held keys keeps.
\<close>

section \<open>Dotted keys as paths\<close>

fun dotted :: "string list \<Rightarrow> string" where
  "dotted [] = []"
| "dotted [s] = s"
| "dotted (s # t # r) = s @ CHR ''.'' # dotted (t # r)"

abbreviation segments :: "string \<Rightarrow> string list" where
  "segments key \<equiv> js_split CHR ''.'' key"

lemma js_split_append_any: "js_split sep (a @ sep # b) = js_split sep a @ js_split sep b"
  by (induction a) (auto split: list.splits)

lemma dotted_segments [simp]: "dotted (segments key) = key"
proof (induction key)
  case (Cons c key)
  obtain w ws where w: "segments key = w # ws" by (cases "segments key") auto
  then show ?case using Cons by (cases ws) auto
qed simp

lemma segments_no_dot: "s \<in> set (segments key) \<Longrightarrow> CHR ''.'' \<notin> set s"
proof (induction key arbitrary: s)
  case (Cons c key)
  obtain w ws where w: "segments key = w # ws" by (cases "segments key") auto
  then show ?case using Cons by (auto split: if_splits)
qed simp

lemma segments_dotted: "p \<noteq> [] \<Longrightarrow> (\<And>s. s \<in> set p \<Longrightarrow> CHR ''.'' \<notin> set s) \<Longrightarrow> segments (dotted p) = p"
  by (induction p rule: dotted.induct) (auto simp: js_split_no_sep js_split_append)

lemma dotted_append: "p \<noteq> [] \<Longrightarrow> q \<noteq> [] \<Longrightarrow> dotted (p @ q) = dotted p @ CHR ''.'' # dotted q"
  by (induction p rule: dotted.induct) (auto simp: neq_Nil_conv)

lemma key_below_iff: "key_below key held \<longleftrightarrow> strict_prefix (segments held) (segments key)"
proof
  assume "key_below key held"
  then obtain t where "key = held @ CHR ''.'' # t" by (auto simp: key_below_def starts_with_iff)
  then have "segments key = segments held @ segments t" by (simp add: js_split_append_any)
  then show "strict_prefix (segments held) (segments key)" by (auto simp: strict_prefix_def)
next
  assume "strict_prefix (segments held) (segments key)"
  then obtain c where c: "segments key = segments held @ c" "c \<noteq> []" by (auto elim: strict_prefixE' prefixE simp: strict_prefix_def)
  then have "key = held @ CHR ''.'' # dotted c"
    using dotted_append [of "segments held" c] dotted_segments [of key] by simp
  then show "key_below key held" by (simp add: key_below_def starts_with_iff)
qed

text \<open>Paths that name neither the same leaf nor an object above the other.\<close>

definition apart :: "string list \<Rightarrow> string list \<Rightarrow> bool" where
  "apart p q = (\<not> prefix p q \<and> \<not> prefix q p)"

lemma apart_Cons [simp]: "apart (a # p) (b # q) \<longleftrightarrow> a \<noteq> b \<or> apart p q"
  by (auto simp: apart_def)

lemma apart_Nil [simp]: "\<not> apart [] q" "\<not> apart p []"
  by (simp_all add: apart_def)

lemma apart_append [simp]: "apart (r @ p) (r @ q) \<longleftrightarrow> apart p q"
  by (simp add: apart_def)

lemma apart_sym: "apart p q \<longleftrightarrow> apart q p"
  by (auto simp: apart_def)

lemma no_leaf_collision:
  "leaf_collision key held = None \<longleftrightarrow> (\<forall>h \<in> set held. apart (segments key) (segments h))"
proof -
  have "h = key \<or> key_below h key \<or> key_below key h \<longleftrightarrow> \<not> apart (segments key) (segments h)" for h
    unfolding key_below_iff apart_def by (metis dotted_segments prefix_order.le_less)
  then show ?thesis by (auto simp: leaf_collision_def find_None_iff)
qed

lemma no_held_collision:
  "held_collision key held = None \<longleftrightarrow> (\<forall>h \<in> set held. h = key \<or> apart (segments key) (segments h))"
proof -
  have "h \<noteq> key \<and> (key_below h key \<or> key_below key h) \<longleftrightarrow> \<not> (h = key \<or> apart (segments key) (segments h))" for h
    unfolding key_below_iff apart_def by (metis dotted_segments prefix_order.le_less prefix_order.less_irrefl)
  then show ?thesis by (auto simp: held_collision_def find_None_iff)
qed

section \<open>The leaves of a nested object\<close>

fun leaf_paths :: "json_object \<Rightarrow> (string list \<times> json) list" where
  "leaf_paths [] = []"
| "leaf_paths ((k, JObj sub) # ob) = map (\<lambda>(p, v). (k # p, v)) (leaf_paths sub) @ leaf_paths ob"
| "leaf_paths ((k, v) # ob) = ([k], v) # leaf_paths ob"

fun tree_ok :: "json_object \<Rightarrow> bool" where
  "tree_ok [] = True"
| "tree_ok ((k, JObj sub) # ob) = (sub \<noteq> [] \<and> tree_ok sub \<and> jget ob k = None \<and> tree_ok ob)"
| "tree_ok ((k, v) # ob) = (jget ob k = None \<and> tree_ok ob)"

fun is_object :: "json \<Rightarrow> bool" where
  "is_object (JObj ob) = True"
| "is_object _ = False"

lemma leaf_paths_not_Nil: "p \<in> fst ` set (leaf_paths ob) \<Longrightarrow> p \<noteq> []"
  by (induction ob rule: leaf_paths.induct) auto

lemma tree_ok_Cons: "tree_ok ((k, v) # ob) \<longleftrightarrow> jget ob k = None \<and> tree_ok ob
    \<and> (case v of JObj sub \<Rightarrow> sub \<noteq> [] \<and> tree_ok sub | _ \<Rightarrow> True)"
  by (cases v) auto

lemma leaf_paths_exist: "ob \<noteq> [] \<Longrightarrow> tree_ok ob \<Longrightarrow> leaf_paths ob \<noteq> []"
  by (induction ob rule: leaf_paths.induct) auto

lemma leaf_paths_Cons: "leaf_paths ((k, v) # ob) =
    (case v of JObj sub \<Rightarrow> map (\<lambda>(p, v). (k # p, v)) (leaf_paths sub) | _ \<Rightarrow> [([k], v)]) @ leaf_paths ob"
  by (cases v) auto

lemma leaf_paths_leaf: "jget ob k = Some v \<Longrightarrow> \<not> is_object v \<Longrightarrow> ([k], v) \<in> set (leaf_paths ob)"
  by (induction ob) (auto simp: leaf_paths_Cons split: if_splits json.split)

lemma leaf_paths_absent: "(k # p, v) \<in> set (leaf_paths ob) \<Longrightarrow> jget ob k \<noteq> None"
  by (induction ob) (auto simp: leaf_paths_Cons split: json.splits)

lemma leaf_paths_hd: "(p, v) \<in> set (leaf_paths ob) \<Longrightarrow> \<exists>k q. p = k # q \<and> jget ob k \<noteq> None"
  using leaf_paths_not_Nil [of p ob] leaf_paths_absent [of "hd p" "tl p" v ob]
  by (cases p) (force simp: image_iff)+

lemma jget_map_set [simp]: "jget (map_set k v ob) k' = (if k' = k then Some v else jget ob k')"
  by (simp add: jget_def)

lemma map_set_not_Nil [simp]: "map_set k v ob \<noteq> []"
  by (cases ob) (simp, case_tac a, simp)

lemma tree_ok_map_set:
  "tree_ok ob \<Longrightarrow> (case v of JObj sub \<Rightarrow> sub \<noteq> [] \<and> tree_ok sub | _ \<Rightarrow> True) \<Longrightarrow> tree_ok (map_set k v ob)"
  by (induction k v ob rule: map_set.induct) (auto simp: tree_ok_Cons)

definition below :: "string \<Rightarrow> json \<Rightarrow> (string list \<times> json) set" where
  "below k v = (case v of JObj sub \<Rightarrow> (\<lambda>(p, v). (k # p, v)) ` set (leaf_paths sub) | _ \<Rightarrow> {([k], v)})"

lemma set_leaf_paths_Cons: "set (leaf_paths ((k, v) # ob)) = below k v \<union> set (leaf_paths ob)"
  by (auto simp: leaf_paths_Cons below_def split: json.splits)

lemma below_hd: "x \<in> below k w \<Longrightarrow> hd (fst x) = k"
  by (auto simp: below_def split: json.splits)

lemma below_parts:
  "{x \<in> below k w \<union> S. hd (fst x) = k'} = (if k = k' then below k w else {}) \<union> {x \<in> S. hd (fst x) = k'}"
  "{x \<in> below k w \<union> S. hd (fst x) \<noteq> k'} = (if k = k' then {} else below k w) \<union> {x \<in> S. hd (fst x) \<noteq> k'}"
  using below_hd by auto

lemma no_leaf_at: "jget ob k = None \<Longrightarrow> x \<in> set (leaf_paths ob) \<Longrightarrow> hd (fst x) \<noteq> k"
  using leaf_paths_hd [of "fst x" "snd x" ob] by force

lemma leaf_paths_map_set:
  "tree_ok ob \<Longrightarrow> set (leaf_paths (map_set k v ob)) = below k v \<union> {x \<in> set (leaf_paths ob). hd (fst x) \<noteq> k}"
proof (induction k v ob rule: map_set.induct)
  case (1 k v)
  show ?case by (simp add: set_leaf_paths_Cons)
next
  case (2 k v k' v' kvs)
  have ok: "jget kvs k' = None" "tree_ok kvs" using "2.prems" by (simp_all add: tree_ok_Cons)
  have "{x \<in> set (leaf_paths kvs). hd (fst x) \<noteq> k'} = set (leaf_paths kvs)"
    using no_leaf_at [OF ok(1)] by blast
  then show ?case
    using "2.IH" [OF _ ok(2)] 
    by (cases "k' = k") (simp_all add: set_leaf_paths_Cons below_parts Un_left_commute del: Un_iff)
qed

lemma leaf_paths_key:
  "tree_ok ob \<Longrightarrow> jget ob k = Some v \<Longrightarrow> {x \<in> set (leaf_paths ob). hd (fst x) = k} = below k v"
proof (induction ob)
  case (Cons kv ob)
  obtain k' v' where kv: "kv = (k', v')" by (cases kv)
  have ok: "jget ob k' = None" "tree_ok ob" using Cons.prems by (simp_all add: kv tree_ok_Cons)
  show ?case
  proof (cases "k' = k")
    case True
    then show ?thesis
      using Cons.prems(2) no_leaf_at [OF ok(1)] unfolding kv set_leaf_paths_Cons below_parts by auto
  next
    case False
    then show ?thesis
      using Cons.IH [OF ok(2)] Cons.prems(2) unfolding kv set_leaf_paths_Cons below_parts by simp
  qed
qed simp

definition sub_object :: "json_object \<Rightarrow> string \<Rightarrow> json_object" where
  "sub_object ob k = (case jget ob k of Some (JObj sub) \<Rightarrow> sub | _ \<Rightarrow> [])"

lemma tree_ok_jget: "tree_ok ob \<Longrightarrow> jget ob k = Some (JObj sub) \<Longrightarrow> tree_ok sub"
  by (induction ob) (auto simp: tree_ok_Cons split: if_splits)

lemma tree_ok_sub: "tree_ok ob \<Longrightarrow> tree_ok (sub_object ob k)"
  using tree_ok_jget [of ob k] by (auto simp: sub_object_def split: option.split json.split)

lemma not_object_iff: "\<not> is_object v \<longleftrightarrow> (\<forall>sub. v \<noteq> JObj sub)"
  by (cases v) auto

lemma put_path_sub:
  assumes "\<And>w. jget ob k = Some w \<Longrightarrow> is_object w"
  shows "put_path (k # q # p) v ob = then_do (put_path (q # p) v (sub_object ob k)) (\<lambda>sub. Inr (map_set k (JObj sub) ob))"
  using assms by (auto simp: sub_object_def split: option.split json.split)

lemma leaf_paths_sub:
  assumes "tree_ok ob" "\<And>w. jget ob k = Some w \<Longrightarrow> is_object w"
  shows "{x \<in> set (leaf_paths ob). hd (fst x) = k} = below k (JObj (sub_object ob k))"
proof (cases "jget ob k")
  case None
  then have "{x \<in> set (leaf_paths ob). hd (fst x) = k} = {}"
    using no_leaf_at by blast
  with None show ?thesis by (simp add: below_def sub_object_def)
next
  case (Some w)
  then obtain sub where "w = JObj sub" using assms(2) not_object_iff by blast
  with Some leaf_paths_key [OF assms(1) Some] show ?thesis by (simp add: sub_object_def)
qed

lemma put_path_adds:
  assumes "p \<noteq> []" "tree_ok ob" "\<And>q w. (q, w) \<in> set (leaf_paths ob) \<Longrightarrow> apart p q" "\<not> is_object v"
  shows "\<exists>ob'. put_path p v ob = Inr ob' \<and> tree_ok ob' \<and> ob' \<noteq> []
    \<and> set (leaf_paths ob') = insert (p, v) (set (leaf_paths ob))"
  using assms
proof (induction p arbitrary: ob)
  case (Cons k p)
  show ?case
  proof (cases p)
    case Nil
    have leaf: "below k v = {([k], v)}" using Cons.prems(4) by (cases v) (auto simp: below_def)
    have "hd (fst x) \<noteq> k" if x: "x \<in> set (leaf_paths ob)" for x
      using leaf_paths_hd [of "fst x" "snd x"] Cons.prems(3) [of "fst x" "snd x"] x Nil by force
    then have "{x \<in> set (leaf_paths ob). hd (fst x) \<noteq> k} = set (leaf_paths ob)" by blast
    then have "set (leaf_paths (map_set k v ob)) = insert ([k], v) (set (leaf_paths ob))"
      using leaf_paths_map_set [OF Cons.prems(2), of k v] leaf by simp
    moreover have "tree_ok (map_set k v ob)"
      using Cons.prems(2,4) by (intro tree_ok_map_set) (cases v; simp)+
    ultimately show ?thesis using Nil by simp
  next
    case (Cons q ps)
    have shape: "is_object w" if "jget ob k = Some w" for w
      using leaf_paths_leaf [OF that] Cons.prems(3) [of "[k]" w] Cons by auto
    note subs = leaf_paths_sub [OF Cons.prems(2) shape]
    have "apart p r" if "(r, w) \<in> set (leaf_paths (sub_object ob k))" for r w
    proof -
      have "(k # r, w) \<in> set (leaf_paths ob)" using that subs by (force simp: below_def)
      then show ?thesis using Cons.prems(3) by force
    qed
    then obtain sub where sub: "put_path p v (sub_object ob k) = Inr sub" "tree_ok sub" "sub \<noteq> []"
        "set (leaf_paths sub) = insert (p, v) (set (leaf_paths (sub_object ob k)))"
      using Cons.IH [of "sub_object ob k"] tree_ok_sub [OF Cons.prems(2)] Cons.prems(4) Cons by blast
    have "set (leaf_paths (map_set k (JObj sub) ob))
        = below k (JObj sub) \<union> {x \<in> set (leaf_paths ob). hd (fst x) \<noteq> k}"
      by (rule leaf_paths_map_set [OF Cons.prems(2)])
    also have "below k (JObj sub) = insert (k # p, v) {x \<in> set (leaf_paths ob). hd (fst x) = k}"
      by (simp add: subs) (simp add: below_def sub(4))
    finally have "set (leaf_paths (map_set k (JObj sub) ob)) = insert (k # p, v) (set (leaf_paths ob))" by auto
    moreover have "put_path (k # p) v ob = Inr (map_set k (JObj sub) ob)"
      using put_path_sub [OF shape] sub(1) Cons by simp
    ultimately show ?thesis using sub(2,3) tree_ok_map_set [OF Cons.prems(2), of "JObj sub" k] by simp
  qed
qed simp

abbreviation key_apart :: "string \<Rightarrow> string \<Rightarrow> bool" where
  "key_apart k h \<equiv> apart (segments k) (segments h)"

definition as_leaf :: "string \<times> json \<Rightarrow> string list \<times> json" where
  "as_leaf kv = (segments (fst kv), snd kv)"

lemma nest_adds:
  assumes "sorted_wrt key_apart (map fst kvs)" "\<And>kv. kv \<in> set kvs \<Longrightarrow> \<not> is_object (snd kv)" "tree_ok ob"
    "\<And>kv x. kv \<in> set kvs \<Longrightarrow> x \<in> set (leaf_paths ob) \<Longrightarrow> apart (segments (fst kv)) (fst x)"
  shows "\<exists>ob'. nest_session_metadata kvs ob = Inr ob' \<and> tree_ok ob'
    \<and> set (leaf_paths ob') = as_leaf ` set kvs \<union> set (leaf_paths ob)"
  using assms
proof (induction kvs arbitrary: ob)
  case (Cons kv kvs)
  obtain k v where kv: "kv = (k, v)" by (cases kv)
  have v: "\<not> is_object v" and free: "\<And>x. x \<in> set (leaf_paths ob) \<Longrightarrow> apart (segments k) (fst x)"
    using Cons.prems(2,4) kv by force+
  obtain ob1 where ob1: "put_path (segments k) v ob = Inr ob1" "tree_ok ob1"
      "set (leaf_paths ob1) = insert (segments k, v) (set (leaf_paths ob))"
    using put_path_adds [OF js_split_not_Nil Cons.prems(3) _ v, of "CHR ''.''" k] free by force
  have "apart (segments (fst kv')) (fst x)" if h: "kv' \<in> set kvs" "x \<in> set (leaf_paths ob1)" for kv' x
    using h Cons.prems(1) Cons.prems(4) [of kv' x] by (auto simp: ob1(3) kv apart_sym [of "segments k"])
  then obtain ob' where "nest_session_metadata kvs ob1 = Inr ob'" "tree_ok ob'"
      "set (leaf_paths ob') = as_leaf ` set kvs \<union> set (leaf_paths ob1)"
    using Cons.IH [of ob1] Cons.prems(1,2) ob1(2) by (auto simp: kv)
  then show ?case using ob1 by (auto simp: kv as_leaf_def)
qed simp

section \<open>Valid keys and entries\<close>

definition valid_key :: "string \<Rightarrow> bool" where
  "valid_key key = (key_pattern key \<and> utf8_length key \<le> metadata_key_max_bytes)"

definition valid_entry :: "string \<Rightarrow> json \<Rightarrow> bool" where
  "valid_entry key v = (valid_key key \<and> storable v \<and> utf8_length (json_stringify v) \<le> metadata_value_max_bytes)"

lemma utf8_length_Cons [simp]: "utf8_length (c # s) = (if (of_char c :: nat) < 128 then 1 else 2) + utf8_length s"
  by (simp add: utf8_length_def)

lemma utf8_length_Nil [simp]: "utf8_length [] = 0"
  by (simp add: utf8_length_def)

lemma null_entry: "validate_entry key JNull False = (if valid_key key then Inr JNull else Inl key_reason)"
  by (simp add: validate_entry_def valid_key_def metadata_value_max_bytes_def)

lemma unregistered_entry: "validate_entry key v False = Inr kept \<longleftrightarrow> valid_entry key v \<and> kept = v"
  by (auto simp: validate_entry_def valid_entry_def valid_key_def split: json.split)

lemma storable_not_object: "storable v \<Longrightarrow> \<not> is_object v"
  by (cases v) auto

lemma valid_key_segments: "valid_key key \<Longrightarrow> s \<in> set (segments key) \<Longrightarrow> s \<noteq> []"
  by (auto simp: valid_key_def key_pattern_def Let_def list_all_iff key_segment_def)

lemma utf8_dotted: "p \<noteq> [] \<Longrightarrow> utf8_length (dotted p) \<le> utf8_length (dotted (p @ q))"
  by (cases "q = []") (simp_all add: dotted_append)

lemma valid_key_prefix:
  assumes "valid_key (dotted (p @ q))" "p \<noteq> []" "segments (dotted (p @ q)) = p @ q"
  shows "valid_key (dotted p)" "segments (dotted p) = p"
proof -
  show s: "segments (dotted p) = p"
    using assms(2,3) segments_no_dot [of _ "dotted (p @ q)"] by (intro segments_dotted) auto
  show "valid_key (dotted p)"
    using assms utf8_dotted [OF assms(2), of q] by (auto simp: valid_key_def key_pattern_def Let_def s)
qed

section \<open>Flattening what was nested\<close>

definition leaves :: "json \<Rightarrow> (string list \<times> json) list" where
  "leaves v = (case v of JObj ob \<Rightarrow> leaf_paths ob | _ \<Rightarrow> [([], v)])"

definition tree_value :: "json \<Rightarrow> bool" where
  "tree_value v = (case v of JObj ob \<Rightarrow> ob \<noteq> [] \<and> tree_ok ob | _ \<Rightarrow> True)"

definition keyed :: "string list \<Rightarrow> string list \<times> json \<Rightarrow> string \<times> json" where
  "keyed pre x = (dotted (pre @ fst x), snd x)"

text \<open>The leaves under a path are valid entries, apart from the keys already kept.\<close>

definition admissible :: "string list \<Rightarrow> (string list \<times> json) list \<Rightarrow> metadata_validation \<Rightarrow> bool" where
  "admissible pre ls va = (\<forall>x \<in> set ls. valid_entry (dotted (pre @ fst x)) (snd x)
     \<and> segments (dotted (pre @ fst x)) = pre @ fst x
     \<and> (\<forall>h \<in> fst ` set (va_values va). apart (pre @ fst x) (segments h)))"

definition keep_all :: "(string \<times> json) list \<Rightarrow> metadata_validation \<Rightarrow> metadata_validation" where
  "keep_all kvs va = va\<lparr>va_values := va_values va @ kvs\<rparr>"

lemma map_set_fresh: "k \<notin> fst ` set kvs \<Longrightarrow> map_set k v kvs = kvs @ [(k, v)]"
  by (induction k v kvs rule: map_set.induct) auto

lemma visit_leaf_keeps:
  assumes "valid_entry key v" "\<And>h. h \<in> fst ` set (va_values va) \<Longrightarrow> key_apart key h"
  shows "visit_leaf key v va = keep_all [(key, v)] va"
proof -
  have "validate_entry key v False = Inr v" using assms(1) unregistered_entry by blast
  moreover have "leaf_collision key (map fst (va_values va)) = None"
    using assms(2) by (auto simp: no_leaf_collision)
  moreover have "key \<notin> fst ` set (va_values va)"
    using assms(2) [of key] by (auto simp: apart_def)
  ultimately show ?thesis by (simp add: visit_leaf_def keep_value_def keep_all_def map_set_fresh)
qed

lemma leaves_simps [simp]:
  "leaves (JObj ob) = leaf_paths ob" "\<not> is_object v \<Longrightarrow> leaves v = [([], v)]"
  by (simp_all add: leaves_def not_object_iff split: json.split)

lemma tree_value_simps [simp]:
  "tree_value (JObj ob) \<longleftrightarrow> ob \<noteq> [] \<and> tree_ok ob" "\<not> is_object v \<Longrightarrow> tree_value v"
  by (simp_all add: tree_value_def not_object_iff split: json.split)

definition under :: "string \<Rightarrow> string list \<times> json \<Rightarrow> string list \<times> json" where
  "under k x = (k # fst x, snd x)"

lemma leaf_paths_children: "leaf_paths ((k, v) # ob) = map (under k) (leaves v) @ leaf_paths ob"
  by (cases v) (auto simp: under_def)

lemma tree_children: "tree_ok ((k, v) # ob) \<longleftrightarrow> jget ob k = None \<and> tree_ok ob \<and> tree_value v"
  by (simp add: tree_ok_Cons tree_value_def)

lemma leaves_exist: "tree_value v \<Longrightarrow> leaves v \<noteq> []"
  by (cases v) (auto simp: leaf_paths_exist)

lemma keyed_under [simp]: "keyed pre (under k x) = keyed (pre @ [k]) x"
  by (simp add: keyed_def under_def)

lemma admissible_under: "admissible pre (map (under k) ls) va \<longleftrightarrow> admissible (pre @ [k]) ls va"
  by (simp add: admissible_def under_def)

lemma admissible_append: "admissible pre (xs @ ys) va \<longleftrightarrow> admissible pre xs va \<and> admissible pre ys va"
  by (auto simp: admissible_def)

lemma admissible_after:
  assumes "admissible pre ls va" "admissible pre kept va"
    and "\<And>x y. x \<in> set ls \<Longrightarrow> y \<in> set kept \<Longrightarrow> apart (fst x) (fst y)"
  shows "admissible pre ls (keep_all (map (keyed pre) kept) va)"
  using assms by (auto simp: admissible_def keep_all_def keyed_def image_Un image_image)

lemma admissible_key:
  assumes "admissible pre ls va" "ls \<noteq> []" "pre \<noteq> []"
  shows "valid_key (dotted pre)" "segments (dotted pre) = pre" "dotted pre \<noteq> []"
proof -
  obtain x where x: "x \<in> set ls" using assms(2) by (cases ls) auto
  have v: "valid_key (dotted (pre @ fst x))" "segments (dotted (pre @ fst x)) = pre @ fst x"
    using assms(1) x by (auto simp: admissible_def valid_entry_def)
  show k: "valid_key (dotted pre)" and s: "segments (dotted pre) = pre"
    using valid_key_prefix [OF v(1) assms(3) v(2)] .
  show "dotted pre \<noteq> []"
    using valid_key_segments [OF k] s assms(3) by (cases pre) (auto dest: arg_cong [of _ _ length])
qed

lemma dotted_child: "dotted pre \<noteq> [] \<or> pre = [] \<Longrightarrow> child_key (dotted pre) k = dotted (pre @ [k])"
  by (cases "pre = []") (auto simp: child_key_def dotted_append)

lemma keep_all_append: "keep_all ys (keep_all xs va) = keep_all (xs @ ys) va"
  by (simp add: keep_all_def)

lemma visit_keeps:
  "tree_value v \<Longrightarrow> pre \<noteq> [] \<Longrightarrow> key = dotted pre \<Longrightarrow> admissible pre (leaves v) va
    \<Longrightarrow> visit key v va = keep_all (map (keyed pre) (leaves v)) va"
  "tree_ok ob \<Longrightarrow> dotted pre \<noteq> [] \<or> pre = [] \<Longrightarrow> key = dotted pre \<Longrightarrow> admissible pre (leaf_paths ob) va
    \<Longrightarrow> visit_entries key ob va = keep_all (map (keyed pre) (leaf_paths ob)) va"
proof (induction key v va and key ob va arbitrary: pre and pre rule: visit_visit_entries.induct)
  case (1 key v va)
  note k = admissible_key [OF "1.prems"(4) leaves_exist [OF "1.prems"(1)] "1.prems"(2)]
  have key: "validate_entry key JNull False = Inr JNull" using k(1) "1.prems"(3) by (simp add: null_entry)
  have eq: "visit (dotted pre) v va = (case v of JObj ob \<Rightarrow> visit_entries (dotted pre) ob va
      | _ \<Rightarrow> visit_leaf (dotted pre) v va)" for v
    using key "1.prems"(3) by (simp add: visit.simps [of "dotted pre"])
  show ?case
  proof (cases "is_object v")
    case True
    then obtain ob where ob: "v = JObj ob" using not_object_iff by blast
    then show ?thesis
      using "1.IH" [OF key ob, of pre] "1.prems" k(3) by (simp add: eq)
  next
    case False
    have "visit_leaf key v va = keep_all [(key, v)] va"
      using "1.prems"(3,4) False k(2) by (intro visit_leaf_keeps) (auto simp: admissible_def)
    then show ?thesis
      using "1.prems"(3) False by (cases v) (simp_all add: eq keyed_def)
  qed
next
  case (2 key va)
  show ?case by (simp add: keep_all_def)
next
  case (3 key child v ob va)
  have ok: "jget ob child = None" "tree_ok ob" "tree_value v" using "3.prems"(1) by (simp_all add: tree_children)
  have adm: "admissible (pre @ [child]) (leaves v) va" "admissible pre (leaf_paths ob) va"
      "admissible pre (map (under child) (leaves v)) va"
    using "3.prems"(4) by (simp_all add: leaf_paths_children admissible_append admissible_under)
  have "apart (fst x) (fst y)" if h: "x \<in> set (leaf_paths ob)" "y \<in> set (map (under child) (leaves v))" for x y
    using leaf_paths_hd [of "fst x" "snd x" ob] h ok(1) by (force simp: under_def)
  note rest = admissible_after [OF adm(2,3) this]
  have "visit (child_key key child) v va = keep_all (map (keyed pre) (map (under child) (leaves v))) va"
    using "3.IH"(1) [OF ok(3) _ _ adm(1)] dotted_child [OF "3.prems"(2), of child] "3.prems"(3) by (simp add: comp_def)
  then show ?case
    using "3.IH"(2) [OF ok(2) "3.prems"(2,3)] rest by (simp add: leaf_paths_children keep_all_append)
qed

section \<open>What flattening keeps\<close>

definition sound_values :: "json_object \<Rightarrow> bool" where
  "sound_values kvs = ((\<forall>kv \<in> set kvs. valid_entry (fst kv) (snd kv)) \<and> sorted_wrt key_apart (map fst kvs))"

lemma sound_values_distinct: "sound_values kvs \<Longrightarrow> distinct (map fst kvs)"
  by (auto simp: sound_values_def distinct_conv_nth sorted_wrt_iff_nth_less nat_neq_iff) (metis apart_def prefix_order.order_refl)+

lemma sound_values_add:
  assumes "sound_values kvs" "valid_entry k v" "\<And>h. h \<in> fst ` set kvs \<Longrightarrow> key_apart k h"
  shows "sound_values (map_set k v kvs)"
proof -
  have "k \<notin> fst ` set kvs" using assms(3) [of k] by (auto simp: apart_def)
  then show ?thesis
    using assms by (auto simp: map_set_fresh sound_values_def sorted_wrt_append apart_sym)
qed

lemma visit_leaf_sound: "sound_values (va_values va) \<Longrightarrow> sound_values (va_values (visit_leaf key v va))"
  by (auto simp: visit_leaf_def reject_key_def keep_value_def no_leaf_collision unregistered_entry
      intro!: sound_values_add split: sum.split option.split)

lemma visit_sound:
  "sound_values (va_values va) \<Longrightarrow> sound_values (va_values (visit key v va))"
  "sound_values (va_values va) \<Longrightarrow> sound_values (va_values (visit_entries key ob va))"
  by (induction key v va and key ob va rule: visit_visit_entries.induct)
    (auto simp: visit.simps reject_key_def visit_leaf_sound split: sum.split json.split)

lemma flatten_sound: "sound_values (va_values (flatten_session_metadata input))"
proof -
  have "sound_values (va_values no_metadata)" by (simp add: sound_values_def no_metadata_def)
  then show ?thesis using visit_sound(2) by (cases input) (auto simp: reject_key_def)
qed

lemma keyed_segments: "map (keyed []) ls = map (\<lambda>x. (dotted (fst x), snd x)) ls"
  by (simp add: keyed_def)

lemma nested_flattens_back:
  assumes "sound_values kvs"
  shows "\<exists>ob. nest_session_metadata kvs [] = Inr ob \<and> va_rejected (flatten_session_metadata (JObj ob)) = []
    \<and> sound_values (va_values (flatten_session_metadata (JObj ob)))
    \<and> set (va_values (flatten_session_metadata (JObj ob))) = set kvs"
proof -
  have obj: "\<not> is_object (snd kv)" if "kv \<in> set kvs" for kv
    using assms that storable_not_object by (auto simp: sound_values_def valid_entry_def)
  obtain ob where ob: "nest_session_metadata kvs [] = Inr ob" "tree_ok ob" "set (leaf_paths ob) = as_leaf ` set kvs"
    using nest_adds [of kvs "[]"] assms obj by (auto simp: sound_values_def)
  have adm: "admissible [] (leaf_paths ob) no_metadata"
    using assms by (auto simp: admissible_def ob(3) as_leaf_def sound_values_def no_metadata_def)
  have flat: "flatten_session_metadata (JObj ob) = keep_all (map (keyed []) (leaf_paths ob)) no_metadata"
    using visit_keeps(2) [OF ob(2) _ _ adm, of "[]"] by simp
  have "set (va_values (flatten_session_metadata (JObj ob))) = (\<lambda>x. (dotted (fst x), snd x)) ` as_leaf ` set kvs"
    unfolding flat by (simp add: keep_all_def no_metadata_def keyed_segments ob(3))
  then have "set (va_values (flatten_session_metadata (JObj ob))) = set kvs"
    by (simp add: image_image as_leaf_def)
  moreover have "va_rejected (flatten_session_metadata (JObj ob)) = []"
    unfolding flat by (simp add: keep_all_def no_metadata_def)
  ultimately show ?thesis using ob(1) flatten_sound by blast
qed

lemma sound_same_map:
  assumes "sound_values xs" "sound_values ys" "set xs = set ys"
  shows "map_of xs = map_of ys"
  using assms sound_values_distinct map_of_inject_set by blast

section \<open>Validation against held keys\<close>

lemma js_trim_split: "\<exists>a b. s = a @ js_trim s @ b"
proof -
  let ?d = "dropWhile is_js_space s"
  have "s = takeWhile is_js_space s @ ?d" by simp
  also have "?d = js_trim s @ rev (takeWhile is_js_space (rev ?d))"
    by (metis js_trim_def rev_append rev_rev_ident takeWhile_dropWhile_id)
  finally show ?thesis by blast
qed

lemma utf8_trim: "utf8_length (json_quote (js_trim s)) \<le> utf8_length (json_quote s)"
proof -
  obtain a b where "s = a @ js_trim s @ b" using js_trim_split by blast
  then have "utf8_length (concat (map json_escape s)) = utf8_length (concat (map json_escape a))
      + utf8_length (concat (map json_escape (js_trim s))) + utf8_length (concat (map json_escape b))"
    by (metis (no_types, lifting) add.assoc concat_append map_append utf8_length_append)
  then show ?thesis by (simp add: json_quote_def)
qed

lemma registered_entry_valid:
  assumes "validate_entry key v registered = Inr kept"
  shows "valid_entry key kept"
proof -
  have v: "valid_key key" "storable v" "utf8_length (json_stringify v) \<le> metadata_value_max_bytes"
      "kept = v \<or> (\<exists>s. v = JStr s \<and> kept = JStr (js_trim s))"
    using assms unfolding validate_entry_def valid_key_def
    by (auto split: if_splits option.splits json.splits)
  from v(4) show ?thesis
  proof
    assume "\<exists>s. v = JStr s \<and> kept = JStr (js_trim s)"
    then obtain s where "v = JStr s" "kept = JStr (js_trim s)" by blast
    with v(1,3) utf8_trim [of s] show ?thesis by (simp add: valid_entry_def)
  qed (use v in \<open>simp add: valid_entry_def\<close>)
qed

definition keys_apart :: "string set \<Rightarrow> bool" where
  "keys_apart K = (\<forall>k \<in> K. \<forall>h \<in> K. h = k \<or> key_apart k h)"

text \<open>The keys held by a continuity: apart, and within the bound.\<close>

definition held_ok :: "string set \<Rightarrow> bool" where
  "held_ok K = (finite K \<and> keys_apart K \<and> card K \<le> metadata_max_keys)"

lemma keys_apart_subset: "keys_apart K \<Longrightarrow> L \<subseteq> K \<Longrightarrow> keys_apart L"
  by (auto simp: keys_apart_def)

lemma held_ok_subset: "held_ok K \<Longrightarrow> L \<subseteq> K \<Longrightarrow> held_ok L"
  unfolding held_ok_def using keys_apart_subset [of K L] finite_subset card_mono order_trans by metis

lemma keys_apart_insert:
  "keys_apart K \<Longrightarrow> (\<And>h. h \<in> K \<Longrightarrow> h = k \<or> key_apart k h) \<Longrightarrow> keys_apart (insert k K)"
  unfolding keys_apart_def using apart_sym by (metis insert_iff)

text \<open>What an admitted entry keeps of the values and the held keys.\<close>

definition admitting :: "string set \<Rightarrow> metadata_validation \<times> string list \<Rightarrow> bool" where
  "admitting existing st = (held_ok (set (snd st)) \<and> distinct (snd st) \<and> existing \<subseteq> set (snd st)
     \<and> fst ` set (va_values (fst st)) \<subseteq> set (snd st) \<and> distinct (map fst (va_values (fst st)))
     \<and> (\<forall>kv \<in> set (va_values (fst st)). valid_entry (fst kv) (snd kv)))"

lemma distinct_map_set: "distinct (map fst kvs) \<Longrightarrow> distinct (map fst (map_set k v kvs))"
  by (simp add: map_set_keys)

lemma admit_entry_cases:
  obtains reason where "admit_entry True (k, v) (va, held) = (reject_key k reason va, held)"
  | kept where "admit_entry True (k, v) (va, held) = (keep_value k kept va, js_set_add k held)"
      "validate_entry k v True = Inr kept" "held_collision k held = None"
      "k \<in> set held \<or> length held < metadata_max_keys"
  by (cases "validate_entry k v True"; cases "held_collision k held";
      cases "k \<notin> set held \<and> length held \<ge> metadata_max_keys")
    (auto simp: admit_entry_def split: if_splits)

lemma admit_entry_keeps:
  assumes "admitting existing (va, held)"
  shows "admitting existing (admit_entry True (k, v) (va, held))"
proof (cases rule: admit_entry_cases [of k v va held])
  case (1 reason)
  show ?thesis unfolding 1 using assms by (simp add: admitting_def reject_key_def)
next
  case (2 kept)
  have "keys_apart (insert k (set held))"
    using assms 2(3) by (intro keys_apart_insert) (auto simp: admitting_def held_ok_def no_held_collision)
  moreover have "card (insert k (set held)) \<le> metadata_max_keys"
    using assms 2(4) by (auto simp: admitting_def held_ok_def card_insert_if distinct_card)
  ultimately have "held_ok (insert k (set held))" by (simp add: held_ok_def)
  moreover have "set (va_values (keep_value k kept va)) \<subseteq> insert (k, kept) (set (va_values va))"
    using set_map_set by (fastforce simp: keep_value_def)
  moreover have "distinct (map fst (va_values (keep_value k kept va)))"
    using assms by (simp add: admitting_def keep_value_def distinct_map_set)
  ultimately show ?thesis
    unfolding 2(1) using assms registered_entry_valid [OF 2(2)] by (fastforce simp: admitting_def)
qed

lemma admit_all_keeps:
  "admitting existing st \<Longrightarrow> admitting existing (fold (admit_entry True) kvs st)"
proof (induction kvs arbitrary: st)
  case (Cons kv kvs)
  then show ?case using admit_entry_keeps by (metis fold_simps(2) surj_pair)
qed simp

lemma js_set_of_props [simp]: "set (js_set_of xs) = set xs" "distinct (js_set_of xs)"
proof -
  have "set (fold js_set_add xs acc) = set xs \<union> set acc" "distinct acc \<Longrightarrow> distinct (fold js_set_add xs acc)" for acc
    by (induction xs arbitrary: acc) auto
  then show "set (js_set_of xs) = set xs" "distinct (js_set_of xs)" by (simp_all add: js_set_of_def)
qed

lemma validated_values:
  assumes "held_ok (set existing)" "va = validate_session_metadata input existing True"
  shows "distinct (map fst (va_values va))" "\<And>k v. (k, v) \<in> set (va_values va) \<Longrightarrow> valid_entry k v"
    "held_ok (fst ` set (va_values va) \<union> set existing)"
proof -
  let ?flat = "flatten_session_metadata input"
  let ?start = "(\<lparr>va_values = [], va_rejected = va_rejected ?flat\<rparr>, js_set_of existing)"
  have "admitting (set existing) ?start" using assms(1) by (simp add: admitting_def)
  from admit_all_keeps [OF this, of "va_values ?flat"]
  have st: "admitting (set existing) (fold (admit_entry True) (va_values ?flat) ?start)" .
  have va: "va = fst (fold (admit_entry True) (va_values ?flat) ?start)"
    by (simp add: assms(2) validate_session_metadata_def Let_def)
  from st show "distinct (map fst (va_values va))" by (simp add: va admitting_def)
  show "valid_entry k v" if "(k, v) \<in> set (va_values va)" for k v
    using st that unfolding va admitting_def by fastforce
  from st have "held_ok (set (snd (fold (admit_entry True) (va_values ?flat) ?start)))"
      "fst ` set (va_values va) \<union> set existing \<subseteq> set (snd (fold (admit_entry True) (va_values ?flat) ?start))"
    unfolding va admitting_def by blast+
  then show "held_ok (fst ` set (va_values va) \<union> set existing)" by (rule held_ok_subset)
qed

lemma clear_rejections_values [simp]: "va_values (clear_rejections keys va) = va_values va"
proof -
  have "va_values (fold (\<lambda>key va. case validate_entry key JNull False of
     Inl reason \<Rightarrow> reject_key key reason va | Inr _ \<Rightarrow> va) keys va) = va_values va" for va
    by (induction keys arbitrary: va) (auto simp: reject_key_def split: sum.split)
  then show ?thesis by (simp add: clear_rejections_def)
qed

end
