(* ===== verification/Metadata_Store.thy ===== *)
theory Metadata_Store
  imports Metadata_Keys
begin

text \<open>
  The store of session metadata: what a write leaves in the rows, the invariant that every write
  keeps, what a read answers, and the properties of histories of writes.
\<close>

section \<open>The rows after a write\<close>

definition row_id :: "metadata_row \<Rightarrow> string \<times> string \<times> string \<times> metadata_source" where
  "row_id r = (md_scope r, md_lane r, md_key r, md_source r)"

definition row_keys :: "string \<Rightarrow> string \<Rightarrow> metadata_row list \<Rightarrow> string set" where
  "row_keys scope lane rows = md_key ` set (rows_of scope lane rows)"

definition rows_ok :: "metadata_row list \<Rightarrow> bool" where
  "rows_ok rows = (distinct (map row_id rows) \<and> (\<forall>r \<in> set rows. valid_entry (md_key r) (md_value r))
     \<and> (\<forall>r \<in> set rows. held_ok (row_keys (md_scope r) (md_lane r) rows)))"

text \<open>The value a source holds for a key of a continuity.\<close>

definition held_value :: "string \<Rightarrow> string \<Rightarrow> metadata_source \<Rightarrow> metadata_row list \<Rightarrow> string \<Rightarrow> json option" where
  "held_value scope lane src rows k =
     map_option md_value (row_get row_id rows (scope, lane, k, src))"

lemma same_row_id: "same_row i k r \<longleftrightarrow> row_id r = (mi_scope i, mi_lane i, k, mi_source i)"
  by (auto simp: same_row_def row_id_def)

definition input_id :: "metadata_input \<Rightarrow> string \<Rightarrow> string \<times> string \<times> string \<times> metadata_source" where
  "input_id i k = (mi_scope i, mi_lane i, k, mi_source i)"

lemma same_row_iff: "same_row i k r \<longleftrightarrow> row_id r = input_id i k"
  by (auto simp: same_row_def row_id_def input_id_def)

definition written_row :: "metadata_input \<Rightarrow> json \<Rightarrow> metadata_row \<Rightarrow> metadata_row" where
  "written_row i v r = r\<lparr>md_value := v, md_updated_at := mi_now i, md_updated_by := truncate_updated_by (mi_updated_by i)\<rparr>"

definition new_row :: "metadata_input \<Rightarrow> string \<Rightarrow> json \<Rightarrow> metadata_row" where
  "new_row i k v = \<lparr>md_scope = mi_scope i, md_lane = mi_lane i, md_key = k, md_source = mi_source i,
     md_value = v, md_updated_at = mi_now i, md_updated_by = truncate_updated_by (mi_updated_by i)\<rparr>"

lemma written_row_simps [simp]:
  "row_id (written_row i v r) = row_id r" "md_value (written_row i v r) = v"
  "row_id (new_row i k v) = input_id i k" "md_value (new_row i k v) = v"
  by (simp_all add: row_id_def written_row_def new_row_def input_id_def)

lemma upsert_row_eq:
  "upsert_row i k v rows = (if input_id i k \<in> row_id ` set rows
     then row_update row_id (input_id i k) (written_row i v) rows else rows @ [new_row i k v])"
proof -
  have "list_ex (same_row i k) rows \<longleftrightarrow> input_id i k \<in> row_id ` set rows"
    by (auto simp: list_ex_iff same_row_iff intro: image_eqI [OF sym])
  then show ?thesis
    by (simp add: upsert_row_def Let_def same_row_iff row_update_def written_row_def new_row_def)
qed

lemma upsert_row_ids: "map row_id (upsert_row i k v rows) =
    (if input_id i k \<in> row_id ` set rows then map row_id rows else map row_id rows @ [input_id i k])"
  by (simp add: upsert_row_eq row_update_keys)

lemma orelse_None [simp]: "orelse a None = a"
  by (cases a) auto

lemma row_get_simps [simp]:
  "row_get key [] k = None" "row_get key (r # rows) k = (if key r = k then Some r else row_get key rows k)"
  by (simp_all add: row_get_def)

lemma upsert_row_get:
  "map_option md_value (row_get row_id (upsert_row i k v rows) x) =
    (if x = input_id i k then Some v else map_option md_value (row_get row_id rows x))"
proof (cases "input_id i k \<in> row_id ` set rows")
  case True
  then have "row_get row_id rows (input_id i k) \<noteq> None" by (simp add: row_get_None_iff)
  with True show ?thesis by (auto simp: upsert_row_eq row_get_update)
next
  case False
  then have "row_get row_id rows (input_id i k) = None" by (simp add: row_get_None_iff)
  with False show ?thesis by (auto simp: upsert_row_eq row_get_append)
qed

text \<open>The rows as a map: what every identity holds.\<close>

definition values_at :: "metadata_row list \<Rightarrow> (string \<times> string \<times> string \<times> metadata_source) \<Rightarrow> json option" where
  "values_at rows x = map_option md_value (row_get row_id rows x)"

lemma upsert_values: "values_at (upsert_row i k v rows) = (values_at rows)(input_id i k \<mapsto> v)"
  by (rule ext) (simp add: values_at_def upsert_row_get)

lemma upsert_all_values:
  "distinct (map fst kvs) \<Longrightarrow> values_at (fold (\<lambda>(k, v). upsert_row i k v) kvs rows) x =
    (case x of (scope, lane, k, src) \<Rightarrow> if scope = mi_scope i \<and> lane = mi_lane i \<and> src = mi_source i \<and> k \<in> fst ` set kvs
      then map_of kvs k else values_at rows x)"
  by (induction kvs arbitrary: rows) (force simp: upsert_values input_id_def split: prod.splits)+

lemma upsert_all_ids:
  "distinct (map row_id rows) \<Longrightarrow> distinct (map row_id (fold (\<lambda>(k, v). upsert_row i k v) kvs rows))"
proof (induction kvs arbitrary: rows)
  case (Cons kv kvs)
  then show ?case by (cases kv) (simp add: upsert_row_ids)
qed simp

lemma row_get_filter:
  assumes "\<And>r. P r = Q (row_id r)"
  shows "row_get row_id (filter P rows) x = (if Q x then row_get row_id rows x else None)"
  using assms by (induction rows) auto

lemma remove_all_rows:
  "fold (\<lambda>r rows. filter (\<lambda>r'. \<not> same_row i (md_key r) r') rows) gone rows
    = filter (\<lambda>r'. row_id r' \<notin> (\<lambda>r. input_id i (md_key r)) ` set gone) rows"
proof (induction gone arbitrary: rows)
  case (Cons r gone)
  show ?case unfolding fold_simps Cons.IH filter_filter by (rule filter_cong) (auto simp: same_row_iff)
qed simp

section \<open>What a write does\<close>

lemma filter_ranked: "filter (\<lambda>r. md_source r = src \<and> Q r) (ranked rows) = filter (\<lambda>r. md_source r = src \<and> Q r) rows"
  by (cases src) (simp_all add: ranked_def conj_commute cong: conj_cong)

lemma set_ranked [simp]: "set (ranked rows) = set rows"
  using metadata_source.exhaust by (auto simp: ranked_def)

abbreviation before_write :: "metadata_input \<Rightarrow> metadata_row list \<Rightarrow> metadata_row list" where
  "before_write i rows \<equiv> ranked (rows_of (mi_scope i) (mi_lane i) rows)"

lemma find_filter: "List.find P (filter Q xs) = List.find (\<lambda>x. Q x \<and> P x) xs"
  by (induction xs) auto

lemma find_as_filter: "List.find P xs = (case filter P xs of [] \<Rightarrow> None | x # _ \<Rightarrow> Some x)"
  by (induction xs) auto

lemma find_own:
  "List.find (\<lambda>r. md_source r = mi_source i \<and> md_key r = k) (before_write i rows) = row_get row_id rows (input_id i k)"
proof -
  have "(\<lambda>r. md_scope r = mi_scope i \<and> md_lane r = mi_lane i \<and> md_source r = mi_source i \<and> md_key r = k)
      = (\<lambda>r. row_id r = input_id i k)"
    by (auto simp: row_id_def input_id_def)
  then show ?thesis
    unfolding find_as_filter [of _ "before_write i rows"] filter_ranked
    by (simp add: find_as_filter [symmetric] rows_of_def row_get_def find_filter)
qed

lemma stored_value_eq: "stored_value i (before_write i rows) k = values_at rows (input_id i k)"
  using find_own [of i k rows] by (simp add: stored_value_def values_at_def conj_commute)

lemma map_of_rows: "map_of (map (\<lambda>r. (md_key r, md_value r)) rows) k = map_option md_value (List.find (\<lambda>r. md_key r = k) rows)"
  by (induction rows) auto

lemma find_cong': "(\<And>x. P x \<longleftrightarrow> Q x) \<Longrightarrow> List.find P xs = List.find Q xs"
  by (induction xs) auto

lemma map_of_map_sets:
  "distinct (map fst kvs) \<Longrightarrow> map_of (fold (\<lambda>(k, v). map_set k v) kvs base) k = orelse (map_of kvs k) (map_of base k)"
proof (induction kvs arbitrary: base)
  case (Cons kv kvs)
  obtain k' v where kv: "kv = (k', v)" by (cases kv)
  have "map_of kvs k' = None" using Cons.prems by (simp add: kv map_of_eq_None_iff)
  with Cons show ?case by (simp add: kv)
qed simp

text \<open>What the writing source is to hold for a key.\<close>

definition intended :: "metadata_input \<Rightarrow> metadata_row list \<Rightarrow> json_object \<Rightarrow> string \<Rightarrow> json option" where
  "intended i rows values k = orelse (map_of values k)
     (if mi_replace i \<or> k \<in> set (mi_clear i) then None else values_at rows (input_id i k))"

lemma desired_is_intended:
  assumes "distinct (map fst values)"
  shows "map_of (desired_values i (before_write i rows) values) k = intended i rows values k"
proof -
  let ?keep = "\<lambda>r. md_source r = mi_source i \<and> \<not> mi_replace i \<and> md_key r \<notin> set (mi_clear i)"
  have "List.find (\<lambda>r. ?keep r \<and> md_key r = k) (before_write i rows) =
      (if mi_replace i \<or> k \<in> set (mi_clear i) then None else row_get row_id rows (input_id i k))"
  proof (cases "mi_replace i \<or> k \<in> set (mi_clear i)")
    case True
    then show ?thesis by (auto simp: find_None_iff)
  next
    case False
    then have "List.find (\<lambda>r. ?keep r \<and> md_key r = k) (before_write i rows)
        = List.find (\<lambda>r. md_source r = mi_source i \<and> md_key r = k) (before_write i rows)"
      by (intro find_cong') auto
    with False show ?thesis by (simp only: find_own if_False)
  qed
  then show ?thesis
    unfolding desired_values_def map_of_map_sets [OF assms] map_of_rows find_filter intended_def values_at_def
    by simp
qed

lemma distinct_map_sets: "distinct (map fst base) \<Longrightarrow> distinct (map fst (fold (\<lambda>(k, v). map_set k v) kvs base))"
  by (induction kvs arbitrary: base) (auto simp: distinct_map_set split: prod.splits)

lemma own_keys_distinct:
  assumes "distinct (map row_id rows)"
  shows "distinct (map md_key (filter (\<lambda>r. md_source r = mi_source i \<and> Q r) (before_write i rows)))"
proof -
  have "distinct (map row_id (filter (\<lambda>r. md_source r = mi_source i \<and> Q r) (rows_of (mi_scope i) (mi_lane i) rows)))"
    unfolding rows_of_def filter_filter by (rule distinct_map_filter [OF assms])
  then show ?thesis
    unfolding filter_ranked by (auto simp: distinct_map inj_on_def rows_of_def row_id_def)
qed

lemma desired_distinct:
  assumes "distinct (map row_id rows)"
  shows "distinct (map fst (desired_values i (before_write i rows) values))"
  unfolding desired_values_def
  by (rule distinct_map_sets) (simp add: comp_def own_keys_distinct [OF assms])

lemma values_at_some: "values_at rows x \<noteq> None \<longleftrightarrow> x \<in> row_id ` set rows"
  by (auto simp: values_at_def row_get_None_iff)

lemma delete_missing_values:
  assumes "delete_missing i (before_write i rows) desired rows = (rows1, cleared)"
  shows "values_at rows1 (scope, lane, k, src) =
      (if (scope, lane, k, src) = input_id i k \<and> map_of desired k = None then None else values_at rows (scope, lane, k, src))"
    "distinct (map row_id rows) \<Longrightarrow> distinct (map row_id rows1)"
proof -
  let ?gone = "filter (\<lambda>r. md_source r = mi_source i \<and> jget desired (md_key r) = None) (before_write i rows)"
  let ?ids = "(\<lambda>r. input_id i (md_key r)) ` set ?gone"
  have r1: "rows1 = filter (\<lambda>r. row_id r \<notin> ?ids) rows"
    using assms by (simp add: delete_missing_def Let_def remove_all_rows del: set_filter)
  show "distinct (map row_id rows) \<Longrightarrow> distinct (map row_id rows1)"
    unfolding r1 by (rule distinct_map_filter)
  have v: "values_at rows1 x = (if x \<in> ?ids then None else values_at rows x)" for x
    unfolding r1 values_at_def by (subst row_get_filter [of _ "\<lambda>x. x \<notin> ?ids"]) auto
  have gone: "r \<in> set ?gone \<longleftrightarrow> r \<in> set rows \<and> row_id r = input_id i (md_key r) \<and> map_of desired (md_key r) = None" for r
    by (auto simp: rows_of_def row_id_def input_id_def jget_def)
  have key: "row_id r = input_id i k \<Longrightarrow> md_key r = k" for r by (simp add: row_id_def input_id_def)
  have inj: "input_id i h = input_id i k \<Longrightarrow> h = k" for h by (simp add: input_id_def)
  have "input_id i k \<in> ?ids \<longleftrightarrow> map_of desired k = None \<and> values_at rows (input_id i k) \<noteq> None"
  proof
    assume "input_id i k \<in> ?ids"
    then obtain r where r: "r \<in> set ?gone" "input_id i k = input_id i (md_key r)" by (rule imageE)
    from inj [OF r(2) [symmetric]] have "md_key r = k" .
    with r(1) [unfolded gone] show "map_of desired k = None \<and> values_at rows (input_id i k) \<noteq> None"
      unfolding values_at_some by force
  next
    assume h: "map_of desired k = None \<and> values_at rows (input_id i k) \<noteq> None"
    then obtain r where r: "r \<in> set rows" "row_id r = input_id i k" unfolding values_at_some by force
    then have "r \<in> set ?gone" using h key [OF r(2)] by (simp add: gone del: set_filter)
    then have "input_id i (md_key r) \<in> ?ids" by (rule imageI)
    then show "input_id i k \<in> ?ids" by (simp only: key [OF r(2)])
  qed
  note mem = this
  show "values_at rows1 (scope, lane, k, src) =
      (if (scope, lane, k, src) = input_id i k \<and> map_of desired k = None then None else values_at rows (scope, lane, k, src))"
  proof (cases "(scope, lane, k, src) = input_id i k")
    case True
    have "(if m then None else w) = (if True \<and> d = None then None else w)"
      if "m \<longleftrightarrow> d = None \<and> w \<noteq> None" for m and d w :: "json option"
      using that by (cases w; cases d) simp_all
    from this [OF mem] show ?thesis unfolding v True by (simp only: simp_thms)
  next
    case False
    then have "(scope, lane, k, src) \<notin> ?ids" by (auto simp: input_id_def)
    with False show ?thesis unfolding v by (simp only: if_False if_True simp_thms)
  qed
qed

lemma map_of_filter_key:
  "distinct (map fst kvs) \<Longrightarrow> map_of (filter P kvs) k = (case map_of kvs k of None \<Rightarrow> None
     | Some v \<Rightarrow> if P (k, v) then Some v else None)"
  by (induction kvs) (auto simp: map_of_eq_None_iff [symmetric] split: option.splits)

lemma write_desired_values:
  assumes "write_desired i (before_write i rows) desired rows1 = (rows2, changes)" "distinct (map fst desired)"
    "\<And>k. map_of desired k \<noteq> None \<Longrightarrow> values_at rows1 (input_id i k) = values_at rows (input_id i k)"
  shows "values_at rows2 (scope, lane, k, src) =
      (if (scope, lane, k, src) = input_id i k \<and> map_of desired k \<noteq> None then map_of desired k
       else values_at rows1 (scope, lane, k, src))"
    "distinct (map row_id rows1) \<Longrightarrow> distinct (map row_id rows2)"
proof -
  let ?fresh = "filter (\<lambda>(k, v). stored_value i (before_write i rows) k \<noteq> Some v) desired"
  have r2: "rows2 = fold (\<lambda>(k, v). upsert_row i k v) ?fresh rows1"
    using assms(1) by (simp add: write_desired_def Let_def)
  show "distinct (map row_id rows1) \<Longrightarrow> distinct (map row_id rows2)"
    unfolding r2 by (rule upsert_all_ids)
  obtain fresh where fresh: "fresh = ?fresh" by simp
  have d: "distinct (map fst fresh)" unfolding fresh by (rule distinct_map_filter [OF assms(2)])
  have f: "map_of fresh k = (case map_of desired k of None \<Rightarrow> None
      | Some v \<Rightarrow> if values_at rows (input_id i k) \<noteq> Some v then Some v else None)"
    by (simp add: fresh map_of_filter_key [OF assms(2)] stored_value_eq split: option.split)
  have "k \<in> fst ` set fresh \<longleftrightarrow> map_of fresh k \<noteq> None" by (simp add: map_of_eq_None_iff)
  then show "values_at rows2 (scope, lane, k, src) =
      (if (scope, lane, k, src) = input_id i k \<and> map_of desired k \<noteq> None then map_of desired k
       else values_at rows1 (scope, lane, k, src))"
    using assms(3) [of k] f unfolding r2 fresh [symmetric] upsert_all_values [OF d]
    by (auto simp: input_id_def split: option.splits if_splits)
qed

text \<open>The rows a write leaves: the writing source holds what it is to hold, all else is as before.\<close>

definition written_rows :: "metadata_input \<Rightarrow> metadata_row list \<Rightarrow> json_object \<Rightarrow> metadata_row list" where
  "written_rows i rows values = fst (write_desired i (before_write i rows) (desired_values i (before_write i rows) values)
     (fst (delete_missing i (before_write i rows) (desired_values i (before_write i rows) values) rows)))"

lemma written_rows_values:
  assumes "distinct (map row_id rows)" "distinct (map fst values)"
  shows "values_at (written_rows i rows values) (scope, lane, k, src) =
      (if (scope, lane, k, src) = input_id i k then intended i rows values k else values_at rows (scope, lane, k, src))"
    "distinct (map row_id (written_rows i rows values))"
proof -
  let ?desired = "desired_values i (before_write i rows) values"
  obtain rows1 cleared where r1: "delete_missing i (before_write i rows) ?desired rows = (rows1, cleared)" by fastforce
  obtain rows2 changes where r2: "write_desired i (before_write i rows) ?desired rows1 = (rows2, changes)" by fastforce
  have w: "written_rows i rows values = rows2" by (simp add: written_rows_def r1 r2)
  note del = delete_missing_values [OF r1]
  have same: "values_at rows1 (input_id i k) = values_at rows (input_id i k)" if "map_of ?desired k \<noteq> None" for k
    using del(1) [of "mi_scope i" "mi_lane i" k "mi_source i"] that by (simp add: input_id_def)
  note wr = write_desired_values [OF r2 desired_distinct [OF assms(1)] same]
  show "distinct (map row_id (written_rows i rows values))"
    unfolding w using wr(2) del(2) assms(1) by blast
  show "values_at (written_rows i rows values) (scope, lane, k, src) =
      (if (scope, lane, k, src) = input_id i k then intended i rows values k else values_at rows (scope, lane, k, src))"
    using wr(1) [of scope lane k src] del(1) [of scope lane k src]
    unfolding w desired_is_intended [OF assms(2), symmetric] by (auto split: if_splits)
qed

section \<open>Every write keeps the store well formed\<close>

lemma row_keys_iff: "k \<in> row_keys scope lane rows \<longleftrightarrow> (\<exists>src. values_at rows (scope, lane, k, src) \<noteq> None)"
  unfolding values_at_some row_keys_def rows_of_def by (auto simp: row_id_def image_iff)

lemma values_at_row: "distinct (map row_id rows) \<Longrightarrow> r \<in> set rows \<Longrightarrow> values_at rows (row_id r) = Some (md_value r)"
  by (induction rows) (auto simp: values_at_def)

lemma values_at_SomeD: "values_at rows x = Some v \<Longrightarrow> \<exists>r \<in> set rows. row_id r = x \<and> md_value r = v"
  by (auto simp: values_at_def dest: row_get_SomeD)

lemma rows_ok_values:
  "rows_ok rows \<longleftrightarrow> distinct (map row_id rows)
    \<and> (\<forall>scope lane k src v. values_at rows (scope, lane, k, src) = Some v \<longrightarrow> valid_entry k v)
    \<and> (\<forall>scope lane. held_ok (row_keys scope lane rows))"
proof -
  have "held_ok {}" by (simp add: held_ok_def keys_apart_def)
  then have "held_ok (row_keys scope lane rows)"
    if "\<forall>r \<in> set rows. held_ok (row_keys (md_scope r) (md_lane r) rows)" for scope lane
    using that by (cases "rows_of scope lane rows = []") (auto simp: row_keys_def rows_of_def filter_empty_conv)
  moreover have "(\<forall>r \<in> set rows. valid_entry (md_key r) (md_value r)) \<longleftrightarrow>
      (\<forall>scope lane k src v. values_at rows (scope, lane, k, src) = Some v \<longrightarrow> valid_entry k v)"
    if d: "distinct (map row_id rows)"
  proof
    assume "\<forall>r \<in> set rows. valid_entry (md_key r) (md_value r)"
    then show "\<forall>scope lane k src v. values_at rows (scope, lane, k, src) = Some v \<longrightarrow> valid_entry k v"
      by (auto dest!: values_at_SomeD simp: row_id_def)
  next
    assume "\<forall>scope lane k src v. values_at rows (scope, lane, k, src) = Some v \<longrightarrow> valid_entry k v"
    then show "\<forall>r \<in> set rows. valid_entry (md_key r) (md_value r)"
      using values_at_row [OF d] unfolding row_id_def by blast
  qed
  ultimately show ?thesis unfolding rows_ok_def by blast
qed

lemma kept_rows_keys:
  assumes "distinct (map row_id rows)"
  shows "set (map md_key (kept_rows i (before_write i rows))) \<subseteq> row_keys (mi_scope i) (mi_lane i) rows"
    "src \<noteq> mi_source i \<Longrightarrow> values_at rows (mi_scope i, mi_lane i, k, src) \<noteq> None
      \<Longrightarrow> k \<in> set (map md_key (kept_rows i (before_write i rows)))"
    "\<not> mi_replace i \<Longrightarrow> k \<notin> set (mi_clear i) \<Longrightarrow> values_at rows (input_id i k) \<noteq> None
      \<Longrightarrow> k \<in> set (map md_key (kept_rows i (before_write i rows)))"
  unfolding values_at_some by (auto simp: kept_rows_def rows_of_def row_keys_def row_id_def input_id_def image_iff)

lemma written_rows_ok:
  assumes ok: "rows_ok rows" and va: "va = validate_write i (before_write i rows)"
  shows "rows_ok (written_rows i rows (va_values va))"
proof -
  let ?kept = "map md_key (kept_rows i (before_write i rows))" and ?rows = "written_rows i rows (va_values va)"
  note old = ok [unfolded rows_ok_values]
  note kept = kept_rows_keys [OF conjunct1 [OF old], where i = i]
  have "held_ok (set ?kept)" using held_ok_subset [OF _ kept(1)] old by blast
  note new = validated_values [OF this refl, where input = "or_default (mi_set i) (JObj [])"]
  have vals: "va_values va = va_values (validate_session_metadata (or_default (mi_set i) (JObj [])) ?kept True)"
    by (simp add: va validate_write_def)
  note rows = written_rows_values [OF conjunct1 [OF old] new(1) [folded vals], where i = i]
  have entry: "valid_entry k v" if "values_at ?rows (scope, lane, k, src) = Some v" for scope lane k src v
  proof (cases "(scope, lane, k, src) = input_id i k")
    case True
    then have "intended i rows (va_values va) k = Some v" using that rows(1) [of scope lane k src] by simp
    then have "map_of (va_values va) k = Some v \<or> values_at rows (input_id i k) = Some v"
      by (cases "map_of (va_values va) k") (auto simp: intended_def split: if_splits)
    then show ?thesis using new(2) [folded vals] old by (auto simp: input_id_def dest: map_of_SomeD)
  qed (use that old in \<open>auto simp: rows(1)\<close>)
  have "held_ok (row_keys scope lane ?rows)" for scope lane
  proof (cases "scope = mi_scope i \<and> lane = mi_lane i")
    case True
    have "k \<in> fst ` set (va_values va) \<union> set ?kept" if k: "k \<in> row_keys scope lane ?rows" for k
    proof -
      obtain src where src: "values_at ?rows (scope, lane, k, src) \<noteq> None" using k row_keys_iff by blast
      show ?thesis
      proof (cases "src = mi_source i")
        case own: True
        then have "intended i rows (va_values va) k \<noteq> None"
          using src True by (simp add: rows(1) input_id_def split: if_splits)
        then have "map_of (va_values va) k \<noteq> None \<or> \<not> mi_replace i \<and> k \<notin> set (mi_clear i) \<and> values_at rows (input_id i k) \<noteq> None"
          by (auto simp: intended_def split: if_splits)
        then show ?thesis using kept(3) by (auto simp: map_of_eq_None_iff)
      next
        case other: False
        then have "values_at rows (mi_scope i, mi_lane i, k, src) \<noteq> None"
          using src True by (simp add: rows(1) input_id_def split: if_splits)
        then show ?thesis using kept(2) [OF other] by blast
      qed
    qed
    then show ?thesis using held_ok_subset [OF new(3) [folded vals]] by blast
  next
    case False
    then have "row_keys scope lane ?rows = row_keys scope lane rows"
      unfolding set_eq_iff row_keys_iff rows(1) by (auto simp: input_id_def)
    then show ?thesis using old by simp
  qed
  then show ?thesis unfolding rows_ok_values using rows(2) entry by blast
qed

text \<open>What a write answers, and the rows it leaves.\<close>

lemma metadata_write_rows:
  "fst (metadata_write norm i db) = db \<and> (\<exists>e. snd (metadata_write norm i db) = Inl e)
   \<or> (\<exists>va. va = validate_write i (before_write i (mb_rows db))
     \<and> mb_rows (fst (metadata_write norm i db)) = written_rows i (mb_rows db) (va_values va)
     \<and> (mi_source i = From_Api \<longrightarrow> va_rejected va = [])
     \<and> (\<exists>resolved. snd (metadata_write norm i db) = Inr (resolved, va_rejected va)))"
  by (auto simp: metadata_write_def written_rows_def continuity_rows_def Let_def split: option.splits sum.splits prod.splits)

section \<open>Reading\<close>

lemma take_rows_values:
  assumes "\<And>k. map_of vs k = None \<longleftrightarrow> map_of ss k = None" "distinct (map fst vs)"
  shows "(\<forall>k. map_of (fst (fold take_row rows (vs, ss))) k
      = orelse (map_of vs k) (map_option md_value (List.find (\<lambda>r. md_key r = k) rows)))
    \<and> distinct (map fst (fst (fold take_row rows (vs, ss))))"
  using assms
proof (induction rows arbitrary: vs ss)
  case (Cons r rows)
  obtain vs' ss' where step: "take_row r (vs, ss) = (vs', ss')" by fastforce
  have "map_of vs' k = None \<longleftrightarrow> map_of ss' k = None" for k
    using step Cons.prems(1) [of k] by (auto simp: take_row_def split: option.splits if_splits)
  moreover have "distinct (map fst vs')"
    using step Cons.prems(2) by (auto simp: take_row_def distinct_map_set split: option.splits)
  ultimately have rest: "(\<forall>k. map_of (fst (fold take_row rows (vs', ss'))) k
      = orelse (map_of vs' k) (map_option md_value (List.find (\<lambda>r. md_key r = k) rows)))
    \<and> distinct (map fst (fst (fold take_row rows (vs', ss'))))"
    by (rule Cons.IH)
  have "map_of vs' k = orelse (map_of vs k) (if md_key r = k then Some (md_value r) else None)" for k
    using step Cons.prems(1) [of k] by (cases "map_of vs k") (auto simp: take_row_def split: option.splits if_splits)
  moreover have "orelse (orelse a (if p then Some v else None)) (map_option md_value b)
      = orelse a (map_option md_value (if p then Some r else b))" if "v = md_value r" for a p v b
    using that by (cases a) auto
  ultimately show ?case using rest by (simp add: step)
qed simp_all

text \<open>The value a reader is to see: api before launch before hrc.\<close>

definition winning_value :: "string \<Rightarrow> string \<Rightarrow> metadata_row list \<Rightarrow> string \<Rightarrow> json option" where
  "winning_value scope lane rows k = orelse (values_at rows (scope, lane, k, From_Api))
     (orelse (values_at rows (scope, lane, k, From_Launch)) (values_at rows (scope, lane, k, From_Hrc)))"

lemma find_append_orelse: "List.find P (xs @ ys) = orelse (List.find P xs) (List.find P ys)"
  by (induction xs) auto

lemma find_source:
  "map_option md_value (List.find (\<lambda>r. md_key r = k) (filter (\<lambda>r. md_source r = src) (rows_of scope lane rows)))
    = values_at rows (scope, lane, k, src)"
  unfolding values_at_def row_get_def rows_of_def find_filter
  by (rule arg_cong [of _ _ "map_option md_value"], rule find_cong') (auto simp: row_id_def)

lemma map_option_orelse: "map_option f (orelse a b) = orelse (map_option f a) (map_option f b)"
  by (cases a) auto

lemma find_winner:
  "map_option md_value (List.find (\<lambda>r. md_key r = k) (ranked (rows_of scope lane rows))) = winning_value scope lane rows k"
  unfolding ranked_def find_append_orelse map_option_orelse find_source winning_value_def ..

lemma keys_apart_sorted: "distinct ks \<Longrightarrow> keys_apart (set ks) \<Longrightarrow> sorted_wrt key_apart ks"
  by (induction ks) (force simp: keys_apart_def)+

lemma winning_some: "winning_value scope lane rows k = Some v \<Longrightarrow> \<exists>src. values_at rows (scope, lane, k, src) = Some v"
  by (auto simp: winning_value_def orelse_def split: option.splits)

lemma metadata_get_ok:
  assumes "rows_ok (mb_rows db)"
  shows "\<exists>ob ss. metadata_get scope lane db = Inr (ob, ss)
    \<and> va_rejected (flatten_session_metadata (JObj ob)) = []
    \<and> map_of (va_values (flatten_session_metadata (JObj ob))) = winning_value scope lane (mb_rows db)"
proof -
  note ok = assms [unfolded rows_ok_values]
  obtain vs ss where res: "resolve_rows (continuity_rows scope lane db) = (vs, ss)" by fastforce
  have start: "map_of ([] :: json_object) k = None \<longleftrightarrow> map_of ([] :: (string \<times> resolved_source) list) k = None" for k
    by simp
  note vals = take_rows_values [where vs = "[]" and ss = "[]" and rows = "continuity_rows scope lane db", OF start, simplified]
  have m: "map_of vs = winning_value scope lane (mb_rows db)"
    using vals res find_winner by (simp add: resolve_rows_def continuity_rows_def fun_eq_iff)
  have d: "distinct (map fst vs)" using vals res by (simp add: resolve_rows_def)
  have held: "\<exists>src. values_at (mb_rows db) (scope, lane, k, src) = Some v" if "(k, v) \<in> set vs" for k v
    using that d m winning_some by (metis map_of_is_SomeI)
  have "keys_apart (row_keys scope lane (mb_rows db))" using ok by (auto simp: held_ok_def)
  moreover have "set (map fst vs) \<subseteq> row_keys scope lane (mb_rows db)"
    using held row_keys_iff by fastforce
  ultimately have "sorted_wrt key_apart (map fst vs)"
    using keys_apart_sorted [OF d] keys_apart_subset by blast
  moreover have "valid_entry (fst kv) (snd kv)" if "kv \<in> set vs" for kv
    using held [of "fst kv" "snd kv"] that ok by force
  ultimately have s: "sound_values vs" by (simp add: sound_values_def)
  obtain ob where ob: "nest_session_metadata vs [] = Inr ob" "va_rejected (flatten_session_metadata (JObj ob)) = []"
      "sound_values (va_values (flatten_session_metadata (JObj ob)))"
      "set (va_values (flatten_session_metadata (JObj ob))) = set vs"
    using nested_flattens_back [OF s] by blast
  have "metadata_get scope lane db = Inr (ob, ss)" by (simp add: metadata_get_def res ob(1))
  moreover have "map_of (va_values (flatten_session_metadata (JObj ob))) = winning_value scope lane (mb_rows db)"
    using sound_same_map [OF ob(3) s ob(4)] m by simp
  ultimately show ?thesis using ob(2) by blast
qed

section \<open>Histories of writes\<close>

definition metadata_exec :: "(string \<Rightarrow> string) \<Rightarrow> metadata_input \<Rightarrow> metadata_db \<Rightarrow> metadata_db" where
  "metadata_exec norm i db = fst (metadata_write norm i db)"

lemma metadata_write_keeps: "rows_ok (mb_rows db) \<Longrightarrow> rows_ok (mb_rows (metadata_exec norm i db))"
  using metadata_write_rows [of norm i db] written_rows_ok [of "mb_rows db" _ i] by (auto simp: metadata_exec_def)

interpretation metadata: op_history "metadata_exec norm" "\<lambda>i. True" "\<lambda>db. rows_ok (mb_rows db)" for norm
  by unfold_locales (rule metadata_write_keeps)

lemma metadata_history_ok: "rows_ok (mb_rows (fold (metadata_exec norm) writes (db\<lparr>mb_rows := []\<rparr>)))"
  by (rule metadata.history_keeps) (simp_all add: rows_ok_def list_all_iff)

lemma validated_write_distinct:
  assumes "rows_ok rows"
  shows "distinct (map fst (va_values (validate_write i (before_write i rows))))"
proof -
  note old = assms [unfolded rows_ok_values]
  have "held_ok (set (map md_key (kept_rows i (before_write i rows))))"
    using held_ok_subset [OF _ kept_rows_keys(1) [OF conjunct1 [OF old], of i]] old by blast
  from validated_values(1) [OF this refl] show ?thesis by (simp add: validate_write_def)
qed

section \<open>Properties\<close>

text \<open>
  After any history of metadata writes of any source, from a store without metadata: no source
  has two values for one key of a continuity, every stored entry is valid (one to four segments, at
  most 128 bytes of key, a scalar or an array of scalars, at most 4096 bytes serialized), no key of a
  continuity names an object above another, and a continuity holds at most 64 distinct keys.
\<close>

theorem metadata_stays_well_formed:
  fixes norm :: "string \<Rightarrow> string" and writes :: "metadata_input list" and db :: metadata_db
  defines "rows \<equiv> mb_rows (fold (metadata_exec norm) writes (db\<lparr>mb_rows := []\<rparr>))"
  shows "distinct (map (\<lambda>r. (md_scope r, md_lane r, md_key r, md_source r)) rows)
    \<and> list_all (\<lambda>r. validate_entry (md_key r) (md_value r) False = Inr (md_value r)
        \<and> card (set (map md_key (rows_of (md_scope r) (md_lane r) rows))) \<le> 64
        \<and> held_collision (md_key r) (map md_key (rows_of (md_scope r) (md_lane r) rows)) = None) rows"
proof -
  have ok: "rows_ok rows" unfolding rows_def by (rule metadata_history_ok)
  have "distinct (map (\<lambda>r. (md_scope r, md_lane r, md_key r, md_source r)) rows)"
    using ok by (simp add: rows_ok_def row_id_def [abs_def])
  moreover have "validate_entry (md_key r) (md_value r) False = Inr (md_value r)" if "r \<in> set rows" for r
    using ok that by (simp add: rows_ok_def unregistered_entry)
  moreover have "card (set (map md_key (rows_of (md_scope r) (md_lane r) rows))) \<le> 64
      \<and> held_collision (md_key r) (map md_key (rows_of (md_scope r) (md_lane r) rows)) = None" if r: "r \<in> set rows" for r
  proof -
    let ?ks = "map md_key (rows_of (md_scope r) (md_lane r) rows)"
    have "held_ok (set ?ks)" using ok r by (simp add: rows_ok_def row_keys_def)
    moreover have "md_key r \<in> set ?ks" using r by (simp add: rows_of_def)
    ultimately show ?thesis
      unfolding held_ok_def keys_apart_def no_held_collision metadata_max_keys_def by blast
  qed
  ultimately show ?thesis using ok by (simp add: rows_ok_def list_all_iff)
qed

text \<open>
  Reading a continuity after any history of writes never throws: the nested object it answers
  flattens back, without a rejection, to exactly the value with the highest precedence of each key
  (api before launch before hrc).
\<close>

theorem metadata_reads_by_precedence:
  fixes norm :: "string \<Rightarrow> string" and writes :: "metadata_input list" and db :: metadata_db
  defines "db' \<equiv> fold (metadata_exec norm) writes (db\<lparr>mb_rows := []\<rparr>)"
  shows "\<exists>ob sources. metadata_get scope lane db' = Inr (ob, sources)
    \<and> va_rejected (flatten_session_metadata (JObj ob)) = []
    \<and> map_of (va_values (flatten_session_metadata (JObj ob))) = winning_value scope lane (mb_rows db')"
  unfolding db'_def by (rule metadata_get_ok [OF metadata_history_ok])

text \<open>
  Flattening normalises: for every JSON input the values that survive can be nested, and the
  nested object flattens to the same values with nothing rejected.
\<close>

theorem flatten_nest_round_trip:
  "\<exists>ob. nest_session_metadata (va_values (flatten_session_metadata input)) [] = Inr ob
    \<and> va_rejected (flatten_session_metadata (JObj ob)) = []
    \<and> map_of (va_values (flatten_session_metadata (JObj ob))) = map_of (va_values (flatten_session_metadata input))"
  using nested_flattens_back [OF flatten_sound, of input] sound_same_map flatten_sound by blast

text \<open>
  A write, after any history: when it throws, nothing of the database changes; otherwise the
  writing source holds its admitted values, keeps the others of its values that were neither cleared
  nor replaced, and loses the rest, while the values of other sources and continuities stay; an api
  write that succeeds rejected nothing.
\<close>

theorem metadata_write_effect:
  fixes norm :: "string \<Rightarrow> string" and writes :: "metadata_input list" and db :: metadata_db
  defines "db' \<equiv> fold (metadata_exec norm) writes (db\<lparr>mb_rows := []\<rparr>)"
  assumes "metadata_write norm i db' = (db'', answer)"
  shows "case answer of
      Inl e \<Rightarrow> db'' = db'
    | Inr (resolved, rejected) \<Rightarrow>
        (let va = validate_write i (continuity_rows (mi_scope i) (mi_lane i) db') in
         rejected = va_rejected va \<and> (mi_source i = From_Api \<longrightarrow> rejected = [])
         \<and> values_at (mb_rows db'') (scope, lane, k, src) =
             (if (scope, lane, src) = (mi_scope i, mi_lane i, mi_source i)
              then orelse (map_of (va_values va) k)
                (if mi_replace i \<or> k \<in> set (mi_clear i) then None else values_at (mb_rows db') (scope, lane, k, src))
              else values_at (mb_rows db') (scope, lane, k, src)))"
proof -
  let ?va = "validate_write i (continuity_rows (mi_scope i) (mi_lane i) db')"
  have ok: "rows_ok (mb_rows db')" unfolding db'_def by (rule metadata_history_ok)
  show ?thesis
  proof (cases answer)
    case (Inl e)
    then show ?thesis using metadata_write_rows [of norm i db'] assms(2) by auto
  next
    case (Inr r)
    then obtain resolved where r: "answer = Inr (resolved, va_rejected ?va)" "mi_source i = From_Api \<longrightarrow> va_rejected ?va = []"
        "mb_rows db'' = written_rows i (mb_rows db') (va_values ?va)"
      using metadata_write_rows [of norm i db'] assms(2) by (auto simp: continuity_rows_def)
    have "values_at (mb_rows db'') (scope, lane, k, src) = (if (scope, lane, k, src) = input_id i k
        then intended i (mb_rows db') (va_values ?va) k else values_at (mb_rows db') (scope, lane, k, src))"
      unfolding r(3) using written_rows_values(1) [OF _ validated_write_distinct [OF ok]] ok
      by (simp add: continuity_rows_def rows_ok_def)
    then show ?thesis
      using r(1,2) by (auto simp: Let_def intended_def input_id_def)
  qed
qed

definition metadata_example :: metadata_db where
  "metadata_example = \<lparr>mb_rows = [], mb_continuities = [(''s'', ''main'', ''h'')], mb_generations = [(''h'', 1)],
     mb_ledger = sample_ledger\<rparr>"

definition metadata_example_input :: "metadata_source \<Rightarrow> json_object \<Rightarrow> string list \<Rightarrow> metadata_input" where
  "metadata_example_input src kvs cleared = \<lparr>mi_scope = ''s'', mi_lane = ''main'', mi_source = src, mi_set = Some (JObj kvs),
     mi_clear = cleared, mi_replace = False, mi_updated_by = ''cli'', mi_now = ''2026-01-01T00:00:00.000Z''\<rparr>"

definition metadata_example_history :: "metadata_input list" where
  "metadata_example_history = [metadata_example_input From_Launch [(''title'', JStr ''run'')] []]"

definition metadata_example_write :: metadata_input where
  "metadata_example_write = metadata_example_input From_Api
     [(''title'', JStr '' A ''), (''appearance'', JObj [(''color'', JStr ''#A0b1C2'')])] [''owner'']"

text \<open>The launch sets a title; the api then sets a title, trimmed, and a colour, and both titles stay.\<close>

lemma metadata_example_admits:
  "case snd (metadata_write (\<lambda>s. s) metadata_example_write
     (fold (metadata_exec (\<lambda>s. s)) metadata_example_history (metadata_example\<lparr>mb_rows := []\<rparr>))) of
   Inl e \<Rightarrow> False
 | Inr ((ob, ss), rejected) \<Rightarrow> rejected = []
     \<and> ob = [(''title'', JStr ''A''), (''appearance'', JObj [(''color'', JStr ''#A0b1C2'')])]"
  by code_simp

lemma metadata_example_entry:
  "map_of (va_values (validate_write metadata_example_write (continuity_rows ''s'' ''main''
     (fold (metadata_exec (\<lambda>s. s)) metadata_example_history (metadata_example\<lparr>mb_rows := []\<rparr>))))) ''title'' = Some (JStr ''A'')"
  by code_simp

lemma metadata_write_effect_witness:
  "\<exists>db'' resolved. metadata_write (\<lambda>s. s) metadata_example_write
      (fold (metadata_exec (\<lambda>s. s)) metadata_example_history (metadata_example\<lparr>mb_rows := []\<rparr>)) = (db'', Inr (resolved, []))
    \<and> values_at (mb_rows db'') (''s'', ''main'', ''title'', From_Api) = Some (JStr ''A'')"
proof -
  let ?db = "fold (metadata_exec (\<lambda>s. s)) metadata_example_history (metadata_example\<lparr>mb_rows := []\<rparr>)"
  obtain db'' resolved rejected where w: "metadata_write (\<lambda>s. s) metadata_example_write ?db = (db'', Inr (resolved, rejected))"
    using metadata_example_admits by (cases "metadata_write (\<lambda>s. s) metadata_example_write ?db") (auto split: sum.splits)
  have "mi_source metadata_example_write = From_Api" "mi_scope metadata_example_write = ''s''"
      "mi_lane metadata_example_write = ''main''"
    by (simp_all add: metadata_example_write_def metadata_example_input_def)
  then show ?thesis
    using metadata_write_effect [OF w, of "''s''" "''main''" "''title''" From_Api] w metadata_example_entry
    by (auto simp: Let_def)
qed

end
