(* ===== verification/Input_Histories.thy ===== *)
theory Input_Histories
  imports Input_Ledger
begin

text \<open>
  Histories of the input ledger. Every operation that touches it, reservation, binding, landing,
  termination, correlation, the minting and the start of a carrier run, keeps the rows and the
  lifecycle facts in agreement and every row on its one-way path.
\<close>

section \<open>Histories\<close>

text \<open>
  The operations that touch the ledger of inputs, each as one atomic step: the handlers run without a
  suspension in between, and the projection of an envelope is one transaction. Runs, placements, the
  broker's own event rows and lifecycle events of other kinds change freely.
\<close>

datatype input_op =
    Admit dispatch_session dispatch_options string string
  | Settle dispatch_session input_row placed_runtime submit_result string
  | Admit_Cold dispatch_session placed_runtime string string string string string dispatch_options string
  | Project input_envelope projection_ctx string "string option"
  | Invocation_Fate input_envelope projection_ctx correlation_fact string
  | Prepare input_envelope placed_invocation placed_runtime int string string "string option" bool
  | Finalize turn_start projection_ctx "(string \<times> int) option" string "string option"
  | Runs run_op "string option"
  | Placement "placed_runtime list" "placed_invocation list"
  | Broker_Event broker_event_row
  | Other_Event ledger_row

definition committed :: "input_db \<Rightarrow> input_db result \<Rightarrow> input_db" where
  "committed d r = (case r of Inl e \<Rightarrow> d | Inr d' \<Rightarrow> d')"

definition committed_with :: "input_db \<Rightarrow> (input_db \<times> 'a) result \<Rightarrow> input_db" where
  "committed_with d r = (case r of Inl e \<Rightarrow> d | Inr (d', a) \<Rightarrow> d')"

fun input_exec :: "input_op \<Rightarrow> input_db \<Rightarrow> input_db" where
  "input_exec (Admit session opts inputId now) d = committed_with d (dispatch_admit session opts inputId now d)"
| "input_exec (Settle session r rt result now) d = fst (dispatch_settle session r rt result now d)"
| "input_exec (Admit_Cold session rt inputId key hash operationId invocationId opts now) d =
     committed_with d (reserve_cold_input session rt inputId key hash operationId invocationId opts now d)"
| "input_exec (Project ev ctx now tok) d = committed d (project_submission ev ctx now tok d)"
| "input_exec (Invocation_Fate ev ctx obs now) d = committed d (invocation_correlation ev ctx obs now d)"
| "input_exec (Prepare ev iv rt generation now runId tok retained) d =
     committed_with d (prepare_turn_start ev iv rt generation now runId tok retained d)"
| "input_exec (Finalize ts ctx lifecycle now tok) d = committed d (finalize_turn_start ts ctx lifecycle now tok d)"
| "input_exec (Runs op tok) d = d\<lparr>id_store := run_exec (op, tok) (id_store d)\<rparr>"
| "input_exec (Placement rts ivs) d = d\<lparr>id_runtimes := rts, id_invocations := ivs\<rparr>"
| "input_exec (Broker_Event be) d = d\<lparr>id_store := (id_store d)\<lparr>rs_db := (rs_db (id_store d))
     \<lparr>db_broker_events := db_broker_events (rs_db (id_store d)) @ [be]\<rparr>\<rparr>\<rparr>"
| "input_exec (Other_Event e) d = append_input_event e d"

text \<open>The three facts that only these operations write; broker sequence numbers are not negative.\<close>

definition input_fact_kinds :: "string list" where
  "input_fact_kinds = [''input.admitted'', ''input.landed'', ''input.terminal'']"

fun input_op_allowed :: "input_op \<Rightarrow> bool" where
  "input_op_allowed (Other_Event e) = (hr_event_kind e \<notin> set input_fact_kinds)"
| "input_op_allowed (Broker_Event be) = (0 \<le> be_seq be)"
| "input_op_allowed _ = True"

definition input_history :: "input_op list \<Rightarrow> input_db \<Rightarrow> input_db" where
  "input_history ops d = fold input_exec ops d"

section \<open>What is told of an input\<close>

definition facts :: "string \<Rightarrow> string \<Rightarrow> ledger \<Rightarrow> ledger_row list" where
  "facts kind inputId l = filter (\<lambda>e. hr_event_kind e = kind
     \<and> payload_string (hr_payload e) ''inputId'' = Some inputId) (lg_rows l)"

definition outcome ::
  "input_row \<Rightarrow> string \<times> string \<times> landing_kind option \<times> string option \<times> string option \<times> int option \<times> terminal_kind option" where
  "outcome r = (in_status r, in_cleanup_protection r, in_landing_kind r, in_carrier_run_id r, in_turn_id r,
     in_run_started_hrc_seq r, in_terminal_kind r)"

text \<open>Waiting under protection, landed on a carrier, or released by a rejection or withdrawal.\<close>

definition awaiting :: "input_row \<Rightarrow> bool" where
  "awaiting r = (outcome r = (''accepted'', ''protected'', None, None, None, None, None))"

definition landed_on :: "input_row \<Rightarrow> bool" where
  "landed_on r = (case (in_landing_kind r, in_carrier_run_id r, in_turn_id r, in_run_started_hrc_seq r, in_broker_submission_id r) of
     (Some kind, Some runId, Some turnId, Some seq, Some submission) \<Rightarrow>
       outcome r = (show_landing kind, ''carrier-run'', Some kind, Some runId, Some turnId, Some seq, None)
   | _ \<Rightarrow> False)"

definition released :: "input_row \<Rightarrow> bool" where
  "released r = (case in_terminal_kind r of
     Some t \<Rightarrow> outcome r = (show_terminal t, ''released'', None, None, None, None, Some t)
   | None \<Rightarrow> False)"

definition landed_payload :: "input_row \<Rightarrow> json" where
  "landed_payload r = JObj [(''inputId'', JStr (in_input_id r)), (''kind'', JStr (show_landing (the (in_landing_kind r)))),
     (''carrierRunId'', JStr (the (in_carrier_run_id r))), (''turnId'', JStr (the (in_turn_id r))),
     (''brokerSubmissionId'', JStr (the (in_broker_submission_id r))),
     (''runStartedHrcSeq'', JNum (the (in_run_started_hrc_seq r)))]"

definition admitted_for :: "input_row \<Rightarrow> ledger_row \<Rightarrow> bool" where
  "admitted_for r e = (hr_runtime_id e = in_runtime_id r \<and> in_invocation_id r \<noteq> None
     \<and> payload_string (hr_payload e) ''invocationId'' = in_invocation_id r
     \<and> (case hr_payload e of JObj ob \<Rightarrow> (case jnumber ob ''afterSeq'' of Some n \<Rightarrow> 0 \<le> n | None \<Rightarrow> False) | _ \<Rightarrow> False))"

definition fenced_once :: "ledger_row list \<Rightarrow> input_row \<Rightarrow> bool" where
  "fenced_once es r = (case es of [e] \<Rightarrow> admitted_for r e | _ \<Rightarrow> False)"

definition told :: "ledger \<Rightarrow> input_row \<Rightarrow> bool" where
  "told l r = (fenced_once (facts ''input.admitted'' (in_input_id r) l) r
     \<and> map hr_payload (facts ''input.landed'' (in_input_id r) l) = (if in_landing_kind r = None then [] else [landed_payload r])
     \<and> length (facts ''input.terminal'' (in_input_id r) l) = (if in_terminal_kind r = None then 0 else 1))"

definition inputs_ok :: "input_db \<Rightarrow> bool" where
  "inputs_ok d = (inputs_constraints (id_inputs d)
     \<and> (\<forall>r \<in> set (id_inputs d). (awaiting r \<or> landed_on r \<or> released r) \<and> told (id_ledger d) r)
     \<and> (\<forall>e \<in> set (lg_rows (id_ledger d)). hr_event_kind e \<in> set input_fact_kinds \<longrightarrow>
          payload_string (hr_payload e) ''inputId'' \<in> (\<lambda>r. Some (in_input_id r)) ` set (id_inputs d))
     \<and> (\<forall>be \<in> set (db_broker_events (rs_db (id_store d))). 0 \<le> be_seq be))"

text \<open>How a row may change: its identity stays, a binding stays, an outcome is final.\<close>

definition advances :: "input_row \<Rightarrow> input_row \<Rightarrow> bool" where
  "advances r r' = (in_input_id r' = in_input_id r
     \<and> in_admission_host_session_id r' = in_admission_host_session_id r \<and> in_idempotency_key r' = in_idempotency_key r
     \<and> in_request_hash r' = in_request_hash r \<and> in_host_session_id r' = in_host_session_id r
     \<and> in_runtime_id r' = in_runtime_id r \<and> in_operation_id r' = in_operation_id r
     \<and> in_invocation_id r' = in_invocation_id r
     \<and> (in_broker_submission_id r \<noteq> None \<longrightarrow> in_broker_submission_id r' = in_broker_submission_id r)
     \<and> (\<not> awaiting r \<longrightarrow> outcome r' = outcome r))"

definition rows_advance :: "input_row list \<Rightarrow> input_row list \<Rightarrow> bool" where
  "rows_advance rs rs' = (\<forall>r \<in> set rs. \<exists>r' \<in> set rs'. advances r r')"

definition evolves :: "input_db \<Rightarrow> input_db \<Rightarrow> bool" where
  "evolves d d' = (inputs_ok d' \<and> rows_advance (id_inputs d) (id_inputs d')
     \<and> (\<forall>r \<in> set (id_inputs d). facts ''input.admitted'' (in_input_id r) (id_ledger d')
          = facts ''input.admitted'' (in_input_id r) (id_ledger d)))"

lemma advances_refl [simp]: "advances r r"
  by (simp add: advances_def)

lemma advances_trans: "advances r r' \<Longrightarrow> advances r' r'' \<Longrightarrow> advances r r''"
  unfolding advances_def awaiting_def by (metis)

lemma rows_advance_refl [simp]: "rows_advance rs rs"
  unfolding rows_advance_def using advances_refl by blast

lemma rows_advance_trans: "rows_advance rs rs' \<Longrightarrow> rows_advance rs' rs'' \<Longrightarrow> rows_advance rs rs''"
  unfolding rows_advance_def using advances_trans by blast

lemma advances_id: "advances r r' \<Longrightarrow> in_input_id r' = in_input_id r"
  by (simp add: advances_def)

lemma evolves_refl: "inputs_ok d \<Longrightarrow> evolves d d"
  by (auto simp: evolves_def)

lemma evolves_trans:
  assumes "evolves d d'" "evolves d' d''"
  shows "evolves d d''"
proof -
  have "facts ''input.admitted'' (in_input_id r) (id_ledger d'') = facts ''input.admitted'' (in_input_id r) (id_ledger d)"
    if r: "r \<in> set (id_inputs d)" for r
  proof -
    obtain r' where r': "r' \<in> set (id_inputs d')" "advances r r'"
      using assms(1) r unfolding evolves_def rows_advance_def by blast
    then show ?thesis
      using assms r advances_id [OF r'(2)] unfolding evolves_def by metis
  qed
  then show ?thesis
    using assms rows_advance_trans unfolding evolves_def by blast
qed

lemma evolves_ok: "evolves d d' \<Longrightarrow> inputs_ok d'"
  by (simp add: evolves_def)

text \<open>A change that leaves inputs and facts alone.\<close>

lemma evolves_frame:
  assumes "inputs_ok d" "id_inputs d' = id_inputs d" "id_ledger d' = id_ledger d"
    "\<forall>be \<in> set (db_broker_events (rs_db (id_store d'))). 0 \<le> be_seq be"
  shows "evolves d d'"
  using assms by (auto simp: evolves_def inputs_ok_def)

lemma facts_append: "facts kind i (snd (append_persisted e l)) = facts kind i l @
    (if hr_event_kind e = kind \<and> payload_string (hr_payload e) ''inputId'' = Some i
     then [fst (append_persisted e l)] else [])"
  by (simp add: facts_def append_persisted_def Let_def)

lemma append_persisted_same [simp]:
  "hr_event_kind (fst (append_persisted e l)) = hr_event_kind e"
  "hr_payload (fst (append_persisted e l)) = hr_payload e"
  "hr_runtime_id (fst (append_persisted e l)) = hr_runtime_id e"
  by (simp_all add: append_persisted_def Let_def)

lemma lg_rows_append: "lg_rows (snd (append_persisted e l)) = lg_rows l @ [fst (append_persisted e l)]"
  by (simp add: append_persisted_def Let_def)

lemma append_input_event_simps [simp]:
  "id_inputs (append_input_event e d) = id_inputs d" "id_store (append_input_event e d) = id_store d"
  "id_ledger (append_input_event e d) = snd (append_persisted e (id_ledger d))"
  by (simp_all add: append_input_event_def)

lemma told_other:
  assumes "told l r" "hr_event_kind e \<notin> set input_fact_kinds \<or> payload_string (hr_payload e) ''inputId'' \<noteq> Some (in_input_id r)"
  shows "told (snd (append_persisted e l)) r"
  using assms by (auto simp: told_def facts_append input_fact_kinds_def)

lemma evolves_other_event:
  assumes "inputs_ok d" "hr_event_kind e \<notin> set input_fact_kinds"
  shows "evolves d (append_input_event e d)"
  using assms told_other [of "id_ledger d" _ e]
  by (auto simp: evolves_def inputs_ok_def lg_rows_append facts_append input_fact_kinds_def)

lemma unique_input: "inputs_ok d \<Longrightarrow> r \<in> set (id_inputs d) \<Longrightarrow> r' \<in> set (id_inputs d) \<Longrightarrow> in_input_id r = in_input_id r' \<Longrightarrow> r = r'"
  unfolding inputs_ok_def inputs_constraints_def distinct_map by (blast dest: inj_onD)

text \<open>One row is rewritten, and at most one event is told of it.\<close>

lemma evolves_update:
  assumes ok: "inputs_ok d" and d': "id_inputs d' = map (\<lambda>r. if cond r then f r else r) (id_inputs d)"
      "inputs_constraints (id_inputs d')" "id_ledger d' = snd (append_persisted e (id_ledger d)) \<or> id_ledger d' = id_ledger d"
      "db_broker_events (rs_db (id_store d')) = db_broker_events (rs_db (id_store d))"
    and rows: "\<And>r. r \<in> set (id_inputs d) \<Longrightarrow> cond r \<Longrightarrow> advances r (f r) \<and> (awaiting (f r) \<or> landed_on (f r) \<or> released (f r))
      \<and> told (id_ledger d') (f r)"
    and others: "\<And>r. r \<in> set (id_inputs d) \<Longrightarrow> \<not> cond r \<Longrightarrow> told (id_ledger d') r"
    and event: "hr_event_kind e \<noteq> ''input.admitted''"
      "payload_string (hr_payload e) ''inputId'' \<in> (\<lambda>r. Some (in_input_id r)) ` set (id_inputs d)"
  shows "evolves d d'"
proof -
  let ?g = "\<lambda>r. if cond r then f r else r"
  have adv: "advances r (?g r)" if "r \<in> set (id_inputs d)" for r using rows [OF that] by simp
  have ids: "(\<lambda>r. Some (in_input_id r)) ` set (id_inputs d') = (\<lambda>r. Some (in_input_id r)) ` set (id_inputs d)"
    unfolding d'(1) set_map image_image using adv advances_id by (intro image_cong) auto
  have "(awaiting r' \<or> landed_on r' \<or> released r') \<and> told (id_ledger d') r'" if "r' \<in> set (id_inputs d')" for r'
    using that rows others ok unfolding d'(1) by (auto simp: inputs_ok_def)
  moreover have "payload_string (hr_payload x) ''inputId'' \<in> (\<lambda>r. Some (in_input_id r)) ` set (id_inputs d')"
    if "x \<in> set (lg_rows (id_ledger d'))" "hr_event_kind x \<in> set input_fact_kinds" for x
    using that d'(3) ok event(2) unfolding ids by (auto simp: inputs_ok_def lg_rows_append)
  ultimately have "inputs_ok d'" using d'(2,4) ok unfolding inputs_ok_def by auto
  moreover have "rows_advance (id_inputs d) (id_inputs d')"
    using adv unfolding rows_advance_def d'(1) set_map by (intro ballI bexI [OF _ imageI])
  moreover have "facts ''input.admitted'' i (id_ledger d') = facts ''input.admitted'' i (id_ledger d)" for i
    using d'(3) event(1) by (auto simp: facts_append)
  ultimately show ?thesis by (simp add: evolves_def)
qed

section \<open>Every operation keeps the ledger of inputs\<close>

abbreviation broker_rows :: "input_db \<Rightarrow> broker_event_row list" where
  "broker_rows d \<equiv> db_broker_events (rs_db (id_store d))"

lemma update_where_broker: "update_where cond f db = Inr (db', n) \<Longrightarrow> db_broker_events db' = db_broker_events db"
  by (auto simp: update_where_def then_do_Inr_iff write_runs_Inr_iff)

lemma assign_positions_broker: "assign_positions h sid ids n db = Inr db' \<Longrightarrow> db_broker_events db' = db_broker_events db"
  by (induction h sid ids n db rule: assign_positions.induct) (auto simp: then_do_Inr_iff split: if_splits dest!: update_where_broker)

lemma run_update_broker [simp]: "db_broker_events (rs_db (fst (run_update k p tok s))) = db_broker_events (rs_db s)"
  by (auto simp: run_update_def Let_def split: sum.split dest: update_where_broker)

lemma run_insert_broker [simp]: "db_broker_events (rs_db (fst (run_insert r tok s))) = db_broker_events (rs_db s)"
  by (auto simp: run_insert_def Let_def write_runs_Inr_iff split: sum.split)

lemma run_exec_broker [simp]: "db_broker_events (rs_db (run_exec (op, tok) s)) = db_broker_events (rs_db s)"
  by (cases op) (auto simp: mark_completed_def claim_queued_def mark_queued_coalesced_def snapshot_queued_def
      set_correlation_json_def Let_def split: sum.split option.split
      dest: update_where_broker assign_positions_broker)

lemma update_inputs_Inr_iff: "update_inputs cond f m i d = Inr (d', r) \<longleftrightarrow>
    inputs_constraints (map (\<lambda>r. if cond r then f r else r) (id_inputs d))
    \<and> d' = d\<lparr>id_inputs := map (\<lambda>r. if cond r then f r else r) (id_inputs d)\<rparr> \<and> get_input d' i = Some r"
  by (auto simp: update_inputs_def then_do_Inr_iff write_inputs_def require_input_def split: option.splits)

lemma require_input_Inr_iff: "require_input m d i = Inr r \<longleftrightarrow> get_input d i = Some r"
  by (auto simp: require_input_def split: option.splits)

lemma get_inputD: "get_input d i = Some r \<Longrightarrow> r \<in> set (id_inputs d) \<and> in_input_id r = i"
  by (auto simp: get_input_def dest: row_get_SomeD)

lemma inputs_ok_shape: "inputs_ok d \<Longrightarrow> r \<in> set (id_inputs d) \<Longrightarrow> awaiting r \<or> landed_on r \<or> released r"
  by (auto simp: inputs_ok_def)

lemma inputs_ok_told: "inputs_ok d \<Longrightarrow> r \<in> set (id_inputs d) \<Longrightarrow> told (id_ledger d) r"
  by (auto simp: inputs_ok_def)

lemma landed_onD: "landed_on r \<Longrightarrow> in_landing_kind r \<noteq> None \<and> in_broker_submission_id r \<noteq> None \<and> in_terminal_kind r = None
    \<and> in_carrier_run_id r \<noteq> None \<and> in_status r \<noteq> ''accepted''"
  by (auto simp: landed_on_def outcome_def split: option.splits) (case_tac [!] x2, auto)

lemma releasedD: "released r \<Longrightarrow> in_terminal_kind r \<noteq> None \<and> in_landing_kind r = None \<and> in_status r \<noteq> ''accepted''"
  by (auto simp: released_def outcome_def split: option.splits) (case_tac [!] x2, auto)

lemma awaitingD: "awaiting r \<Longrightarrow> in_terminal_kind r = None \<and> in_landing_kind r = None \<and> in_status r = ''accepted''
    \<and> in_cleanup_protection r = ''protected'' \<and> in_carrier_run_id r = None"
  by (simp add: awaiting_def outcome_def)

lemma shape_outcome:
  assumes "outcome r' = outcome r"
  shows "awaiting r' = awaiting r" "released r' = released r"
  using assms by (auto simp: awaiting_def released_def outcome_def split: option.split)

lemma landed_on_outcome:
  "outcome r' = outcome r \<Longrightarrow> in_broker_submission_id r' = in_broker_submission_id r \<Longrightarrow> landed_on r' = landed_on r"
  by (auto simp: landed_on_def outcome_def split: option.split)

lemma fenced_once_same: "in_runtime_id r' = in_runtime_id r \<Longrightarrow> in_invocation_id r' = in_invocation_id r \<Longrightarrow> fenced_once es r' = fenced_once es r"
  by (simp add: fenced_once_def admitted_for_def split: list.split)

lemma told_same:
  assumes "in_input_id r' = in_input_id r" "in_runtime_id r' = in_runtime_id r" "in_invocation_id r' = in_invocation_id r"
    "outcome r' = outcome r" "in_landing_kind r = None \<or> in_broker_submission_id r' = in_broker_submission_id r"
  shows "told l r' = told l r"
proof -
  note f = fenced_once_same [OF assms(2,3)]
  have "in_landing_kind r \<noteq> None \<longrightarrow> landed_payload r' = landed_payload r"
    using assms by (auto simp: landed_payload_def outcome_def)
  then show ?thesis using assms(1,4) by (auto simp: told_def outcome_def f)
qed

lemma accepted_awaiting: "inputs_ok d \<Longrightarrow> r \<in> set (id_inputs d) \<Longrightarrow> in_status r = ''accepted'' \<Longrightarrow> awaiting r"
  using inputs_ok_shape [of d r] landed_onD [of r] releasedD [of r] by auto

lemma bind_keeps:
  assumes ok: "inputs_ok d" and b: "bind_broker_submission i s at d = Inr (d', r)"
  shows "evolves d d' \<and> id_store d' = id_store d"
proof (cases "d' = d")
  case False
  let ?c = "\<lambda>r. in_input_id r = i \<and> in_broker_submission_id r = None"
  let ?f = "\<lambda>r. r\<lparr>in_broker_submission_id := Some s, in_updated_at := at\<rparr>"
  have u: "update_inputs ?c ?f ''failed to reload broker-bound input '' i d = Inr (d', r)"
    using b False by (auto simp: bind_broker_submission_def Let_def then_do_Inr_iff split: option.splits if_splits)
  note d' = u [unfolded update_inputs_Inr_iff]
  obtain r0 where r0: "r0 \<in> set (id_inputs d)"
    using b False by (auto simp: bind_broker_submission_def Let_def then_do_Inr_iff require_input_Inr_iff dest: get_inputD)
  have rows: "advances x (?f x) \<and> (awaiting (?f x) \<or> landed_on (?f x) \<or> released (?f x)) \<and> told (id_ledger d') (?f x)"
    if x: "x \<in> set (id_inputs d)" "?c x" for x
  proof -
    have nl: "\<not> landed_on x" using x(2) landed_onD by blast
    then have k: "in_landing_kind x = None" using inputs_ok_shape [OF ok x(1)] awaitingD releasedD by blast
    have same: "outcome (?f x) = outcome x" by (simp add: outcome_def)
    have t: "told (id_ledger d) (?f x) = told (id_ledger d) x"
      using k by (intro told_same [OF _ _ _ same]) simp_all
    have "awaiting (?f x) \<or> released (?f x)"
      using inputs_ok_shape [OF ok x(1)] nl shape_outcome [OF same] by blast
    then show ?thesis
      using x(2) same t inputs_ok_told [OF ok x(1)] d' by (auto simp: advances_def)
  qed
  have "evolves d d'"
    by (rule evolves_update [where cond = ?c and f = ?f and e = "input_event '''' '''' ctx None (JObj [(''inputId'', JStr (in_input_id r0))])", OF ok])
      (use d' rows inputs_ok_told [OF ok] r0 in \<open>auto simp: input_event_def payload_string_def jstring_def\<close>)
  then show ?thesis using d' by simp
qed (simp add: evolves_refl ok)

lemma claim_initiating_frame:
  assumes "claim_initiating ld run tok d = Inr d1"
  shows "id_inputs d1 = id_inputs d \<and> id_ledger d1 = id_ledger d \<and> broker_rows d1 = broker_rows d"
proof -
  have "broker_rows (d\<lparr>id_store := st\<rparr>) = broker_rows d" if "run_update k p tok (id_store d) = (st, out)" for k p st out
    using run_update_broker [of k p tok "id_store d"] that by simp
  then show ?thesis
    using assms by (auto simp: claim_initiating_def split: if_splits option.splits prod.splits sum.splits)
qed

lemma get_input_same: "id_inputs d' = id_inputs d \<Longrightarrow> get_input d' i = get_input d i"
  by (simp add: get_input_def)

text \<open>A landing that happens: what it found, and what it left.\<close>

lemma land_inputE:
  assumes "land_input ld ctx tok d = Inr d'" "d' \<noteq> d"
  obtains r run d1 d2 landed submission where
    "get_input d (ld_input_id ld) = Some r" "in_landing_kind r = None" "in_status r = ''accepted''"
    "get_by_run_id (rs_db (id_store d)) (ld_carrier_run_id ld) = Some run" "carrier_matches ld r run"
    "claim_initiating ld run tok d = Inr d1"
    "list_ex (live_carrier ld r) (id_runs d1)" "complete_coordinate r"
    "update_inputs (\<lambda>r. in_input_id r = ld_input_id ld \<and> in_landing_kind r = None) (landed_row ld)
       ''failed to reload landed input '' (ld_input_id ld) d1 = Inr (d2, landed)"
    "in_broker_submission_id landed = Some submission"
    "d' = append_input_event (landed_event ld submission ctx) d2"
proof -
  obtain r where r: "get_input d (ld_input_id ld) = Some r" "in_landing_kind r = None" "in_status r = ''accepted''"
    using assms by (auto simp: land_input_def split: option.splits if_splits)
  obtain run where run: "get_by_run_id (rs_db (id_store d)) (ld_carrier_run_id ld) = Some run" "carrier_matches ld r run"
    using assms r by (auto simp: land_input_def split: option.splits if_splits)
  obtain d1 d2 landed where d: "claim_initiating ld run tok d = Inr d1" "record_landing ld d1 = Inr (d2, landed)"
      "(case in_broker_submission_id landed of
         None \<Rightarrow> Inl (plain_error (''format-2 landed input has no broker submission: '' @ in_input_id landed))
       | Some submission \<Rightarrow> Inr (append_input_event (landed_event ld submission ctx) d2)) = Inr d'"
    using assms r run by (auto simp: land_input_def then_do_Inr_iff split: if_splits)
  obtain submission where s: "in_broker_submission_id landed = Some submission"
      "d' = append_input_event (landed_event ld submission ctx) d2"
    using d(3) by (auto split: option.splits)
  have prior: "get_input d1 (ld_input_id ld) = Some r"
    using claim_initiating_frame [OF d(1)] r(1) get_input_same by metis
  have "complete_coordinate r" "list_ex (live_carrier ld r) (id_runs d1)"
      "update_inputs (\<lambda>r. in_input_id r = ld_input_id ld \<and> in_landing_kind r = None) (landed_row ld)
       ''failed to reload landed input '' (ld_input_id ld) d1 = Inr (d2, landed)"
    using d(2) r(2,3) prior by (auto simp: record_landing_def require_input_def split: if_splits)
  then show ?thesis using that r run d(1) s by blast
qed

lemma outcome_landed_row: "landed_on (landed_row ld r)"
    if "in_broker_submission_id r = Some s" "in_terminal_kind r = None"
  using that by (simp add: landed_on_def outcome_def landed_row_def)

lemma payload_string_simp [simp]: "payload_string (JObj ((k, v) # ob)) k' =
    (if k = k' then json_string v else payload_string (JObj ob) k')"
  by (simp add: payload_string_def jstring_def)

lemma land_input_keeps:
  assumes ok: "inputs_ok d" and l: "land_input ld ctx tok d = Inr d'"
  shows "evolves d d'"
proof (cases "d' = d")
  case False
  obtain r run d1 d2 landed submission where
    r: "get_input d (ld_input_id ld) = Some r" "in_landing_kind r = None" "in_status r = ''accepted''"
    and "get_by_run_id (rs_db (id_store d)) (ld_carrier_run_id ld) = Some run" "carrier_matches ld r run"
    and claim: "claim_initiating ld run tok d = Inr d1"
    and "list_ex (live_carrier ld r) (id_runs d1)" "complete_coordinate r"
    and u: "update_inputs (\<lambda>r. in_input_id r = ld_input_id ld \<and> in_landing_kind r = None) (landed_row ld)
       ''failed to reload landed input '' (ld_input_id ld) d1 = Inr (d2, landed)"
    and s: "in_broker_submission_id landed = Some submission"
    and d': "d' = append_input_event (landed_event ld submission ctx) d2"
    by (rule land_inputE [OF l False])
  let ?c = "\<lambda>r. in_input_id r = ld_input_id ld \<and> in_landing_kind r = None"
  let ?e = "landed_event ld submission ctx"
  have frame: "id_inputs d1 = id_inputs d" "id_ledger d1 = id_ledger d" "broker_rows d1 = broker_rows d"
    using claim_initiating_frame [OF claim] by simp_all
  note d2 = u [unfolded update_inputs_Inr_iff frame]
  have rin: "r \<in> set (id_inputs d)" "in_input_id r = ld_input_id ld" using get_inputD [OF r(1)] by simp_all
  have one: "x = r" if "x \<in> set (id_inputs d)" "in_input_id x = ld_input_id ld" for x
    using unique_input [OF ok that(1) rin(1)] that(2) rin(2) by simp
  have w: "awaiting r" using accepted_awaiting [OF ok rin(1) r(3)] .
  have "landed \<in> set (id_inputs d2)" "in_input_id landed = ld_input_id ld" using d2 get_inputD by blast+
  then have landed: "landed = landed_row ld r"
    using d2 r(2) one by (auto split: if_splits)
  have sub: "in_broker_submission_id r = Some submission" using s by (simp add: landed landed_row_def)
  have ev: "hr_event_kind ?e = ''input.landed''" "payload_string (hr_payload ?e) ''inputId'' = Some (ld_input_id ld)"
      "hr_payload ?e = landed_payload (landed_row ld r)"
    using sub rin(2) by (simp_all add: landed_event_def input_event_def landed_payload_def landed_row_def)
  have new: "told (snd (append_persisted ?e (id_ledger d))) (landed_row ld r)"
    using inputs_ok_told [OF ok rin(1)] awaitingD [OF w] rin(2) ev fenced_once_same [of "landed_row ld r" r]
    by (simp add: told_def facts_append landed_row_def)
  show ?thesis
  proof (rule evolves_update [where cond = ?c and f = "landed_row ld" and e = ?e, OF ok])
    show "id_inputs d' = map (\<lambda>r. if ?c r then landed_row ld r else r) (id_inputs d)" "inputs_constraints (id_inputs d')"
        "id_ledger d' = snd (append_persisted ?e (id_ledger d)) \<or> id_ledger d' = id_ledger d" "broker_rows d' = broker_rows d"
      using d2 frame by (simp_all add: d')
    show "advances x (landed_row ld x) \<and> (awaiting (landed_row ld x) \<or> landed_on (landed_row ld x) \<or> released (landed_row ld x))
      \<and> told (id_ledger d') (landed_row ld x)" if "x \<in> set (id_inputs d)" "?c x" for x
      using one [OF that(1)] that(2) w new outcome_landed_row [OF sub] awaitingD [OF w] d2 frame
      by (auto simp: d' advances_def landed_row_def)
    show "told (id_ledger d') x" if "x \<in> set (id_inputs d)" "\<not> ?c x" for x
    proof -
      have "in_input_id x \<noteq> ld_input_id ld" using one [OF that(1)] that(2) r(2) by blast
      then show ?thesis using told_other [OF inputs_ok_told [OF ok that(1)], of ?e] ev(2) d2 frame by (simp add: d')
    qed
    show "hr_event_kind ?e \<noteq> ''input.admitted''"
        "payload_string (hr_payload ?e) ''inputId'' \<in> (\<lambda>r. Some (in_input_id r)) ` set (id_inputs d)"
      using ev rin by (auto intro: image_eqI [where x = r])
  qed
qed (simp add: evolves_refl ok)

lemma input_for_envelopeD: "input_for_envelope ev iv rt d = Some r \<Longrightarrow> r \<in> set (id_inputs d)
    \<and> (\<exists>s \<in> set (native_ids ev). in_broker_submission_id r = Some s)"
proof -
  let ?rs = "filter (placed_at iv rt) (List.map_filter (get_by_submission d) (native_ids ev))"
  assume "input_for_envelope ev iv rt d = Some r"
  then have "remdups ?rs = [r]" by (auto simp: input_for_envelope_def split: list.splits)
  then have "r \<in> set ?rs" by (metis list.set_intros(1) set_remdups)
  then obtain s where "s \<in> set (native_ids ev)" "get_by_submission d s = Some r"
    by (auto simp: List.map_filter_def)
  then show ?thesis by (auto simp: get_by_submission_def find_Some_iff)
qed

lemma subject_ofD: "subject_of ev d = Some r \<Longrightarrow> r \<in> set (id_inputs d)
    \<and> (\<exists>s \<in> set (native_ids ev). in_broker_submission_id r = Some s)"
proof -
  assume "subject_of ev d = Some r"
  then obtain iv rt where "input_for_envelope ev iv rt d = Some r"
    by (auto simp: subject_of_def split: option.splits)
  then show ?thesis by (rule input_for_envelopeD)
qed

lemma terminal_keeps:
  assumes ok: "inputs_ok d" and t: "terminal_from_envelope ev ctx kind now d = Inr d'"
  shows "evolves d d'"
proof (cases "d' = d")
  case False
  obtain r where r: "subject_of ev d = Some r" "in_status r = ''accepted''" "in_landing_kind r = None"
    using t False by (auto simp: terminal_from_envelope_def Let_def split: option.splits if_splits)
  let ?at = "or_default (ev_time ev) now"
  let ?tf = "\<lparr>tf_input_id = in_input_id r, tf_terminal = kind, tf_terminal_at = ?at,
      tf_error_code = None, tf_error_message = envelope_reason ev\<rparr>"
  have rin: "r \<in> set (id_inputs d)" using subject_ofD [OF r(1)] by simp
  have w: "awaiting r" by (rule accepted_awaiting [OF ok rin r(2)])
  have get: "get_input d (in_input_id r) = Some r"
    using get_inputD [of d "in_input_id r"] unique_input [OF ok _ rin] rin
    by (cases "get_input d (in_input_id r)") (auto simp: get_input_def row_get_None_iff)
  let ?c = "\<lambda>x. in_input_id x = in_input_id r \<and> in_landing_kind x = None \<and> in_terminal_kind x = None"
  obtain d2 x where u: "update_inputs ?c (terminal_row ?tf) ''failed to reload terminal input '' (in_input_id r) d = Inr (d2, x)"
    and d': "d' = append_input_event (input_event ''input.terminal'' ?at ctx None
        (JObj ([(''inputId'', JStr (in_input_id x)), (''terminal'', JStr (show_terminal kind))]
          @ opt_field ''error'' (map_option (\<lambda>m. JObj [(''message'', JStr m)]) (envelope_reason ev))))) d2"
    using t r awaitingD [OF w]
    by (auto simp: terminal_from_envelope_def Let_def then_do_Inr_iff record_terminal_def require_input_Inr_iff get split: option.splits)
  let ?e = "input_event ''input.terminal'' ?at ctx None
        (JObj ([(''inputId'', JStr (in_input_id x)), (''terminal'', JStr (show_terminal kind))]
          @ opt_field ''error'' (map_option (\<lambda>m. JObj [(''message'', JStr m)]) (envelope_reason ev))))"
  note d2 = u [unfolded update_inputs_Inr_iff]
  have x: "in_input_id x = in_input_id r" using d2 get_inputD by blast
  have ev: "hr_event_kind ?e = ''input.terminal''" "payload_string (hr_payload ?e) ''inputId'' = Some (in_input_id r)"
    by (simp_all add: input_event_def x)
  have one: "y = r" if "y \<in> set (id_inputs d)" "in_input_id y = in_input_id r" for y
    using unique_input [OF ok that(1) rin that(2)] .
  have fin: "released (terminal_row ?tf r)" "advances r (terminal_row ?tf r)"
    using w by (auto simp: released_def outcome_def terminal_row_def advances_def awaiting_def)
  have new: "told (snd (append_persisted ?e (id_ledger d))) (terminal_row ?tf r)"
    using inputs_ok_told [OF ok rin] awaitingD [OF w] ev fenced_once_same [of "terminal_row ?tf r" r]
    by (simp add: told_def facts_append terminal_row_def)
  show ?thesis
  proof (rule evolves_update [where cond = ?c and f = "terminal_row ?tf" and e = ?e, OF ok])
    show "id_inputs d' = map (\<lambda>r. if ?c r then terminal_row ?tf r else r) (id_inputs d)" "inputs_constraints (id_inputs d')"
        "id_ledger d' = snd (append_persisted ?e (id_ledger d)) \<or> id_ledger d' = id_ledger d" "broker_rows d' = broker_rows d"
      using d2 by (simp_all add: d')
    show "advances y (terminal_row ?tf y) \<and> (awaiting (terminal_row ?tf y) \<or> landed_on (terminal_row ?tf y)
        \<or> released (terminal_row ?tf y)) \<and> told (id_ledger d') (terminal_row ?tf y)"
      if "y \<in> set (id_inputs d)" "?c y" for y
      using one [OF that(1)] that(2) fin new d2 by (auto simp: d')
    show "told (id_ledger d') y" if "y \<in> set (id_inputs d)" "\<not> ?c y" for y
    proof -
      have "in_input_id y \<noteq> in_input_id r" using one [OF that(1)] that(2) awaitingD [OF w] by blast
      then show ?thesis using told_other [OF inputs_ok_told [OF ok that(1)], of ?e] ev(2) d2 by (simp add: d')
    qed
    show "hr_event_kind ?e \<noteq> ''input.admitted''"
        "payload_string (hr_payload ?e) ''inputId'' \<in> (\<lambda>r. Some (in_input_id r)) ` set (id_inputs d)"
      using ev rin by auto
  qed
qed (simp add: evolves_refl ok)

lemma correlate_keeps:
  assumes ok: "inputs_ok d" and c: "correlate_input r ctx obs now detail d = Inr d'"
  shows "evolves d d'"
proof -
  let ?c = "\<lambda>x. in_input_id x = in_input_id r"
  let ?f = "\<lambda>x. x\<lparr>in_uncertainty := Some (show_fact obs), in_updated_at := now\<rparr>"
  obtain d2 x e where u: "update_inputs ?c ?f ''failed to reload correlated input '' (in_input_id r) d = Inr (d2, x)"
    and d': "d' = append_input_event e d2" and e: "hr_event_kind e = ''input.correlation''"
      "payload_string (hr_payload e) ''inputId'' = Some (in_input_id x)" and x: "\<exists>y. get_input d (in_input_id r) = Some y"
    using c by (fastforce simp: correlate_input_def then_do_Inr_iff record_correlation_def require_input_Inr_iff input_event_def)
  note d2 = u [unfolded update_inputs_Inr_iff]
  have xid: "in_input_id x = in_input_id r" using d2 get_inputD by blast
  obtain y where y: "y \<in> set (id_inputs d)" "in_input_id y = in_input_id r" using x get_inputD by blast
  have out: "outcome (?f z) = outcome z" for z by (simp add: outcome_def)
  show ?thesis
  proof (rule evolves_update [where cond = ?c and f = ?f and e = e, OF ok])
    show "id_inputs d' = map (\<lambda>r. if ?c r then ?f r else r) (id_inputs d)" "inputs_constraints (id_inputs d')"
        "id_ledger d' = snd (append_persisted e (id_ledger d)) \<or> id_ledger d' = id_ledger d" "broker_rows d' = broker_rows d"
      using d2 by (simp_all add: d')
    show "advances z (?f z) \<and> (awaiting (?f z) \<or> landed_on (?f z) \<or> released (?f z)) \<and> told (id_ledger d') (?f z)"
      if z: "z \<in> set (id_inputs d)" "?c z" for z
    proof -
      have "told (id_ledger d') z"
        using told_other [OF inputs_ok_told [OF ok z(1)], of e] e(1) d2 by (simp add: d' input_fact_kinds_def)
      then have "told (id_ledger d') (?f z)" using told_same [of "?f z" z, OF _ _ _ out] by simp
      moreover have "awaiting (?f z) \<or> landed_on (?f z) \<or> released (?f z)"
        using inputs_ok_shape [OF ok z(1)] shape_outcome [OF out] landed_on_outcome [OF out] by auto
      ultimately show ?thesis using out by (simp add: advances_def)
    qed
    show "told (id_ledger d') z" if "z \<in> set (id_inputs d)" "\<not> ?c z" for z
      using told_other [OF inputs_ok_told [OF ok that(1)], of e] e(1) d2 by (simp add: d' input_fact_kinds_def)
    show "hr_event_kind e \<noteq> ''input.admitted''"
        "payload_string (hr_payload e) ''inputId'' \<in> (\<lambda>r. Some (in_input_id r)) ` set (id_inputs d)"
      using e y xid by (auto intro: image_eqI [where x = y])
  qed
qed

lemma correlate_all_keeps: "inputs_ok d \<Longrightarrow> correlate_all rs ctx obs now detail d = Inr d' \<Longrightarrow> evolves d d'"
proof (induction rs arbitrary: d)
  case (Cons r rs)
  then obtain d1 where d1: "correlate_input r ctx obs now detail d = Inr d1" "correlate_all rs ctx obs now detail d1 = Inr d'"
    by (auto simp: then_do_Inr_iff)
  note e = correlate_keeps [OF Cons.prems(1) d1(1)]
  show ?case using evolves_trans [OF e Cons.IH [OF evolves_ok [OF e] d1(2)]] .
qed (simp add: evolves_refl)

lemma land_all_keeps: "inputs_ok d \<Longrightarrow> land_all lds ctx tok d = Inr d' \<Longrightarrow> evolves d d'"
proof (induction lds arbitrary: d)
  case (Cons ld lds)
  then obtain d1 where d1: "land_input ld ctx tok d = Inr d1" "land_all lds ctx tok d1 = Inr d'"
    by (auto simp: then_do_Inr_iff)
  note e = land_input_keeps [OF Cons.prems(1) d1(1)]
  show ?case using evolves_trans [OF e Cons.IH [OF evolves_ok [OF e] d1(2)]] .
qed (simp add: evolves_refl)

lemma project_keeps:
  assumes "inputs_ok d" "project_submission ev ctx now tok d = Inr d'"
  shows "evolves d d'"
proof -
  have land: "land_from_envelope ev ctx kind now tok d = Inr d' \<Longrightarrow> evolves d d'" for kind
    using assms(1) by (auto simp: land_from_envelope_def evolves_refl split: option.splits intro: land_input_keeps)
  have cor: "correlation_from_envelope ev ctx obs now d = Inr d' \<Longrightarrow> evolves d d'" for obs
    using assms(1) by (auto simp: correlation_from_envelope_def evolves_refl split: option.splits intro: correlate_keeps)
  show ?thesis
    using assms land cor terminal_keeps [OF assms(1)] evolves_refl [OF assms(1)]
    unfolding project_submission_def by (auto split: if_splits)
qed

text \<open>A reservation appends its row and its admission fact.\<close>

lemma max_broker_seq_nonneg: "inputs_ok d \<Longrightarrow> 0 \<le> max_broker_seq i d"
proof -
  assume ok: "inputs_ok d"
  show ?thesis
  proof (cases "map be_seq (filter (\<lambda>e. be_invocation_id e = i) (broker_rows d))")
    case (Cons n ns)
    then have "n \<in> be_seq ` set (broker_rows d)" by (metis (no_types) filter_is_subset image_mono image_set list.set_intros(1) subsetD)
    then have "0 \<le> n" using ok by (auto simp: inputs_ok_def)
    with Cons show ?thesis using fold_max_ge(2) [of n ns] by (simp add: max_broker_seq_def)
  qed (simp add: max_broker_seq_def)
qed

lemma rows_advance_append: "rows_advance rs (rs @ [r])"
proof -
  have "\<exists>x' \<in> set (rs @ [r]). advances x x'" if "x \<in> set rs" for x
    by (rule bexI [where x = x]) (use that in simp_all)
  then show ?thesis by (simp add: rows_advance_def)
qed

lemma reserve_keeps:
  assumes ok: "inputs_ok d"
    and r: "reserve_input session rtid transport invid (accepted_input i host key hash rtid opid invid sub opts now) now d = Inr (d', row)"
  shows "evolves d d' \<and> row = accepted_input i host key hash rtid opid invid sub opts now \<and> id_inputs d' = id_inputs d @ [row]"
proof -
  let ?rec = "accepted_input i host key hash rtid opid invid sub opts now"
  obtain d1 where d1: "input_insert ?rec d = Inr (d1, row)"
      "d' = append_input_event (admitted_event session rtid transport row invid (max_broker_seq invid d) now) d1"
    using r by (auto simp: reserve_input_def then_do_Inr_iff)
  have ins: "inputs_constraints (id_inputs d @ [?rec])" "d1 = d\<lparr>id_inputs := id_inputs d @ [?rec]\<rparr>" "get_input d1 i = Some row"
    using d1(1) by (auto simp: input_insert_def then_do_Inr_iff write_inputs_def require_input_Inr_iff accepted_input_def split: if_splits)
  have fresh: "i \<notin> in_input_id ` set (id_inputs d)"
    using ins(1) by (auto simp: inputs_constraints_def accepted_input_def)
  have row: "row = ?rec"
    using ins(2,3) fresh by (auto simp: get_input_def accepted_input_def dest!: row_get_SomeD)
  let ?e = "admitted_event session rtid transport row invid (max_broker_seq invid d) now"
  have ev: "hr_event_kind ?e = ''input.admitted''" "payload_string (hr_payload ?e) ''inputId'' = Some i"
    by (simp_all add: admitted_event_def input_event_def row accepted_input_def)
  have none: "facts kind i (id_ledger d) = []" if "kind \<in> set input_fact_kinds" for kind
    using ok fresh that by (force simp: facts_def inputs_ok_def filter_empty_conv)
  have adm: "admitted_for row (fst (append_persisted ?e (id_ledger d)))"
    using max_broker_seq_nonneg [OF ok, of invid]
    by (simp add: admitted_for_def row admitted_event_def input_event_def accepted_input_def jnumber_def payload_string_def
        jstring_def jget_append opt_field_def split: option.split)
  have told_new: "told (snd (append_persisted ?e (id_ledger d))) row"
    using none adm ev by (simp add: told_def facts_append fenced_once_def row accepted_input_def input_fact_kinds_def)
  have "told (snd (append_persisted ?e (id_ledger d))) x" if x: "x \<in> set (id_inputs d)" for x
    using told_other [OF inputs_ok_told [OF ok x], of ?e] ev(2) fresh x by auto
  moreover have "awaiting row" by (simp add: row awaiting_def outcome_def accepted_input_def)
  ultimately have "inputs_ok d'"
    using ok ins told_new ev unfolding inputs_ok_def d1(2)
    by (auto simp: lg_rows_append row accepted_input_def)
  moreover have "rows_advance (id_inputs d) (id_inputs d')"
    by (simp add: ins(2) d1(2) rows_advance_append)
  moreover have "facts ''input.admitted'' (in_input_id x) (id_ledger d') = facts ''input.admitted'' (in_input_id x) (id_ledger d)"
    if "x \<in> set (id_inputs d)" for x
    using that fresh ev(2) ins(2) by (auto simp: d1(2) facts_append)
  ultimately show ?thesis using row ins(2) d1(2) by (simp add: evolves_def)
qed

text \<open>A run table that changed, the inputs and the ledger as they were.\<close>

lemma evolves_store:
  assumes "inputs_ok d" "db_broker_events (rs_db st) = broker_rows d"
  shows "evolves d (d\<lparr>id_store := st\<rparr>)"
  using assms by (intro evolves_frame) (auto simp: inputs_ok_def)

lemma prepare_keeps:
  assumes "inputs_ok d" "prepare_turn_start ev iv rt generation now runId tok retained d = Inr (d', ts)"
  shows "evolves d d'"
proof -
  have "db_broker_events (rs_db st) = broker_rows d" if "run_insert row tok (id_store d) = (st, out)" for row st out
    using run_insert_broker [of row tok "id_store d"] that by simp
  then show ?thesis
    using assms(2) evolves_refl [OF assms(1)] evolves_store [OF assms(1)]
    by (auto simp: prepare_turn_start_def Let_def split: if_splits option.splits prod.splits sum.splits)
qed

lemma finalize_keeps:
  assumes ok: "inputs_ok d" and f: "finalize_turn_start ts ctx lifecycle now tok d = Inr d'"
  shows "evolves d d'"
proof (cases "\<exists>seq. lifecycle = Some (''turn.started'', seq)")
  case True
  then obtain seq where l: "lifecycle = Some (''turn.started'', seq)" ..
  define p where "p = no_patch\<lparr>p_observed_start_hrc_seq := Some seq, p_observation_state := Some ''observed'', p_updated_at := Some now\<rparr>"
  obtain st out where u: "run_update (ts_run_id ts) p tok (id_store d) = (st, out)" by (cases "run_update (ts_run_id ts) p tok (id_store d)")
  obtain lds where lds: "land_all lds ctx tok (d\<lparr>id_store := st\<rparr>) = Inr d'"
    using f u by (auto simp: finalize_turn_start_def l p_def Let_def split: sum.splits)
  have e: "evolves d (d\<lparr>id_store := st\<rparr>)"
    using run_update_broker [of "ts_run_id ts" p tok "id_store d"] u by (intro evolves_store ok) simp
  show ?thesis using evolves_trans [OF e land_all_keeps [OF evolves_ok [OF e] lds]] .
next
  case False
  then have "d' = d" using f by (auto simp: finalize_turn_start_def split: option.splits prod.splits)
  then show ?thesis using evolves_refl [OF ok] by simp
qed

text \<open>A dispatch changes the state only by reserving.\<close>

lemma dispatch_admitE:
  assumes "dispatch_admit session opts inputId now d = Inr (d', next_step)"
  shows "d' = d \<or> (\<exists>rt key hash r. reserve_warm_input session rt inputId key hash opts now d = Inr (d', r)
    \<and> get_by_admission d (ds_host_session_id session) key = None \<and> next_step = Submitting r rt
    \<and> do_idempotency_key opts = Some key \<and> do_request_hash opts = Some hash)"
  using assms
  by (auto simp: dispatch_admit_def dispatch_identity_def then_do_Inr_iff split: option.splits if_splits)

lemma warm_keeps:
  assumes "inputs_ok d" "reserve_warm_input session rt inputId key hash opts now d = Inr (d', r)"
  shows "evolves d d'"
  using assms by (auto simp: reserve_warm_input_def split: option.splits dest: reserve_keeps)

lemma input_exec_evolves:
  assumes ok: "inputs_ok d" and allowed: "input_op_allowed op"
  shows "evolves d (input_exec op d)"
proof (cases op)
  case (Admit session opts inputId now)
  then show ?thesis
    using dispatch_admitE [of session opts inputId now d] warm_keeps [OF ok] evolves_refl [OF ok]
    by (fastforce simp: committed_with_def split: sum.split)
next
  case (Settle session r rt result now)
  then show ?thesis
    using bind_keeps [OF ok] evolves_refl [OF ok]
    by (auto simp: dispatch_settle_def Let_def split: submit_result.split sum.split)
next
  case Admit_Cold
  then show ?thesis using reserve_keeps [OF ok] evolves_refl [OF ok]
    by (auto simp: reserve_cold_input_def committed_with_def split: sum.split)
next
  case Project
  then show ?thesis using project_keeps [OF ok] evolves_refl [OF ok] by (auto simp: committed_def split: sum.split)
next
  case Invocation_Fate
  then show ?thesis using correlate_all_keeps [OF ok] evolves_refl [OF ok]
    by (auto simp: committed_def invocation_correlation_def split: sum.split)
next
  case Prepare
  then show ?thesis using prepare_keeps [OF ok] evolves_refl [OF ok] by (auto simp: committed_with_def split: sum.split)
next
  case Finalize
  then show ?thesis using finalize_keeps [OF ok] evolves_refl [OF ok] by (auto simp: committed_def split: sum.split)
next
  case (Runs rop tok)
  then show ?thesis using evolves_store [OF ok, of "run_exec (rop, tok) (id_store d)"] by simp
next
  case Placement
  then show ?thesis using ok by (auto intro!: evolves_frame simp: inputs_ok_def)
next
  case Broker_Event
  then show ?thesis using ok allowed by (auto intro!: evolves_frame simp: inputs_ok_def)
next
  case Other_Event
  then show ?thesis using evolves_other_event [OF ok] allowed by simp
qed

interpretation inputs_from: op_history input_exec input_op_allowed "evolves d0" for d0
  by unfold_locales (use evolves_trans input_exec_evolves evolves_ok in blast)

lemma history_evolves: "inputs_ok d \<Longrightarrow> list_all input_op_allowed ops \<Longrightarrow> evolves d (input_history ops d)"
  unfolding input_history_def by (rule inputs_from.history_keeps) (simp_all add: evolves_refl)

end
