(* ===== verification/Input_Settlement.thy ===== *)
theory Input_Settlement
  imports Input_Histories
begin

text \<open>
  What ends the waiting of an input, and what a client of the ledger may rely on: the facts tell the
  rows, an outcome is final, a landing needs its live carrier, a replay answers the first receipt.
\<close>

section \<open>Landing needs a live run\<close>

text \<open>The run that carries a landed input is the live observed execution of the input's own placement.\<close>

definition carries :: "input_row \<Rightarrow> run_row \<Rightarrow> bool" where
  "carries r run = (in_carrier_run_id r = Some (r_run_id run) \<and> in_turn_id r \<noteq> None \<and> r_native_turn_id run = in_turn_id r
     \<and> in_run_started_hrc_seq r \<noteq> None \<and> r_observed_start_hrc_seq run = in_run_started_hrc_seq r
     \<and> Some (r_host_session_id run) = in_host_session_id r \<and> r_runtime_id run = in_runtime_id r
     \<and> r_operation_id run = in_operation_id r \<and> r_invocation_id run = in_invocation_id r
     \<and> r_execution_format run = Some ''format2'' \<and> r_completed_at run = None \<and> r_status run = RRunning)"

text \<open>The waiting inputs of a state, each still waiting in the next or settled as \<open>Q\<close> says.\<close>

definition settles :: "(input_row \<Rightarrow> input_row \<Rightarrow> bool) \<Rightarrow> input_db \<Rightarrow> input_db \<Rightarrow> bool" where
  "settles Q d d' = (\<forall>r \<in> set (id_inputs d). awaiting r \<longrightarrow>
     (\<exists>r' \<in> set (id_inputs d'). in_input_id r' = in_input_id r \<and> (awaiting r' \<or> Q r r')))"

lemma settles_frame: "set (id_inputs d) \<subseteq> set (id_inputs d') \<Longrightarrow> settles Q d d'"
  by (auto simp: settles_def)

lemma settles_update: "id_inputs d' = map (\<lambda>r. if cond r then f r else r) (id_inputs d) \<Longrightarrow>
    (\<And>r. r \<in> set (id_inputs d) \<Longrightarrow> cond r \<Longrightarrow> awaiting r \<Longrightarrow> in_input_id (f r) = in_input_id r \<and> (awaiting (f r) \<or> Q r (f r))) \<Longrightarrow>
    settles Q d d'"
proof -
  let ?g = "\<lambda>r. if cond r then f r else r"
  assume d': "id_inputs d' = map ?g (id_inputs d)"
    and f: "\<And>r. r \<in> set (id_inputs d) \<Longrightarrow> cond r \<Longrightarrow> awaiting r \<Longrightarrow> in_input_id (f r) = in_input_id r \<and> (awaiting (f r) \<or> Q r (f r))"
  have "?g r \<in> set (id_inputs d')" if "r \<in> set (id_inputs d)" for r unfolding d' set_map using that by (rule imageI)
  moreover have "in_input_id (?g r) = in_input_id r \<and> (awaiting (?g r) \<or> Q r (?g r))"
    if "r \<in> set (id_inputs d)" "awaiting r" for r
    using f that by (cases "cond r") simp_all
  ultimately show ?thesis unfolding settles_def by blast
qed

lemma settles_mono: "settles Q d d' \<Longrightarrow> (\<And>r r'. Q r r' \<Longrightarrow> Q' r r') \<Longrightarrow> settles Q' d d'"
  unfolding settles_def by blast

abbreviation landed_in :: "input_db \<Rightarrow> input_row \<Rightarrow> input_row \<Rightarrow> bool" where
  "landed_in d \<equiv> \<lambda>_ r. landed_on r \<and> list_ex (carries r) (id_runs d)"

lemma carries_outcome:
  assumes "advances r r'" "\<not> awaiting r"
  shows "carries r' = carries r"
  using assms by (auto simp: advances_def carries_def outcome_def fun_eq_iff)

lemma landed_on_advances: "advances r r' \<Longrightarrow> landed_on r \<Longrightarrow> landed_on r'"
  using landed_on_outcome [of r' r] landed_onD [of r] awaitingD [of r] by (auto simp: advances_def)

text \<open>A claim of the initiating input leaves every carrier as it was.\<close>

lemma claim_initiating_carries:
  assumes c: "claim_initiating ld run tok d = Inr d1" and x: "list_ex (carries r) (id_runs d)"
  shows "list_ex (carries r) (id_runs d1)"
proof (cases "d1 = d")
  case False
  define p where "p = no_patch\<lparr>p_initiating_input_id := Some (ld_input_id ld), p_updated_at := Some (ld_landed_at ld)\<rparr>"
  have same: "carries r (apply_patch p y) = carries r y" for y by (simp add: p_def carries_def apply_patch_def no_patch_def)
  have eff: "effective_patch db k p = p" for db k by (simp add: effective_patch_def p_def no_patch_def)
  obtain st out where u: "run_update (ld_carrier_run_id ld) p tok (id_store d) = (st, Inr out)" and d1: "d1 = d\<lparr>id_store := st\<rparr>"
    using c False by (auto simp: claim_initiating_def p_def split: if_splits option.splits prod.splits sum.splits)
  have "db_runs (rs_db st) = id_runs d \<or> db_runs (rs_db st)
      = map (\<lambda>y. if r_run_id y = ld_carrier_run_id ld then apply_patch p y else y) (id_runs d)"
    using u by (auto simp: run_update_def Let_def eff update_where_Inr_iff split: sum.splits if_splits)
  moreover have "list_ex (carries r) (map (\<lambda>y. if r_run_id y = k then apply_patch p y else y) ys) = list_ex (carries r) ys" for k ys
    by (induction ys) (simp_all add: same)
  ultimately show ?thesis using x by (auto simp: d1)
qed (use x in simp)

lemma land_input_settles:
  assumes ok: "inputs_ok d" and l: "land_input ld ctx tok d = Inr d'"
  shows "settles (landed_in d') d d' \<and> (\<forall>r. list_ex (carries r) (id_runs d) \<longrightarrow> list_ex (carries r) (id_runs d'))"
proof (cases "d' = d")
  case False
  obtain r run d1 d2 landed submission where
    r: "get_input d (ld_input_id ld) = Some r" "in_landing_kind r = None" "in_status r = ''accepted''"
    and "get_by_run_id (rs_db (id_store d)) (ld_carrier_run_id ld) = Some run" "carrier_matches ld r run"
    and claim: "claim_initiating ld run tok d = Inr d1"
    and live: "list_ex (live_carrier ld r) (id_runs d1)" "complete_coordinate r"
    and u: "update_inputs (\<lambda>r. in_input_id r = ld_input_id ld \<and> in_landing_kind r = None) (landed_row ld)
       ''failed to reload landed input '' (ld_input_id ld) d1 = Inr (d2, landed)"
    and s: "in_broker_submission_id landed = Some submission"
    and d': "d' = append_input_event (landed_event ld submission ctx) d2"
    by (rule land_inputE [OF l False])
  have frame: "id_inputs d1 = id_inputs d" using claim_initiating_frame [OF claim] by simp
  note d2 = u [unfolded update_inputs_Inr_iff frame]
  have runs: "id_runs d' = id_runs d1" using d2 by (simp add: d')
  have rin: "r \<in> set (id_inputs d)" "in_input_id r = ld_input_id ld" using get_inputD [OF r(1)] by simp_all
  have land: "landed_on (landed_row ld r)"
  proof -
    have "landed \<in> set (id_inputs d2)" "in_input_id landed = ld_input_id ld" using d2 get_inputD by blast+
    then have "landed = landed_row ld r"
      using d2 unique_input [OF ok _ rin(1)] rin(2) r(2) by (auto split: if_splits)
    then show ?thesis
      using s awaitingD [OF accepted_awaiting [OF ok rin(1) r(3)]] by (intro outcome_landed_row) (simp_all add: landed_row_def)
  qed
  have "carries (landed_row ld r) y" if "live_carrier ld r y" for y
    using that by (auto simp: live_carrier_def carries_def landed_row_def)
  then have "list_ex (carries (landed_row ld r)) (id_runs d')" using live(1) unfolding runs list_ex_iff by blast
  then have "settles (landed_in d') d d'"
    using unique_input [OF ok _ rin(1)] rin(2) land d2
    by (intro settles_update [where cond = "\<lambda>r. in_input_id r = ld_input_id ld \<and> in_landing_kind r = None" and f = "landed_row ld"])
      (auto simp: d' landed_row_def)
  then show ?thesis using claim_initiating_carries [OF claim] runs by simp
qed (simp add: settles_frame)

lemma land_all_settles: "inputs_ok d \<Longrightarrow> land_all lds ctx tok d = Inr d' \<Longrightarrow>
    settles (landed_in d') d d' \<and> (\<forall>r. list_ex (carries r) (id_runs d) \<longrightarrow> list_ex (carries r) (id_runs d'))"
proof (induction lds arbitrary: d)
  case (Cons ld lds)
  then obtain d1 where d1: "land_input ld ctx tok d = Inr d1" "land_all lds ctx tok d1 = Inr d'"
    by (auto simp: then_do_Inr_iff)
  have e: "evolves d d1" "evolves d1 d'"
    using land_input_keeps [OF Cons.prems(1) d1(1)] land_all_keeps [OF _ d1(2)] evolves_ok by blast+
  note one = land_input_settles [OF Cons.prems(1) d1(1)] and rest = Cons.IH [OF evolves_ok [OF e(1)] d1(2)]
  have "\<exists>r' \<in> set (id_inputs d'). in_input_id r' = in_input_id r \<and> (awaiting r' \<or> landed_in d' r r')"
    if r: "r \<in> set (id_inputs d)" "awaiting r" for r
  proof -
    obtain r1 where r1: "r1 \<in> set (id_inputs d1)" "in_input_id r1 = in_input_id r" "awaiting r1 \<or> landed_in d1 r r1"
      using one r unfolding settles_def by blast
    show ?thesis
    proof (cases "awaiting r1")
      case True
      then show ?thesis using rest r1 unfolding settles_def by metis
    next
      case False
      obtain r' where r': "r' \<in> set (id_inputs d')" "advances r1 r'"
        using e(2) r1(1) unfolding evolves_def rows_advance_def by blast
      have "landed_on r1" "list_ex (carries r1) (id_runs d1)" using r1(3) False by simp_all
      then have "landed_in d' r r'"
        using landed_on_advances [OF r'(2)] carries_outcome [OF r'(2) False] rest by simp
      then show ?thesis using r' advances_id [OF r'(2)] r1(2) by auto
    qed
  qed
  then show ?case using one rest unfolding settles_def by blast
qed (simp add: settles_frame)

text \<open>A rejection or withdrawal releases the one input its envelope names.\<close>

abbreviation released_by :: "input_envelope \<Rightarrow> input_row \<Rightarrow> input_row \<Rightarrow> bool" where
  "released_by ev \<equiv> \<lambda>r r'. released r' \<and> (\<exists>s \<in> set (native_ids ev). in_broker_submission_id r = Some s)"

lemma terminal_settles:
  assumes ok: "inputs_ok d" and t: "terminal_from_envelope ev ctx kind now d = Inr d'"
  shows "settles (released_by ev) d d'"
proof (cases "d' = d")
  case False
  obtain r where r: "subject_of ev d = Some r" "in_status r = ''accepted''" "in_landing_kind r = None"
    using t False by (auto simp: terminal_from_envelope_def Let_def split: option.splits if_splits)
  note s = subject_ofD [OF r(1)]
  define tf where "tf = \<lparr>tf_input_id = in_input_id r, tf_terminal = kind, tf_terminal_at = or_default (ev_time ev) now,
      tf_error_code = None, tf_error_message = envelope_reason ev\<rparr>"
  obtain d2 x where d2: "record_terminal tf d = Inr (d2, x)" "id_inputs d' = id_inputs d2"
    using t r by (auto simp: terminal_from_envelope_def Let_def then_do_Inr_iff tf_def)
  have prior: "y = r" if "get_input d (in_input_id r) = Some y" for y
    using get_inputD [OF that] unique_input [OF ok _ conjunct1 [OF s]] by blast
  let ?c = "\<lambda>x. in_input_id x = in_input_id r \<and> in_landing_kind x = None \<and> in_terminal_kind x = None"
  have "id_inputs d2 = id_inputs d \<or> id_inputs d2 = map (\<lambda>x. if ?c x then terminal_row tf x else x) (id_inputs d)"
    using d2(1) prior
    by (auto simp: record_terminal_def then_do_Inr_iff require_input_Inr_iff update_inputs_Inr_iff tf_def split: option.splits if_splits)
  then show ?thesis
  proof
    assume "id_inputs d2 = map (\<lambda>x. if ?c x then terminal_row tf x else x) (id_inputs d)"
    moreover have "in_input_id (terminal_row tf x) = in_input_id x \<and> released_by ev x (terminal_row tf x)"
      if "x \<in> set (id_inputs d)" "?c x" "awaiting x" for x
      using that s unique_input [OF ok that(1) conjunct1 [OF s]]
      by (auto simp: terminal_row_def released_def awaiting_def outcome_def)
    ultimately show ?thesis by (intro settles_update [where cond = ?c and f = "terminal_row tf"]) (auto simp: d2(2))
  qed (simp add: settles_frame d2(2))
qed (simp add: settles_frame)

lemma correlate_settles:
  assumes "correlate_input r ctx obs now detail d = Inr d'"
  shows "settles Q d d'"
proof -
  let ?f = "\<lambda>x. x\<lparr>in_uncertainty := Some (show_fact obs), in_updated_at := now\<rparr>"
  have "id_inputs d' = map (\<lambda>x. if in_input_id x = in_input_id r then ?f x else x) (id_inputs d)"
    using assms by (auto simp: correlate_input_def then_do_Inr_iff record_correlation_def update_inputs_Inr_iff)
  then show ?thesis by (rule settles_update) (auto simp: awaiting_def outcome_def)
qed

lemma correlate_all_settles: "correlate_all rs ctx obs now detail d = Inr d' \<Longrightarrow> settles (\<lambda>_ _. False) d d'"
proof (induction rs arbitrary: d)
  case (Cons r rs)
  then obtain d1 where d1: "correlate_input r ctx obs now detail d = Inr d1" "correlate_all rs ctx obs now detail d1 = Inr d'"
    by (auto simp: then_do_Inr_iff)
  show ?case
    using correlate_settles [OF d1(1), of "\<lambda>_ _. False"] Cons.IH [OF d1(2)] unfolding settles_def by metis
qed (simp add: settles_frame)

text \<open>What one operation does to the inputs that wait.\<close>

definition settled_by :: "input_op \<Rightarrow> input_db \<Rightarrow> input_row \<Rightarrow> input_row \<Rightarrow> bool" where
  "settled_by op d' r r' = (landed_on r' \<and> list_ex (carries r') (id_runs d')
     \<or> (case op of Project ev ctx now tok \<Rightarrow> ev_type ev \<in> {''submission.rejected'', ''submission.withdrawn''} \<and> released_by ev r r'
        | _ \<Rightarrow> False))"

lemma project_settles:
  assumes ok: "inputs_ok d" and p: "project_submission ev ctx now tok d = Inr d'"
  shows "settles (settled_by (Project ev ctx now tok) d') d d'"
proof -
  have land: "settles (landed_in d') d d'" if "land_from_envelope ev ctx kind now tok d = Inr d'" for kind
    using that land_input_settles [OF ok]
    by (auto simp: land_from_envelope_def settles_frame split: option.splits)
  have cor: "settles (\<lambda>_ _. False) d d'" if "correlation_from_envelope ev ctx obs now d = Inr d'" for obs
    using that correlate_settles by (auto simp: correlation_from_envelope_def settles_frame split: option.splits)
  consider (l) "settles (landed_in d') d d'" | (c) "settles (\<lambda>_ _. False) d d'"
    | (t) kind where "terminal_from_envelope ev ctx kind now d = Inr d'" "ev_type ev \<in> {''submission.rejected'', ''submission.withdrawn''}"
    using p land cor settles_frame [of d d' "\<lambda>_ _. False"] unfolding project_submission_def by (auto split: if_splits)
  then show ?thesis
  proof cases
    case t
    then show ?thesis using settles_mono [OF terminal_settles [OF ok t(1)]] unfolding settled_by_def by simp
  qed (auto simp: settled_by_def elim: settles_mono)
qed

lemma finalize_settles:
  assumes ok: "inputs_ok d" and f: "finalize_turn_start ts ctx lifecycle now tok d = Inr d'"
  shows "settles (landed_in d') d d'"
proof (cases "id_inputs d' = id_inputs d")
  case False
  then obtain seq where l: "lifecycle = Some (''turn.started'', seq)"
    using f by (auto simp: finalize_turn_start_def split: option.splits prod.splits if_splits)
  define p where "p = no_patch\<lparr>p_observed_start_hrc_seq := Some seq, p_observation_state := Some ''observed'', p_updated_at := Some now\<rparr>"
  obtain st out where u: "run_update (ts_run_id ts) p tok (id_store d) = (st, out)" by (cases "run_update (ts_run_id ts) p tok (id_store d)")
  obtain lds where lds: "land_all lds ctx tok (d\<lparr>id_store := st\<rparr>) = Inr d'"
    using f u by (auto simp: finalize_turn_start_def l p_def Let_def split: sum.splits)
  have "evolves d (d\<lparr>id_store := st\<rparr>)"
    using run_update_broker [of "ts_run_id ts" p tok "id_store d"] u by (intro evolves_store ok) simp
  then show ?thesis using land_all_settles [OF evolves_ok lds] by (simp add: settles_def)
qed (simp add: settles_frame)

lemma rewritten_settles: "set (id_inputs d) \<subseteq> set (id_inputs (input_exec op d)) \<Longrightarrow> settles Q d (input_exec op d)"
  by (rule settles_frame)

lemma bind_settles:
  assumes "bind_broker_submission i s at d = Inr (d', r)"
  shows "settles Q d d'"
proof (cases "d' = d")
  case False
  then have "id_inputs d' = map (\<lambda>r. if in_input_id r = i \<and> in_broker_submission_id r = None
      then r\<lparr>in_broker_submission_id := Some s, in_updated_at := at\<rparr> else r) (id_inputs d)"
    using assms
    by (auto simp: bind_broker_submission_def Let_def then_do_Inr_iff update_inputs_Inr_iff split: option.splits if_splits)
  then show ?thesis by (rule settles_update) (auto simp: awaiting_def outcome_def)
qed (simp add: settles_frame)

lemma input_exec_settles:
  assumes ok: "inputs_ok d"
  shows "settles (settled_by op (input_exec op d)) d (input_exec op d)"
proof (cases op)
  case (Admit session opts inputId now)
  have "set (id_inputs d) \<subseteq> set (id_inputs d')" if "dispatch_admit session opts inputId now d = Inr (d', nxt)" for d' nxt
    using dispatch_admitE [OF that] reserve_keeps [OF ok] by (fastforce simp: reserve_warm_input_def split: option.splits)
  then show ?thesis using Admit by (intro settles_frame) (auto simp: committed_with_def split: sum.split)
next
  case Settle
  then show ?thesis
    by (auto simp: dispatch_settle_def Let_def settles_frame split: submit_result.split sum.split intro: bind_settles)
next
  case Admit_Cold
  then show ?thesis using reserve_keeps [OF ok]
    by (intro settles_frame) (fastforce simp: reserve_cold_input_def committed_with_def split: sum.split)
next
  case (Project ev ctx now tok)
  then show ?thesis using project_settles [OF ok] by (auto simp: committed_def settles_frame split: sum.split)
next
  case Invocation_Fate
  then show ?thesis
    by (auto simp: committed_def invocation_correlation_def settles_frame split: sum.split
        intro: settles_mono [OF correlate_all_settles])
next
  case (Prepare ev iv rt generation now runId tok retained)
  have "id_inputs d' = id_inputs d" if "prepare_turn_start ev iv rt generation now runId tok retained d = Inr (d', ts)" for d' ts
    using that by (auto simp: prepare_turn_start_def Let_def split: if_splits option.splits prod.splits sum.splits)
  then show ?thesis using Prepare by (intro settles_frame) (auto simp: committed_with_def split: sum.split)
next
  case (Finalize ts ctx lifecycle now tok)
  show ?thesis
  proof (cases "finalize_turn_start ts ctx lifecycle now tok d")
    case (Inr d')
    then show ?thesis using settles_mono [OF finalize_settles [OF ok Inr]] Finalize
      by (simp add: committed_def settled_by_def)
  qed (simp add: Finalize committed_def settles_frame)
qed (simp_all add: settles_frame)

section \<open>What a history of inputs guarantees\<close>

lemma get_input_unique: "inputs_ok d \<Longrightarrow> r \<in> set (id_inputs d) \<Longrightarrow> get_input d (in_input_id r) = Some r"
  using unique_input [of d] by (cases "get_input d (in_input_id r)") (auto simp: get_input_def row_get_None_iff dest: row_get_SomeD)

lemma get_input_advances:
  assumes "evolves d d'" "get_input d i = Some r"
  obtains r' where "get_input d' i = Some r'" "advances r r'"
proof -
  have r: "r \<in> set (id_inputs d)" "in_input_id r = i" using get_inputD [OF assms(2)] by simp_all
  then obtain r' where r': "r' \<in> set (id_inputs d')" "advances r r'"
    using assms(1) unfolding evolves_def rows_advance_def by blast
  then show ?thesis
    using that get_input_unique [OF evolves_ok [OF assms(1)] r'(1)] advances_id [OF r'(2)] r(2) by simp
qed

text \<open>A replayed admission finds its row, with the same fence.\<close>

lemma get_by_admissionD: "get_by_admission d host key = Some r \<Longrightarrow> r \<in> set (id_inputs d)
    \<and> in_admission_host_session_id r = host \<and> in_idempotency_key r = key"
  by (auto simp: get_by_admission_def find_Some_iff)

lemma admission_key_unique:
  assumes "inputs_ok d" "r \<in> set (id_inputs d)"
  shows "get_by_admission d (in_admission_host_session_id r) (in_idempotency_key r) = Some r"
proof -
  let ?key = "\<lambda>r. (in_admission_host_session_id r, in_idempotency_key r)"
  have "inj_on ?key (set (id_inputs d))"
    using assms(1) by (simp add: inputs_ok_def inputs_constraints_def distinct_map)
  then have one: "x = r" if "x \<in> set (id_inputs d)" "?key x = ?key r" for x
    using inj_onD [OF _ that(2) that(1) assms(2)] by blast
  show ?thesis
  proof (cases "get_by_admission d (in_admission_host_session_id r) (in_idempotency_key r)")
    case None
    then show ?thesis using assms(2) by (auto simp: get_by_admission_def find_None_iff)
  next
    case (Some x)
    then show ?thesis using one [of x] get_by_admissionD [OF Some] by simp
  qed
qed

lemma get_by_admission_advances:
  assumes "evolves d d'" "get_by_admission d host key = Some r"
  obtains r' where "get_by_admission d' host key = Some r'" "advances r r'" "r' \<in> set (id_inputs d')"
proof -
  note r = get_by_admissionD [OF assms(2)]
  then obtain r' where r': "r' \<in> set (id_inputs d')" "advances r r'"
    using assms(1) unfolding evolves_def rows_advance_def by blast
  then show ?thesis
    using that admission_key_unique [OF evolves_ok [OF assms(1)] r'(1)] r by (simp add: advances_def)
qed

lemma admission_rows_facts: "admission_rows i rid ivid l
    = filter (\<lambda>e. hr_runtime_id e = Some rid \<and> payload_string (hr_payload e) ''invocationId'' = Some ivid)
        (facts ''input.admitted'' i l)"
  by (auto simp: admission_rows_def facts_def intro!: filter_cong)

lemma fence_found:
  assumes "told l r" "in_runtime_id r = Some rid" "in_invocation_id r = Some ivid"
  obtains n where "find_admission_after_seq (in_input_id r) rid ivid l = Some n" "0 \<le> n"
proof -
  obtain e where e: "facts ''input.admitted'' (in_input_id r) l = [e]" "admitted_for r e"
    using assms(1) by (auto simp: told_def fenced_once_def split: list.splits)
  then obtain ob n where "hr_payload e = JObj ob" "jnumber ob ''afterSeq'' = Some n" "0 \<le> n"
    by (auto simp: admitted_for_def split: json.splits option.splits)
  then show ?thesis
    using that e assms(2,3) by (simp add: find_admission_after_seq_def admission_rows_facts admitted_for_def)
qed

lemma fence_kept:
  assumes "evolves d d'" "r \<in> set (id_inputs d)"
  shows "find_admission_after_seq (in_input_id r) rid ivid (id_ledger d') = find_admission_after_seq (in_input_id r) rid ivid (id_ledger d)"
  using assms by (simp add: evolves_def find_admission_after_seq_def admission_rows_facts)

text \<open>
  C29. Along every history of admissions and projections (a runtime whose ledger the operator prunes is
  outside of them) each input of the ledger is in one of three shapes, waiting under
  protection, landed on a carrier run, or released by a rejection or withdrawal, and the lifecycle
  ledger tells the same story: exactly one admission fact with a fence for its placement, a landing
  fact that carries exactly the row's landing if and only if it has landed, one terminal fact if and
  only if it has been released.
\<close>

theorem input_ledger_tells_rows:
  assumes "inputs_ok d" "list_all input_op_allowed ops" "get_input (input_history ops d) i = Some r"
  shows "(awaiting r \<or> landed_on r \<or> released r) \<and> told (id_ledger (input_history ops d)) r"
  using evolves_ok [OF history_evolves [OF assms(1,2)]] get_inputD [OF assms(3)]
  by (auto simp: inputs_ok_def)

text \<open>
  An input is never lost, renamed or moved: along every history its row keeps its admission key,
  its request hash and its placement; a broker submission once bound stays the same; and once it has
  landed or was released, its status, protection, carrier, turn and terminal kind never change.
\<close>

theorem input_outcome_final:
  assumes "inputs_ok d" "list_all input_op_allowed ops" "get_input d i = Some r"
  shows "\<exists>r'. get_input (input_history ops d) i = Some r' \<and> advances r r'"
  by (rule get_input_advances [OF history_evolves [OF assms(1,2)] assms(3)]) blast

text \<open>
  C26. When an operation ends the waiting of an input, either it landed and the state holds its carrier,
  the live observed format-2 run of the input's own placement with the turn and start sequence of the
  row, or the operation projected a rejection or withdrawal whose envelope names the broker
  submission that the input was bound to. An uncertainty of the broker (lost, expired, cancelled, a
  failed or exited invocation) settles nothing.
\<close>

theorem input_settled_by_evidence:
  assumes "inputs_ok d" "input_op_allowed op" "get_input d i = Some r" "awaiting r"
    "get_input (input_exec op d) i = Some r'" "\<not> awaiting r'"
  shows "settled_by op (input_exec op d) r r'"
proof -
  note ok = evolves_ok [OF input_exec_evolves [OF assms(1,2)]]
  obtain x where x: "x \<in> set (id_inputs (input_exec op d))" "in_input_id x = in_input_id r"
      "awaiting x \<or> settled_by op (input_exec op d) r x"
    using input_exec_settles [OF assms(1), of op] assms(4) get_inputD [OF assms(3)] unfolding settles_def by blast
  then have "x = r'" using get_input_unique [OF ok x(1)] get_inputD [OF assms(3)] assms(5) by simp
  then show ?thesis using x(3) assms(6) by simp
qed

text \<open>
  A dispatch that replays an admission, the same session and idempotency key after any history,
  writes nothing: with another request hash it is refused as a conflict; with the same hash, while the
  runtime is still known and no other invocation was established, it answers the receipt of the
  first admission, its input id, invocation and after-sequence fence unchanged.
\<close>

theorem replay_answers_first_receipt:
  assumes "inputs_ok d" "get_by_admission d (ds_host_session_id session) key = Some r"
    "in_runtime_id r = Some rid" "in_invocation_id r = Some ivid" "list_all input_op_allowed ops"
    "do_idempotency_key opts = Some key" "do_request_hash opts = Some hash"
    "get_runtime (input_history ops d) rid = Some rt" "do_established opts \<in> {None, Some ivid}"
  shows "dispatch_admit session opts i now (input_history ops d) =
    (if hash \<noteq> in_request_hash r
     then Inl (conflict_error ''format2 idempotency key was replayed with a different request'')
     else Inr (input_history ops d, Replied \<lparr>re_input_id = in_input_id r, re_host_session_id = ds_host_session_id session,
       re_generation = pr_generation rt, re_runtime_id = rid, re_invocation_id = ivid,
       re_after_seq = the (find_admission_after_seq (in_input_id r) rid ivid (id_ledger d))\<rparr>))"
proof -
  let ?d' = "input_history ops d"
  note e = history_evolves [OF assms(1,5)]
  obtain r' where r': "get_by_admission ?d' (ds_host_session_id session) key = Some r'" "advances r r'"
    by (rule get_by_admission_advances [OF e assms(2)])
  have rin: "r \<in> set (id_inputs d)" using get_by_admissionD [OF assms(2)] by simp
  obtain n where n: "find_admission_after_seq (in_input_id r) rid ivid (id_ledger d) = Some n"
    by (rule fence_found [OF inputs_ok_told [OF assms(1) rin] assms(3,4)])
  have "find_admission_after_seq (in_input_id r) rid ivid (id_ledger ?d') = Some n"
    using fence_kept [OF e rin] n by simp
  then have "format2_receipt session rt r' ?d' = Inr \<lparr>re_input_id = in_input_id r, re_host_session_id = ds_host_session_id session,
       re_generation = pr_generation rt, re_runtime_id = rid, re_invocation_id = ivid, re_after_seq = n\<rparr>"
    using r'(2) assms(3,4) by (simp add: format2_receipt_def advances_def)
  then show ?thesis
    using r' assms(3,4,6-9) n by (auto simp: dispatch_admit_def dispatch_identity_def advances_def)
qed

section \<open>Examples\<close>

text \<open>A warm runtime admits one input; the broker names a submission, executes it and starts a turn.\<close>

definition example_runtime :: placed_runtime where
  "example_runtime = \<lparr>pr_runtime_id = ''rt'', pr_host_session_id = ''hs'', pr_scope_ref = ''agent:a'', pr_lane_ref = ''main'',
     pr_generation = 1, pr_transport = ''headless'', pr_status = ''ready'', pr_controller_kind = ''harness-broker'',
     pr_active_operation_id = Some ''op'', pr_active_invocation_id = Some ''iv'', pr_created_at = ''1''\<rparr>"

definition example_invocation :: placed_invocation where
  "example_invocation = \<lparr>pi_invocation_id = ''iv'', pi_operation_id = ''op'', pi_runtime_id = ''rt'', pi_execution_format = ''format2''\<rparr>"

definition example_inputs :: input_db where
  "example_inputs = \<lparr>id_store = \<lparr>rs_db = empty_db\<lparr>db_sessions := [''hs''], db_runtimes :=
       [\<lparr>rt_runtime_id = ''rt'', rt_status = ''ready'', rt_active_run_id = None, rt_last_activity_at = None, rt_updated_at = ''1''\<rparr>]\<rparr>,
     rs_reserved = (\<lambda>_. None)\<rparr>, id_inputs = [],
     id_ledger = \<lparr>lg_incarnation = ''db'', lg_rows = [], lg_allocated = 0, lg_stream_cursor = 0\<rparr>,
     id_runtimes = [example_runtime], id_invocations = [example_invocation]\<rparr>"

definition example_caller :: dispatch_session where
  "example_caller = \<lparr>ds_host_session_id = ''hs'', ds_scope_ref = ''agent:a'', ds_lane_ref = ''main'', ds_generation = 1\<rparr>"

definition example_dispatch :: dispatch_options where
  "example_dispatch = \<lparr>do_idempotency_key = Some ''k'', do_request_hash = Some ''h'', do_door = Some ''queued'',
     do_origin = None, do_established = None\<rparr>"

definition example_context :: projection_ctx where
  "example_context = \<lparr>pc_runtime_id = ''rt'', pc_host_session_id = ''hs'', pc_scope_ref = ''agent:a'', pc_lane_ref = ''main'',
     pc_generation = 1, pc_transport = ''headless'', pc_run_id = Some ''run''\<rparr>"

definition example_evidence :: "string \<Rightarrow> input_envelope" where
  "example_evidence type = \<lparr>ev_invocation_id = ''iv'', ev_type = type, ev_time = Some ''5'', ev_input_id = None,
     ev_turn_id = Some ''t'', ev_harness_generation = Some 1, ev_turn_attempt = Some 1,
     ev_payload = JObj [(''submissionId'', JStr ''sub''), (''turnId'', JStr ''t'')]\<rparr>"

definition example_executed :: broker_event_row where
  "example_executed = \<lparr>be_invocation_id = ''iv'', be_seq = 4, be_time = ''4'', be_type = ''submission.executed'',
     be_run_id = None, be_runtime_id = ''rt'', be_harness_generation = Some 1, be_turn_attempt = Some 1,
     be_event_json = Some (ev_payload (example_evidence ''submission.executed'')), be_envelope_json = None\<rparr>"

definition example_bound :: "input_op list" where
  "example_bound = [Admit example_caller example_dispatch ''in'' ''2'',
     Settle example_caller (accepted_input ''in'' ''hs'' ''k'' ''h'' ''rt'' ''op'' ''iv'' None example_dispatch ''2'') example_runtime (Sub_Ok ''sub'') ''3'']"

definition example_landed :: "input_op list" where
  "example_landed = example_bound @ [Broker_Event example_executed,
     Prepare (example_evidence ''turn.started'') example_invocation example_runtime 1 ''5'' ''run'' None False,
     Finalize \<lparr>ts_run_id = ''run'', ts_turn_id = ''t'', ts_initiating_input_id = Some ''in'', ts_joined_input_ids = [], ts_minted = True\<rparr>
       example_context (Some (''turn.started'', 9)) ''6'' None]"

lemma example_inputs_ok: "inputs_ok example_inputs"
  by (simp add: inputs_ok_def example_inputs_def inputs_constraints_def empty_db_def)

lemma example_ops_allowed: "list_all input_op_allowed example_bound" "list_all input_op_allowed example_landed"
  by code_simp+

lemma example_bound_awaits: "map_option awaiting (get_input (input_history example_bound example_inputs) ''in'') = Some True"
  by code_simp

lemma example_landed_lands: "map_option (\<lambda>r. (in_carrier_run_id r, in_broker_submission_id r)) (get_input (input_history example_landed example_inputs) ''in'')
    = Some (Some ''run'', Some ''sub'')"
  by code_simp

lemma example_state_ok: "inputs_ok (input_history example_bound example_inputs)" "inputs_ok (input_history example_landed example_inputs)"
  by (rule evolves_ok, rule history_evolves [OF example_inputs_ok], rule example_ops_allowed)+

definition example_rejection :: input_op where
  "example_rejection = Project (example_evidence ''submission.rejected'') example_context ''7'' None"

lemma example_rejected: "(case get_input (input_exec example_rejection (input_history example_bound example_inputs)) ''in'' of
    Some r \<Rightarrow> \<not> awaiting r | None \<Rightarrow> False)"
  by code_simp

theorem input_ledger_tells_rows_witness:
  "\<exists>r. get_input (input_history example_landed example_inputs) ''in'' = Some r \<and> in_carrier_run_id r = Some ''run''
     \<and> (awaiting r \<or> landed_on r \<or> released r) \<and> told (id_ledger (input_history example_landed example_inputs)) r"
  using input_ledger_tells_rows [OF example_inputs_ok example_ops_allowed(2)] example_landed_lands by auto

theorem input_outcome_final_witness:
  "\<exists>r r'. get_input (input_history example_landed example_inputs) ''in'' = Some r
     \<and> get_input (input_history [example_rejection] (input_history example_landed example_inputs)) ''in'' = Some r' \<and> advances r r'"
proof -
  obtain r where r: "get_input (input_history example_landed example_inputs) ''in'' = Some r" using example_landed_lands by auto
  have "list_all input_op_allowed [example_rejection]" by (simp add: example_rejection_def)
  then show ?thesis using r input_outcome_final [OF example_state_ok(2) _ r] by blast
qed

theorem input_settled_by_evidence_witness:
  "\<exists>r r'. get_input (input_exec example_rejection (input_history example_bound example_inputs)) ''in'' = Some r'
     \<and> settled_by example_rejection (input_exec example_rejection (input_history example_bound example_inputs)) r r'"
proof -
  let ?d = "input_history example_bound example_inputs"
  obtain r where r: "get_input ?d ''in'' = Some r" "awaiting r" using example_bound_awaits by auto
  obtain r' where r': "get_input (input_exec example_rejection ?d) ''in'' = Some r'" "\<not> awaiting r'"
    using example_rejected by (auto split: option.splits)
  have "input_op_allowed example_rejection" by (simp add: example_rejection_def)
  then show ?thesis using r'(1) input_settled_by_evidence [OF example_state_ok(1) _ r r'] by blast
qed

theorem replay_answers_first_receipt_witness:
  "dispatch_admit example_caller example_dispatch ''in2'' ''8'' (input_history [] (input_history example_bound example_inputs))
     = Inr (input_history [] (input_history example_bound example_inputs), Replied \<lparr>re_input_id = ''in'', re_host_session_id = ''hs'',
         re_generation = 1, re_runtime_id = ''rt'', re_invocation_id = ''iv'', re_after_seq = 0\<rparr>)"
proof -
  let ?d = "input_history example_bound example_inputs"
  have "map_option (\<lambda>r. (in_runtime_id r, in_invocation_id r, in_request_hash r, in_input_id r)) (get_by_admission ?d ''hs'' ''k'')
      = Some (Some ''rt'', Some ''iv'', ''h'', ''in'')" "get_runtime ?d ''rt'' = Some example_runtime"
      "find_admission_after_seq ''in'' ''rt'' ''iv'' (id_ledger ?d) = Some 0"
    by code_simp+
  then show ?thesis
    using replay_answers_first_receipt [OF example_state_ok(1), of example_caller "''k''" _ "''rt''" "''iv''" "[]" example_dispatch "''h''"
        example_runtime "''in2''" "''8''"]
    by (auto simp: input_history_def example_caller_def example_dispatch_def example_runtime_def)
qed

end
