(* ===== verification/Submission_Admissions.thy ===== *)
theory Submission_Admissions
  imports Input_Ledger
begin

text \<open>
  The admission ledger of broker submissions (\<open>SubmissionAdmissionRepository\<close> of
  hrc-store-sqlite/src/repositories/broker-input-repositories.ts). A row is written from two sides,
  the admission at dispatch and the disposition from the broker's evidence, in either order.
\<close>

record submission_record =
  sa_submission_id :: string
  sa_run_id :: "string option"
  sa_runtime_id :: "string option"
  sa_invocation_id :: "string option"
  sa_door :: "string option"
  sa_envelope_id :: "string option"
  sa_admitted_at :: "string option"
  sa_disposition :: "string option"
  sa_disposed_at :: "string option"

record submission_admission =
  sm_submission_id :: string
  sm_run_id :: "string option"
  sm_runtime_id :: "string option"
  sm_invocation_id :: "string option"
  sm_door :: "string option"
  sm_envelope_id :: "string option"
  sm_admitted_at :: string

record submission_disposal =
  sd_submission_id :: string
  sd_disposition :: string
  sd_disposed_at :: string
  sd_only_if_absent :: bool

text \<open>\<open>INSERT ... ON CONFLICT(submission_id) DO UPDATE SET ...\<close>.\<close>

definition upsert_submission ::
  "submission_record \<Rightarrow> (submission_record \<Rightarrow> submission_record) \<Rightarrow> submission_record list \<Rightarrow> submission_record list" where
  "upsert_submission row upd rows =
     (if list_ex (\<lambda>r. sa_submission_id r = sa_submission_id row) rows
      then map (\<lambda>r. if sa_submission_id r = sa_submission_id row then upd r else r) rows
      else rows @ [row])"

definition upsert_admission :: "submission_admission \<Rightarrow> submission_record list \<Rightarrow> submission_record list" where
  "upsert_admission a = upsert_submission
     \<lparr>sa_submission_id = sm_submission_id a, sa_run_id = sm_run_id a, sa_runtime_id = sm_runtime_id a,
      sa_invocation_id = sm_invocation_id a, sa_door = sm_door a, sa_envelope_id = sm_envelope_id a,
      sa_admitted_at = Some (sm_admitted_at a), sa_disposition = None, sa_disposed_at = None\<rparr>
     (\<lambda>r. r\<lparr>sa_run_id := sm_run_id a, sa_runtime_id := sm_runtime_id a, sa_invocation_id := sm_invocation_id a,
        sa_door := orelse (sm_door a) (sa_door r), sa_envelope_id := orelse (sm_envelope_id a) (sa_envelope_id r),
        sa_admitted_at := Some (sm_admitted_at a)\<rparr>)"

definition record_disposition :: "submission_disposal \<Rightarrow> submission_record list \<Rightarrow> submission_record list" where
  "record_disposition s = upsert_submission
     \<lparr>sa_submission_id = sd_submission_id s, sa_run_id = None, sa_runtime_id = None, sa_invocation_id = None,
      sa_door = None, sa_envelope_id = None, sa_admitted_at = None,
      sa_disposition = Some (sd_disposition s), sa_disposed_at = Some (sd_disposed_at s)\<rparr>
     (\<lambda>r. if sd_only_if_absent s \<and> sa_disposition r \<noteq> None then r
       else r\<lparr>sa_disposition := Some (sd_disposition s), sa_disposed_at := Some (sd_disposed_at s)\<rparr>)"

text \<open>\<open>recordRetainedSubmissionDisposition\<close>: evidence recovered offline never replaces a disposition.\<close>

definition retained_disposition :: "input_envelope \<Rightarrow> string \<Rightarrow> string \<Rightarrow> submission_record list \<Rightarrow> submission_record list" where
  "retained_disposition ev disposition now rows =
     (case payload_string (ev_payload ev) ''submissionId'' of None \<Rightarrow> rows
      | Some submission \<Rightarrow> record_disposition \<lparr>sd_submission_id = submission, sd_disposition = disposition,
          sd_disposed_at = or_default (ev_time ev) now, sd_only_if_absent = True\<rparr> rows)"

section \<open>The two edges are independent\<close>

type_synonym submission_edge = "submission_admission + submission_disposal"

fun submission_exec :: "submission_edge \<Rightarrow> submission_record list \<Rightarrow> submission_record list" where
  "submission_exec (Inl a) = upsert_admission a"
| "submission_exec (Inr s) = record_disposition s"

definition submission_of :: "submission_record list \<Rightarrow> string \<Rightarrow> submission_record option" where
  "submission_of rows k = row_get sa_submission_id rows k"

lemma submission_of_map:
  assumes "\<And>r. sa_submission_id (upd r) = sa_submission_id r"
  shows "submission_of (map (\<lambda>r. if sa_submission_id r = i then upd r else r) rows) k
    = (if k = i then map_option upd (submission_of rows k) else submission_of rows k)"
  using assms by (induction rows) (auto simp: submission_of_def row_get_def)

lemma submission_of_append: "submission_of (rows @ [row]) k = orelse (submission_of rows k) (if sa_submission_id row = k then Some row else None)"
  by (induction rows) (auto simp: submission_of_def row_get_def orelse_def)

lemma submission_of_None: "submission_of rows k = None \<longleftrightarrow> \<not> list_ex (\<lambda>r. sa_submission_id r = k) rows"
  by (auto simp: submission_of_def row_get_None_iff list_ex_iff)

lemma submission_of_upsert:
  assumes "\<And>r. sa_submission_id (upd r) = sa_submission_id r"
  shows "submission_of (upsert_submission row upd rows) k = (if k = sa_submission_id row
     then Some (case submission_of rows k of None \<Rightarrow> row | Some r \<Rightarrow> upd r) else submission_of rows k)"
proof (cases "submission_of rows (sa_submission_id row)")
  case None
  then show ?thesis
    using submission_of_None [of rows "sa_submission_id row"]
    by (simp add: upsert_submission_def submission_of_append orelse_def split: option.split)
next
  case (Some r)
  then show ?thesis
    using submission_of_None [of rows "sa_submission_id row"] by (simp add: upsert_submission_def submission_of_map assms)
qed

text \<open>What the admissions, and what the dispositions, of one submission leave in its row.\<close>

definition admitted_part ::
  "submission_record \<Rightarrow> string option \<times> string option \<times> string option \<times> string option \<times> string option \<times> string option" where
  "admitted_part r = (sa_run_id r, sa_runtime_id r, sa_invocation_id r, sa_door r, sa_envelope_id r, sa_admitted_at r)"

definition disposed_part :: "submission_record \<Rightarrow> string option \<times> string option" where
  "disposed_part r = (sa_disposition r, sa_disposed_at r)"

definition parts_agree :: "submission_record option \<Rightarrow> submission_record option \<Rightarrow> submission_record option \<Rightarrow> bool" where
  "parts_agree x a s = (case x of None \<Rightarrow> a = None \<and> s = None
     | Some r \<Rightarrow> (a \<noteq> None \<or> s \<noteq> None)
        \<and> admitted_part r = (case a of Some r' \<Rightarrow> admitted_part r' | None \<Rightarrow> (None, None, None, None, None, None))
        \<and> disposed_part r = (case s of Some r' \<Rightarrow> disposed_part r' | None \<Rightarrow> (None, None))
        \<and> (\<forall>r' \<in> set_option a. disposed_part r' = (None, None))
        \<and> (\<forall>r' \<in> set_option s. admitted_part r' = (None, None, None, None, None, None)))"

lemma submission_of_exec_other [simp]:
  "sm_submission_id a \<noteq> k \<Longrightarrow> submission_of (submission_exec (Inl a) rows) k = submission_of rows k"
  "sd_submission_id s \<noteq> k \<Longrightarrow> submission_of (submission_exec (Inr s) rows) k = submission_of rows k"
  by (simp_all add: upsert_admission_def record_disposition_def submission_of_upsert)

definition is_admission :: "submission_edge \<Rightarrow> bool" where
  "is_admission e = (case e of Inl a \<Rightarrow> True | Inr s \<Rightarrow> False)"

lemma submission_id_of: "submission_of rows k = Some r \<Longrightarrow> sa_submission_id r = k"
  by (auto simp: submission_of_def dest: row_get_SomeD)

lemma edges_split: "parts_agree (submission_of (fold submission_exec es []) k)
    (submission_of (fold submission_exec (filter is_admission es) []) k)
    (submission_of (fold submission_exec (filter (\<lambda>e. \<not> is_admission e) es) []) k)"
proof (induction es rule: rev_induct)
  case Nil
  then show ?case by (simp add: parts_agree_def submission_of_def row_get_def)
next
  case (snoc e es)
  show ?case
  proof (cases e)
    case (Inl a)
    then show ?thesis using snoc
      by (cases "sm_submission_id a = k")
        (auto simp: is_admission_def parts_agree_def upsert_admission_def submission_of_upsert admitted_part_def
          disposed_part_def orelse_def split: option.splits)
  next
    case (Inr s)
    then show ?thesis using snoc
      by (cases "sd_submission_id s = k")
        (auto simp: is_admission_def parts_agree_def record_disposition_def submission_of_upsert admitted_part_def
          disposed_part_def orelse_def split: option.splits)
  qed
qed

lemma same_parts: "admitted_part r = admitted_part r' \<Longrightarrow> disposed_part r = disposed_part r' \<Longrightarrow>
    sa_submission_id r = sa_submission_id r' \<Longrightarrow> r = r'" for r r' :: submission_record
  by (cases r; cases r') (simp add: admitted_part_def disposed_part_def)

lemma parts_determine: "parts_agree x a s \<Longrightarrow> parts_agree y a s \<Longrightarrow> (\<And>r. x = Some r \<Longrightarrow> sa_submission_id r = k)
    \<Longrightarrow> (\<And>r. y = Some r \<Longrightarrow> sa_submission_id r = k) \<Longrightarrow> x = y" for x y :: "submission_record option"
  by (cases x; cases y) (auto simp: parts_agree_def intro: same_parts)

text \<open>
  The two edges of a submission may arrive in any order: two histories with the same admissions
  in the same order and the same dispositions in the same order leave the same row for every
  submission, however the admissions and dispositions were interleaved.
\<close>

theorem submission_edges_commute:
  assumes "filter is_admission es = filter is_admission es'"
    "filter (\<lambda>e. \<not> is_admission e) es = filter (\<lambda>e. \<not> is_admission e) es'"
  shows "submission_of (fold submission_exec es []) k = submission_of (fold submission_exec es' []) k"
  using edges_split [of es k] edges_split [of es' k] submission_id_of
  unfolding assms by (blast intro: parts_determine)

theorem submission_edges_commute_witness:
  "(let a = Inl \<lparr>sm_submission_id = ''s'', sm_run_id = None, sm_runtime_id = Some ''rt'', sm_invocation_id = Some ''iv'',
       sm_door = Some ''queued'', sm_envelope_id = None, sm_admitted_at = ''1''\<rparr>;
      d = Inr \<lparr>sd_submission_id = ''s'', sd_disposition = ''executed'', sd_disposed_at = ''2'', sd_only_if_absent = False\<rparr>
    in submission_of (fold submission_exec [a, d] []) ''s'' = submission_of (fold submission_exec [d, a] []) ''s'')"
  unfolding Let_def by (rule submission_edges_commute) (simp_all add: is_admission_def)

end
