(* ===== verification/Spec2Isabelle.thy ===== *)
theory Spec2Isabelle
  imports Admission_Pipeline Stream_Admission Append_Hub Settlement_Histories Queue_Drain Watch_Histories Monitor_Wait
    Authority_Lock Scope_Claims Placement_Recovery Server_Lock Metadata_Store Input_Settlement Submission_Admissions
begin

text \<open>
  A verification development of hrc-runtime, the daemon that hosts agent sessions. The daemon
  (src/packages/hrc-server) keeps its durable state in an SQLite store
  (src/packages/hrc-store-sqlite) and shares selectors, the monitor and session metadata with its
  clients (src/packages/hrc-core). A session of a scope and lane is the current host session of a
  continuity. Runtimes execute it, each turn is a run, and an external broker delivers the turns and
  reports what became of them as envelopes. What the runtime decides is recorded in a ledger of
  lifecycle events, which clients follow as a bounded stream or wait on through the monitor. Several
  daemons form a collective: a registry on one node says which node is the home of a scope.

  \<^bold>\<open>How the code is represented.\<close>
  An interface is a \<open>record\<close>, a tagged union a \<open>datatype\<close>, a table the list of its rows in rowid
  order. A value typed \<open>T | undefined\<close> or \<open>T | null\<close> is an option, and an operation that may throw
  returns \<open>js_error + 'a\<close>. An operation on mutable state takes the state and returns it with the
  answer; a transaction that throws returns the state it was given. Code that awaits is split at the
  awaits: what runs between two of them is one step, and a history is a list of steps, or an
  inductively reachable state, in any order the event loop can choose. JavaScript numbers are \<open>int\<close>
  or \<open>nat\<close>, because the code uses them as counters, sequence numbers and milliseconds below
  2 ^ 53, and strings are lists of code units below 256. Code outside the repository (the
  grammar of scope references of the package agent-scope, the broker, SHA-256, the collation order
  of the host) is an argument of the definitions that use it, collected in the records \<open>scope_lib\<close>,
  \<open>monitor_env\<close>, \<open>session_env\<close> and \<open>claim_env\<close> where it is used together.

  \<^bold>\<open>Shared theories.\<close>
  \<open>HRC_Prelude\<close> has the optional and fallible values, JSON values with their serialization, the
  operations on rows, and the locales that the histories are built on: \<open>op_history\<close> (an invariant
  that every allowed operation keeps), \<open>guarded_history\<close> (the guard may look at the state) and
  \<open>one_success\<close> (an operation that can succeed once). \<open>JS_String\<close> has the string methods,
  \<open>JS_Date\<close> the parser of the store's timestamps, \<open>Lease_Interface\<close> the contract between the
  admission pipeline and whoever grants leases, \<open>Store_Tables\<close> the tables that runs and turns read.

  \<^bold>\<open>Admission of turns.\<close>
  \<open>Admission_Gate\<close> models the drained-restart fence (turn-admission-gate.ts, the class method by
  method, with the file effects of \<open>close\<close> and \<open>reopen\<close> as steps). Its lemmas show that the count
  of leases is exact, that no close is left waiting, that a close returns a drained gate and that a
  restart reads back what was written. \<open>Admission_Pipeline\<close> models \<open>runLeasedAdmission\<close>
  (turn-admission/admit.ts) over arbitrary operations: the order of its steps, the lease that is given
  back on every path, and the classification of failures.

  \<^bold>\<open>Event streams.\<close>
  \<open>Bounded_Queue\<close>, \<open>Bounded_Delivery\<close> and \<open>Stream_Admission\<close> model bounded-event-stream.ts and the
  seam of event-handlers.ts that joins the replay of the ledger to the live events; \<open>Event_Ledger\<close>
  the ledger (event-repositories.ts) and \<open>Append_Hub\<close> its announcement to followers
  (lifecycle-append-hub.ts). The queue refines an account of the ledger interval it was handed: every
  sequence number is delivered as its event or lies in a reported gap, within the bounds of records
  and bytes. The delivery refines the queue through the locale \<open>fifo_source\<close>. The hub announces
  exactly the committed rows.

  \<^bold>\<open>Runs and turns.\<close>
  \<open>Run_Ownership\<close> and \<open>Run_Store\<close> model the reservation of run ids and the run repository
  (runtime-run-id-ownership.ts, runtime-repositories.ts), \<open>Run_Histories\<close> what histories of the
  repository keep, \<open>Queue_Snapshot\<close> the durable drain snapshot, \<open>Turn_Queue\<close> and \<open>Queue_Drain\<close> the
  queue of headless inputs (broker-headless-queue.ts), whose drain refines an abstract queue.
  \<open>Turn_Evidence\<close> and \<open>Turn_Settlement\<close> model broker/turn-ownership.ts: which run owns a native turn
  by the stored evidence, and how runs that never started are settled; \<open>Settlement_Histories\<close> shows
  that a settlement never touches a run that has started. \<open>First_Turn_Watch\<close> and \<open>Watch_Histories\<close>
  model the watchdog of first turns (first-turn-watch.ts, first-turn-eval.ts and its repository).

  \<^bold>\<open>Inputs.\<close>
  \<open>Input_Ledger\<close> models the durable ledger of format-2 inputs: the repository
  (broker-input-repositories.ts), the projection of broker evidence (event-mapper/format2-input.ts,
  run-resolution.ts) and the admission (broker-headless-format2.ts). \<open>Input_Histories\<close> relates the rows
  to the lifecycle facts along every history, \<open>Input_Settlement\<close> says what ends the waiting of an
  input, \<open>Submission_Admissions\<close> treats the ledger that is written from two sides in either order.

  \<^bold>\<open>Sessions.\<close>
  \<open>Session_Store\<close> models the repositories of sessions, continuities and claims and the fences
  (session-repositories.ts, session-identity.ts, roster-claim-repository.ts, fences.ts);
  \<open>Session_Rotation\<close> the rotation of a context, the successors and the first session of a lane
  (session-rotation.ts, session-successor.ts, target-message-successor-handlers.ts,
  server-session-methods.ts, scope-claim-core.ts); \<open>Scope_Claims\<close> claim-and-start (roster-claim.ts,
  exact-claim.ts); \<open>Authority_Lock\<close> the in-process locks around them (authority-lock.ts). A world is
  the store with the operations that are suspended in it. \<open>Session_Metadata\<close>, \<open>Metadata_Keys\<close> and
  \<open>Metadata_Store\<close> model session metadata (session-metadata.ts and its repository).

  \<^bold>\<open>Monitor.\<close>
  \<open>Selectors\<close> models the parsers and formatters of selectors.ts, \<open>Monitor_Reader\<close> the resolution, the
  snapshot and the watch of monitor/index.ts, and \<open>Monitor_Wait\<close> the condition waits of
  monitor/condition-engine.ts. The locale \<open>follow_reader\<close> is the contract between the last two.

  \<^bold>\<open>Placement.\<close>
  \<open>Placement_Registry\<close> models the placement ledger of a node and the registry
  (federation-repositories.ts, node-id.ts), \<open>Placement_Births\<close> births, designations, retirements,
  home authority and the routes of the registry (federation/establishment.ts, birth-designation.ts,
  retirement.ts, home-authority.ts, registry-endpoint.ts, registry-local-client.ts), \<open>Summon_Gate\<close> the
  decision whether a node may summon a scope (summon-gate*.ts). The abstract specification is that a
  scope has one home: \<open>Placement_Histories\<close> proves it for any number of nodes whose messages may be
  late, repeated or lost, \<open>Placement_Recovery\<close> proves that interrupted births and retirements converge
  and that a lost registry is rebuilt.

  \<^bold>\<open>The process.\<close>
  \<open>Server_Lock\<close> models the lock file of the daemon (server-lock.ts) for any number of processes that
  start, fail and die at any point.

  \<^bold>\<open>What the groups of lemmas show.\<close>
  For each component: what its operations do on every branch; an invariant, with a preservation
  lemma for each operation and what the operation leaves alone; the interpretation of a history
  locale, or rule induction over the reachable states, that lifts the invariant to histories; then
  the properties, each followed, where it has hypotheses, by a theorem that applies
  it to a concrete history. Histories that end in a state the code's comments exclude are theorems too
  (\<open>unreadable_lock_blocks_all\<close>, \<open>retired_scope_reuses_designation_epoch\<close> and others).

  \<^bold>\<open>Bounds and termination.\<close>
  No definition takes fuel. Loops over rows and over queued records are structural or have a
  measure: the eviction from the bounded queue and the trimming of a replay shorten it, the
  admission advances through its fixed list of steps, and the walk to the earlier sessions of a lane
  follows priors that it has not seen. The wait
  loop of the monitor may run for ever in the code and is a \<open>partial_function\<close> with the value \<open>None\<close>
  for that; that it returns is proved for waits with a timeout and for finite replays. The numeric
  bounds (records, bytes, page sizes, retry limits, roster suffixes) are those of the code, or
  arguments where the code takes them from its configuration.

  \<^bold>\<open>Not modelled.\<close>
  The controller of the broker and the projections of its envelopes other than inputs, whose payload
  types are declared in a package outside the repository; processes, tmux panes and file formats of
  other programs; HTTP transport, routing and request parsing outside the registry's routes; messages
  and mail other than the execution state of a queued message; migrations; the operator's pruning of
  runtimes and their ledgers; the reconciliation sweeps
  that compare rows with live processes; the transcript index; the command line; the client library;
  the Rust crates. They perform input and output, render, or compose the modelled operations with
  external programs.
\<close>

end
